(* ===== verification/NtpPrelude.thy ===== *)
theory NtpPrelude
  imports Main "HOL-Library.Word" "HOL-Library.Signed_Division"
begin

text \<open>
  Shared vocabulary of the development: the C integer types as fixed-width words, the C
  locale's character classes, and the word and list lemmas the component theories use.

  The machine is LP64: \<open>int\<close> and \<open>u_int32\<close> have 32 bits, \<open>long\<close> and \<open>u_long\<close>
  64 bits, \<open>short\<close> 16 bits and \<open>char\<close> 8 bits; signed values are two's complement and
  are read with \<open>sint\<close>. A C string is the list of its characters before the
  terminating NUL, so the test \<open>*cp == '\0'\<close> is the empty list.
\<close>

unbundle bit_operations_syntax

type_synonym u8 = "8 word"
type_synonym u16 = "16 word"
type_synonym u32 = "32 word"
type_synonym u64 = "64 word"

named_theorems lfp_simps "what the fixed-point macros do to the 64-bit value of their operands"
named_theorems word_to_int "readings of word operations on integers"

section \<open>Words read as integers\<close>

lemma and_ffff: "(x :: 'a::len word) AND 0xffff = take_bit 16 x"
proof -
  have "mask 16 = (0xffff :: 'a word)" by (simp add: mask_eq_exp_minus_1)
  then show ?thesis by (simp add: take_bit_eq_mask)
qed

lemma and_exp_bit: "((x :: 'a::len word) AND 2 ^ n \<noteq> 0) \<longleftrightarrow> bit x n"
  by (simp add: and_exp_eq_0_iff_not_bit)

lemma and_10000: "((x :: 'a::len word) AND 0x10000 \<noteq> 0) \<longleftrightarrow> bit x 16"
  using and_exp_bit [of x 16] by simp

lemma and_80000000: "((x :: 'a::len word) AND 0x80000000 \<noteq> 0) \<longleftrightarrow> bit x 31"
  using and_exp_bit [of x 31] by simp

lemma bit_uint_odd: "bit (w :: 'a::len word) n \<longleftrightarrow> odd (uint w div 2 ^ n)"
  by (metis bit_iff_odd bit_uint_iff bit_imp_le_length)

lemma uint_take_bit [word_to_int]: "uint (take_bit n (w :: 'a::len word)) = uint w mod 2 ^ n"
  unfolding unsigned_take_bit_eq by (rule take_bit_eq_mod)

lemma uint_drop_bit [word_to_int]: "uint (drop_bit n (w :: 'a::len word)) = uint w div 2 ^ n"
proof -
  have "uint (drop_bit n w) = drop_bit n (uint w)"
    by (simp add: unsigned_drop_bit_eq take_bit_eq_mod uint_idem)
  then show ?thesis by (simp only: drop_bit_eq_div)
qed

lemma uint_push_bit [word_to_int]:
  "uint (push_bit n (w :: 'a::len word)) = (uint w * 2 ^ n) mod 2 ^ LENGTH('a)"
proof -
  have "uint (push_bit n w) = take_bit LENGTH('a) (push_bit n (uint w))"
    by (simp add: unsigned_push_bit_eq)
  then show ?thesis by (simp add: take_bit_eq_mod push_bit_eq_mult)
qed

lemma uint_push_or_take:
  "uint (push_bit n a OR take_bit n (b :: 'a::len word)) =
     (uint a * 2 ^ n) mod 2 ^ LENGTH('a) + uint b mod 2 ^ n"
proof -
  have "uint (push_bit n a OR take_bit n b) =
      take_bit LENGTH('a) (push_bit n (uint a)) OR take_bit n (uint b)"
    by (simp add: unsigned_or_eq unsigned_push_bit_eq unsigned_take_bit_eq)
  also have "\<dots> = take_bit LENGTH('a) (push_bit n (uint a)) + take_bit n (uint b)"
    by (rule disjunctive_add_eq_or [symmetric]) (auto simp: bit_simps bit_eq_iff)
  finally show ?thesis by (simp add: take_bit_eq_mod push_bit_eq_mult)
qed

lemma uint_ucast_mod [word_to_int]:
  "uint (ucast (w :: 'a::len word) :: 'b::len word) = uint w mod 2 ^ LENGTH('b)"
  by (simp add: unsigned_ucast_eq take_bit_eq_mod)

lemma uint_not: "uint (NOT (w :: 'a::len word)) = 2 ^ LENGTH('a) - 1 - uint w"
proof -
  have e: "- 1 - uint w = - uint w - 1" by simp
  have "uint (NOT w) = (- 1 - uint w) mod 2 ^ LENGTH('a)"
    unfolding unsigned_not_eq e by (simp add: take_bit_eq_mod not_eq_complement)
  also have "\<dots> = (2 ^ LENGTH('a) - 1 - uint w) mod 2 ^ LENGTH('a)"
    using mod_add_self1 [of "2 ^ LENGTH('a)" "- 1 - uint w"] by (simp add: algebra_simps)
  also have "\<dots> = 2 ^ LENGTH('a) - 1 - uint w"
    using uint_bounded [of w] uint_nonnegative [of w] by (intro mod_pos_pos_trivial) linarith+
  finally show ?thesis .
qed

end
