(* ===== verification/NtpFixedPoint.thy ===== *)
theory NtpFixedPoint
  imports NtpPrelude
begin

text \<open>
  The fixed-point macros of \<open>ntpdist/include/ntp_fp.h\<close>. An \<^verbatim>\<open>l_fp\<close> is a pair of 32-bit
  words, 32 bits of seconds and 32 bits of fraction; the \<^verbatim>\<open>M_\<close> macros work on the two halves
  by 16-bit pieces, the \<^verbatim>\<open>L_\<close> macros on a record. The abstract value of a pair is the
  64-bit word \<open>word_cat\<close> of its halves, and the lemmas show that every macro is the
  corresponding 64-bit operation. Macros that the sources also use on \<open>u_long\<close> operands
  (\<^verbatim>\<open>M_NEG\<close>, \<^verbatim>\<open>M_ADD\<close>, \<^verbatim>\<open>M_LSHIFT\<close>, \<^verbatim>\<open>M_ISNEG\<close>) are polymorphic in the widths.
\<close>

section \<open>The macros\<close>

record l_fp =
  l_ui :: u32
  l_uf :: u32

definition M_NEG :: "'i::len word \<Rightarrow> 'f::len word \<Rightarrow> 'i word \<times> 'f word" where
  "M_NEG v_i v_f =
     (if v_f = 0 then (scast (- (ucast v_i :: u32)), v_f)
      else (NOT v_i, scast (- (ucast v_f :: u32))))"

definition M_NEGM :: "u32 \<Rightarrow> u32 \<Rightarrow> u32 \<times> u32" where
  "M_NEGM a_i a_f = (if a_f = 0 then (- a_i, 0) else (NOT a_i, - a_f))"

definition M_ADD ::
  "'i::len word \<Rightarrow> 'f::len word \<Rightarrow> 'i word \<Rightarrow> 'f word \<Rightarrow> 'i word \<times> 'f word" where
  "M_ADD r_i r_f a_i a_f =
     (let lo_tmp = (ucast (r_f AND 0xffff) + ucast (a_f AND 0xffff) :: u32);
          hi_tmp = (ucast (drop_bit 16 r_f AND 0xffff) + ucast (drop_bit 16 a_f AND 0xffff) :: u32);
          hi_tmp = (if lo_tmp AND 0x10000 \<noteq> 0 then hi_tmp + 1 else hi_tmp);
          r_f' = ucast (push_bit 16 (hi_tmp AND 0xffff) OR (lo_tmp AND 0xffff));
          r_i' = r_i + a_i
      in (if hi_tmp AND 0x10000 \<noteq> 0 then r_i' + 1 else r_i', r_f'))"

definition M_ADD3 ::
  "u32 \<Rightarrow> u32 \<Rightarrow> u32 \<Rightarrow> u32 \<Rightarrow> u32 \<Rightarrow> u32 \<Rightarrow> u32 \<times> u32 \<times> u32" where
  "M_ADD3 r_ovr r_i r_f a_ovr a_i a_f =
     (let lo_tmp = (r_f AND 0xffff) + (a_f AND 0xffff);
          hi_tmp = (drop_bit 16 r_f AND 0xffff) + (drop_bit 16 a_f AND 0xffff);
          hi_tmp = (if lo_tmp AND 0x10000 \<noteq> 0 then hi_tmp + 1 else hi_tmp);
          r_f' = push_bit 16 (hi_tmp AND 0xffff) OR (lo_tmp AND 0xffff);
          lo_tmp = (r_i AND 0xffff) + (a_i AND 0xffff);
          lo_tmp = (if hi_tmp AND 0x10000 \<noteq> 0 then lo_tmp + 1 else lo_tmp);
          hi_tmp = (drop_bit 16 r_i AND 0xffff) + (drop_bit 16 a_i AND 0xffff);
          hi_tmp = (if lo_tmp AND 0x10000 \<noteq> 0 then hi_tmp + 1 else hi_tmp);
          r_i' = push_bit 16 (hi_tmp AND 0xffff) OR (lo_tmp AND 0xffff);
          r_ovr' = r_ovr + a_ovr
      in (if hi_tmp AND 0x10000 \<noteq> 0 then r_ovr' + 1 else r_ovr', r_i', r_f'))"

definition M_SUB :: "u32 \<Rightarrow> u32 \<Rightarrow> u32 \<Rightarrow> u32 \<Rightarrow> u32 \<times> u32" where
  "M_SUB r_i r_f a_i a_f =
     (if a_f = 0 then (r_i - a_i, r_f)
      else
        (let lo_tmp = (r_f AND 0xffff) + (- a_f AND 0xffff);
             hi_tmp = (drop_bit 16 r_f AND 0xffff) + (drop_bit 16 (- a_f) AND 0xffff);
             hi_tmp = (if lo_tmp AND 0x10000 \<noteq> 0 then hi_tmp + 1 else hi_tmp);
             r_f' = push_bit 16 (hi_tmp AND 0xffff) OR (lo_tmp AND 0xffff);
             r_i' = r_i + NOT a_i
         in (if hi_tmp AND 0x10000 \<noteq> 0 then r_i' + 1 else r_i', r_f')))"

definition M_RSHIFTU :: "u32 \<Rightarrow> u32 \<Rightarrow> u32 \<times> u32" where
  "M_RSHIFTU v_i v_f =
     (let f = drop_bit 1 v_f
      in (drop_bit 1 v_i, if v_i AND 1 \<noteq> 0 then f OR 0x80000000 else f))"

definition M_RSHIFT :: "u32 \<Rightarrow> u32 \<Rightarrow> u32 \<times> u32" where
  "M_RSHIFT v_i v_f =
     (let f = drop_bit 1 v_f;
          f = (if v_i AND 1 \<noteq> 0 then f OR 0x80000000 else f)
      in (if v_i AND 0x80000000 \<noteq> 0 then signed_drop_bit 1 v_i OR 0x80000000
          else signed_drop_bit 1 v_i, f))"

definition M_LSHIFT :: "'i::len word \<Rightarrow> 'f::len word \<Rightarrow> 'i word \<times> 'f word" where
  "M_LSHIFT v_i v_f =
     (let i = push_bit 1 v_i
      in (if v_f AND 0x80000000 \<noteq> 0 then i OR 1 else i, push_bit 1 v_f))"

definition M_LSHIFT3 :: "u32 \<Rightarrow> u32 \<Rightarrow> u32 \<Rightarrow> u32 \<times> u32 \<times> u32" where
  "M_LSHIFT3 v_ovr v_i v_f =
     (let ovr = push_bit 1 v_ovr;
          ovr = (if v_i AND 0x80000000 \<noteq> 0 then ovr OR 1 else ovr);
          i = push_bit 1 v_i;
          i = (if v_f AND 0x80000000 \<noteq> 0 then i OR 1 else i)
      in (ovr, i, push_bit 1 v_f))"

definition M_ADDUF :: "u32 \<Rightarrow> u32 \<Rightarrow> u32 \<Rightarrow> u32 \<times> u32" where
  "M_ADDUF r_i r_f uf = M_ADD r_i r_f 0 uf"

definition M_SUBUF :: "u32 \<Rightarrow> u32 \<Rightarrow> u32 \<Rightarrow> u32 \<times> u32" where
  "M_SUBUF r_i r_f uf = M_SUB r_i r_f 0 uf"

definition M_ADDF :: "u32 \<Rightarrow> u32 \<Rightarrow> u32 \<Rightarrow> u32 \<times> u32" where
  "M_ADDF r_i r_f f =
     (if 0 < sint f then M_ADD r_i r_f 0 f
      else if sint f < 0 then M_ADD r_i r_f (- 1) f
      else (r_i, r_f))"

definition M_ISNEG :: "'i::len word \<Rightarrow> bool" where
  "M_ISNEG v_i \<longleftrightarrow> v_i AND 0x80000000 \<noteq> 0"

definition M_ISHIS :: "u32 \<Rightarrow> u32 \<Rightarrow> u32 \<Rightarrow> u32 \<Rightarrow> bool" where
  "M_ISHIS a_i a_f b_i b_f \<longleftrightarrow> a_i > b_i \<or> (a_i = b_i \<and> a_f \<ge> b_f)"

definition M_ISGEQ :: "u32 \<Rightarrow> u32 \<Rightarrow> u32 \<Rightarrow> u32 \<Rightarrow> bool" where
  "M_ISGEQ a_i a_f b_i b_f \<longleftrightarrow> sint a_i > sint b_i \<or> (a_i = b_i \<and> a_f \<ge> b_f)"

definition M_ISEQU :: "u32 \<Rightarrow> u32 \<Rightarrow> u32 \<Rightarrow> u32 \<Rightarrow> bool" where
  "M_ISEQU a_i a_f b_i b_f \<longleftrightarrow> a_i = b_i \<and> a_f = b_f"

text \<open>The conversions between the long and the short format.\<close>

definition MFPTOFP :: "u32 \<Rightarrow> u32 \<Rightarrow> u32" where
  "MFPTOFP x_i x_f =
     (if 0x00010000 \<le> sint x_i then 0x7fffffff
      else if sint x_i \<le> - 0x00010000 then 0x80000000
      else push_bit 16 x_i OR (drop_bit 16 x_f AND 0xffff))"

definition LFPTOFP :: "l_fp \<Rightarrow> u32" where
  "LFPTOFP v = MFPTOFP (l_ui v) (l_uf v)"

definition UFPTOLFP :: "u32 \<Rightarrow> l_fp" where
  "UFPTOLFP x = \<lparr>l_ui = drop_bit 16 x, l_uf = push_bit 16 x\<rparr>"

definition FPTOLFP :: "u32 \<Rightarrow> l_fp" where
  "FPTOLFP x =
     (let v = UFPTOLFP x
      in if sint x < 0 then v\<lparr>l_ui := l_ui v - 0x10000\<rparr> else v)"

definition MAXLFP :: l_fp where
  "MAXLFP = \<lparr>l_ui = 0x7fffffff, l_uf = 0xffffffff\<rparr>"

definition MINLFP :: l_fp where
  "MINLFP = \<lparr>l_ui = 0x80000000, l_uf = 0\<rparr>"

text \<open>The operations on the record.\<close>

definition mk_lfp :: "u32 \<times> u32 \<Rightarrow> l_fp" where
  "mk_lfp p = \<lparr>l_ui = fst p, l_uf = snd p\<rparr>"

definition L_ADD :: "l_fp \<Rightarrow> l_fp \<Rightarrow> l_fp" where
  "L_ADD r a = mk_lfp (M_ADD (l_ui r) (l_uf r) (l_ui a) (l_uf a))"

definition L_SUB :: "l_fp \<Rightarrow> l_fp \<Rightarrow> l_fp" where
  "L_SUB r a = mk_lfp (M_SUB (l_ui r) (l_uf r) (l_ui a) (l_uf a))"

definition L_NEG :: "l_fp \<Rightarrow> l_fp" where
  "L_NEG v = mk_lfp (M_NEG (l_ui v) (l_uf v))"

definition L_ADDUF :: "l_fp \<Rightarrow> u32 \<Rightarrow> l_fp" where
  "L_ADDUF r uf = mk_lfp (M_ADDUF (l_ui r) (l_uf r) uf)"

definition L_SUBUF :: "l_fp \<Rightarrow> u32 \<Rightarrow> l_fp" where
  "L_SUBUF r uf = mk_lfp (M_SUBUF (l_ui r) (l_uf r) uf)"

definition L_ADDF :: "l_fp \<Rightarrow> u32 \<Rightarrow> l_fp" where
  "L_ADDF r f = mk_lfp (M_ADDF (l_ui r) (l_uf r) f)"

definition L_RSHIFT :: "l_fp \<Rightarrow> l_fp" where
  "L_RSHIFT v = mk_lfp (M_RSHIFT (l_ui v) (l_uf v))"

definition L_RSHIFTU :: "l_fp \<Rightarrow> l_fp" where
  "L_RSHIFTU v = mk_lfp (M_RSHIFTU (l_ui v) (l_uf v))"

definition L_LSHIFT :: "l_fp \<Rightarrow> l_fp" where
  "L_LSHIFT v = mk_lfp (M_LSHIFT (l_ui v) (l_uf v))"

definition L_CLR :: l_fp where
  "L_CLR = \<lparr>l_ui = 0, l_uf = 0\<rparr>"

definition L_ISNEG :: "l_fp \<Rightarrow> bool" where
  "L_ISNEG v \<longleftrightarrow> l_ui v AND 0x80000000 \<noteq> 0"

definition L_ISZERO :: "l_fp \<Rightarrow> bool" where
  "L_ISZERO v \<longleftrightarrow> l_ui v = 0 \<and> l_uf v = 0"

definition L_ISHIS :: "l_fp \<Rightarrow> l_fp \<Rightarrow> bool" where
  "L_ISHIS a b \<longleftrightarrow> l_ui a > l_ui b \<or> (l_ui a = l_ui b \<and> l_uf a \<ge> l_uf b)"

definition L_ISGEQ :: "l_fp \<Rightarrow> l_fp \<Rightarrow> bool" where
  "L_ISGEQ a b \<longleftrightarrow> sint (l_ui a) > sint (l_ui b) \<or> (l_ui a = l_ui b \<and> l_uf a \<ge> l_uf b)"

definition L_ISEQU :: "l_fp \<Rightarrow> l_fp \<Rightarrow> bool" where
  "L_ISEQU a b \<longleftrightarrow> M_ISEQU (l_ui a) (l_uf a) (l_ui b) (l_uf b)"

section \<open>The 64-bit value of a pair\<close>

definition fx :: "u32 \<Rightarrow> u32 \<Rightarrow> u64" where
  "fx i f = word_cat i f"

definition lfp_val :: "l_fp \<Rightarrow> u64" where
  "lfp_val v = fx (l_ui v) (l_uf v)"

lemma uint_word_cat: "uint (word_cat a b :: u64) = uint (a::u32) * 2 ^ 32 + uint (b::u32)"
proof -
  have i: "0 \<le> uint a" "uint a < 2 ^ 32" and f: "0 \<le> uint b" "uint b < 2 ^ 32"
    using uint_bounded [of a] uint_bounded [of b] by simp_all
  have "take_bit 32 (ucast b :: u64) = ucast b"
    by (rule bit_eqI) (auto simp: bit_simps dest: bit_imp_le_length)
  then have "word_cat a b = push_bit 32 (ucast a) OR take_bit 32 (ucast b :: u64)"
    by (simp add: word_cat_eq_push_bit_or)
  then have "uint (word_cat a b :: u64) = (uint a mod 2 ^ 64 * 2 ^ 32) mod 2 ^ 64 + uint b mod 2 ^ 64 mod 2 ^ 32"
    by (simp add: uint_push_or_take uint_ucast_mod)
  also have "\<dots> = uint a * 2 ^ 32 + uint b"
    using i f by (simp add: mod_pos_pos_trivial)
  finally show ?thesis .
qed
lemma uint_fx: "uint (fx i f) = uint i * 2 ^ 32 + uint f"
 by (simp add: fx_def uint_word_cat)

lemma carry_int:
  assumes "0 \<le> a" "a < 65536" "0 \<le> b" "b < 65536" "0 \<le> c" "c \<le> (1 :: int)"
  shows "odd ((a + b + c) div 65536) \<longleftrightarrow> 65536 \<le> a + b + c"
proof (cases "65536 \<le> a + b + c")
  case True
  then have "(a + b + c) div 65536 = 1" using assms by (intro int_div_pos_eq [where r = "a + b + c - 65536"]) auto
  with True show ?thesis by simp
next
  case False
  with assms show ?thesis by simp
qed

lemma mod_once: "0 \<le> s \<Longrightarrow> s < 2 * m \<Longrightarrow> s mod m = (if m \<le> s then s - m else (s :: int))"
  by (auto simp: int_mod_pos_eq [where q = 1 and r = "s - m"] mod_pos_pos_trivial)

lemma two_limb_carry:
  fixes x y c :: int
  assumes "0 \<le> x" "x < 2 ^ 32" "0 \<le> y" "y < 2 ^ 32" "0 \<le> c" "c \<le> 1"
    and d: "d = of_bool (65536 \<le> x mod 65536 + y mod 65536 + c)"
  shows "65536 \<le> x div 65536 + y div 65536 + d \<longleftrightarrow> 2 ^ 32 \<le> x + y + c"
    and "((x div 65536 + y div 65536 + d) mod 65536 * 65536) mod 2 ^ 32 + (x mod 65536 + y mod 65536 + c) mod 65536
       = (x + y + c) mod 2 ^ 32"
proof -
  define xh xl yh yl where "xh = x div 65536" "xl = x mod 65536" "yh = y div 65536" "yl = y mod 65536"
  have x: "x = xh * 65536 + xl" and y: "y = yh * 65536 + yl"
    by (simp_all add: xh_xl_yh_yl_def)
  have b: "0 \<le> xl" "xl < 65536" "0 \<le> yl" "yl < 65536" "0 \<le> xh" "xh < 65536" "0 \<le> yh" "yh < 65536"
    using assms(1-4) by (simp_all add: xh_xl_yh_yl_def)
  show 1: "65536 \<le> x div 65536 + y div 65536 + d \<longleftrightarrow> 2 ^ 32 \<le> x + y + c"
    unfolding d xh_xl_yh_yl_def [symmetric] unfolding x y using b assms(5,6) by auto
  have l: "(xl + yl + c) mod 65536 = xl + yl + c - d * 65536"
    using b assms(5,6) unfolding d xh_xl_yh_yl_def [symmetric] by (subst mod_once) auto
  have h: "((xh + yh + d) mod 65536 * 65536) mod 2 ^ 32 = (xh + yh + d) * 65536 - of_bool (65536 \<le> xh + yh + d) * 2 ^ 32"
    using b d by (subst mod_once) auto
  have "0 \<le> x + y + c" "x + y + c < 2 * 2 ^ 32" using assms by auto
  then have s: "(x + y + c) mod 2 ^ 32 = x + y + c - of_bool (65536 \<le> xh + yh + d) * 2 ^ 32"
    using 1 unfolding xh_xl_yh_yl_def [symmetric] by (subst mod_once) auto
  show "((x div 65536 + y div 65536 + d) mod 65536 * 65536) mod 2 ^ 32 + (x mod 65536 + y mod 65536 + c) mod 65536
       = (x + y + c) mod 2 ^ 32"
    unfolding xh_xl_yh_yl_def [symmetric] h l s by (simp add: x y algebra_simps)
qed

text \<open>
  Addition by halves, the common core of the add and subtract macros: the two 16-bit
  additions with their carries are one 32-bit addition with a carry in and a carry out.
\<close>

definition add_halves :: "u32 \<Rightarrow> u32 \<Rightarrow> bool \<Rightarrow> bool \<times> u32" where
  "add_halves x y c =
     (let lo = (x AND 0xffff) + (y AND 0xffff) + of_bool c;
          hi = (drop_bit 16 x AND 0xffff) + (drop_bit 16 y AND 0xffff) + of_bool (bit lo 16)
      in (bit hi 16, push_bit 16 (hi AND 0xffff) OR (lo AND 0xffff)))"

lemma half_sum:
  assumes "0 \<le> a" "a < 65536" "0 \<le> b" "b < (65536 :: int)"
    and "uint (x :: u32) = a" "uint (y :: u32) = b"
  shows "uint (x + y + of_bool c) = a + b + of_bool c"
    and "bit (x + y + of_bool c) 16 \<longleftrightarrow> 65536 \<le> a + b + of_bool c"
proof -
  show *: "uint (x + y + of_bool c) = a + b + of_bool c"
    using assms by (cases c) (simp_all add: uint_word_ariths)
  show "bit (x + y + of_bool c) 16 \<longleftrightarrow> 65536 \<le> a + b + of_bool c"
    using carry_int [OF assms(1-4), of "of_bool c"] by (simp add: bit_uint_odd *)
qed

lemma add_halves:
  "add_halves x y c = (2 ^ 32 \<le> uint x + uint y + of_bool c, x + y + of_bool c)"
proof -
  define lo where "lo = (x AND 0xffff) + (y AND 0xffff) + (of_bool c :: u32)"
  define hi where "hi = (drop_bit 16 x AND 0xffff) + (drop_bit 16 y AND 0xffff) + (of_bool (bit lo 16) :: u32)"
  have b: "0 \<le> uint x" "uint x < 2 ^ 32" "0 \<le> uint y" "uint y < 2 ^ 32"
    using uint_bounded [of x] uint_bounded [of y] by simp_all
  then have d: "0 \<le> uint x div 65536" "uint x div 65536 < 65536" "0 \<le> uint y div 65536" "uint y div 65536 < 65536"
    by (simp_all add: pos_imp_zdiv_nonneg_iff)
  have h: "uint (take_bit 16 (drop_bit 16 x)) = uint x div 65536" "uint (take_bit 16 (drop_bit 16 y)) = uint y div 65536"
    using d by (simp_all add: word_to_int)
  have lo: "uint lo = uint x mod 65536 + uint y mod 65536 + of_bool c"
    "bit lo 16 \<longleftrightarrow> 65536 \<le> uint x mod 65536 + uint y mod 65536 + of_bool c"
    unfolding lo_def and_ffff by (rule half_sum; simp add: word_to_int)+
  have hi: "uint hi = uint x div 65536 + uint y div 65536 + of_bool (bit lo 16)"
    "bit hi 16 \<longleftrightarrow> 65536 \<le> uint x div 65536 + uint y div 65536 + of_bool (bit lo 16)"
    unfolding hi_def and_ffff by (rule half_sum [OF d h])+
  have carry:
    "65536 \<le> uint x div 65536 + uint y div 65536 + of_bool (bit lo 16) \<longleftrightarrow> 2 ^ 32 \<le> uint x + uint y + of_bool c"
    "((uint x div 65536 + uint y div 65536 + of_bool (bit lo 16)) mod 65536 * 65536) mod 2 ^ 32 +
       (uint x mod 65536 + uint y mod 65536 + of_bool c) mod 65536 = (uint x + uint y + of_bool c) mod 2 ^ 32"
    by (rule two_limb_carry [OF b]; simp add: lo(2))+
  have "uint (push_bit 16 (hi AND 0xffff) OR (lo AND 0xffff)) =
      (uint hi mod 65536 * 65536) mod 2 ^ 32 + uint lo mod 65536"
    by (simp add: and_ffff uint_push_or_take uint_take_bit)
  also have "\<dots> = (uint x + uint y + of_bool c) mod 2 ^ 32"
    unfolding hi(1) lo(1) by (rule carry(2))
  also have "\<dots> = uint (x + y + of_bool c)"
    by (simp add: uint_word_ariths mod_simps)
  finally have "push_bit 16 (hi AND 0xffff) OR (lo AND 0xffff) = x + y + of_bool c"
    by (simp only: word_uint_eq_iff)
  moreover have "bit hi 16 \<longleftrightarrow> 2 ^ 32 \<le> uint x + uint y + of_bool c"
    unfolding hi(2) by (rule carry(1))
  ultimately show ?thesis
    by (simp add: add_halves_def Let_def lo_def hi_def)
qed
lemma fx_eq_iff: "fx i f = fx j g \<longleftrightarrow> i = j \<and> f = g"
proof
  assume "fx i f = fx j g"
  then have e: "uint i * 2 ^ 32 + uint f = uint j * 2 ^ 32 + uint g"
    by (metis uint_fx)
  from arg_cong [OF this, of "\<lambda>k. k mod 2 ^ 32"] have "uint f = uint g"
    using uint_bounded [of f] uint_bounded [of g] by (simp add: mod_pos_pos_trivial)
  with e show "i = j \<and> f = g" by (simp add: word_uint_eq_iff)
qed simp

lemma lfp_val_inject: "lfp_val a = lfp_val b \<longleftrightarrow> a = b"
  by (cases a; cases b) (simp add: lfp_val_def fx_eq_iff)

lemma uint_u32: "0 \<le> uint (x :: u32)" "uint (x :: u32) < 2 ^ 32"
  using uint_bounded [of x] by simp_all

lemma M_ADD_u32:
  "M_ADD r_i r_f a_i (a_f :: u32) = (r_i + a_i + of_bool (2 ^ 32 \<le> uint r_f + uint a_f), r_f + a_f)"
proof -
  have "M_ADD r_i r_f a_i a_f =
      (r_i + a_i + of_bool (fst (add_halves r_f a_f False)), snd (add_halves r_f a_f False))"
    by (simp add: M_ADD_def add_halves_def Let_def and_10000)
  then show ?thesis by (simp add: add_halves)
qed

lemma M_ADD3_u32:
  "M_ADD3 r_ovr r_i r_f a_ovr a_i a_f =
     (let c = 2 ^ 32 \<le> uint r_f + uint a_f;
          d = 2 ^ 32 \<le> uint r_i + uint a_i + of_bool c
      in (r_ovr + a_ovr + of_bool d, r_i + a_i + of_bool c, r_f + a_f))"
proof -
  have "M_ADD3 r_ovr r_i r_f a_ovr a_i a_f =
     (let (c, f) = add_halves r_f a_f False; (d, i) = add_halves r_i a_i c
      in (r_ovr + a_ovr + of_bool d, i, f))"
    by (simp add: M_ADD3_def add_halves_def Let_def and_10000)
  then show ?thesis by (simp add: add_halves Let_def)
qed

lemma M_SUB_u32:
  "M_SUB r_i r_f a_i a_f =
     (if a_f = 0 then (r_i - a_i, r_f)
      else (r_i + NOT a_i + of_bool (2 ^ 32 \<le> uint r_f + uint (- a_f)), r_f + - a_f))"
proof -
  have "M_SUB r_i r_f a_i a_f =
     (if a_f = 0 then (r_i - a_i, r_f)
      else (r_i + NOT a_i + of_bool (fst (add_halves r_f (- a_f) False)), snd (add_halves r_f (- a_f) False)))"
    by (simp add: M_SUB_def add_halves_def Let_def and_10000)
  then show ?thesis by (simp add: add_halves)
qed

text \<open>A pair as the 64-bit word of an integer; the high half is only used modulo \<open>2 ^ 32\<close>.\<close>

lemma of_int_64: "(of_int (k * 2 ^ 64) :: u64) = 0"
proof -
  have "(2 ^ 64 :: u64) = 0" by simp
  then show ?thesis
    by (simp only: of_int_mult of_int_power of_int_numeral mult_zero_right)
qed

lemma word64_shift_mod: "(of_int (s mod 2 ^ 32 * 2 ^ 32) :: u64) = of_int (s * 2 ^ 32)"
proof -
  have p: "(2 :: int) ^ 64 = 2 ^ 32 * 2 ^ 32" by simp
  have "s * 2 ^ 32 = (s div 2 ^ 32 * 2 ^ 32 + s mod 2 ^ 32) * 2 ^ 32"
    by (simp only: div_mult_mod_eq)
  also have "\<dots> = s div 2 ^ 32 * 2 ^ 64 + s mod 2 ^ 32 * 2 ^ 32"
    by (simp only: p distrib_right mult.assoc)
  finally have "(of_int (s * 2 ^ 32) :: u64) = of_int (s div 2 ^ 32 * 2 ^ 64) + of_int (s mod 2 ^ 32 * 2 ^ 32)"
    by (simp only: of_int_add)
  then show ?thesis by (simp only: of_int_64 add_0_left)
qed

lemma fx_of_int: "uint i = s mod 2 ^ 32 \<Longrightarrow> fx i f = of_int (s * 2 ^ 32 + uint f)"
proof -
  assume "uint i = s mod 2 ^ 32"
  then have "of_int (uint (fx i f)) = (of_int (s mod 2 ^ 32 * 2 ^ 32) + of_int (uint f) :: u64)"
    by (simp only: uint_fx of_int_add)
  then show ?thesis by (simp only: word64_shift_mod of_int_add word_of_int_uint)
qed

lemma uint_neg_u32: "(f :: u32) \<noteq> 0 \<Longrightarrow> uint (- f) = 2 ^ 32 - uint f"
  using uint_sub_if' [of 0 f] uint_0_iff [of f] uint_bounded [of f] by (auto split: if_splits)

lemma uint_not_u32: "uint (NOT (i :: u32)) = (- 1 - uint i) mod 2 ^ 32"
proof -
  have "(- 1 - uint i) mod 2 ^ 32 = (- 1 - uint i + 2 ^ 32) mod 2 ^ 32"
    by (rule mod_add_self2 [symmetric])
  also have "\<dots> = - 1 - uint i + 2 ^ 32"
    using uint_u32 [of i] by (intro mod_pos_pos_trivial) linarith+
  finally show ?thesis by (simp add: uint_not)
qed

lemma fx_add: "fx (i + j + of_bool (2 ^ 32 \<le> uint f + uint g)) (f + g) = fx i f + fx j g"
proof -
  let ?c = "of_bool (2 ^ 32 \<le> uint f + uint g) :: int"
  have f: "uint (f + g) = uint f + uint g - ?c * 2 ^ 32"
    using uint_u32 [of f] uint_u32 [of g] by (simp add: uint_plus_if')
  have "uint (i + j + of_bool (2 ^ 32 \<le> uint f + uint g)) = (uint i + uint j + ?c) mod 2 ^ 32"
    by (simp add: uint_word_ariths mod_simps)
  then have "fx (i + j + of_bool (2 ^ 32 \<le> uint f + uint g)) (f + g) =
      of_int ((uint i + uint j + ?c) * 2 ^ 32 + uint (f + g))"
    by (rule fx_of_int)
  also have "(uint i + uint j + ?c) * 2 ^ 32 + uint (f + g) = uint (fx i f) + uint (fx j g)"
    unfolding f uint_fx by (simp only: distrib_right)
  finally show ?thesis by (simp only: of_int_add word_of_int_uint)
qed

lemma fx_neg: "f \<noteq> 0 \<Longrightarrow> fx (NOT i) (- f) = - fx i f"
proof -
  assume "f \<noteq> 0"
  have "fx (NOT i) (- f) = of_int ((- 1 - uint i) * 2 ^ 32 + uint (- f))"
    by (rule fx_of_int) (rule uint_not_u32)
  also have "(- 1 - uint i) * 2 ^ 32 + uint (- f) = - uint (fx i f)"
    unfolding uint_neg_u32 [OF \<open>f \<noteq> 0\<close>] uint_fx by (simp only: left_diff_distrib)
  finally show ?thesis by (simp only: of_int_minus word_of_int_uint)
qed

lemma fx_neg0: "fx (- i) 0 = - fx i 0"
proof -
  have "fx (- i) 0 = of_int (- uint i * 2 ^ 32 + uint (0 :: u32))"
    by (rule fx_of_int) (simp add: uint_word_ariths)
  also have "- uint i * 2 ^ 32 + uint (0 :: u32) = - uint (fx i 0)"
    unfolding uint_fx by simp
  finally show ?thesis by (simp only: of_int_minus word_of_int_uint)
qed

lemma bit_fx: "bit (fx i f) n \<longleftrightarrow> n < 64 \<and> (if n < 32 then bit f n else bit i (n - 32))"
  by (simp add: fx_def bit_word_cat_iff)

lemma bit_int_31: "bit (2147483648 :: int) n \<longleftrightarrow> n = 31"
  using bit_exp_iff [of 31 n, where 'a = int] by simp
lemma bit_int_63: "bit (9223372036854775808 :: int) n \<longleftrightarrow> n = 63"
  using bit_exp_iff [of 63 n, where 'a = int] by simp
lemma bit_u32_ge: "32 \<le> n \<Longrightarrow> \<not> bit (w :: u32) n"
  using bit_imp_le_length [of w n] by auto
lemma and_1: "((x :: 'a::len word) AND 1 \<noteq> 0) \<longleftrightarrow> bit x 0"
  using and_exp_bit[of x 0] by simp

lemma push1_or: "push_bit 1 (i::'a::len word) OR 1 = i + i + 1"
  by (simp add: or_one_eq push_bit_eq_mult mult_2_right)
lemma int_msb_carry: "0 \<le> x \<Longrightarrow> x < 4294967296 \<Longrightarrow> odd (x div 2147483648) \<longleftrightarrow> 4294967296 \<le> x + (x::int)"
proof -
  assume x: "0 \<le> x" "x < 4294967296"
  then have "x div 2147483648 = (if 4294967296 \<le> x + x then 1 else 0)"
    by (auto intro: int_div_pos_eq [where r = "x - 2147483648"] div_pos_pos_trivial)
  then show ?thesis by simp
qed
lemma bit31_carry: "bit (f::u32) 31 \<longleftrightarrow> 2 ^ 32 \<le> uint f + uint f"
  using int_msb_carry [of "uint f"] uint_bounded [of f] by (simp add: bit_uint_odd) 
lemma sint_u32_0: "sint (f::u32) = 0 \<longleftrightarrow> f = 0" 
  by (simp add: signed_eq_0_iff)
lemma sint_uint_if:
  "sint (w :: 'a::len word) = uint w - of_bool (bit w (LENGTH('a) - 1)) * 2 ^ LENGTH('a)"
proof -
  have "sint w = signed_take_bit (LENGTH('a) - 1) (uint w)"
    by (simp add: sint_uint)
  also have "\<dots> = take_bit (Suc (LENGTH('a) - 1)) (uint w) - 2 ^ Suc (LENGTH('a) - 1) * of_bool (bit (uint w) (LENGTH('a) - 1))"
    by (rule signed_take_bit_eq_take_bit_minus)
  also have "Suc (LENGTH('a) - 1) = LENGTH('a)" by simp
  finally show ?thesis by (simp add: bit_uint_iff take_bit_eq_mod uint_idem)
qed

lemma sint_neg_bit: "sint (f :: u32) < 0 \<longleftrightarrow> bit f 31"
  using uint_u32 [of f] sint_uint_if [of f] by (cases "bit f 31") auto

section \<open>The macros are 64-bit operations\<close>

lemma mk_lfp_sel [simp]: "l_ui (mk_lfp p) = fst p" "l_uf (mk_lfp p) = snd p"
  by (simp_all add: mk_lfp_def)

lemma mk_lfp_val: "lfp_val (mk_lfp p) = fx (fst p) (snd p)"
  by (simp add: lfp_val_def)

lemma L_ADD_val [lfp_simps]: "lfp_val (L_ADD r a) = lfp_val r + lfp_val a"
  by (simp only: L_ADD_def mk_lfp_sel M_ADD_u32 fst_conv snd_conv fx_add lfp_val_def)

lemma M_NEG_u32: "M_NEG (v_i :: u32) (v_f :: u32) = (if v_f = 0 then (- v_i, 0) else (NOT v_i, - v_f))"
  by (simp add: M_NEG_def)

lemma L_NEG_val [lfp_simps]: "lfp_val (L_NEG v) = - lfp_val v"
  unfolding L_NEG_def mk_lfp_sel M_NEG_u32 by (simp add: lfp_val_def fx_neg fx_neg0)

lemma fx_sub: "fx (fst (M_SUB i f j g)) (snd (M_SUB i f j g)) = fx i f - fx j g"
proof (cases "g = 0")
  case True
  have "\<not> 2 ^ 32 \<le> uint f + uint (0 :: u32)"
    using uint_u32 [of f] by simp
  then have "fx (fst (M_SUB i f j g)) (snd (M_SUB i f j g)) =
      fx (i + - j + of_bool (2 ^ 32 \<le> uint f + uint (0 :: u32))) (f + 0)"
    using True by (simp add: M_SUB_u32)
  also have "\<dots> = fx i f + - fx j g"
    unfolding fx_add fx_neg0 True ..
  finally show ?thesis by simp
next
  case False
  then have "fx (fst (M_SUB i f j g)) (snd (M_SUB i f j g)) =
      fx (i + NOT j + of_bool (2 ^ 32 \<le> uint f + uint (- g))) (f + - g)"
    by (simp only: M_SUB_u32 if_False fst_conv snd_conv)
  also have "\<dots> = fx i f + - fx j g"
    unfolding fx_add fx_neg [OF False] ..
  finally show ?thesis by simp
qed

lemma L_SUB_val [lfp_simps]: "lfp_val (L_SUB r a) = lfp_val r - lfp_val a"
  by (simp only: L_SUB_def mk_lfp_sel fx_sub lfp_val_def)

lemma fx_0: "fx 0 f = ucast f"
  by (simp add: fx_def word_cat_0_left)

lemma fx_m1: "bit f 31 \<Longrightarrow> fx (- 1) f = scast f"
  by (rule bit_word_eqI) (auto simp: bit_fx bit_simps)

lemma ucast_eq_scast: "\<not> bit (f :: u32) 31 \<Longrightarrow> (ucast f :: u64) = scast f"
proof (rule bit_word_eqI)
  fix n assume f: "\<not> bit f 31" "n < LENGTH(64)"
  show "bit (ucast f :: u64) n = bit (scast f :: u64) n"
    using f by (cases n "31::nat" rule: linorder_cases) (simp_all add: bit_simps bit_u32_ge)
qed

lemma L_ADDUF_val [lfp_simps]: "lfp_val (L_ADDUF r uf) = lfp_val r + ucast uf"
  by (simp only: L_ADDUF_def mk_lfp_sel M_ADDUF_def M_ADD_u32 fst_conv snd_conv fx_add lfp_val_def fx_0)

lemma L_SUBUF_val [lfp_simps]: "lfp_val (L_SUBUF r uf) = lfp_val r - ucast uf"
  by (simp only: L_SUBUF_def mk_lfp_sel M_SUBUF_def fx_sub lfp_val_def fx_0)

text \<open>A signed 32-bit fraction is added with its sign extended over the seconds.\<close>

lemma L_ADDF_val [lfp_simps]: "lfp_val (L_ADDF r f) = lfp_val r + scast f"
proof -
  consider "0 < sint f" | "sint f < 0" | "f = 0"
    using sint_u32_0 [of f] by linarith
  then show ?thesis
  proof cases
    case 1
    then have "lfp_val (L_ADDF r f) = lfp_val r + ucast f"
      by (simp only: L_ADDF_def mk_lfp_sel M_ADDF_def if_True M_ADD_u32 fst_conv snd_conv fx_add
          lfp_val_def fx_0)
    moreover have "\<not> bit f 31"
      using 1 sint_neg_bit [of f] by simp
    ultimately show ?thesis by (simp add: ucast_eq_scast)
  next
    case 2
    then have "\<not> 0 < sint f" by simp
    with 2 have "lfp_val (L_ADDF r f) = lfp_val r + fx (- 1) f"
      by (simp only: L_ADDF_def mk_lfp_sel M_ADDF_def if_True if_False M_ADD_u32 fst_conv snd_conv
          fx_add lfp_val_def)
    with 2 show ?thesis by (simp add: fx_m1 sint_neg_bit)
  next
    case 3
    then show ?thesis by (simp add: L_ADDF_def M_ADDF_def lfp_val_def)
  qed
qed

lemma L_LSHIFT_val [lfp_simps]: "lfp_val (L_LSHIFT v) = 2 * lfp_val v"
proof -
  have "M_LSHIFT i f = (i + i + of_bool (2 ^ 32 \<le> uint f + uint f), f + f)" for i f :: u32
    unfolding M_LSHIFT_def Let_def and_80000000 bit31_carry push1_or
    by (simp add: push_bit_eq_mult mult_2_right)
  then have "lfp_val (L_LSHIFT v) = lfp_val v + lfp_val v"
    by (simp only: L_LSHIFT_def mk_lfp_sel fst_conv snd_conv fx_add lfp_val_def)
  then show ?thesis by simp
qed

lemma fx_RSHIFTU: "fx (drop_bit 1 i) (if i AND 1 \<noteq> 0 then drop_bit 1 f OR 0x80000000 else drop_bit 1 f)
    = drop_bit 1 (fx i f)" (is "fx _ ?f = _")
proof (rule bit_word_eqI)
  fix n assume n: "n < LENGTH(64)"
  consider "n < 31" | "n = 31" | "n = 63" | "31 < n" "n < 63"
    using n by fastforce
  then show "bit (fx (drop_bit 1 i) ?f) n = bit (drop_bit 1 (fx i f)) n"
  proof cases
    case 4
    then have "Suc n - 32 = Suc (n - 32)" by simp
    with 4 show ?thesis
      by (simp add: and_1 bit_fx bit_drop_bit_eq bit_or_iff bit_int_31 bit_u32_ge)
  qed (simp_all add: and_1 bit_fx bit_drop_bit_eq bit_or_iff bit_int_31 bit_u32_ge)
qed

lemma L_RSHIFTU_val [lfp_simps]: "lfp_val (L_RSHIFTU v) = drop_bit 1 (lfp_val v)"
  by (simp only: L_RSHIFTU_def mk_lfp_sel M_RSHIFTU_def Let_def fst_conv snd_conv fx_RSHIFTU lfp_val_def)

lemma fx_sign_fill:
  "fx (if i AND 0x80000000 \<noteq> 0 then signed_drop_bit 1 i OR 0x80000000 else signed_drop_bit 1 i) f =
     fx (drop_bit 1 i) f OR (if bit i 31 then push_bit 63 1 else 0)"
  unfolding and_80000000
  by (rule bit_word_eqI)
    (auto simp: bit_fx bit_or_iff bit_int_31 bit_int_63 bit_signed_drop_bit_iff bit_drop_bit_eq not_less
      bit_u32_ge Suc_diff_le)

lemma signed_drop_bit_u64:
  "signed_drop_bit 1 (w :: u64) = drop_bit 1 w OR (if bit w 63 then push_bit 63 1 else 0)"
  by (rule bit_word_eqI)
    (auto simp: bit_or_iff bit_signed_drop_bit_iff bit_drop_bit_eq bit_int_63 not_less
      dest: bit_imp_le_length)

lemma L_RSHIFT_val [lfp_simps]: "lfp_val (L_RSHIFT v) = signed_drop_bit 1 (lfp_val v)"
proof -
  have "bit (l_ui v) 31 \<longleftrightarrow> bit (lfp_val v) 63"
    by (simp add: lfp_val_def bit_fx)
  then show ?thesis
    by (simp only: L_RSHIFT_def mk_lfp_sel M_RSHIFT_def Let_def fst_conv snd_conv fx_sign_fill
        fx_RSHIFTU signed_drop_bit_u64 lfp_val_def)
qed

lemma limb_le_iff:
  assumes "0 \<le> f" "f < m" "0 \<le> g" "g < (m :: int)"
  shows "j * m + g \<le> i * m + f \<longleftrightarrow> j < i \<or> (j = i \<and> g \<le> f)"
proof (cases i j rule: linorder_cases)
  case less
  then have "(i + 1) * m \<le> j * m" using assms by (intro mult_right_mono) auto
  with less assms show ?thesis by (simp add: algebra_simps)
next
  case greater
  then have "(j + 1) * m \<le> i * m" using assms by (intro mult_right_mono) auto
  with greater assms show ?thesis by (simp add: algebra_simps)
qed simp

lemma limb_le_u32:
  "j * 4294967296 + uint (g :: u32) \<le> i * 4294967296 + uint (f :: u32) \<longleftrightarrow>
     j < i \<or> (j = i \<and> uint g \<le> uint f)"
  using uint_u32 [of f] uint_u32 [of g] by (intro limb_le_iff) simp_all

lemma L_ISHIS_val [lfp_simps]: "L_ISHIS a b \<longleftrightarrow> lfp_val b \<le> lfp_val a"
  by (simp add: L_ISHIS_def lfp_val_def word_le_def word_less_def uint_fx limb_le_u32
      word_uint_eq_iff eq_commute [of "uint (l_ui a)"])

lemma sint_fx: "sint (fx i f) = sint i * 2 ^ 32 + uint f"
  using sint_uint_if [of "fx i f"] sint_uint_if [of i] by (simp add: bit_fx uint_fx)

lemma L_ISGEQ_val [lfp_simps]: "L_ISGEQ a b \<longleftrightarrow> sint (lfp_val b) \<le> sint (lfp_val a)"
proof -
  have "l_ui a = l_ui b \<longleftrightarrow> sint (l_ui b) = sint (l_ui a)"
    by (metis word_eq_iff_signed)
  then show ?thesis
    by (simp add: L_ISGEQ_def lfp_val_def sint_fx limb_le_u32 word_le_def)
qed

lemma L_ISNEG_val [lfp_simps]: "L_ISNEG v \<longleftrightarrow> sint (lfp_val v) < 0"
proof -
  have "0 \<le> sint (lfp_val v) \<longleftrightarrow> 0 \<le> sint (l_ui v)"
    using limb_le_u32 [of 0 0 "sint (l_ui v)" "l_uf v"] unsigned_greater_eq [of "l_uf v"]
    by (auto simp add: lfp_val_def sint_fx le_less simp del: unsigned_greater_eq)
  then have "sint (lfp_val v) < 0 \<longleftrightarrow> sint (l_ui v) < 0" by linarith
  then show ?thesis
    by (simp only: L_ISNEG_def and_80000000 sint_neg_bit)
qed

lemma L_ISEQU_val [lfp_simps]: "L_ISEQU a b \<longleftrightarrow> lfp_val a = lfp_val b"
  by (simp only: L_ISEQU_def M_ISEQU_def lfp_val_def fx_eq_iff)

lemma L_ISZERO_val [lfp_simps]: "L_ISZERO v \<longleftrightarrow> lfp_val v = 0"
  using fx_eq_iff [of "l_ui v" "l_uf v" 0 0] by (simp add: L_ISZERO_def lfp_val_def fx_0)

section \<open>The group of fixed-point numbers\<close>

text \<open>
  What the clients of the fixed-point operations rely on: an injective 64-bit value that
  addition, subtraction and negation respect. The laws of the group follow.
\<close>

locale fixed_point =
  fixes add :: "'a \<Rightarrow> 'a \<Rightarrow> 'a" and sub :: "'a \<Rightarrow> 'a \<Rightarrow> 'a" and neg :: "'a \<Rightarrow> 'a"
    and val :: "'a \<Rightarrow> u64"
  assumes val_inject: "val x = val y \<longleftrightarrow> x = y"
    and val_add: "val (add x y) = val x + val y"
    and val_sub: "val (sub x y) = val x - val y"
    and val_neg: "val (neg x) = - val x"
begin

lemma add_comm: "add x y = add y x"
  by (simp add: val_add add.commute flip: val_inject)

lemma add_assoc: "add (add x y) z = add x (add y z)"
  by (simp add: val_add add.assoc flip: val_inject)

lemma sub_add_cancel: "sub (add x y) y = x" and add_sub_cancel: "add (sub x y) y = x"
  by (simp_all add: val_add val_sub flip: val_inject)

lemma neg_neg: "neg (neg x) = x"
  by (simp add: val_neg flip: val_inject)

lemma sub_eq_add_neg: "sub x y = add x (neg y)"
  by (simp add: val_add val_sub val_neg flip: val_inject)

lemma neg_sub: "neg (sub x y) = sub y x"
  by (simp add: val_sub val_neg flip: val_inject)

lemma offset_chain: "add (sub x y) (sub y z) = sub x z"
  by (simp add: val_add val_sub flip: val_inject)

end

interpretation lfp: fixed_point L_ADD L_SUB L_NEG lfp_val
  by unfold_locales (simp_all add: lfp_simps lfp_val_inject)

section \<open>The three-word accumulator and the short format\<close>

text \<open>The three-word accumulator.\<close>

definition val96 :: "u32 \<times> u32 \<times> u32 \<Rightarrow> int" where
  "val96 v = (case v of (ovr, i, f) \<Rightarrow> uint ovr * 2 ^ 64 + uint i * 2 ^ 32 + uint f)"

lemma val96_bounds: "uint (a::u32) * 2 ^ 64 + uint (b::u32) * 2 ^ 32 + uint (c::u32) < 2 ^ 96"
  using uint_u32 [of a] uint_u32 [of b] uint_u32 [of c] by simp

lemma sint_u32_if: "sint (w :: u32) = uint w - of_bool (2 ^ 31 \<le> uint w) * 2 ^ 32"
proof -
  have "bit w 31 \<longleftrightarrow> 2 ^ 31 \<le> uint w"
    using bit31_carry [of w] by auto
  then show ?thesis using sint_uint_if [of w] by simp
qed

lemma uint_scale_sint: "uint (w :: u32) * 65536 mod 2 ^ 32 = sint w * 65536 mod 2 ^ 32"
  using sint_uint_if [of w] by (cases "bit w 31") (auto simp: left_diff_distrib mod_diff_right_eq [of _ 281474976710656, symmetric])

lemma uint_add_carry: "uint (x + y + of_bool c :: u32) = uint x + uint y + of_bool c - of_bool (2 ^ 32 \<le> uint x + uint y + of_bool c) * 2 ^ 32"
proof -
  have "uint (x + y + of_bool c) = (uint x + uint y + of_bool c) mod 2 ^ 32"
    by (simp add: uint_word_ariths mod_simps)
  also have "\<dots> = uint x + uint y + of_bool c - of_bool (2 ^ 32 \<le> uint x + uint y + of_bool c) * 2 ^ 32"
    using uint_u32 [of x] uint_u32 [of y] by (subst mod_once) auto
  finally show ?thesis .
qed

lemma push_16_sub: "push_bit 16 (a - 0x10000 :: u32) = push_bit 16 a"
  by (simp add: push_bit_eq_mult left_diff_distrib)

lemma MFPTOFP_uint:
  assumes "- 65536 < sint x_i" "sint x_i < 65536"
  shows "uint (MFPTOFP x_i x_f) = (uint x_i * 65536) mod 2 ^ 32 + uint x_f div 65536"
proof -
  have "MFPTOFP x_i x_f = push_bit 16 x_i OR take_bit 16 (drop_bit 16 x_f)"
    using assms by (simp add: MFPTOFP_def and_ffff)
  moreover have "uint x_f div 65536 mod 65536 = uint x_f div 65536"
    using uint_u32 [of x_f] by (intro mod_pos_pos_trivial) (simp_all add: pos_imp_zdiv_nonneg_iff)
  ultimately show ?thesis
    by (simp add: uint_push_or_take uint_drop_bit)
qed

section \<open>Properties\<close>

text \<open>C38: On every pair of operands L_ADD, L_SUB and L_NEG, which work by 16-bit halves with explicit carries, are exactly two's complement addition, subtraction and negation of the 64-bit values, and the fraction forms add a zero- or sign-extended fraction.\<close>

theorem lfp_ring_ops_refine:
  "lfp_val (L_ADD r a) = lfp_val r + lfp_val a
   \<and> lfp_val (L_SUB r a) = lfp_val r - lfp_val a
   \<and> lfp_val (L_NEG r) = - lfp_val r
   \<and> lfp_val (L_ADDUF r uf) = lfp_val r + ucast uf
   \<and> lfp_val (L_SUBUF r uf) = lfp_val r - ucast uf
   \<and> lfp_val (L_ADDF r f) = lfp_val r + scast f"
  by (simp add: lfp_simps)

theorem lfp_shift_compare_refine:
  "lfp_val (L_LSHIFT v) = 2 * lfp_val v
   \<and> lfp_val (L_RSHIFTU v) = drop_bit 1 (lfp_val v)
   \<and> lfp_val (L_RSHIFT v) = signed_drop_bit 1 (lfp_val v)
   \<and> (L_ISHIS v w \<longleftrightarrow> lfp_val w \<le> lfp_val v)
   \<and> (L_ISGEQ v w \<longleftrightarrow> sint (lfp_val w) \<le> sint (lfp_val v))
   \<and> (L_ISNEG v \<longleftrightarrow> sint (lfp_val v) < 0)
   \<and> (L_ISZERO v \<longleftrightarrow> lfp_val v = 0)
   \<and> (L_ISEQU v w \<longleftrightarrow> v = w)"
  by (simp add: lfp_simps lfp_val_inject)

theorem lfp_offset_chain: "L_ADD (L_SUB x y) (L_SUB y z) = L_SUB x z \<and> L_NEG (L_SUB x y) = L_SUB y x"
  by (simp add: lfp.offset_chain lfp.neg_sub)

theorem M_ADD3_val:
  "val96 (M_ADD3 r_ovr r_i r_f a_ovr a_i a_f) =
     (val96 (r_ovr, r_i, r_f) + val96 (a_ovr, a_i, a_f)) mod 2 ^ 96"
proof -
  define c where "c = (2 ^ 32 \<le> uint r_f + uint a_f)"
  define d where "d = (2 ^ 32 \<le> uint r_i + uint a_i + of_bool c)"
  define e where "e = (2 ^ 32 \<le> uint r_ovr + uint a_ovr + of_bool d)"
  note b = uint_u32 [of r_f] uint_u32 [of a_f] uint_u32 [of r_i] uint_u32 [of a_i] uint_u32 [of r_ovr] uint_u32 [of a_ovr]
  let ?s = "val96 (r_ovr, r_i, r_f) + val96 (a_ovr, a_i, a_f)"
  have f: "uint (r_f + a_f) = uint r_f + uint a_f - of_bool c * 2 ^ 32"
    using uint_add_carry [of r_f a_f False] by (simp add: c_def)
  have i: "uint (r_i + a_i + of_bool c) = uint r_i + uint a_i + of_bool c - of_bool d * 2 ^ 32"
    by (simp only: uint_add_carry d_def)
  have o: "uint (r_ovr + a_ovr + of_bool d) = uint r_ovr + uint a_ovr + of_bool d - of_bool e * 2 ^ 32"
    by (simp only: uint_add_carry e_def)
  have "val96 (M_ADD3 r_ovr r_i r_f a_ovr a_i a_f) = 
     uint (r_ovr + a_ovr + of_bool d) * 2 ^ 64 + uint (r_i + a_i + of_bool c) * 2 ^ 32 + uint (r_f + a_f)"
    by (simp only: M_ADD3_u32 Let_def val96_def split_conv c_def d_def)
  also have "\<dots> = ?s - of_bool e * 2 ^ 96"
    unfolding f i o val96_def split_conv by (simp add: algebra_simps)
  finally have v: "val96 (M_ADD3 r_ovr r_i r_f a_ovr a_i a_f) = ?s - of_bool e * 2 ^ 96" .
  have "0 \<le> val96 v" "val96 v < 2 ^ 96" for v
    using val96_bounds [of "fst v" "fst (snd v)" "snd (snd v)"] by (simp_all add: val96_def split_beta)
  from this [of "M_ADD3 r_ovr r_i r_f a_ovr a_i a_f"] v have "?s mod 2 ^ 96 = ?s - of_bool e * 2 ^ 96"
    by (intro int_mod_pos_eq [where q = "of_bool e"]) auto
  with v show ?thesis by simp
qed

theorem LFPTOFP_FPTOLFP: "LFPTOFP (FPTOLFP x) = x"
proof -
  have "uint (drop_bit 16 x) < 65536"
    using uint_u32 [of x] by (simp add: uint_drop_bit)
  moreover have "0 \<le> uint (drop_bit 16 x)" by simp
  ultimately have d: "uint (drop_bit 16 x) < 65536" "0 \<le> uint (drop_bit 16 x)" "- 65536 < uint (drop_bit 16 x)"
    by linarith+
  have n: "32768 \<le> uint (drop_bit 16 x)" if "sint x < 0"
  proof -
    have "2147483648 \<le> uint x"
      using that sint_u32_if [of x] by (cases "2147483648 \<le> uint x") auto
    then have "2147483648 div 65536 \<le> uint x div 65536" by (intro zdiv_mono1) auto
    then show ?thesis by (simp add: uint_drop_bit)
  qed
  have s: "sint (drop_bit 16 x) = uint (drop_bit 16 x)"
    using d by (simp add: sint_u32_if)
  have "uint (drop_bit 16 x - 0x10000) = (uint (drop_bit 16 x) - 0x10000) mod 2 ^ 32"
    by (simp add: uint_word_ariths)
  also have "\<dots> = uint (drop_bit 16 x) - 0x10000 + 2 ^ 32"
    using d by (intro int_mod_pos_eq [where q = "- 1"]) auto
  finally have "sint (drop_bit 16 x - 0x10000) = uint (drop_bit 16 x) - 0x10000"
    using d by (simp add: sint_u32_if)
  with d(1,3) s n have bd: "- 65536 < sint (l_ui (FPTOLFP x))" "sint (l_ui (FPTOLFP x)) < 65536"
    by (auto simp: FPTOLFP_def UFPTOLFP_def Let_def)
  have "push_bit 16 (l_ui (FPTOLFP x)) = push_bit 16 (drop_bit 16 x)"
    by (auto simp: FPTOLFP_def UFPTOLFP_def Let_def push_16_sub)
  then have "push_bit 16 (l_ui (FPTOLFP x)) OR take_bit 16 (drop_bit 16 (l_uf (FPTOLFP x))) = x"
    by (auto simp: FPTOLFP_def UFPTOLFP_def Let_def intro!: bit_word_eqI simp: bit_simps)
  with bd show ?thesis by (simp add: LFPTOFP_def MFPTOFP_def and_ffff)
qed


theorem MFPTOFP_floor:
  assumes "- 32768 \<le> sint x_i" "sint x_i < 32768"
  shows "sint (MFPTOFP x_i x_f) = (sint x_i * 2 ^ 32 + uint x_f) div 2 ^ 16"
proof -
  have r: "(sint x_i * 2 ^ 32 + uint x_f) div 2 ^ 16 = sint x_i * 65536 + uint x_f div 65536"
    by simp
  have f: "0 \<le> uint x_f div 65536" "uint x_f div 65536 < 65536"
    using uint_u32 [of x_f] by (simp_all add: pos_imp_zdiv_nonneg_iff)
  have "(uint x_i * 65536) mod 2 ^ 32 = sint x_i * 65536 + of_bool (sint x_i < 0) * 2 ^ 32"
    unfolding uint_scale_sint using assms by (cases "sint x_i < 0") (auto intro: int_mod_pos_eq [where q = "-1"] mod_pos_pos_trivial)
  with MFPTOFP_uint [of x_i x_f] assms
  have u: "uint (MFPTOFP x_i x_f) = sint x_i * 65536 + uint x_f div 65536 + of_bool (sint x_i < 0) * 2 ^ 32" by simp
  moreover have "sint (MFPTOFP x_i x_f) = uint (MFPTOFP x_i x_f) - of_bool (2 ^ 31 \<le> uint (MFPTOFP x_i x_f)) * 2 ^ 32"
    by (rule sint_u32_if)
  ultimately show ?thesis unfolding r using assms f by auto
qed

lemma MFPTOFP_floor_witness:
  "sint (MFPTOFP (- 2) 0xc0000000) = (sint (- 2 :: u32) * 2 ^ 32 + uint (0xc0000000 :: u32)) div 2 ^ 16"
  by (rule MFPTOFP_floor) simp_all

theorem MFPTOFP_sign_gap:
  assumes "32768 \<le> sint x_i" "sint x_i < 65536"
  shows "sint (MFPTOFP x_i x_f) < 0"
proof -
  have f: "0 \<le> uint x_f div 65536" "uint x_f div 65536 < 65536"
    using uint_u32 [of x_f] by (simp_all add: pos_imp_zdiv_nonneg_iff)
  have "(sint x_i * 65536) mod 2 ^ 32 = sint x_i * 65536"
    using assms by simp
  then have u: "uint (MFPTOFP x_i x_f) = sint x_i * 65536 + uint x_f div 65536"
    using MFPTOFP_uint [of x_i x_f] assms by (simp only: uint_scale_sint)
  then have "2 ^ 31 \<le> uint (MFPTOFP x_i x_f)"
    using assms f by simp
  then show ?thesis
    using sint_u32_if [of "MFPTOFP x_i x_f"] uint_u32 [of "MFPTOFP x_i x_f"] by simp
qed

lemma MFPTOFP_sign_gap_witness: "sint (MFPTOFP 40000 0) < 0"
  by (rule MFPTOFP_sign_gap) simp_all

end
