(* ===== verification/NtpCalendar.thy ===== *)
theory NtpCalendar
  imports NtpFixedPoint
begin

text \<open>
  The calendar routines of \<open>ntpdist/libntp\<close>: \<^verbatim>\<open>caljulian\<close> turns an NTP second count into a
  broken-down date, \<^verbatim>\<open>caltontp\<close> turns a date into NTP seconds, \<^verbatim>\<open>calyearstart\<close> finds the
  start of the year, \<^verbatim>\<open>ymd2yd\<close> the day of the year and \<^verbatim>\<open>clocktime\<close> the time stamp of a radio
  clock reading. The system time \<open>time(NULL)\<close> is the argument \<open>now\<close>; a failed
  \<^verbatim>\<open>NTP_REQUIRE\<close>, \<^verbatim>\<open>NTP_ENSURE\<close> or \<^verbatim>\<open>NTP_INVARIANT\<close>, which aborts the process, is the
  result \<open>None\<close>.
\<close>

section \<open>The operations\<close>

record calendar =
  cal_year :: u16
  cal_yearday :: u16
  cal_month :: u8
  cal_monthday :: u8
  cal_hour :: u8
  cal_minute :: u8
  cal_second :: u8

definition SECSPERMIN :: "'a::len word" where "SECSPERMIN = 60"
definition MINSPERHR :: "'a::len word" where "MINSPERHR = 60"
definition HRSPERDAY :: "'a::len word" where "HRSPERDAY = 24"
definition DAYSPERYEAR :: "'a::len word" where "DAYSPERYEAR = 365"
definition SECSPERDAY :: "'a::len word" where
  "SECSPERDAY = SECSPERMIN * MINSPERHR * HRSPERDAY"
definition DAY_NTP_STARTS :: "'a::len word" where "DAY_NTP_STARTS = 693596"
definition GREGORIAN_CYCLE_DAYS :: u64 where "GREGORIAN_CYCLE_DAYS = 146097"
definition GREGORIAN_NORMAL_CENTURY_DAYS :: u64 where "GREGORIAN_NORMAL_CENTURY_DAYS = 36524"
definition GREGORIAN_NORMAL_LEAP_CYCLE_DAYS :: u64 where
  "GREGORIAN_NORMAL_LEAP_CYCLE_DAYS = 1461"
definition JAN_1970 :: u32 where "JAN_1970 = 0x83aa7e80"

lemmas cal_consts = SECSPERMIN_def MINSPERHR_def HRSPERDAY_def DAYSPERYEAR_def SECSPERDAY_def
  DAY_NTP_STARTS_def GREGORIAN_CYCLE_DAYS_def GREGORIAN_NORMAL_CENTURY_DAYS_def
  GREGORIAN_NORMAL_LEAP_CYCLE_DAYS_def

text \<open>The 64-bit time stamp around the current time, as its high and low word.\<close>

definition caljulian_unfold :: "u64 \<Rightarrow> u64 \<Rightarrow> u32 \<times> u32" where
  "caljulian_unfold now ntptime =
     (let tmplo = ucast now;
          tmphi = ucast (signed_drop_bit 16 (signed_drop_bit 16 now));
          (tmphi, tmplo) = M_ADD tmphi tmplo 0 0x7fffffff;
          (tmphi, tmplo) = M_ADD tmphi tmplo 0 JAN_1970;
          tmphi = (if ntptime > ucast tmplo \<and> 0 < sint (tmphi :: u32) then tmphi - 1 else tmphi)
      in (tmphi, ucast ntptime))"

text \<open>Year, month and day from the number of days since the first of January of year 1.\<close>

definition caljulian_date :: "u64 \<Rightarrow> calendar \<Rightarrow> calendar option" where
  "caljulian_date days jt =
     (let n400 = days div GREGORIAN_CYCLE_DAYS;
          ntp_day = days mod GREGORIAN_CYCLE_DAYS;
          n100 = ntp_day div GREGORIAN_NORMAL_CENTURY_DAYS;
          ntp_day = ntp_day mod GREGORIAN_NORMAL_CENTURY_DAYS;
          n4 = ntp_day div GREGORIAN_NORMAL_LEAP_CYCLE_DAYS;
          ntp_day = ntp_day mod GREGORIAN_NORMAL_LEAP_CYCLE_DAYS;
          n1 = ntp_day div DAYSPERYEAR;
          ntp_day = ntp_day mod DAYSPERYEAR;
          jt = jt\<lparr>cal_year := ucast (400 * n400 + 100 * n100 + 4 * n4 + n1)\<rparr>
      in if \<not> ntp_day < 366 then None
         else let jt =
             (if 3 < n100 OR n1 then jt\<lparr>cal_month := 12, cal_monthday := 31, cal_yearday := 366\<rparr>
              else
                let sclday = ntp_day * 7 + 217;
                    leaps = (if n1 = 3 \<and> (n4 \<noteq> 24 \<or> n100 = 3) then 1 else 0);
                    sclday = (if ntp_day \<ge> 31 + 28 + leaps then sclday + (2 - leaps) * 7 else sclday)
                in jt\<lparr>cal_year := cal_year jt + 1,
                     cal_month := ucast (sclday div 214),
                     cal_monthday := ucast (sclday mod 214 div 7 + 1),
                     cal_yearday := ucast (1 + ntp_day)\<rparr>)
           in if 1 \<le> cal_month jt \<and> cal_month jt \<le> 12 \<and> 1 \<le> cal_monthday jt \<and> cal_monthday jt \<le> 31
                \<and> 1 \<le> cal_yearday jt \<and> cal_yearday jt \<le> 366
              then Some jt else None)"

definition caljulian :: "u64 \<Rightarrow> u64 \<Rightarrow> calendar option" where
  "caljulian now saved_time =
     (let (tmphi, tmplo) = caljulian_unfold now saved_time;
          ntptime = ucast (tmplo AND 127) :: u64;
          tmplo = drop_bit 7 tmplo OR push_bit 25 tmphi;
          ntp_day = ucast (tmplo div 675) :: u64;
          ntptime = ntptime + ucast (push_bit 7 (tmplo mod 675))
      in if \<not> ntptime < SECSPERDAY then None
         else if ucast (ntptime + ntp_day * SECSPERDAY) \<noteq> (ucast saved_time :: u32) then None
         else
           let second = ucast (ntptime mod SECSPERMIN);
               ntptime = ntptime div SECSPERMIN;
               minute = ucast (ntptime mod MINSPERHR);
               hour = ucast (ntptime div MINSPERHR);
               jt = \<lparr>cal_year = 0, cal_yearday = 0, cal_month = 0, cal_monthday = 0,
                     cal_hour = hour, cal_minute = minute, cal_second = second\<rparr>
           in if second < SECSPERMIN \<and> minute < MINSPERHR \<and> hour < HRSPERDAY
              then caljulian_date (ntp_day + (DAY_NTP_STARTS - 1)) jt
              else None)"

text \<open>Days since the NTP epoch of a date, all modulo \<open>2 ^ 32\<close>.\<close>

definition caltontp_days :: "calendar \<Rightarrow> u32" where
  "caltontp_days jt =
     (if cal_yearday jt \<noteq> 0 then
        let years = ucast (cal_year jt) - 1 :: u32
        in years * DAYSPERYEAR + years div 4 - years div 100 + years div 400
           + ucast (cal_yearday jt) - DAY_NTP_STARTS
      else
        let month = ucast (cal_month jt) + 9 :: u32;
            years = ucast (cal_year jt) - 1 + month div 12;
            month = month mod 12
        in years * DAYSPERYEAR + years div 4 - years div 100 + years div 400
           + (month * 153 + 2) div 5 + ucast (cal_monthday jt) - 306 - DAY_NTP_STARTS)"

definition caltontp :: "calendar \<Rightarrow> u64 option" where
  "caltontp jt =
     (if cal_month jt \<le> 13 \<and> cal_monthday jt \<le> 32 \<and> cal_yearday jt \<le> 366 \<and> cal_hour jt \<le> 24
         \<and> cal_minute jt \<le> MINSPERHR \<and> cal_second jt \<le> SECSPERMIN
      then Some (ucast (caltontp_days jt * SECSPERDAY
                 + ucast (cal_hour jt) * MINSPERHR * SECSPERMIN
                 + ucast (cal_minute jt) * SECSPERMIN
                 + ucast (cal_second jt)))
      else None)"

definition calyearstart :: "u64 \<Rightarrow> u64 \<Rightarrow> u64 option" where
  "calyearstart now ntp_time =
     (case caljulian now ntp_time of
        None \<Rightarrow> None
      | Some jt \<Rightarrow>
          let delta = ucast (cal_yearday jt) * SECSPERDAY
                + ucast (cal_hour jt) * MINSPERHR * SECSPERMIN
                + ucast (cal_minute jt) * SECSPERMIN + ucast (cal_second jt)
                - SECSPERDAY :: u32;
              jt = jt\<lparr>cal_yearday := 0, cal_month := 1, cal_monthday := 1,
                     cal_hour := 0, cal_minute := 0, cal_second := 0\<rparr>
          in (case caltontp jt of
                None \<Rightarrow> None
              | Some t \<Rightarrow>
                  if ucast (t + ucast delta) = (ucast ntp_time :: u32)
                  then Some (ucast (ucast (ntp_time - ucast delta) :: u32))
                  else None))"

definition day1tab :: "int list" where
  "day1tab = [31, 28, 31, 30, 31, 30, 31, 31, 30, 31, 30, 31]"

definition day2tab :: "int list" where
  "day2tab = [31, 29, 31, 30, 31, 30, 31, 31, 30, 31, 30, 31]"

fun ymd2yd_sum :: "int list \<Rightarrow> nat \<Rightarrow> int \<Rightarrow> int" where
  "ymd2yd_sum t 0 d = d"
| "ymd2yd_sum [] (Suc n) d = d"
| "ymd2yd_sum (x # t) (Suc n) d = ymd2yd_sum t n (d + x)"

text \<open>C's remainder truncates towards zero; only its being zero matters here.\<close>

definition ymd2yd :: "int \<Rightarrow> int \<Rightarrow> int \<Rightarrow> int" where
  "ymd2yd y m d =
     (if m < 1 \<or> m > 12 \<or> d < 1 then - 1
      else
        let t = (if (y smod 4 = 0 \<and> y smod 100 \<noteq> 0) \<or> y smod 400 = 0 then day2tab else day1tab)
        in if d > t ! nat (m - 1) then - 1 else ymd2yd_sum t (nat (m - 1)) d)"

section \<open>The proleptic Gregorian calendar\<close>

text \<open>The reference the routines are compared with: year and month lengths, summed.\<close>

definition leap_year :: "nat \<Rightarrow> bool" where
  "leap_year y \<longleftrightarrow> y mod 4 = 0 \<and> (y mod 100 \<noteq> 0 \<or> y mod 400 = 0)"

definition year_days :: "nat \<Rightarrow> nat" where
  "year_days y = (if leap_year y then 366 else 365)"

definition days_before_year :: "nat \<Rightarrow> nat" where
  "days_before_year y = (\<Sum>i\<leftarrow>[1..<y]. year_days i)"

definition month_days :: "bool \<Rightarrow> nat list" where
  "month_days leap = [31, if leap then 29 else 28, 31, 30, 31, 30, 31, 31, 30, 31, 30, 31]"

definition days_before_month :: "bool \<Rightarrow> nat \<Rightarrow> nat" where
  "days_before_month leap m = sum_list (take (m - 1) (month_days leap))"

definition date_ok :: "nat \<Rightarrow> nat \<Rightarrow> nat \<Rightarrow> nat \<Rightarrow> bool" where
  "date_ok y m d yd \<longleftrightarrow> 1 \<le> m \<and> m \<le> 12 \<and> 1 \<le> d \<and> d \<le> month_days (leap_year y) ! (m - 1)
     \<and> yd = days_before_month (leap_year y) m + d \<and> yd \<le> year_days y"

definition month_scan :: "nat \<Rightarrow> nat \<Rightarrow> nat" where
  "month_scan lp e = (if 59 + lp \<le> e then e * 7 + 217 + (2 - lp) * 7 else e * 7 + 217)"

definition month_scan_ok :: "bool \<Rightarrow> nat \<Rightarrow> bool" where
  "month_scan_ok lp e \<longleftrightarrow>
    (let s = month_scan (of_bool lp) e; m = s div 214; d = s mod 214 div 7 + 1
     in 1 \<le> m \<and> m \<le> 12 \<and> 1 \<le> d \<and> d \<le> month_days lp ! (m - 1) \<and> e + 1 = days_before_month lp m + d)"


lemma month_seg:
  fixes e :: nat
  assumes "214 * m + r = 7 * k + c" "r < 7" "k \<le> e" "7 * e + c < 214 * m + 214"
  shows "(e * 7 + c) div 214 = m \<and> (e * 7 + c) mod 214 div 7 = e - k"
proof -
  have s: "e * 7 + c = 7 * (e - k) + r + 214 * m" and l: "7 * (e - k) + r < 214"
    using assms by simp_all
  have "(7 * (e - k) + r) div 7 = e - k"
    using assms(2) by simp
  with l show ?thesis unfolding s by simp
qed

lemma month_scan_seg:
  assumes c: "c = (if 59 + of_bool lp \<le> k then 217 + (2 - of_bool lp) * 7 else 217)"
    and "214 * m + r = 7 * k + c"
    and "r < 7" "1 \<le> m" "m \<le> 12" "k = days_before_month lp m" "n = month_days lp ! (m - 1)"
    and "k \<le> e" "e < k + n" "(59 + of_bool lp \<le> k) = (59 + of_bool lp \<le> e)"
    and "7 * (k + n) + c < 214 * m + 221"
  shows "month_scan_ok lp e"
proof -
  have c: "month_scan (of_bool lp) e = e * 7 + c"
    using assms(10) by (simp add: month_scan_def c)
  have "(e * 7 + c) div 214 = m \<and> (e * 7 + c) mod 214 div 7 = e - k"
    using assms(2,3,8,9,11) by (intro month_seg [where r = r]) simp_all
  then have "month_scan (of_bool lp) e div 214 = m" "month_scan (of_bool lp) e mod 214 div 7 = e - k"
    by (simp_all only: c)
  with assms(4-9) show ?thesis
    by (simp add: month_scan_ok_def Let_def)
qed

lemma day_month_cases:
  assumes "e < 365 + of_bool lp"
  obtains (in_month) m where "1 \<le> m" "m \<le> 12" "days_before_month lp m \<le> e"
    "e < days_before_month lp m + month_days lp ! (m - 1)"
proof (rule ccontr)
  note d = days_before_month_def month_days_def
  assume n: "\<not> thesis"
  have s: "days_before_month lp m + month_days lp ! (m - 1) \<le> e"
    if "1 \<le> m" "m \<le> 12" "days_before_month lp m \<le> e" for m
    using that n in_month [of m] by (meson not_less)
  have "31 \<le> e" using s [of 1] by (simp add: d)
  then have "59 + of_bool lp \<le> e" using s [of 2] by (cases lp) (simp_all add: d)
  then have "90 + of_bool lp \<le> e" using s [of 3] by (cases lp) (simp_all add: d)
  then have "120 + of_bool lp \<le> e" using s [of 4] by (cases lp) (simp_all add: d)
  then have "151 + of_bool lp \<le> e" using s [of 5] by (cases lp) (simp_all add: d)
  then have "181 + of_bool lp \<le> e" using s [of 6] by (cases lp) (simp_all add: d)
  then have "212 + of_bool lp \<le> e" using s [of 7] by (cases lp) (simp_all add: d)
  then have "243 + of_bool lp \<le> e" using s [of 8] by (cases lp) (simp_all add: d)
  then have "273 + of_bool lp \<le> e" using s [of 9] by (cases lp) (simp_all add: d)
  then have "304 + of_bool lp \<le> e" using s [of 10] by (cases lp) (simp_all add: d)
  then have "334 + of_bool lp \<le> e" using s [of 11] by (cases lp) (simp_all add: d)
  then show False using s [of 12] assms by (cases lp) (simp_all add: d)
qed

lemma upto12: "1 \<le> m \<Longrightarrow> m \<le> (12::nat) \<Longrightarrow> m \<in> {1,2,3,4,5,6,7,8,9,10,11,12}"
  by (simp; presburger)
lemma month_scan_correct: 
  assumes "e < 365" shows "month_scan_ok lp e"
proof -
  obtain m where m: "1 \<le> m" "m \<le> 12" and e: "days_before_month lp m \<le> e"
    "e < days_before_month lp m + month_days lp ! (m - 1)"
    using day_month_cases [of e lp] assms by (auto simp: trans_less_add1)
  define k where "k = days_before_month lp m"
  define n where "n = month_days lp ! (m - 1)"
  let ?c = "if 59 + of_bool lp \<le> k then 217 + (2 - of_bool lp) * 7 else 217 :: nat"
  have "214 * m + (7 * k + ?c - 214 * m) = 7 * k + ?c \<and> 7 * k + ?c - 214 * m < 7
    \<and> 7 * (k + n) + ?c < 214 * m + 221 \<and> (59 + of_bool lp \<le> k \<or> k + n \<le> 59 + of_bool lp)"
    using upto12 [OF m] unfolding k_def n_def days_before_month_def month_days_def by (cases lp) auto
  then show ?thesis
    using m e by (intro month_scan_seg [where m = m and k = k and n = n and c = ?c and r = "7 * k + ?c - 214 * m"])
      (auto simp: k_def n_def)
qed

lemma greg_split:
  fixes D :: nat
  assumes "a = D div 146097" "r1 = D mod 146097" "b = r1 div 36524" "r2 = r1 mod 36524"
    "c = r2 div 1461" "r3 = r2 mod 1461" "d = r3 div 365" "e = r3 mod 365"
  shows "D = 146097 * a + 36524 * b + 1461 * c + 365 * d + e" "b \<le> 4" "c \<le> 24" "d \<le> 4" "e < 365"
    "b = 4 \<Longrightarrow> c = 0 \<and> d = 0 \<and> e = 0"
    "d = 4 \<Longrightarrow> e = 0 \<and> c < 24 \<and> b < 4"
proof -
  have eqs: "D = 146097 * a + r1" "r1 = 36524 * b + r2" "r2 = 1461 * c + r3" "r3 = 365 * d + e"
    unfolding assms by simp_all
  have lts: "r1 < 146097" "r2 < 36524" "r3 < 1461" "e < 365"
    unfolding assms by simp_all
  show "D = 146097 * a + 36524 * b + 1461 * c + 365 * d + e" "e < 365" using eqs lts by linarith+
  show "b \<le> 4" "c \<le> 24" "d \<le> 4" using eqs lts by linarith+
  show "b = 4 \<Longrightarrow> c = 0 \<and> d = 0 \<and> e = 0" using eqs lts by linarith
  show "d = 4 \<Longrightarrow> e = 0 \<and> c < 24 \<and> b < 4" using eqs lts by auto
qed

lemma days_before_year_0 [simp]: "days_before_year (Suc 0) = 0"
  by (simp add: days_before_year_def)

lemma days_before_year_Suc: "1 \<le> y \<Longrightarrow> days_before_year (Suc y) = days_before_year y + year_days y"
  by (simp add: days_before_year_def)

lemma leap_mods:
  "(y :: nat) mod 400 = 0 \<Longrightarrow> y mod 100 = 0" "(y :: nat) mod 100 = 0 \<Longrightarrow> y mod 4 = 0"
  using dvd_trans [of 100 400 y] dvd_trans [of 4 100 y] by (simp_all add: mod_eq_0_iff_dvd)

lemma days_before_year_eq: "days_before_year (Suc n) + n div 100 = 365 * n + n div 4 + n div 400"
proof (induction n)
  case (Suc n)
  have "Suc n mod 400 = 0 \<Longrightarrow> Suc n mod 100 = 0" "Suc n mod 100 = 0 \<Longrightarrow> Suc n mod 4 = 0"
    using leap_mods [of "Suc n"] by simp_all
  then show ?case
    using Suc days_before_year_Suc [of "Suc n"] div_Suc [of n 4] div_Suc [of n 100] div_Suc [of n 400]
    by (auto simp: year_days_def leap_year_def split: if_splits)
qed simp

definition date_of_day :: "calendar \<Rightarrow> nat \<Rightarrow> bool" where
  "date_of_day jt D \<longleftrightarrow>
     1 \<le> cal_year jt
     \<and> date_ok (unat (cal_year jt)) (unat (cal_month jt)) (unat (cal_monthday jt)) (unat (cal_yearday jt))
     \<and> days_before_year (unat (cal_year jt)) + unat (cal_yearday jt) = D + 1"

lemma greg_year:
  fixes a b c d e :: nat
  assumes "b \<le> 3" "c \<le> 24" "d \<le> 3"
  shows "days_before_year (Suc (400 * a + 100 * b + 4 * c + d)) = 146097 * a + 36524 * b + 1461 * c + 365 * d"
    "leap_year (Suc (400 * a + 100 * b + 4 * c + d)) \<longleftrightarrow> d = 3 \<and> (c \<noteq> 24 \<or> b = 3)"
proof -
  let ?n = "400 * a + 100 * b + 4 * c + d"
  have n: "?n div 4 = 100 * a + 25 * b + c" "?n div 100 = 4 * a + b" "?n div 400 = a"
    using assms by linarith+
  show "days_before_year (Suc ?n) = 146097 * a + 36524 * b + 1461 * c + 365 * d"
    using days_before_year_eq [of ?n] unfolding n by simp
  show "leap_year (Suc ?n) \<longleftrightarrow> d = 3 \<and> (c \<noteq> 24 \<or> b = 3)"
  proof (cases "d = 3")
    case False
    have "Suc ?n = Suc d + 4 * (100 * a + 25 * b + c)" by simp
    then have "Suc ?n mod 4 = Suc d mod 4" by (simp only: mod_mult_self2)
    with False assms(3) show ?thesis by (simp add: leap_year_def)
  next
    case d: True
    have y: "Suc ?n = 4 * (100 * a + 25 * b + c + 1)" "Suc ?n = 4 * (c + 1) + 100 * (4 * a + b)" using d by simp_all
    have "Suc ?n mod 4 = 0" unfolding y(1) by simp
    moreover have "Suc ?n mod 100 = 0 \<longleftrightarrow> c = 24"
    proof -
      have "Suc ?n mod 100 = 4 * (c + 1) mod 100" unfolding y(2) by (simp only: mod_mult_self2)
      also have "\<dots> = (if c = 24 then 0 else 4 * (c + 1))" using assms(2) by simp
      finally show ?thesis by simp
    qed
    moreover have "Suc ?n mod 400 = 0 \<longleftrightarrow> b = 3" if "c = 24"
    proof -
      have "Suc ?n = 100 * (b + 1) + 400 * a" using d that by simp
      then have "Suc ?n mod 400 = 100 * (b + 1) mod 400" by (simp only: mod_mult_self2)
      also have "\<dots> = (if b = 3 then 0 else 100 * (b + 1))" using assms(1) by simp
      finally show ?thesis by simp
    qed
    ultimately show ?thesis using d by (auto simp: leap_year_def)
  qed
qed

lemma or_gt_3: "unat x \<le> 4 \<Longrightarrow> unat y \<le> 4 \<Longrightarrow> 3 < (x OR y :: u64) \<longleftrightarrow> unat x = 4 \<or> unat y = 4"
proof -
  assume b: "unat x \<le> 4" "unat y \<le> 4"
  have "unat x \<in> {0,1,2,3,4}" "unat y \<in> {0,1,2,3,4}" using b by auto
  then have x: "x \<in> {0,1,2,3,4}" "y \<in> {0,1,2,3,4}" 
    by (auto simp: word_unat_eq_iff)
  then show ?thesis by auto
qed

lemma unat_days_consts:
  "unat GREGORIAN_CYCLE_DAYS = 146097" "unat GREGORIAN_NORMAL_CENTURY_DAYS = 36524"
  "unat GREGORIAN_NORMAL_LEAP_CYCLE_DAYS = 1461" "unat (DAYSPERYEAR :: u64) = 365"
  by (simp_all add: cal_consts)

lemma unat_add_u64: "unat x + unat y < 18446744073709551616 \<Longrightarrow> unat (x + y :: u64) = unat x + unat y"
  by (simp add: unat_word_ariths)
lemma unat_mult_u64: "unat x * unat y < 18446744073709551616 \<Longrightarrow> unat (x * y :: u64) = unat x * unat y"
  by (simp add: unat_word_ariths)
lemma unat_ucast_small: "unat x < 2 ^ LENGTH('b) \<Longrightarrow> unat (ucast (x :: u64) :: 'b::len word) = unat x"
  by (simp add: unsigned_ucast_eq take_bit_eq_mod)

lemma cal_leap_year_end:
  "date_ok y 12 31 366 \<longleftrightarrow> leap_year y"
  by (auto simp: date_ok_def month_days_def days_before_month_def year_days_def)

lemma cal_scan_date_ok:
  assumes "e < 365" "s = month_scan (of_bool (leap_year y)) e"
  shows "date_ok y (s div 214) (s mod 214 div 7 + 1) (e + 1)"
    "s div 214 < 256" "s mod 214 div 7 + 1 < 256"
  using month_scan_correct [OF assms(1), of "leap_year y"] assms(1)
  unfolding date_ok_def month_scan_ok_def Let_def assms(2)
  by (auto simp: year_days_def)

lemma month_days_le: "1 \<le> m \<Longrightarrow> m \<le> 12 \<Longrightarrow> month_days lp ! (m - 1) \<le> 31"
  using upto12 [of m] by (cases lp) (auto simp: month_days_def)

lemma date_of_day_bounds:
  assumes "date_of_day jt D"
  shows "1 \<le> cal_month jt \<and> cal_month jt \<le> 12 \<and> 1 \<le> cal_monthday jt \<and> cal_monthday jt \<le> 31
    \<and> 1 \<le> cal_yearday jt \<and> cal_yearday jt \<le> 366"
  using assms month_days_le [of "unat (cal_month jt)" "leap_year (unat (cal_year jt))"]
  unfolding date_of_day_def date_ok_def
  by (auto simp: word_le_nat_alt year_days_def split: if_splits)

lemma caljulian_date_correct:
  assumes D: "unat days < 10000000"
  shows "\<exists>jt'. caljulian_date days jt = Some jt' \<and> date_of_day jt' (unat days)
    \<and> cal_hour jt' = cal_hour jt \<and> cal_minute jt' = cal_minute jt \<and> cal_second jt' = cal_second jt"
proof -
  define n400 r1 where "n400 = days div GREGORIAN_CYCLE_DAYS" and "r1 = days mod GREGORIAN_CYCLE_DAYS"
  define n100 r2 where "n100 = r1 div GREGORIAN_NORMAL_CENTURY_DAYS" and "r2 = r1 mod GREGORIAN_NORMAL_CENTURY_DAYS"
  define n4 r3 where "n4 = r2 div GREGORIAN_NORMAL_LEAP_CYCLE_DAYS" and "r3 = r2 mod GREGORIAN_NORMAL_LEAP_CYCLE_DAYS"
  define n1 e where "n1 = r3 div DAYSPERYEAR" and "e = r3 mod DAYSPERYEAR"
  note defs = n400_def r1_def n100_def r2_def n4_def r3_def n1_def e_def
  have u: "unat n400 = unat days div 146097" "unat r1 = unat days mod 146097"
    "unat n100 = unat r1 div 36524" "unat r2 = unat r1 mod 36524"
    "unat n4 = unat r2 div 1461" "unat r3 = unat r2 mod 1461"
    "unat n1 = unat r3 div 365" "unat e = unat r3 mod 365"
    unfolding defs by (simp_all only: unat_div unat_mod unat_days_consts)
  note g = greg_split [OF u]
  let ?n = "400 * unat n400 + 100 * unat n100 + 4 * unat n4 + unat n1"
  have n400: "unat n400 < 100" unfolding u(1) using D by (simp add: div_less_iff_less_mult)
  have year: "unat (400 * n400 + 100 * n100 + 4 * n4 + n1) = ?n" and y16: "?n < 65535"
    using g n400 by (simp_all add: unat_add_u64 unat_mult_u64)
  have y0: "unat (ucast (400 * n400 + 100 * n100 + 4 * n4 + n1) :: u16) = ?n"
    using y16 by (subst unat_ucast_small) (simp_all add: year)
  have e366: "e < 366" using g(5) by (simp add: word_less_nat_alt)
  show ?thesis
  proof (cases "unat n100 = 4 \<or> unat n1 = 4")
    case True
    let ?jt = "jt\<lparr>cal_year := ucast (400 * n400 + 100 * n100 + 4 * n4 + n1), cal_month := 12,
                 cal_monthday := 31, cal_yearday := 366\<rparr>"
    have "3 < n100 OR n1" using True g or_gt_3 by blast
    then have r: "caljulian_date days jt = Some ?jt"
      using e366 unfolding caljulian_date_def defs [symmetric] Let_def by simp
    have "\<exists>b c. b \<le> 3 \<and> c \<le> 24 \<and> (c \<noteq> 24 \<or> b = 3)
        \<and> ?n = Suc (400 * unat n400 + 100 * b + 4 * c + 3)
        \<and> unat days + 1 = 146097 * unat n400 + 36524 * b + 1461 * c + 365 * 3 + 366"
    proof (cases "unat n100 = 4")
      case True
      then show ?thesis using g by (intro exI [of _ 3] exI [of _ 24]) simp
    next
      case False
      with True show ?thesis using g by (intro exI [of _ "unat n100"] exI [of _ "unat n4"]) auto
    qed
    then obtain b c where bc: "b \<le> 3" "c \<le> 24" "c \<noteq> 24 \<or> b = 3"
      and n: "?n = Suc (400 * unat n400 + 100 * b + 4 * c + 3)"
      and d: "unat days + 1 = 146097 * unat n400 + 36524 * b + 1461 * c + 365 * 3 + 366"
      by blast
    have "leap_year ?n" "days_before_year ?n + 366 = unat days + 1"
      unfolding n d using greg_year [of b c 3 "unat n400"] bc by auto
    moreover have "1 \<le> ?n" using n by simp
    ultimately have "date_of_day ?jt (unat days)"
      by (simp add: date_of_day_def y0 cal_leap_year_end word_le_nat_alt)
    with r show ?thesis by auto
  next
    case False
    have bd: "unat n100 \<le> 3" "unat n4 \<le> 24" "unat n1 \<le> 3" using g False by auto
    define leaps :: u64 where "leaps = (if n1 = 3 \<and> (n4 \<noteq> 24 \<or> n100 = 3) then 1 else 0)"
    define scl where "scl = (if e \<ge> 31 + 28 + leaps then e * 7 + 217 + (2 - leaps) * 7 else e * 7 + 217)"
    let ?jt = "jt\<lparr>cal_year := ucast (400 * n400 + 100 * n100 + 4 * n4 + n1) + 1,
                 cal_month := ucast (scl div 214), cal_monthday := ucast (scl mod 214 div 7 + 1),
                 cal_yearday := ucast (1 + e)\<rparr>"
    let ?y = "Suc ?n"
    have leap: "leap_year ?y \<longleftrightarrow> leaps = 1" "leaps = 1 \<or> leaps = 0"
      using greg_year(2) [OF bd, of "unat n400"] by (auto simp: leaps_def word_unat_eq_iff)
    have scl: "unat scl = month_scan (of_bool (leap_year ?y)) (unat e)"
      using leap g(5) by (auto simp: scl_def month_scan_def word_le_nat_alt unat_add_u64 unat_mult_u64)
    note ok = cal_scan_date_ok [OF g(5) scl]
    have m: "unat (ucast (scl div 214) :: u8) = unat scl div 214"
      "unat (ucast (scl mod 214 div 7 + 1) :: u8) = unat scl mod 214 div 7 + 1"
      "unat (ucast (1 + e) :: u16) = unat e + 1"
      using ok g(5)
      by (simp_all add: unat_ucast_small unat_div unat_mod unat_add_u64)
    have y: "unat (ucast (400 * n400 + 100 * n100 + 4 * n4 + n1) + 1 :: u16) = ?y"
      using y0 y16 by (simp add: unat_word_ariths)
    have "date_of_day ?jt (unat days)"
      using ok greg_year(1) [OF bd, of "unat n400"] g(1)
      by (simp add: date_of_day_def y m word_le_nat_alt)
    moreover from date_of_day_bounds [OF this] have "caljulian_date days jt = Some ?jt"
      using e366 or_gt_3 [of n100 n1] False g
      unfolding caljulian_date_def defs [symmetric] Let_def leaps_def [symmetric] scl_def [symmetric]
      by simp
    ultimately show ?thesis by auto
  qed
qed

definition era_seconds :: "u32 \<times> u32 \<Rightarrow> nat" where
  "era_seconds p = unat (fst p) mod 128 * 2 ^ 32 + unat (snd p)"

lemma fx_split: "fx (ucast (signed_drop_bit 16 (signed_drop_bit 16 (w :: u64)))) (ucast w) = w"
  by (rule bit_word_eqI) (auto simp: bit_fx bit_simps)

lemma fx_M_ADD: "M_ADD i f j g = (h, l) \<Longrightarrow> fx h l = fx i f + fx j g"
  using fx_add [of i j f g] by (simp add: M_ADD_u32)

lemma caljulian_unfold_limit:
  "\<exists>hi lo. fx hi lo = now + 0x7fffffff + 0x83aa7e80
     \<and> caljulian_unfold now t = (if t > ucast lo \<and> 0 < sint hi then hi - 1 else hi, ucast t)"
proof -
  let ?h = "ucast (signed_drop_bit 16 (signed_drop_bit 16 now)) :: u32"
  let ?l = "ucast now :: u32"
  obtain h1 l1 where 1: "M_ADD ?h ?l 0 0x7fffffff = (h1, l1)" by fastforce
  obtain h2 l2 where 2: "M_ADD h1 l1 0 JAN_1970 = (h2, l2)" by fastforce
  have "fx h2 l2 = now + 0x7fffffff + 0x83aa7e80"
    unfolding fx_M_ADD [OF 2] fx_M_ADD [OF 1] fx_split fx_0 JAN_1970_def by simp
  then show ?thesis
    unfolding caljulian_unfold_def Let_def 1 2 split_conv by blast
qed

lemma caljulian_unfold_range:
  assumes now: "0 \<le> sint now" "sint now < 2 ^ 38" and t: "t < 2 ^ 32"
  defines "T \<equiv> int (era_seconds (caljulian_unfold now t))"
    and "L \<equiv> sint now + 2147483647 + 2208988800"
  shows "T mod 2 ^ 32 = uint t \<and> T \<le> L \<and> L < T + 2 ^ 32"
proof -
  obtain hi lo where fx: "fx hi lo = now + 0x7fffffff + 0x83aa7e80"
    and r: "caljulian_unfold now t = (if t > ucast lo \<and> 0 < sint hi then hi - 1 else hi, ucast t)"
    using caljulian_unfold_limit by blast
  have n: "uint now = sint now"
    using sint_uint_if [of now] now uint_bounded [of now] by (cases "bit now 63") auto
  have "uint (fx hi lo) = L"
    unfolding fx L_def using n now by (simp add: uint_word_ariths)
  then have L: "uint hi * 2 ^ 32 + uint lo = L" by (simp only: uint_fx)
  have hb: "1 \<le> uint hi" "uint hi < 128"
  proof -
    have n: "uint hi * 4294967296 + uint lo = sint now + 2147483647 + 2208988800" "uint lo < 4294967296"
        "0 \<le> uint lo" "sint now < 274877906944"
      using L uint_u32 [of lo] now unfolding L_def by simp_all
    then show "1 \<le> uint hi" "uint hi < 128" using now by linarith+
  qed
  have hpos: "0 < sint hi"
    using hb sint_u32_if [of hi] by simp
  have tl: "t > ucast lo \<longleftrightarrow> uint lo < uint t"
    using uint_u32 [of lo] by (simp add: word_less_def uint_ucast_mod)
  have tb: "uint t < 2 ^ 32" using t by (simp add: word_less_def)
  have ut: "uint (ucast t :: u32) = uint t"
    using tb by (simp add: uint_ucast_mod)
  have h1: "uint (hi - 1) = uint hi - 1"
    using hb by (simp add: uint_word_ariths)
  define h where "h = (if uint lo < uint t then hi - 1 else hi)"
  have h: "uint h = (if uint lo < uint t then uint hi - 1 else uint hi)"
    by (simp add: h_def h1)
  have "caljulian_unfold now t = (h, ucast t)"
    using r hpos tl by (simp add: h_def)
  then have "T = uint h mod 128 * 2 ^ 32 + uint t"
    by (simp add: T_def era_seconds_def ut zmod_int)
  moreover have "uint h mod 128 = uint h"
    using h hb by simp
  ultimately show ?thesis
    using L h tb uint_u32 [of lo] not_le by (auto simp: add_increasing2 algebra_simps) (smt (verit) unsigned_greater_eq)+
qed

definition day_seconds :: "calendar \<Rightarrow> nat" where
  "day_seconds jt = unat (cal_hour jt) * 3600 + unat (cal_minute jt) * 60 + unat (cal_second jt)"

lemma caljulian_pieces:
  fixes hi lo :: u32
  defines "T \<equiv> era_seconds (hi, lo)"
  defines "k \<equiv> drop_bit 7 lo OR push_bit 25 hi"
  shows "unat k = T div 128" "unat (k div 675) = T div 86400"
    "unat (ucast (lo AND 127) + ucast (push_bit 7 (k mod 675)) :: u64) = T mod 86400"
    "T < 2 ^ 39"
proof -
  have lo: "unat lo < 2 ^ 32" using unsigned_less [of lo, where 'a = nat] by simp
  have Tn: "T = unat hi mod 128 * 2 ^ 32 + unat lo"
    by (simp add: T_def era_seconds_def)
  show T39: "T < 2 ^ 39"
  proof -
    have "unat hi mod 128 \<le> 127" by (simp flip: less_Suc_eq_le)
    then show ?thesis using lo unfolding Tn by simp
  qed
  have tk: "take_bit 25 (drop_bit 7 lo) = drop_bit 7 lo"
    by (rule bit_word_eqI) (auto simp: bit_simps dest: bit_imp_le_length)
  have "uint (push_bit 25 hi OR take_bit 25 (drop_bit 7 lo)) = (uint hi * 2 ^ 25) mod 2 ^ 32 + uint (drop_bit 7 lo) mod 2 ^ 25"
    using uint_push_or_take [of 25 hi "drop_bit 7 lo"] by simp
  also have "(uint hi * 2 ^ 25) mod 2 ^ 32 = uint hi mod 128 * 2 ^ 25"
    using mod_mult_mult2 [of "uint hi" "2 ^ 25" 128] by simp
  also have "uint (drop_bit 7 lo) mod 2 ^ 25 = uint lo div 128"
    using uint_u32 [of lo]
    by (simp add: uint_drop_bit pos_imp_zdiv_nonneg_iff mod_pos_pos_trivial)
  finally have "uint k = uint hi mod 128 * 2 ^ 25 + uint lo div 128"
    by (simp only: k_def tk or.commute)
  then have "int (unat k) = int (unat hi mod 128 * 2 ^ 25 + unat lo div 128)"
    by (simp add: zmod_int zdiv_int)
  then have "unat k = unat hi mod 128 * 2 ^ 25 + unat lo div 128" by (simp only: of_nat_eq_iff)
  then show k: "unat k = T div 128" unfolding Tn by simp
  show "unat (k div 675) = T div 86400"
    using k by (simp add: unat_div div_mult2_eq [symmetric])
  have a: "lo AND 127 = take_bit 7 lo"
    by (simp add: take_bit_eq_mask mask_eq_exp_minus_1)
  have "unat (push_bit 7 (k mod 675)) = T div 128 mod 675 * 128"
    using k by (simp add: push_bit_eq_mult unat_word_ariths unat_mod)
  moreover have "unat (lo AND 127) = T mod 128"
    unfolding a Tn using mod_mult_self3 [of "unat hi mod 128 * 33554432" 128 "unat lo"]
    by (simp add: unsigned_take_bit_eq take_bit_eq_mod unat_mod mult.commute)
  moreover have "T mod 86400 = T div 128 mod 675 * 128 + T mod 128"
    using mod_mult2_eq [of T 128 675] by simp
  moreover have sum_lt: "T mod 128 + T div 128 mod 675 * 128 < 18446744073709551616"
  proof -
    have "T mod 128 < 128" "T div 128 mod 675 < 675" by simp_all
    then show ?thesis by linarith
  qed
  ultimately show "unat (ucast (lo AND 127) + ucast (push_bit 7 (k mod 675)) :: u64) = T mod 86400"
    using sum_lt by (subst unat_add_u64) (simp_all add: unsigned_ucast_eq take_bit_eq_mod)
qed


lemma mod_lt_256: "x mod 60 < (256 :: nat)"
  by (rule less_trans [OF mod_less_divisor]) simp_all

lemma hms_sum: "x div 3600 * 3600 + x div 60 mod 60 * 60 + x mod 60 = (x :: nat)"
proof -
  have "x div 3600 = x div 60 div 60" by (simp add: div_mult2_eq [symmetric])
  then show ?thesis
    using div_mult_mod_eq [of "x div 60" 60] div_mult_mod_eq [of x 60] by linarith
qed

lemma caljulian_total:
  "\<exists>jt. caljulian now t = Some jt
     \<and> date_of_day jt (693595 + era_seconds (caljulian_unfold now t) div 86400)
     \<and> day_seconds jt = era_seconds (caljulian_unfold now t) mod 86400
     \<and> cal_hour jt < 24 \<and> cal_minute jt < 60 \<and> cal_second jt < 60"
proof -
  obtain hi lo where u: "caljulian_unfold now t = (hi, lo)" by fastforce
  have lo: "lo = ucast t" using u by (auto simp: caljulian_unfold_def Let_def split: prod.splits)
  define T where "T = era_seconds (hi, lo)"
  define k where "k = drop_bit 7 lo OR push_bit 25 hi"
  define s :: u64 where "s = ucast (lo AND 127) + ucast (push_bit 7 (k mod 675))"
  note p = caljulian_pieces [where hi = hi and lo = lo, folded k_def, folded T_def s_def]
  have day: "unat (ucast (k div 675) :: u64) = T div 86400"
    using p(2,4) by (simp add: unsigned_ucast_eq take_bit_eq_mod)
  have Tb: "T div 86400 < 6400000" using p(4) by simp
  have s: "unat s = T mod 86400" by (rule p(3))
  have s1: "s < SECSPERDAY" using s by (simp add: word_less_nat_alt cal_consts)
  have inv: "ucast (s + ucast (k div 675) * SECSPERDAY) = (ucast t :: u32)"
  proof -
    have "unat (s + ucast (k div 675) * SECSPERDAY) = T mod 86400 + T div 86400 * 86400"
      using Tb s day by (subst unat_add_u64; subst unat_mult_u64) (simp_all add: cal_consts)
    also have "\<dots> = T" by simp
    finally have "unat (ucast (s + ucast (k div 675) * SECSPERDAY) :: u32) = T mod 2 ^ 32"
      by (simp add: unsigned_ucast_eq take_bit_eq_mod)
    also have "T mod 2 ^ 32 = unat lo"
      using unsigned_less [of lo, where 'a = nat] by (simp add: T_def era_seconds_def)
    finally show ?thesis unfolding lo word_unat_eq_iff .
  qed
  define hour minute second :: u8
    where "hour = ucast (s div SECSPERMIN div MINSPERHR)"
      and "minute = ucast (s div SECSPERMIN mod MINSPERHR)"
      and "second = ucast (s mod SECSPERMIN)"
  have hms: "unat hour = T mod 86400 div 3600" "unat minute = T mod 86400 div 60 mod 60"
    "unat second = T mod 86400 mod 60"
    unfolding hour_def minute_def second_def
    by (subst unat_ucast_small;
        simp add: s unat_div unat_mod cal_consts div_mult2_eq [symmetric] div_less_iff_less_mult mod_lt_256)+
  let ?jt = "\<lparr>cal_year = 0, cal_yearday = 0, cal_month = 0, cal_monthday = 0,
               cal_hour = hour, cal_minute = minute, cal_second = second\<rparr>"
  have ok: "second < SECSPERMIN \<and> minute < MINSPERHR \<and> hour < HRSPERDAY"
    using hms by (simp add: word_less_nat_alt cal_consts div_less_iff_less_mult)
  have d: "unat (ucast (k div 675) + (DAY_NTP_STARTS - 1) :: u64) = 693595 + T div 86400"
    using day Tb by (subst unat_add_u64) (simp_all add: cal_consts)
  have "caljulian now t = caljulian_date (ucast (k div 675) + (DAY_NTP_STARTS - 1)) ?jt"
    using s1 inv ok
    unfolding caljulian_def u Let_def split_conv k_def [symmetric] s_def [symmetric]
      hour_def [symmetric] minute_def [symmetric] second_def [symmetric] by simp
  moreover obtain jt where "caljulian_date (ucast (k div 675) + (DAY_NTP_STARTS - 1)) ?jt = Some jt"
    and "date_of_day jt (693595 + T div 86400)"
    and "cal_hour jt = hour" "cal_minute jt = minute" "cal_second jt = second"
    using caljulian_date_correct [of "ucast (k div 675) + (DAY_NTP_STARTS - 1)" ?jt] d Tb by auto
  moreover have "hour < 24" "minute < 60" "second < 60" using ok by (simp_all add: cal_consts)
  moreover have "T mod 86400 div 3600 * 3600 + T mod 86400 div 60 mod 60 * 60 + T mod 86400 mod 60 = T mod 86400"
    by (rule hms_sum)
  ultimately show ?thesis using hms unfolding u T_def [symmetric] day_seconds_def by auto
qed

lemma u32_div_of_nat: "a < 4294967296 \<Longrightarrow> b < 4294967296 \<Longrightarrow> (of_nat a :: u32) div of_nat b = of_nat (a div b)"
proof -
  assume "a < 4294967296" "b < 4294967296"
  then have "unat ((of_nat a :: u32) div of_nat b) = a div b"
    by (simp add: unat_div unat_of_nat)
  then show ?thesis by (metis of_nat_unat ucast_id)
qed

lemma u32_mod_of_nat: "a < 4294967296 \<Longrightarrow> b < 4294967296 \<Longrightarrow> (of_nat a :: u32) mod of_nat b = of_nat (a mod b)"
proof -
  assume "a < 4294967296" "b < 4294967296"
  then have "unat ((of_nat a :: u32) mod of_nat b) = a mod b"
    by (simp add: unat_mod unat_of_nat)
  then show ?thesis by (metis of_nat_unat ucast_id)
qed

lemma days_before_year_u32:
  assumes "n < 4294967296"
  shows "(of_nat n :: u32) * 365 + of_nat n div 4 - of_nat n div 100 + of_nat n div 400
    = of_nat (days_before_year (Suc n))"
proof -
  have "of_nat (days_before_year (Suc n) + n div 100) = (of_nat (365 * n + n div 4 + n div 400) :: u32)"
    by (simp only: days_before_year_eq)
  then have "of_nat (days_before_year (Suc n)) + of_nat (n div 100)
      = (of_nat n * 365 + of_nat (n div 4) + of_nat (n div 400) :: u32)"
    by (simp add: mult.commute)
  then show ?thesis
    using assms u32_div_of_nat [of n 4] u32_div_of_nat [of n 100] u32_div_of_nat [of n 400]
    by (simp add: algebra_simps)
qed

lemma month_shift:
  assumes "1 \<le> m" "m \<le> 12" "1 \<le> y"
  shows "days_before_year (Suc (y - 1 + (m + 9) div 12)) + ((m + 9) mod 12 * 153 + 2) div 5
    = days_before_year y + days_before_month (leap_year y) m + 306"
  using upto12 [OF assms(1,2)] assms(3) days_before_year_Suc [of y]
  by (auto simp: days_before_month_def month_days_def year_days_def)

lemma ucast_u16_Suc:
  "unat (w :: u16) = Suc n \<Longrightarrow> (ucast w :: u32) = of_nat n + 1 \<and> n < 4294967296"
proof -
  assume n: "unat w = Suc n"
  have "(ucast w :: u32) = of_nat (unat w)" by simp
  also have "\<dots> = of_nat n + 1" unfolding n by simp
  finally show ?thesis
    using n unsigned_less [of w, where 'a = nat] by simp
qed

lemma year_Suc: "1 \<le> (w :: u16) \<Longrightarrow> \<exists>n. unat w = Suc n"
  by (cases "unat w") (auto simp: word_le_nat_alt)

lemma caltontp_days_yearday:
  assumes "1 \<le> cal_year jt" "cal_yearday jt \<noteq> 0"
  shows "caltontp_days jt = of_nat (days_before_year (unat (cal_year jt)) + unat (cal_yearday jt)) - 693596"
proof -
  obtain n where n: "unat (cal_year jt) = Suc n"
    using year_Suc [OF assms(1)] by blast
  note u = ucast_u16_Suc [OF n]
  show ?thesis
    using assms(2) days_before_year_u32 [of n] u n by (simp add: caltontp_days_def cal_consts)
qed

lemma caltontp_days_month:
  assumes "1 \<le> cal_year jt" "cal_yearday jt = 0" "1 \<le> unat (cal_month jt)" "unat (cal_month jt) \<le> 12"
  shows "caltontp_days jt = of_nat (days_before_year (unat (cal_year jt)) 
    + days_before_month (leap_year (unat (cal_year jt))) (unat (cal_month jt)) + unat (cal_monthday jt)) - 693596"
proof -
  let ?m = "unat (cal_month jt)" and ?y = "unat (cal_year jt)"
  obtain n where n: "?y = Suc n"
    using year_Suc [OF assms(1)] by blast
  note u = ucast_u16_Suc [OF n]
  have n16: "n < 65536" using n unsigned_less [of "cal_year jt", where 'a = nat] by simp
  define q where "q = n + (?m + 9) div 12"
  have q: "q < 4294967296" using n16 assms(4) by (simp add: q_def)
  have m: "ucast (cal_month jt) + 9 = (of_nat (?m + 9) :: u32)" by simp
  have div: "of_nat (?m + 9) div 12 = (of_nat ((?m + 9) div 12) :: u32)"
    and md: "of_nat (?m + 9) mod 12 = (of_nat ((?m + 9) mod 12) :: u32)"
    using assms u32_div_of_nat [of "?m + 9" 12] u32_mod_of_nat [of "?m + 9" 12] by simp_all
  have y: "ucast (cal_year jt) - 1 + of_nat ((?m + 9) div 12) = (of_nat q :: u32)"
    using u by (simp add: q_def)
  have d5: "(of_nat ((?m + 9) mod 12) * 153 + 2) div 5 = (of_nat (((?m + 9) mod 12 * 153 + 2) div 5) :: u32)"
  proof -
    have "(?m + 9) mod 12 < 12" by simp
    then have b: "(?m + 9) mod 12 * 153 + 2 < 4294967296" by linarith
    have "of_nat ((?m + 9) mod 12) * 153 + 2 = (of_nat ((?m + 9) mod 12 * 153 + 2) :: u32)"
      by (simp only: of_nat_add of_nat_mult of_nat_numeral)
    then show ?thesis
      using u32_div_of_nat [OF b, of 5] by (simp only: of_nat_numeral)
  qed
  have s: "days_before_year (Suc q) + ((?m + 9) mod 12 * 153 + 2) div 5
      = days_before_year ?y + days_before_month (leap_year ?y) ?m + 306"
    using month_shift [of ?m ?y] assms n by (simp add: q_def)
  have "caltontp_days jt = of_nat (days_before_year (Suc q)) + of_nat (((?m + 9) mod 12 * 153 + 2) div 5)
      + of_nat (unat (cal_monthday jt)) - 306 - 693596"
    unfolding caltontp_days_def Let_def cal_consts m div md y d5 days_before_year_u32 [OF q]
    using assms(2) by simp
  also have "\<dots> = of_nat (days_before_year (Suc q) + ((?m + 9) mod 12 * 153 + 2) div 5)
      + of_nat (unat (cal_monthday jt)) - 306 - 693596" by simp
  finally show ?thesis unfolding s by simp
qed

definition clock_ok :: "calendar \<Rightarrow> bool" where
  "clock_ok jt \<longleftrightarrow> cal_hour jt < 24 \<and> cal_minute jt < 60 \<and> cal_second jt < 60"

definition ntp_seconds :: "nat \<Rightarrow> nat \<Rightarrow> u32" where
  "ntp_seconds D s = of_nat (86400 * D + s) - 86400 * 693595"

lemma caltontp_guard:
  assumes "date_of_day jt D" "clock_ok jt"
  shows "cal_month jt \<le> 13 \<and> cal_monthday jt \<le> 32 \<and> cal_yearday jt \<le> 366 \<and> cal_hour jt \<le> 24
         \<and> cal_minute jt \<le> MINSPERHR \<and> cal_second jt \<le> SECSPERMIN"
  using date_of_day_bounds [OF assms(1)] assms(2)
  by (auto simp: clock_ok_def cal_consts word_le_nat_alt word_less_nat_alt)

lemma day_seconds_u32:
  "(ucast (cal_hour jt) * MINSPERHR * SECSPERMIN + ucast (cal_minute jt) * SECSPERMIN + ucast (cal_second jt) :: u32)
   = of_nat (day_seconds jt)"
  by (simp add: day_seconds_def cal_consts)

lemma caltontp_of_days:
  assumes "caltontp_days jt = of_nat (D + 1) - 693596"
    and "cal_month jt \<le> 13 \<and> cal_monthday jt \<le> 32 \<and> cal_yearday jt \<le> 366 \<and> cal_hour jt \<le> 24
         \<and> cal_minute jt \<le> MINSPERHR \<and> cal_second jt \<le> SECSPERMIN"
  shows "caltontp jt = Some (ucast (ntp_seconds D (day_seconds jt)))"
proof -
  have "caltontp_days jt * SECSPERDAY + ucast (cal_hour jt) * MINSPERHR * SECSPERMIN
      + ucast (cal_minute jt) * SECSPERMIN + ucast (cal_second jt)
      = (of_nat (D + 1) - 693596) * SECSPERDAY + of_nat (day_seconds jt)"
    unfolding assms(1) day_seconds_u32 [symmetric] by (simp only: add.assoc)
  also have "\<dots> = ntp_seconds D (day_seconds jt)"
    by (simp add: ntp_seconds_def cal_consts algebra_simps)
  finally show ?thesis using assms(2) by (simp add: caltontp_def)
qed

lemma date_of_day_yearday_pos: "date_of_day jt D \<Longrightarrow> 1 \<le> cal_yearday jt"
  using date_of_day_bounds by blast

lemma caltontp_date:
  assumes "date_of_day jt D" "clock_ok jt"
  shows "caltontp jt = Some (ucast (ntp_seconds D (day_seconds jt)))"
proof (rule caltontp_of_days [OF _ caltontp_guard [OF assms]])
  have "cal_yearday jt \<noteq> 0" using date_of_day_yearday_pos [OF assms(1)] by auto
  then show "caltontp_days jt = of_nat (D + 1) - 693596"
    using assms(1) caltontp_days_yearday [of jt] by (simp add: date_of_day_def)
qed

lemma caltontp_month_date:
  assumes "date_of_day jt D" "clock_ok jt"
  shows "caltontp (jt\<lparr>cal_yearday := 0\<rparr>) = Some (ucast (ntp_seconds D (day_seconds jt)))"
proof -
  have "caltontp_days (jt\<lparr>cal_yearday := 0\<rparr>) = of_nat (D + 1) - 693596"
  proof -
    have D: "days_before_year (unat (cal_year jt)) + days_before_month (leap_year (unat (cal_year jt)))
        (unat (cal_month jt)) + unat (cal_monthday jt) = D + 1"
      using assms(1) by (simp add: date_of_day_def date_ok_def)
    show ?thesis
      using caltontp_days_month [of "jt\<lparr>cal_yearday := 0\<rparr>"] assms(1) unfolding D [symmetric]
      by (simp add: date_of_day_def date_ok_def)
  qed
  then show ?thesis
    using caltontp_of_days [of "jt\<lparr>cal_yearday := 0\<rparr>" D] caltontp_guard [OF assms]
    by (simp add: day_seconds_def)
qed

lemma era_seconds_u32: "(of_nat (era_seconds p) :: u32) = snd p"
proof -
  have "(of_nat (2 ^ 32) :: u32) = 0" by simp
  then show ?thesis
    unfolding era_seconds_def of_nat_add of_nat_mult by (simp only: mult_zero_right) simp
qed

lemma ucast_u32_u64_id [simp]: "ucast (ucast (a :: u32) :: u64) = a"
  by (rule bit_word_eqI) (simp add: bit_simps)

lemma ucast_u32_add: "(ucast (a + b :: u64) :: u32) = ucast a + ucast b"
  by (simp add: word_uint_eq_iff uint_ucast_mod uint_word_ariths mod_mod_cancel mod_simps)

lemma ucast_u32_sub: "(ucast (a - b :: u64) :: u32) = ucast a - ucast b"
  by (simp add: word_uint_eq_iff uint_ucast_mod uint_word_ariths mod_mod_cancel mod_simps)

lemma caltontp_caljulian_both:
  "\<exists>jt. caljulian now t = Some jt
    \<and> caltontp jt = Some (ucast (ucast t :: u32))
    \<and> caltontp (jt\<lparr>cal_yearday := 0\<rparr>) = Some (ucast (ucast t :: u32))"
proof -
  obtain jt where jt: "caljulian now t = Some jt"
    "date_of_day jt (693595 + era_seconds (caljulian_unfold now t) div 86400)"
    "day_seconds jt = era_seconds (caljulian_unfold now t) mod 86400"
    "clock_ok jt"
    using caljulian_total [of now t] by (auto simp: clock_ok_def)
  let ?T = "era_seconds (caljulian_unfold now t)"
  have "ntp_seconds (693595 + ?T div 86400) (?T mod 86400) = of_nat (?T div 86400 * 86400 + ?T mod 86400)"
    unfolding ntp_seconds_def of_nat_add of_nat_mult of_nat_numeral by (simp only: algebra_simps)
  also have "\<dots> = (of_nat ?T :: u32)" by (simp only: div_mult_mod_eq)
  also have "\<dots> = ucast t"
    unfolding era_seconds_u32 by (simp add: caljulian_unfold_def Let_def split: prod.splits)
  finally show ?thesis
    using jt caltontp_date [OF jt(2,4)] caltontp_month_date [OF jt(2,4)] by auto
qed

lemma jan_first_date:
  assumes "1 \<le> cal_year jt"
  shows "date_of_day (jt\<lparr>cal_yearday := 1, cal_month := 1, cal_monthday := 1, cal_hour := 0,
      cal_minute := 0, cal_second := 0\<rparr>) (days_before_year (unat (cal_year jt)))"
  using assms by (simp add: date_of_day_def date_ok_def month_days_def days_before_month_def year_days_def)

lemma calyearstart_total:
  assumes j: "caljulian now t = Some jt"
  shows "calyearstart now t = Some (ucast (ntp_seconds (days_before_year (unat (cal_year jt))) 0))"
proof -
  obtain D where jt: "date_of_day jt D" "clock_ok jt" and D: "ucast t = ntp_seconds D (day_seconds jt)"
  proof -
    let ?T = "era_seconds (caljulian_unfold now t)"
    have d: "date_of_day jt (693595 + ?T div 86400)" "clock_ok jt"
      using caljulian_total [of now t] j by (auto simp: clock_ok_def)
    moreover have "caltontp jt = Some (ucast (ucast t :: u32))"
      using caltontp_caljulian_both [of now t] j by auto
    ultimately have "(ucast (ucast t :: u32) :: u64) = ucast (ntp_seconds (693595 + ?T div 86400) (day_seconds jt))"
      using caltontp_date [OF d] by simp
    then have "(ucast (ucast (ucast t :: u32) :: u64) :: u32) = ucast (ucast (ntp_seconds (693595 + ?T div 86400) (day_seconds jt)) :: u64)"
      by (rule arg_cong)
    then have "ucast t = ntp_seconds (693595 + ?T div 86400) (day_seconds jt)"
      by simp
    with d show thesis by (rule that)
  qed
  let ?y = "unat (cal_year jt)"
  let ?j1 = "jt\<lparr>cal_yearday := 1, cal_month := 1, cal_monthday := 1, cal_hour := 0, cal_minute := 0, cal_second := 0\<rparr>"
  define delta :: u32 where "delta = ucast (cal_yearday jt) * SECSPERDAY + ucast (cal_hour jt) * MINSPERHR * SECSPERMIN
                + ucast (cal_minute jt) * SECSPERMIN + ucast (cal_second jt) - SECSPERDAY"
  have d: "delta = of_nat (unat (cal_yearday jt)) * 86400 + of_nat (day_seconds jt) - 86400"
    unfolding delta_def day_seconds_u32 [symmetric] by (simp add: cal_consts algebra_simps)
  have "of_nat (days_before_year ?y + unat (cal_yearday jt)) = (of_nat (D + 1) :: u32)"
    using jt(1) by (simp only: date_of_day_def)
  then have e: "of_nat (unat (cal_yearday jt)) = of_nat D + 1 - (of_nat (days_before_year ?y) :: u32)"
    by (simp only: of_nat_add of_nat_1) (simp add: algebra_simps)
  have delta: "delta = ntp_seconds D (day_seconds jt) - ntp_seconds (days_before_year ?y) 0"
    unfolding d e by (simp add: ntp_seconds_def algebra_simps)
  have j1: "jt\<lparr>cal_yearday := 0, cal_month := 1, cal_monthday := 1, cal_hour := 0, cal_minute := 0,
      cal_second := 0\<rparr> = ?j1\<lparr>cal_yearday := 0\<rparr>" by (cases jt) simp
  have "1 \<le> cal_year jt" using jt(1) by (simp add: date_of_day_def)
  from caltontp_month_date [OF jan_first_date [OF this]]
  have c: "caltontp (jt\<lparr>cal_yearday := 0, cal_month := 1, cal_monthday := 1, cal_hour := 0, cal_minute := 0,
      cal_second := 0\<rparr>) = Some (ucast (ntp_seconds (days_before_year ?y) 0))"
    unfolding j1 by (simp add: clock_ok_def day_seconds_def)
  have u: "ucast (ucast (ntp_seconds (days_before_year ?y) 0) + ucast delta :: u64) = (ucast t :: u32)"
    unfolding D delta by (simp add: ucast_u32_add)
  have v: "(ucast (t - ucast delta) :: u32) = ntp_seconds (days_before_year ?y) 0"
  proof -
    have "(ucast (t - ucast delta) :: u32) = ucast t - delta"
      by (simp add: ucast_u32_sub)
    then show ?thesis unfolding D delta by simp
  qed
  show ?thesis
    using u v unfolding calyearstart_def j option.case delta_def [symmetric] Let_def c by simp
qed

lemma days_before_year_mono: "y \<le> z \<Longrightarrow> days_before_year y \<le> days_before_year z"
proof (induction rule: dec_induct)
  case (step n)
  then show ?case using days_before_year_Suc [of n] by (cases n) (auto simp: days_before_year_def)
qed simp

lemma days_before_1900: "days_before_year 1900 = 693595"
  using days_before_year_eq [of 1899] by simp

lemma date_of_day_year:
  assumes "date_of_day jt D"
  shows "days_before_year (unat (cal_year jt)) \<le> D" "D < days_before_year (Suc (unat (cal_year jt)))"
  using assms days_before_year_Suc [of "unat (cal_year jt)"]
  by (auto simp: date_of_day_def date_ok_def word_le_nat_alt)

section \<open>Properties\<close>

text \<open>C39: For every NTP time stamp caljulian returns, without failing an assertion, the Gregorian date and time of day of the one second congruent to the time stamp that lies in the 136 years ending 68 years after the current time.\<close>

theorem caljulian_correct:
  assumes "0 \<le> sint now" "sint now < 2 ^ 38" "t < 2 ^ 32"
  shows "\<exists>jt T. caljulian now t = Some jt \<and> clock_ok jt
    \<and> int T mod 2 ^ 32 = uint t \<and> int T \<le> sint now + 2147483647 + 2208988800
    \<and> sint now + 2147483647 + 2208988800 < int T + 2 ^ 32
    \<and> date_of_day jt (693595 + T div 86400) \<and> day_seconds jt = T mod 86400"
  using caljulian_total [of now t] caljulian_unfold_range [OF assms] unfolding clock_ok_def by blast

lemma caljulian_correct_witness:
  "\<exists>jt T. caljulian 1700000000 100 = Some jt \<and> clock_ok jt \<and> int T mod 2 ^ 32 = uint (100 :: u64)
    \<and> date_of_day jt (693595 + T div 86400)"
  using caljulian_correct [of 1700000000 100] by auto

theorem caltontp_correct:
  assumes "date_of_day jt D" "clock_ok jt"
  shows "caltontp jt = Some (ucast (of_nat (86400 * D + day_seconds jt) - 86400 * 693595 :: u32))
    \<and> caltontp (jt\<lparr>cal_yearday := 0\<rparr>) = caltontp jt"
  using caltontp_date [OF assms] caltontp_month_date [OF assms] by (simp add: ntp_seconds_def)

definition leap_day_2000 :: calendar where
  "leap_day_2000 = \<lparr>cal_year = 2000, cal_yearday = 60, cal_month = 2, cal_monthday = 29,
     cal_hour = 23, cal_minute = 59, cal_second = 58\<rparr>"

lemma leap_day_2000_date: "date_of_day leap_day_2000 730178"
  using days_before_year_eq [of 1999]
  by (simp add: date_of_day_def date_ok_def leap_day_2000_def leap_year_def month_days_def
      days_before_month_def year_days_def)

lemma caltontp_correct_witness: "caltontp (leap_day_2000\<lparr>cal_yearday := 0\<rparr>) = Some 3160857598"
proof -
  have "clock_ok leap_day_2000" by (simp add: clock_ok_def leap_day_2000_def)
  from caltontp_correct [OF leap_day_2000_date this] show ?thesis
    by (simp add: leap_day_2000_def day_seconds_def)
qed

theorem caltontp_caljulian:
  "\<exists>jt. caljulian now t = Some jt
    \<and> caltontp jt = Some (ucast (ucast t :: u32))
    \<and> caltontp (jt\<lparr>cal_yearday := 0\<rparr>) = Some (ucast (ucast t :: u32))"
  by (rule caltontp_caljulian_both)

theorem calyearstart_correct:
  "\<exists>jt. caljulian now t = Some jt \<and> calyearstart now t \<noteq> None
    \<and> calyearstart now t = caltontp \<lparr>cal_year = cal_year jt, cal_yearday = 1, cal_month = 1, cal_monthday = 1,
        cal_hour = 0, cal_minute = 0, cal_second = 0\<rparr>"
proof -
  obtain jt where jt: "caljulian now t = Some jt"
    "date_of_day jt (693595 + era_seconds (caljulian_unfold now t) div 86400)"
    using caljulian_total [of now t] by blast
  let ?j = "\<lparr>cal_year = cal_year jt, cal_yearday = 1, cal_month = 1, cal_monthday = 1,
        cal_hour = 0, cal_minute = 0, cal_second = 0\<rparr>"
  have "date_of_day ?j (days_before_year (unat (cal_year jt)))"
    using jan_first_date [of jt] jt(2) by (cases jt) (simp add: date_of_day_def)
  from caltontp_date [OF this] calyearstart_total [OF jt(1)] jt(1) show ?thesis
    by (simp add: clock_ok_def day_seconds_def)
qed

lemma ymd2yd_sum_take: "n \<le> length t \<Longrightarrow> ymd2yd_sum t n d = d + sum_list (take n t)"
  by (induction t n d rule: ymd2yd_sum.induct) auto

lemma smod_nat_eq_0: "0 < k \<Longrightarrow> int y smod int k = 0 \<longleftrightarrow> y mod k = 0"
  by (cases "y = 0") (simp_all add: signed_modulo_int_def flip: of_nat_mod)

lemma ymd2yd_tab: "int (month_days lp ! (m - 1)) = (if lp then day2tab else day1tab) ! (m - 1)"
  "int (days_before_month lp m) = sum_list (take (m - 1) (if lp then day2tab else day1tab))"
  if "1 \<le> m" "m \<le> 12"
  using upto12 [OF that] by (auto simp: month_days_def day1tab_def day2tab_def days_before_month_def)

theorem ymd2yd_correct:
  "ymd2yd (int y) (int m) (int d) =
     (if 1 \<le> m \<and> m \<le> 12 \<and> 1 \<le> d \<and> d \<le> month_days (leap_year y) ! (m - 1)
      then int (days_before_month (leap_year y) m + d) else - 1)"
proof (cases "1 \<le> m \<and> m \<le> 12")
  case True
  have l: "((int y smod 4 = 0 \<and> int y smod 100 \<noteq> 0) \<or> int y smod 400 = 0) \<longleftrightarrow> leap_year y"
  proof -
    have "y mod 400 = 0 \<Longrightarrow> y mod 4 = 0" using leap_mods [of y] by simp
    then show ?thesis
      using smod_nat_eq_0 [of 4 y] smod_nat_eq_0 [of 100 y] smod_nat_eq_0 [of 400 y]
      by (auto simp: leap_year_def)
  qed
  let ?t = "if leap_year y then day2tab else day1tab"
  have n: "nat (int m - 1) = m - 1" "m - 1 \<le> length ?t"
    using True by (auto simp: day1tab_def day2tab_def)
  show ?thesis
    using True ymd2yd_tab [of m "leap_year y"] ymd2yd_sum_take [OF n(2), of "int d"]
    unfolding ymd2yd_def l Let_def n(1) by auto
qed (auto simp: ymd2yd_def)

end
