(* ===== verification/NtpClocktime.thy ===== *)
theory NtpClocktime
  imports NtpCalendar
begin

text \<open>
  \<^verbatim>\<open>clocktime\<close> (\<open>ntpdist/libntp/clocktime.c\<close>): the NTP seconds of a radio clock reading that
  gives the day of the year and the time of day but not the year. The year is found by trying
  the cached year start, the start of the current year, of the previous and of the next one,
  and taking the first whose date is within four hours of the receive time stamp.
\<close>

section \<open>The operation\<close>

definition MULBY24 :: "'a::len word \<Rightarrow> 'a word" where
  "MULBY24 x = push_bit 4 x + push_bit 3 x"

definition MULBY60 :: "'a::len word \<Rightarrow> 'a word" where
  "MULBY60 x = push_bit 6 x - push_bit 2 x"

definition TWODAYS :: u64 where "TWODAYS = 2 * 24 * 60 * 60"

definition CLOSETIME :: u64 where "CLOSETIME = 4 * 60 * 60"

text \<open>Seconds into the year; \<open>int\<close> for the hours, \<open>long\<close> from there on.\<close>

definition clock_offset :: "u32 \<Rightarrow> u32 \<Rightarrow> u32 \<Rightarrow> u32 \<Rightarrow> u32 \<Rightarrow> u64" where
  "clock_offset yday hour minute second tzoff =
     (let tmp = scast (MULBY24 (yday - 1) + hour + tzoff);
          tmp = MULBY60 tmp + scast minute
      in MULBY60 tmp + scast second)"

definition clock_close :: "u64 \<Rightarrow> u64 \<Rightarrow> bool" where
  "clock_close rec_ui date \<longleftrightarrow> date < rec_ui + CLOSETIME \<and> date > rec_ui - CLOSETIME"

text \<open>
  The result is the return value with the new \<open>*yearstart\<close> and \<open>*ts_ui\<close>. The year start
  function is an argument, so that what the search needs of it can be stated on its own.
\<close>

definition clocktime_with ::
  "(u64 \<Rightarrow> u64 option) \<Rightarrow> u32 \<Rightarrow> u32 \<Rightarrow> u32 \<Rightarrow> u32 \<Rightarrow> u32 \<Rightarrow> u64 \<Rightarrow> u64 \<Rightarrow> u32
     \<Rightarrow> (bool \<times> u64 \<times> u32) option" where
  "clocktime_with ystart yday hour minute second tzoff rec_ui yearstart ts_ui =
     (let tmp = clock_offset yday hour minute second tzoff in
      case (if yearstart = 0 then ystart rec_ui else Some yearstart) of None \<Rightarrow> None | Some yearstart \<Rightarrow>
      let date = tmp + yearstart in
      if clock_close rec_ui date then Some (True, yearstart, ucast date) else
      case ystart rec_ui of None \<Rightarrow> None | Some yst \<Rightarrow>
      let date = yst + tmp;
          ts_ui = (if yst \<noteq> yearstart then ucast date else ts_ui) in
      if yst \<noteq> yearstart \<and> clock_close rec_ui date then Some (True, yst, ts_ui) else
      case (if rec_ui - yst < TWODAYS then ystart (yst - TWODAYS) else Some yearstart) of
        None \<Rightarrow> None
      | Some yst \<Rightarrow>
      let date = tmp + yst in
      if yst \<noteq> yearstart \<and> clock_close rec_ui date then Some (True, yst, ucast date) else
      case ystart (rec_ui + TWODAYS) of None \<Rightarrow> None | Some yst \<Rightarrow>
      let date = yst + tmp in
      if yst \<noteq> yearstart \<and> clock_close rec_ui date then Some (True, yst, ucast date)
      else Some (False, yearstart, ts_ui))"

definition clocktime ::
  "u64 \<Rightarrow> u32 \<Rightarrow> u32 \<Rightarrow> u32 \<Rightarrow> u32 \<Rightarrow> u32 \<Rightarrow> u64 \<Rightarrow> u64 \<Rightarrow> u32 \<Rightarrow> (bool \<times> u64 \<times> u32) option" where
  "clocktime now = clocktime_with (calyearstart now)"

section \<open>What the search needs of the year starts\<close>

locale year_starts =
  fixes ystart :: "u64 \<Rightarrow> u64 option" and ok :: "u64 \<Rightarrow> bool"
  assumes start_defined: "ok t \<Longrightarrow> \<exists>y. ystart t = Some y"
    and start_before: "ok t \<Longrightarrow> ystart t = Some y \<Longrightarrow> y \<le> t"
    and start_same: "ok t \<Longrightarrow> ystart t = Some y \<Longrightarrow> ok s \<Longrightarrow> y \<le> s \<Longrightarrow>
        uint s < uint y + 31536000 \<Longrightarrow> ystart s = Some y"
    and start_mono: "ok s \<Longrightarrow> ok t \<Longrightarrow> s \<le> t \<Longrightarrow> ystart s = Some x \<Longrightarrow> ystart t = Some y \<Longrightarrow> x \<le> y"
    and ok_range: "ok t \<Longrightarrow> 172800 \<le> uint t \<and> uint t < 2 ^ 62"
begin

lemma starts_apart:
  assumes "ok s" "ystart s = Some x" "ok t" "ystart t = Some y" "ok y" "x < y"
  shows "uint x + 31536000 \<le> uint y"
proof (rule ccontr)
  assume "\<not> ?thesis"
  then have "ystart y = Some x"
    using start_same [OF assms(1,2) assms(5)] assms(6) by simp
  moreover have "ystart y = Some y"
    using start_same [OF assms(3,4) assms(5)] by simp
  ultimately show False using assms(6) by simp
qed

end

lemma clock_close_iff:
  assumes "172800 \<le> uint rec" "uint rec < 2 ^ 62"
  shows "clock_close rec d \<longleftrightarrow> uint rec - 14400 < uint d \<and> uint d < uint rec + 14400"
proof -
  have "uint (rec + CLOSETIME) = uint rec + 14400" "uint (rec - CLOSETIME) = uint rec - 14400"
    using assms by (simp_all add: CLOSETIME_def uint_word_ariths)
  then show ?thesis by (auto simp: clock_close_def word_less_def)
qed

context year_starts
begin

lemma clocktime_found:
  assumes off: "clock_offset yday hour minute second tzoff = T - Y"
    and T: "ystart T = Some Y"
    and near: "uint T < uint rec + 14400" "uint rec < uint T + 14400"
    and okT: "ok T" and okr: "ok rec" "\<And>x. Y \<le> x \<Longrightarrow> x \<le> rec + TWODAYS \<Longrightarrow> ok x"
    and cached: "c = 0 \<or> (\<exists>s. ok s \<and> ystart s = Some c \<and> (ok c \<or> c < Y))"
  shows "clocktime_with ystart yday hour minute second tzoff rec c ts = Some (True, Y, ucast T)"
proof -
  note rb = ok_range [OF okr(1)]
  have r2: "uint (rec + TWODAYS) = uint rec + 172800"
    using rb by (simp add: TWODAYS_def uint_word_ariths)
  have YT: "Y \<le> T" using start_before [OF okT T] .
  have okY: "ok Y"
    using okr(2) [of Y] YT near r2 by (simp add: word_le_def)
  have YY: "ystart Y = Some Y"
    using start_same [OF okT T okY] by simp
  let ?o = "clock_offset yday hour minute second tzoff"
  have Tb: "uint Y \<le> uint T" "uint T < 2 ^ 62"
    using YT ok_range [OF okT] by (simp_all add: word_le_def)
  have date: "uint (?o + k) = uint k + (uint T - uint Y)" if "uint k < 2 ^ 62" for k
  proof -
    have o: "uint ?o = uint T - uint Y"
      using off Tb uint_sub_lem [of Y T] by simp
    have "uint k < 4611686018427387904" "uint T < 4611686018427387904" using that Tb by simp_all
    then have "uint ?o + uint k < 18446744073709551616" 
      unfolding o using uint_nonnegative [of Y] by linarith
    then have "uint (?o + k) = uint ?o + uint k" using uint_add_lem [of ?o k] by simp
    then show ?thesis using o by simp
  qed
  have good: "?o + Y = T" "clock_close rec T"
    using off near rb by (simp_all add: clock_close_iff)
  have bad: "\<not> clock_close rec (?o + k)"
    if k: "ok s" "ystart s = Some k" "ok k \<or> k < Y" "k \<noteq> Y" for s k
  proof -
    have "uint k < 2 ^ 62" using k(3) ok_range [of k] ok_range [OF okY] by (auto simp: word_less_def)
    moreover have "uint k + 31536000 \<le> uint Y \<or> uint Y + 31536000 \<le> uint k"
    proof (cases "k < Y")
      case True
      then show ?thesis using starts_apart [OF k(1,2) okT T okY] by blast
    next
      case False
      then have "Y < k" "ok k" using k(3,4) by auto
      then show ?thesis using starts_apart [OF okT T k(1,2)] by blast
    qed
    ultimately show ?thesis
      using near date [of k] clock_close_iff [of rec "?o + k"] rb by auto
  qed
  obtain r where r: "ystart rec = Some r" using start_defined [OF okr(1)] by blast
  define c' where "c' = (if c = 0 then r else c)"
  have c': "(if c = 0 then ystart rec else Some c) = Some c'" "(if c = 0 then Some r else Some c) = Some c'"
    by (simp_all add: c'_def r)
  have rle: "r \<le> rec" using start_before [OF okr(1) r] .
  then have rsub: "uint (rec - r) = uint rec - uint r"
    using uint_sub_lem [of r rec] by (simp add: word_le_def)
  have r_ok: "ok r \<or> r < Y"
    using okr(2) [of r] rle r2 by (force simp: word_le_def word_less_def)
  have first: "c' = Y \<or> \<not> clock_close rec (?o + c')"
    using bad [OF okr(1) r r_ok] cached bad by (auto simp: c'_def)
  have second: "r = Y \<or> \<not> clock_close rec (?o + r)"
    using bad [OF okr(1) r r_ok] by blast
  consider (same) "c' = Y \<or> r = Y" | (later) "c' \<noteq> Y" "r < Y" | (earlier) "c' \<noteq> Y" "Y < r"
    by force
  then show ?thesis
  proof cases
    case same
    then show ?thesis
    proof (cases "c' = Y")
      case True
      then show ?thesis using good unfolding clocktime_with_def Let_def c' option.case by simp
    next
      case False
      then show ?thesis using same first good unfolding clocktime_with_def Let_def c' option.case r
        by (simp add: add.commute [where b = ?o])
    qed
  next
    case later
    have "rec < Y"
    proof (rule ccontr)
      assume "\<not> rec < Y"
      then have "Y \<le> r" using start_mono [OF okY okr(1) _ YY r] by simp
      with later show False by simp
    qed
    moreover have "ok (rec + TWODAYS)"
      using okr(2) [of "rec + TWODAYS"] near Tb r2 by (simp add: word_le_def)
    ultimately have next_: "ystart (rec + TWODAYS) = Some Y"
      using start_same [OF okT T, of "rec + TWODAYS"] near Tb r2 by (simp add: word_le_def word_less_def)
    have "uint r + 31536000 \<le> uint Y"
      using starts_apart [OF okr(1) r okT T okY] later by simp
    then have "\<not> rec - r < TWODAYS"
      using near Tb by (simp add: TWODAYS_def word_less_def rsub)
    moreover have "r \<noteq> Y" using later by auto
    ultimately show ?thesis using first second later good next_
      unfolding clocktime_with_def Let_def c' option.case r by (simp add: add.commute [where b = ?o])
  next
    case earlier
    have okr': "ok r" using r_ok earlier by auto
    have "T < r"
    proof (rule ccontr)
      assume "\<not> T < r"
      moreover have "ystart r = Some r" using start_same [OF okr(1) r okr'] by simp
      ultimately have "r \<le> Y" using start_mono [OF okr' okT _ _ T] by simp
      with earlier show False by simp
    qed
    have far: "uint Y + 31536000 \<le> uint r"
      using starts_apart [OF okT T okr(1) r okr' earlier(2)] .
    have rr: "uint (r - TWODAYS) = uint r - 172800"
      using far uint_sub_lem [of TWODAYS r] uint_nonnegative [of Y] by (simp add: TWODAYS_def)
    have rT: "r - TWODAYS \<le> T" "Y \<le> r - TWODAYS"
      using rle near far by (simp_all add: word_le_def rr)
    have ok2: "ok (r - TWODAYS)"
      using okr(2) [OF rT(2)] rle r2 rr by (simp add: word_le_def)
    obtain p where p: "ystart (r - TWODAYS) = Some p" using start_defined [OF ok2] by blast
    have "p \<le> Y" using start_mono [OF ok2 okT rT(1) p T] .
    moreover have "Y \<le> p" using start_mono [OF okY ok2 rT(2) YY p] .
    ultimately have prev: "ystart (r - TWODAYS) = Some Y" using p by simp
    have "rec - r < TWODAYS"
      using near \<open>T < r\<close> by (simp add: TWODAYS_def word_less_def rsub)
    moreover have "r \<noteq> Y" using earlier by auto
    ultimately show ?thesis using first second earlier good prev
      unfolding clocktime_with_def Let_def c' option.case r by (simp add: add.commute [where b = ?o])
  qed
qed
end

section \<open>The year starts of the calendar\<close>

text \<open>The time stamps that \<^verbatim>\<open>caljulian\<close> places in the NTP era that began in 1900.\<close>

definition ntp_era0 :: "u64 \<Rightarrow> u64 \<Rightarrow> bool" where
  "ntp_era0 now t \<longleftrightarrow> 172800 \<le> t \<and> t < 0x100000000 \<and> era_seconds (caljulian_unfold now t) = unat t"

lemma era0_year_start:
  assumes "ntp_era0 now t"
  obtains y v where "calyearstart now t = Some v" "1900 \<le> y" "unat v = 86400 * (days_before_year y - 693595)"
    "days_before_year y \<le> 693595 + unat t div 86400" "693595 + unat t div 86400 < days_before_year (Suc y)"
proof -
  obtain jt where jt: "caljulian now t = Some jt" "date_of_day jt (693595 + unat t div 86400)"
    using caljulian_total [of now t] assms by (auto simp: ntp_era0_def)
  let ?y = "unat (cal_year jt)"
  note y = date_of_day_year [OF jt(2)]
  have y1900: "1900 \<le> ?y"
  proof (rule ccontr)
    assume "\<not> 1900 \<le> ?y"
    then have "days_before_year (Suc ?y) \<le> 693595"
      using days_before_year_mono [of "Suc ?y" 1900] by (simp add: days_before_1900)
    with y show False by simp
  qed
  then have d: "693595 \<le> days_before_year ?y"
    using days_before_year_mono [of 1900 ?y] by (simp add: days_before_1900)
  define s where "s = 86400 * (days_before_year ?y - 693595)"
  have "86400 * (days_before_year ?y - 693595) \<le> unat t div 86400 * 86400" using y d by simp
  also have "\<dots> \<le> unat t" by simp
  also have "unat t < 4294967296" using assms by (simp add: ntp_era0_def word_less_nat_alt)
  finally have s: "s < 4294967296" by (simp add: s_def)
  have "86400 * days_before_year ?y = s + 86400 * 693595" using d by (simp add: s_def algebra_simps)
  then have "of_nat (86400 * days_before_year ?y) = (of_nat (s + 86400 * 693595) :: u32)" by (rule arg_cong)
  then have "ntp_seconds (days_before_year ?y) 0 = of_nat s"
    by (simp add: ntp_seconds_def)
  then have "unat (ucast (ntp_seconds (days_before_year ?y) 0) :: u64) = s"
    using s by (simp add: unat_of_nat unsigned_ucast_eq take_bit_eq_mod)
  with calyearstart_total [OF jt(1)] y1900 y show thesis
    by (intro that [of "ucast (ntp_seconds (days_before_year ?y) 0)" ?y]) (simp_all add: s_def)
qed

lemma era0_day:
  assumes "unat v = 86400 * (d - 693595)" "693595 \<le> d" "v \<le> s"
  shows "d \<le> 693595 + unat s div 86400"
proof -
  have "86400 * (d - 693595) div 86400 \<le> unat s div 86400"
    using assms by (intro div_le_mono) (simp add: word_le_nat_alt)
  with assms(2) show ?thesis by simp
qed

lemma year_unique:
  assumes "days_before_year y \<le> D" "D < days_before_year (Suc y)"
    "days_before_year z \<le> D" "D < days_before_year (Suc z)"
  shows "y = z"
  using assms days_before_year_mono [of "Suc y" z] days_before_year_mono [of "Suc z" y]
  by (cases y z rule: linorder_cases) auto

interpretation cal: year_starts "calyearstart now" "ntp_era0 now" for now
proof
  fix s t x y
  show "\<exists>y. calyearstart now t = Some y" if "ntp_era0 now t"
    using era0_year_start [OF that] by blast
  show "y \<le> t" if t: "ntp_era0 now t" "calyearstart now t = Some y"
  proof (rule era0_year_start [OF t(1)])
    fix n v assume v: "calyearstart now t = Some v" "unat v = 86400 * (days_before_year n - 693595)"
      "days_before_year n \<le> 693595 + unat t div 86400"
    have "86400 * (days_before_year n - 693595) \<le> unat t div 86400 * 86400" using v by simp
    then have "unat v \<le> unat t" using v(2) div_times_less_eq_dividend [of "unat t" 86400] by linarith
    then show ?thesis using v t by (simp add: word_le_nat_alt)
  qed
  show "172800 \<le> uint t \<and> uint t < 2 ^ 62" if "ntp_era0 now t"
    using that by (simp add: ntp_era0_def word_less_def word_le_def)
  show "x \<le> y" if m: "ntp_era0 now s" "ntp_era0 now t" "s \<le> t" "calyearstart now s = Some x" "calyearstart now t = Some y"
  proof (rule era0_year_start [OF m(1)], rule era0_year_start [OF m(2)])
    fix a v b w assume h: "calyearstart now s = Some v" "1900 \<le> a" "unat v = 86400 * (days_before_year a - 693595)"
      "days_before_year a \<le> 693595 + unat s div 86400" "693595 + unat s div 86400 < days_before_year (Suc a)"
      "calyearstart now t = Some w" "1900 \<le> b" "unat w = 86400 * (days_before_year b - 693595)"
      "days_before_year b \<le> 693595 + unat t div 86400" "693595 + unat t div 86400 < days_before_year (Suc b)"
    have "unat s div 86400 \<le> unat t div 86400" using m(3) by (intro div_le_mono) (simp add: word_le_nat_alt)
    then have "a \<le> b" using h days_before_year_mono [of "Suc b" a] by (cases "a \<le> b") auto
    then have "unat v \<le> unat w" using h days_before_year_mono [of a b] by simp
    then show ?thesis using h m by (simp add: word_le_nat_alt)
  qed
  show "calyearstart now s = Some y" if m: "ntp_era0 now t" "calyearstart now t = Some y" "ntp_era0 now s" "y \<le> s" "uint s < uint y + 31536000"
  proof (rule era0_year_start [OF m(1)], rule era0_year_start [OF m(3)])
    fix b w a v assume h: "calyearstart now s = Some w" "1900 \<le> b" "unat w = 86400 * (days_before_year b - 693595)"
      "days_before_year b \<le> 693595 + unat s div 86400" "693595 + unat s div 86400 < days_before_year (Suc b)"
      "calyearstart now t = Some v" "1900 \<le> a" "unat v = 86400 * (days_before_year a - 693595)"
      "days_before_year a \<le> 693595 + unat t div 86400" "693595 + unat t div 86400 < days_before_year (Suc a)"
    have d: "693595 \<le> days_before_year a" using h(7) days_before_year_mono [of 1900 a] by (simp add: days_before_1900)
    have "v = y" using h m by simp
    have "days_before_year a \<le> 693595 + unat s div 86400"
      using era0_day [OF h(8) d] m(4) \<open>v = y\<close> by simp
    moreover have "693595 + unat s div 86400 < days_before_year (Suc a)"
    proof -
      have "uint s < uint v + 31536000" using m(5) \<open>v = y\<close> by simp
      then have "unat s < 86400 * (days_before_year a - 693595) + 31536000" unfolding h(8) [symmetric]
        by (simp add: of_nat_less_iff [where 'a = int, symmetric] del: of_nat_less_iff)
      then have "unat s div 86400 < days_before_year a - 693595 + 365"
        by (intro less_mult_imp_div_less) simp
      then show ?thesis
        using d days_before_year_Suc [of a] h(7) by (auto simp: year_days_def)
    qed
    ultimately have "a = b" using year_unique h by blast
    then have "v = w" using h by (simp add: word_unat_eq_iff)
    then show ?thesis using h m by simp
  qed
qed

lemma era0_window:
  assumes "0 \<le> sint now" "sint now < 2 ^ 31" "sint now + 61505151 < uint t" "t < 2 ^ 32"
  shows "ntp_era0 now t"
proof -
  let ?T = "int (era_seconds (caljulian_unfold now t))"
  have r: "?T mod 4294967296 = uint t" "?T \<le> sint now + 4356472447" "sint now + 4356472447 < ?T + 4294967296"
    using caljulian_unfold_range [of now t] assms by simp_all
  have tb: "uint t < 4294967296" using assms(4) by (simp add: word_less_def)
  have m: "?T = ?T div 4294967296 * 4294967296 + uint t" using r(1) by (metis div_mult_mod_eq)
  then have "?T div 4294967296 < 1" using r(2,3) assms tb by linarith
  moreover have "0 \<le> ?T div 4294967296" by simp
  ultimately have "?T = uint t" using m by simp
  then have "era_seconds (caljulian_unfold now t) = unat t"
    by (metis nat_int unat_eq_nat_uint)
  then show ?thesis using assms
    by (simp add: ntp_era0_def word_le_def word_less_def)
qed

theorem clocktime_finds_year:
  assumes now: "0 \<le> sint now" "sint now < 2 ^ 31"
    and T: "calyearstart now T = Some Y"
    and off: "clock_offset yday hour minute second tzoff = T - Y"
    and near: "uint T < uint rec + 14400" "uint rec < uint T + 14400"
    and era: "sint now + 61505151 < uint Y" "sint now + 61505151 < uint T" "sint now + 61505151 < uint rec"
      "uint rec + 172800 < 2 ^ 32"
    and cached: "c = 0 \<or> (\<exists>s. sint now + 61505151 < uint s \<and> uint s < 2 ^ 32 \<and> calyearstart now s = Some c)"
  shows "clocktime now yday hour minute second tzoff rec c ts = Some (True, Y, ucast T)"
proof -
  have w: "ntp_era0 now x" if "sint now + 61505151 < uint x" "uint x < 2 ^ 32" for x
    using era0_window [OF now that(1)] that(2) by (simp add: word_less_def)
  have r: "ntp_era0 now rec" and t: "ntp_era0 now T"
    using w [of rec] w [of T] near era by simp_all
  have r2: "uint (rec + TWODAYS) = uint rec + 172800"
    using era by (simp add: TWODAYS_def uint_word_ariths)
  show ?thesis
    unfolding clocktime_def
  proof (rule cal.clocktime_found [OF off T near t r])
    fix x assume "Y \<le> x" "x \<le> rec + TWODAYS"
    then show "ntp_era0 now x" using era r2 by (intro w) (simp_all add: word_le_def)
  next
    show "c = 0 \<or> (\<exists>s. ntp_era0 now s \<and> calyearstart now s = Some c \<and> (ntp_era0 now c \<or> c < Y))"
    proof (cases "c = 0")
      case False
      then obtain s where s: "sint now + 61505151 < uint s" "uint s < 2 ^ 32" "calyearstart now s = Some c"
        using cached by blast
      have "c \<le> s" using cal.start_before [OF w [OF s(1,2)] s(3)] .
      then have "ntp_era0 now c \<or> c < Y" using w [of c] era s by (force simp: word_le_def word_less_def)
      with s w [OF s(1,2)] show ?thesis by blast
    qed simp
  qed
qed

lemma clocktime_finds_year_witness:
  "clocktime 1700000000 365 23 59 30 0 3913056010 0 0 = Some (True, 3881520000, 3913055970)"
proof -
  have "calyearstart 1700000000 3913055970 = Some 3881520000" by code_simp
  moreover have "clock_offset 365 23 59 30 0 = 3913055970 - 3881520000" by code_simp
  ultimately show ?thesis
    using clocktime_finds_year [of 1700000000 3913055970 3881520000 365 23 59 30 0 3913056010 0 0]
    by simp
qed

lemma clock_offset_eq:
  "clock_offset yday hour minute second tzoff =
    60 * (60 * scast (24 * (yday - 1) + hour + tzoff) + scast minute) + scast second"
proof -
  have m: "MULBY24 x = 24 * x" "MULBY60 y = 60 * y" for x :: u32 and y :: u64
    by (simp_all add: MULBY24_def MULBY60_def push_bit_eq_mult algebra_simps)
  show ?thesis unfolding clock_offset_def Let_def m by simp
qed

theorem clocktime_sound:
  assumes "clocktime now yday hour minute second tzoff rec c ts = Some (True, y, d)"
  shows "clock_close rec (clock_offset yday hour minute second tzoff + y)
    \<and> d = ucast (clock_offset yday hour minute second tzoff + y)
    \<and> (y = c \<or> (\<exists>t. calyearstart now t = Some y))"
  using assms unfolding clocktime_def clocktime_with_def Let_def
  by (auto simp: add.commute split: option.splits if_splits)

lemma clocktime_sound_witness:
  "clock_close 3913056010 (clock_offset 365 23 59 30 0 + 3881520000)"
proof -
  have "clocktime 1700000000 365 23 59 30 0 3913056010 0 0 = Some (True, 3881520000, 3913055970)"
    by code_simp
  from clocktime_sound [OF this] show ?thesis by simp
qed

end
