(* ===== verification/CStrings.thy ===== *)
theory CStrings
  imports NtpPrelude
begin

text \<open>
  C strings and the part of \<open>printf\<close> and \<open>ctype.h\<close> that the library routines use, in the C
  locale: character classes, decimal and hexadecimal digits of a number and its field padding,
  and the value a string of digits stands for. The lemmas relate printing and reading.
\<close>

section \<open>Characters\<close>

definition c_isspace :: "char \<Rightarrow> bool" where
  "c_isspace c \<longleftrightarrow> c = CHR '' '' \<or> (9 \<le> (of_char c :: nat) \<and> (of_char c :: nat) \<le> 13)"

definition c_isdigit :: "char \<Rightarrow> bool" where
  "c_isdigit c \<longleftrightarrow> 48 \<le> (of_char c :: nat) \<and> (of_char c :: nat) \<le> 57"

definition digit_val :: "char \<Rightarrow> nat" where
  "digit_val c = of_char c - 48"

definition digit_chr :: "nat \<Rightarrow> char" where
  "digit_chr n = char_of (48 + n)"

lemma of_char_digit_chr: "n < 10 \<Longrightarrow> (of_char (digit_chr n) :: nat) = 48 + n"
  by (simp add: digit_chr_def)

lemma digit_chr [simp]:
  "n < 10 \<Longrightarrow> c_isdigit (digit_chr n)" "n < 10 \<Longrightarrow> digit_val (digit_chr n) = n"
  by (simp_all add: c_isdigit_def digit_val_def of_char_digit_chr)

lemma digit_val_less: "c_isdigit c \<Longrightarrow> digit_val c < 10"
  by (auto simp: c_isdigit_def digit_val_def)

lemma digit_chr_val: "c_isdigit c \<Longrightarrow> digit_chr (digit_val c) = c"
  by (simp add: c_isdigit_def digit_val_def digit_chr_def)

lemma digit_not_space: "c_isdigit c \<Longrightarrow> \<not> c_isspace c"
  by (auto simp: c_isdigit_def c_isspace_def)

section \<open>Numbers in a base\<close>

text \<open>The digits of a number, most significant first, as \<open>%u\<close> and \<open>%x\<close> print them.\<close>

fun dec_str :: "nat \<Rightarrow> string" where
  "dec_str n = (if n < 10 then [digit_chr n] else dec_str (n div 10) @ [digit_chr (n mod 10)])"

declare dec_str.simps [simp del]

definition hex_chr :: "nat \<Rightarrow> char" where
  "hex_chr n = (if n < 10 then char_of (48 + n) else char_of (87 + n))"

fun hex_str :: "nat \<Rightarrow> string" where
  "hex_str n = (if n < 16 then [hex_chr n] else hex_str (n div 16) @ [hex_chr (n mod 16)])"

declare hex_str.simps [simp del]

definition dec_val :: "string \<Rightarrow> nat" where
  "dec_val s = foldl (\<lambda>a c. 10 * a + digit_val c) 0 s"

definition pad :: "char \<Rightarrow> nat \<Rightarrow> string \<Rightarrow> string" where
  "pad c w s = replicate (w - length s) c @ s"

definition fmt_d :: "int \<Rightarrow> string" where
  "fmt_d i = (if i < 0 then CHR ''-'' # dec_str (nat (- i)) else dec_str (nat i))"

text \<open>A width with the flag \<open>0\<close> pads between the sign and the digits.\<close>

definition fmt_0d :: "nat \<Rightarrow> int \<Rightarrow> string" where
  "fmt_0d w i = (if i < 0 then CHR ''-'' # pad (CHR ''0'') (w - 1) (dec_str (nat (- i)))
                 else pad (CHR ''0'') w (dec_str (nat i)))"

lemma dec_val_Nil [simp]: "dec_val [] = 0"
  by (simp add: dec_val_def)

lemma dec_val_snoc [simp]: "dec_val (s @ [c]) = 10 * dec_val s + digit_val c"
  by (simp add: dec_val_def)

lemma dec_val_append: "dec_val (s @ t) = dec_val s * 10 ^ length t + dec_val t"
proof (induction t rule: rev_induct)
  case (snoc c t)
  then show ?case using dec_val_snoc [of "s @ t" c] by (simp add: algebra_simps)
qed simp

lemma dec_val_Cons: "dec_val (c # t) = digit_val c * 10 ^ length t + dec_val t"
  using dec_val_append [of "[c]" t] by (simp add: dec_val_def)

lemma dec_val_less: "\<forall>c\<in>set s. c_isdigit c \<Longrightarrow> dec_val s < 10 ^ length s"
proof (induction s rule: rev_induct)
  case (snoc c s)
  then show ?case using digit_val_less [of c] by simp
qed simp

lemma dec_str_val [simp]: "dec_val (dec_str n) = n"
proof (induction n rule: dec_str.induct)
  case (1 n)
  then show ?case
    by (cases "n < 10") (simp_all add: dec_str.simps [of n] dec_val_def)
qed

lemma dec_str_digits: "c \<in> set (dec_str n) \<Longrightarrow> c_isdigit c"
proof (induction n rule: dec_str.induct)
  case (1 n)
  then show ?case
    by (cases "n < 10") (auto simp: dec_str.simps [of n])
qed

lemma dec_str_not_Nil [simp]: "dec_str n \<noteq> []"
  by (subst dec_str.simps) simp

lemma dec_str_length: "length (dec_str n) \<le> k \<longleftrightarrow> n < 10 ^ k \<and> 0 < k"
proof (induction n arbitrary: k rule: dec_str.induct)
  case (1 n)
  show ?case
  proof (cases "n < 10")
    case True
    have "0 < k \<Longrightarrow> n < 10 ^ k"
      using True by (cases k) (auto intro: less_le_trans [of n 10])
    with True show ?thesis by (auto simp: dec_str.simps [of n])
  next
    case False
    show ?thesis
    proof (cases k)
      case (Suc j)
      have "n div 10 < 10 ^ j \<longleftrightarrow> n < 10 ^ Suc j"
        by (simp add: div_less_iff_less_mult mult.commute)
      with 1 [OF False, of j] False Suc show ?thesis
        by (cases j) (auto simp: dec_str.simps [of n])
    qed simp
  qed
qed

lemma dec_str_nonzero: "0 < n \<Longrightarrow> \<exists>c s. dec_str n = c # s \<and> c \<noteq> CHR ''0''"
proof (induction n rule: dec_str.induct)
  case (1 n)
  show ?case
  proof (cases "n < 10")
    case True
    then have "digit_chr n \<noteq> CHR ''0''"
      using 1(2) of_char_digit_chr [of n] by auto
    with True show ?thesis by (simp add: dec_str.simps [of n])
  next
    case False
    then have "0 < n div 10" by (simp add: div_greater_zero_iff)
    then obtain c s where "dec_str (n div 10) = c # s \<and> c \<noteq> CHR ''0''" using 1(1) False by blast
    with False show ?thesis by (simp add: dec_str.simps [of n])
  qed
qed

lemma pad_length: "length (pad c w s) = max w (length s)"
  by (simp add: pad_def)

end
