(* ===== verification/NtpMktime.thy ===== *)
theory NtpMktime
  imports NtpCalendar CStrings
begin

text \<open>
  Broken-down time: the replacement \<^verbatim>\<open>mktime\<close> and \<^verbatim>\<open>timegm\<close> of \<open>ntpdist/libntp/mktime.c\<close>, a
  binary search of the \<open>time_t\<close> range with \<open>gmtime\<close> or \<open>localtime\<close> as oracle, and the date
  printer of \<open>ntpdist/libntp/prettydate.c\<close>. The fields of \<open>struct tm\<close> are integers (a signed
  overflow is undefined in C); \<open>gmtime\<close> and \<open>localtime\<close> are parameters that may fail. A read
  outside a table or through a null pointer is the result \<open>None\<close>.
\<close>

section \<open>mktime\<close>

record tm =
  tm_sec :: int
  tm_min :: int
  tm_hour :: int
  tm_mday :: int
  tm_mon :: int
  tm_year :: int
  tm_wday :: int
  tm_yday :: int
  tm_isdst :: int

definition isleap :: "int \<Rightarrow> bool" where
  "isleap y \<longleftrightarrow> (y smod 4 = 0 \<and> y smod 100 \<noteq> 0) \<or> y smod 400 = 0"

definition mon_lengths :: "bool \<Rightarrow> int list" where
  "mon_lengths leap =
     (if leap then [31, 29, 31, 30, 31, 30, 31, 31, 30, 31, 30, 31]
      else [31, 28, 31, 30, 31, 30, 31, 31, 30, 31, 30, 31])"

definition year_lengths :: "bool \<Rightarrow> int" where
  "year_lengths leap = (if leap then 366 else 365)"

definition normalize :: "int \<Rightarrow> int \<Rightarrow> int \<Rightarrow> int \<times> int" where
  "normalize tens units base =
     (if units \<ge> base then (tens + units sdiv base, units smod base)
      else if units < 0 then
        let tens = tens - 1; units = units + base
        in if units < 0 then (tens - (1 + (- units) sdiv base), base - (- units) smod base)
           else (tens, units)
      else (tens, units))"

definition mkdst :: "tm \<Rightarrow> tm" where
  "mkdst tmp =
     (let (hour, min) = normalize (tm_hour tmp) (tm_min tmp + 60) 60
      in tmp\<lparr>tm_isdst := 1, tm_min := min, tm_hour := hour\<rparr>)"

definition tmcomp :: "tm \<Rightarrow> tm \<Rightarrow> int" where
  "tmcomp atmp btmp =
     (let result = tm_year atmp - tm_year btmp;
          result = (if result = 0 then tm_mon atmp - tm_mon btmp else result);
          result = (if result = 0 then tm_mday atmp - tm_mday btmp else result)
      in if result \<noteq> 0 then result
         else
           let (a, b) = (if tm_isdst atmp = 1 \<and> tm_isdst btmp = 0 then (atmp, mkdst btmp)
                         else if tm_isdst btmp = 1 \<and> tm_isdst atmp = 0 then (mkdst atmp, btmp)
                         else (atmp, btmp));
               result = tm_hour a - tm_hour b;
               result = (if result = 0 then tm_min a - tm_min b else result)
           in if result = 0 then tm_sec a - tm_sec b else result)"

text \<open>The two loops that move the day of the month into its month.\<close>

function borrow_years :: "int \<Rightarrow> int \<Rightarrow> int \<times> int" where
  "borrow_years year mday =
     (if mday \<le> 0 then borrow_years (year - 1) (mday + year_lengths (isleap (year - 1 + 1900)))
      else (year, mday))"
  by auto
termination by (relation "measure (\<lambda>(y, d). nat (1 - d))") (auto simp: year_lengths_def)

lemma mon_lengths_bound: "0 \<le> mon \<Longrightarrow> mon < 12 \<Longrightarrow>
    28 \<le> mon_lengths leap ! nat mon \<and> mon_lengths leap ! nat mon \<le> 31"
proof -
  assume "0 \<le> mon" "mon < 12"
  then have "nat mon \<in> {0, 1, 2, 3, 4, 5, 6, 7, 8, 9, 10, 11}" by (simp; presburger)
  then show ?thesis by (auto simp: mon_lengths_def)
qed

function carry_months :: "int \<Rightarrow> int \<Rightarrow> int \<Rightarrow> (int \<times> int \<times> int) option" where
  "carry_months year mon mday =
     (if mon < 0 \<or> mon \<ge> 12 then None
      else
        let i = mon_lengths (isleap (year + 1900)) ! nat mon
        in if mday \<le> i then Some (year, mon, mday)
           else if mon + 1 \<ge> 12 then carry_months (year + 1) 0 (mday - i)
           else carry_months year (mon + 1) (mday - i))"
  by auto

termination
proof (relation "measure (\<lambda>(y, m, d). nat d)", goal_cases)
  case (2 year mon mday x)
  then show ?case using mon_lengths_bound [of mon "isleap (year + 1900)"] by auto
next
  case (3 year mon mday x)
  then show ?case using mon_lengths_bound [of mon "isleap (year + 1900)"] by auto
qed simp

declare borrow_years.simps [simp del] carry_months.simps [simp del]

definition normalize_tm :: "tm \<Rightarrow> tm option" where
  "normalize_tm tmp =
     (let (min, sec) = (if tm_sec tmp \<ge> 60 + 2 \<or> tm_sec tmp < 0
                        then normalize (tm_min tmp) (tm_sec tmp) 60 else (tm_min tmp, tm_sec tmp));
          (hour, min) = normalize (tm_hour tmp) min 60;
          (mday, hour) = normalize (tm_mday tmp) hour 24;
          (year, mon) = normalize (tm_year tmp) (tm_mon tmp) 12;
          (year, mday) = borrow_years year mday
      in case carry_months year mon mday of
           None \<Rightarrow> None
         | Some (year, mon, mday) \<Rightarrow>
             Some (tmp\<lparr>tm_sec := sec, tm_min := min, tm_hour := hour, tm_mday := mday,
                      tm_mon := mon, tm_year := year\<rparr>))"

text \<open>
  The search; \<open>bits\<close> counts down from the 63 magnitude bits of \<open>time_t\<close>. \<open>Some None\<close> is
  the return of \<^verbatim>\<open>WRONG\<close>.
\<close>

function time2_search :: "(int \<Rightarrow> tm option) \<Rightarrow> tm \<Rightarrow> int \<Rightarrow> int \<Rightarrow> int option option" where
  "time2_search conv yourtm bits t =
     (case conv t of
        None \<Rightarrow> None
      | Some mytm \<Rightarrow>
          let dir = tmcomp mytm yourtm in
          if dir \<noteq> 0 then
            (if bits < 0 then Some None
             else
               let bits = bits - 1 in
               time2_search conv yourtm bits
                 (if bits < 0 then t - 1 else if dir > 0 then t - 2 ^ nat bits else t + 2 ^ nat bits))
          else if tm_isdst yourtm < 0 \<or> tm_isdst mytm = tm_isdst yourtm then Some (Some t)
          else Some None)"
  by auto
termination by (relation "measure (\<lambda>(c, y, b, t). nat (b + 1))") auto

declare time2_search.simps [simp del]

text \<open>\<^verbatim>\<open>time2\<close> returns the time, the flag \<open>*okayp\<close> and the new contents of \<open>*tmp\<close>.\<close>

definition time2 ::
  "(int \<Rightarrow> tm option) \<Rightarrow> (int \<Rightarrow> tm option) \<Rightarrow> tm \<Rightarrow> bool \<Rightarrow> (int \<times> bool \<times> tm) option" where
  "time2 localtime gmtime tmp usezn =
     (let conv = (if usezn then localtime else gmtime) in
      case normalize_tm tmp of
        None \<Rightarrow> None
      | Some yourtm \<Rightarrow>
          let saved_seconds = tm_sec yourtm in
          case time2_search conv (yourtm\<lparr>tm_sec := 0\<rparr>) 63 0 of
            None \<Rightarrow> None
          | Some None \<Rightarrow> Some (- 1, False, tmp)
          | Some (Some t) \<Rightarrow>
              let t = t + saved_seconds in
              case conv t of None \<Rightarrow> None | Some tm \<Rightarrow> Some (t, True, tm))"

definition mktime :: "(int \<Rightarrow> tm option) \<Rightarrow> (int \<Rightarrow> tm option) \<Rightarrow> tm \<Rightarrow> (int \<times> tm) option" where
  "mktime localtime gmtime tmp =
     (let tmp = (if tm_isdst tmp > 1 then tmp\<lparr>tm_isdst := 1\<rparr> else tmp) in
      case time2 localtime gmtime tmp True of
        None \<Rightarrow> None
      | Some (t, okay, tmp) \<Rightarrow> Some (if okay \<or> tm_isdst tmp < 0 then t else - 1, tmp))"

definition timegm :: "(int \<Rightarrow> tm option) \<Rightarrow> (int \<Rightarrow> tm option) \<Rightarrow> tm \<Rightarrow> (int \<times> tm) option" where
  "timegm localtime gmtime tmp =
     (let tmp = tmp\<lparr>tm_isdst := 0\<rparr> in
      case time2 localtime gmtime tmp False of
        None \<Rightarrow> None
      | Some (t, okay, tmp) \<Rightarrow> Some (if okay \<or> tm_isdst tmp < 0 then t else - 1, tmp))"

section \<open>prettydate\<close>

definition month_names :: "string list" where
  "month_names = [''Jan'', ''Feb'', ''Mar'', ''Apr'', ''May'', ''Jun'',
     ''Jul'', ''Aug'', ''Sep'', ''Oct'', ''Nov'', ''Dec'']"

definition day_names :: "string list" where
  "day_names = [''Sun'', ''Mon'', ''Tue'', ''Wed'', ''Thu'', ''Fri'', ''Sat'']"

definition SOLAR_CYCLE_SECS :: int where "SOLAR_CYCLE_SECS = 0x34AADC80"

text \<open>The 64-bit Unix time of an NTP second count, around the current time.\<close>

definition ntp2unix_time :: "u64 \<Rightarrow> u64 \<Rightarrow> int" where
  "ntp2unix_time now ntp =
     (let dwlo = ucast now :: u32;
          dwhi = ucast (signed_drop_bit 16 (signed_drop_bit 16 now)) :: u32;
          (dwhi, dwlo) = M_ADD dwhi dwlo 0 0x7fffffff;
          ntp = ntp - ucast JAN_1970;
          dwhi = (if ntp > ucast dwlo then dwhi - 1 else dwhi);
          dwlo = ucast ntp :: u32
      in sint (push_bit 16 (push_bit 16 (scast dwhi :: u64)) OR ucast dwlo))"

text \<open>The retries by solar cycles when the conversion fails; the folds count from \<open>- 3\<close> to \<open>3\<close>.\<close>

function fold_time :: "(int \<Rightarrow> tm option) \<Rightarrow> int \<Rightarrow> int \<Rightarrow> (tm \<times> int) option" where
  "fold_time conv folds t =
     (case conv t of
        Some tm \<Rightarrow> Some (tm, folds)
      | None \<Rightarrow>
          if t < 0 then
            (if folds - 1 < - 3 then None else fold_time conv (folds - 1) (t + SOLAR_CYCLE_SECS))
          else if folds + 1 > 3 \<or> t - SOLAR_CYCLE_SECS < 0 then None
          else fold_time conv (folds + 1) (t - SOLAR_CYCLE_SECS))"
  by auto
termination
  by (relation "measure (\<lambda>(c, f, t). if t < 0 then 100 + nat (f + 3) else nat (4 - f))") (auto simp: SOLAR_CYCLE_SECS_def)

declare fold_time.simps [simp del]

definition ntp2unix_tm ::
  "(int \<Rightarrow> tm option) \<Rightarrow> (int \<Rightarrow> tm option) \<Rightarrow> u64 \<Rightarrow> u64 \<Rightarrow> bool \<Rightarrow> tm option" where
  "ntp2unix_tm localtime gmtime now ntp local =
     (case fold_time (if local then localtime else gmtime) 0 (ntp2unix_time now ntp) of
        None \<Rightarrow> None
      | Some (tm, folds) \<Rightarrow>
          if folds \<noteq> 0 then
            let tm = tm\<lparr>tm_year := tm_year tm + folds * 28\<rparr>
            in if tm_year tm \<le> 0 \<or> tm_year tm \<ge> 200 then None else Some tm
          else Some tm)"

text \<open>
  The buffer of \<^verbatim>\<open>LIB_GETBUF\<close> has 80 characters, so \<^verbatim>\<open>snprintf\<close> keeps the first 79. An index
  outside the name tables is a read outside an array.
\<close>

definition hex8 :: "u32 \<Rightarrow> string" where
  "hex8 w = pad (CHR ''0'') 8 (hex_str (unat w))"

definition common_prettydate ::
  "(int \<Rightarrow> tm option) \<Rightarrow> (int \<Rightarrow> tm option) \<Rightarrow> u64 \<Rightarrow> l_fp \<Rightarrow> bool \<Rightarrow> string option" where
  "common_prettydate localtime gmtime now ts local =
     (let msec = l_uf ts div 4294967;
          stamp = hex8 (l_ui ts) @ ''.'' @ hex8 (l_uf ts)
      in case ntp2unix_tm localtime gmtime now (ucast (l_ui ts)) local of
           None \<Rightarrow> Some (take 79 (stamp @ ''  --- --- -- ---- --:--:--''))
         | Some tm \<Rightarrow>
             if 0 \<le> tm_wday tm \<and> tm_wday tm < 7 \<and> 0 \<le> tm_mon tm \<and> tm_mon tm < 12 then
               Some (take 79 (stamp @ ''  '' @ day_names ! nat (tm_wday tm) @ '', '' @
                 month_names ! nat (tm_mon tm) @ '' '' @ pad (CHR '' '') 2 (fmt_d (tm_mday tm)) @ '' '' @
                 pad (CHR '' '') 4 (fmt_d (1900 + tm_year tm)) @ '' '' @
                 pad (CHR '' '') 2 (fmt_d (tm_hour tm)) @ '':'' @ fmt_0d 2 (tm_min tm) @ '':'' @
                 fmt_0d 2 (tm_sec tm) @ ''.'' @ pad (CHR ''0'') 3 (dec_str (unat msec))))
             else None)"

definition prettydate ::
  "(int \<Rightarrow> tm option) \<Rightarrow> (int \<Rightarrow> tm option) \<Rightarrow> u64 \<Rightarrow> l_fp \<Rightarrow> string option" where
  "prettydate localtime gmtime now ts = common_prettydate localtime gmtime now ts True"

definition gmprettydate ::
  "(int \<Rightarrow> tm option) \<Rightarrow> (int \<Rightarrow> tm option) \<Rightarrow> u64 \<Rightarrow> l_fp \<Rightarrow> string option" where
  "gmprettydate localtime gmtime now ts = common_prettydate localtime gmtime now ts False"

section \<open>Normalising a broken-down time\<close>

lemma sdiv_nonneg: "0 \<le> a \<Longrightarrow> 0 < b \<Longrightarrow> a sdiv b = a div (b :: int)"
  by (cases "a = 0") (simp_all add: signed_divide_int_def)

lemma smod_nonneg: "0 \<le> a \<Longrightarrow> 0 < b \<Longrightarrow> a smod b = a mod (b :: int)"
  by (cases "a = 0") (simp_all add: signed_modulo_int_def)

lemma normalize_value:
  assumes "0 < base" "normalize tens units base = (t, u)"
  shows "t * base + u = tens * base + units"
proof -
  consider "units \<ge> base" | "0 \<le> units" "units < base" | "units < 0" "0 \<le> units + base" | "units + base < 0"
    using assms(1) by linarith
  then show ?thesis
  proof cases
    case 4
    let ?m = "- (units + base)"
    define q r where "q = ?m div base" and "r = ?m mod base"
    have m: "q * base + r = ?m" unfolding q_def r_def by (rule div_mult_mod_eq)
    have tu: "t = tens - 1 - (1 + q)" "u = base - r"
      using 4 assms by (auto simp: normalize_def Let_def sdiv_nonneg smod_nonneg q_def r_def)
    have "t * base + u = tens * base - base - (q * base + r)"
      unfolding tu by (simp add: algebra_simps)
    then show ?thesis unfolding m by simp
  qed (use assms in \<open>auto simp: normalize_def Let_def sdiv_nonneg smod_nonneg algebra_simps\<close>)
qed

lemma normalize_range:
  assumes "0 < base" "normalize tens units base = (t, u)"
  shows "0 \<le> u \<and> u \<le> base \<and> (u = base \<longleftrightarrow> units < - base \<and> units mod base = 0)"
proof -
  consider "units \<ge> base" | "0 \<le> units" "units < base" | "units < 0" "0 \<le> units + base" | "units + base < 0"
    using assms(1) by linarith
  then show ?thesis
  proof cases
    case 1
    then have "u = units mod base" using assms by (auto simp: normalize_def smod_nonneg)
    moreover have "0 \<le> units mod base" "units mod base < base" using assms(1) by simp_all
    ultimately show ?thesis using 1 assms(1) by linarith
  next
    case 4
    let ?m = "- (units + base)"
    have u: "u = base - ?m mod base"
      using 4 assms by (auto simp: normalize_def Let_def smod_nonneg)
    have "base dvd ?m \<longleftrightarrow> base dvd units" by (simp only: dvd_minus_iff dvd_add_triv_right_iff)
    then have "?m mod base = 0 \<longleftrightarrow> units mod base = 0" by (simp only: mod_eq_0_iff_dvd)
    moreover have "0 \<le> ?m mod base" "?m mod base < base" using assms(1) by simp_all
    moreover have "units < - base" using 4 by linarith
    ultimately show ?thesis unfolding u by linarith
  qed (use assms in \<open>auto simp: normalize_def Let_def\<close>)
qed

text \<open>The day number of a date, in the proleptic calendar over all integers.\<close>

definition year_day0 :: "int \<Rightarrow> int" where
  "year_day0 y = 365 * (y - 1) + (y - 1) div 4 - (y - 1) div 100 + (y - 1) div 400"

definition day_no :: "int \<Rightarrow> int \<Rightarrow> int \<Rightarrow> int" where
  "day_no y mon d = year_day0 (y + 1900) + sum_list (take (nat mon) (mon_lengths (isleap (y + 1900)))) + d"

definition tm_instant :: "tm \<Rightarrow> int" where
  "tm_instant t = day_no (tm_year t) (tm_mon t) (tm_mday t) * 86400
     + tm_hour t * 3600 + tm_min t * 60 + tm_sec t"

lemma smod_eq_0_int: "0 < b \<Longrightarrow> a smod b = 0 \<longleftrightarrow> a mod b = (0 :: int)"
proof -
  assume "0 < b"
  have "a smod b = sgn a * (\<bar>a\<bar> mod \<bar>b\<bar>)" by (simp add: signed_modulo_int_def)
  moreover have "b dvd \<bar>a\<bar> \<longleftrightarrow> b dvd a" by simp
  ultimately show ?thesis
    using \<open>0 < b\<close> by (cases "a = 0") (auto simp: sgn_eq_0_iff mod_eq_0_iff_dvd simp del: dvd_abs_iff)
qed

lemma int_div_step: "0 < k \<Longrightarrow> y div k = (y - 1) div k + of_bool (y mod k = (0 :: int))"
proof -
  assume k: "0 < k"
  have y: "y = k * (y div k) + y mod k" by simp
  have r: "0 \<le> y mod k" "y mod k < k" using k by simp_all
  show ?thesis
  proof (cases "y mod k = 0")
    case True
    have "(y - 1) div k = y div k - 1"
      using True y k by (intro int_div_pos_eq [where r = "k - 1"]) (simp_all add: algebra_simps)
    with True show ?thesis by simp
  next
    case False
    have "(y - 1) div k = y div k"
      using False y r by (intro int_div_pos_eq [where r = "y mod k - 1"]) linarith+
    with False show ?thesis by simp
  qed
qed

lemma leap_day_sum:
  fixes y :: int
  assumes "d4 = a + of_bool p" "d100 = b + of_bool q" "d400 = c + of_bool r" "r \<longrightarrow> q" "q \<longrightarrow> p"
  shows "365 * y + d4 - d100 + d400 = 365 * (y - 1) + a - b + c + (if p \<and> (q \<longrightarrow> r) then 366 else 365)"
  using assms(4,5) unfolding assms(1-3) by (cases p; cases q; cases r; simp)

lemma year_day0_Suc: "year_day0 (y + 1) = year_day0 y + year_lengths (isleap y)"
proof -
  have "4 dvd y" if "100 dvd y" using that dvd_trans [of 4 100 y] by simp
  moreover have "100 dvd y" if "400 dvd y" using that dvd_trans [of 100 400 y] by simp
  ultimately have l: "isleap y \<longleftrightarrow> 4 dvd y \<and> (100 dvd y \<longrightarrow> 400 dvd y)" "400 dvd y \<Longrightarrow> 100 dvd y \<and> 4 dvd y"
    "100 dvd y \<Longrightarrow> 4 dvd y"
    by (auto simp: isleap_def smod_eq_0_int mod_eq_0_iff_dvd)
  have k: "0 < (4 :: int)" "0 < (100 :: int)" "0 < (400 :: int)" by simp_all
  note s = leap_day_sum [OF int_div_step [OF k(1), of y] int_div_step [OF k(2), of y] int_div_step [OF k(3), of y],
      unfolded mod_eq_0_iff_dvd, of y]
  have "365 * y + y div 4 - y div 100 + y div 400 = 365 * (y - 1) + (y - 1) div 4 - (y - 1) div 100 + (y - 1) div 400
     + (if 4 dvd y \<and> (100 dvd y \<longrightarrow> 400 dvd y) then 366 else 365)"
    by (rule s) (use l in blast)+
  then show ?thesis
    unfolding year_day0_def year_lengths_def l(1) by (simp only: add_diff_cancel_right')
qed

lemma upto11: "0 \<le> m \<Longrightarrow> m < 12 \<Longrightarrow> nat m \<in> {0, 1, 2, 3, 4, 5, 6, 7, 8, 9, 10, 11}"
  by (simp; presburger)

lemma day_no_month_Suc:
  assumes "0 \<le> m" "m < 11"
  shows "day_no y (m + 1) d = day_no y m (d + mon_lengths (isleap (y + 1900)) ! nat m)"
proof -
  have "nat (m + 1) = Suc (nat m)" "nat m < length (mon_lengths l)" for l
    using assms by (simp_all add: mon_lengths_def)
  then show ?thesis by (simp add: day_no_def take_Suc_conv_app_nth)
qed

lemma day_no_year_Suc: "day_no (y + 1) 0 d = day_no y 11 (d + mon_lengths (isleap (y + 1900)) ! 11)"
proof -
  have "sum_list (take 11 (mon_lengths l)) + mon_lengths l ! 11 = year_lengths l" for l
    by (simp add: mon_lengths_def year_lengths_def)
  then show ?thesis
    using year_day0_Suc [of "y + 1900"] by (simp add: day_no_def algebra_simps)
qed

lemma carry_months_day:
  assumes "0 \<le> mon" "mon < 12" "1 \<le> mday"
  shows "\<exists>y m d. carry_months year mon mday = Some (y, m, d) \<and> 0 \<le> m \<and> m < 12 \<and> 1 \<le> d
    \<and> d \<le> mon_lengths (isleap (y + 1900)) ! nat m \<and> day_no y m d = day_no year mon mday"
  using assms
proof (induction year mon mday rule: carry_months.induct)
  case (1 year mon mday)
  let ?i = "mon_lengths (isleap (year + 1900)) ! nat mon"
  consider "mday \<le> ?i" | "?i < mday" "mon = 11" | "?i < mday" "mon < 11" using 1 by linarith
  then show ?case
  proof cases
    case 1
    with \<open>0 \<le> mon\<close> \<open>mon < 12\<close> \<open>1 \<le> mday\<close> show ?thesis by (simp add: carry_months.simps [of year mon mday])
  next
    case 2
    then have "carry_months year mon mday = carry_months (year + 1) 0 (mday - ?i)"
      by (subst carry_months.simps) (simp add: Let_def)
    with 1 2 day_no_year_Suc [of year "mday - ?i"] show ?thesis by auto
  next
    case 3
    then have "carry_months year mon mday = carry_months year (mon + 1) (mday - ?i)"
      using 1 by (simp add: carry_months.simps [of year mon mday])
    with 1 3 day_no_month_Suc [of mon year "mday - ?i"] show ?thesis by auto
  qed
qed

lemma normalize_nonneg:
  assumes "0 < base" "0 \<le> units"
  shows "normalize tens units base = (tens + units div base, units mod base)"
  using assms by (auto simp: normalize_def sdiv_nonneg smod_nonneg)

lemma instant_shift:
  fixes h :: int
  assumes "h + md = q * 24 + r" "m = md * 60 + mm" "D = D' + q"
  shows "D * 86400 + r * 3600 + mm * 60 + s = D' * 86400 + h * 3600 + m * 60 + s"
  using assms by simp

theorem normalize_tm_correct:
  assumes "0 \<le> tm_sec tmp" "tm_sec tmp < 62" "0 \<le> tm_min tmp" "0 \<le> tm_hour tmp" "1 \<le> tm_mday tmp" "0 \<le> tm_mon tmp"
  shows "\<exists>n. normalize_tm tmp = Some n \<and> tm_instant n
      = tm_instant (tmp\<lparr>tm_year := tm_year tmp + tm_mon tmp div 12, tm_mon := tm_mon tmp mod 12\<rparr>)
    \<and> tm_sec n = tm_sec tmp \<and> 0 \<le> tm_min n \<and> tm_min n < 60 \<and> 0 \<le> tm_hour n \<and> tm_hour n < 24
    \<and> 0 \<le> tm_mon n \<and> tm_mon n < 12 \<and> 1 \<le> tm_mday n
    \<and> tm_mday n \<le> mon_lengths (isleap (tm_year n + 1900)) ! nat (tm_mon n)"
proof -
  let ?h = "tm_hour tmp + tm_min tmp div 60"
  let ?d = "tm_mday tmp + ?h div 24"
  let ?y = "tm_year tmp + tm_mon tmp div 12"
  have h: "0 \<le> ?h" and d: "1 \<le> ?d" using assms by (simp_all add: pos_imp_zdiv_nonneg_iff add_increasing2)
  have b: "borrow_years ?y ?d = (?y, ?d)" using d by (simp add: borrow_years.simps)
  obtain y m dd where c: "carry_months ?y (tm_mon tmp mod 12) ?d = Some (y, m, dd)"
    and r: "0 \<le> m" "m < 12" "1 \<le> dd" "dd \<le> mon_lengths (isleap (y + 1900)) ! nat m"
    and n: "day_no y m dd = day_no ?y (tm_mon tmp mod 12) ?d"
    using carry_months_day [of "tm_mon tmp mod 12" ?d ?y] d by auto
  let ?n = "tmp\<lparr>tm_sec := tm_sec tmp, tm_min := tm_min tmp mod 60, tm_hour := ?h mod 24, tm_mday := dd,
    tm_mon := m, tm_year := y\<rparr>"
  have "normalize_tm tmp = Some ?n"
    using assms h by (simp add: normalize_tm_def normalize_nonneg b c)
  moreover have "tm_instant ?n = tm_instant (tmp\<lparr>tm_year := ?y, tm_mon := tm_mon tmp mod 12\<rparr>)"
  proof -
    define q r where "q = ?h div 24" and "r = ?h mod 24"
    have 1: "?h = q * 24 + r" "tm_min tmp = tm_min tmp div 60 * 60 + tm_min tmp mod 60"
      by (simp_all add: q_def r_def)
    have 2: "day_no y m dd = day_no ?y (tm_mon tmp mod 12) (tm_mday tmp) + q"
      unfolding n by (simp add: day_no_def q_def)
    have "tm_instant ?n = day_no y m dd * 86400 + r * 3600 + (tm_min tmp mod 60) * 60 + tm_sec tmp"
      by (simp add: tm_instant_def r_def)
    also have "\<dots> = day_no ?y (tm_mon tmp mod 12) (tm_mday tmp) * 86400 + tm_hour tmp * 3600 + tm_min tmp * 60 + tm_sec tmp"
      by (rule instant_shift [OF 1 2])
    finally show ?thesis by (simp add: tm_instant_def)
  qed
  moreover have "tm_sec ?n = tm_sec tmp" "tm_min ?n = tm_min tmp mod 60" "tm_hour ?n = ?h mod 24"
    "tm_mday ?n = dd" "tm_mon ?n = m" "tm_year ?n = y"
    by simp_all
  moreover have "0 \<le> k mod 60" "k mod 60 < 60" "0 \<le> k mod 24" "k mod 24 < 24" for k :: int
    by simp_all
  ultimately show ?thesis using r by metis
qed

lemma normalize_tm_correct_witness:
  "\<exists>n. normalize_tm \<lparr>tm_sec = 60, tm_min = 90, tm_hour = 30, tm_mday = 31, tm_mon = 13, tm_year = 103,
     tm_wday = 0, tm_yday = 0, tm_isdst = 0\<rparr> = Some n \<and> 1 \<le> tm_mday n \<and> tm_min n < 60"
  using normalize_tm_correct [of "\<lparr>tm_sec = 60, tm_min = 90, tm_hour = 30, tm_mday = 31, tm_mon = 13, tm_year = 103,
     tm_wday = 0, tm_yday = 0, tm_isdst = 0\<rparr>"] by auto

lemma time2_search_found:
  assumes conv_ok: "\<And>t. lo \<le> t \<Longrightarrow> t < hi \<Longrightarrow> \<exists>m. conv t = Some m \<and> sgn (tmcomp m target) = sgn (t - t0)
      \<and> tm_isdst m = tm_isdst target"
    and "0 \<le> bits" "t - 2 ^ nat bits \<le> t0" "t0 < t + 2 ^ nat bits" "lo \<le> t - 2 ^ nat bits" "t + 2 ^ nat bits \<le> hi"
  shows "time2_search conv target bits t = Some (Some t0)"
  using assms(2-)
proof (induction "nat bits" arbitrary: bits t)
  case 0
  then have b: "bits = 0" by simp
  have "t0 = t \<or> t0 = t - 1" using 0 b by simp presburger
  obtain m where m: "conv t = Some m" "sgn (tmcomp m target) = sgn (t - t0)" "tm_isdst m = tm_isdst target"
    using conv_ok [of t] 0 b by auto
  show ?case
  proof (cases "t0 = t")
    case True
    with m show ?thesis by (simp add: time2_search.simps [of conv target bits t] sgn_eq_0_iff)
  next
    case False
    then have t0: "t0 = t - 1" using \<open>t0 = t \<or> t0 = t - 1\<close> by simp
    obtain m' where m': "conv (t - 1) = Some m'" "sgn (tmcomp m' target) = 0" "tm_isdst m' = tm_isdst target"
      using conv_ok [of "t - 1"] 0 b t0 by auto
    have "tmcomp m target \<noteq> 0" using m(2) t0 by (auto simp: sgn_eq_0_iff)
    then show ?thesis
      using m m' t0 b
      by (simp add: time2_search.simps [of conv target 0 t] time2_search.simps [of conv target "- 1" "t - 1"] sgn_eq_0_iff)
  qed
next
  case (Suc n)
  then have b: "bits = int (Suc n)" by simp
  let ?p = "2 ^ n :: int"
  have p: "2 ^ nat bits = 2 * ?p" unfolding b nat_int by simp
  have n: "n = nat (bits - 1)" using b by simp
  have p0: "1 \<le> ?p" by simp
  obtain m where m: "conv t = Some m" "sgn (tmcomp m target) = sgn (t - t0)" "tm_isdst m = tm_isdst target"
    using conv_ok [of t] Suc.prems p p0 by auto
  have pr: "t - 2 * ?p \<le> t0" "t0 < t + 2 * ?p" "lo \<le> t - 2 * ?p" "t + 2 * ?p \<le> hi"
    using Suc.prems(2-5) unfolding p .
  consider "t0 = t" | "t0 < t" | "t < t0" by linarith
  then show ?case
  proof cases
    case 1
    with m show ?thesis by (simp add: time2_search.simps [of conv target bits t] sgn_eq_0_iff)
  next
    case 2
    then have "0 < tmcomp m target" using m(2) by (simp add: sgn_if split: if_splits)
    then have "time2_search conv target bits t = time2_search conv target (bits - 1) (t - ?p)"
      using m b by (subst time2_search.simps) simp
    also have "\<dots> = Some (Some t0)"
      using pr 2 b by (intro Suc.hyps(1) [OF n]) (simp_all flip: n)
    finally show ?thesis .
  next
    case 3
    then have d: "tmcomp m target < 0" using m(2) by (simp add: sgn_if split: if_splits)
    then have "time2_search conv target bits t = time2_search conv target (bits - 1) (t + ?p)"
      using m b by (subst time2_search.simps) simp
    also have "\<dots> = Some (Some t0)"
      using pr 3 b by (intro Suc.hyps(1) [OF n]) (simp_all flip: n)
    finally show ?thesis .
  qed
qed

text \<open>
  With a 64-bit \<^verbatim>\<open>time_t\<close> the second probe is \<open>2^62\<close> or \<open>-2^62\<close>. The year of that time does
  not fit an \<^verbatim>\<open>int\<close>, for which \<^verbatim>\<open>gmtime\<close> is documented to return a null pointer, and the search
  reads through it: the only dates that are converted are those of the minute of time 0.
\<close>

theorem timegm_reads_null:
  assumes "gmtime 0 = Some m0" "tm_isdst m0 = 0" "gmtime (2 ^ 62) = None" "gmtime (- (2 ^ 62)) = None"
    and "normalize_tm (tmp\<lparr>tm_isdst := 0\<rparr>) = Some yourtm" "tmcomp m0 (yourtm\<lparr>tm_sec := 0\<rparr>) \<noteq> 0"
  shows "timegm localtime gmtime tmp = None"
proof -
  let ?y = "yourtm\<lparr>tm_sec := 0\<rparr>"
  have n: "time2_search gmtime ?y 62 t = None" if "gmtime t = None" for t
    using that by (subst time2_search.simps) simp
  have "time2_search gmtime ?y 63 0 = time2_search gmtime ?y 62 (if 0 < tmcomp m0 ?y then - (2 ^ 62) else 2 ^ 62)"
    using assms(1,6) by (subst time2_search.simps) (simp add: Let_def)
  also have "\<dots> = None" using n[OF assms(3)] n[OF assms(4)] by simp
  finally have "time2_search gmtime ?y 63 0 = None" .
  then show ?thesis using assms(5) by (simp add: timegm_def time2_def)
qed

lemma timegm_reads_null_witness:
  defines "epoch \<equiv> \<lparr>tm_sec = 0, tm_min = 0, tm_hour = 0, tm_mday = 1, tm_mon = 0, tm_year = 70, tm_wday = 4,
    tm_yday = 0, tm_isdst = 0\<rparr>"
  shows "timegm (\<lambda>t. None) (\<lambda>t. if t = 0 then Some epoch else None) (epoch\<lparr>tm_mday := 2, tm_min := 61\<rparr>) = None"
proof -
  have n: "normalize_tm ((epoch\<lparr>tm_mday := 2, tm_min := 61\<rparr>)\<lparr>tm_isdst := 0\<rparr>) = Some (epoch\<lparr>tm_mday := 2, tm_hour := 1, tm_min := 1\<rparr>)"
    unfolding epoch_def by code_simp
  have d: "tmcomp epoch ((epoch\<lparr>tm_mday := 2, tm_hour := 1, tm_min := 1\<rparr>)\<lparr>tm_sec := 0\<rparr>) \<noteq> 0"
    unfolding epoch_def by code_simp
  show ?thesis by (rule timegm_reads_null [OF _ _ _ _ n d]) (simp_all add: epoch_def)
qed

theorem normalize_full_base:
  assumes "0 < base" "2 \<le> k"
  shows "normalize tens (- (k * base)) base = (tens - k - 1, base)"
  using assms
proof -
  have "2 * base \<le> k * base" using assms by (intro mult_right_mono) auto
  then have 1: "\<not> base \<le> - (k * base)" "- (k * base) < 0" "- (k * base) + base < 0" using assms by linarith+
  have 2: "- (- (k * base) + base) = (k - 1) * base" by (simp add: algebra_simps)
  have 3: "0 \<le> (k - 1) * base" using assms by simp
  show ?thesis
    unfolding normalize_def Let_def 2 if_not_P [OF 1(1)] if_P [OF 1(2)] if_P [OF 1(3)]
    using 3 assms by (simp add: sdiv_nonneg smod_nonneg)
qed

lemma normalize_full_base_witness:
  "normalize 104 (- 24) 12 = (101, 12)
   \<and> normalize_tm \<lparr>tm_sec = 0, tm_min = 0, tm_hour = 0, tm_mday = 1, tm_mon = - 24, tm_year = 104,
     tm_wday = 0, tm_yday = 0, tm_isdst = 0\<rparr> = None"
proof -
  have "normalize 104 (- 24) 12 = (101, 12)" using normalize_full_base [of 12 2 104] by simp
  moreover have "normalize_tm \<lparr>tm_sec = 0, tm_min = 0, tm_hour = 0, tm_mday = 1, tm_mon = - 24, tm_year = 104,
     tm_wday = 0, tm_yday = 0, tm_isdst = 0\<rparr> = None" by code_simp
  ultimately show ?thesis by blast
qed

theorem timegm_march_zero:
  "normalize_tm \<lparr>tm_sec = 0, tm_min = 0, tm_hour = 0, tm_mday = 0, tm_mon = 2, tm_year = 104,
     tm_wday = 0, tm_yday = 0, tm_isdst = 0\<rparr>
   = Some \<lparr>tm_sec = 0, tm_min = 0, tm_hour = 0, tm_mday = 28, tm_mon = 1, tm_year = 104,
     tm_wday = 0, tm_yday = 0, tm_isdst = 0\<rparr>
   \<and> day_no 104 2 0 = day_no 104 1 29"
  by code_simp

lemma fx_combine: "push_bit 16 (push_bit 16 (scast hi :: u64)) OR ucast lo = fx hi lo"
proof (rule bit_word_eqI)
  fix n assume "n < LENGTH(64)"
  then show "bit (push_bit 16 (push_bit 16 (scast hi :: u64)) OR ucast lo) n = bit (fx hi lo) n"
    by (cases "n < 32") (auto simp: bit_fx bit_or_iff bit_push_bit_iff bit_ucast_iff bit_signed_iff bit_u32_ge)
qed

lemma ntp2unix_time_hi:
  assumes "0 \<le> sint now" "sint now < 2 ^ 31"
  shows "ntp2unix_time now ntp =
    (if uint (ntp - 2208988800) > sint now + 2147483647 then - (2 ^ 32) else 0) + uint (ntp - 2208988800) mod 2 ^ 32"
proof -
  let ?h = "ucast (signed_drop_bit 16 (signed_drop_bit 16 now)) :: u32"
  obtain hi lo where m: "M_ADD ?h (ucast now :: u32) 0 0x7fffffff = (hi, lo)" by fastforce
  have n: "uint now = sint now"
    using sint_uint_if [of now] assms uint_bounded [of now] by (cases "bit now 63") auto
  have f: "fx hi lo = now + 0x7fffffff"
    unfolding fx_M_ADD [OF m] fx_split fx_0 by simp
  have "uint (fx hi lo) = sint now + 2147483647"
    unfolding f using n assms by (simp add: uint_word_ariths)
  then have e: "uint hi * 4294967296 + uint lo = sint now + 2147483647" by (simp add: uint_fx)
  moreover have "0 \<le> uint hi" "0 \<le> uint lo" "uint lo < 4294967296" using uint_u32 [of lo] by simp_all
  moreover have "sint now < 2147483648" using assms by simp
  ultimately have "uint hi = 0" using assms(1) by linarith
  with e have lo: "uint hi = 0" "uint lo = sint now + 2147483647" by simp_all
  have hi: "hi = 0" using lo(1) by (simp add: word_uint_eq_iff)
  let ?n = "ntp - ucast JAN_1970"
  have j: "?n = ntp - 2208988800" by (simp add: JAN_1970_def)
  have g: "?n > ucast lo \<longleftrightarrow> uint ?n > sint now + 2147483647"
    using lo(2) uint_u32 [of lo] by (simp add: word_less_def uint_ucast_mod)
  have "ntp2unix_time now ntp = sint (fx (if ?n > ucast lo then - 1 else 0) (ucast ?n))"
    unfolding ntp2unix_time_def Let_def m split_conv fx_combine hi by simp
  also have "\<dots> = (if uint ?n > sint now + 2147483647 then - (2 ^ 32) else 0) + uint ?n mod 2 ^ 32"
    unfolding sint_fx g by (simp add: uint_ucast_mod)
  finally show ?thesis unfolding j .
qed

theorem ntp2unix_time_near_now:
  assumes "0 \<le> sint now" "sint now < 2 ^ 31" "2208988800 \<le> ntp" "ntp < 2 ^ 32"
  shows "ntp2unix_time now ntp mod 2 ^ 32 = uint ntp - 2208988800
    \<and> ntp2unix_time now ntp \<le> sint now + 2147483647
    \<and> sint now + 2147483647 < ntp2unix_time now ntp + 2 ^ 32"
proof -
  have "uint (ntp - 2208988800) = uint ntp - 2208988800"
    using assms uint_sub_lem [of 2208988800 ntp] by (simp add: word_le_def)
  moreover have "uint ntp < 4294967296" "2208988800 \<le> uint ntp" using assms by (simp_all add: word_less_def word_le_def)
  ultimately show ?thesis
    using assms(1,2) ntp2unix_time_hi [OF assms(1,2), of ntp] by auto
qed

lemma ntp2unix_time_near_now_witness: "ntp2unix_time 1700000000 3900000000 \<le> 1700000000 + 2147483647"
  using ntp2unix_time_near_now [of 1700000000 3900000000] by simp

theorem ntp2unix_time_era_bug:
  assumes "0 \<le> sint now" "sint now < 2 ^ 31" "ntp < 2208988800"
  shows "ntp2unix_time now ntp = uint ntp - 2208988800"
proof -
  have n: "uint ntp < 2208988800" using assms(3) by (simp add: word_less_def)
  have "uint (ntp - 2208988800) = (uint ntp - 2208988800) mod 2 ^ 64"
    by (simp add: uint_word_ariths)
  also have "\<dots> = uint ntp - 2208988800 + 2 ^ 64"
    using n by (intro int_mod_pos_eq [where q = "- 1"]) auto
  finally have u: "uint (ntp - 2208988800) = uint ntp - 2208988800 + 2 ^ 64" .
  have "(uint ntp - 2208988800 + 2 ^ 64) mod 2 ^ 32 = uint ntp - 2208988800 + 2 ^ 32"
    using n by (intro int_mod_pos_eq [where q = "2 ^ 32 - 1"]) auto
  moreover have "0 \<le> uint ntp" by simp
  ultimately show ?thesis
    using ntp2unix_time_hi [OF assms(1,2), of ntp] assms(2) unfolding u by simp
qed

lemma ntp2unix_time_era_bug_witness:
  "ntp2unix_time 1700000000 100 = - 2208988700
   \<and> map_option cal_year (caljulian 1700000000 100) = Some 2036"
proof -
  have "ntp2unix_time 1700000000 100 = - 2208988700"
    using ntp2unix_time_era_bug [of 1700000000 100] by simp
  moreover have "map_option cal_year (caljulian 1700000000 100) = Some 2036" by code_simp
  ultimately show ?thesis by blast
qed

end
