(* ===== verification/NtpTimeval.thy ===== *)
theory NtpTimeval
  imports NtpFixedPoint
begin

text \<open>
  Microseconds and milliseconds as fractions of a time stamp and back: the tables of
  ntpdist/libntp/tvtots.c, tstotv.c and msutotsf.c, the macros of ntpdist/include/ntp_unixtime.h that add
  up their entries, and the functions buftvtots and tsftomsu. A table is a list of integers; a
  \<open>long\<close> is an integer, whose bits C and HOL read in two's complement, and none of the sums here
  leaves its range.

  The tables are checked entry by entry against the numbers they stand for. Those of tvtots.c are not
  rounded as their comment says, but every microsecond still comes back.
\<close>

section \<open>The tables\<close>

definition ustotslo :: "int list" where
  "ustotslo = [
    0x0, 0x10c7, 0x218e, 0x3255, 0x431c, 0x53e3, 0x64aa, 0x7571,
    0x8638, 0x96ff, 0xa7c6, 0xb88d, 0xc954, 0xda1b, 0xeae2, 0xfba9,
    0x10c6f, 0x11d36, 0x12dfd, 0x13ec4, 0x14f8b, 0x16052, 0x17119, 0x181e0,
    0x192a7, 0x1a36e, 0x1b435, 0x1c4fc, 0x1d5c3, 0x1e68a, 0x1f751, 0x20818,
    0x218df, 0x229a6, 0x23a6d, 0x24b34, 0x25bfb, 0x26cc2, 0x27d89, 0x28e50,
    0x29f17, 0x2afde, 0x2c0a5, 0x2d16c, 0x2e233, 0x2f2fa, 0x303c0, 0x31487,
    0x3254e, 0x33615, 0x346dc, 0x357a3, 0x3686a, 0x37931, 0x389f8, 0x39abf,
    0x3ab86, 0x3bc4d, 0x3cd14, 0x3dddb, 0x3eea2, 0x3ff69, 0x41030, 0x420f7,
    0x431be, 0x44285, 0x4534c, 0x46413, 0x474da, 0x485a1, 0x49668, 0x4a72f,
    0x4b7f6, 0x4c8bd, 0x4d984, 0x4ea4b, 0x4fb12, 0x50bd8, 0x51c9f, 0x52d66,
    0x53e2d, 0x54ef4, 0x55fbb, 0x57082, 0x58149, 0x59210, 0x5a2d7, 0x5b39e,
    0x5c465, 0x5d52c, 0x5e5f3, 0x5f6ba, 0x60781, 0x61848, 0x6290f, 0x639d6,
    0x64a9d, 0x65b64, 0x66c2b, 0x67cf2, 0x68db9, 0x69e80, 0x6af47, 0x6c00e,
    0x6d0d5, 0x6e19c, 0x6f263, 0x70329, 0x713f0, 0x724b7, 0x7357e, 0x74645,
    0x7570c, 0x767d3, 0x7789a, 0x78961, 0x79a28, 0x7aaef, 0x7bbb6, 0x7cc7d,
    0x7dd44, 0x7ee0b, 0x7fed2, 0x80f99, 0x82060, 0x83127, 0x841ee, 0x852b5,
    0x8637c, 0x87443, 0x8850a, 0x895d1, 0x8a698, 0x8b75f, 0x8c826, 0x8d8ed,
    0x8e9b4, 0x8fa7b, 0x90b41, 0x91c08, 0x92ccf, 0x93d96, 0x94e5d, 0x95f24,
    0x96feb, 0x980b2, 0x99179, 0x9a240, 0x9b307, 0x9c3ce, 0x9d495, 0x9e55c,
    0x9f623, 0xa06ea, 0xa17b1, 0xa2878, 0xa393f, 0xa4a06, 0xa5acd, 0xa6b94,
    0xa7c5b, 0xa8d22, 0xa9de9, 0xaaeb0, 0xabf77, 0xad03e, 0xae105, 0xaf1cc,
    0xb0292, 0xb1359, 0xb2420, 0xb34e7, 0xb45ae, 0xb5675, 0xb673c, 0xb7803,
    0xb88ca, 0xb9991, 0xbaa58, 0xbbb1f, 0xbcbe6, 0xbdcad, 0xbed74, 0xbfe3b,
    0xc0f02, 0xc1fc9, 0xc3090, 0xc4157, 0xc521e, 0xc62e5, 0xc73ac, 0xc8473,
    0xc953a, 0xca601, 0xcb6c8, 0xcc78f, 0xcd856, 0xce91d, 0xcf9e4, 0xd0aaa,
    0xd1b71, 0xd2c38, 0xd3cff, 0xd4dc6, 0xd5e8d, 0xd6f54, 0xd801b, 0xd90e2,
    0xda1a9, 0xdb270, 0xdc337, 0xdd3fe, 0xde4c5, 0xdf58c, 0xe0653, 0xe171a,
    0xe27e1, 0xe38a8, 0xe496f, 0xe5a36, 0xe6afd, 0xe7bc4, 0xe8c8b, 0xe9d52,
    0xeae19, 0xebee0, 0xecfa7, 0xee06e, 0xef135, 0xf01fb, 0xf12c2, 0xf2389,
    0xf3450, 0xf4517, 0xf55de, 0xf66a5, 0xf776c, 0xf8833, 0xf98fa, 0xfa9c1,
    0xfba88, 0xfcb4f, 0xfdc16, 0xfecdd, 0xffda4, 0x100e6b, 0x101f32, 0x102ff9,
    0x1040c0, 0x105187, 0x10624e, 0x107315, 0x1083dc, 0x1094a3, 0x10a56a, 0x10b631]"

definition ustotsmid :: "int list" where
  "ustotsmid = [
    0x0, 0x10c6f8, 0x218def, 0x3254e7, 0x431bde, 0x53e2d6, 0x64a9ce, 0x7570c5,
    0x8637bd, 0x96feb4, 0xa7c5ac, 0xb88ca4, 0xc9539b, 0xda1a93, 0xeae18a, 0xfba882,
    0x10c6f7a, 0x11d3671, 0x12dfd69, 0x13ec460, 0x14f8b58, 0x1605250, 0x1711947, 0x181e03f,
    0x192a736, 0x1a36e2e, 0x1b43526, 0x1c4fc1d, 0x1d5c315, 0x1e68a0c, 0x1f75104, 0x20817fc,
    0x218def3, 0x229a5eb, 0x23a6ce3, 0x24b33da, 0x25bfad2, 0x26cc1c9, 0x27d88c1, 0x28e4fb9,
    0x29f16b0, 0x2afdda8, 0x2c0a49f, 0x2d16b97, 0x2e2328f, 0x2f2f986, 0x303c07e, 0x3148775,
    0x3254e6d, 0x3361565, 0x346dc5c, 0x357a354, 0x3686a4b, 0x3793143, 0x389f83b, 0x39abf32,
    0x3ab862a, 0x3bc4d21, 0x3cd1419, 0x3dddb11, 0x3eea208, 0x3ff6900, 0x4102ff7, 0x420f6ef,
    0x431bde7, 0x44284de, 0x4534bd6, 0x46412cd, 0x474d9c5, 0x485a0bd, 0x49667b4, 0x4a72eac,
    0x4b7f5a3, 0x4c8bc9b, 0x4d98393, 0x4ea4a8a, 0x4fb1182, 0x50bd879, 0x51c9f71, 0x52d6669,
    0x53e2d60, 0x54ef458, 0x55fbb4f, 0x5708247, 0x581493f, 0x5921036, 0x5a2d72e, 0x5b39e25,
    0x5c4651d, 0x5d52c15, 0x5e5f30c, 0x5f6ba04, 0x60780fb, 0x61847f3, 0x6290eeb, 0x639d5e2,
    0x64a9cda, 0x65b63d2, 0x66c2ac9, 0x67cf1c1, 0x68db8b8, 0x69e7fb0, 0x6af46a8, 0x6c00d9f,
    0x6d0d497, 0x6e19b8e, 0x6f26286, 0x703297e, 0x713f075, 0x724b76d, 0x7357e64, 0x746455c,
    0x7570c54, 0x767d34b, 0x7789a43, 0x789613a, 0x79a2832, 0x7aaef2a, 0x7bbb621, 0x7cc7d19,
    0x7dd4410, 0x7ee0b08, 0x7fed200, 0x80f98f7, 0x8205fef, 0x83126e6, 0x841edde, 0x852b4d6,
    0x8637bcd, 0x87442c5, 0x88509bc, 0x895d0b4, 0x8a697ac, 0x8b75ea3, 0x8c8259b, 0x8d8ec92,
    0x8e9b38a, 0x8fa7a82, 0x90b4179, 0x91c0871, 0x92ccf68, 0x93d9660, 0x94e5d58, 0x95f244f,
    0x96feb47, 0x980b23e, 0x9917936, 0x9a2402e, 0x9b30725, 0x9c3ce1d, 0x9d49514, 0x9e55c0c,
    0x9f62304, 0xa06e9fb, 0xa17b0f3, 0xa2877ea, 0xa393ee2, 0xa4a05da, 0xa5accd1, 0xa6b93c9,
    0xa7c5ac1, 0xa8d21b8, 0xa9de8b0, 0xaaeafa7, 0xabf769f, 0xad03d97, 0xae1048e, 0xaf1cb86,
    0xb02927d, 0xb135975, 0xb24206d, 0xb34e764, 0xb45ae5c, 0xb567553, 0xb673c4b, 0xb780343,
    0xb88ca3a, 0xb999132, 0xbaa5829, 0xbbb1f21, 0xbcbe619, 0xbdcad10, 0xbed7408, 0xbfe3aff,
    0xc0f01f7, 0xc1fc8ef, 0xc308fe6, 0xc4156de, 0xc521dd5, 0xc62e4cd, 0xc73abc5, 0xc8472bc,
    0xc9539b4, 0xca600ab, 0xcb6c7a3, 0xcc78e9b, 0xcd85592, 0xce91c8a, 0xcf9e381, 0xd0aaa79,
    0xd1b7171, 0xd2c3868, 0xd3cff60, 0xd4dc657, 0xd5e8d4f, 0xd6f5447, 0xd801b3e, 0xd90e236,
    0xda1a92d, 0xdb27025, 0xdc3371d, 0xdd3fe14, 0xde4c50c, 0xdf58c03, 0xe0652fb, 0xe1719f3,
    0xe27e0ea, 0xe38a7e2, 0xe496ed9, 0xe5a35d1, 0xe6afcc9, 0xe7bc3c0, 0xe8c8ab8, 0xe9d51b0,
    0xeae18a7, 0xebedf9f, 0xecfa696, 0xee06d8e, 0xef13486, 0xf01fb7d, 0xf12c275, 0xf23896c,
    0xf345064, 0xf45175c, 0xf55de53, 0xf66a54b, 0xf776c42, 0xf88333a, 0xf98fa32, 0xfa9c129,
    0xfba8821, 0xfcb4f18, 0xfdc1610, 0xfecdd08, 0xffda3ff, 0x100e6af7, 0x101f31ee, 0x102ff8e6,
    0x1040bfde, 0x105186d5, 0x10624dcd, 0x107314c4, 0x1083dbbc, 0x1094a2b4, 0x10a569ab, 0x10b630a3]"

definition ustotshi :: "int list" where
  "ustotshi = [
    0x0, 0x10c6f79a, 0x218def35, 0x3254e6cf, 0x431bde6a, 0x53e2d604, 0x64a9cd9f, 0x7570c539,
    0x8637bcd3, 0x96feb46e, 0xa7c5ac08, 0xb88ca3a3, 0xc9539b3d, 0xda1a92d7, 0xeae18a72, 0xfba8820c]"

definition tstoushi :: "int list" where
  "tstoushi = [
    0x0, 0x7a12, 0xf424, 0x16e36, 0x1e848, 0x2625a, 0x2dc6c, 0x3567e,
    0x3d090, 0x44aa2, 0x4c4b4, 0x53ec6, 0x5b8d8, 0x632ea, 0x6acfc, 0x7270e,
    0x7a120, 0x81b32, 0x89544, 0x90f56, 0x98968, 0xa037a, 0xa7d8c, 0xaf79e,
    0xb71b0, 0xbebc2, 0xc65d4, 0xcdfe6, 0xd59f8, 0xdd40a, 0xe4e1c, 0xec82e,
    0xf4240, 0xfbc52, 0x103664, 0x10b076, 0x112a88, 0x11a49a, 0x121eac, 0x1298be,
    0x1312d0, 0x138ce2, 0x1406f4, 0x148106, 0x14fb18, 0x15752a, 0x15ef3c, 0x16694e,
    0x16e360, 0x175d72, 0x17d784, 0x185196, 0x18cba8, 0x1945ba, 0x19bfcc, 0x1a39de,
    0x1ab3f0, 0x1b2e02, 0x1ba814, 0x1c2226, 0x1c9c38, 0x1d164a, 0x1d905c, 0x1e0a6e,
    0x1e8480, 0x1efe92, 0x1f78a4, 0x1ff2b6, 0x206cc8, 0x20e6da, 0x2160ec, 0x21dafe,
    0x225510, 0x22cf22, 0x234934, 0x23c346, 0x243d58, 0x24b76a, 0x25317c, 0x25ab8e,
    0x2625a0, 0x269fb2, 0x2719c4, 0x2793d6, 0x280de8, 0x2887fa, 0x29020c, 0x297c1e,
    0x29f630, 0x2a7042, 0x2aea54, 0x2b6466, 0x2bde78, 0x2c588a, 0x2cd29c, 0x2d4cae,
    0x2dc6c0, 0x2e40d2, 0x2ebae4, 0x2f34f6, 0x2faf08, 0x30291a, 0x30a32c, 0x311d3e,
    0x319750, 0x321162, 0x328b74, 0x330586, 0x337f98, 0x33f9aa, 0x3473bc, 0x34edce,
    0x3567e0, 0x35e1f2, 0x365c04, 0x36d616, 0x375028, 0x37ca3a, 0x38444c, 0x38be5e,
    0x393870, 0x39b282, 0x3a2c94, 0x3aa6a6, 0x3b20b8, 0x3b9aca, 0x3c14dc, 0x3c8eee,
    0x3d0900, 0x3d8312, 0x3dfd24, 0x3e7736, 0x3ef148, 0x3f6b5a, 0x3fe56c, 0x405f7e,
    0x40d990, 0x4153a2, 0x41cdb4, 0x4247c6, 0x42c1d8, 0x433bea, 0x43b5fc, 0x44300e,
    0x44aa20, 0x452432, 0x459e44, 0x461856, 0x469268, 0x470c7a, 0x47868c, 0x48009e,
    0x487ab0, 0x48f4c2, 0x496ed4, 0x49e8e6, 0x4a62f8, 0x4add0a, 0x4b571c, 0x4bd12e,
    0x4c4b40, 0x4cc552, 0x4d3f64, 0x4db976, 0x4e3388, 0x4ead9a, 0x4f27ac, 0x4fa1be,
    0x501bd0, 0x5095e2, 0x510ff4, 0x518a06, 0x520418, 0x527e2a, 0x52f83c, 0x53724e,
    0x53ec60, 0x546672, 0x54e084, 0x555a96, 0x55d4a8, 0x564eba, 0x56c8cc, 0x5742de,
    0x57bcf0, 0x583702, 0x58b114, 0x592b26, 0x59a538, 0x5a1f4a, 0x5a995c, 0x5b136e,
    0x5b8d80, 0x5c0792, 0x5c81a4, 0x5cfbb6, 0x5d75c8, 0x5defda, 0x5e69ec, 0x5ee3fe,
    0x5f5e10, 0x5fd822, 0x605234, 0x60cc46, 0x614658, 0x61c06a, 0x623a7c, 0x62b48e,
    0x632ea0, 0x63a8b2, 0x6422c4, 0x649cd6, 0x6516e8, 0x6590fa, 0x660b0c, 0x66851e,
    0x66ff30, 0x677942, 0x67f354, 0x686d66, 0x68e778, 0x69618a, 0x69db9c, 0x6a55ae,
    0x6acfc0, 0x6b49d2, 0x6bc3e4, 0x6c3df6, 0x6cb808, 0x6d321a, 0x6dac2c, 0x6e263e,
    0x6ea050, 0x6f1a62, 0x6f9474, 0x700e86, 0x708898, 0x7102aa, 0x717cbc, 0x71f6ce,
    0x7270e0, 0x72eaf2, 0x736504, 0x73df16, 0x745928, 0x74d33a, 0x754d4c, 0x75c75e,
    0x764170, 0x76bb82, 0x773594, 0x77afa6, 0x7829b8, 0x78a3ca, 0x791ddc, 0x7997ee]"

definition tstousmid :: "int list" where
  "tstousmid = [
    0x0, 0x7a, 0xf4, 0x16e, 0x1e8, 0x262, 0x2dc, 0x356,
    0x3d1, 0x44b, 0x4c5, 0x53f, 0x5b9, 0x633, 0x6ad, 0x727,
    0x7a1, 0x81b, 0x895, 0x90f, 0x989, 0xa03, 0xa7e, 0xaf8,
    0xb72, 0xbec, 0xc66, 0xce0, 0xd5a, 0xdd4, 0xe4e, 0xec8,
    0xf42, 0xfbc, 0x1036, 0x10b0, 0x112b, 0x11a5, 0x121f, 0x1299,
    0x1313, 0x138d, 0x1407, 0x1481, 0x14fb, 0x1575, 0x15ef, 0x1669,
    0x16e3, 0x175d, 0x17d8, 0x1852, 0x18cc, 0x1946, 0x19c0, 0x1a3a,
    0x1ab4, 0x1b2e, 0x1ba8, 0x1c22, 0x1c9c, 0x1d16, 0x1d90, 0x1e0a,
    0x1e84, 0x1eff, 0x1f79, 0x1ff3, 0x206d, 0x20e7, 0x2161, 0x21db,
    0x2255, 0x22cf, 0x2349, 0x23c3, 0x243d, 0x24b7, 0x2531, 0x25ac,
    0x2626, 0x26a0, 0x271a, 0x2794, 0x280e, 0x2888, 0x2902, 0x297c,
    0x29f6, 0x2a70, 0x2aea, 0x2b64, 0x2bde, 0x2c59, 0x2cd3, 0x2d4d,
    0x2dc7, 0x2e41, 0x2ebb, 0x2f35, 0x2faf, 0x3029, 0x30a3, 0x311d,
    0x3197, 0x3211, 0x328b, 0x3306, 0x3380, 0x33fa, 0x3474, 0x34ee,
    0x3568, 0x35e2, 0x365c, 0x36d6, 0x3750, 0x37ca, 0x3844, 0x38be,
    0x3938, 0x39b3, 0x3a2d, 0x3aa7, 0x3b21, 0x3b9b, 0x3c15, 0x3c8f,
    0x3d09, 0x3d83, 0x3dfd, 0x3e77, 0x3ef1, 0x3f6b, 0x3fe5, 0x405f,
    0x40da, 0x4154, 0x41ce, 0x4248, 0x42c2, 0x433c, 0x43b6, 0x4430,
    0x44aa, 0x4524, 0x459e, 0x4618, 0x4692, 0x470c, 0x4787, 0x4801,
    0x487b, 0x48f5, 0x496f, 0x49e9, 0x4a63, 0x4add, 0x4b57, 0x4bd1,
    0x4c4b, 0x4cc5, 0x4d3f, 0x4db9, 0x4e34, 0x4eae, 0x4f28, 0x4fa2,
    0x501c, 0x5096, 0x5110, 0x518a, 0x5204, 0x527e, 0x52f8, 0x5372,
    0x53ec, 0x5466, 0x54e1, 0x555b, 0x55d5, 0x564f, 0x56c9, 0x5743,
    0x57bd, 0x5837, 0x58b1, 0x592b, 0x59a5, 0x5a1f, 0x5a99, 0x5b13,
    0x5b8d, 0x5c08, 0x5c82, 0x5cfc, 0x5d76, 0x5df0, 0x5e6a, 0x5ee4,
    0x5f5e, 0x5fd8, 0x6052, 0x60cc, 0x6146, 0x61c0, 0x623a, 0x62b5,
    0x632f, 0x63a9, 0x6423, 0x649d, 0x6517, 0x6591, 0x660b, 0x6685,
    0x66ff, 0x6779, 0x67f3, 0x686d, 0x68e7, 0x6962, 0x69dc, 0x6a56,
    0x6ad0, 0x6b4a, 0x6bc4, 0x6c3e, 0x6cb8, 0x6d32, 0x6dac, 0x6e26,
    0x6ea0, 0x6f1a, 0x6f94, 0x700f, 0x7089, 0x7103, 0x717d, 0x71f7,
    0x7271, 0x72eb, 0x7365, 0x73df, 0x7459, 0x74d3, 0x754d, 0x75c7,
    0x7641, 0x76bc, 0x7736, 0x77b0, 0x782a, 0x78a4, 0x791e, 0x7998]"

definition tstouslo :: "int list" where
  "tstouslo = [
    0x0, 0x1, 0x2, 0x3, 0x4, 0x5, 0x6, 0x7,
    0x8, 0x9, 0xa, 0xa, 0xb, 0xc, 0xd, 0xe,
    0xf, 0x10, 0x11, 0x12, 0x13, 0x14, 0x15, 0x16,
    0x17, 0x18, 0x19, 0x1a, 0x1b, 0x1c, 0x1d, 0x1e,
    0x1f, 0x1f, 0x20, 0x21, 0x22, 0x23, 0x24, 0x25,
    0x26, 0x27, 0x28, 0x29, 0x2a, 0x2b, 0x2c, 0x2d,
    0x2e, 0x2f, 0x30, 0x31, 0x32, 0x33, 0x33, 0x34,
    0x35, 0x36, 0x37, 0x38, 0x39, 0x3a, 0x3b, 0x3c,
    0x3d, 0x3e, 0x3f, 0x40, 0x41, 0x42, 0x43, 0x44,
    0x45, 0x46, 0x47, 0x48, 0x48, 0x49, 0x4a, 0x4b,
    0x4c, 0x4d, 0x4e, 0x4f, 0x50, 0x51, 0x52, 0x53,
    0x54, 0x55, 0x56, 0x57, 0x58, 0x59, 0x5a, 0x5b,
    0x5c, 0x5c, 0x5d, 0x5e, 0x5f, 0x60, 0x61, 0x62,
    0x63, 0x64, 0x65, 0x66, 0x67, 0x68, 0x69, 0x6a,
    0x6b, 0x6c, 0x6d, 0x6e, 0x6f, 0x70, 0x71, 0x71,
    0x72, 0x73, 0x74, 0x75, 0x76, 0x77, 0x78, 0x79]"

definition msutotsflo :: "int list" where
  "msutotsflo = [
    0x0, 0x418937, 0x83126f, 0xc49ba6, 0x10624dd, 0x147ae14, 0x189374c, 0x1cac083,
    0x20c49ba, 0x24dd2f2, 0x28f5c29, 0x2d0e560, 0x3126e98, 0x353f7cf, 0x3958106, 0x3d70a3d,
    0x4189375, 0x45a1cac, 0x49ba5e3, 0x4dd2f1b, 0x51eb852, 0x5604189, 0x5a1cac1, 0x5e353f8,
    0x624dd2f, 0x6666666, 0x6a7ef9e, 0x6e978d5, 0x72b020c, 0x76c8b44, 0x7ae147b, 0x7ef9db2]"

definition msutotsfhi :: "int list" where
  "msutotsfhi = [
    0x0, 0x83126e9, 0x10624dd3, 0x189374bc, 0x20c49ba6, 0x28f5c28f, 0x3126e979, 0x39581062,
    0x4189374c, 0x49ba5e35, 0x51eb851f, 0x5a1cac08, 0x624dd2f2, 0x6a7ef9db, 0x72b020c5, 0x7ae147ae,
    0x83126e98, 0x8b439581, 0x9374bc6a, 0x9ba5e354, 0xa3d70a3d, 0xac083127, 0xb4395810, 0xbc6a7efa,
    0xc49ba5e3, 0xcccccccd, 0xd4fdf3b6, 0xdd2f1aa0, 0xe5604189, 0xed916873, 0xf5c28f5c, 0xfdf3b646]"

section \<open>The macros and functions\<close>

definition TVUTOTSF :: "int \<Rightarrow> int" where
  "TVUTOTSF tvu =
     ustotslo ! nat (tvu AND 0xff)
     + ustotsmid ! nat (drop_bit 8 tvu AND 0xff)
     + ustotshi ! nat (drop_bit 16 tvu AND 0xf)"

definition TV_SHIFT :: nat where
  "TV_SHIFT = 3"

definition TV_ROUNDBIT :: int where
  "TV_ROUNDBIT = 0x4"

definition TSFTOTVU :: "int \<Rightarrow> int" where
  "TSFTOTVU tsf = drop_bit TV_SHIFT
     (tstoushi ! nat (drop_bit 24 tsf AND 0xff)
      + tstousmid ! nat (drop_bit 16 tsf AND 0xff)
      + tstouslo ! nat (drop_bit 9 tsf AND 0x7f)
      + TV_ROUNDBIT)"

definition MSUTOTSF :: "int \<Rightarrow> int" where
  "MSUTOTSF msu = msutotsfhi ! nat (drop_bit 5 msu AND 0x1f) + msutotsflo ! nat (msu AND 0x1f)"

text \<open>A \<open>struct timeval\<close>: seconds and microseconds, two \<open>long\<close>s.\<close>

record timeval =
  tv_secs :: int
  tv_usec :: int

definition TVTOTS :: "timeval \<Rightarrow> l_fp" where
  "TVTOTS tv = \<lparr>l_ui = word_of_int (tv_secs tv), l_uf = word_of_int (TVUTOTSF (tv_usec tv))\<rparr>"

definition sTVTOTS :: "timeval \<Rightarrow> l_fp" where
  "sTVTOTS tv =
     (let sec = word_of_int (tv_secs tv); usec = tv_usec tv
      in if tv_secs tv < 0 \<or> tv_usec tv < 0
         then L_NEG \<lparr>l_ui = - sec, l_uf = word_of_int (TVUTOTSF (- usec))\<rparr>
         else \<lparr>l_ui = sec, l_uf = word_of_int (TVUTOTSF usec)\<rparr>)"

definition TSTOTV :: "l_fp \<Rightarrow> timeval" where
  "TSTOTV ts =
     (let sec = uint (l_ui ts); usec = TSFTOTVU (uint (l_uf ts))
      in if usec = 1000000 then \<lparr>tv_secs = sec + 1, tv_usec = 0\<rparr> else \<lparr>tv_secs = sec, tv_usec = usec\<rparr>)"

text \<open>The seconds are stored before the microseconds are looked at; the flag is the result.\<close>

definition buftvtots :: "timeval \<Rightarrow> l_fp \<Rightarrow> bool \<times> l_fp" where
  "buftvtots tv ts =
     (let ts = ts\<lparr>l_ui := word_of_int (tv_secs tv + 2208988800)\<rparr>
      in if tv_usec tv > 999999 then (False, ts)
         else (True, ts\<lparr>l_uf := word_of_int (TVUTOTSF (tv_usec tv))\<rparr>))"

text \<open>One round of the loop multiplies by ten, in registers of 64 bits.\<close>

definition times_ten :: "u64 \<times> u64 \<Rightarrow> u64 \<times> u64" where
  "times_ten v =
     (let (val_ui, val_uf) = M_LSHIFT (fst v) (snd v);
          (tmp_ui, tmp_uf) = (val_ui, val_uf);
          (val_ui, val_uf) = M_LSHIFT val_ui val_uf;
          (val_ui, val_uf) = M_LSHIFT val_ui val_uf
      in M_ADD val_ui val_uf tmp_ui tmp_uf)"

definition tsftomsu :: "u64 \<Rightarrow> bool \<Rightarrow> int" where
  "tsftomsu tsf round =
     (let (val_ui, val_uf) = times_ten (times_ten (times_ten (0, tsf)))
      in sint (ucast (if round \<and> val_uf AND 0x80000000 \<noteq> 0 then val_ui + 1 else val_ui) :: u32))"

section \<open>The tables against what they stand for\<close>

text \<open>No entry is negative, and entry \<open>i\<close> differs from \<open>i * num / den\<close> by at least \<open>- lo / den\<close> and at most \<open>hi / den\<close>.\<close>

fun entries_within :: "int \<Rightarrow> int \<Rightarrow> int \<Rightarrow> int \<Rightarrow> int \<Rightarrow> int list \<Rightarrow> bool" where
  "entries_within i lo hi num den [] \<longleftrightarrow> True"
| "entries_within i lo hi num den (v # tab) \<longleftrightarrow>
     0 \<le> v \<and> - lo \<le> v * den - i * num \<and> v * den - i * num \<le> hi \<and> entries_within (i + 1) lo hi num den tab"

definition table_within :: "int \<Rightarrow> int \<Rightarrow> int \<Rightarrow> int \<Rightarrow> int list \<Rightarrow> bool" where
  "table_within = entries_within 0"

lemma entries_withinD:
  "entries_within k lo hi num den tab \<Longrightarrow> i < length tab \<Longrightarrow>
     - lo \<le> tab ! i * den - (k + int i) * num \<and> tab ! i * den - (k + int i) * num \<le> hi \<and> 0 \<le> tab ! i"
proof (induction tab arbitrary: k i)
  case (Cons v tab)
  then show ?case using Cons.IH[of "k + 1" "i - 1"] by (cases i) (simp_all add: algebra_simps)
qed simp

lemma table_withinD:
  assumes "table_within lo hi num den tab" "i < length tab"
  shows "- lo \<le> tab ! i * den - int i * num" "tab ! i * den - int i * num \<le> hi" "0 \<le> tab ! i"
  using entries_withinD[of 0 lo hi num den tab i] assms by (simp_all add: table_within_def)

lemma ustots_tables:
  "table_within 510784 490560 (2 ^ 32) (10 ^ 6) ustotslo" "length ustotslo = 256"
  "table_within 6571776 372224 (2 ^ 40) (10 ^ 6) ustotsmid" "length ustotsmid = 256"
  "table_within 94659840 0 (2 ^ 48) (10 ^ 6) ustotshi" "length ustotshi = 16"
  by (simp_all add: table_within_def ustotslo_def ustotsmid_def ustotshi_def)

lemma tstous_tables:
  "table_within 0 0 (8 * 10 ^ 6 * 2 ^ 24) (2 ^ 32) tstoushi" "length tstoushi = 256"
  "table_within (2 ^ 31) (2 ^ 31) (8 * 10 ^ 6 * 2 ^ 16) (2 ^ 32) tstousmid" "length tstousmid = 256"
  "table_within 2175008768 (2 ^ 31) (8 * 10 ^ 6 * 2 ^ 9) (2 ^ 32) tstouslo" "length tstouslo = 128"
  by (simp_all add: table_within_def tstoushi_def tstousmid_def tstouslo_def)

lemma msutots_tables:
  "table_within 500 500 (2 ^ 32) 1000 msutotsflo" "length msutotsflo = 32"
  "table_within 500 500 (2 ^ 37) 1000 msutotsfhi" "length msutotsfhi = 32"
  by (simp_all add: table_within_def msutotsflo_def msutotsfhi_def)

lemma and_mod: "x AND 0xff = x mod 256" "x AND 0xf = x mod 16" "x AND 0x7f = x mod 128" "x AND 0x1f = x mod 32" for x :: int
  using take_bit_eq_mask[of 8 x] take_bit_eq_mask[of 4 x] take_bit_eq_mask[of 7 x] take_bit_eq_mask[of 5 x]
  by (simp_all add: take_bit_eq_mod mask_eq_exp_minus_1)

text \<open>An entry as an index into its table and the entry, for the arithmetic on sums of entries.\<close>

lemma table_entry:
  assumes "table_within lo hi num den tab" "length tab = n" "0 < n"
  obtains v where "tab ! nat (x mod int n) = v" "- lo \<le> v * den - x mod int n * num" "v * den - x mod int n * num \<le> hi" "0 \<le> v"
proof -
  have "0 \<le> x mod int n" "nat (x mod int n) < length tab" using assms(2,3) by (simp_all add: nat_less_iff)
  then show ?thesis
    using that[OF refl] table_withinD[OF assms(1), of "nat (x mod int n)"] by simp
qed

section \<open>Microseconds\<close>

text \<open>The sum of the entries of one microsecond value, scaled by a million.\<close>

lemma TVUTOTSF_entries:
  assumes "0 \<le> u" "u < 2 ^ 20"
  shows "0 \<le> TVUTOTSF u \<and> - 101742400 \<le> TVUTOTSF u * 10 ^ 6 - u * 2 ^ 32 \<and> TVUTOTSF u * 10 ^ 6 - u * 2 ^ 32 \<le> 862784"
proof -
  define a b c where "a = u mod 256" and "b = u div 256 mod 256" and "c = u div 65536 mod 16"
  have "u div 65536 = u div 256 div 256" by (simp flip: zdiv_zmult2_eq)
  then have c: "c = u div 256 div 256" using assms by (simp add: c_def)
  have u: "u = a + 256 * b + 65536 * c"
    using mult_div_mod_eq[of 256 u] mult_div_mod_eq[of 256 "u div 256"] unfolding c a_def b_def by linarith
  obtain v1 where 1: "ustotslo ! nat a = v1" "- 510784 \<le> v1 * 10 ^ 6 - a * 2 ^ 32" "v1 * 10 ^ 6 - a * 2 ^ 32 \<le> 490560" "0 \<le> v1"
    using table_entry[OF ustots_tables(1,2), of u] unfolding a_def by auto
  obtain v2 where 2: "ustotsmid ! nat b = v2" "- 6571776 \<le> v2 * 10 ^ 6 - b * 2 ^ 40" "v2 * 10 ^ 6 - b * 2 ^ 40 \<le> 372224" "0 \<le> v2"
    using table_entry[OF ustots_tables(3,4), of "u div 256"] unfolding b_def by auto
  obtain v3 where 3: "ustotshi ! nat c = v3" "- 94659840 \<le> v3 * 10 ^ 6 - c * 2 ^ 48" "v3 * 10 ^ 6 - c * 2 ^ 48 \<le> 0" "0 \<le> v3"
    using table_entry[OF ustots_tables(5,6), of "u div 65536"] unfolding c_def by auto
  have "TVUTOTSF u = v1 + v2 + v3"
    by (simp add: TVUTOTSF_def and_mod drop_bit_eq_div flip: 1(1) 2(1) 3(1) a_def b_def c_def)
  then show ?thesis using 1(2-) 2(2-) 3(2-) u by simp
qed

lemmas TVUTOTSF_error = TVUTOTSF_entries[THEN conjunct2, THEN conjunct1] TVUTOTSF_entries[THEN conjunct2, THEN conjunct2]

lemma TVUTOTSF_range:
  assumes "0 \<le> u" "u < 10 ^ 6"
  shows "0 \<le> TVUTOTSF u" "TVUTOTSF u < 2 ^ 32"
  using TVUTOTSF_entries[of u] assms by simp_all

text \<open>The comment promises a bit and a half; the tables are off by up to 97 bits.\<close>

lemma TVUTOTSF_off_by_97: "97 * 10 ^ 6 < 999141 * 2 ^ 32 - TVUTOTSF 999141 * 10 ^ 6"
  by code_simp

text \<open>The units of the other direction are eighths of a microsecond.\<close>

lemma TSFTOTVU_sum:
  assumes "0 \<le> f" "f < 2 ^ 32"
  obtains S where "TSFTOTVU f = (S + 4) div 8"
    "- 8410492416 \<le> S * 2 ^ 32 - 8 * 10 ^ 6 * f" "S * 2 ^ 32 - 8 * 10 ^ 6 * f \<le> 2 ^ 32"
proof -
  define a b c d where "a = f div 2 ^ 24 mod 256" and "b = f div 2 ^ 16 mod 256" and "c = f div 2 ^ 9 mod 128" and "d = f mod 512"
  have e: "f div 2 ^ 16 = f div 512 div 128" "f div 2 ^ 24 = f div 512 div 128 div 256" "f div 2 ^ 9 = f div 512"
    by (simp_all flip: zdiv_zmult2_eq)
  have "f div 2 ^ 24 < 256" "0 \<le> f div 2 ^ 24" using assms by simp_all
  then have a: "a = f div 512 div 128 div 256" unfolding a_def e(2) by simp
  have f: "f = 16777216 * a + 65536 * b + 512 * c + d"
    using mult_div_mod_eq[of 512 f] mult_div_mod_eq[of 128 "f div 512"] mult_div_mod_eq[of 256 "f div 512 div 128"]
    unfolding a b_def c_def d_def e by linarith
  have d: "0 \<le> d" "d \<le> 511" unfolding d_def using pos_mod_bound[of 512 f] by simp_all
  obtain v1 where 1: "tstoushi ! nat a = v1" "0 \<le> v1 * 2 ^ 32 - a * (8 * 10 ^ 6 * 2 ^ 24)" "v1 * 2 ^ 32 - a * (8 * 10 ^ 6 * 2 ^ 24) \<le> 0"
    using table_entry[OF tstous_tables(1,2), of "f div 2 ^ 24"] unfolding a_def by auto
  obtain v2 where 2: "tstousmid ! nat b = v2" "- (2 ^ 31) \<le> v2 * 2 ^ 32 - b * (8 * 10 ^ 6 * 2 ^ 16)" "v2 * 2 ^ 32 - b * (8 * 10 ^ 6 * 2 ^ 16) \<le> 2 ^ 31"
    using table_entry[OF tstous_tables(3,4), of "f div 2 ^ 16"] unfolding b_def by auto
  obtain v3 where 3: "tstouslo ! nat c = v3" "- 2175008768 \<le> v3 * 2 ^ 32 - c * (8 * 10 ^ 6 * 2 ^ 9)" "v3 * 2 ^ 32 - c * (8 * 10 ^ 6 * 2 ^ 9) \<le> 2 ^ 31"
    using table_entry[OF tstous_tables(5,6), of "f div 2 ^ 9"] unfolding c_def by auto
  show ?thesis
  proof (rule that[of "v1 + v2 + v3"])
    show "TSFTOTVU f = (v1 + v2 + v3 + 4) div 8"
      by (simp add: TSFTOTVU_def TV_SHIFT_def TV_ROUNDBIT_def and_mod drop_bit_eq_div
          flip: 1(1) 2(1) 3(1) a_def[simplified] b_def[simplified] c_def[simplified])
    show "- 8410492416 \<le> (v1 + v2 + v3) * 2 ^ 32 - 8 * 10 ^ 6 * f" "(v1 + v2 + v3) * 2 ^ 32 - 8 * 10 ^ 6 * f \<le> 2 ^ 32"
      using 1(2-) 2(2-) 3(2-) f d by simp_all
  qed
qed

text \<open>C36: Microseconds below a million become a time stamp fraction by three table entries and come back from it by three others without change, although the fraction is off by up to 97 of its units.\<close>

theorem microseconds_round_trip:
  assumes "0 \<le> u" "u < 10 ^ 6"
  shows "TSFTOTVU (TVUTOTSF u) = u \<and> 0 \<le> TVUTOTSF u \<and> TVUTOTSF u < 2 ^ 32"
proof -
  note r = TVUTOTSF_range[OF assms]
  obtain S where S: "TSFTOTVU (TVUTOTSF u) = (S + 4) div 8"
    "- 8410492416 \<le> S * 2 ^ 32 - 8 * 10 ^ 6 * TVUTOTSF u" "S * 2 ^ 32 - 8 * 10 ^ 6 * TVUTOTSF u \<le> 2 ^ 32"
    using TSFTOTVU_sum[OF r] by blast
  have "8 * u \<le> S + 4" "S + 4 < 8 * u + 8"
    using S(2,3) TVUTOTSF_error[of u] assms by simp_all
  then have "(S + 4) div 8 = u" by presburger
  then show ?thesis using r by (simp add: S(1))
qed

lemma microseconds_round_trip_witness: "TSFTOTVU (TVUTOTSF 999141) = 999141 \<and> 0 \<le> TVUTOTSF 999141 \<and> TVUTOTSF 999141 < 2 ^ 32"
  by (rule microseconds_round_trip) simp_all

text \<open>A time stamp as a \<open>timeval\<close> is in normal form and less than a microsecond off.\<close>

lemma TSTOTV_normal:
  "0 \<le> tv_usec (TSTOTV ts) \<and> tv_usec (TSTOTV ts) < 10 ^ 6 \<and>
   \<bar>(tv_secs (TSTOTV ts) * 10 ^ 6 + tv_usec (TSTOTV ts)) * 2 ^ 32 - (uint (l_ui ts) * 2 ^ 32 + uint (l_uf ts)) * 10 ^ 6\<bar> < 2 ^ 32"
proof -
  define f where "f = uint (l_uf ts)"
  have f: "0 \<le> f" "f < 2 ^ 32" unfolding f_def by (rule uint_u32)+
  obtain S where S: "TSFTOTVU f = (S + 4) div 8"
    "- 8410492416 \<le> S * 2 ^ 32 - 8 * 10 ^ 6 * f" "S * 2 ^ 32 - 8 * 10 ^ 6 * f \<le> 2 ^ 32"
    using TSFTOTVU_sum[OF f] by blast
  define u where "u = (S + 4) div 8"
  have u: "8 * u \<le> S + 4" "S + 4 < 8 * u + 8" unfolding u_def by presburger+
  have b: "0 \<le> u" "u \<le> 10 ^ 6" "u * 2 ^ 32 - f * 10 ^ 6 < 2 ^ 32" "- (2 ^ 32) < u * 2 ^ 32 - f * 10 ^ 6"
    using S(2,3) f u by simp_all
  show ?thesis
    unfolding TSTOTV_def f_def[symmetric] S(1) u_def[symmetric] Let_def using b by (auto simp: algebra_simps abs_if)
qed

section \<open>Milliseconds\<close>

lemma MSUTOTSF_error:
  assumes "0 \<le> m" "m < 1000"
  shows "0 \<le> MSUTOTSF m \<and> MSUTOTSF m < 2 ^ 32 \<and> \<bar>MSUTOTSF m * 1000 - m * 2 ^ 32\<bar> \<le> 1000"
proof -
  define a b where "a = m mod 32" and "b = m div 32 mod 32"
  have m: "m = a + 32 * b" using assms mult_div_mod_eq[of 32 m] unfolding a_def b_def by simp
  obtain v1 where 1: "msutotsflo ! nat a = v1" "- 500 \<le> v1 * 1000 - a * 2 ^ 32" "v1 * 1000 - a * 2 ^ 32 \<le> 500" "0 \<le> v1"
    using table_entry[OF msutots_tables(1,2), of m] unfolding a_def by auto
  obtain v2 where 2: "msutotsfhi ! nat b = v2" "- 500 \<le> v2 * 1000 - b * 2 ^ 37" "v2 * 1000 - b * 2 ^ 37 \<le> 500" "0 \<le> v2"
    using table_entry[OF msutots_tables(3,4), of "m div 32"] unfolding b_def by auto
  have "MSUTOTSF m = v1 + v2"
    by (simp add: MSUTOTSF_def and_mod drop_bit_eq_div flip: 1(1) 2(1) a_def b_def)
  then show ?thesis using 1(2-) 2(2-) m assms by (auto simp: abs_le_iff)
qed

lemma uint_u64: "0 \<le> uint (x :: u64)" "uint (x :: u64) < 2 ^ 64"
  using uint_bounded[of x] by simp_all

text \<open>The value of a pair of registers counts only the low half of the fraction.\<close>

definition pair_val :: "u64 \<times> u64 \<Rightarrow> int" where
  "pair_val v = uint (fst v) * 2 ^ 32 + uint (snd v) mod 2 ^ 32"

lemma low_half: "uint (ucast (f :: u64) :: u32) = uint f mod 2 ^ 32"
  by (simp add: word_to_int)

lemma bit31_low: "bit (f :: u64) 31 \<longleftrightarrow> 2 ^ 32 \<le> 2 * (uint f mod 2 ^ 32)"
proof -
  have "bit f 31 \<longleftrightarrow> bit (ucast f :: u32) 31" by (simp add: bit_simps)
  then show ?thesis by (simp add: bit31_carry low_half)
qed

lemma M_LSHIFT_val:
  fixes i f :: u64
  assumes "uint i < 2 ^ 40"
  shows "pair_val (M_LSHIFT i f) = 2 * pair_val (i, f)" "uint (fst (M_LSHIFT i f)) \<le> 2 * uint i + 1"
proof -
  define m where "m = uint f mod 2 ^ 32"
  have "uint (push_bit 1 f) mod 2 ^ 32 = (uint f * 2) mod 2 ^ 32"
    using mod_mod_cancel[of "2 ^ 32" "2 ^ 64" "uint f * 2"] by (subst uint_push_bit) simp
  also have "\<dots> = (2 * m) mod 2 ^ 32" by (simp add: m_def mod_mult_right_eq mult.commute)
  also have "\<dots> = 2 * m - of_bool (2 ^ 32 \<le> 2 * m) * 2 ^ 32"
    by (subst mod_once) (simp_all add: m_def)
  finally have f: "uint (push_bit 1 f) mod 2 ^ 32 = 2 * m - of_bool (2 ^ 32 \<le> 2 * m) * 2 ^ 32" .
  have "M_LSHIFT i f = (i + i + of_bool (2 ^ 32 \<le> 2 * m), push_bit 1 f)"
    unfolding M_LSHIFT_def Let_def and_80000000 bit31_low m_def[symmetric] push1_or by (simp add: push_bit_eq_mult mult_2_right)
  then have i: "uint (fst (M_LSHIFT i f)) = 2 * uint i + of_bool (2 ^ 32 \<le> 2 * m)" "snd (M_LSHIFT i f) = push_bit 1 f"
    using assms by (simp_all add: uint_word_ariths)
  show "pair_val (M_LSHIFT i f) = 2 * pair_val (i, f)"
    unfolding pair_val_def i f fst_conv snd_conv m_def[symmetric] by simp
  show "uint (fst (M_LSHIFT i f)) \<le> 2 * uint i + 1" unfolding i by simp
qed

lemma M_ADD_u64:
  "M_ADD (i :: u64) (f :: u64) j g =
     (i + j + of_bool (2 ^ 32 \<le> uint f mod 2 ^ 32 + uint g mod 2 ^ 32), ucast (ucast f + ucast g :: u32))"
proof -
  have h: "ucast (x AND 0xffff) = (ucast x AND 0xffff :: u32)" for x :: u64
    unfolding and_ffff by (rule bit_eqI) (auto simp: bit_simps)
  have h2: "ucast (drop_bit 16 x AND 0xffff) = (drop_bit 16 (ucast x :: u32) AND 0xffff)" for x :: u64
    unfolding and_ffff by (rule bit_eqI) (auto simp: bit_simps)
  have "M_ADD i f j g = (i + j + of_bool (fst (add_halves (ucast f) (ucast g) False)), ucast (snd (add_halves (ucast f) (ucast g) False)))"
    unfolding M_ADD_def h2 unfolding h by (simp add: add_halves_def Let_def and_10000)
  then show ?thesis by (simp add: add_halves low_half)
qed

lemma M_ADD_val:
  fixes i f j g :: u64
  assumes "uint i < 2 ^ 40" "uint j < 2 ^ 40"
  shows "pair_val (M_ADD i f j g) = pair_val (i, f) + pair_val (j, g)" "uint (fst (M_ADD i f j g)) \<le> uint i + uint j + 1"
    "uint (snd (M_ADD i f j g)) < 2 ^ 32"
proof -
  define m n where "m = uint f mod 2 ^ 32" and "n = uint g mod 2 ^ 32"
  have i: "uint (fst (M_ADD i f j g)) = uint i + uint j + of_bool (2 ^ 32 \<le> m + n)"
    using assms by (simp add: M_ADD_u64 m_def n_def uint_word_ariths)
  have s: "uint (snd (M_ADD i f j g)) = (m + n) mod 2 ^ 32"
    by (simp add: M_ADD_u64 word_to_int uint_word_ariths m_def n_def)
  then have f: "uint (snd (M_ADD i f j g)) = m + n - of_bool (2 ^ 32 \<le> m + n) * 2 ^ 32"
    by (subst (asm) mod_once) (simp_all add: m_def n_def)
  have r: "0 \<le> (m + n) mod 2 ^ 32" "(m + n) mod 2 ^ 32 < 2 ^ 32" by simp_all
  then show "uint (snd (M_ADD i f j g)) < 2 ^ 32" by (simp only: s)
  have "uint (snd (M_ADD i f j g)) mod 2 ^ 32 = uint (snd (M_ADD i f j g))" by (simp only: s mod_mod_trivial)
  then show "pair_val (M_ADD i f j g) = pair_val (i, f) + pair_val (j, g)"
    by (simp only: pair_val_def i f fst_conv snd_conv m_def[symmetric] n_def[symmetric]) simp
  show "uint (fst (M_ADD i f j g)) \<le> uint i + uint j + 1" by (simp add: i)
qed

lemma times_ten_val:
  assumes "uint (fst v) < 2 ^ 20"
  shows "pair_val (times_ten v) = 10 * pair_val v" "uint (fst (times_ten v)) \<le> 10 * uint (fst v) + 11"
    "uint (snd (times_ten v)) < 2 ^ 32"
proof -
  define a where "a = M_LSHIFT (fst v) (snd v)"
  define b where "b = M_LSHIFT (fst a) (snd a)"
  define c where "c = M_LSHIFT (fst b) (snd b)"
  have t: "times_ten v = M_ADD (fst c) (snd c) (fst a) (snd a)"
    by (simp add: times_ten_def a_def b_def c_def split: prod.split)
  have a: "pair_val a = 2 * pair_val v" "uint (fst a) \<le> 2 * uint (fst v) + 1"
    using M_LSHIFT_val[of "fst v" "snd v"] assms by (simp_all add: a_def)
  have b: "pair_val b = 2 * pair_val a" "uint (fst b) \<le> 2 * uint (fst a) + 1"
    using M_LSHIFT_val[of "fst a" "snd a"] assms a(2) by (simp_all add: b_def)
  have c: "pair_val c = 2 * pair_val b" "uint (fst c) \<le> 2 * uint (fst b) + 1"
    using M_LSHIFT_val[of "fst b" "snd b"] assms a(2) b(2) by (simp_all add: c_def)
  have "uint (fst c) < 2 ^ 40" "uint (fst a) < 2 ^ 40" using assms a(2) b(2) c(2) by simp_all
  note m = M_ADD_val[OF this, of "snd c" "snd a"]
  show "pair_val (times_ten v) = 10 * pair_val v" using m(1) a(1) b(1) c(1) by (simp add: t)
  show "uint (fst (times_ten v)) \<le> 10 * uint (fst v) + 11" using m(2) a(2) b(2) c(2) by (simp add: t)
  show "uint (snd (times_ten v)) < 2 ^ 32" using m(3) by (simp add: t)
qed

text \<open>Milliseconds of a fraction, cut off or rounded.\<close>

lemma tsftomsu_correct:
  assumes "uint f < 2 ^ 32"
  shows "tsftomsu f round = (if round then (uint f * 1000 + 2 ^ 31) div 2 ^ 32 else uint f * 1000 div 2 ^ 32)"
proof -
  define v where "v = times_ten (times_ten (times_ten (0, f)))"
  have 0: "pair_val (0, f) = uint f" using assms by (simp add: pair_val_def)
  note 1 = times_ten_val[of "(0, f)"]
  then have 2: "uint (fst (times_ten (0, f))) < 2 ^ 20" by simp
  note 3 = times_ten_val[OF 2]
  then have 4: "uint (fst (times_ten (times_ten (0, f)))) < 2 ^ 20" using 1(2) by simp
  note 5 = times_ten_val[OF 4]
  have p: "pair_val v = 1000 * uint f" using 0 1(1) 3(1) 5(1) by (simp add: v_def)
  have v: "uint (fst v) * 2 ^ 32 + uint (snd v) = 1000 * uint f" "uint (snd v) < 2 ^ 32"
    using p 5(3) by (simp_all add: pair_val_def v_def[symmetric])
  define i where "i = uint (fst v)"
  define h :: int where "h = of_bool (2 ^ 31 \<le> uint (snd v))"
  have "i < 1000" using v[simplified] assms[simplified] uint_u64(1)[of "snd v"] unfolding i_def by linarith
  then have ib: "i < 1000" "0 \<le> i" by (simp_all add: i_def)
  have d: "uint f * 1000 div 2 ^ 32 = i"
    using v uint_u64(1)[of "snd v"] by (intro int_div_pos_eq[where r = "uint (snd v)"]) (simp_all add: i_def)
  have e: "(uint f * 1000 + 2 ^ 31) div 2 ^ 32 = i + h"
    using v uint_u64(1)[of "snd v"]
    by (intro int_div_pos_eq[where r = "uint (snd v) + 2 ^ 31 - h * 2 ^ 32"]) (auto simp: i_def h_def)
  have b: "snd v AND 0x80000000 \<noteq> 0 \<longleftrightarrow> 2 ^ 31 \<le> uint (snd v)"
    using v(2) by (simp add: and_80000000 bit31_low)
  have s: "sint (ucast (x :: u64) :: u32) = uint x" if "uint x < 2 ^ 31" for x
    using that uint_u64(1)[of x] by (simp add: sint_u32_if word_to_int)
  have u: "uint (fst v + 1) = i + 1" using ib by (simp add: uint_word_ariths i_def)
  show ?thesis
    unfolding tsftomsu_def v_def[symmetric] prod.case_eq_if d e using ib u b
    by (auto simp: h_def i_def s)
qed

text \<open>Every millisecond comes back.\<close>

lemma milliseconds_round_trip:
  assumes "0 \<le> m" "m < 1000"
  shows "tsftomsu (word_of_int (MSUTOTSF m)) True = m"
proof -
  note e = MSUTOTSF_error[OF assms]
  have u: "uint (word_of_int (MSUTOTSF m) :: u64) = MSUTOTSF m"
    using e by (simp add: uint_word_of_int)
  have "tsftomsu (word_of_int (MSUTOTSF m)) True = (MSUTOTSF m * 1000 + 2 ^ 31) div 2 ^ 32"
    using tsftomsu_correct[of "word_of_int (MSUTOTSF m)" True] e unfolding u by simp
  also have "\<dots> = m"
    using e by (intro int_div_pos_eq[where r = "MSUTOTSF m * 1000 + 2 ^ 31 - m * 2 ^ 32"]) auto
  finally show ?thesis .
qed

end
