(* ===== verification/NtpNumbers.thy ===== *)
theory NtpNumbers
  imports CStrings
begin

text \<open>
  Integers in text: ntpdist/libntp/uinttoa.c, inttoa.c, atouint.c, atoint.c, octtoint.c, hextoint.c, numtoa.c
  and modetoa.c. The four readers are one loop over the characters with their own test for a digit, for
  overflow and their own step; the locale \<open>number_scan\<close> is what the three have to satisfy for the loop to
  accept exactly the numbers below a limit, and each reader interprets it. A result of \<^const>\<open>None\<close> is
  the return value 0, which leaves the output alone.
\<close>

section \<open>Reading\<close>

fun scan_loop :: "(char \<Rightarrow> bool) \<Rightarrow> (u64 \<Rightarrow> char \<Rightarrow> bool) \<Rightarrow> (u64 \<Rightarrow> char \<Rightarrow> u64) \<Rightarrow> u64 \<Rightarrow> string \<Rightarrow> u64 option" where
  "scan_loop valid over step u [] = Some u"
| "scan_loop valid over step u (c # cs) =
     (if \<not> valid c then None else if over u c then None else scan_loop valid over step (step u c) cs)"

definition chr_ge :: "char \<Rightarrow> char \<Rightarrow> bool" where
  "chr_ge c d \<longleftrightarrow> (of_char c :: nat) \<ge> of_char d"

definition atouint_over :: "u64 \<Rightarrow> char \<Rightarrow> bool" where
  "atouint_over u c \<longleftrightarrow> u > 429496729 \<or> (u = 429496729 \<and> chr_ge c (CHR ''6''))"

definition dec_step :: "u64 \<Rightarrow> char \<Rightarrow> u64" where
  "dec_step u c = push_bit 3 u + push_bit 1 u + of_nat (digit_val c)"

definition atouint :: "string \<Rightarrow> u64 option" where
  "atouint str = (if str = [] then None else scan_loop c_isdigit atouint_over dec_step 0 str)"

text \<open>\<open>u\<close> is a \<open>long\<close> here: the comparison is signed.\<close>

definition atoint_over :: "char \<Rightarrow> u64 \<Rightarrow> char \<Rightarrow> bool" where
  "atoint_over oflow_digit u c \<longleftrightarrow> sint u > 214748364 \<or> (u = 214748364 \<and> \<not> chr_ge oflow_digit c)"

definition atoint :: "string \<Rightarrow> u64 option" where
  "atoint str =
     (let (isneg, oflow_digit, cp) =
        (case str of [] \<Rightarrow> (False, CHR ''7'', [])
         | c # cs \<Rightarrow> if c = CHR ''-'' then (True, CHR ''8'', cs) else (False, CHR ''7'', str))
      in if cp = [] then None
         else map_option (\<lambda>u. if isneg then - u else u) (scan_loop c_isdigit (atoint_over oflow_digit) dec_step 0 cp))"

definition oct_digit :: "char \<Rightarrow> bool" where
  "oct_digit c \<longleftrightarrow> c_isdigit c \<and> c \<noteq> CHR ''8'' \<and> c \<noteq> CHR ''9''"

definition octtoint :: "string \<Rightarrow> u64 option" where
  "octtoint str = (if str = [] then None
     else scan_loop oct_digit (\<lambda>u c. u \<ge> 0x20000000) (\<lambda>u c. push_bit 3 u + of_nat (digit_val c)) 0 str)"

definition c_isxdigit :: "char \<Rightarrow> bool" where
  "c_isxdigit c \<longleftrightarrow> c_isdigit c \<or> (chr_ge c (CHR ''a'') \<and> chr_ge (CHR ''f'') c) \<or> (chr_ge c (CHR ''A'') \<and> chr_ge (CHR ''F'') c)"

definition xdigit_val :: "char \<Rightarrow> nat" where
  "xdigit_val c =
     (if chr_ge c (CHR ''0'') \<and> chr_ge (CHR ''9'') c then of_char c - of_char (CHR ''0'')
      else if chr_ge c (CHR ''a'') \<and> chr_ge (CHR ''f'') c then of_char c - of_char (CHR ''a'') + 10
      else of_char c - of_char (CHR ''A'') + 10)"

definition hextoint :: "string \<Rightarrow> u64 option" where
  "hextoint str = (if str = [] then None
     else scan_loop c_isxdigit (\<lambda>u c. u AND 0xF0000000 \<noteq> 0) (\<lambda>u c. push_bit 4 u + of_nat (xdigit_val c)) 0 str)"

section \<open>Printing\<close>

definition uinttoa :: "u64 \<Rightarrow> string" where
  "uinttoa uval = dec_str (unat uval)"

definition inttoa :: "u64 \<Rightarrow> string" where
  "inttoa val = fmt_d (sint val)"

text \<open>\<open>ntohl\<close> on a little-endian machine.\<close>

definition ntohl :: "u32 \<Rightarrow> u32" where
  "ntohl x = push_bit 24 x OR (push_bit 8 x AND 0xff0000) OR (drop_bit 8 x AND 0xff00) OR drop_bit 24 x"

definition numtoa :: "u32 \<Rightarrow> string" where
  "numtoa num =
     (let netnum = ntohl num; byte = (\<lambda>n. dec_str (unat (drop_bit n (ucast netnum :: u64) AND 0xff)))
      in byte 24 @ ''.'' @ byte 16 @ ''.'' @ byte 8 @ ''.'' @ byte 0)"

definition modestrings :: "string list" where
  "modestrings = [''unspec'', ''sym_active'', ''sym_passive'', ''client'', ''server'', ''broadcast'', ''control'', ''private'', ''bclient'']"

definition modetoa :: "int \<Rightarrow> string" where
  "modetoa mode = (if mode < 0 \<or> mode \<ge> int (length modestrings) then ''mode#'' @ fmt_d mode else modestrings ! nat mode)"

section \<open>Which numbers are accepted\<close>

definition base_val :: "(char \<Rightarrow> nat) \<Rightarrow> nat \<Rightarrow> nat \<Rightarrow> string \<Rightarrow> nat" where
  "base_val digit base a s = foldl (\<lambda>a c. base * a + digit c) a s"

lemma base_val_simps [simp]:
  "base_val digit base a [] = a"
  "base_val digit base a (c # s) = base_val digit base (base * a + digit c) s"
  by (simp_all add: base_val_def)

lemma base_val_ge: "0 < base \<Longrightarrow> a \<le> base_val digit base a s"
proof (induction s arbitrary: a)
  case (Cons c s)
  have "a \<le> base * a + digit c" using Cons.prems by (simp add: trans_le_add1)
  then show ?case using Cons.IH[OF Cons.prems, of "base * a + digit c"] by simp
qed simp

lemma base_val_10: "base_val digit_val 10 0 s = dec_val s"
  by (simp add: base_val_def dec_val_def)

locale number_scan =
  fixes valid :: "char \<Rightarrow> bool" and over :: "u64 \<Rightarrow> char \<Rightarrow> bool" and step :: "u64 \<Rightarrow> char \<Rightarrow> u64"
    and digit :: "char \<Rightarrow> nat" and base limit :: nat
  assumes base_pos: "0 < base"
    and over_iff: "valid c \<Longrightarrow> unat u < limit \<Longrightarrow> over u c \<longleftrightarrow> limit \<le> base * unat u + digit c"
    and step_val: "valid c \<Longrightarrow> unat u < limit \<Longrightarrow> \<not> over u c \<Longrightarrow> unat (step u c) = base * unat u + digit c"
begin

lemma scan_loop_correct:
  "unat u < limit \<Longrightarrow> map_option unat (scan_loop valid over step u s) =
     (if (\<forall>c\<in>set s. valid c) \<and> base_val digit base (unat u) s < limit then Some (base_val digit base (unat u) s) else None)"
proof (induction s arbitrary: u)
  case (Cons c s)
  show ?case
  proof (cases "valid c \<and> \<not> over u c")
    case True
    then have "unat (step u c) = base * unat u + digit c" "base * unat u + digit c < limit"
      using over_iff[of c u] step_val[of c u] Cons.prems by auto
    then show ?thesis using True Cons.IH[of "step u c"] by simp
  next
    case False
    have "base * unat u + digit c \<le> base_val digit base (base * unat u + digit c) s"
      by (rule base_val_ge[OF base_pos])
    then have "valid c \<Longrightarrow> \<not> base_val digit base (base * unat u + digit c) s < limit"
      using False over_iff[of c u] Cons.prems by simp
    moreover have "scan_loop valid over step u (c # s) = None" using False by auto
    ultimately show ?thesis by auto
  qed
qed simp

end

lemma push_bit_val: "unat u * 2 ^ n < 2 ^ 64 \<Longrightarrow> unat (push_bit n (u :: u64)) = unat u * 2 ^ n"
proof -
  have "unat (push_bit n u) = unat u * 2 ^ n mod 2 ^ 64"
    unfolding unat_eq_nat_uint uint_push_bit by (simp add: nat_mod_distrib nat_mult_distrib nat_power_eq)
  then show "unat u * 2 ^ n < 2 ^ 64 \<Longrightarrow> ?thesis" by simp
qed

lemma sint_small:
  assumes "unat u < 2 ^ 63" shows "sint (u :: u64) = int (unat u)"
proof -
  have "int (unat u) < int (2 ^ 63)" using assms by (simp only: of_nat_less_iff)
  then have "uint u < 2 ^ 63" by simp
  then have "signed_take_bit 63 (uint u) = uint u"
    using order_trans[of "- (2 ^ 63)" 0 "uint u"] by (intro signed_take_bit_int_eq_self) simp_all
  then show ?thesis by (simp add: sint_uint)
qed

lemma digit_ge: "c_isdigit c \<Longrightarrow> chr_ge c (CHR ''6'') \<longleftrightarrow> 6 \<le> digit_val c"
  by (auto simp: chr_ge_def c_isdigit_def digit_val_def)

lemma dec_step_val:
  assumes "c_isdigit c" "unat u \<le> 429496729"
  shows "unat (dec_step u c) = 10 * unat u + digit_val c"
proof -
  have d: "digit_val c < 10" by (rule digit_val_less[OF assms(1)])
  have "unat (push_bit 3 u) = unat u * 8" "unat (push_bit 1 u) = unat u * 2"
    using push_bit_val[of u 3] push_bit_val[of u 1] assms(2) by simp_all
  then show ?thesis using assms d by (simp add: dec_step_def unat_word_ariths unat_of_nat)
qed

interpretation atouint: number_scan c_isdigit atouint_over dec_step digit_val 10 "2 ^ 32"
proof unfold_locales
  fix c and u :: u64 assume c: "c_isdigit c" and u: "unat u < 2 ^ 32"
  have d: "digit_val c < 10" by (rule digit_val_less[OF c])
  have w: "u > 429496729 \<longleftrightarrow> 429496729 < unat u" "u = 429496729 \<longleftrightarrow> unat u = 429496729"
    by (simp_all add: word_less_nat_alt word_unat_eq_iff)
  show o: "atouint_over u c \<longleftrightarrow> 2 ^ 32 \<le> 10 * unat u + digit_val c"
    using d by (auto simp: atouint_over_def w digit_ge[OF c])
  show "\<not> atouint_over u c \<Longrightarrow> unat (dec_step u c) = 10 * unat u + digit_val c"
    by (rule dec_step_val[OF c]) (simp add: atouint_over_def w)
qed simp

text \<open>\<open>oflow_digit\<close> is the last digit of the least magnitude that is too large, less one.\<close>

lemma atoint_scan:
  assumes "d = CHR ''7'' \<and> l = 2 ^ 31 \<or> d = CHR ''8'' \<and> l = 2 ^ 31 + 1"
  shows "number_scan c_isdigit (atoint_over d) dec_step digit_val 10 l"
proof unfold_locales
  fix c and u :: u64 assume c: "c_isdigit c" and u: "unat u < l"
  have d: "digit_val c < 10" by (rule digit_val_less[OF c])
  have "sint u = int (unat u)" using u assms by (intro sint_small) auto
  then have s: "sint u > 214748364 \<longleftrightarrow> unat u > 214748364" by (metis of_nat_less_iff of_nat_numeral)
  have w: "u = 214748364 \<longleftrightarrow> unat u = 214748364" by (simp add: word_unat_eq_iff)
  have g: "chr_ge (CHR ''7'') c \<longleftrightarrow> digit_val c \<le> 7" "chr_ge (CHR ''8'') c \<longleftrightarrow> digit_val c \<le> 8"
    using c by (auto simp: chr_ge_def c_isdigit_def digit_val_def)
  show o: "atoint_over d u c \<longleftrightarrow> l \<le> 10 * unat u + digit_val c"
    using d assms by (auto simp: atoint_over_def w s g)
  show "\<not> atoint_over d u c \<Longrightarrow> unat (dec_step u c) = 10 * unat u + digit_val c"
    by (rule dec_step_val[OF c]) (auto simp: atoint_over_def w s)
qed simp

interpretation atoint_pos: number_scan c_isdigit "atoint_over (CHR ''7'')" dec_step digit_val 10 "2 ^ 31"
  by (rule atoint_scan) simp

interpretation atoint_neg: number_scan c_isdigit "atoint_over (CHR ''8'')" dec_step digit_val 10 "2 ^ 31 + 1"
  by (rule atoint_scan) simp

interpretation octtoint: number_scan oct_digit "\<lambda>u c. u \<ge> 0x20000000" "\<lambda>u c. push_bit 3 u + of_nat (digit_val c)" digit_val 8 "2 ^ 32"
proof unfold_locales
  fix c and u :: u64 assume c: "oct_digit c" and u: "unat u < 2 ^ 32"
  have d: "digit_val c < 8"
    using c unfolding oct_digit_def c_isdigit_def digit_val_def
    using of_char_eq_iff[of c "CHR ''8''", where 'a = nat] of_char_eq_iff[of c "CHR ''9''", where 'a = nat] by auto
  have w: "u \<ge> 0x20000000 \<longleftrightarrow> 0x20000000 \<le> unat u" by (simp add: word_le_nat_alt)
  show "(u \<ge> 0x20000000) \<longleftrightarrow> 2 ^ 32 \<le> 8 * unat u + digit_val c" using d by (auto simp: w)
  show "\<not> u \<ge> 0x20000000 \<Longrightarrow> unat (push_bit 3 u + of_nat (digit_val c)) = 8 * unat u + digit_val c"
    using d by (simp add: w unat_word_ariths push_bit_val unat_of_nat)
qed simp

lemma xdigit_less: "c_isxdigit c \<Longrightarrow> xdigit_val c < 16"
  by (auto simp: c_isxdigit_def xdigit_val_def c_isdigit_def chr_ge_def)

lemma and_top_nibble:
  assumes "unat u < 2 ^ 32" shows "(u :: u64) AND 0xF0000000 = 0 \<longleftrightarrow> unat u < 2 ^ 28"
proof -
  have m: "(0xF0000000 :: u64) = push_bit 28 (mask 4)" by (simp add: push_bit_eq_mult mask_eq_exp_minus_1)
  have "int (unat u) < int (2 ^ 32)" using assms by (simp only: of_nat_less_iff)
  then have "uint u < 2 ^ 32" by simp
  then have "take_bit 32 u = u" by (simp add: word_uint_eq_iff word_to_int)
  then have h: "bit u n \<Longrightarrow> n < 32" for n by (metis bit_take_bit_iff)
  have "u AND 0xF0000000 = 0 \<longleftrightarrow> (\<forall>n\<ge>28. \<not> bit u n)"
    unfolding m
  proof (intro iffI allI impI notI)
    fix n assume z: "u AND push_bit 28 (mask 4) = 0" and n: "28 \<le> n" "bit u n"
    have "n < 32" by (rule h[OF n(2)])
    then have "bit (u AND push_bit 28 (mask 4)) n" using n by (simp add: bit_simps) arith
    then show False by (simp only: z bit_0_eq bot_apply bot_bool_def)
  qed (auto simp: bit_eq_iff bit_simps)
  also have "\<dots> \<longleftrightarrow> drop_bit 28 u = 0"
  proof
    assume "\<forall>n\<ge>28. \<not> bit u n"
    then show "drop_bit 28 u = 0" by (intro bit_eqI) (simp add: bit_drop_bit_eq)
  next
    assume z: "drop_bit 28 u = 0"
    have "bit u n \<Longrightarrow> 28 \<le> n \<Longrightarrow> bit (drop_bit 28 u) (n - 28)" for n by (simp add: bit_drop_bit_eq)
    then show "\<forall>n\<ge>28. \<not> bit u n" using z by auto
  qed
  also have "\<dots> \<longleftrightarrow> unat u < 2 ^ 28"
  proof -
    have "unat (drop_bit 28 u) = unat u div 2 ^ 28" unfolding unat_drop_bit_eq by (rule drop_bit_eq_div)
    then have "drop_bit 28 u = 0 \<longleftrightarrow> unat u div 2 ^ 28 = 0" by (metis unat_eq_zero)
    then show ?thesis by (metis div_eq_0_iff power_not_zero zero_neq_numeral)
  qed
  finally show ?thesis .
qed

interpretation hextoint: number_scan c_isxdigit "\<lambda>u c. u AND 0xF0000000 \<noteq> 0" "\<lambda>u c. push_bit 4 u + of_nat (xdigit_val c)" xdigit_val 16 "2 ^ 32"
proof unfold_locales
  fix c and u :: u64 assume c: "c_isxdigit c" and u: "unat u < 2 ^ 32"
  have d: "xdigit_val c < 16" by (rule xdigit_less[OF c])
  have w: "u AND 0xF0000000 = 0 \<longleftrightarrow> unat u < 2 ^ 28"
    by (rule and_top_nibble[OF u])
  show "(u AND 0xF0000000 \<noteq> 0) \<longleftrightarrow> 2 ^ 32 \<le> 16 * unat u + xdigit_val c" using d by (auto simp: w)
  show "\<not> u AND 0xF0000000 \<noteq> 0 \<Longrightarrow> unat (push_bit 4 u + of_nat (xdigit_val c)) = 16 * unat u + xdigit_val c"
    using d by (simp add: w unat_word_ariths push_bit_val unat_of_nat)
qed simp

section \<open>What the readers accept\<close>

text \<open>Exactly the digit strings whose number is below the limit, and they give that number.\<close>

lemma atouint_correct:
  "map_option unat (atouint s) =
     (if s \<noteq> [] \<and> (\<forall>c\<in>set s. c_isdigit c) \<and> dec_val s < 2 ^ 32 then Some (dec_val s) else None)"
  using atouint.scan_loop_correct[of 0 s, unfolded unat_0] by (cases "s = []") (simp_all add: atouint_def base_val_10)

lemma octtoint_correct:
  "map_option unat (octtoint s) =
     (if s \<noteq> [] \<and> (\<forall>c\<in>set s. oct_digit c) \<and> base_val digit_val 8 0 s < 2 ^ 32 then Some (base_val digit_val 8 0 s) else None)"
  using octtoint.scan_loop_correct[of 0 s, unfolded unat_0] by (cases "s = []") (simp_all add: octtoint_def)

lemma hextoint_correct:
  "map_option unat (hextoint s) =
     (if s \<noteq> [] \<and> (\<forall>c\<in>set s. c_isxdigit c) \<and> base_val xdigit_val 16 0 s < 2 ^ 32 then Some (base_val xdigit_val 16 0 s) else None)"
  using hextoint.scan_loop_correct[of 0 s, unfolded unat_0] by (cases "s = []") (simp_all add: hextoint_def)

text \<open>The signed number a string stands for.\<close>

definition signed_dec :: "string \<Rightarrow> int option" where
  "signed_dec s =
     (case s of [] \<Rightarrow> None
      | c # t \<Rightarrow> if c = CHR ''-''
          then if t \<noteq> [] \<and> (\<forall>c\<in>set t. c_isdigit c) then Some (- int (dec_val t)) else None
          else if \<forall>c\<in>set s. c_isdigit c then Some (int (dec_val s)) else None)"

lemma sint_minus_small:
  assumes "unat u < 2 ^ 63" shows "sint (- u :: u64) = - int (unat u)"
proof -
  have "sint (- u) = signed_take_bit 63 (- sint u)"
    by (simp add: sint_word_ariths)
  also have "\<dots> = - int (unat u)"
    unfolding sint_small[OF assms]
  proof (rule signed_take_bit_int_eq_self)
    have "int (unat u) < int (2 ^ 63)" using assms by (simp only: of_nat_less_iff)
    then have "int (unat u) < 2 ^ 63" by (simp only: of_nat_power of_nat_numeral)
    then show "- (2 ^ 63) \<le> - int (unat u)" by linarith
    show "- int (unat u) < 2 ^ 63" by (rule le_less_trans[of _ 0]) simp_all
  qed
  finally show ?thesis .
qed

lemma scan_signed:
  fixes r :: "u64 option"
  assumes "map_option unat r = (if P \<and> n < l then Some n else None)" "l \<le> 2 ^ 31 + 1"
  shows "map_option sint (map_option (\<lambda>u. if neg then - u else u) r) =
    (if P \<and> n < l then Some (if neg then - int n else int n) else None)"
proof (cases r)
  case (Some a)
  then have "unat a < 2 ^ 63 \<or> \<not> (P \<and> n < l)" using assms by (auto split: if_splits)
  then show ?thesis using assms(1) sint_small[of a] sint_minus_small[of a] Some by (auto split: if_splits)
qed (use assms(1) in \<open>auto split: if_splits\<close>)

lemma atoint_correct:
  "map_option sint (atoint s) =
     (case signed_dec s of None \<Rightarrow> None | Some n \<Rightarrow> if - (2 ^ 31) \<le> n \<and> n < 2 ^ 31 then Some n else None)"
proof (cases s)
  case (Cons c t)
  show ?thesis
  proof (cases "c = CHR ''-''")
    case True
    then show ?thesis
      using scan_signed[OF atoint_neg.scan_loop_correct[of 0 t, unfolded unat_0 base_val_10], of True]
      by (cases "t = []") (auto simp: Cons atoint_def signed_dec_def)
  next
    case False
    then show ?thesis
      using scan_signed[OF atoint_pos.scan_loop_correct[of 0 s, unfolded unat_0 base_val_10], of False]
      by (auto simp: Cons atoint_def signed_dec_def)
  qed
qed (simp add: atoint_def signed_dec_def)

text \<open>Printed numbers of 32 bits are read back, and no others.\<close>

lemma unsigned_text_round_trip: "atouint (uinttoa u) = (if unat u < 2 ^ 32 then Some u else None)"
proof -
  have "map_option unat (atouint (uinttoa u)) = (if unat u < 2 ^ 32 then Some (unat u) else None)"
    by (simp add: atouint_correct uinttoa_def) (use dec_str_digits in blast)
  then show ?thesis by (cases "atouint (uinttoa u)") (auto split: if_splits simp: word_unat_eq_iff)
qed

lemma signed_dec_fmt_d: "signed_dec (fmt_d n) = Some n"
proof (cases "n < 0")
  case True
  then show ?thesis by (auto simp: fmt_d_def signed_dec_def dec_str_digits)
next
  case False
  obtain c t where c: "dec_str (nat n) = c # t" by (meson dec_str_not_Nil neq_Nil_conv)
  then have "c_isdigit c" using dec_str_digits by (metis list.set_intros(1))
  then have "c \<noteq> CHR ''-''" by (auto simp: c_isdigit_def)
  moreover have "\<forall>x\<in>set (c # t). c_isdigit x" using dec_str_digits c by metis
  moreover have "dec_val (c # t) = nat n" using dec_str_val[of "nat n"] by (simp only: c)
  ultimately show ?thesis using False by (simp add: fmt_d_def signed_dec_def c)
qed

lemma signed_text_round_trip: "atoint (inttoa v) = (if - (2 ^ 31) \<le> sint v \<and> sint v < 2 ^ 31 then Some v else None)"
proof -
  have "map_option sint (atoint (inttoa v)) = (if - (2 ^ 31) \<le> sint v \<and> sint v < 2 ^ 31 then Some (sint v) else None)"
    by (simp add: atoint_correct inttoa_def signed_dec_fmt_d)
  then show ?thesis by (cases "atoint (inttoa v)") (auto split: if_splits intro: signed_word_eqI)
qed

end
