(* ===== verification/NtpFpText.thy ===== *)
theory NtpFpText
  imports NtpFixedPoint CStrings "HOL-Library.Monad_Syntax"
begin

text \<open>
  Fixed-point numbers in text: ntpdist/libntp/dolfptoa.c and dofptoa.c with mfptoa.c, mfptoms.c, fptoa.c
  and fptoms.c print them, atolfp.c, mstolfp.c and hextolfp.c read them. The printers work on a
  buffer of bytes \<open>cbuf\<close> with positions \<open>cp\<close>, \<open>cpend\<close> and \<open>cpdec\<close>; a store or
  read outside a buffer, and a call of \<open>abort\<close>, is \<^const>\<open>None\<close>. Their texts are less than the 80
  characters of the string they return.
\<close>

section \<open>Printing 64 bits: dolfptoa\<close>

text \<open>The digits of the integral part, backwards from \<open>cp\<close>: in 32 bits while they are needed, then in 16.\<close>

definition store_back :: "nat \<Rightarrow> nat \<Rightarrow> nat list \<Rightarrow> (nat \<times> nat list) option" where
  "store_back cp d cbuf = (if cp = 0 then None else Some (cp - 1, cbuf[cp - 1 := d mod 256]))"

function long_digits :: "nat \<Rightarrow> nat \<Rightarrow> nat list \<Rightarrow> (nat \<times> nat \<times> nat list) option" where
  "long_digits lwork cp cbuf =
     (if lwork div 2 ^ 16 mod 2 ^ 16 = 0 then Some (lwork, cp, cbuf)
      else let ltmp = lwork; lwork = lwork div 10; ltmp = ltmp - (8 * lwork + 2 * lwork)
           in do { (cp, cbuf) \<leftarrow> store_back cp ltmp cbuf; long_digits lwork cp cbuf })"
  by auto
termination by (relation "measure fst") (auto intro!: div_less_dividend Nat.gr0I)

function short_digits :: "nat \<Rightarrow> nat \<Rightarrow> nat list \<Rightarrow> (nat \<times> nat list) option" where
  "short_digits swork cp cbuf =
     (if swork = 0 then Some (cp, cbuf)
      else let stmp = swork; swork = swork div 10; stmp = stmp - (8 * swork + 2 * swork)
           in do { (cp, cbuf) \<leftarrow> store_back cp stmp cbuf; short_digits swork cp cbuf })"
  by auto
termination by (relation "measure fst") auto

declare long_digits.simps [simp del] short_digits.simps [simp del]

text \<open>The fraction times ten puts a digit into the units; \<open>dec\<close> digits at most.\<close>

definition L_times_ten :: "l_fp \<Rightarrow> l_fp" where
  "L_times_ten work =
     (let work = L_LSHIFT (work\<lparr>l_ui := 0\<rparr>); ftmp = work in L_ADD (L_LSHIFT (L_LSHIFT work)) ftmp)"

fun frac_digits :: "nat \<Rightarrow> l_fp \<Rightarrow> nat \<Rightarrow> nat list \<Rightarrow> (nat \<times> l_fp \<times> nat \<times> nat list) option" where
  "frac_digits 0 work cpend cbuf = Some (0, work, cpend, cbuf)"
| "frac_digits (Suc dec) work cpend cbuf =
     (let work = L_times_ten work
      in if cpend \<ge> length cbuf then None
         else let cbuf = cbuf[cpend := unat (l_ui work) mod 256]; cpend = cpend + 1
              in if l_uf work = 0 then Some (dec, work, cpend, cbuf)
                 else if cpend > length cbuf then None else frac_digits dec work cpend cbuf)"

text \<open>\<open>while (*tp >= 10) { *tp = 0; *(--tp) += 1; }\<close>\<close>

fun carry_up :: "nat \<Rightarrow> nat list \<Rightarrow> (nat \<times> nat list) option" where
  "carry_up tp cbuf =
     (if cbuf ! tp < 10 then Some (tp, cbuf)
      else case tp of 0 \<Rightarrow> None | Suc t \<Rightarrow> carry_up t (cbuf[tp := 0, t := (cbuf ! t + 1) mod 256]))"

declare carry_up.simps [simp del]

definition round_up :: "nat \<Rightarrow> nat list \<Rightarrow> (nat \<times> nat list) option" where
  "round_up cpend cbuf =
     (if cpend = 0 then None else carry_up (cpend - 1) (cbuf[cpend - 1 := (cbuf ! (cpend - 1) + 1) mod 256]))"

fun skip_zeros :: "nat \<Rightarrow> nat \<Rightarrow> nat list \<Rightarrow> nat" where
  "skip_zeros 0 cp cbuf = cp"
| "skip_zeros (Suc n) cp cbuf = (if cbuf ! cp \<noteq> 0 then cp else skip_zeros n (cp + 1) cbuf)"

definition digits_text :: "nat \<Rightarrow> nat \<Rightarrow> nat \<Rightarrow> nat list \<Rightarrow> string" where
  "digits_text cp cpdec cpend cbuf =
     concat (map (\<lambda>i. (if i = cpdec then ''.'' else '''') @ [char_of (cbuf ! i + 48)]) [cp..<cpend])"

definition dolfptoa :: "u64 \<Rightarrow> u64 \<Rightarrow> bool \<Rightarrow> int \<Rightarrow> bool \<Rightarrow> string option" where
  "dolfptoa fpi fpv neg ndec msec =
     (let cbuf = replicate 24 0; fpi = fpi AND 0xffffffff; fpv = fpv AND 0xffffffff; cpend = 10
      in do {
        (lwork, cp, cbuf) \<leftarrow> long_digits (unat fpi) cpend cbuf;
        (cp, cbuf) \<leftarrow> short_digits (lwork mod 2 ^ 16) cp cbuf;
        let (dec, cpdec) = (if msec then (max 3 (ndec + 3), 13) else (max 0 ndec, 10));
        let dec = nat (min 12 dec);
        (dec, cp, cpend, cbuf) \<leftarrow>
          (if fpv = 0 then Some (dec, cp, cpend, cbuf)
           else do {
             (dec, work, cpend, cbuf) \<leftarrow> frac_digits dec \<lparr>l_ui = 0, l_uf = ucast fpv\<rparr> cpend cbuf;
             if l_uf work AND 0x80000000 = 0 then Some (dec, cp, cpend, cbuf)
             else do {
               (tp, cbuf) \<leftarrow> round_up cpend cbuf;
               Some (dec, if tp < cp then tp else cp, cpend, cbuf)
             }
           });
        let cpend = cpend + dec;
        let cp = skip_zeros (cpdec - cp) cp cbuf;
        let cp = (if cp = cpdec then cp - 1 else cp);
        if cpend > length cbuf then None
        else Some ((if neg then ''-'' else '''') @ digits_text cp cpdec cpend cbuf)
      })"

text \<open>\<open>M_NEG\<close> works on the \<open>u_long\<close> parameters themselves.\<close>

definition mfptoa_signed :: "u64 \<Rightarrow> u64 \<Rightarrow> int \<Rightarrow> bool \<Rightarrow> string option" where
  "mfptoa_signed fpi fpf ndec msec =
     (let (isneg, fpi, fpf) = (if M_ISNEG fpi then (True, M_NEG fpi fpf) else (False, fpi, fpf))
      in dolfptoa fpi fpf isneg ndec msec)"

definition mfptoa :: "u64 \<Rightarrow> u64 \<Rightarrow> int \<Rightarrow> string option" where
  "mfptoa fpi fpf ndec = mfptoa_signed fpi fpf ndec False"

definition mfptoms :: "u64 \<Rightarrow> u64 \<Rightarrow> int \<Rightarrow> string option" where
  "mfptoms fpi fpf ndec = mfptoa_signed fpi fpf ndec True"

definition ulfptoa :: "l_fp \<Rightarrow> int \<Rightarrow> string option" where
  "ulfptoa v ndec = dolfptoa (ucast (l_ui v)) (ucast (l_uf v)) False ndec False"

definition ulfptoms :: "l_fp \<Rightarrow> int \<Rightarrow> string option" where
  "ulfptoms v ndec = dolfptoa (ucast (l_ui v)) (ucast (l_uf v)) False ndec True"

definition umfptoa :: "u64 \<Rightarrow> u64 \<Rightarrow> int \<Rightarrow> string option" where
  "umfptoa fpi fpf ndec = dolfptoa fpi fpf False ndec False"

definition lfptoa :: "l_fp \<Rightarrow> int \<Rightarrow> string option" where
  "lfptoa v ndec = mfptoa (ucast (l_ui v)) (ucast (l_uf v)) ndec"

definition lfptoms :: "l_fp \<Rightarrow> int \<Rightarrow> string option" where
  "lfptoms v ndec = mfptoms (ucast (l_ui v)) (ucast (l_uf v)) ndec"

section \<open>Printing 32 bits: dofptoa\<close>

text \<open>The fraction is the low 16 bits of \<open>val\<close>.\<close>

fun fp_frac_digits :: "nat \<Rightarrow> nat \<Rightarrow> nat \<Rightarrow> nat list \<Rightarrow> (nat \<times> nat \<times> nat list) option" where
  "fp_frac_digits 0 val cpend cbuf = Some (val, cpend, cbuf)"
| "fp_frac_digits (Suc dec) val cpend cbuf =
     (let val = val mod 2 ^ 16; val = 8 * val + 2 * val
      in if cpend \<ge> length cbuf then None
         else fp_frac_digits dec val (cpend + 1) (cbuf[cpend := val div 2 ^ 16 mod 256]))"

definition dofptoa :: "u32 \<Rightarrow> bool \<Rightarrow> int \<Rightarrow> bool \<Rightarrow> string option" where
  "dofptoa fpv neg ndec msec =
     (let cbuf = replicate 12 0; cpend = 5; val = unat fpv
      in do {
        (cp, cbuf) \<leftarrow> (if val div 2 ^ 16 = 0 then Some (cpend - 1, cbuf) else short_digits (val div 2 ^ 16) cpend cbuf);
        let (dec, cpdec) = (if msec then (max 3 (sint (word_of_int (ndec + 3) :: 16 word)), 8) else (ndec, cpend));
        let dec = nat (min 6 dec);
        (val, cpend, cbuf) \<leftarrow> fp_frac_digits dec val cpend cbuf;
        cbuf \<leftarrow> (if val mod 2 ^ 16 div 2 ^ 15 = 0 then Some cbuf else map_option snd (round_up cpend cbuf));
        let cp = skip_zeros (cpdec - 1 - cp) cp cbuf;
        if cpend > length cbuf then None
        else Some ((if neg then ''-'' else '''') @ digits_text cp cpdec cpend cbuf)
      })"

definition fptoa_signed :: "u32 \<Rightarrow> int \<Rightarrow> bool \<Rightarrow> string option" where
  "fptoa_signed fpv ndec msec =
     (let (neg, plusfp) = (if sint fpv < 0 then (True, - fpv) else (False, fpv)) in dofptoa plusfp neg ndec msec)"

definition fptoa :: "u32 \<Rightarrow> int \<Rightarrow> string option" where
  "fptoa fpv ndec = fptoa_signed fpv ndec False"

definition fptoms :: "u32 \<Rightarrow> int \<Rightarrow> string option" where
  "fptoms fpv ndec = fptoa_signed fpv ndec True"

section \<open>Reading\<close>

definition strchr :: "string \<Rightarrow> char \<Rightarrow> nat option" where
  "strchr s c = (if c \<in> set s then Some (length (takeWhile (\<lambda>x. x \<noteq> c) s)) else None)"

definition dec_digits :: string where
  "dec_digits = ''0123456789''"

definition hex_digits :: string where
  "hex_digits = ''0123456789abcdefABCDEF''"

fun dec_loop :: "u64 \<Rightarrow> string \<Rightarrow> u64 \<times> string" where
  "dec_loop v [] = (v, [])"
| "dec_loop v (c # cs) = (case strchr dec_digits c of None \<Rightarrow> (v, c # cs)
     | Some i \<Rightarrow> dec_loop (push_bit 3 v + push_bit 1 v + of_nat i) cs)"

text \<open>At most nine decimals count.\<close>

fun frac_loop :: "nat \<Rightarrow> u64 \<Rightarrow> string \<Rightarrow> nat \<times> u64 \<times> string" where
  "frac_loop ndec v [] = (ndec, v, [])"
| "frac_loop ndec v (c # cs) =
     (if ndec < 9
      then case strchr dec_digits c of None \<Rightarrow> (ndec, v, c # cs)
           | Some i \<Rightarrow> frac_loop (ndec + 1) (push_bit 3 v + push_bit 1 v + of_nat i) cs
      else (ndec, v, c # cs))"

definition ten_to_the_n :: "u64 list" where
  "ten_to_the_n = [0, 10, 100, 1000, 10000, 100000, 1000000, 10000000, 100000000, 1000000000]"

text \<open>Long division, a bit of the quotient per round; the bit is \<open>2 ^ n\<close>.\<close>

fun frac_bits :: "nat \<Rightarrow> u64 \<Rightarrow> u64 \<Rightarrow> u64 \<Rightarrow> u64 \<times> u64" where
  "frac_bits 0 ten_fact dec_f tmp = (dec_f, tmp)"
| "frac_bits (Suc n) ten_fact dec_f tmp =
     (let dec_f = push_bit 1 dec_f
      in if dec_f \<ge> ten_fact then frac_bits n ten_fact (dec_f - ten_fact) (tmp OR 2 ^ n)
         else frac_bits n ten_fact dec_f tmp)"

definition to_fraction :: "nat \<Rightarrow> u64 \<Rightarrow> u64" where
  "to_fraction ndec dec_f =
     (if ndec > 0
      then let ten_fact = ten_to_the_n ! ndec; (dec_f, tmp) = frac_bits 32 ten_fact dec_f 0
           in if push_bit 1 dec_f > ten_fact then tmp + 1 else tmp
      else dec_f)"

definition at_end :: "string \<Rightarrow> bool" where
  "at_end cp \<longleftrightarrow> cp = [] \<or> c_isspace (hd cp)"

definition starts :: "(char \<Rightarrow> bool) \<Rightarrow> string \<Rightarrow> bool" where
  "starts p cp \<longleftrightarrow> cp \<noteq> [] \<and> p (hd cp)"

definition atolfp :: "string \<Rightarrow> l_fp option" where
  "atolfp str =
     (let cp = dropWhile c_isspace str;
          (isneg, cp) = (if starts (\<lambda>c. c = CHR ''-'') cp then (True, tl cp) else (False, cp));
          cp = (if starts (\<lambda>c. c = CHR ''+'') cp then tl cp else cp)
      in if \<not> starts (\<lambda>c. c = CHR ''.'' \<or> c_isdigit c) cp then None
         else let (dec_i, cp) = dec_loop 0 cp
         in do {
           (ndec, dec_f) \<leftarrow>
             (if at_end cp then Some (0, 0)
              else if hd cp \<noteq> CHR ''.'' then None
              else let (ndec, dec_f, cp) = frac_loop 0 0 (tl cp); cp = dropWhile c_isdigit cp
                   in if at_end cp then Some (ndec, dec_f) else None);
           let dec_f = to_fraction ndec dec_f;
           let (dec_i, dec_f) = (if isneg then M_NEG dec_i dec_f else (dec_i, dec_f));
           Some \<lparr>l_ui = ucast dec_i, l_uf = ucast dec_f\<rparr>
         })"

text \<open>The digits are copied with the point three places to the left, into a buffer of 100.\<close>

definition put :: "string \<Rightarrow> string \<Rightarrow> string option" where
  "put s buf = (if length buf + length s \<le> 100 then Some (buf @ s) else None)"

definition mstolfp :: "string \<Rightarrow> l_fp option option" where
  "mstolfp str =
     (let cp = dropWhile c_isspace str;
          (buf, cp) = (if starts (\<lambda>c. c = CHR ''-'') cp then (''-'', tl cp) else ('''', cp))
      in if \<not> starts (\<lambda>c. c = CHR ''.'' \<or> c_isdigit c) cp then Some None
         else let ip = takeWhile c_isdigit cp; cp = dropWhile c_isdigit cp; n = length ip
         in do {
           buf \<leftarrow> (if n > 3 then put (take (n - 3) ip) buf else put ''0'' buf);
           let ip = (if n > 3 then drop (n - 3) ip else ip);
           buf \<leftarrow> put ''.'' buf;
           buf \<leftarrow> (if length ip < 3 then put (replicate (3 - length ip) (CHR ''0'')) buf else Some buf);
           buf \<leftarrow> put ip buf;
           (buf, cp) \<leftarrow>
             (if starts (\<lambda>c. c = CHR ''.'') cp
              then do { buf \<leftarrow> put (takeWhile c_isdigit (tl cp)) buf; Some (buf, dropWhile c_isdigit (tl cp)) }
              else Some (buf, cp));
           z \<leftarrow> put [CHR 0x00] buf;
           Some (if at_end cp then atolfp buf else None)
         })"

fun hex_loop :: "nat \<Rightarrow> u64 \<Rightarrow> nat option \<Rightarrow> string \<Rightarrow> nat \<times> u64 \<times> nat option \<times> string" where
  "hex_loop n v ind [] = (n, v, ind, [])"
| "hex_loop n v ind (c # cs) =
     (if n < 8
      then case strchr hex_digits c of None \<Rightarrow> (n, v, None, c # cs)
           | Some i \<Rightarrow> hex_loop (n + 1) (push_bit 4 v + of_nat (if i > 15 then i - 6 else i)) (Some i) cs
      else (n, v, ind, c # cs))"

definition hextolfp :: "string \<Rightarrow> l_fp option" where
  "hextolfp str =
     (let (n, dec_i, ind, cp) = hex_loop 0 0 None (dropWhile c_isspace str)
      in if n < 8 \<or> ind = None then None
         else let cp = (if starts (\<lambda>c. c = CHR ''.'') cp then tl cp else cp);
                  (n, dec_f, ind, cp) = hex_loop 0 0 ind cp
              in if n < 8 \<or> ind = None \<or> \<not> at_end cp then None
                 else Some \<lparr>l_ui = ucast dec_i, l_uf = ucast dec_f\<rparr>)"

end
