(* ===== verification/NtpFpTextLaws.thy ===== *)
theory NtpFpTextLaws
  imports NtpFpText
begin

text \<open>
  What the routines of NtpFpText print and read. The digits in the buffer are a list of numbers below
  ten, \<open>dval\<close> its value, and every phase of a printer is an equation about it: the digits of the
  integral part, one decimal more, the rounding. \<open>fixed_text\<close> is the reference.
\<close>

section \<open>Lists of digits\<close>

definition dval :: "nat list \<Rightarrow> nat" where
  "dval ds = foldl (\<lambda>a d. 10 * a + d) 0 ds"

definition digits :: "nat list \<Rightarrow> bool" where
  "digits ds \<longleftrightarrow> (\<forall>d\<in>set ds. d < 10)"

lemma digits_simps [simp]:
  "digits []" "digits (d # ds) \<longleftrightarrow> d < 10 \<and> digits ds" "digits (xs @ ys) \<longleftrightarrow> digits xs \<and> digits ys"
  "digits (replicate n 0)"
  by (auto simp: digits_def)

lemma dval_simps [simp]: "dval [] = 0" "dval (ds @ [d]) = 10 * dval ds + d"
  by (simp_all add: dval_def)

lemma dval_append: "dval (xs @ ys) = dval xs * 10 ^ length ys + dval ys"
proof (induction ys rule: rev_induct)
  case (snoc y ys)
  then show ?case using dval_simps(2)[of "xs @ ys" y] by (simp add: algebra_simps)
qed simp

lemma dval_zeros [simp]: "dval (replicate n 0) = 0" "dval (replicate n 0 @ ds) = dval ds"
proof -
  show z: "dval (replicate n 0) = 0" by (induction n) (simp_all flip: replicate_append_same)
  show "dval (replicate n 0 @ ds) = dval ds" by (simp add: dval_append z)
qed

lemma dval_less: "digits ds \<Longrightarrow> dval ds < 10 ^ length ds"
proof (induction ds rule: rev_induct)
  case (snoc d ds)
  then show ?case by simp
qed simp

text \<open>The digits of a number without leading zeros.\<close>

fun ndigs :: "nat \<Rightarrow> nat list" where
  "ndigs n = (if n = 0 then [] else ndigs (n div 10) @ [n mod 10])"

declare ndigs.simps [simp del]

lemma ndigs_0 [simp]: "ndigs 0 = []"
  by (simp add: ndigs.simps)

lemma ndigs_pos: "0 < n \<Longrightarrow> ndigs n = ndigs (n div 10) @ [n mod 10]"
  by (subst ndigs.simps) simp

lemma ndigs_val [simp]: "dval (ndigs n) = n" and ndigs_digits [simp]: "digits (ndigs n)"
proof (induction n rule: ndigs.induct)
  case (1 n)
  { case 1 then show ?case using "1.IH" by (cases "n = 0") (simp_all add: ndigs_pos) }
  { case 2 then show ?case using "1.IH" by (cases "n = 0") (simp_all add: ndigs_pos) }
qed

lemma ndigs_length: "length (ndigs n) \<le> k \<longleftrightarrow> n < 10 ^ k"
proof (induction n arbitrary: k rule: ndigs.induct)
  case (1 n)
  show ?case
  proof (cases "n = 0")
    case False
    then have l: "length (ndigs n) = Suc (length (ndigs (n div 10)))" by (simp add: ndigs_pos)
    show ?thesis
    proof (cases k)
      case (Suc j)
      have "n div 10 < 10 ^ j \<longleftrightarrow> n < 10 ^ Suc j" by (simp add: div_less_iff_less_mult mult.commute)
      then show ?thesis using "1.IH"[OF False, of j] by (simp add: l Suc)
    qed (use False in \<open>simp add: l\<close>)
  qed simp
qed

text \<open>A list of digits is the digits of its value after zeros.\<close>

lemma digits_unique: "digits ds \<Longrightarrow> ds = replicate (length ds - length (ndigs (dval ds))) 0 @ ndigs (dval ds)"
proof (induction ds rule: rev_induct)
  case (snoc d ds)
  let ?n = "dval ds"
  have d: "d < 10" and ds: "ds = replicate (length ds - length (ndigs ?n)) 0 @ ndigs ?n" using snoc by simp_all
  show ?case
  proof (cases "10 * ?n + d = 0")
    case True
    then have "ds @ [d] = replicate (length ds) 0 @ [0]" using ds by simp
    then have e: "ds @ [d] = replicate (Suc (length ds)) 0" using True by (simp add: replicate_append_same)
    have v: "dval (ds @ [d]) = 0" using True by simp
    show ?thesis unfolding v using e by simp
  next
    case False
    then have "ndigs (10 * ?n + d) = ndigs ?n @ [d]" using d by (subst ndigs_pos) simp_all
    then show ?thesis using ds by simp
  qed
qed simp

lemma digit_chr_0: "digit_chr 0 = CHR ''0''"
proof -
  have "(of_char (CHR ''0'') :: nat) = 48" by simp
  then show ?thesis by (metis add_0_right char_of_char digit_chr_def)
qed

lemma char_digit: "d < 10 \<Longrightarrow> char_of (d + 48) = digit_chr d"
  by (simp add: digit_chr_def add.commute)

lemma dec_str_ndigs: "dec_str n = map digit_chr (if n = 0 then [0] else ndigs n)"
proof (induction n rule: dec_str.induct)
  case (1 n)
  show ?case
  proof (cases "n < 10")
    case True
    then show ?thesis by (auto simp: dec_str.simps[of n] ndigs_pos)
  next
    case False
    then have "n div 10 \<noteq> 0" "n \<noteq> 0" by (simp_all add: div_eq_0_iff)
    then show ?thesis using False 1 by (simp add: dec_str.simps[of n] ndigs_pos)
  qed
qed

text \<open>A list of digits of any length as padded text.\<close>

lemma pad_digits:
  assumes "digits ds" "ds \<noteq> []"
  shows "map digit_chr ds = pad (CHR ''0'') (length ds) (dec_str (dval ds))"
proof -
  have z: "digit_chr 0 = CHR ''0''" by (rule digit_chr_0)
  have l: "length (ndigs (dval ds)) \<le> length ds" using dval_less[OF assms(1)] by (simp add: ndigs_length)
  have "map digit_chr ds = replicate (length ds - length (ndigs (dval ds))) (CHR ''0'') @ map digit_chr (ndigs (dval ds))"
    by (subst digits_unique[OF assms(1)]) (simp add: z)
  then show ?thesis
    using assms(2) l by (cases "length ds") (auto simp: pad_def dec_str_ndigs z simp flip: replicate_append_same)
qed

section \<open>The phases of the printers\<close>

lemma store_back_zeros:
  "d < 10 \<Longrightarrow> 0 < cp \<Longrightarrow> store_back cp d (replicate cp 0 @ post) = Some (cp - 1, replicate (cp - 1) 0 @ d # post)"
proof -
  assume d: "d < 10" and cp: "0 < cp"
  have "replicate cp 0 = replicate (cp - 1) 0 @ [0 :: nat]" using cp by (cases cp) (simp_all add: replicate_append_same)
  then have "(replicate cp 0 @ post)[cp - 1 := d] = replicate (cp - 1) 0 @ d # post"
    using list_update_length[of "replicate (cp - 1) 0" "0 :: nat" post d] by simp
  then show ?thesis using d cp by (simp add: store_back_def)
qed

lemma last_digit: "n - (8 * (n div 10) + 2 * (n div 10)) = n mod (10 :: nat)" "n - 10 * (n div 10) = n mod (10 :: nat)"
  using mult_div_mod_eq[of 10 n] by linarith+

lemma short_digits_correct:
  "length (ndigs n) \<le> cp \<Longrightarrow> short_digits n cp (replicate cp 0 @ post) =
     Some (cp - length (ndigs n), replicate (cp - length (ndigs n)) 0 @ ndigs n @ post)"
proof (induction n arbitrary: cp post rule: ndigs.induct)
  case (1 n)
  show ?case
  proof (cases "n = 0")
    case False
    then have l: "ndigs n = ndigs (n div 10) @ [n mod 10]" "0 < cp" using 1(2) by (simp_all add: ndigs_pos)
    then have "short_digits n cp (replicate cp 0 @ post) = short_digits (n div 10) (cp - 1) (replicate (cp - 1) 0 @ (n mod 10) # post)"
      using False by (subst short_digits.simps) (simp add: Let_def last_digit store_back_zeros)
    also have "\<dots> = Some (cp - 1 - length (ndigs (n div 10)),
        replicate (cp - 1 - length (ndigs (n div 10))) 0 @ ndigs (n div 10) @ (n mod 10) # post)"
      using 1 l by (intro "1.IH"[OF False]) simp
    finally show ?thesis using l by simp
  qed (simp add: short_digits.simps)
qed

text \<open>The two loops for the integral part are one.\<close>

lemma long_short_digits:
  assumes "n < 2 ^ 32"
  shows "long_digits n cp cbuf \<bind> (\<lambda>(lwork, cp, cbuf). short_digits (lwork mod 2 ^ 16) cp cbuf) = short_digits n cp cbuf"
  using assms
proof (induction n cp cbuf rule: long_digits.induct)
  case (1 n cp cbuf)
  show ?case
  proof (cases "n div 2 ^ 16 = 0")
    case True
    then show ?thesis by (simp add: long_digits.simps[of n] div_eq_0_iff)
  next
    case False
    have "n div 2 ^ 16 < 2 ^ 16" using 1(2) by (simp add: div_less_iff_less_mult)
    then have m: "n div 2 ^ 16 mod 2 ^ 16 \<noteq> 0" using False by simp
    have "n \<noteq> 0" using False by (intro notI) simp
    then show ?thesis
      using 1(1)[OF m refl refl refl] 1(2) m
      by (cases "store_back cp (n - (8 * (n div 10) + 2 * (n div 10))) cbuf")
        (simp_all add: long_digits.simps[of n] short_digits.simps[of n] Let_def case_prod_beta')
  qed
qed

lemma L_times_ten_val:
  "unat (l_ui (L_times_ten w)) * 2 ^ 32 + unat (l_uf (L_times_ten w)) = 10 * unat (l_uf w)"
proof -
  let ?v = "w\<lparr>l_ui := 0\<rparr>"
  have "lfp_val (L_times_ten w) = 10 * lfp_val ?v"
    by (simp add: L_times_ten_def Let_def lfp_simps)
  then have "uint (lfp_val (L_times_ten w)) = 10 * uint (lfp_val ?v) mod 2 ^ 64"
    by (simp add: uint_word_ariths)
  moreover have v: "uint (lfp_val ?v) = uint (l_uf w)" by (simp add: lfp_val_def uint_fx)
  moreover have "uint (l_uf w) < 2 ^ 32" "0 \<le> uint (l_uf w)" by (rule uint_u32)+
  ultimately have "uint (lfp_val (L_times_ten w)) = 10 * uint (l_uf w)" by simp
  then have "uint (l_ui (L_times_ten w)) * 2 ^ 32 + uint (l_uf (L_times_ten w)) = 10 * uint (l_uf w)"
    by (simp add: lfp_val_def uint_fx)
  then have "int (unat (l_ui (L_times_ten w)) * 2 ^ 32 + unat (l_uf (L_times_ten w))) = int (10 * unat (l_uf w))"
    by simp
  then show ?thesis by (simp only: of_nat_eq_iff)
qed

lemma unat_u32: "unat (x :: u32) < 2 ^ 32"
  using unsigned_less[of x, where 'a = nat] by simp

lemma frac_digits_correct:
  assumes "digits A" "dec \<le> r" "dval A * 2 ^ 32 + unat (l_uf work) = Y"
  obtains A' dec' work' r' where
    "frac_digits dec work (length A) (A @ replicate r 0) = Some (dec', work', length A', A' @ replicate r' 0)"
    "digits A'" "length A' + dec' = length A + dec" "dec' \<le> r'" "length A' + r' = length A + r"
    "take (length A) A' = A"
    "dval A' * 2 ^ 32 + unat (l_uf work') = Y * 10 ^ (dec - dec')" "0 < dec' \<Longrightarrow> l_uf work' = 0"
  using assms
proof (induction dec arbitrary: A work r Y thesis)
  case 0
  show ?case by (rule 0(1)[of 0 work A r]) (use 0 in simp_all)
next
  case (Suc dec)
  let ?w = "L_times_ten work" and ?d = "unat (l_ui (L_times_ten work))"
  have v: "?d * 2 ^ 32 + unat (l_uf ?w) = 10 * unat (l_uf work)" by (rule L_times_ten_val)
  then have "?d * 2 ^ 32 < 10 * 2 ^ 32" using unat_u32[of "l_uf work"] by linarith
  then have d: "?d < 10" by simp
  obtain r1 where r: "r = Suc r1" using Suc.prems(3) by (cases r) auto
  have c: "(A @ replicate r 0)[length A := ?d mod 256] = (A @ [?d]) @ replicate r1 0"
    using d by (simp add: r)
  have y: "dval (A @ [?d]) * 2 ^ 32 + unat (l_uf ?w) = Y * 10" using v Suc.prems(4) by (simp add: algebra_simps)
  have step: "frac_digits (Suc dec) work (length A) (A @ replicate r 0) =
      (if l_uf ?w = 0 then Some (dec, ?w, length (A @ [?d]), (A @ [?d]) @ replicate r1 0)
       else frac_digits dec ?w (length (A @ [?d])) ((A @ [?d]) @ replicate r1 0))"
    using c by (simp add: Let_def r)
  show ?case
  proof (cases "l_uf ?w = 0")
    case True
    show ?thesis by (rule Suc.prems(1)[of dec ?w "A @ [?d]" r1]) (use True step d y Suc.prems r in simp_all)
  next
    case False
    have "digits (A @ [?d])" "dec \<le> r1" using Suc.prems d r by simp_all
    from Suc.IH[OF _ this y] obtain A' dec' work' r' where
      1: "frac_digits dec ?w (length (A @ [?d])) ((A @ [?d]) @ replicate r1 0) = Some (dec', work', length A', A' @ replicate r' 0)"
      "digits A'" "length A' + dec' = length (A @ [?d]) + dec" "dec' \<le> r'" "length A' + r' = length (A @ [?d]) + r1"
      "take (length (A @ [?d])) A' = A @ [?d]"
      "dval A' * 2 ^ 32 + unat (l_uf work') = Y * 10 * 10 ^ (dec - dec')" "0 < dec' \<Longrightarrow> l_uf work' = 0"
      by blast
    have t: "take (length A) A' = A" using arg_cong[OF 1(6), of "take (length A)"] by simp
    have "dec' \<le> dec" using 1(3,6) by (metis add_le_cancel_left add.commute length_take min.cobounded1 min.cobounded2 nat_add_left_cancel_le)
    then have "10 * 10 ^ (dec - dec') = (10 :: nat) ^ (Suc dec - dec')" by (simp add: Suc_diff_le)
    then show ?thesis
      by (intro Suc.prems(1)[of dec' work' A' r']) (use 1 False step t r in \<open>simp_all add: mult.assoc\<close>)
  qed
qed

text \<open>The digit before the ones already set to zero may be ten.\<close>

lemma carry_up_correct:
  assumes "digits B" "x \<le> 10" "dval (B @ [x]) < 10 ^ Suc (length B)"
  shows "\<exists>tp C. carry_up (length B) (B @ x # post) = Some (tp, C @ post) \<and> digits C \<and> length C = Suc (length B) \<and>
    dval C = dval (B @ [x]) \<and> tp \<le> length B \<and> take tp C = take tp B"
  using assms
proof (induction B arbitrary: x post rule: rev_induct)
  case Nil
  then show ?case by (subst carry_up.simps) (auto simp: dval_def intro!: exI[of _ "[x]"])
next
  case (snoc b B)
  show ?case
  proof (cases "x < 10")
    case True
    then show ?thesis
      using snoc.prems by (subst carry_up.simps) (auto simp: nth_append intro!: exI[of _ "B @ [b, x]"])
  next
    case False
    then have x: "x = 10" using snoc.prems(2) by simp
    have b: "b < 10" "digits B" using snoc.prems(1) by simp_all
    have "dval (B @ [b + 1]) < 10 ^ Suc (length B)" using snoc.prems(3) x dval_simps(2)[of "B @ [b]" x] by simp
    then obtain tp C where 1: "carry_up (length B) (B @ (b + 1) # 0 # post) = Some (tp, C @ 0 # post)" "digits C"
      "length C = Suc (length B)" "dval C = dval (B @ [b + 1])" "tp \<le> length B" "take tp C = take tp B"
      using snoc.IH[OF b(2), of "b + 1" "0 # post"] b(1) by auto
    have u: "((B @ [b]) @ x # post)[Suc (length B) := 0, length B := (b + 1) mod 256] = B @ (b + 1) # 0 # post"
      using b(1) by (simp add: list_update_append)
    have "carry_up (length (B @ [b])) ((B @ [b]) @ x # post) = carry_up (length B) (B @ (b + 1) # 0 # post)"
      using x u by (subst carry_up.simps) (simp add: nth_append)
    then show ?thesis
      using 1 x dval_simps(2)[of "B @ [b]" x] by (intro exI[of _ tp] exI[of _ "C @ [0]"]) (simp add: take_append)
  qed
qed

lemma round_up_correct:
  assumes "digits A" "dval A + 1 < 10 ^ length A"
  obtains tp C where "round_up (length A) (A @ post) = Some (tp, C @ post)" "digits C" "length C = length A"
    "dval C = dval A + 1" "tp < length A" "take tp C = take tp A"
proof -
  obtain B x where A: "A = B @ [x]" using assms(2) by (cases A rule: rev_cases) auto
  have x: "x < 10" "digits B" using assms(1) by (simp_all add: A)
  have v: "dval (B @ [x + 1]) < 10 ^ Suc (length B)" using assms(2) by (simp add: A)
  have "round_up (length A) (A @ post) = carry_up (length B) (B @ (x + 1) # post)"
    using x(1) by (simp add: round_up_def A)
  then show ?thesis
    using carry_up_correct[OF x(2) _ v, of post] x(1) that by (auto simp: A)
qed

text \<open>Texts of digits with a point.\<close>

lemma map_nth_upt: "b \<le> length E \<Longrightarrow> map ((!) E) [a..<b] = drop a (take b E)"
  by (rule nth_equalityI) simp_all

lemma digits_text_part:
  assumes "digits E" "b \<le> length E" "\<And>i. a \<le> i \<Longrightarrow> i < b \<Longrightarrow> i \<noteq> cpdec"
  shows "digits_text a cpdec b (E @ post) = map digit_chr (drop a (take b E))"
proof -
  have "map (\<lambda>i. (if i = cpdec then ''.'' else '''') @ [char_of ((E @ post) ! i + 48)]) [a..<b] = map (\<lambda>i. [digit_chr (E ! i)]) [a..<b]"
  proof (rule map_cong[OF refl])
    fix i assume "i \<in> set [a..<b]"
    then have "E ! i < 10" "i \<noteq> cpdec" "i < length E" using assms by (auto simp: digits_def)
    then show "(if i = cpdec then ''.'' else '''') @ [char_of ((E @ post) ! i + 48)] = [digit_chr (E ! i)]"
      by (simp add: nth_append char_digit)
  qed
  then have "digits_text a cpdec b (E @ post) = concat (map (\<lambda>d. [digit_chr d]) (map ((!) E) [a..<b]))"
    by (simp only: digits_text_def map_map o_def)
  also have "\<dots> = map digit_chr (drop a (take b E))" by (simp only: map_nth_upt[OF assms(2)] concat_map_singleton)
  finally show ?thesis .
qed

lemma digits_text_point:
  assumes "digits E" "cp \<le> cpdec" "cpdec \<le> length E"
  shows "digits_text cp cpdec (length E) (E @ post) = map digit_chr (drop cp (take cpdec E)) @
    (if cpdec = length E then '''' else ''.'' @ map digit_chr (drop cpdec E))"
proof (cases "cpdec = length E")
  case True
  then show ?thesis using digits_text_part[OF assms(1), of cpdec cp cpdec post] by simp
next
  case False
  then have l: "cpdec < length E" using assms(3) by simp
  have "E ! cpdec < 10" using assms(1) l by (auto simp: digits_def)
  then have "digits_text cpdec cpdec (Suc cpdec) (E @ post) = ''.'' @ [digit_chr (E ! cpdec)]"
    using l by (simp add: digits_text_def nth_append char_digit)
  moreover have "digits_text cp cpdec (length E) (E @ post) = digits_text cp cpdec cpdec (E @ post) @
      digits_text cpdec cpdec (Suc cpdec) (E @ post) @ digits_text (Suc cpdec) cpdec (length E) (E @ post)"
  proof -
    have "[cp..<length E] = [cp..<cpdec] @ [cpdec..<length E]" "[cpdec..<length E] = [cpdec..<Suc cpdec] @ [Suc cpdec..<length E]"
      using assms(2) l upt_add_eq_append[of cp cpdec "length E - cpdec"] by (simp_all add: upt_conv_Cons)
    then show ?thesis by (simp only: digits_text_def map_append concat_append append_assoc)
  qed
  moreover have "digits_text cp cpdec cpdec (E @ post) = map digit_chr (drop cp (take cpdec E))"
    by (rule digits_text_part) (use assms in auto)
  moreover have "digits_text (Suc cpdec) cpdec (length E) (E @ post) = map digit_chr (drop (Suc cpdec) E)"
    using digits_text_part[OF assms(1), of "length E" "Suc cpdec" cpdec post] by simp
  moreover have "drop cpdec E = E ! cpdec # drop (Suc cpdec) E" using l by (simp add: Cons_nth_drop_Suc)
  ultimately show ?thesis using False by simp
qed

lemma ndigs_list:
  assumes "digits ds" "hd ds \<noteq> 0" "ds \<noteq> []" shows "ndigs (dval ds) = ds"
proof -
  note u = digits_unique[OF assms(1)]
  have "length ds - length (ndigs (dval ds)) = 0"
  proof (rule ccontr)
    assume "length ds - length (ndigs (dval ds)) \<noteq> 0"
    then have "hd (replicate (length ds - length (ndigs (dval ds))) 0 @ ndigs (dval ds)) = (0 :: nat)"
      by (cases "length ds - length (ndigs (dval ds))") simp_all
    then show False using u assms(2) by metis
  qed
  then show ?thesis using u by simp
qed

definition whole_digits :: "nat \<Rightarrow> nat list" where
  "whole_digits v = (if v = 0 then [0] else ndigs v)"

lemma dval_Cons: "dval (d # ds) = d * 10 ^ length ds + dval ds"
  using dval_append[of "[d]" ds] by (simp add: dval_def)

lemma strip_zeros:
  assumes "digits F" "cp < length F"
  shows "drop (skip_zeros (length F - 1 - cp) cp (F @ post)) F = whole_digits (dval (drop cp F)) \<and>
    skip_zeros (length F - 1 - cp) cp (F @ post) < length F"
  using assms(2)
proof (induction "length F - 1 - cp" arbitrary: cp)
  case 0
  then have "drop cp F = [F ! cp]" using Cons_nth_drop_Suc[of cp F] by simp
  moreover have "F ! cp < 10" using assms(1) 0(2) by (auto simp: digits_def)
  ultimately show ?case using 0 by (simp add: whole_digits_def dval_Cons ndigs_pos flip: 0(1))
next
  case (Suc n)
  have e: "drop cp F = F ! cp # drop (Suc cp) F" using Suc.prems by (simp add: Cons_nth_drop_Suc)
  have dd: "digits (drop cp F)" using assms(1) by (auto simp: digits_def dest: in_set_dropD)
  show ?case
  proof (cases "F ! cp = 0")
    case True
    have "dval (drop cp F) = dval (drop (Suc cp) F)" using True by (simp add: e dval_Cons)
    moreover have "n = length F - 1 - Suc cp" "Suc cp < length F" using Suc.hyps(2) by simp_all
    moreover have "length F - 1 - cp = Suc (length F - 1 - Suc cp)" using Suc.hyps(2) by simp
    ultimately show ?thesis
      using Suc.hyps(1)[of "Suc cp"] Suc.prems True by (simp only: skip_zeros.simps) (simp add: nth_append)
  next
    case False
    then have "ndigs (dval (drop cp F)) = drop cp F" using ndigs_list[OF dd] by (simp add: e)
    moreover have "dval (drop cp F) \<noteq> 0" using False by (simp add: e dval_Cons)
    moreover have "length F - 1 - cp = Suc (length F - 1 - Suc cp)" using Suc.hyps(2) by simp
    ultimately show ?thesis using Suc.prems False by (simp only: skip_zeros.simps) (simp add: whole_digits_def nth_append)
  qed
qed

section \<open>The reference: a number with \<open>q\<close> decimals\<close>

definition fixed_text :: "nat \<Rightarrow> nat \<Rightarrow> string" where
  "fixed_text q N = dec_str (N div 10 ^ q) @ (if q = 0 then '''' else ''.'' @ pad (CHR ''0'') q (dec_str (N mod 10 ^ q)))"

lemma whole_digits_text: "map digit_chr (whole_digits v) = dec_str v"
  by (simp add: whole_digits_def dec_str_ndigs)

text \<open>The digits before the point are stripped of zeros from \<open>cp\<close> on.\<close>

lemma text_from:
  assumes "digits E" "cp < cpdec" "cpdec \<le> length E"
  shows "digits_text (skip_zeros (cpdec - 1 - cp) cp (E @ post)) cpdec (length E) (E @ post) =
    fixed_text (length E - cpdec) (dval (drop cp E))"
proof -
  define F G where "F = take cpdec E" and "G = drop cpdec E"
  have E: "E = F @ G" and F: "length F = cpdec" "digits F" and G: "digits G" "length G = length E - cpdec"
    using assms(1,3) by (auto simp: F_def G_def digits_def dest: in_set_takeD in_set_dropD)
  let ?c = "skip_zeros (cpdec - 1 - cp) cp (E @ post)"
  have c: "drop ?c F = whole_digits (dval (drop cp F))" "?c < cpdec"
    using strip_zeros[of F cp "G @ post"] F assms(2) by (simp_all add: E)
  have d: "dval (drop cp E) = dval (drop cp F) * 10 ^ length G + dval G"
    using F assms(2) by (simp add: E dval_append)
  have g: "dval G < 10 ^ length G" by (rule dval_less[OF G(1)])
  have dm: "dval (drop cp E) div 10 ^ length G = dval (drop cp F)" "dval (drop cp E) mod 10 ^ length G = dval G"
    using g by (simp_all add: d)
  have "digits_text ?c cpdec (length E) (E @ post) = map digit_chr (drop ?c F) @
      (if cpdec = length E then '''' else ''.'' @ map digit_chr G)"
    using digits_text_point[OF assms(1), of ?c cpdec post] c(2) assms(3) by (simp add: F_def G_def)
  also have "\<dots> = fixed_text (length G) (dval (drop cp E))"
    unfolding c(1) whole_digits_text fixed_text_def dm using pad_digits[OF G(1)] G(2) assms(3) by (cases "G = []") simp_all
  finally show ?thesis by (simp add: G(2))
qed

lemma dval_drop_zeros:
  assumes "\<forall>i<cp. E ! i = 0" "cp \<le> length E" shows "dval (drop cp E) = dval E"
proof -
  have "take cp E = replicate cp 0" using assms by (intro nth_equalityI) simp_all
  then show ?thesis using dval_zeros(2)[of cp "drop cp E"] append_take_drop_id[of cp E] by metis
qed

lemma skip_zeros_end:
  "cp < cpdec \<Longrightarrow> (let c = skip_zeros (cpdec - cp) cp b in if c = cpdec then c - 1 else c) = skip_zeros (cpdec - 1 - cp) cp b"
proof (induction "cpdec - 1 - cp" arbitrary: cp)
  case 0
  then have "cpdec = Suc cp" by simp
  then show ?case by (simp add: Let_def)
next
  case (Suc n)
  then have e: "cpdec - cp = Suc (cpdec - Suc cp)" "cpdec - 1 - cp = Suc (cpdec - 1 - Suc cp)" by simp_all
  have "Suc cp < cpdec" "n = cpdec - 1 - Suc cp" using Suc.hyps(2) by simp_all
  then show ?case using Suc.hyps(1)[of "Suc cp"] unfolding e by (auto simp: Let_def)
qed

lemma text_stripped:
  assumes "digits E" "cp \<le> cpdec" "0 < cpdec" "cpdec \<le> length E" "\<forall>i<cp. E ! i = 0"
  shows "(let c = skip_zeros (cpdec - cp) cp (E @ post); c = (if c = cpdec then c - 1 else c)
      in digits_text c cpdec (length E) (E @ post)) = fixed_text (length E - cpdec) (dval E)"
proof (cases "cp < cpdec")
  case True
  then show ?thesis
    using text_from[OF assms(1) True assms(4), of post] skip_zeros_end[OF True, of "E @ post"] dval_drop_zeros[OF assms(5)] assms(4)
    by (simp add: Let_def)
next
  case False
  then have cp: "cp = cpdec" using assms(2) by simp
  have "skip_zeros 0 (cpdec - 1) (E @ post) = cpdec - 1" by simp
  then have "digits_text (cpdec - 1) cpdec (length E) (E @ post) = fixed_text (length E - cpdec) (dval (drop (cpdec - 1) E))"
    using text_from[OF assms(1), of "cpdec - 1" cpdec post] assms(3,4) by simp
  moreover have "dval (drop (cpdec - 1) E) = dval E"
    using assms(3,4,5) by (intro dval_drop_zeros) (auto simp: cp)
  ultimately show ?thesis by (simp add: cp)
qed

section \<open>dolfptoa prints the rounded value\<close>

definition decimals :: "int \<Rightarrow> bool \<Rightarrow> nat" where
  "decimals ndec msec = nat (min 12 (if msec then max 3 (ndec + 3) else max 0 ndec))"


text \<open>Fraction and rounding: \<open>D\<close> decimals, and the value times \<open>10 ^ D\<close> rounded, a half up.\<close>

definition fraction_result ::
  "nat \<Rightarrow> nat list \<Rightarrow> nat \<Rightarrow> nat \<Rightarrow> nat \<Rightarrow> nat \<times> nat \<times> nat \<times> nat list \<Rightarrow> bool" where
  "fraction_result D A f cp N r \<longleftrightarrow> (case r of (dec, cp', cpend, cbuf) \<Rightarrow>
     \<exists>E post. cbuf = E @ post \<and> length cbuf = 24 \<and> cpend + dec = length E \<and> length E = 10 + D \<and> digits E \<and>
       dval E = N \<and> cp' \<le> cp \<and> (\<forall>i<cp'. E ! i = 0))"

lemma half_of_2_32: "2 ^ 32 \<le> int n + int n \<longleftrightarrow> 2 ^ 31 \<le> n"
  by simp

lemma bit31_unat: "(x :: u32) AND 0x80000000 = 0 \<longleftrightarrow> unat x < 2 ^ 31"
proof -
  have "(x AND 0x80000000 \<noteq> 0) \<longleftrightarrow> 2 ^ 32 \<le> uint x + uint x" by (simp only: and_80000000 bit31_carry)
  moreover have "uint x = int (unat x)" by simp
  ultimately show ?thesis using half_of_2_32[of "unat x"] by (metis not_le)
qed

lemma fraction_phase:
  assumes A: "digits A" "length A = 10" "dval A < 2 ^ 32" and D: "D \<le> 12" and cp: "\<forall>i<cp. A ! i = 0" "cp \<le> 10" and f: "f \<noteq> 0"
    and N: "N = ((dval A * 2 ^ 32 + unat f) * 10 ^ D + 2 ^ 31) div 2 ^ 32"
  shows "\<exists>r. do { (dec, work, cpend, cbuf) \<leftarrow> frac_digits D \<lparr>l_ui = 0, l_uf = f\<rparr> 10 (A @ replicate 14 0);
           if l_uf work AND 0x80000000 = 0 then Some (dec, cp, cpend, cbuf)
           else do { (tp, cbuf) \<leftarrow> round_up cpend cbuf; Some (dec, if tp < cp then tp else cp, cpend, cbuf) } } = Some r \<and>
         fraction_result D A (unat f) cp N r"
proof -
  define X where "X = dval A * 2 ^ 32 + unat f"
  obtain A' dec' work' r' where
    1: "frac_digits D \<lparr>l_ui = 0, l_uf = f\<rparr> (length A) (A @ replicate 14 0) = Some (dec', work', length A', A' @ replicate r' 0)"
    and A': "digits A'" "length A' + dec' = length A + D" "dec' \<le> r'" "length A' + r' = length A + 14" "take (length A) A' = A"
    and v: "dval A' * 2 ^ 32 + unat (l_uf work') = X * 10 ^ (D - dec')" and z: "0 < dec' \<Longrightarrow> l_uf work' = 0"
    by (rule frac_digits_correct[of A D 14 "\<lparr>l_ui = 0, l_uf = f\<rparr>" X]) (use assms in \<open>auto simp: X_def\<close>)
  have pre: "A' ! i = 0" if "i < cp" for i
    using that cp A'(5) A(2) nth_take[of i "length A" A'] by simp
  have len: "10 \<le> length A'" using arg_cong[OF A'(5), of length] A(2) by simp
  then have dd: "dec' \<le> D" using A'(2) A(2) by simp
  show ?thesis
  proof (cases "l_uf work' AND 0x80000000 = 0")
    case True
    have "dval A' * 10 ^ dec' = N"
    proof (cases "dec' = 0")
      case True': True
      then have "X * 10 ^ D = dval A' * 2 ^ 32 + unat (l_uf work')" using v by simp
      moreover have "unat (l_uf work') < 2 ^ 31" using True by (simp only: bit31_unat)
      ultimately show ?thesis unfolding N X_def[symmetric] using True' by simp
    next
      case False
      then have "dval A' * 2 ^ 32 = X * 10 ^ (D - dec')" using v z by simp
      then have "dval A' * 2 ^ 32 * 10 ^ dec' = X * (10 ^ (D - dec') * 10 ^ dec')" by simp
      also have "10 ^ (D - dec') * 10 ^ dec' = (10 :: nat) ^ D" using dd by (simp flip: power_add)
      finally have "X * 10 ^ D = dval A' * 10 ^ dec' * 2 ^ 32" by simp
      then show ?thesis unfolding N X_def[symmetric] by simp
    qed
    then have "dval (A' @ replicate dec' 0) = N" by (simp add: dval_append)
    moreover have "A' @ replicate r' 0 = (A' @ replicate dec' 0) @ replicate (r' - dec') 0"
      using A'(3) by (simp flip: replicate_add)
    moreover have "\<forall>i<cp. (A' @ replicate dec' 0) ! i = 0" using pre cp(2) len by (simp add: nth_append)
    ultimately have "fraction_result D A (unat f) cp N (dec', cp, length A', A' @ replicate r' 0)"
      using A' A(2) unfolding fraction_result_def prod.case
      by (intro exI[of _ "A' @ replicate dec' 0"] exI[of _ "replicate (r' - dec') 0"]) simp
    then show ?thesis using True by (simp add: 1[unfolded A(2)])
  next
    case False
    then have u: "2 ^ 31 \<le> unat (l_uf work')" by (simp only: bit31_unat not_less)
    then have d0: "dec' = 0" using z by (cases "dec' = 0") auto
    have lA: "length A' = 10 + D" using A'(2) A(2) d0 by simp
    have e: "X * 10 ^ D = dval A' * 2 ^ 32 + unat (l_uf work')" using v d0 by simp
    have "X < 2 ^ 32 * 2 ^ 32" using A(3) unat_u32[of f] unfolding X_def by simp
    then have "X * 10 ^ D < 2 ^ 32 * 2 ^ 32 * 10 ^ D" by simp
    then have "dval A' * 2 ^ 32 < (2 ^ 32 * 10 ^ D) * 2 ^ 32" using e by simp
    then have "dval A' + 1 \<le> 2 ^ 32 * 10 ^ D" by simp
    also have "\<dots> < 10 ^ 10 * 10 ^ D" by simp
    also have "\<dots> = 10 ^ length A'" by (simp add: lA power_add)
    finally have "dval A' + 1 < 10 ^ length A'" .
    then obtain tp C where C: "round_up (length A') (A' @ replicate r' 0) = Some (tp, C @ replicate r' 0)" "digits C"
      "length C = length A'" "dval C = dval A' + 1" "tp < length A'" "take tp C = take tp A'"
      using round_up_correct[OF A'(1)] by metis
    have "dval A' + 1 = N"
      unfolding N X_def[symmetric] e using u unat_u32[of "l_uf work'"]
      by (intro div_nat_eqI[symmetric]) simp_all
    then have n: "dval C = N" by (simp add: C(4))
    let ?cp = "if tp < cp then tp else cp"
    have "\<forall>i<?cp. C ! i = 0"
    proof (intro allI impI)
      fix i assume "i < ?cp"
      then have i: "i < tp" "i < cp" by (auto split: if_splits)
      then have "C ! i = A' ! i" using C(6) nth_take[of i tp C] nth_take[of i tp A'] by simp
      then show "C ! i = 0" using pre[OF i(2)] by simp
    qed
    then have "fraction_result D A (unat f) cp N (dec', ?cp, length A', C @ replicate r' 0)"
      using A' A(2) C lA d0 n unfolding fraction_result_def prod.case
      by (intro exI[of _ C] exI[of _ "replicate r' 0"]) simp
    then show ?thesis using False by (simp add: 1[unfolded A(2)] C(1))
  qed
qed

lemma fraction_none:
  assumes "digits A" "length A = 10" "D \<le> 12" "\<forall>i<cp. A ! i = 0" "cp \<le> 10"
    and "N = ((dval A * 2 ^ 32 + 0) * 10 ^ D + 2 ^ 31) div 2 ^ 32"
  shows "fraction_result D A 0 cp N (D, cp, 10, A @ replicate 14 0)"
proof -
  have "A @ replicate 14 0 = (A @ replicate D 0) @ replicate (14 - D) 0" using assms(3) by (simp flip: replicate_add)
  moreover have "dval (A @ replicate D 0) = N" unfolding assms(6) by (simp add: dval_append)
  moreover have "\<forall>i<cp. (A @ replicate D 0) ! i = 0" using assms by (simp add: nth_append)
  ultimately show ?thesis
    using assms unfolding fraction_result_def prod.case
    by (intro exI[of _ "A @ replicate D 0"] exI[of _ "replicate (14 - D) 0"]) simp
qed

lemma and_32: "unat ((x :: u64) AND 0xffffffff) = unat x mod 2 ^ 32"
proof -
  have "x AND 0xffffffff = take_bit 32 x" using take_bit_eq_mask[of 32 x] by (simp add: mask_eq_exp_minus_1)
  then show ?thesis by (simp only: unsigned_take_bit_eq) (rule take_bit_eq_mod)
qed

lemma unat_ucast_32: "unat (ucast (x :: u64) :: u32) = unat x mod 2 ^ 32"
  by (simp add: unsigned_ucast_eq take_bit_eq_mod)

text \<open>The integral part, right-aligned in ten places.\<close>

lemma integral_phase:
  assumes "n < 2 ^ 32"
  obtains lwork cp0 cbuf0 A cp where "long_digits n 10 (replicate 24 0) = Some (lwork, cp0, cbuf0)"
    "short_digits (lwork mod 2 ^ 16) cp0 cbuf0 = Some (cp, A @ replicate 14 0)"
    "digits A" "length A = 10" "dval A = n" "\<forall>i<cp. A ! i = 0" "cp \<le> 10"
proof -
  have l: "length (ndigs n) \<le> 10" using assms by (simp add: ndigs_length)
  let ?A = "replicate (10 - length (ndigs n)) 0 @ ndigs n"
  have "replicate 24 0 = replicate 10 0 @ replicate 14 (0 :: nat)" by (simp flip: replicate_add)
  then have "long_digits n 10 (replicate 24 0) \<bind> (\<lambda>(lwork, cp, cbuf). short_digits (lwork mod 2 ^ 16) cp cbuf) =
      Some (10 - length (ndigs n), ?A @ replicate 14 0)"
    using short_digits_correct[OF l, of "replicate 14 0"] by (simp only: long_short_digits[OF assms]) simp
  then obtain lwork cp0 cbuf0 where 1: "long_digits n 10 (replicate 24 0) = Some (lwork, cp0, cbuf0)"
    "short_digits (lwork mod 2 ^ 16) cp0 cbuf0 = Some (10 - length (ndigs n), ?A @ replicate 14 0)"
    by (cases "long_digits n 10 (replicate 24 0)") auto
  show ?thesis
    by (rule that[OF 1]) (use l in \<open>simp_all add: nth_append\<close>)
qed

lemma dolfptoa_correct:
  "dolfptoa fpi fpv neg ndec msec = Some ((if neg then ''-'' else '''') @
     fixed_text (decimals ndec msec - (if msec then 3 else 0))
       ((((unat fpi mod 2 ^ 32) * 2 ^ 32 + unat fpv mod 2 ^ 32) * 10 ^ decimals ndec msec + 2 ^ 31) div 2 ^ 32))"
proof -
  define D where "D = decimals ndec msec"
  define n where "n = unat fpi mod 2 ^ 32"
  define f :: u32 where "f = ucast (fpv AND 0xffffffff)"
  define N where "N = ((n * 2 ^ 32 + unat f) * 10 ^ D + 2 ^ 31) div 2 ^ 32"
  define cpdec where "cpdec = (if msec then 13 else 10 :: nat)"
  have uf: "unat f = unat fpv mod 2 ^ 32" by (simp add: f_def unat_ucast_32 and_32)
  have f0: "fpv AND 0xffffffff = 0 \<longleftrightarrow> f = 0"
    using uf by (metis and_32 unat_0_iff)
  have D: "D \<le> 12" "cpdec \<le> 10 + D" "10 + D - cpdec = D - (if msec then 3 else 0)" "0 < cpdec" "10 \<le> cpdec"
    by (auto simp: D_def decimals_def cpdec_def)
  obtain lwork cp0 cbuf0 A cp where 1: "long_digits n 10 (replicate 24 0) = Some (lwork, cp0, cbuf0)"
    "short_digits (lwork mod 2 ^ 16) cp0 cbuf0 = Some (cp, A @ replicate 14 0)"
    and A: "digits A" "length A = 10" "dval A = n" "\<forall>i<cp. A ! i = 0" "cp \<le> 10"
    by (rule integral_phase[of n]) (auto simp: n_def)
  have "\<exists>r. (if fpv AND 0xffffffff = 0 then Some (D, cp, 10, A @ replicate 14 0)
      else do { (dec, work, cpend, cbuf) \<leftarrow> frac_digits D \<lparr>l_ui = 0, l_uf = f\<rparr> 10 (A @ replicate 14 0);
           if l_uf work AND 0x80000000 = 0 then Some (dec, cp, cpend, cbuf)
           else do { (tp, cbuf) \<leftarrow> round_up cpend cbuf; Some (dec, if tp < cp then tp else cp, cpend, cbuf) } }) = Some r \<and>
      fraction_result D A (unat f) cp N r"
  proof (cases "f = 0")
    case True
    then show ?thesis using fraction_none[OF A(1,2) D(1) A(4,5), of N] by (simp add: f0 N_def A(3))
  next
    case False
    have "dval A < 2 ^ 32" by (simp add: A(3) n_def)
    then show ?thesis using fraction_phase[OF A(1,2) _ D(1) A(4,5) False, of N] False by (simp add: f0 N_def A(3))
  qed
  then obtain dec cp' cpend E post where
    2: "(if fpv AND 0xffffffff = 0 then Some (D, cp, 10, A @ replicate 14 0)
      else do { (dec, work, cpend, cbuf) \<leftarrow> frac_digits D \<lparr>l_ui = 0, l_uf = f\<rparr> 10 (A @ replicate 14 0);
           if l_uf work AND 0x80000000 = 0 then Some (dec, cp, cpend, cbuf)
           else do { (tp, cbuf) \<leftarrow> round_up cpend cbuf; Some (dec, if tp < cp then tp else cp, cpend, cbuf) } }) = Some (dec, cp', cpend, E @ post)"
    and E: "length (E @ post) = 24" "cpend + dec = length E" "length E = 10 + D" "digits E" "dval E = N" "cp' \<le> cp" "\<forall>i<cp'. E ! i = 0"
    unfolding fraction_result_def by (auto split: prod.splits)
  have t: "(let c = skip_zeros (cpdec - cp') cp' (E @ post); c = (if c = cpdec then c - 1 else c)
      in digits_text c cpdec (length E) (E @ post)) = fixed_text (10 + D - cpdec) N"
    using text_stripped[OF E(4) _ D(4) _ E(7), of post] E(3,5,6) A(5) D by simp
  have d: "(if msec then (max 3 (ndec + 3), 13) else (max 0 ndec, 10)) = (if msec then max 3 (ndec + 3) else max 0 ndec, cpdec)"
    by (simp add: cpdec_def)
  have "\<not> length E > length (E @ post)" by simp
  then show ?thesis
    unfolding dolfptoa_def Let_def and_32 n_def[symmetric] f_def[symmetric] 1 bind.bind_lunit prod.case d
      D_def[unfolded decimals_def, symmetric] 2 E(2)
    using t D(3) by (simp add: D_def[symmetric] N_def uf n_def Let_def)
qed

section \<open>dofptoa loses a carry out of its leading digit\<close>

lemma fp_frac_digits_correct:
  assumes "digits A" "D \<le> r" "dval A * 2 ^ 16 + val mod 2 ^ 16 = Y"
  shows "\<exists>A' val'. fp_frac_digits D val (length A) (A @ replicate r 0) = Some (val', length A', A' @ replicate (r - D) 0) \<and>
    digits A' \<and> length A' = length A + D \<and> dval A' * 2 ^ 16 + val' mod 2 ^ 16 = Y * 10 ^ D"
  using assms
proof (induction D arbitrary: A val r Y)
  case 0
  then show ?case by auto
next
  case (Suc D)
  let ?val = "8 * (val mod 2 ^ 16) + 2 * (val mod 2 ^ 16)"
  have "val mod 2 ^ 16 < 2 ^ 16" by simp
  then have "?val < 10 * 2 ^ 16" by linarith
  then have d: "?val div 2 ^ 16 < 10" by (simp only: div_less_iff_less_mult)
  obtain r1 where r: "r = Suc r1" using Suc.prems(2) by (cases r) auto
  have y: "dval (A @ [?val div 2 ^ 16]) * 2 ^ 16 + ?val mod 2 ^ 16 = Y * 10"
  proof -
    have "?val div 2 ^ 16 * 2 ^ 16 + ?val mod 2 ^ 16 = ?val" by (rule div_mult_mod_eq)
    then have "dval (A @ [?val div 2 ^ 16]) * 2 ^ 16 + ?val mod 2 ^ 16 = 10 * dval A * 2 ^ 16 + ?val"
      by (simp only: dval_simps add_mult_distrib)
    also have "\<dots> = Y * 10" unfolding Suc.prems(3)[symmetric] by simp
    finally show ?thesis .
  qed
  have "(A @ replicate r 0)[length A := ?val div 2 ^ 16 mod 256] = (A @ [?val div 2 ^ 16]) @ replicate r1 0"
    using d by (simp only: r) simp
  then have step: "fp_frac_digits (Suc D) val (length A) (A @ replicate r 0) =
      fp_frac_digits D ?val (length (A @ [?val div 2 ^ 16])) ((A @ [?val div 2 ^ 16]) @ replicate r1 0)"
    by (simp only: fp_frac_digits.simps Let_def) (simp add: r)
  show ?case
    using Suc.IH[OF _ _ y, of r1] Suc.prems(1,2) d unfolding step r
    by (simp only: digits_simps) (auto simp: mult.assoc)
qed

lemma dval_drop: "digits E \<Longrightarrow> c \<le> length E \<Longrightarrow> dval (drop c E) = dval E mod 10 ^ (length E - c)"
proof -
  assume E: "digits E" "c \<le> length E"
  have "digits (drop c E)" using E(1) by (auto simp: digits_def dest: in_set_dropD)
  then have "dval (drop c E) < 10 ^ (length E - c)" using dval_less[of "drop c E"] by simp
  moreover have "dval E = dval (take c E) * 10 ^ (length E - c) + dval (drop c E)"
    using dval_append[of "take c E" "drop c E"] by simp
  ultimately show ?thesis by simp
qed

definition fp_decimals :: "int \<Rightarrow> bool \<Rightarrow> nat" where
  "fp_decimals ndec msec = nat (min 6 (if msec then max 3 (sint (word_of_int (ndec + 3) :: 16 word)) else ndec))"

text \<open>As many digits as the integral part has, at least one, and the decimals.\<close>

definition fp_places :: "u32 \<Rightarrow> int \<Rightarrow> bool \<Rightarrow> nat" where
  "fp_places fpv ndec msec = max 1 (length (ndigs (unat fpv div 2 ^ 16))) + fp_decimals ndec msec"

lemma fp_round_phase:
  assumes "digits A" "val mod 2 ^ 16 div 2 ^ 15 = 0 \<or> dval A + 1 < 10 ^ length A"
  shows "\<exists>C. (if val mod 2 ^ 16 div 2 ^ 15 = 0 then Some (A @ post) else map_option snd (round_up (length A) (A @ post))) = Some (C @ post) \<and>
    digits C \<and> length C = length A \<and> dval C = dval A + val mod 2 ^ 16 div 2 ^ 15"
proof (cases "val mod 2 ^ 16 div 2 ^ 15 = 0")
  case False
  have "val mod 2 ^ 16 div 2 ^ 15 < 2" by (simp add: div_less_iff_less_mult)
  then have "val mod 2 ^ 16 div 2 ^ 15 = 1" using False by simp
  moreover obtain tp C where "round_up (length A) (A @ post) = Some (tp, C @ post)" "digits C" "length C = length A" "dval C = dval A + 1"
    using round_up_correct[OF assms(1)] assms(2) False by metis
  ultimately show ?thesis by simp
qed (use assms(1) in auto)

lemma dofptoa_text:
  "dofptoa fpv neg ndec msec = Some ((if neg then ''-'' else '''') @
     fixed_text (fp_decimals ndec msec - (if msec then 3 else 0))
       ((unat fpv * 10 ^ fp_decimals ndec msec + 2 ^ 15) div 2 ^ 16 mod 10 ^ fp_places fpv ndec msec))"
proof -
  define D where "D = fp_decimals ndec msec"
  define v where "v = unat fpv"
  define i where "i = v div 2 ^ 16"
  define cpdec where "cpdec = (if msec then 8 else 5 :: nat)"
  define cp where "cp = 5 - max 1 (length (ndigs i))"
  define A where "A = replicate (5 - length (ndigs i)) 0 @ ndigs i"
  have v: "v < 2 ^ 32" unfolding v_def by (rule unat_u32)
  then have i: "i < 2 ^ 16" by (simp add: i_def div_less_iff_less_mult)
  then have l: "length (ndigs i) \<le> 5" by (simp add: ndigs_length)
  have A: "digits A" "length A = 5" "dval A = i" using l by (simp_all add: A_def)
  have D: "D \<le> 6" "cpdec \<le> 5 + D" "5 + D - cpdec = D - (if msec then 3 else 0)" "5 \<le> cpdec"
    by (auto simp: D_def fp_decimals_def cpdec_def)
  have "replicate 12 0 = replicate 5 0 @ replicate 7 (0 :: nat)" by (simp flip: replicate_add)
  then have 1: "(if v div 2 ^ 16 = 0 then Some (5 - 1, replicate 12 0) else short_digits (v div 2 ^ 16) 5 (replicate 12 0)) =
      Some (cp, A @ replicate 7 0)"
    unfolding i_def[symmetric] using short_digits_correct[OF l, of "replicate 7 0"] ndigs_pos[of i]
    by (cases "i = 0") (simp_all add: A_def cp_def)
  have "dval A * 2 ^ 16 + v mod 2 ^ 16 = v" by (simp only: A(3) i_def div_mult_mod_eq)
  then obtain A' val' where
    2: "fp_frac_digits D v 5 (A @ replicate 7 0) = Some (val', length A', A' @ replicate (7 - D) 0)"
    and A': "digits A'" "length A' = 5 + D" "dval A' * 2 ^ 16 + val' mod 2 ^ 16 = v * 10 ^ D"
    using fp_frac_digits_correct[OF A(1), of D 7 v v] D(1) A(2) by auto
  have "dval A' * 2 ^ 16 \<le> v * 10 ^ D" using A'(3) by linarith
  also have "\<dots> < 2 ^ 32 * 10 ^ D" using v by simp
  also have "\<dots> = 2 ^ 16 * 10 ^ D * 2 ^ 16" by simp
  finally have "dval A' + 1 \<le> 2 ^ 16 * 10 ^ D" by simp
  also have "\<dots> < 10 ^ 5 * 10 ^ D" by simp
  also have "\<dots> = 10 ^ length A'" by (simp add: A'(2) power_add)
  finally obtain C where
    3: "(if val' mod 2 ^ 16 div 2 ^ 15 = 0 then Some (A' @ replicate (7 - D) 0)
        else map_option snd (round_up (length A') (A' @ replicate (7 - D) 0))) = Some (C @ replicate (7 - D) 0)"
    and C: "digits C" "length C = 5 + D" "dval C = dval A' + val' mod 2 ^ 16 div 2 ^ 15"
    using fp_round_phase[OF A'(1), of val' "replicate (7 - D) 0"] A'(2) by auto
  have "(v * 10 ^ D + 2 ^ 15) div 2 ^ 16 = dval A' + (val' mod 2 ^ 16 + 2 ^ 15) div 2 ^ 16"
    unfolding A'(3)[symmetric] by (simp add: add.assoc)
  also have "(val' mod 2 ^ 16 + 2 ^ 15) div 2 ^ 16 = val' mod 2 ^ 16 div 2 ^ 15"
  proof (cases "val' mod 2 ^ 16 < 2 ^ 15")
    case False
    have "val' mod 2 ^ 16 < 2 ^ 16" by simp
    then have "(val' mod 2 ^ 16 + 2 ^ 15) div 2 ^ 16 = 1" "val' mod 2 ^ 16 div 2 ^ 15 = 1"
      using False by (auto intro!: div_nat_eqI)
    then show ?thesis by simp
  qed simp
  finally have N: "dval C = (v * 10 ^ D + 2 ^ 15) div 2 ^ 16" by (simp add: C(3))
  have cp: "cp < cpdec" "length C - cp = fp_places fpv ndec msec" "cp \<le> length C"
    using D(4) l by (auto simp: cp_def C(2) fp_places_def D_def i_def v_def)
  have t: "digits_text (skip_zeros (cpdec - 1 - cp) cp (C @ replicate (7 - D) 0)) cpdec (length C) (C @ replicate (7 - D) 0) =
      fixed_text (5 + D - cpdec) (dval C mod 10 ^ fp_places fpv ndec msec)"
    using text_from[OF C(1) cp(1), of "replicate (7 - D) 0"] D(2) C(2) dval_drop[OF C(1) cp(3)] cp(2) by simp
  have d: "(if msec then (max 3 (sint (word_of_int (ndec + 3) :: 16 word)), 8) else (ndec, 5)) =
      (if msec then max 3 (sint (word_of_int (ndec + 3) :: 16 word)) else ndec, cpdec)"
    by (simp add: cpdec_def)
  have "length A' = length C" by (simp add: A'(2) C(2))
  then show ?thesis
    unfolding dofptoa_def Let_def v_def[symmetric] 1 bind.bind_lunit prod.case d D_def[unfolded fp_decimals_def, symmetric] 2 3
    using t D(3) by (simp add: D_def[symmetric] N v_def)
qed

text \<open>Unless the rounding carries out of the leading digit this is the value rounded.\<close>

lemma dofptoa_rounds:
  assumes "(unat fpv * 10 ^ fp_decimals ndec msec + 2 ^ 15) div 2 ^ 16 < 10 ^ fp_places fpv ndec msec"
  shows "dofptoa fpv neg ndec msec = Some ((if neg then ''-'' else '''') @
     fixed_text (fp_decimals ndec msec - (if msec then 3 else 0)) ((unat fpv * 10 ^ fp_decimals ndec msec + 2 ^ 15) div 2 ^ 16))"
  using dofptoa_text[of fpv neg ndec msec] assms by simp

text \<open>A value just below a power of ten is printed as zero.\<close>

lemma dofptoa_loses_carry:
  assumes "1 \<le> k" "k \<le> 4" "D \<le> 4"
  shows "dofptoa (of_nat (10 ^ k * 2 ^ 16 - 1)) neg (int D) False = Some ((if neg then ''-'' else '''') @ fixed_text D 0)"
proof -
  have k: "k = 1 \<or> k = 2 \<or> k = 3 \<or> k = 4" using assms(1,2) by auto
  let ?v = "10 ^ k * 2 ^ 16 - 1 :: nat"
  have u: "unat (of_nat ?v :: u32) = ?v" using k by (auto simp: unat_of_nat)
  have d: "fp_decimals (int D) False = D" using assms(3) by (simp add: fp_decimals_def)
  have "?v div 2 ^ 16 = 10 ^ k - 1" using k by auto
  moreover have "length (ndigs (10 ^ k - 1)) \<le> k" "\<not> length (ndigs (10 ^ k - 1)) \<le> k - 1"
    unfolding ndigs_length using k by auto
  ultimately have p: "fp_places (of_nat ?v) (int D) False = k + D"
    using assms(1) unfolding fp_places_def u d by (simp add: max_def)
  have "10 ^ D \<le> (10 ^ 4 :: nat)" using assms(3) by (intro power_increasing) simp_all
  then have D: "10 ^ D \<le> (2 ^ 15 :: nat)" by simp
  have "?v * 10 ^ D + 2 ^ 15 = 10 ^ (k + D) * 2 ^ 16 + (2 ^ 15 - 10 ^ D)"
    using D k by (simp add: diff_mult_distrib power_add)
  then have "(?v * 10 ^ D + 2 ^ 15) div 2 ^ 16 = 10 ^ (k + D)" by (simp add: div_nat_eqI)
  then show ?thesis unfolding dofptoa_text p d u by simp
qed

section \<open>Reading decimals\<close>

lemma strchr_dec: "strchr dec_digits c = (if c_isdigit c then Some (digit_val c) else None)"
proof -
  have s: "dec_digits = map digit_chr [0..<10]" by code_simp
  show ?thesis
  proof (cases "c_isdigit c")
    case True
    define n where "n = digit_val c"
    have n: "n < 10" "c = digit_chr n" using True by (simp_all add: n_def digit_val_less digit_chr_val)
    have "takeWhile (\<lambda>x. x \<noteq> c) (map digit_chr [0..<10]) = map digit_chr [0..<n]"
    proof -
      have "[0..<10] = [0..<n] @ n # [Suc n..<10]" using n(1) upt_add_eq_append[of 0 n "10 - n"] by (simp add: upt_conv_Cons)
      moreover have "digit_chr j \<noteq> c" if "j < n" for j using that n by (metis digit_chr(2) less_trans nat_neq_iff)
      ultimately show ?thesis using n(2) by (simp add: takeWhile_append)
    qed
    moreover have "c \<in> set (map digit_chr [0..<10])" using n by auto
    ultimately show ?thesis using True by (simp add: strchr_def s n_def)
  next
    case False
    then have "c \<notin> set (map digit_chr [0..<10])" by auto
    then show ?thesis using False by (simp add: strchr_def s)
  qed
qed

definition no_digit :: "string \<Rightarrow> bool" where
  "no_digit r \<longleftrightarrow> (r = [] \<or> \<not> c_isdigit (hd r))"

lemma dec_loop_digits:
  "\<forall>c\<in>set ds. c_isdigit c \<Longrightarrow> no_digit r \<Longrightarrow>
     dec_loop v (ds @ r) = (v * 10 ^ length ds + of_nat (dec_val ds), r)"
proof (induction ds arbitrary: v)
  case Nil
  then show ?case by (cases r) (simp_all add: no_digit_def strchr_dec)
next
  case (Cons c ds)
  have "dec_loop v ((c # ds) @ r) = dec_loop (v * 10 + of_nat (digit_val c)) (ds @ r)"
    using Cons.prems(1) by (simp add: strchr_dec push_bit_eq_mult algebra_simps)
  then show ?case using Cons.IH Cons.prems by (simp add: dec_val_Cons algebra_simps)
qed

lemma frac_loop_digits:
  "\<forall>c\<in>set ds. c_isdigit c \<Longrightarrow> no_digit r \<Longrightarrow> n + length ds \<le> 9 \<Longrightarrow>
     frac_loop n v (ds @ r) = (n + length ds, v * 10 ^ length ds + of_nat (dec_val ds), r)"
proof (induction ds arbitrary: n v)
  case Nil
  then show ?case by (cases r) (auto simp: no_digit_def strchr_dec)
next
  case (Cons c ds)
  have "frac_loop n v ((c # ds) @ r) = frac_loop (n + 1) (v * 10 + of_nat (digit_val c)) (ds @ r)"
    using Cons.prems by (simp add: strchr_dec push_bit_eq_mult algebra_simps)
  then show ?case using Cons.IH[of "n + 1"] Cons.prems by (simp add: dec_val_Cons algebra_simps)
qed

text \<open>The long division.\<close>

lemma unat_double: "unat x < 2 ^ 63 \<Longrightarrow> unat (push_bit 1 x :: u64) = 2 * unat x"
  by (simp add: push_bit_eq_mult unat_word_ariths)

lemma or_bit_add:
  assumes "2 ^ Suc n dvd unat (t :: u64)" "n < 64"
  shows "unat (t OR 2 ^ n) = unat t + 2 ^ n"
proof -
  have "\<not> bit (unat t) n" using assms(1) by (auto simp: bit_iff_odd elim!: dvdE)
  then have "unat t AND 2 ^ n = 0" by (simp add: bit_iff_odd and_exp_eq_0_iff_not_bit)
  moreover have "unat (t OR 2 ^ n) = unat t OR 2 ^ n"
  proof -
    have "unat (of_nat (2 ^ n) :: u64) = 2 ^ n"
      using assms(2) power_strict_increasing[of n 64 "2 :: nat"] by (simp only: unat_of_nat) simp
    then show ?thesis by (simp add: unsigned_or_eq)
  qed
  ultimately show ?thesis by (simp add: disjunctive_add_eq_or)
qed

lemma frac_bits_divides:
  "unat d < unat T \<Longrightarrow> unat T \<le> 10 ^ 9 \<Longrightarrow> n \<le> 32 \<Longrightarrow> 2 ^ n dvd unat t \<Longrightarrow>
     frac_bits n T d t = (d', t') \<Longrightarrow>
     unat t' = unat t + unat d * 2 ^ n div unat T \<and> unat d' = unat d * 2 ^ n mod unat T"
proof (induction n arbitrary: d t)
  case 0
  then show ?case by simp
next
  case (Suc n)
  have dd: "unat (push_bit 1 d) = 2 * unat d" using Suc.prems(1,2) by (intro unat_double) simp
  have dvd: "2 ^ n dvd unat t" using Suc.prems(4) by (auto intro: dvd_trans le_imp_power_dvd)
  show ?case
  proof (cases "push_bit 1 d \<ge> T")
    case True
    then have ge: "unat T \<le> 2 * unat d" by (simp only: word_le_nat_alt dd)
    have s: "unat (push_bit 1 d - T) = 2 * unat d - unat T" using ge dd by (simp add: unat_sub word_le_nat_alt)
    have o: "unat (t OR 2 ^ n) = unat t + 2 ^ n" using Suc.prems(3,4) by (intro or_bit_add) simp_all
    have "unat t' = unat t + 2 ^ n + (2 * unat d - unat T) * 2 ^ n div unat T \<and> unat d' = (2 * unat d - unat T) * 2 ^ n mod unat T"
      using Suc.IH[of "push_bit 1 d - T" "t OR 2 ^ n"] Suc.prems True dvd ge unfolding s o by simp
    moreover have "2 * unat d * 2 ^ n = (2 * unat d - unat T) * 2 ^ n + 2 ^ n * unat T"
      using ge by (metis le_add_diff_inverse2 distrib_right mult.commute)
    moreover have "0 < unat T" using Suc.prems(1) by simp
    ultimately show ?thesis by (simp add: mult.assoc mult.left_commute)
  next
    case False
    then have lt: "unat (push_bit 1 d) < unat T" by (simp only: word_le_nat_alt not_le)
    have "unat t' = unat t + 2 * unat d * 2 ^ n div unat T \<and> unat d' = 2 * unat d * 2 ^ n mod unat T"
      using Suc.IH[of "push_bit 1 d" t, unfolded dd] lt[unfolded dd] Suc.prems False dvd by (simp del: push_bit_Suc)
    then show ?thesis by (simp add: mult.assoc mult.left_commute)
  qed
qed

text \<open>Up to nine decimals give the nearest multiple of \<open>2 ^ -32\<close>, which for \<open>.9999999999\<close> is a whole unit.\<close>

lemma ten_power_word: "n \<in> {1..9} \<Longrightarrow> unat (ten_to_the_n ! n) = 10 ^ n"
proof -
  have "\<forall>n\<in>set [1..<10]. unat (ten_to_the_n ! n) = 10 ^ n" by (simp add: upt_conv_Cons ten_to_the_n_def)
  then show "n \<in> {1..9} \<Longrightarrow> unat (ten_to_the_n ! n) = 10 ^ n" by auto
qed

lemma div_half_down:
  assumes "0 < T"
  shows "(2 * q + T - 1) div (2 * T) = q div T + (if 2 * (q mod T) > T then 1 else (0 :: nat))"
proof -
  define k r where "k = q div T" and "r = q mod T"
  have "q = k * T + r" "r < T" using assms by (simp_all add: k_def r_def)
  then have e: "2 * q + T - 1 = (2 * r + T - 1) + k * (2 * T)" using assms by (simp add: algebra_simps)
  have "(2 * q + T - 1) div (2 * T) = k + (2 * r + T - 1) div (2 * T)" unfolding e using assms by (subst div_mult_self1) simp_all
  moreover have "(2 * r + T - 1) div (2 * T) = (if 2 * r > T then 1 else 0)"
    using \<open>r < T\<close> assms by (auto intro!: div_nat_eqI)
  ultimately show ?thesis by (simp add: k_def r_def)
qed

lemma to_fraction_nearest:
  assumes "n \<in> {1..9}" "f < 10 ^ n"
  shows "unat (to_fraction n (of_nat f)) = (2 * f * 2 ^ 32 + 10 ^ n - 1) div (2 * 10 ^ n)"
proof -
  have b: "(10 :: nat) ^ n \<le> 10 ^ 9" using assms(1) by (intro power_increasing) auto
  define T where "T = ten_to_the_n ! n"
  have T: "unat T = 10 ^ n" unfolding T_def by (rule ten_power_word[OF assms(1)])
  obtain d' t' where e: "frac_bits 32 T (of_nat f) 0 = (d', t')" by fastforce
  have f: "unat (of_nat f :: u64) = f" using assms(2) b by (simp add: unat_of_nat)
  have r: "unat t' = f * 2 ^ 32 div 10 ^ n" "unat d' = f * 2 ^ 32 mod 10 ^ n"
    using frac_bits_divides[OF _ _ _ _ e] assms(2) b unfolding f T by simp_all
  define q where "q = f * 2 ^ 32"
  have "f * 2 ^ 32 \<le> 10 ^ n * 2 ^ 32" using assms(2) by simp
  then have "q div 10 ^ n \<le> 2 ^ 32" unfolding q_def by (metis div_le_mono nonzero_mult_div_cancel_left power_eq_0_iff zero_neq_numeral)
  then have "unat (t' + 1) = q div 10 ^ n + 1" using r(1) by (simp add: unat_word_ariths q_def)
  moreover have "q mod 10 ^ n < 10 ^ n" by simp
  then have "unat d' < 10 ^ 9" using r(2) b unfolding q_def[symmetric] by linarith
  then have "unat d' < 2 ^ 63" by simp
  then have "unat (push_bit 1 d') = 2 * (q mod 10 ^ n)" using r(2) unfolding q_def by (subst unat_double) simp_all
  ultimately have u: "unat (to_fraction n (of_nat f)) = q div 10 ^ n + (if 2 * (q mod 10 ^ n) > 10 ^ n then 1 else 0)"
    using assms(1) e r(1) unfolding to_fraction_def T_def[symmetric] by (auto simp: word_less_nat_alt T q_def)
  have "(2 * q + 10 ^ n - 1) div (2 * 10 ^ n) = q div 10 ^ n + (if 2 * (q mod 10 ^ n) > 10 ^ n then 1 else 0)"
    by (rule div_half_down) simp
  then show ?thesis unfolding u q_def by (simp add: mult.assoc)
qed

text \<open>The text of a number is read up to the nearest multiple of \<open>2 ^ -32\<close>.\<close>

lemma at_end_simps [simp]: "at_end []" "starts p [] \<longleftrightarrow> False" "starts p (c # cs) \<longleftrightarrow> p c"
  by (simp_all add: at_end_def starts_def)

lemma pad_zero_text:
  assumes "n < 10 ^ q" "0 < q"
  shows "length (pad (CHR ''0'') q (dec_str n)) = q" "dec_val (pad (CHR ''0'') q (dec_str n)) = n"
    "\<forall>c\<in>set (pad (CHR ''0'') q (dec_str n)). c_isdigit c"
proof -
  show "length (pad (CHR ''0'') q (dec_str n)) = q"
    using assms dec_str_length[of n q] by (simp add: pad_length max_def)
  have "dec_val (replicate k (CHR ''0'')) = 0" for k
    by (induction k) (simp_all add: dec_val_Cons digit_val_def)
  then show "dec_val (pad (CHR ''0'') q (dec_str n)) = n" by (simp add: pad_def dec_val_append)
  show "\<forall>c\<in>set (pad (CHR ''0'') q (dec_str n)). c_isdigit c"
    by (auto simp: pad_def c_isdigit_def dest: dec_str_digits)
qed

definition read_back :: "nat \<Rightarrow> nat \<Rightarrow> l_fp" where
  "read_back q N = \<lparr>l_ui = of_nat (N div 10 ^ q),
     l_uf = of_nat ((2 * (N mod 10 ^ q) * 2 ^ 32 + 10 ^ q - 1) div (2 * 10 ^ q))\<rparr>"

lemma fraction_below: "f < 10 ^ n \<Longrightarrow> n \<in> {1..9} \<Longrightarrow> (2 * f * 2 ^ 32 + 10 ^ n - 1) div (2 * 10 ^ n) < (2 ^ 32 :: nat)"
proof -
  assume "f < 10 ^ n" "n \<in> {1..9}"
  then have "(10 :: nat) ^ n \<le> 10 ^ 9" by (intro power_increasing) auto
  have "2 * f * 2 ^ 32 + 2 * 2 ^ 32 \<le> 2 * (10 ^ n * 2 ^ 32)" using \<open>f < 10 ^ n\<close> by simp
  then have "2 * f * 2 ^ 32 + 10 ^ n - 1 < 2 ^ 32 * (2 * 10 ^ n)" using \<open>10 ^ n \<le> 10 ^ 9\<close> by simp
  then show ?thesis by (simp add: div_less_iff_less_mult)
qed

lemma M_NEG_u64:
  fixes i f :: u64
  assumes "unat f < 2 ^ 32"
  shows "\<lparr>l_ui = ucast (fst (M_NEG i f)), l_uf = ucast (snd (M_NEG i f))\<rparr> = L_NEG \<lparr>l_ui = ucast i, l_uf = ucast f\<rparr>"
proof -
  have d: "ucast (scast x :: u64) = (x :: u32)" for x by (rule bit_word_eqI) (simp add: bit_simps)
  have n: "ucast (NOT i) = NOT (ucast i :: u32)" by (rule bit_word_eqI) (simp add: bit_simps)
  have "ucast f = (0 :: u32) \<longleftrightarrow> f = 0" using unat_ucast_32[of f] assms by (metis mod_less unat_eq_zero unsigned_0)
  then show ?thesis by (simp add: L_NEG_def mk_lfp_def M_NEG_u32) (simp add: M_NEG_def d n)
qed


lemma atolfp_fixed_text:
  assumes "q \<in> {1..9}"
  shows "atolfp ((if neg then ''-'' else '''') @ fixed_text q N) = Some (if neg then L_NEG (read_back q N) else read_back q N)"
proof -
  define I F where "I = dec_str (N div 10 ^ q)" and "F = pad (CHR ''0'') q (dec_str (N mod 10 ^ q))"
  have q: "0 < q" "q \<noteq> 0" "q \<le> 9" using assms by auto
  have I: "\<forall>c\<in>set I. c_isdigit c" "dec_val I = N div 10 ^ q" using dec_str_digits by (auto simp: I_def)
  obtain c I' where c: "I = c # I'" unfolding I_def using dec_str_not_Nil by (cases "dec_str (N div 10 ^ q)") simp_all
  have F: "\<forall>c\<in>set F. c_isdigit c" "dec_val F = N mod 10 ^ q" "length F = q"
    unfolding F_def using pad_zero_text[of "N mod 10 ^ q" q] q by simp_all
  have cd: "c_isdigit c" "\<not> c_isspace c" "c \<noteq> CHR ''-''" "c \<noteq> CHR ''+''"
    using I(1) c by (auto simp: digit_not_space) (auto simp: c_isdigit_def)
  have tx: "fixed_text q N = I @ CHR ''.'' # F" using q by (simp add: fixed_text_def I_def F_def)
  have sp: "\<not> c_isspace (CHR ''-'')" "\<not> c_isspace (CHR ''.'')" "\<not> c_isdigit (CHR ''.'')" by code_simp+
  have front: "dropWhile c_isspace ((if neg then ''-'' else '''') @ fixed_text q N) = (if neg then ''-'' else '''') @ fixed_text q N"
    using cd sp by (simp add: tx c)
  have d1: "dec_loop 0 (I @ CHR ''.'' # F) = (of_nat (N div 10 ^ q), CHR ''.'' # F)"
    using dec_loop_digits[OF I(1), of "CHR ''.'' # F" 0] sp I(2) by (simp add: no_digit_def)
  have d2: "frac_loop 0 0 F = (q, of_nat (N mod 10 ^ q), [])"
    using frac_loop_digits[OF F(1), of "[]" 0 0] F q by (simp add: no_digit_def)
  have r: "unat (to_fraction q (of_nat (N mod 10 ^ q))) = (2 * (N mod 10 ^ q) * 2 ^ 32 + 10 ^ q - 1) div (2 * 10 ^ q)"
    using assms by (intro to_fraction_nearest) simp_all
  define t where "t = to_fraction q (of_nat (N mod 10 ^ q))"
  have t: "unat t < 2 ^ 32" unfolding t_def r using assms by (intro fraction_below) simp_all
  have u: "of_nat ((2 * (N mod 10 ^ q) * 2 ^ 32 + 10 ^ q - 1) div (2 * 10 ^ q)) = (ucast t :: u32)"
    unfolding r[symmetric] t_def[symmetric] by simp
  have w: "(ucast (of_nat n :: u64) :: u32) = of_nat n" for n by (rule bit_word_eqI) (simp add: bit_simps)
  have rb: "read_back q N = \<lparr>l_ui = ucast (of_nat (N div 10 ^ q) :: u64), l_uf = ucast t\<rparr>"
    unfolding read_back_def u w ..
  have "atolfp ((if neg then ''-'' else '''') @ fixed_text q N) =
    (let (i, f) = (if neg then M_NEG (of_nat (N div 10 ^ q) :: u64) t else (of_nat (N div 10 ^ q), t)) in Some \<lparr>l_ui = ucast i, l_uf = ucast f\<rparr>)"
    unfolding atolfp_def Let_def front using cd d1 sp q
    by (cases neg; cases "M_NEG (of_nat (N div 10 ^ q) :: u64) t") (simp_all add: tx c at_end_def d2 flip: t_def)
  then show ?thesis using M_NEG_u64[OF t, of "of_nat (N div 10 ^ q)"] by (auto simp: rb split: prod.splits)
qed


section \<open>The magnitude printed\<close>

text \<open>The magnitude of a signed number: that of the most negative one is \<open>2 ^ 63\<close>.\<close>

definition magnitude :: "l_fp \<Rightarrow> nat" where
  "magnitude v = unat (if L_ISNEG v then - lfp_val v else lfp_val v)"

lemma unat_lfp_val: "unat (lfp_val v) = unat (l_ui v) * 2 ^ 32 + unat (l_uf v)"
proof -
  have "uint (lfp_val v) = int (unat (l_ui v) * 2 ^ 32 + unat (l_uf v))" by (simp add: lfp_val_def uint_fx)
  then show ?thesis by (metis unat_eq_nat_uint nat_int)
qed

lemma magnitude_le: "magnitude v \<le> 2 ^ 63"
proof -
  define x where "x = lfp_val v"
  have l: "- (2 ^ 63) \<le> sint x" "sint x < 2 ^ 63" using sint_greater_eq[of x] sint_less[of x] by simp_all
  have s: "sint x = uint x - of_bool (bit x 63) * 2 ^ 64" using sint_uint_if[of x] by simp
  show ?thesis
  proof (cases "sint x < 0")
    case True
    then have b: "uint x = sint x + 2 ^ 64" using s unsigned_greater_eq[of x] by (cases "bit x 63") auto
    have "uint (- x) = (- sint x) mod 2 ^ 64" by (simp add: uint_word_ariths b mod_minus_eq)
    also have "\<dots> = - sint x" using True l by (intro mod_pos_pos_trivial) simp_all
    finally have "unat (- x) \<le> 2 ^ 63" using l(1) by (simp add: unat_eq_nat_uint)
    then show ?thesis using True by (simp add: magnitude_def L_ISNEG_val flip: x_def)
  next
    case False
    then have "uint x = sint x" using s unsigned_less[of x] by (cases "bit x 63") auto
    then have "unat x \<le> 2 ^ 63" using l(2) by (simp add: unat_eq_nat_uint)
    then show ?thesis using False by (simp add: magnitude_def L_ISNEG_val flip: x_def)
  qed
qed

lemma mfptoa_signed_text:
  "mfptoa_signed (ucast (l_ui v)) (ucast (l_uf v)) ndec msec = Some ((if L_ISNEG v then ''-'' else '''') @
     fixed_text (decimals ndec msec - (if msec then 3 else 0)) ((magnitude v * 10 ^ decimals ndec msec + 2 ^ 31) div 2 ^ 32))"
proof -
  define i f :: u64 where "i = ucast (l_ui v)" and "f = ucast (l_uf v)"
  have e: "\<lparr>l_ui = l_ui v, l_uf = l_uf v\<rparr> = v" by (cases v) simp
  have c: "ucast i = l_ui v" "ucast f = l_uf v" unfolding i_def f_def by (rule bit_word_eqI; simp add: bit_simps)+
  have n: "M_ISNEG i \<longleftrightarrow> L_ISNEG v"
  proof -
    have zero: "ucast x = (0 :: u64) \<longleftrightarrow> x = 0" for x :: u32 by (auto simp: bit_eq_iff bit_simps) (use bit_imp_le_length[of x] in force)
    have "i AND 0x80000000 = ucast (l_ui v AND 0x80000000)" by (simp add: i_def unsigned_and_eq)
    then show ?thesis unfolding M_ISNEG_def L_ISNEG_def by (simp add: zero)
  qed
  have val: "(unat a mod 2 ^ 32) * 2 ^ 32 + unat b mod 2 ^ 32 = unat (lfp_val \<lparr>l_ui = ucast a, l_uf = ucast b\<rparr>)" for a b :: u64
    by (simp add: unat_lfp_val unat_ucast_32)
  have b: "unat f < 2 ^ 32" unfolding f_def using unat_u32[of "l_uf v"] by (simp add: unsigned_ucast_eq le_less_trans[OF take_bit_nat_less_eq_self])
  have pos: "(unat i mod 2 ^ 32) * 2 ^ 32 + unat f mod 2 ^ 32 = unat (lfp_val v)"
    unfolding val c e ..
  have neg: "(unat (fst (M_NEG i f)) mod 2 ^ 32) * 2 ^ 32 + unat (snd (M_NEG i f)) mod 2 ^ 32 = unat (- lfp_val v)"
    unfolding val M_NEG_u64[OF b] c e L_NEG_val ..
  show ?thesis
    unfolding mfptoa_signed_def i_def[symmetric] f_def[symmetric] n magnitude_def
    by (cases "L_ISNEG v"; cases "M_NEG i f")
       (use pos neg in \<open>simp_all add: dolfptoa_correct\<close>)
qed

lemma read_back_near:
  assumes "m \<le> 2 ^ 63"
  shows "\<bar>int (unat (lfp_val (read_back 9 ((m * 10 ^ 9 + 2 ^ 31) div 2 ^ 32)))) - int m\<bar> \<le> 2"
proof -
  define N where "N = (m * 10 ^ 9 + 2 ^ 31) div 2 ^ 32"
  define I F where "I = N div 10 ^ 9" and "F = (2 * (N mod 10 ^ 9) * 2 ^ 32 + 10 ^ 9 - 1) div (2 * 10 ^ 9)"
  have N: "N * 2 ^ 32 \<le> m * 10 ^ 9 + 2 ^ 31" "m * 10 ^ 9 + 2 ^ 31 < N * 2 ^ 32 + 2 ^ 32" unfolding N_def by simp_all
  have I: "I < 2 ^ 32" using N(1) assms unfolding I_def by (simp add: div_less_iff_less_mult)
  have F: "F < 2 ^ 32" unfolding F_def by (rule fraction_below) simp_all
  have v: "unat (lfp_val (read_back 9 N)) = I * 2 ^ 32 + F"
    unfolding unat_lfp_val read_back_def I_def[symmetric] F_def[symmetric] using I F by (simp add: unat_of_nat)
  have "N = I * 10 ^ 9 + N mod 10 ^ 9" by (simp add: I_def)
  moreover have "F * (2 * 10 ^ 9) \<le> 2 * (N mod 10 ^ 9) * 2 ^ 32 + 10 ^ 9 - 1"
    "2 * (N mod 10 ^ 9) * 2 ^ 32 + 10 ^ 9 - 1 < F * (2 * 10 ^ 9) + 2 * 10 ^ 9" unfolding F_def by simp_all
  ultimately show ?thesis unfolding v[unfolded N_def] using N by simp
qed

section \<open>Milliseconds\<close>

lemma digits_pad:
  assumes "\<forall>c\<in>set s. c_isdigit c" "s \<noteq> []"
  shows "s = pad (CHR ''0'') (length s) (dec_str (dec_val s))"
proof -
  have "dval (map digit_val s) = dec_val s" by (simp add: dval_def dec_val_def foldl_map)
  moreover have "digits (map digit_val s)" using assms(1) digit_val_less by (auto simp: digits_def)
  moreover have "map digit_chr (map digit_val s) = s" using assms(1) by (induction s) (auto simp: digit_chr_val)
  ultimately show ?thesis using pad_digits[of "map digit_val s"] assms(2) by simp
qed

text \<open>The point moved three places to the left.\<close>

lemma dec_str_split:
  assumes "1000 \<le> m"
  shows "dec_str m = dec_str (m div 1000) @ pad (CHR ''0'') 3 (dec_str (m mod 1000))"
proof -
  let ?t = "[digit_chr (m div 100 mod 10), digit_chr (m div 10 mod 10), digit_chr (m mod 10)]"
  have "dec_str m = dec_str (m div 1000) @ ?t"
  proof -
    have "\<not> m < 10" "\<not> m div 10 < 10" "\<not> m div 100 < 10" using assms by linarith+
    then show ?thesis
      by (simp add: dec_str.simps[of m] dec_str.simps[of "m div 10"] dec_str.simps[of "m div 100"] flip: div_mult2_eq)
  qed
  moreover have "dec_val ?t = m mod 1000"
    using mod_mult2_eq[of m 10 100] mod_mult2_eq[of "m div 10" 10 10] by (simp add: dec_val_Cons flip: div_mult2_eq)
  then have "?t = pad (CHR ''0'') 3 (dec_str (m mod 1000))" using digits_pad[of ?t] by (simp add: numeral_3_eq_3)
  ultimately show ?thesis by simp
qed

lemma pad_split:
  assumes "0 < q"
  shows "pad (CHR ''0'') 3 (dec_str (N div 10 ^ q mod 1000)) @ pad (CHR ''0'') q (dec_str (N mod 10 ^ q)) =
    pad (CHR ''0'') (q + 3) (dec_str (N mod 10 ^ (q + 3)))" (is "?a @ ?b = _")
proof -
  have a: "length ?a = 3" "dec_val ?a = N div 10 ^ q mod 1000" "\<forall>c\<in>set ?a. c_isdigit c"
    using pad_zero_text[of "N div 10 ^ q mod 1000" 3] by simp_all
  have b: "length ?b = q" "dec_val ?b = N mod 10 ^ q" "\<forall>c\<in>set ?b. c_isdigit c"
    using pad_zero_text[of "N mod 10 ^ q" q] assms by simp_all
  have "dec_val (?a @ ?b) = N mod 10 ^ (q + 3)"
    unfolding dec_val_append a b using mod_mult2_eq[of N "10 ^ q" 1000] by (simp add: power_add mult.commute)
  moreover have "?a @ ?b = pad (CHR ''0'') (length (?a @ ?b)) (dec_str (dec_val (?a @ ?b)))"
    using a b assms by (intro digits_pad) auto
  ultimately show ?thesis by (simp add: a b add.commute)
qed

lemma mstolfp_digits:
  assumes "\<forall>c\<in>set s. c_isdigit c" "s \<noteq> []" "no_digit r"
  shows "dropWhile c_isspace (s @ r) = s @ r" "takeWhile c_isdigit (s @ r) = s" "dropWhile c_isdigit (s @ r) = r"
    "starts (\<lambda>c. c = CHR ''-'') (s @ r) \<longleftrightarrow> False" "starts (\<lambda>c. c = CHR ''.'' \<or> c_isdigit c) (s @ r)"
proof -
  obtain c s' where c: "s = c # s'" using assms(2) by (cases s) auto
  have "c_isdigit c" using assms(1) c by simp
  then show "dropWhile c_isspace (s @ r) = s @ r" "starts (\<lambda>c. c = CHR ''-'') (s @ r) \<longleftrightarrow> False"
    "starts (\<lambda>c. c = CHR ''.'' \<or> c_isdigit c) (s @ r)"
    by (auto simp: c digit_not_space) (simp add: c_isdigit_def)
  show "takeWhile c_isdigit (s @ r) = s" "dropWhile c_isdigit (s @ r) = r"
    using assms(1,3) by (cases r; simp add: no_digit_def takeWhile_append dropWhile_append)+
qed

lemma mstolfp_overruns:
  assumes "\<forall>c\<in>set s. c_isdigit c" "99 \<le> length s"
  shows "mstolfp s = None"
proof -
  have "s \<noteq> []" using assms(2) by auto
  moreover have "no_digit []" by (simp add: no_digit_def)
  ultimately have d: "dropWhile c_isspace s = s" "takeWhile c_isdigit s = s" "dropWhile c_isdigit s = []"
    "starts (\<lambda>c. c = CHR ''-'') s \<longleftrightarrow> False" "starts (\<lambda>c. c = CHR ''.'' \<or> c_isdigit c) s"
    using mstolfp_digits[OF assms(1), of "[]", unfolded append_Nil2] by blast+
  show ?thesis unfolding mstolfp_def Let_def d if_False if_True not_True_eq_False prod.case
    using assms(2) d(5) by (simp add: put_def)
qed

lemma mstolfp_fixed_text:
  assumes "0 < q" "q \<le> 6" "N < 10 ^ 40"
  shows "mstolfp ((if neg then ''-'' else '''') @ fixed_text q N) = Some (atolfp ((if neg then ''-'' else '''') @ fixed_text (q + 3) N))"
proof -
  define m where "m = N div 10 ^ q"
  define F where "F = pad (CHR ''0'') q (dec_str (N mod 10 ^ q))"
  define H where "H = dec_str (m div 1000)"
  define T where "T = pad (CHR ''0'') 3 (dec_str (m mod 1000))"
  have m: "m < 10 ^ 40" using assms(3) unfolding m_def by (rule le_less_trans[OF div_le_dividend])
  have F: "length F = q" "\<forall>c\<in>set F. c_isdigit c" unfolding F_def using pad_zero_text[of "N mod 10 ^ q" q] assms(1) by simp_all
  have T: "length T = 3" unfolding T_def using pad_zero_text[of "m mod 1000" 3] by simp
  have H: "length H \<le> 40" unfolding H_def using m by (simp add: dec_str_length le_less_trans[OF div_le_dividend])
  have I: "\<forall>c\<in>set (dec_str m). c_isdigit c" by (auto dest: dec_str_digits)
  have tx: "fixed_text q N = dec_str m @ CHR ''.'' # F" using assms(1) by (simp add: fixed_text_def m_def F_def)
  have sh: "fixed_text (q + 3) N = H @ CHR ''.'' # T @ F"
    unfolding T_def F_def m_def pad_split[OF assms(1)]
    by (simp add: fixed_text_def H_def m_def power_add div_mult2_eq)
  have len: "length (dec_str m) > 3 \<longleftrightarrow> 1000 \<le> m" using dec_str_length[of m 3] by auto
  have big: "dec_str m = H @ T" if "1000 \<le> m" using dec_str_split[OF that] by (simp add: H_def T_def)
  have small: "H = ''0''" "replicate (3 - length (dec_str m)) (CHR ''0'') @ dec_str m = T" if "\<not> 1000 \<le> m"
    using that by (simp_all add: H_def T_def pad_def dec_str.simps[of 0] digit_chr_0)
  have nd: "no_digit (CHR ''.'' # F)" by (simp add: no_digit_def) code_simp
  have dw: "dropWhile c_isdigit F = []" using F(2) by (simp only: dropWhile_eq_Nil_conv)
  have e: "at_end (dropWhile c_isdigit F)" "takeWhile c_isdigit F = F" unfolding dw using F(2) by (simp_all add: takeWhile_eq_all_conv)
  have ne: "dec_str m \<noteq> []" by simp
  note d = mstolfp_digits[OF I ne nd]
  have sp: "\<not> c_isspace (CHR ''-'')" by code_simp
  have sg: "dropWhile c_isspace ((if neg then ''-'' else '''') @ fixed_text q N) = (if neg then ''-'' else '''') @ fixed_text q N"
    using sp d(1) by (simp add: tx)
  have body: "mstolfp ((if neg then ''-'' else '''') @ fixed_text q N) = 
    do {
      let buf = (if neg then ''-'' else '''');
      buf \<leftarrow> (if length (dec_str m) > 3 then put (take (length (dec_str m) - 3) (dec_str m)) buf else put ''0'' buf);
      let ip = (if length (dec_str m) > 3 then drop (length (dec_str m) - 3) (dec_str m) else dec_str m);
      buf \<leftarrow> put ''.'' buf;
      buf \<leftarrow> (if length ip < 3 then put (replicate (3 - length ip) (CHR ''0'')) buf else Some buf);
      buf \<leftarrow> put ip buf;
      buf \<leftarrow> put F buf;
      z \<leftarrow> put [CHR 0x00] buf;
      Some (atolfp buf) }"
    unfolding mstolfp_def Let_def sg using d(2-5) e(1)
    by (cases neg) (simp_all add: tx e(2) cong: if_cong)
  show ?thesis
  proof (cases "1000 \<le> m")
    case True
    then show ?thesis unfolding body len sh using H T F(1) assms(2) by (simp add: big put_def)
  next
    case False
    have "length (dec_str m) \<le> 3" using False len by simp
    then show ?thesis unfolding body len sh using small[OF False] T F(1) assms(2) False
      by (auto simp: put_def Let_def)
  qed
qed

section \<open>Printed and read back\<close>

text \<open>Printed with nine decimals and read back, a number changes by at most two units of \<open>2 ^ -32\<close>,
  and as milliseconds with six it is the same number.\<close>

text \<open>C35: Every 64-bit fixed-point number is printed without leaving the buffer or calling abort, with nine decimals as seconds and with six as milliseconds; both texts are read back, and the number read differs from it by at most two units of 2^-32.\<close>

theorem decimal_round_trip:
  "\<exists>s ms w. lfptoa v 9 = Some s \<and> lfptoms v 6 = Some ms \<and> atolfp s = Some w \<and> mstolfp ms = Some (Some w) \<and>
     \<bar>sint (lfp_val w - lfp_val v)\<bar> \<le> 2"
proof -
  define N where "N = (magnitude v * 10 ^ 9 + 2 ^ 31) div 2 ^ 32"
  have "decimals 9 False = 9" "decimals 6 True = 9" by (simp_all add: decimals_def)
  then have p: "lfptoa v 9 = Some ((if L_ISNEG v then ''-'' else '''') @ fixed_text 9 N)"
    "lfptoms v 6 = Some ((if L_ISNEG v then ''-'' else '''') @ fixed_text 6 N)"
    by (simp_all add: lfptoa_def mfptoa_def lfptoms_def mfptoms_def mfptoa_signed_text N_def)
  define w where "w = (if L_ISNEG v then L_NEG (read_back 9 N) else read_back 9 N)"
  have r: "atolfp ((if L_ISNEG v then ''-'' else '''') @ fixed_text 9 N) = Some w"
    unfolding w_def by (rule atolfp_fixed_text) simp
  have mag: "magnitude v \<le> 2 ^ 63" by (rule magnitude_le)
  then have "N < 10 ^ 40" unfolding N_def by (simp add: div_less_iff_less_mult)
  then have ms: "mstolfp ((if L_ISNEG v then ''-'' else '''') @ fixed_text 6 N) = Some (Some w)"
    using mstolfp_fixed_text[of 6 N "L_ISNEG v"] r by simp
  define d where "d = int (unat (lfp_val (read_back 9 N))) - int (magnitude v)"
  have d: "\<bar>d\<bar> \<le> 2" unfolding d_def N_def by (rule read_back_near[OF mag])
  have m: "(of_nat (magnitude v) :: u64) = (if L_ISNEG v then - lfp_val v else lfp_val v)" by (simp add: magnitude_def)
  have "lfp_val w - lfp_val v = of_int (if L_ISNEG v then - d else d)"
    using m unfolding w_def d_def by (cases "L_ISNEG v") (simp_all add: L_NEG_val)
  moreover have "d = - 2 \<or> d = - 1 \<or> d = 0 \<or> d = 1 \<or> d = 2" using d by arith
  then have "sint (of_int d :: u64) = d" "sint (of_int (- d) :: u64) = - d"
    by (elim disjE; simp)+
  ultimately show ?thesis using p r ms d by auto
qed

text \<open>The short format: the value rounded, but for a carry out of the leading digit.\<close>

text \<open>C37: Printing a 32-bit fixed-point number gives its sign and its magnitude rounded to the decimals asked for, modulo the power of ten that the digits of its integral part allow: a carry out of the leading digit is lost.\<close>

theorem fptoa_signed_text:
  "fptoa_signed fpv ndec msec = Some ((if sint fpv < 0 then ''-'' else '''') @
     (let mag = (if sint fpv < 0 then - fpv else fpv); D = fp_decimals ndec msec
      in fixed_text (D - (if msec then 3 else 0)) ((unat mag * 10 ^ D + 2 ^ 15) div 2 ^ 16 mod 10 ^ fp_places mag ndec msec)))"
  by (simp add: fptoa_signed_def dofptoa_text Let_def)

end
