(* ===== verification/EsTypes.thy ===== *)
theory EsTypes
  imports Complex_Main "HOL-Library.Monad_Syntax"
begin

text \<open>
  The types and constants every part of the time library shares (src/ESTime.hpp).

  A time of the library is an \<open>ESTimeInterval\<close>, a C double that counts seconds since
  2001-01-01 00:00:00 UTC. It is modelled as an exact \<^typ>\<open>real\<close>: every comparison, sum
  and difference of the code is the exact one, so a statement about these values holds of
  the code up to the rounding of doubles. A failed \<open>assert\<close> or \<open>ESAssert\<close> is
  the value \<^const>\<open>None\<close> of an option type.
\<close>

type_synonym ESTimeInterval = real

definition ESFarFarInTheFuture :: ESTimeInterval where
  "ESFarFarInTheFuture = 10 ^ 150"

definition ESLeapSecondHoldShortInterval :: ESTimeInterval where
  "ESLeapSecondHoldShortInterval = 1 / 1000000"

definition ESTIME_EPOCH :: ESTimeInterval where
  "ESTIME_EPOCH = 978307200"

datatype ESTimeSourceStatus =
    StatusOff
  | StatusUnsynchronized
  | StatusSynchronized
  | StatusPollingUnsynchronized
  | StatusPollingRefining
  | StatusPollingSynchronized
  | StatusRefining
  | StatusFailedSynchronized
  | StatusFailedUnynchronized
  | StatusFailedRefining
  | StatusNoNetSynchronized
  | StatusNoNetUnsynchronized
  | StatusNoNetRefining

text \<open>\<open>ESAssert(b)\<close>: the computation goes on only when \<open>b\<close> holds.\<close>

definition ESAssert :: "bool \<Rightarrow> unit option" where
  "ESAssert b = (if b then Some () else None)"

text \<open>The cast of a double to an integer type drops the fraction.\<close>

definition truncate_real :: "real \<Rightarrow> int" where
  "truncate_real x = (if x < 0 then \<lceil>x\<rceil> else \<lfloor>x\<rfloor>)"

lemma ESAssert_True [simp]: "ESAssert True = Some ()"
  by (simp add: ESAssert_def)

lemma ESAssert_False [simp]: "ESAssert False = None"
  by (simp add: ESAssert_def)

lemma bind_ESAssert_eq_Some [simp]:
  "(ESAssert b \<bind> (\<lambda>_. m)) = Some x \<longleftrightarrow> b \<and> m = Some x"
  by (simp add: ESAssert_def)

lemma hold_short_pos [simp]: "0 < ESLeapSecondHoldShortInterval"
  and hold_short_lt_1: "ESLeapSecondHoldShortInterval < 1"
  by (simp_all add: ESLeapSecondHoldShortInterval_def)

end
