(* ===== verification/EsLeapSecond.thy ===== *)
theory EsLeapSecond
  imports EsTypes
begin

text \<open>
  The leap second table and its cached search (src/ESLeapSecond.cpp and .hpp).

  The state of the component is the index of the cached event, \<open>_cacheLastEvent\<close> as an
  offset into the table. A search returns its result with the new cache, or \<^const>\<open>None\<close>
  when one of the assertions of the code fails. The locale \<open>leap_source\<close> is what the
  interval functions need of the search; the functional specification, a count over the
  whole table, is what its interpretation shows of it.
\<close>

section \<open>The table\<close>

record ESLeapSecondEvent =
  beginningOfChange :: ESTimeInterval
  leapSeconds :: ESTimeInterval
  cumulativeLeapSeconds :: ESTimeInterval

abbreviation leap_event :: "real \<Rightarrow> real \<Rightarrow> real \<Rightarrow> ESLeapSecondEvent" where
  "leap_event b l c \<equiv>
     \<lparr>beginningOfChange = b, leapSeconds = l, cumulativeLeapSeconds = c\<rparr>"

definition ESNumberOfLeapSecondEntries :: nat where
  "ESNumberOfLeapSecondEntries = 27"

definition ESTotalLeapSeconds :: real where
  "ESTotalLeapSeconds = 27"

definition ESFirstLeapSecondTransition :: real where
  "ESFirstLeapSecondTransition = - 899510400"

definition ESLastLeapSecondTransition :: real where
  "ESLastLeapSecondTransition = 504921600"

definition leapSecondTable :: "ESLeapSecondEvent list" where
  "leapSecondTable =
  [leap_event (-899510400) 1 1,
   leap_event (-883612800) 1 2,
   leap_event (-852076800) 1 3,
   leap_event (-820540800) 1 4,
   leap_event (-789004800) 1 5,
   leap_event (-757382400) 1 6,
   leap_event (-725846400) 1 7,
   leap_event (-694310400) 1 8,
   leap_event (-662774400) 1 9,
   leap_event (-615513600) 1 10,
   leap_event (-583977600) 1 11,
   leap_event (-552441600) 1 12,
   leap_event (-489283200) 1 13,
   leap_event (-410313600) 1 14,
   leap_event (-347155200) 1 15,
   leap_event (-315619200) 1 16,
   leap_event (-268358400) 1 17,
   leap_event (-236822400) 1 18,
   leap_event (-205286400) 1 19,
   leap_event (-157852800) 1 20,
   leap_event (-110592000) 1 21,
   leap_event (-63158400) 1 22,
   leap_event 157766400 1 23,
   leap_event 252460800 1 24,
   leap_event 362793600 1 25,
   leap_event 457401600 1 26,
   leap_event 504921600 1 27]"

abbreviation event_at :: "nat \<Rightarrow> ESLeapSecondEvent" where
  "event_at i \<equiv> leapSecondTable ! i"

section \<open>The cached binary search\<close>

definition cacheLastEvent_init :: nat where
  "cacheLastEvent_init = 0"

text \<open>The assertions every entry point starts with.\<close>

definition table_copied_correctly :: bool where
  "table_copied_correctly \<longleftrightarrow>
     beginningOfChange (event_at 0) = ESFirstLeapSecondTransition \<and>
     beginningOfChange (event_at (ESNumberOfLeapSecondEntries - 1)) = ESLastLeapSecondTransition \<and>
     cumulativeLeapSeconds (event_at (ESNumberOfLeapSecondEntries - 1)) = ESTotalLeapSeconds"

definition cache_ok :: "nat \<Rightarrow> bool" where
  "cache_ok cache \<longleftrightarrow> cache < ESNumberOfLeapSecondEntries - 1"

definition cache_covers :: "nat \<Rightarrow> ESTimeInterval \<Rightarrow> bool" where
  "cache_covers cache utc \<longleftrightarrow>
     utc > beginningOfChange (event_at cache) \<and> utc \<le> beginningOfChange (event_at (cache + 1))"

function binary_search :: "ESTimeInterval \<Rightarrow> nat \<Rightarrow> nat \<Rightarrow> nat \<times> nat" where
  "binary_search utc idx1 idx2 =
     (if idx2 - idx1 > 1
      then let pivot = (idx1 + idx2) div 2
           in if utc > beginningOfChange (event_at pivot)
              then binary_search utc pivot idx2
              else binary_search utc idx1 pivot
      else (idx1, idx2))"
  by pat_completeness auto
termination by (relation "measure (\<lambda>(utc, idx1, idx2). idx2 - idx1)") auto

declare binary_search.simps [simp del]

definition findAndCacheEventPriorTo :: "ESTimeInterval \<Rightarrow> nat \<Rightarrow> nat option" where
  "findAndCacheEventPriorTo utc cache = do {
     ESAssert table_copied_correctly;
     ESAssert (utc > ESFirstLeapSecondTransition);
     ESAssert (utc \<le> ESLastLeapSecondTransition);
     ESAssert (cache_ok cache);
     let (idx1, idx2) = binary_search utc 0 (ESNumberOfLeapSecondEntries - 1);
     ESAssert (idx2 = idx1 + 1);
     ESAssert (idx1 < ESNumberOfLeapSecondEntries - 1);
     ESAssert (cache_ok idx1);
     ESAssert (cache_covers idx1 utc);
     Some idx1
   }"

definition cumulativeLeapSecondsForUTC ::
  "ESTimeInterval \<Rightarrow> nat \<Rightarrow> (ESTimeInterval \<times> nat) option" where
  "cumulativeLeapSecondsForUTC utc cache = do {
     ESAssert table_copied_correctly;
     ESAssert (cache_ok cache);
     if utc > ESLastLeapSecondTransition then Some (ESTotalLeapSeconds, cache)
     else if utc \<le> ESFirstLeapSecondTransition then Some (0, cache)
     else if cache_covers cache utc then Some (cumulativeLeapSeconds (event_at cache), cache)
     else do {
       cache' \<leftarrow> findAndCacheEventPriorTo utc cache;
       Some (cumulativeLeapSeconds (event_at cache'), cache')
     }
   }"

text \<open>The result is the date of the next event and, through the pointer, its leap seconds.\<close>

definition nextLeapSecondAfter ::
  "ESTimeInterval \<Rightarrow> nat \<Rightarrow> ((ESTimeInterval \<times> ESTimeInterval) \<times> nat) option" where
  "nextLeapSecondAfter utc cache = do {
     ESAssert table_copied_correctly;
     ESAssert (cache_ok cache);
     if utc > ESLastLeapSecondTransition then Some ((ESFarFarInTheFuture, 0), cache)
     else if utc \<le> ESFirstLeapSecondTransition
     then Some ((ESFirstLeapSecondTransition, leapSeconds (event_at 0)), cache)
     else if cache_covers cache utc
     then let nextEvent = event_at (cache + 1)
          in Some ((beginningOfChange nextEvent, leapSeconds nextEvent), cache)
     else do {
       cache' \<leftarrow> findAndCacheEventPriorTo utc cache;
       let nextEvent = event_at (cache' + 1);
       Some ((beginningOfChange nextEvent, leapSeconds nextEvent), cache')
     }
   }"

text \<open>
  C++ does not fix which of two searches in one expression runs first; the model runs the
  left one first, and the results do not depend on the cache.
\<close>

definition intervalBetweenUTCValues ::
  "ESTimeInterval \<Rightarrow> ESTimeInterval \<Rightarrow> nat \<Rightarrow> (ESTimeInterval \<times> nat) option" where
  "intervalBetweenUTCValues utc1 utc2 cache = do {
     (n2, cache) \<leftarrow> cumulativeLeapSecondsForUTC utc2 cache;
     (n1, cache) \<leftarrow> cumulativeLeapSecondsForUTC utc1 cache;
     Some (utc2 + n2 - (utc1 + n1), cache)
   }"

definition leapSecondsDuringInterval ::
  "ESTimeInterval \<Rightarrow> ESTimeInterval \<Rightarrow> nat \<Rightarrow> (ESTimeInterval \<times> nat) option" where
  "leapSecondsDuringInterval utc1 utc2 cache = do {
     (n2, cache) \<leftarrow> cumulativeLeapSecondsForUTC utc2 cache;
     (n1, cache) \<leftarrow> cumulativeLeapSecondsForUTC utc1 cache;
     Some (n2 - n1, cache)
   }"

definition intervalBetweenUTCValuesWithLiveLeapCorrections ::
  "ESTimeInterval \<Rightarrow> ESTimeInterval \<Rightarrow> ESTimeInterval \<Rightarrow> ESTimeInterval \<Rightarrow> nat \<Rightarrow>
     (ESTimeInterval \<times> nat) option" where
  "intervalBetweenUTCValuesWithLiveLeapCorrections utc1 live1 utc2 live2 cache = do {
     let delta = utc2 - utc1;
     (n, cache) \<leftarrow> leapSecondsDuringInterval utc1 utc2 cache;
     let delta = delta + n;
     let delta = (if live1 > 1 then delta - (live1 - 1) else delta);
     let delta = (if live2 > 1 then delta + (live2 - 1) else delta);
     Some (delta, cache)
   }"

section \<open>Facts about the table\<close>

lemmas leap_constants =
  ESNumberOfLeapSecondEntries_def ESTotalLeapSeconds_def
  ESFirstLeapSecondTransition_def ESLastLeapSecondTransition_def

lemma length_leapSecondTable [simp]: "length leapSecondTable = 27"
  by (simp add: leapSecondTable_def)

lemma table_copied_correctly [simp]: "table_copied_correctly"
  by (simp add: table_copied_correctly_def leap_constants leapSecondTable_def)

lemma table_sorted: "sorted_wrt (<) (map beginningOfChange leapSecondTable)"
  by (simp add: leapSecondTable_def)

lemma table_leapSeconds: "map leapSeconds leapSecondTable = replicate 27 1"
  by (simp add: leapSecondTable_def numeral_eq_Suc)

lemma table_cumulative: "map cumulativeLeapSeconds leapSecondTable = map (\<lambda>i. real i + 1) [0..<27]"
  by (simp add: leapSecondTable_def upt_rec)

lemma boc_less:
  assumes "i < j" "j < 27"
  shows "beginningOfChange (event_at i) < beginningOfChange (event_at j)"
  using sorted_wrt_nth_less[OF table_sorted, of i j] assms by simp

lemma boc_le:
  assumes "i \<le> j" "j < 27"
  shows "beginningOfChange (event_at i) \<le> beginningOfChange (event_at j)"
  using boc_less[of i j] assms by (cases "i = j") auto

lemma event_leapSeconds:
  assumes "i < 27"
  shows "leapSeconds (event_at i) = 1"
  using assms arg_cong[OF table_leapSeconds, of "\<lambda>xs. xs ! i"] by simp

lemma event_cumulative:
  assumes "i < 27"
  shows "cumulativeLeapSeconds (event_at i) = real i + 1"
  using assms arg_cong[OF table_cumulative, of "\<lambda>xs. xs ! i"] by simp

lemma boc_first [simp]: "beginningOfChange (event_at 0) = ESFirstLeapSecondTransition"
  and boc_last: "beginningOfChange (event_at 26) = ESLastLeapSecondTransition"
  using table_copied_correctly
  unfolding table_copied_correctly_def ESNumberOfLeapSecondEntries_def by simp_all

section \<open>The specification\<close>

definition events_before :: "ESTimeInterval \<Rightarrow> ESLeapSecondEvent list" where
  "events_before utc = filter (\<lambda>e. beginningOfChange e < utc) leapSecondTable"

definition leap_count :: "ESTimeInterval \<Rightarrow> real" where
  "leap_count utc = sum_list (map leapSeconds (events_before utc))"

definition next_leap :: "ESTimeInterval \<Rightarrow> ESTimeInterval \<times> ESTimeInterval" where
  "next_leap utc = (case List.find (\<lambda>e. utc \<le> beginningOfChange e) leapSecondTable of
     None \<Rightarrow> (ESFarFarInTheFuture, 0)
   | Some e \<Rightarrow> (beginningOfChange e, leapSeconds e))"

lemma events_before_take:
  assumes n: "n \<le> 27"
    and lo: "\<And>i. i < n \<Longrightarrow> beginningOfChange (event_at i) < utc"
    and hi: "\<And>i. n \<le> i \<Longrightarrow> i < 27 \<Longrightarrow> utc \<le> beginningOfChange (event_at i)"
  shows "events_before utc = take n leapSecondTable"
proof -
  let ?P = "\<lambda>e. beginningOfChange e < utc"
  have "filter ?P (take n leapSecondTable) = take n leapSecondTable"
    using lo n by (intro filter_True) (auto simp: in_set_conv_nth)
  moreover have "filter ?P (drop n leapSecondTable) = []"
    using hi by (intro filter_False) (auto simp: in_set_conv_nth not_less add.commute less_diff_conv)
  ultimately have "filter ?P (take n leapSecondTable @ drop n leapSecondTable)
      = take n leapSecondTable"
    unfolding filter_append by simp
  then show ?thesis by (simp only: append_take_drop_id events_before_def)
qed

lemma leap_count_eq:
  assumes "n \<le> 27"
    and "\<And>i. i < n \<Longrightarrow> beginningOfChange (event_at i) < utc"
    and "\<And>i. n \<le> i \<Longrightarrow> i < 27 \<Longrightarrow> utc \<le> beginningOfChange (event_at i)"
  shows "leap_count utc = real n"
proof -
  have "map leapSeconds (events_before utc) = take n (map leapSeconds leapSecondTable)"
    by (simp add: events_before_take[OF assms] take_map)
  then show ?thesis
    using assms(1) by (simp add: leap_count_def table_leapSeconds sum_list_replicate)
qed

lemma next_leap_eq:
  assumes "n < 27"
    and "\<And>i. i < n \<Longrightarrow> beginningOfChange (event_at i) < utc"
    and "utc \<le> beginningOfChange (event_at n)"
  shows "next_leap utc = (beginningOfChange (event_at n), leapSeconds (event_at n))"
proof -
  have "List.find (\<lambda>e. utc \<le> beginningOfChange e) leapSecondTable = Some (event_at n)"
    unfolding find_Some_iff using assms by (intro exI[of _ n]) (auto simp: not_le)
  then show ?thesis by (simp add: next_leap_def)
qed

lemma next_leap_late:
  assumes "ESLastLeapSecondTransition < utc"
  shows "next_leap utc = (ESFarFarInTheFuture, 0)"
proof -
  have "beginningOfChange (event_at i) < utc" if "i < 27" for i
    using boc_le[of i 26] that assms boc_last by simp
  then have "List.find (\<lambda>e. utc \<le> beginningOfChange e) leapSecondTable = None"
    unfolding find_None_iff by (force simp: in_set_conv_nth not_le)
  then show ?thesis by (simp add: next_leap_def)
qed

lemma leap_count_late:
  assumes "ESLastLeapSecondTransition < utc"
  shows "leap_count utc = 27"
proof -
  have "beginningOfChange (event_at i) < utc" if "i < 27" for i
    using boc_le[of i 26] that assms boc_last by simp
  then show ?thesis using leap_count_eq[of 27 utc] by simp
qed

lemma leap_count_early:
  assumes "utc \<le> ESFirstLeapSecondTransition"
  shows "leap_count utc = 0"
proof -
  have "utc \<le> beginningOfChange (event_at i)" if "i < 27" for i
    using boc_le[of 0 i] that assms by simp
  then show ?thesis using leap_count_eq[of 0 utc] by simp
qed

lemma next_leap_early:
  "utc \<le> ESFirstLeapSecondTransition \<Longrightarrow>
     next_leap utc = (ESFirstLeapSecondTransition, leapSeconds (event_at 0))"
  using next_leap_eq[of 0 utc] by simp

text \<open>What the event before \<open>utc\<close> says of the counts, cached or searched.\<close>

lemma covers_below:
  assumes "cache_covers c utc" "c < 26" "i \<le> c"
  shows "beginningOfChange (event_at i) < utc"
  using boc_le[of i c] assms by (simp add: cache_covers_def)

lemma covers_above:
  assumes "cache_covers c utc" "c < i" "i < 27"
  shows "utc \<le> beginningOfChange (event_at i)"
  using boc_le[of "c + 1" i] assms by (simp add: cache_covers_def)

lemma covers_count:
  assumes "cache_covers c utc" "c < 26"
  shows "leap_count utc = cumulativeLeapSeconds (event_at c)"
  using assms leap_count_eq[of "c + 1" utc] covers_below[of c utc] covers_above[of c utc]
  by (simp add: event_cumulative)

lemma covers_next:
  assumes "cache_covers c utc" "c < 26"
  shows "next_leap utc = (beginningOfChange (event_at (c + 1)), leapSeconds (event_at (c + 1)))"
  using assms next_leap_eq[of "c + 1" utc] covers_below[of c utc]
  by (simp add: cache_covers_def)

section \<open>The search is correct\<close>

lemma binary_search_correct:
  assumes "beginningOfChange (event_at i) < utc" "utc \<le> beginningOfChange (event_at j)"
    and "i < j" "j < 27"
  shows "\<exists>k. binary_search utc i j = (k, k + 1) \<and> i \<le> k \<and> k < j \<and> cache_covers k utc"
  using assms
proof (induction utc i j rule: binary_search.induct)
  case (1 utc i j)
  show ?case
  proof (cases "j - i > 1")
    case True
    let ?p = "(i + j) div 2"
    have p: "i < ?p" "?p < j" using True by auto
    show ?thesis
    proof (cases "utc > beginningOfChange (event_at ?p)")
      case gt: True
      obtain k where "binary_search utc ?p j = (k, k + 1)" "?p \<le> k" "k < j" "cache_covers k utc"
        using "1.IH"(1)[OF True refl gt] gt "1.prems" p by auto
      then show ?thesis
        using True gt p by (subst binary_search.simps) (auto simp: Let_def)
    next
      case le: False
      obtain k where "binary_search utc i ?p = (k, k + 1)" "i \<le> k" "k < ?p" "cache_covers k utc"
        using "1.IH"(2)[OF True refl le] le "1.prems" p by auto
      then show ?thesis
        using True le p by (subst binary_search.simps) (auto simp: Let_def)
    qed
  next
    case False
    then have "j = i + 1" using "1.prems" by simp
    then show ?thesis
      using False "1.prems" by (subst binary_search.simps) (simp add: cache_covers_def)
  qed
qed

lemma find_correct:
  assumes "ESFirstLeapSecondTransition < utc" "utc \<le> ESLastLeapSecondTransition" "cache_ok c"
  shows "\<exists>k. findAndCacheEventPriorTo utc c = Some k \<and> cache_ok k \<and> cache_covers k utc"
proof -
  obtain k where "binary_search utc 0 26 = (k, k + 1)" "k < 26" "cache_covers k utc"
    using binary_search_correct[of 0 utc 26] assms boc_last by auto
  then show ?thesis
    using assms
    by (simp add: findAndCacheEventPriorTo_def cache_ok_def ESNumberOfLeapSecondEntries_def)
qed

lemma cache_ok_init: "cache_ok cacheLastEvent_init"
  by (simp add: cache_ok_def cacheLastEvent_init_def ESNumberOfLeapSecondEntries_def)

lemma cumulative_correct:
  assumes "cache_ok c"
  shows "\<exists>c'. cumulativeLeapSecondsForUTC utc c = Some (leap_count utc, c') \<and> cache_ok c'"
proof -
  have c26: "c < 26" using assms by (simp add: cache_ok_def ESNumberOfLeapSecondEntries_def)
  consider (late) "utc > ESLastLeapSecondTransition" | (early) "utc \<le> ESFirstLeapSecondTransition"
    | (mid) "ESFirstLeapSecondTransition < utc" "utc \<le> ESLastLeapSecondTransition" by linarith
  then show ?thesis
  proof cases
    case late
    then show ?thesis
      using assms by (simp add: cumulativeLeapSecondsForUTC_def leap_count_late ESTotalLeapSeconds_def)
  next
    case early
    moreover have "\<not> utc > ESLastLeapSecondTransition" using early by (simp add: leap_constants)
    ultimately show ?thesis
      using assms by (simp add: cumulativeLeapSecondsForUTC_def leap_count_early)
  next
    case mid
    obtain k where k: "findAndCacheEventPriorTo utc c = Some k" "cache_ok k" "cache_covers k utc"
      using find_correct[OF mid assms] by blast
    then have "k < 26" by (simp add: cache_ok_def ESNumberOfLeapSecondEntries_def)
    then show ?thesis
      using k mid assms c26 covers_count[of k utc] covers_count[of c utc]
      by (simp add: cumulativeLeapSecondsForUTC_def)
  qed
qed

lemma next_correct:
  assumes "cache_ok c"
  shows "\<exists>c'. nextLeapSecondAfter utc c = Some (next_leap utc, c') \<and> cache_ok c'"
proof -
  have c26: "c < 26" using assms by (simp add: cache_ok_def ESNumberOfLeapSecondEntries_def)
  consider (late) "utc > ESLastLeapSecondTransition" | (early) "utc \<le> ESFirstLeapSecondTransition"
    | (mid) "ESFirstLeapSecondTransition < utc" "utc \<le> ESLastLeapSecondTransition" by linarith
  then show ?thesis
  proof cases
    case late
    then show ?thesis
      using assms by (simp add: nextLeapSecondAfter_def next_leap_late)
  next
    case early
    moreover have "\<not> utc > ESLastLeapSecondTransition" using early by (simp add: leap_constants)
    ultimately show ?thesis
      using assms by (simp add: nextLeapSecondAfter_def next_leap_early)
  next
    case mid
    obtain k where k: "findAndCacheEventPriorTo utc c = Some k" "cache_ok k" "cache_covers k utc"
      using find_correct[OF mid assms] by blast
    then have "k < 26" by (simp add: cache_ok_def ESNumberOfLeapSecondEntries_def)
    then show ?thesis
      using k mid assms c26 covers_next[of k utc] covers_next[of c utc]
      by (simp add: nextLeapSecondAfter_def Let_def)
  qed
qed

text \<open>The count only grows with time.\<close>

lemma leap_count_mono: "a \<le> b \<Longrightarrow> leap_count a \<le> leap_count b"
proof -
  have "leapSeconds e = 1" if "e \<in> set leapSecondTable" for e
    using that event_leapSeconds by (auto simp: in_set_conv_nth)
  moreover have "sum_list (map leapSeconds (filter P es)) = real (length (filter P es))"
    if "\<And>e. e \<in> set es \<Longrightarrow> leapSeconds e = 1" for P es
    using that by (induction es) auto
  ultimately have count:
    "leap_count u = real (length (filter (\<lambda>e. beginningOfChange e < u) leapSecondTable))" for u
    unfolding leap_count_def events_before_def by blast
  assume "a \<le> b"
  then have "length (filter (\<lambda>e. beginningOfChange e < a) es)
      \<le> length (filter (\<lambda>e. beginningOfChange e < b) es)" for es
    by (induction es) auto
  then show ?thesis by (simp add: count)
qed

section \<open>What the interval functions need of the search\<close>

locale leap_source =
  fixes cumulative :: "ESTimeInterval \<Rightarrow> 'c \<Rightarrow> (ESTimeInterval \<times> 'c) option"
    and ok :: "'c \<Rightarrow> bool"
    and count :: "ESTimeInterval \<Rightarrow> real"
  assumes cumulative_total: "ok c \<Longrightarrow> \<exists>c'. cumulative u c = Some (count u, c') \<and> ok c'"
    and count_mono: "a \<le> b \<Longrightarrow> count a \<le> count b"
begin

lemma two_searches:
  assumes "ok c"
  shows "\<exists>c'. (do { (n2, c) \<leftarrow> cumulative u2 c; (n1, c) \<leftarrow> cumulative u1 c; Some (f n1 n2, c) })
      = Some (f (count u1) (count u2), c') \<and> ok c'"
proof -
  obtain c2 where 2: "cumulative u2 c = Some (count u2, c2)" "ok c2"
    using cumulative_total[OF assms] by blast
  obtain c1 where "cumulative u1 c2 = Some (count u1, c1)" "ok c1"
    using cumulative_total[OF 2(2)] by blast
  then show ?thesis using 2 by simp
qed

definition elapsed :: "ESTimeInterval \<Rightarrow> ESTimeInterval \<Rightarrow> real" where
  "elapsed u1 u2 = u2 + count u2 - (u1 + count u1)"

lemma elapsed_add: "elapsed a b + elapsed b c = elapsed a c"
  by (simp add: elapsed_def)

lemma elapsed_swap: "elapsed b a = - elapsed a b"
  by (simp add: elapsed_def)

lemma elapsed_ge: "a \<le> b \<Longrightarrow> b - a \<le> elapsed a b"
  using count_mono[of a b] by (simp add: elapsed_def)

end

interpretation leap: leap_source cumulativeLeapSecondsForUTC cache_ok leap_count
  by unfold_locales (auto intro: cumulative_correct leap_count_mono)

lemmas interval_eq_searches =
  leap.two_searches[where f = "\<lambda>n1 n2. u2 + n2 - (u1 + n1)" and ?u1.0 = u1 and ?u2.0 = u2
    for u1 u2, folded intervalBetweenUTCValues_def]

lemma interval_elapsed:
  "cache_ok c \<Longrightarrow>
     \<exists>c'. intervalBetweenUTCValues u1 u2 c = Some (leap.elapsed u1 u2, c') \<and> cache_ok c'"
  unfolding leap.elapsed_def by (rule interval_eq_searches)

lemma leapSecondsDuring_elapsed:
  "cache_ok c \<Longrightarrow>
     \<exists>c'. leapSecondsDuringInterval u1 u2 c = Some (leap_count u2 - leap_count u1, c') \<and> cache_ok c'"
  unfolding leapSecondsDuringInterval_def by (rule leap.two_searches)

section \<open>Every sequence of queries\<close>

text \<open>The caches a program can see: the initial one, and what any query leaves.\<close>

inductive leap_reachable :: "nat \<Rightarrow> bool" where
  start: "leap_reachable cacheLastEvent_init"
| cumulative: "leap_reachable c \<Longrightarrow> cumulativeLeapSecondsForUTC u c = Some (n, c') \<Longrightarrow> leap_reachable c'"
| next_leap: "leap_reachable c \<Longrightarrow> nextLeapSecondAfter u c = Some (e, c') \<Longrightarrow> leap_reachable c'"

lemma leap_reachable_ok: "leap_reachable c \<Longrightarrow> cache_ok c"
proof (induction rule: leap_reachable.induct)
  case start
  show ?case by (rule cache_ok_init)
next
  case (cumulative c u n c')
  then show ?case using cumulative_correct[of c u] by auto
next
  case (next_leap c u e c')
  then show ?case using next_correct[of c u] by auto
qed

lemma leap_reachable_2008: "leap_reachable 23"
proof -
  have "cumulativeLeapSecondsForUTC 260000000 0 = Some (24, 23)"
    by (simp add: cumulativeLeapSecondsForUTC_def findAndCacheEventPriorTo_def cache_ok_def
        cache_covers_def leap_constants binary_search.simps leapSecondTable_def)
  then show ?thesis
    using leap_reachable.cumulative[OF leap_reachable.start] by (simp add: cacheLastEvent_init_def)
qed

text \<open>C19: After any sequence of queries the cached binary search agrees with a count over the whole table and with the first event not before the time, and no assertion fails.\<close>

theorem leap_queries_correct:
  assumes "leap_reachable c"
  shows "(\<exists>c'. cumulativeLeapSecondsForUTC utc c = Some (leap_count utc, c') \<and> leap_reachable c') \<and>
    (\<exists>c'. nextLeapSecondAfter utc c = Some (next_leap utc, c') \<and> leap_reachable c')"
  using cumulative_correct[of c utc] next_correct[of c utc] leap_reachable_ok[OF assms]
    leap_reachable.intros(2,3)[OF assms] by blast

theorem leap_queries_correct_witness:
  "(\<exists>c'. cumulativeLeapSecondsForUTC 504921601 23 = Some (leap_count 504921601, c') \<and> leap_reachable c') \<and>
   (\<exists>c'. nextLeapSecondAfter 504921601 23 = Some (next_leap 504921601, c') \<and> leap_reachable c')"
  by (rule leap_queries_correct[OF leap_reachable_2008])

theorem leap_interval_laws:
  assumes "leap_reachable c" "leap_reachable c'" "leap_reachable c''" "a \<le> b"
  shows "\<exists>ab bd ad c1 c2 c3.
     intervalBetweenUTCValues a b c = Some (ab, c1) \<and>
     intervalBetweenUTCValues b d c' = Some (bd, c2) \<and>
     intervalBetweenUTCValues a d c'' = Some (ad, c3) \<and>
     ab + bd = ad \<and> b - a \<le> ab \<and> ab = b - a + (leap_count b - leap_count a)"
proof -
  obtain c1 c2 c3 where
    "intervalBetweenUTCValues a b c = Some (leap.elapsed a b, c1)"
    "intervalBetweenUTCValues b d c' = Some (leap.elapsed b d, c2)"
    "intervalBetweenUTCValues a d c'' = Some (leap.elapsed a d, c3)"
    using interval_elapsed assms(1-3)[THEN leap_reachable_ok] by metis
  then show ?thesis
    using leap.elapsed_add[of a b d] leap.elapsed_ge[OF assms(4)] by (simp add: leap.elapsed_def)
qed

theorem leap_interval_laws_witness:
  "\<exists>ab bd ad c1 c2 c3.
     intervalBetweenUTCValues 0 504921601 0 = Some (ab, c1) \<and>
     intervalBetweenUTCValues 504921601 504921700 23 = Some (bd, c2) \<and>
     intervalBetweenUTCValues 0 504921700 23 = Some (ad, c3) \<and>
     ab + bd = ad \<and> 504921601 - 0 \<le> ab \<and>
     ab = 504921601 - 0 + (leap_count 504921601 - leap_count 0)"
  using leap_reachable.start leap_reachable_2008
  by (intro leap_interval_laws) (simp_all add: cacheLastEvent_init_def)

end
