(* ===== verification/EsTimeBase.thy ===== *)
theory EsTimeBase
  imports EsTypes
begin

text \<open>
  The time bases of the device: src/ESSystemTimeBase_dualBase.cpp, \<open>_singleBase.cpp\<close> and
  \<open>_tripleBase.cpp\<close>. Each file is one implementation of the class \<open>ESSystemTimeBase\<close>.

  The state is the static variables of the class. What the operating system's clocks return
  is an argument of each operation; a call back into \<open>ESTime\<close> is a value of
  \<open>timebase_call\<close>, which the model of \<open>ESTime\<close> carries out. The theorems say that the
  continuous time does not jump when the device's clock is set or when it falls asleep, and
  that the three offsets stay consistent.
\<close>

record timebase =
  usingAltTime :: bool
  altOffset :: ESTimeInterval
  continuousOffset :: ESTimeInterval
  continuousAltOffset :: ESTimeInterval
  continuousTimeStableAtStart :: bool
  isSingleTimeBase :: bool
  wakingUp_firstTime :: bool

datatype timebase_call =
    NotifyContinuousOffsetChange
  | ContinuousTimeReset
  | Resync bool

section \<open>Two time bases\<close>

definition initCommonDualBase :: "ESTimeInterval \<Rightarrow> ESTimeInterval \<Rightarrow> timebase" where
  "initCommonDualBase sysTime altTime =
     \<lparr>usingAltTime = True,
      altOffset = sysTime - altTime,
      continuousOffset = 0,
      continuousAltOffset = sysTime - altTime,
      continuousTimeStableAtStart = False,
      isSingleTimeBase = False,
      wakingUp_firstTime = True\<rparr>"

definition dual_systemBaseChange ::
  "ESTimeInterval \<Rightarrow> ESTimeInterval \<Rightarrow> timebase \<Rightarrow> timebase \<times> timebase_call list" where
  "dual_systemBaseChange sysTime altTime b =
     (if usingAltTime b
      then let b = b\<lparr>altOffset := sysTime - altTime\<rparr>;
               b = b\<lparr>continuousOffset := continuousAltOffset b - altOffset b\<rparr>
           in (b, [NotifyContinuousOffsetChange])
      else (b, []))"

definition dual_goingToSleep ::
  "ESTimeInterval \<Rightarrow> ESTimeInterval \<Rightarrow> timebase \<Rightarrow> timebase option" where
  "dual_goingToSleep sysTime altTime b = do {
     ESAssert (usingAltTime b);
     let b = b\<lparr>usingAltTime := False\<rparr>;
     let b = b\<lparr>altOffset := sysTime - altTime\<rparr>;
     Some (b\<lparr>continuousOffset := continuousAltOffset b - altOffset b\<rparr>)
   }"

definition dual_wakingUp ::
  "ESTimeInterval \<Rightarrow> ESTimeInterval \<Rightarrow> timebase \<Rightarrow> (timebase \<times> timebase_call list) option" where
  "dual_wakingUp sysTime altTime b = do {
     ESAssert (wakingUp_firstTime b \<or> \<not> usingAltTime b);
     let b = b\<lparr>usingAltTime := True\<rparr>;
     let b = b\<lparr>altOffset := sysTime - altTime\<rparr>;
     let b = b\<lparr>continuousAltOffset := continuousOffset b + altOffset b\<rparr>;
     if wakingUp_firstTime b then Some (b\<lparr>wakingUp_firstTime := False\<rparr>, [])
     else Some (b, [ContinuousTimeReset])
   }"

text \<open>
  The continuous time the comments on the offsets define (src/ESSystemTimeBase.hpp): the
  other clock plus \<open>_continuousAltOffset\<close> while awake, the system time plus
  \<open>_continuousOffset\<close> while asleep.
\<close>

definition dual_continuous :: "timebase \<Rightarrow> ESTimeInterval \<Rightarrow> ESTimeInterval \<Rightarrow> ESTimeInterval" where
  "dual_continuous b sysTime altTime =
     (if usingAltTime b then altTime + continuousAltOffset b else sysTime + continuousOffset b)"

section \<open>One time base\<close>

record timespec =
  tv_sec :: int
  tv_nsec :: int

definition single_currentSystemTime :: "timespec \<Rightarrow> ESTimeInterval" where
  "single_currentSystemTime ts = (of_int (tv_sec ts) + of_int (tv_nsec ts) / 10 ^ 9) - ESTIME_EPOCH"

definition single_currentSystemAltTime :: "timespec \<Rightarrow> ESTimeInterval" where
  "single_currentSystemAltTime ts = single_currentSystemTime ts"

definition single_currentContinuousSystemTime :: "timespec \<Rightarrow> ESTimeInterval" where
  "single_currentContinuousSystemTime ts = single_currentSystemTime ts"

definition single_systemBaseChange :: "timebase \<Rightarrow> timebase \<times> timebase_call list" where
  "single_systemBaseChange b = (b, [])"

definition single_goingToSleep :: "timebase \<Rightarrow> timebase option" where
  "single_goingToSleep b = Some b"

definition single_wakingUp :: "timebase \<Rightarrow> (timebase \<times> timebase_call list) option" where
  "single_wakingUp b = Some (b, [])"

definition single_init :: "timespec \<Rightarrow> timebase \<times> ESTimeInterval" where
  "single_init ts =
     (let sysTime = single_currentSystemTime ts
      in (\<lparr>usingAltTime = False, altOffset = 0, continuousOffset = 0, continuousAltOffset = 0,
           continuousTimeStableAtStart = False, isSingleTimeBase = True,
           wakingUp_firstTime = True\<rparr>, sysTime))"

definition single_getTimesSinceBoot :: "ESTimeInterval \<times> ESTimeInterval" where
  "single_getTimesSinceBoot = (0, 0)"

section \<open>Three time bases\<close>

text \<open>One reading of the four clocks, as \<open>getTimes\<close> returns it.\<close>

record times =
  realtimeTime :: ESTimeInterval
  monotonicSeconds :: ESTimeInterval
  boottimeSeconds :: ESTimeInterval
  monotonicRawSeconds :: ESTimeInterval

definition estimeFromSeconds :: "real \<Rightarrow> real" where
  "estimeFromSeconds t = t - ESTIME_EPOCH"

definition secondsFromTimeSpec :: "timespec \<Rightarrow> real" where
  "secondsFromTimeSpec ts = of_int (tv_sec ts) + of_int (tv_nsec ts) / 10 ^ 9"

definition estimeFromTimeSpec :: "timespec \<Rightarrow> real" where
  "estimeFromTimeSpec ts = estimeFromSeconds (secondsFromTimeSpec ts)"

definition getTimes :: "timespec \<Rightarrow> timespec \<Rightarrow> timespec \<Rightarrow> timespec \<Rightarrow> times" where
  "getTimes realtimeTs boottimeTs monotonicTs monotonicRawTs =
     \<lparr>realtimeTime = estimeFromTimeSpec realtimeTs,
      monotonicSeconds = secondsFromTimeSpec monotonicTs,
      boottimeSeconds = secondsFromTimeSpec boottimeTs,
      monotonicRawSeconds = secondsFromTimeSpec monotonicRawTs\<rparr>"

text \<open>The preferences that outlive the process: the boot time and the continuous offset.\<close>

record boot_prefs =
  pref_bootTime :: ESTimeInterval
  pref_contAltOff :: ESTimeInterval

definition ES_MAX_BOOT_TIME :: ESTimeInterval where
  "ES_MAX_BOOT_TIME = 30"

definition triple_init :: "times \<Rightarrow> boot_prefs \<Rightarrow> timebase \<times> boot_prefs \<times> ESTimeInterval" where
  "triple_init t p =
     (let storedTimeOfBoot = pref_bootTime p;
          altOff = realtimeTime t - estimeFromSeconds (boottimeSeconds t);
          newTimeOfBoot = realtimeTime t - boottimeSeconds t
      in if \<bar>newTimeOfBoot - storedTimeOfBoot\<bar> < ES_MAX_BOOT_TIME
         then (\<lparr>usingAltTime = True, altOffset = altOff,
                continuousOffset = pref_contAltOff p - altOff,
                continuousAltOffset = pref_contAltOff p,
                continuousTimeStableAtStart = True, isSingleTimeBase = False,
                wakingUp_firstTime = True\<rparr>, p, realtimeTime t)
         else (\<lparr>usingAltTime = True, altOffset = altOff,
                continuousOffset = 0,
                continuousAltOffset = altOff + 0,
                continuousTimeStableAtStart = False, isSingleTimeBase = False,
                wakingUp_firstTime = True\<rparr>,
               p\<lparr>pref_contAltOff := altOff + 0, pref_bootTime := newTimeOfBoot\<rparr>, realtimeTime t))"

definition triple_wakingUp :: "times \<Rightarrow> timebase \<Rightarrow> timebase \<times> timebase_call list" where
  "triple_wakingUp t b =
     (let b = b\<lparr>altOffset := realtimeTime t - estimeFromSeconds (boottimeSeconds t)\<rparr>;
          b = b\<lparr>continuousOffset := continuousAltOffset b - altOffset b\<rparr>
      in (b, [NotifyContinuousOffsetChange, Resync True]))"

definition triple_goingToSleep :: "timebase \<Rightarrow> timebase" where
  "triple_goingToSleep b = b"

definition triple_systemBaseChange :: "times \<Rightarrow> timebase \<Rightarrow> timebase \<times> timebase_call list" where
  "triple_systemBaseChange t b =
     (let b = b\<lparr>altOffset := realtimeTime t - estimeFromSeconds (boottimeSeconds t)\<rparr>;
          b = b\<lparr>continuousOffset := continuousAltOffset b - altOffset b\<rparr>
      in (b, [NotifyContinuousOffsetChange]))"

definition triple_currentSystemTime :: "timespec \<Rightarrow> ESTimeInterval" where
  "triple_currentSystemTime ts = (of_int (tv_sec ts) + of_int (tv_nsec ts) / 10 ^ 9) - ESTIME_EPOCH"

definition triple_currentSystemAltTime :: "timespec \<Rightarrow> ESTimeInterval" where
  "triple_currentSystemAltTime ts = (of_int (tv_sec ts) + of_int (tv_nsec ts) / 10 ^ 9) - ESTIME_EPOCH"

definition triple_currentContinuousSystemTime :: "timespec \<Rightarrow> timebase \<Rightarrow> ESTimeInterval" where
  "triple_currentContinuousSystemTime boottimeTs b =
     triple_currentSystemAltTime boottimeTs + continuousAltOffset b"

definition triple_getTimesSinceBoot :: "times \<Rightarrow> ESTimeInterval \<times> ESTimeInterval" where
  "triple_getTimesSinceBoot t =
     (realtimeTime t - boottimeSeconds t, boottimeSeconds t - monotonicSeconds t)"

section \<open>The offsets agree\<close>

definition offsets_agree :: "timebase \<Rightarrow> bool" where
  "offsets_agree b \<longleftrightarrow> continuousAltOffset b = continuousOffset b + altOffset b"

lemmas timebase_defs =
  initCommonDualBase_def dual_systemBaseChange_def dual_goingToSleep_def dual_wakingUp_def
  dual_continuous_def triple_init_def triple_wakingUp_def triple_systemBaseChange_def
  triple_goingToSleep_def offsets_agree_def Let_def

text \<open>A run of the two-clock base: the events with what the two clocks read at each.\<close>

datatype dual_event =
    BaseChange ESTimeInterval ESTimeInterval
  | GoingToSleep ESTimeInterval ESTimeInterval
  | WakingUp ESTimeInterval ESTimeInterval

fun dual_step :: "dual_event \<Rightarrow> timebase \<Rightarrow> timebase option" where
  "dual_step (BaseChange s a) b = Some (fst (dual_systemBaseChange s a b))"
| "dual_step (GoingToSleep s a) b = dual_goingToSleep s a b"
| "dual_step (WakingUp s a) b = map_option fst (dual_wakingUp s a b)"

fun dual_run :: "dual_event list \<Rightarrow> timebase \<Rightarrow> timebase option" where
  "dual_run [] b = Some b"
| "dual_run (e # es) b = (case dual_step e b of None \<Rightarrow> None | Some b' \<Rightarrow> dual_run es b')"

fun event_clocks :: "dual_event \<Rightarrow> ESTimeInterval \<times> ESTimeInterval" where
  "event_clocks (BaseChange s a) = (s, a)"
| "event_clocks (GoingToSleep s a) = (s, a)"
| "event_clocks (WakingUp s a) = (s, a)"

text \<open>The system sends sleep and wake notifications in turn, the first of them a sleep or a
  first wake.\<close>

fun alternate :: "bool \<Rightarrow> bool \<Rightarrow> dual_event list \<Rightarrow> bool" where
  "alternate first awake [] \<longleftrightarrow> True"
| "alternate first awake (BaseChange _ _ # es) \<longleftrightarrow> alternate first awake es"
| "alternate first awake (GoingToSleep _ _ # es) \<longleftrightarrow> awake \<and> alternate first False es"
| "alternate first awake (WakingUp _ _ # es) \<longleftrightarrow> (first \<or> \<not> awake) \<and> alternate False True es"

lemma dual_step_agree: "dual_step e b = Some b' \<Longrightarrow> offsets_agree b \<Longrightarrow> offsets_agree b'"
  by (cases e) (auto simp: timebase_defs split: if_splits)

lemma dual_run_agree: "dual_run es b = Some b' \<Longrightarrow> offsets_agree b \<Longrightarrow> offsets_agree b'"
  by (induction es arbitrary: b) (auto split: option.splits dest: dual_step_agree)

lemma dual_run_alternate:
  "alternate (wakingUp_firstTime b) (usingAltTime b) es \<Longrightarrow> \<exists>b'. dual_run es b = Some b'"
proof (induction es arbitrary: b)
  case (Cons e es)
  show ?case
  proof (cases e)
    case (BaseChange s a)
    then show ?thesis
      using Cons.prems Cons.IH[of "fst (dual_systemBaseChange s a b)"]
      by (auto simp: timebase_defs)
  next
    case (GoingToSleep s a)
    then obtain b' where "dual_goingToSleep s a b = Some b'" "\<not> usingAltTime b'"
        "wakingUp_firstTime b' = wakingUp_firstTime b"
      using Cons.prems by (auto simp: timebase_defs)
    then show ?thesis using Cons.prems Cons.IH[of b'] GoingToSleep by auto
  next
    case (WakingUp s a)
    then obtain b' cs where "dual_wakingUp s a b = Some (b', cs)" "usingAltTime b'"
        "\<not> wakingUp_firstTime b'"
      using Cons.prems by (cases "wakingUp_firstTime b") (auto simp: timebase_defs)
    then show ?thesis using Cons.prems Cons.IH[of b'] WakingUp by auto
  qed
qed simp

text \<open>
  The continuous time at the very instant of an event is the same before and after it, but
  for the first wake of a base that believed itself awake.
\<close>

definition ok_wake :: "dual_event \<Rightarrow> timebase \<Rightarrow> bool" where
  "ok_wake e b \<longleftrightarrow> (case e of WakingUp _ _ \<Rightarrow> \<not> usingAltTime b | _ \<Rightarrow> True)"

lemma dual_step_continuous:
  assumes "dual_step e b = Some b'" "offsets_agree b" "event_clocks e = (s, a)"
  shows "dual_continuous b' s a = (if ok_wake e b then dual_continuous b s a else s + continuousOffset b)"
  using assms by (cases e) (auto simp: timebase_defs ok_wake_def split: if_splits)

text \<open>C20: With two time bases, every alternation of sleep and wake, with clock changes anywhere and also a first wake of a base that believes itself awake, runs without failing an assertion and keeps the three offsets consistent. No event makes the continuous time jump, except that first wake: it sets the continuous time to the system time plus the continuous offset, so what was read from the other clock before is lost.\<close>

theorem dual_base_correct:
  assumes "alternate True True es"
  shows "\<exists>b. dual_run es (initCommonDualBase s0 a0) = Some b \<and> offsets_agree b \<and>
    (\<forall>e b' s a. dual_step e b = Some b' \<and> event_clocks e = (s, a) \<longrightarrow>
       dual_continuous b' s a = (if ok_wake e b then dual_continuous b s a else s + continuousOffset b))"
proof -
  let ?b0 = "initCommonDualBase s0 a0"
  have "wakingUp_firstTime ?b0" "usingAltTime ?b0" and 0: "offsets_agree ?b0"
    by (simp_all add: timebase_defs)
  then obtain b where "dual_run es ?b0 = Some b"
    using dual_run_alternate[of ?b0 es] assms by auto
  then show ?thesis using dual_run_agree[OF _ 0] dual_step_continuous[of _ b] by blast
qed

theorem dual_base_correct_witness:
  "\<exists>b. dual_run [WakingUp 100 7, GoingToSleep 110 17, WakingUp 210 18, BaseChange 500 20]
         (initCommonDualBase 90 3) = Some b \<and> offsets_agree b \<and>
    dual_continuous (fst (dual_systemBaseChange 600 120 b)) 600 120 = dual_continuous b 600 120"
proof -
  let ?es = "[WakingUp 100 7, GoingToSleep 110 17, WakingUp 210 18, BaseChange 500 20]"
  have "alternate True True ?es" by simp
  from dual_base_correct[OF this, of 90 3] obtain b where
      b: "dual_run ?es (initCommonDualBase 90 3) = Some b" "offsets_agree b"
    and step: "\<forall>e b' s a. dual_step e b = Some b' \<and> event_clocks e = (s, a) \<longrightarrow>
       dual_continuous b' s a = (if ok_wake e b then dual_continuous b s a else s + continuousOffset b)"
    by blast
  have "dual_continuous (fst (dual_systemBaseChange 600 120 b)) 600 120 = dual_continuous b 600 120"
    using step[rule_format, of "BaseChange 600 120"] by (simp add: ok_wake_def)
  then show ?thesis using b by blast
qed

section \<open>A process restart keeps the continuous time\<close>

text \<open>
  With three bases the preferences carry the continuous time over a restart of the process:
  when the boot time moved by less than the time a boot takes, the new process reads the same
  continuous time from the same boot clock as the old one did, whatever wakes and changes of
  the system time either of them saw.
\<close>

datatype triple_event = TripleWake times | TripleBaseChange times | TripleSleep

fun triple_step :: "triple_event \<Rightarrow> timebase \<Rightarrow> timebase" where
  "triple_step (TripleWake t) b = fst (triple_wakingUp t b)"
| "triple_step (TripleBaseChange t) b = fst (triple_systemBaseChange t b)"
| "triple_step TripleSleep b = triple_goingToSleep b"

lemma triple_step_facts:
  "continuousAltOffset (triple_step e b) = continuousAltOffset b"
  "offsets_agree b \<Longrightarrow> offsets_agree (triple_step e b)"
  by (cases e; simp add: timebase_defs)+

lemma triple_run_facts:
  "continuousAltOffset (fold triple_step es b) = continuousAltOffset b"
  "offsets_agree b \<Longrightarrow> offsets_agree (fold triple_step es b)"
  by (induction es arbitrary: b) (simp_all add: triple_step_facts)

lemma triple_init_facts:
  assumes "triple_init t p = (b, p', r)"
  shows "pref_contAltOff p' = continuousAltOffset b" "offsets_agree b"
  using assms by (auto simp: timebase_defs split: if_splits)

lemma triple_init_stable:
  assumes "triple_init t p = (b, p', r)"
    and "\<bar>(realtimeTime t - boottimeSeconds t) - pref_bootTime p\<bar> < ES_MAX_BOOT_TIME"
  shows "continuousAltOffset b = pref_contAltOff p"
  using assms by (auto simp: timebase_defs split: if_splits)

theorem triple_restart_continuous:
  assumes "triple_init t1 p1 = (b1, p2, r1)" "triple_init t2 p2 = (b2, p3, r2)"
    and "\<bar>(realtimeTime t2 - boottimeSeconds t2) - pref_bootTime p2\<bar> < ES_MAX_BOOT_TIME"
  shows "triple_currentContinuousSystemTime ts (fold triple_step es2 b2)
      = triple_currentContinuousSystemTime ts (fold triple_step es1 b1) \<and>
    offsets_agree (fold triple_step es2 b2)"
  using triple_init_facts[OF assms(1)] triple_init_facts[OF assms(2)] triple_init_stable[OF assms(2,3)]
  by (simp add: triple_currentContinuousSystemTime_def triple_run_facts)

definition sample_times :: "real \<Rightarrow> real \<Rightarrow> times" where
  "sample_times r b = \<lparr>realtimeTime = r, monotonicSeconds = b, boottimeSeconds = b,
     monotonicRawSeconds = b\<rparr>"

theorem triple_restart_continuous_witness:
  "triple_currentContinuousSystemTime \<lparr>tv_sec = 400, tv_nsec = 0\<rparr>
     (fold triple_step [TripleWake (sample_times 1300 300)]
       (fst (triple_init (sample_times 1205 200) \<lparr>pref_bootTime = 1000, pref_contAltOff = 978308200\<rparr>)))
   = triple_currentContinuousSystemTime \<lparr>tv_sec = 400, tv_nsec = 0\<rparr>
     (fold triple_step [TripleBaseChange (sample_times 1190 190)]
       (fst (triple_init (sample_times 1100 100) \<lparr>pref_bootTime = 0, pref_contAltOff = 5\<rparr>))) \<and>
   offsets_agree
     (fold triple_step [TripleWake (sample_times 1300 300)]
       (fst (triple_init (sample_times 1205 200) \<lparr>pref_bootTime = 1000, pref_contAltOff = 978308200\<rparr>)))"
proof (rule triple_restart_continuous)
  let ?i1 = "triple_init (sample_times 1100 100) \<lparr>pref_bootTime = 0, pref_contAltOff = 5\<rparr>"
  let ?i2 = "triple_init (sample_times 1205 200) \<lparr>pref_bootTime = 1000, pref_contAltOff = 978308200\<rparr>"
  show "?i1 = (fst ?i1, \<lparr>pref_bootTime = 1000, pref_contAltOff = 978308200\<rparr>, snd (snd ?i1))"
    by (simp add: triple_init_def sample_times_def estimeFromSeconds_def ESTIME_EPOCH_def
        ES_MAX_BOOT_TIME_def)
  show "?i2 = (fst ?i2, fst (snd ?i2), snd (snd ?i2))" by simp
qed (simp add: sample_times_def ES_MAX_BOOT_TIME_def)

end
