(* ===== verification/EsTime.thy ===== *)
theory EsTime
  imports EsLeapSecond EsTimeBase
begin

text \<open>
  The time service: src/ESTime.cpp, src/ESTimeInl.hpp, src/ESTimeSourceDriver.cpp and the two
  trivial drivers, src/ESFakeTimeDriver.cpp and src/ESSystemTimeDriver.cpp.

  The state \<open>estime\<close> holds the static variables of \<open>ESTime\<close>, the drivers with the
  fields of \<open>ESTimeSourceDriver\<close>, the user preferences the drivers write, the time base and
  the cache of the leap second table. A driver is a position of the list \<open>_drivers\<close>, a
  thread is a number. What the observers are told, and what is sent to the thread of a driver,
  is appended to a trace. An operation gets the number of the thread that runs it and
  what \<open>currentContinuousSystemTime\<close> returns during it.
\<close>

section \<open>Drivers and state\<close>

text \<open>
  The error of a driver is the double that the driver holds; its getter returns it as a \<open>float\<close>, which
  is not modelled.
\<close>

datatype driver_kind =
    NTPDriver
  | XGPS150Driver
  | FakeDriver ESTimeInterval ESTimeInterval
  | SystemTimeDriver

record ESTimeSourceDriver =
  drv_contSkew :: ESTimeInterval
  drv_currentTimeError :: ESTimeInterval
  drv_status :: ESTimeSourceStatus
  drv_kind :: driver_kind

record observer =
  ob_id :: nat
  ob_notificationThread :: "nat option"

datatype notification =
    SyncValueChanged
  | SyncStatusChanged
  | ContinuousTimeWasReset
  | WorkingSyncValueChanged ESTimeInterval ESTimeInterval

datatype driver_call =
    CallResync bool
  | CallStopSyncing
  | CallDisableSync
  | CallEnableSync
  | CallSetDeviceCountryCode string

datatype es_event =
    Delivered nat notification
  | CalledInThread nat nat notification
  | DriverCall nat driver_call

record user_prefs =
  pref_timeSkew :: ESTimeInterval
  pref_timeSkewAccuracy :: ESTimeInterval
  pref_contSkew :: ESTimeInterval

record leap_data =
  nextLeapSecondDate :: ESTimeInterval
  nextLeapSecondDelta :: ESTimeInterval

record estime = leap_data +
  es_drivers :: "ESTimeSourceDriver list option"
  es_bestDriver :: "nat option"
  es_leapCache :: nat
  es_observers :: "observer list"
  es_prefs :: user_prefs
  es_base :: timebase
  es_trace :: "es_event list"

section \<open>Adjusting for a leap second\<close>

definition adjustForLeapSecondGuts :: "ESTimeInterval \<Rightarrow> 'a leap_data_scheme \<Rightarrow> ESTimeInterval option" where
  "adjustForLeapSecondGuts rawUTC s = do {
     ESAssert (rawUTC \<ge> nextLeapSecondDate s);
     if nextLeapSecondDelta s > 0
     then if rawUTC > nextLeapSecondDate s + nextLeapSecondDelta s
          then Some (rawUTC - nextLeapSecondDelta s)
          else Some (nextLeapSecondDate s - ESLeapSecondHoldShortInterval)
     else do {
       ESAssert (nextLeapSecondDelta s < 0);
       Some (rawUTC - nextLeapSecondDelta s)
     }
   }"

definition adjustForLeapSecond :: "ESTimeInterval \<Rightarrow> 'a leap_data_scheme \<Rightarrow> ESTimeInterval option" where
  "adjustForLeapSecond rawUTC s =
     (if rawUTC \<ge> nextLeapSecondDate s then adjustForLeapSecondGuts rawUTC s else Some rawUTC)"

text \<open>With the live correction: the adjusted time and \<open>*liveCorrection\<close>.\<close>

definition adjustForLeapSecondGutsWithLiveCorrection ::
  "ESTimeInterval \<Rightarrow> 'a leap_data_scheme \<Rightarrow> (ESTimeInterval \<times> ESTimeInterval) option" where
  "adjustForLeapSecondGutsWithLiveCorrection rawUTC s = do {
     ESAssert (rawUTC \<ge> nextLeapSecondDate s - 1);
     if nextLeapSecondDelta s > 0
     then let timeSinceStart = rawUTC - nextLeapSecondDate s
          in if timeSinceStart > nextLeapSecondDelta s
             then Some (rawUTC - nextLeapSecondDelta s, 0)
             else let live = timeSinceStart + ESLeapSecondHoldShortInterval + 1
                  in if timeSinceStart > 0
                     then Some (nextLeapSecondDate s - ESLeapSecondHoldShortInterval, live)
                     else Some (rawUTC, live)
     else do {
       ESAssert (nextLeapSecondDelta s < 0);
       Some (rawUTC - nextLeapSecondDelta s, 0)
     }
   }"

definition adjustForLeapSecondWithLiveCorrection ::
  "ESTimeInterval \<Rightarrow> 'a leap_data_scheme \<Rightarrow> (ESTimeInterval \<times> ESTimeInterval) option" where
  "adjustForLeapSecondWithLiveCorrection rawUTC s =
     (if rawUTC \<ge> nextLeapSecondDate s - 1
      then adjustForLeapSecondGutsWithLiveCorrection rawUTC s
      else Some (rawUTC, 0))"

section \<open>The current time and the conversions\<close>

text \<open>\<open>*_bestDriver\<close>; dereferencing a null pointer is an error.\<close>

definition best_driver :: "estime \<Rightarrow> ESTimeSourceDriver option" where
  "best_driver s = (case (es_drivers s, es_bestDriver s) of
     (Some ds, Some b) \<Rightarrow> (if b < length ds then Some (ds ! b) else None)
   | _ \<Rightarrow> None)"

definition currentTime :: "ESTimeInterval \<Rightarrow> estime \<Rightarrow> ESTimeInterval option" where
  "currentTime now s = do {
     d \<leftarrow> best_driver s;
     adjustForLeapSecond (drv_contSkew d + now) s
   }"

definition currentTimeWithLiveLeapSecondCorrection ::
  "ESTimeInterval \<Rightarrow> estime \<Rightarrow> (ESTimeInterval \<times> ESTimeInterval) option" where
  "currentTimeWithLiveLeapSecondCorrection now s = do {
     d \<leftarrow> best_driver s;
     adjustForLeapSecondWithLiveCorrection (drv_contSkew d + now) s
   }"

definition currentContinuousTime :: "ESTimeInterval \<Rightarrow> ESTimeInterval" where
  "currentContinuousTime now = now"

definition skewForReportingPurposesOnly :: "estime \<Rightarrow> ESTimeInterval option" where
  "skewForReportingPurposesOnly s = do {
     d \<leftarrow> best_driver s;
     Some (drv_contSkew d + continuousOffset (es_base s))
   }"

definition currentStatus :: "estime \<Rightarrow> ESTimeSourceStatus option" where
  "currentStatus s = map_option drv_status (best_driver s)"

definition skewAccuracy :: "estime \<Rightarrow> ESTimeInterval option" where
  "skewAccuracy s = map_option drv_currentTimeError (best_driver s)"

definition es_continuousOffset :: "estime \<Rightarrow> ESTimeInterval" where
  "es_continuousOffset s = continuousOffset (es_base s)"

definition continuousSkewForReportingPurposesOnly :: "estime \<Rightarrow> ESTimeInterval option" where
  "continuousSkewForReportingPurposesOnly s = map_option drv_contSkew (best_driver s)"

definition ntpTimeForCTime :: "ESTimeInterval \<Rightarrow> estime \<Rightarrow> ESTimeInterval option" where
  "ntpTimeForCTime cTime s = do {
     d \<leftarrow> best_driver s;
     adjustForLeapSecond (cTime + drv_contSkew d) s
   }"

definition ntpTimeForCTimeWithLiveCorrection ::
  "ESTimeInterval \<Rightarrow> estime \<Rightarrow> (ESTimeInterval \<times> ESTimeInterval) option" where
  "ntpTimeForCTimeWithLiveCorrection cTime s = do {
     d \<leftarrow> best_driver s;
     adjustForLeapSecondWithLiveCorrection (cTime + drv_contSkew d) s
   }"

definition cTimeForNTPTime :: "ESTimeInterval \<Rightarrow> estime \<Rightarrow> ESTimeInterval option" where
  "cTimeForNTPTime ntpTime s = do {
     d \<leftarrow> best_driver s;
     if ntpTime > nextLeapSecondDate s
     then Some ((ntpTime + nextLeapSecondDelta s) - drv_contSkew d)
     else Some (ntpTime - drv_contSkew d)
   }"

definition es_currentTimeError :: "estime \<Rightarrow> ESTimeInterval option" where
  "es_currentTimeError s = map_option drv_currentTimeError (best_driver s)"

definition sysTimeForCTime :: "ESTimeInterval \<Rightarrow> estime \<Rightarrow> ESTimeInterval" where
  "sysTimeForCTime cTime s = cTime - continuousOffset (es_base s)"

definition cTimeForSysTime :: "ESTimeInterval \<Rightarrow> estime \<Rightarrow> ESTimeInterval" where
  "cTimeForSysTime tim s = tim + continuousOffset (es_base s)"

definition sysTimeForNTPTime :: "ESTimeInterval \<Rightarrow> estime \<Rightarrow> ESTimeInterval option" where
  "sysTimeForNTPTime ntpTime s = do {
     c \<leftarrow> cTimeForNTPTime ntpTime s;
     Some (c - continuousOffset (es_base s))
   }"

text \<open>The seconds and microseconds of a \<open>struct timeval\<close>; the casts truncate toward zero.\<close>

definition TS_VALUE_OF_NSTIME_AT_1970 :: real where
  "TS_VALUE_OF_NSTIME_AT_1970 = - 978307200"

definition gettimeofdayCont :: "ESTimeInterval \<Rightarrow> (int \<times> int) \<times> ESTimeInterval" where
  "gettimeofdayCont now =
     (let rTime = currentContinuousTime now;
          timeSince1970 = rTime - TS_VALUE_OF_NSTIME_AT_1970;
          intSeconds = truncate_real timeSince1970;
          fraction = timeSince1970 - of_int intSeconds
      in ((intSeconds, truncate_real (fraction * 10 ^ 6)), rTime))"

section \<open>Observers\<close>

definition registerTimeSyncObserver :: "observer \<Rightarrow> estime \<Rightarrow> estime" where
  "registerTimeSyncObserver ob s = s\<lparr>es_observers := es_observers s @ [ob]\<rparr>"

definition unregisterTimeSyncObserver :: "observer \<Rightarrow> estime \<Rightarrow> estime" where
  "unregisterTimeSyncObserver ob s = s\<lparr>es_observers := removeAll ob (es_observers s)\<rparr>"

definition emit :: "es_event \<Rightarrow> estime \<Rightarrow> estime" where
  "emit e s = s\<lparr>es_trace := es_trace s @ [e]\<rparr>"

text \<open>
  \<open>callSyncValueChanged\<close>, \<open>callSyncStatusChanged\<close>, \<open>callContinuousTimeReset\<close> and
  \<open>callWorkingSyncValueChanged\<close> differ in the message only.
\<close>

definition call_event :: "nat \<Rightarrow> notification \<Rightarrow> observer \<Rightarrow> es_event" where
  "call_event thread n ob = (case ob_notificationThread ob of
     Some t \<Rightarrow> (if t \<noteq> thread then CalledInThread t (ob_id ob) n else Delivered (ob_id ob) n)
   | None \<Rightarrow> Delivered (ob_id ob) n)"

definition callSyncValueChanged :: "nat \<Rightarrow> observer \<Rightarrow> estime \<Rightarrow> estime" where
  "callSyncValueChanged thread ob s = emit (call_event thread SyncValueChanged ob) s"

definition callSyncStatusChanged :: "nat \<Rightarrow> observer \<Rightarrow> estime \<Rightarrow> estime" where
  "callSyncStatusChanged thread ob s = emit (call_event thread SyncStatusChanged ob) s"

definition callContinuousTimeReset :: "nat \<Rightarrow> observer \<Rightarrow> estime \<Rightarrow> estime" where
  "callContinuousTimeReset thread ob s = emit (call_event thread ContinuousTimeWasReset ob) s"

definition callWorkingSyncValueChanged ::
  "nat \<Rightarrow> ESTimeInterval \<Rightarrow> ESTimeInterval \<Rightarrow> observer \<Rightarrow> estime \<Rightarrow> estime" where
  "callWorkingSyncValueChanged thread v a ob s =
     emit (call_event thread (WorkingSyncValueChanged v a) ob) s"

text \<open>The loop that stays one observer ahead of the one it calls.\<close>

fun notify_loop ::
  "(observer \<Rightarrow> estime \<Rightarrow> estime) \<Rightarrow> observer \<Rightarrow> observer list \<Rightarrow> estime \<Rightarrow> estime" where
  "notify_loop call ob [] s = call ob s"
| "notify_loop call ob (ob' # iter) s = notify_loop call ob' iter (call ob s)"

definition call_observers :: "(observer \<Rightarrow> estime \<Rightarrow> estime) \<Rightarrow> estime \<Rightarrow> estime" where
  "call_observers call s = (case es_observers s of
     [] \<Rightarrow> s
   | ob # iter \<Rightarrow> notify_loop call ob iter s)"

definition setupNextLeapSecondData :: "ESTimeInterval \<Rightarrow> estime \<Rightarrow> estime option" where
  "setupNextLeapSecondData now s = do {
     utcNow \<leftarrow> currentTime now s;
     ((date, delta), cache) \<leftarrow> nextLeapSecondAfter utcNow (es_leapCache s);
     Some (s\<lparr>nextLeapSecondDate := date, nextLeapSecondDelta := delta, es_leapCache := cache\<rparr>)
   }"

definition syncValueReallyChanged :: "nat \<Rightarrow> ESTimeInterval \<Rightarrow> estime \<Rightarrow> estime option" where
  "syncValueReallyChanged thread now s = do {
     s \<leftarrow> setupNextLeapSecondData now s;
     Some (call_observers (callSyncValueChanged thread) s)
   }"

definition syncStatusReallyChanged :: "nat \<Rightarrow> estime \<Rightarrow> estime" where
  "syncStatusReallyChanged thread s = call_observers (callSyncStatusChanged thread) s"

definition workingSyncValue ::
  "nat \<Rightarrow> ESTimeInterval \<Rightarrow> ESTimeInterval \<Rightarrow> estime \<Rightarrow> estime" where
  "workingSyncValue thread v a s = call_observers (callWorkingSyncValueChanged thread v a) s"

section \<open>The best driver\<close>

fun statusIsUsable :: "ESTimeSourceStatus \<Rightarrow> bool" where
  "statusIsUsable status \<longleftrightarrow>
     status = StatusSynchronized \<or>
     status = StatusPollingSynchronized \<or>
     status = StatusFailedSynchronized \<or>
     status = StatusRefining \<or>
     status = StatusFailedRefining \<or>
     status = StatusNoNetSynchronized \<or>
     status = StatusNoNetRefining"

fun recheck_loop ::
  "nat \<Rightarrow> (nat \<times> ESTimeSourceDriver) list \<Rightarrow> nat \<times> bool \<times> ESTimeInterval \<Rightarrow>
     nat \<times> bool \<times> ESTimeInterval" where
  "recheck_loop oldBest [] st = st"
| "recheck_loop oldBest ((i, driver) # iter) (best, bestIsUsable, bestAccuracy) =
     (if i = oldBest then recheck_loop oldBest iter (best, bestIsUsable, bestAccuracy)
      else if statusIsUsable (drv_status driver) \<and>
              (\<not> bestIsUsable \<or> drv_currentTimeError driver < bestAccuracy)
      then recheck_loop oldBest iter (i, True, drv_currentTimeError driver)
      else recheck_loop oldBest iter (best, bestIsUsable, bestAccuracy))"

definition recheckForBestDriver :: "estime \<Rightarrow> (bool \<times> estime) option" where
  "recheckForBestDriver s = (case es_drivers s of
     None \<Rightarrow> Some (False, s)
   | Some drivers \<Rightarrow> do {
       best \<leftarrow> best_driver s;
       oldBest \<leftarrow> es_bestDriver s;
       let (b, _, _) = recheck_loop oldBest (List.enumerate 0 drivers)
             (oldBest, statusIsUsable (drv_status best), drv_currentTimeError best);
       Some (oldBest \<noteq> b, s\<lparr>es_bestDriver := Some b\<rparr>)
     })"

definition syncValueChangedByDriver ::
  "nat \<Rightarrow> ESTimeInterval \<Rightarrow> nat \<Rightarrow> estime \<Rightarrow> estime option" where
  "syncValueChangedByDriver thread now driver s = do {
     ESAssert (es_drivers s \<noteq> None);
     (driverChanged, s) \<leftarrow> recheckForBestDriver s;
     if driverChanged then do {
       s \<leftarrow> syncValueReallyChanged thread now s;
       Some (syncStatusReallyChanged thread s)
     }
     else if es_bestDriver s = Some driver then syncValueReallyChanged thread now s
     else Some s
   }"

definition syncStatusChangedByDriver ::
  "nat \<Rightarrow> ESTimeInterval \<Rightarrow> nat \<Rightarrow> estime \<Rightarrow> estime option" where
  "syncStatusChangedByDriver thread now driver s = do {
     ESAssert (es_drivers s \<noteq> None);
     (driverChanged, s) \<leftarrow> recheckForBestDriver s;
     if driverChanged then do {
       s \<leftarrow> syncValueReallyChanged thread now s;
       Some (syncStatusReallyChanged thread s)
     }
     else if es_bestDriver s = Some driver then Some (syncStatusReallyChanged thread s)
     else Some s
   }"

section \<open>What a driver does\<close>

definition new_driver :: "timebase \<Rightarrow> user_prefs \<Rightarrow> driver_kind \<Rightarrow> ESTimeSourceDriver" where
  "new_driver base prefs kind =
     (if isSingleTimeBase base
      then \<lparr>drv_contSkew = 0, drv_currentTimeError = 10 ^ 9, drv_status = StatusOff, drv_kind = kind\<rparr>
      else if continuousTimeStableAtStart base
      then \<lparr>drv_contSkew = pref_contSkew prefs,
            drv_currentTimeError =
              (if pref_timeSkewAccuracy prefs = 0 then 10 ^ 9 else pref_timeSkewAccuracy prefs),
            drv_status = StatusOff, drv_kind = kind\<rparr>
      else \<lparr>drv_contSkew = pref_timeSkew prefs - continuousOffset base,
            drv_currentTimeError = 10 ^ 9, drv_status = StatusOff, drv_kind = kind\<rparr>)"

definition new_system_driver :: ESTimeSourceDriver where
  "new_system_driver =
     \<lparr>drv_contSkew = 0, drv_currentTimeError = 10 ^ 9, drv_status = StatusOff,
      drv_kind = SystemTimeDriver\<rparr>"

definition the_driver :: "nat \<Rightarrow> estime \<Rightarrow> ESTimeSourceDriver option" where
  "the_driver i s = (case es_drivers s of
     Some ds \<Rightarrow> (if i < length ds then Some (ds ! i) else None)
   | None \<Rightarrow> None)"

definition put_driver :: "nat \<Rightarrow> ESTimeSourceDriver \<Rightarrow> estime \<Rightarrow> estime" where
  "put_driver i d s = s\<lparr>es_drivers := map_option (\<lambda>ds. ds[i := d]) (es_drivers s)\<rparr>"

definition setContSkew ::
  "nat \<Rightarrow> ESTimeInterval \<Rightarrow> nat \<Rightarrow> ESTimeInterval \<Rightarrow> ESTimeInterval \<Rightarrow> estime \<Rightarrow> estime option" where
  "setContSkew thread now i newContSkew currentTimeError s = do {
     d \<leftarrow> the_driver i s;
     if newContSkew \<noteq> drv_contSkew d \<or> currentTimeError \<noteq> drv_currentTimeError d then do {
       let s = put_driver i (d\<lparr>drv_contSkew := newContSkew, drv_currentTimeError := currentTimeError\<rparr>) s;
       let s = s\<lparr>es_prefs := \<lparr>pref_timeSkew = newContSkew + continuousOffset (es_base s),
                              pref_timeSkewAccuracy = currentTimeError,
                              pref_contSkew = newContSkew\<rparr>\<rparr>;
       syncValueChangedByDriver thread now i s
     }
     else Some s
   }"

definition setStatus ::
  "nat \<Rightarrow> ESTimeInterval \<Rightarrow> nat \<Rightarrow> ESTimeSourceStatus \<Rightarrow> estime \<Rightarrow> estime option" where
  "setStatus thread now i status s = do {
     d \<leftarrow> the_driver i s;
     if status \<noteq> drv_status d
     then syncStatusChangedByDriver thread now i (put_driver i (d\<lparr>drv_status := status\<rparr>) s)
     else Some s
   }"

definition drv_notifyContinuousOffsetChange :: "nat \<Rightarrow> estime \<Rightarrow> estime option" where
  "drv_notifyContinuousOffsetChange i s = do {
     d \<leftarrow> the_driver i s;
     Some (s\<lparr>es_prefs := (es_prefs s)\<lparr>pref_timeSkew := drv_contSkew d + continuousOffset (es_base s)\<rparr>\<rparr>)
   }"

definition setupFakeTime :: "nat \<Rightarrow> ESTimeInterval \<Rightarrow> nat \<Rightarrow> ESTimeInterval \<Rightarrow> ESTimeInterval \<Rightarrow> estime \<Rightarrow> estime option" where
  "setupFakeTime thread now i fakeTime fakeError s =
     (let contTime = now; delta = fakeTime - contTime
      in setContSkew thread now i delta fakeError s)"

text \<open>
  The virtual methods. The NTP driver (src/ESNTPDriver.cpp) sends a message to its own thread;
  the methods of the GPS driver are Objective-C. Both are an entry of the trace.
\<close>

definition drv_resync :: "nat \<Rightarrow> ESTimeInterval \<Rightarrow> bool \<Rightarrow> nat \<Rightarrow> estime \<Rightarrow> estime option" where
  "drv_resync thread now userRequested i s = do {
     d \<leftarrow> the_driver i s;
     case drv_kind d of
       FakeDriver t e \<Rightarrow> (if userRequested then setupFakeTime thread now i t e s else Some s)
     | SystemTimeDriver \<Rightarrow> Some s
     | _ \<Rightarrow> Some (emit (DriverCall i (CallResync userRequested)) s)
   }"

definition drv_post :: "driver_call \<Rightarrow> nat \<Rightarrow> estime \<Rightarrow> estime option" where
  "drv_post c i s = do {
     d \<leftarrow> the_driver i s;
     case drv_kind d of
       FakeDriver _ _ \<Rightarrow> Some s
     | SystemTimeDriver \<Rightarrow> Some s
     | _ \<Rightarrow> Some (emit (DriverCall i c) s)
   }"

fun driver_userName :: "driver_kind \<Rightarrow> string" where
  "driver_userName NTPDriver = ''NTP''"
| "driver_userName XGPS150Driver = ''XGPS150''"
| "driver_userName (FakeDriver _ _) = ''Fake''"
| "driver_userName SystemTimeDriver = ''Device''"

section \<open>Operations over every driver\<close>

fun drivers_loop :: "(nat \<Rightarrow> estime \<Rightarrow> estime option) \<Rightarrow> nat list \<Rightarrow> estime \<Rightarrow> estime option" where
  "drivers_loop op [] s = Some s"
| "drivers_loop op (i # iter) s = do { s \<leftarrow> op i s; drivers_loop op iter s }"

definition for_each_driver :: "(nat \<Rightarrow> estime \<Rightarrow> estime option) \<Rightarrow> estime \<Rightarrow> estime option" where
  "for_each_driver op s = (case es_drivers s of
     None \<Rightarrow> Some s
   | Some ds \<Rightarrow> drivers_loop op [0..<length ds] s)"

definition notifyContinuousOffsetChange :: "estime \<Rightarrow> estime option" where
  "notifyContinuousOffsetChange s = for_each_driver drv_notifyContinuousOffsetChange s"

definition resync :: "nat \<Rightarrow> ESTimeInterval \<Rightarrow> bool \<Rightarrow> estime \<Rightarrow> estime option" where
  "resync thread now userRequested s = for_each_driver (drv_resync thread now userRequested) s"

definition stopSyncing :: "estime \<Rightarrow> estime option" where
  "stopSyncing s = for_each_driver (drv_post CallStopSyncing) s"

definition disableSync :: "estime \<Rightarrow> estime option" where
  "disableSync s = for_each_driver (drv_post CallDisableSync) s"

definition enableSync :: "estime \<Rightarrow> estime option" where
  "enableSync s = for_each_driver (drv_post CallEnableSync) s"

definition setDeviceCountryCode :: "string \<Rightarrow> estime \<Rightarrow> estime option" where
  "setDeviceCountryCode cc s = for_each_driver (drv_post (CallSetDeviceCountryCode cc)) s"

definition continuousTimeReset :: "nat \<Rightarrow> ESTimeInterval \<Rightarrow> estime \<Rightarrow> estime option" where
  "continuousTimeReset thread now s = do {
     s \<leftarrow> for_each_driver (drv_resync thread now False) s;
     Some (call_observers (callContinuousTimeReset thread) s)
   }"

text \<open>The calls a time base makes.\<close>

fun timebase_calls :: "nat \<Rightarrow> ESTimeInterval \<Rightarrow> timebase_call list \<Rightarrow> estime \<Rightarrow> estime option" where
  "timebase_calls thread now [] s = Some s"
| "timebase_calls thread now (c # cs) s = do {
     s \<leftarrow> (case c of
        NotifyContinuousOffsetChange \<Rightarrow> EsTime.notifyContinuousOffsetChange s
      | ContinuousTimeReset \<Rightarrow> continuousTimeReset thread now s
      | Resync u \<Rightarrow> resync thread now u s);
     timebase_calls thread now cs s
   }"

definition es_systemBaseChange ::
  "nat \<Rightarrow> ESTimeInterval \<Rightarrow> times \<Rightarrow> estime \<Rightarrow> estime option" where
  "es_systemBaseChange thread now t s =
     (let (b, calls) = triple_systemBaseChange t (es_base s)
      in timebase_calls thread now calls (s\<lparr>es_base := b\<rparr>))"

definition es_wakingUp :: "nat \<Rightarrow> ESTimeInterval \<Rightarrow> times \<Rightarrow> estime \<Rightarrow> estime option" where
  "es_wakingUp thread now t s =
     (let (b, calls) = triple_wakingUp t (es_base s)
      in timebase_calls thread now calls (s\<lparr>es_base := b\<rparr>))"

section \<open>Initialisation\<close>

text \<open>
  The flags are bits of an unsigned; \<open>ios\<close> is the preprocessor's \<open>ES_IOS\<close>. The
  result is the state of a service that was not initialised before.
\<close>

record maker_flags =
  ESNTPMakerFlag :: bool
  ESXGPS150MakerFlag :: bool
  ESFakeMakerFlag :: bool
  ESSystemTimeMakerFlag :: bool

definition estime_start :: "timebase \<Rightarrow> user_prefs \<Rightarrow> estime" where
  "estime_start base prefs =
     \<lparr>nextLeapSecondDate = ESFarFarInTheFuture, nextLeapSecondDelta = 0,
      es_drivers = None, es_bestDriver = None, es_leapCache = cacheLastEvent_init,
      es_observers = [], es_prefs = prefs, es_base = base, es_trace = []\<rparr>"

definition estime_init ::
  "bool \<Rightarrow> maker_flags \<Rightarrow> ESTimeInterval \<Rightarrow> ESTimeInterval \<Rightarrow> estime \<Rightarrow> estime option" where
  "estime_init ios flags fakeTimeForSync fakeTimeError s = do {
     ESAssert (es_drivers s = None);
     let mk = new_driver (es_base s) (es_prefs s);
     let (ds, best) = ([], None);
     let (ds, best) = (if ESNTPMakerFlag flags then (ds @ [mk NTPDriver], Some (length ds))
                       else (ds, best));
     let (ds, best) = (if ios \<and> ESXGPS150MakerFlag flags
                       then (ds @ [mk XGPS150Driver], if best = None then Some (length ds) else best)
                       else (ds, best));
     (ds, best) \<leftarrow> (if ESFakeMakerFlag flags then do {
                       ESAssert (best = None);
                       Some (ds @ [mk (FakeDriver fakeTimeForSync fakeTimeError)], Some (length ds))
                     } else do {
                       ESAssert (fakeTimeForSync = 0);
                       ESAssert (fakeTimeError = 0);
                       Some (ds, best)
                     });
     (ds, best) \<leftarrow> (if ESSystemTimeMakerFlag flags then do {
                       ESAssert (best = None);
                       Some (ds @ [new_system_driver], Some (length ds))
                     } else Some (ds, best));
     Some (s\<lparr>es_drivers := Some ds, es_bestDriver := best, es_observers := []\<rparr>)
   }"

end
