(* ===== verification/EsMachine.thy ===== *)
theory EsMachine
  imports EsTypes
begin

text \<open>
  A component that reacts to events: each step is a function of the event and the state, or
  \<^const>\<open>None\<close> when an assertion fails. The locale \<open>machine\<close> is the contract of an invariant: every
  event that is allowed has a step, and the step keeps the invariant. Its interpretations are in
  EsTimeLaws (the time service) and EsNtpDriverReach (the NTP driver).
\<close>

fun run :: "('e \<Rightarrow> 's \<Rightarrow> 's option) \<Rightarrow> 'e list \<Rightarrow> 's \<Rightarrow> 's option" where
  "run step [] s = Some s"
| "run step (e # es) s = do { s \<leftarrow> step e s; run step es s }"

inductive reach :: "('e \<Rightarrow> 's \<Rightarrow> 's option) \<Rightarrow> ('e \<Rightarrow> 's \<Rightarrow> bool) \<Rightarrow> 's \<Rightarrow> 's \<Rightarrow> bool" for step ok s0 where
  reach_start: "reach step ok s0 s0"
| reach_next: "reach step ok s0 s \<Longrightarrow> ok e s \<Longrightarrow> step e s = Some s' \<Longrightarrow> reach step ok s0 s'"

locale machine =
  fixes step :: "'e \<Rightarrow> 's \<Rightarrow> 's option" and ok :: "'e \<Rightarrow> 's \<Rightarrow> bool" and inv :: "'s \<Rightarrow> bool"
  assumes step_inv: "inv s \<Longrightarrow> ok e s \<Longrightarrow> \<exists>s'. step e s = Some s' \<and> inv s'"
begin

lemma reach_inv:
  assumes "reach step ok s0 s" "inv s0"
  shows "inv s"
  using assms(1)
proof (induction rule: reach.induct)
  case reach_start
  show ?case by (rule assms(2))
next
  case (reach_next s e s')
  then show ?case using step_inv[of s e] by auto
qed

lemma reach_total:
  assumes "reach step ok s0 s" "inv s0" "ok e s"
  shows "\<exists>s'. step e s = Some s' \<and> reach step ok s0 s'"
  using step_inv[OF reach_inv[OF assms(1,2)] assms(3)] reach_next[where step = step and ok = ok, OF assms(1,3)] by blast

lemma run_total:
  assumes "inv s" "\<And>e s. e \<in> set es \<Longrightarrow> inv s \<Longrightarrow> ok e s"
  shows "\<exists>s'. run step es s = Some s' \<and> inv s'"
  using assms
proof (induction es arbitrary: s)
  case (Cons e es)
  obtain s1 where "step e s = Some s1" "inv s1" using step_inv[OF Cons.prems(1), of e] Cons.prems by auto
  then show ?case using Cons.IH[of s1] Cons.prems(2) by simp
qed simp

end

end
