(* ===== verification/EsTimeLaws.thy ===== *)
theory EsTimeLaws
  imports EsTime EsMachine
begin

text \<open>
  What holds of the time service of \<open>EsTime\<close>: the invariant of its state and that no
  operation fails an assertion on a state that has it, the choice of the best driver, the
  notification of the observers, and the conversions around a leap second.
\<close>

section \<open>The leap second that is armed\<close>

definition leap_armed :: "'a leap_data_scheme \<Rightarrow> bool" where
  "leap_armed s \<longleftrightarrow>
     (nextLeapSecondDate s, nextLeapSecondDelta s) = (ESFarFarInTheFuture, 0) \<or>
     (\<exists>e\<in>set leapSecondTable.
        (nextLeapSecondDate s, nextLeapSecondDelta s) = (beginningOfChange e, leapSeconds e))"

lemma leapSeconds_1: "e \<in> set leapSecondTable \<Longrightarrow> leapSeconds e = 1"
  using event_leapSeconds by (auto simp: in_set_conv_nth)

lemma leap_armed_cases:
  assumes "leap_armed s"
  obtains (never) "nextLeapSecondDate s = ESFarFarInTheFuture" "nextLeapSecondDelta s = 0"
  | (leap) e where "e \<in> set leapSecondTable" "nextLeapSecondDate s = beginningOfChange e"
      "nextLeapSecondDelta s = 1"
  using assms leapSeconds_1 unfolding leap_armed_def by auto

lemma next_leap_armed:
  "next_leap utc = (date, delta) \<Longrightarrow>
     leap_armed (s\<lparr>nextLeapSecondDate := date, nextLeapSecondDelta := delta\<rparr>)"
  by (auto simp: next_leap_def leap_armed_def find_Some_iff split: option.splits)

lemma adjust_total:
  assumes "leap_armed s" "raw < ESFarFarInTheFuture"
  shows "\<exists>t. adjustForLeapSecond raw s = Some t"
  using assms(1)
  by (cases rule: leap_armed_cases)
    (use assms(2) in \<open>auto simp: adjustForLeapSecond_def adjustForLeapSecondGuts_def ESAssert_def\<close>)

section \<open>The best driver\<close>

lemma recheck_loop_result:
  assumes "recheck_loop old xs (b0, u0, a0) = (b, u, a)"
  shows "(b = b0 \<and> u = u0 \<and> a = a0 \<or>
      (\<exists>d. (b, d) \<in> set xs \<and> b \<noteq> old \<and> statusIsUsable (drv_status d) \<and> u \<and>
         a = drv_currentTimeError d \<and> (u0 \<longrightarrow> a < a0))) \<and>
    (u0 \<longrightarrow> u \<and> a \<le> a0) \<and>
    (\<forall>(i, d)\<in>set xs. i \<noteq> old \<longrightarrow> statusIsUsable (drv_status d) \<longrightarrow> u \<and> a \<le> drv_currentTimeError d)"
  using assms
proof (induction xs arbitrary: b0 u0 a0)
  case (Cons x xs)
  obtain i d where x: "x = (i, d)" by (cases x)
  show ?case
  proof (cases "i \<noteq> old \<and> statusIsUsable (drv_status d) \<and>
      (\<not> u0 \<or> drv_currentTimeError d < a0)")
    case True
    then have "recheck_loop old xs (i, True, drv_currentTimeError d) = (b, u, a)"
      using Cons.prems by (simp add: x del: statusIsUsable.simps)
    from Cons.IH[OF this] True show ?thesis
      by (fastforce simp: x simp del: statusIsUsable.simps)
  next
    case False
    then have "recheck_loop old xs (b0, u0, a0) = (b, u, a)"
      using Cons.prems by (simp add: x del: statusIsUsable.simps split: if_splits)
    from Cons.IH[OF this] False show ?thesis
      by (fastforce simp: x simp del: statusIsUsable.simps)
  qed
qed (auto simp del: statusIsUsable.simps)

text \<open>What \<open>recheckForBestDriver\<close> should find among the drivers.\<close>

definition best_among :: "ESTimeSourceDriver list \<Rightarrow> nat \<Rightarrow> nat \<Rightarrow> bool" where
  "best_among ds old b \<longleftrightarrow>
     b < length ds \<and>
     ((\<exists>d\<in>set ds. statusIsUsable (drv_status d)) \<longrightarrow>
        statusIsUsable (drv_status (ds ! b)) \<and>
        (\<forall>d\<in>set ds. statusIsUsable (drv_status d) \<longrightarrow>
           drv_currentTimeError (ds ! b) \<le> drv_currentTimeError d)) \<and>
     (\<not> (\<exists>d\<in>set ds. statusIsUsable (drv_status d)) \<longrightarrow> b = old) \<and>
     (b \<noteq> old \<longrightarrow> statusIsUsable (drv_status (ds ! old)) \<longrightarrow>
        drv_currentTimeError (ds ! b) < drv_currentTimeError (ds ! old))"

lemma recheck_best:
  assumes ds: "es_drivers s = Some ds" and b: "es_bestDriver s = Some old" "old < length ds"
  shows "\<exists>b. recheckForBestDriver s = Some (old \<noteq> b, s\<lparr>es_bestDriver := Some b\<rparr>) \<and>
    best_among ds old b"
proof -
  define u0 where "u0 = statusIsUsable (drv_status (ds ! old))"
  define a0 where "a0 = drv_currentTimeError (ds ! old)"
  obtain b u a where loop: "recheck_loop old (List.enumerate 0 ds) (old, u0, a0) = (b, u, a)"
    by (metis prod_cases3)
  have mem: "(i, d) \<in> set (List.enumerate 0 ds) \<longleftrightarrow> i < length ds \<and> d = ds ! i" for i d
    by (auto simp: in_set_enumerate_eq)
  note r = recheck_loop_result[OF loop]
  have min: "u \<and> a \<le> drv_currentTimeError d"
    if d: "d \<in> set ds" "statusIsUsable (drv_status d)" for d
  proof -
    obtain i where i: "i < length ds" "d = ds ! i" using d(1) by (auto simp: in_set_conv_nth)
    show ?thesis
    proof (cases "i = old")
      case True
      then show ?thesis using r d(2) i by (auto simp: u0_def a0_def simp del: statusIsUsable.simps)
    next
      case False
      then show ?thesis using r d(2) i mem by blast
    qed
  qed
  have bcase: "b = old \<and> u = u0 \<and> a = a0 \<or> b < length ds \<and> b \<noteq> old \<and>
      statusIsUsable (drv_status (ds ! b)) \<and> a = drv_currentTimeError (ds ! b) \<and> (u0 \<longrightarrow> a < a0)"
    using conjunct1[OF r] unfolding mem by metis
  have a: "a = drv_currentTimeError (ds ! b)"
    using bcase unfolding a0_def by blast
  have blen: "b < length ds" using bcase b(2) by blast
  have u: "u = statusIsUsable (drv_status (ds ! b))"
    using bcase conjunct1[OF r] unfolding u0_def by metis
  have keep: "b = old" if "\<not> (\<exists>d\<in>set ds. statusIsUsable (drv_status d))"
    using that bcase by (metis nth_mem)
  have better: "drv_currentTimeError (ds ! b) < drv_currentTimeError (ds ! old)"
    if "b \<noteq> old" "statusIsUsable (drv_status (ds ! old))"
    using that bcase by (auto simp: u0_def a0_def simp del: statusIsUsable.simps)
  have "best_among ds old b"
    unfolding best_among_def using blen keep better min a u by blast
  moreover have "recheckForBestDriver s = Some (old \<noteq> b, s\<lparr>es_bestDriver := Some b\<rparr>)"
    using ds b loop
    by (simp add: recheckForBestDriver_def best_driver_def u0_def a0_def del: statusIsUsable.simps)
  ultimately show ?thesis by blast
qed

section \<open>Observers\<close>

lemma notify_loop_fold: "notify_loop call ob iter s = fold call (ob # iter) s"
  by (induction iter arbitrary: ob s) simp_all

lemma call_observers_fold: "call_observers call s = fold call (es_observers s) s"
  by (simp add: call_observers_def notify_loop_fold split: list.split)

lemma fold_emit:
  "fold (\<lambda>ob. emit (f ob)) obs s = s\<lparr>es_trace := es_trace s @ map f obs\<rparr>"
  by (induction obs arbitrary: s) (simp_all add: emit_def)

lemma call_observers_trace:
  "call_observers (callSyncValueChanged th) s =
     s\<lparr>es_trace := es_trace s @ map (call_event th SyncValueChanged) (es_observers s)\<rparr>"
  "call_observers (callSyncStatusChanged th) s =
     s\<lparr>es_trace := es_trace s @ map (call_event th SyncStatusChanged) (es_observers s)\<rparr>"
  "call_observers (callContinuousTimeReset th) s =
     s\<lparr>es_trace := es_trace s @ map (call_event th ContinuousTimeWasReset) (es_observers s)\<rparr>"
  "call_observers (callWorkingSyncValueChanged th v a) s =
     s\<lparr>es_trace := es_trace s @ map (call_event th (WorkingSyncValueChanged v a)) (es_observers s)\<rparr>"
  by (simp_all add: call_observers_fold callSyncValueChanged_def[abs_def]
      callSyncStatusChanged_def[abs_def] callContinuousTimeReset_def[abs_def]
      callWorkingSyncValueChanged_def[abs_def] fold_emit)

section \<open>The invariant\<close>

definition plausible_driver :: "ESTimeSourceDriver \<Rightarrow> bool" where
  "plausible_driver d \<longleftrightarrow> \<bar>drv_contSkew d\<bar> < ESFarFarInTheFuture / 2 \<and>
     (case drv_kind d of FakeDriver t e \<Rightarrow> \<bar>t\<bar> < ESFarFarInTheFuture / 4 | _ \<Rightarrow> True)"

definition plausible_now :: "ESTimeInterval \<Rightarrow> bool" where
  "plausible_now now \<longleftrightarrow> \<bar>now\<bar> < ESFarFarInTheFuture / 4"

definition es_inv :: "estime \<Rightarrow> bool" where
  "es_inv s \<longleftrightarrow> cache_ok (es_leapCache s) \<and> leap_armed s \<and>
     (\<exists>ds b. es_drivers s = Some ds \<and> es_bestDriver s = Some b \<and> b < length ds \<and>
        (\<forall>d\<in>set ds. plausible_driver d))"

lemma es_invE:
  assumes "es_inv s"
  obtains ds b where "es_drivers s = Some ds" "es_bestDriver s = Some b" "b < length ds"
    "\<forall>d\<in>set ds. plausible_driver d" "cache_ok (es_leapCache s)" "leap_armed s"
  using assms by (auto simp: es_inv_def)

lemma currentTime_total:
  assumes "es_inv s" "plausible_now now"
  shows "\<exists>t. currentTime now s = Some t"
proof -
  obtain ds b where s: "es_drivers s = Some ds" "es_bestDriver s = Some b" "b < length ds"
      "\<forall>d\<in>set ds. plausible_driver d" "leap_armed s"
    using assms(1) by (rule es_invE)
  then have "plausible_driver (ds ! b)" by simp
  then have "drv_contSkew (ds ! b) + now < ESFarFarInTheFuture"
    using assms(2) unfolding plausible_driver_def plausible_now_def by linarith
  then show ?thesis using s adjust_total by (simp add: currentTime_def best_driver_def)
qed

lemma leap_armed_trace [simp]:
  "leap_armed (s\<lparr>es_trace := x\<rparr>) = leap_armed s"
  "leap_armed (s\<lparr>es_bestDriver := y\<rparr>) = leap_armed s"
  "leap_armed (s\<lparr>es_drivers := z\<rparr>) = leap_armed s"
  "leap_armed (s\<lparr>es_prefs := p\<rparr>) = leap_armed s"
  "leap_armed (s\<lparr>es_base := q\<rparr>) = leap_armed s"
  "leap_armed (s\<lparr>es_observers := os\<rparr>) = leap_armed s"
  "leap_armed (s\<lparr>es_leapCache := c\<rparr>) = leap_armed s"
  by (simp_all add: leap_armed_def)

lemma es_inv_frame [simp]:
  "es_inv (s\<lparr>es_trace := x\<rparr>) = es_inv s"
  "es_inv (s\<lparr>es_prefs := p\<rparr>) = es_inv s"
  "es_inv (s\<lparr>es_base := q\<rparr>) = es_inv s"
  "es_inv (s\<lparr>es_observers := os\<rparr>) = es_inv s"
  by (simp_all add: es_inv_def)

text \<open>An operation keeps the drivers, the observers and the time base of the state.\<close>

definition same_frame :: "estime \<Rightarrow> estime \<Rightarrow> bool" where
  "same_frame s s' \<longleftrightarrow> es_drivers s' = es_drivers s \<and> es_observers s' = es_observers s \<and>
     es_base s' = es_base s"

lemma setup_total:
  assumes "es_inv s" "plausible_now now"
  shows "\<exists>s'. setupNextLeapSecondData now s = Some s' \<and> es_inv s' \<and> same_frame s s' \<and>
    es_bestDriver s' = es_bestDriver s \<and> es_trace s' = es_trace s \<and> es_prefs s' = es_prefs s"
proof -
  obtain t where t: "currentTime now s = Some t" using currentTime_total assms by blast
  have "cache_ok (es_leapCache s)" using assms(1) by (rule es_invE)
  then obtain c' where n: "nextLeapSecondAfter t (es_leapCache s) = Some (next_leap t, c')" "cache_ok c'"
    using next_correct by blast
  obtain date delta where nl: "next_leap t = (date, delta)" by (cases "next_leap t")
  have "leap_armed (s\<lparr>nextLeapSecondDate := date, nextLeapSecondDelta := delta, es_leapCache := c'\<rparr>)"
    using next_leap_armed[OF nl, of s] by simp
  then show ?thesis
    using t n nl assms(1) by (auto simp: setupNextLeapSecondData_def same_frame_def es_inv_def)
qed

lemma syncValue_total:
  assumes "es_inv s" "plausible_now now"
  shows "\<exists>s'. syncValueReallyChanged th now s = Some s' \<and> es_inv s' \<and> same_frame s s' \<and>
    es_bestDriver s' = es_bestDriver s \<and> es_prefs s' = es_prefs s \<and>
    es_trace s' = es_trace s @ map (call_event th SyncValueChanged) (es_observers s)"
proof -
  obtain s1 where "setupNextLeapSecondData now s = Some s1" "es_inv s1" "same_frame s s1"
      "es_bestDriver s1 = es_bestDriver s" "es_trace s1 = es_trace s" "es_prefs s1 = es_prefs s"
    using setup_total[OF assms] by blast
  then show ?thesis
    by (auto simp: syncValueReallyChanged_def call_observers_trace same_frame_def)
qed

lemma recheck_inv:
  assumes "es_inv s" "es_drivers s = Some ds" "es_bestDriver s = Some old"
  shows "\<exists>b. recheckForBestDriver s = Some (old \<noteq> b, s\<lparr>es_bestDriver := Some b\<rparr>) \<and>
    best_among ds old b \<and> es_inv (s\<lparr>es_bestDriver := Some b\<rparr>)"
proof -
  have "old < length ds" using assms by (auto elim: es_invE)
  then obtain b where b: "recheckForBestDriver s = Some (old \<noteq> b, s\<lparr>es_bestDriver := Some b\<rparr>)"
      "best_among ds old b"
    using recheck_best assms(2,3) by blast
  then have "b < length ds" by (simp add: best_among_def)
  then show ?thesis using b assms by (auto simp: es_inv_def)
qed

text \<open>What the observers are told after a driver changed its value or its status.\<close>

definition told :: "nat \<Rightarrow> notification \<Rightarrow> estime \<Rightarrow> es_event list" where
  "told th n s = map (call_event th n) (es_observers s)"

lemma valueChangedBy_total:
  assumes "es_inv s" "plausible_now now" "es_drivers s = Some ds" "es_bestDriver s = Some old"
  shows "\<exists>s' b. syncValueChangedByDriver th now i s = Some s' \<and> es_inv s' \<and> same_frame s s' \<and>
    es_bestDriver s' = Some b \<and> best_among ds old b \<and> es_prefs s' = es_prefs s \<and>
    es_trace s' = es_trace s @
      (if b \<noteq> old then told th SyncValueChanged s @ told th SyncStatusChanged s
       else if i = old then told th SyncValueChanged s else [])"
proof -
  obtain b where b: "recheckForBestDriver s = Some (old \<noteq> b, s\<lparr>es_bestDriver := Some b\<rparr>)"
      "best_among ds old b" "es_inv (s\<lparr>es_bestDriver := Some b\<rparr>)"
    using recheck_inv[OF assms(1,3,4)] by blast
  obtain s1 where s1: "syncValueReallyChanged th now (s\<lparr>es_bestDriver := Some b\<rparr>) = Some s1"
      "es_inv s1" "same_frame (s\<lparr>es_bestDriver := Some b\<rparr>) s1" "es_bestDriver s1 = Some b"
      "es_prefs s1 = es_prefs s" "es_trace s1 = es_trace s @ told th SyncValueChanged s"
    using syncValue_total[OF b(3) assms(2), of th] by (auto simp: told_def)
  show ?thesis
    using b s1 assms(3)
    by (auto simp: syncValueChangedByDriver_def syncStatusReallyChanged_def same_frame_def
        call_observers_trace told_def)
qed

lemma statusChangedBy_total:
  assumes "es_inv s" "plausible_now now" "es_drivers s = Some ds" "es_bestDriver s = Some old"
  shows "\<exists>s' b. syncStatusChangedByDriver th now i s = Some s' \<and> es_inv s' \<and> same_frame s s' \<and>
    es_bestDriver s' = Some b \<and> best_among ds old b \<and> es_prefs s' = es_prefs s \<and>
    es_trace s' = es_trace s @
      (if b \<noteq> old then told th SyncValueChanged s @ told th SyncStatusChanged s
       else if i = old then told th SyncStatusChanged s else [])"
proof -
  obtain b where b: "recheckForBestDriver s = Some (old \<noteq> b, s\<lparr>es_bestDriver := Some b\<rparr>)"
      "best_among ds old b" "es_inv (s\<lparr>es_bestDriver := Some b\<rparr>)"
    using recheck_inv[OF assms(1,3,4)] by blast
  obtain s1 where s1: "syncValueReallyChanged th now (s\<lparr>es_bestDriver := Some b\<rparr>) = Some s1"
      "es_inv s1" "same_frame (s\<lparr>es_bestDriver := Some b\<rparr>) s1" "es_bestDriver s1 = Some b"
      "es_prefs s1 = es_prefs s" "es_trace s1 = es_trace s @ told th SyncValueChanged s"
    using syncValue_total[OF b(3) assms(2), of th] by (auto simp: told_def)
  show ?thesis
    using b s1 assms(3)
    by (auto simp: syncStatusChangedByDriver_def syncStatusReallyChanged_def same_frame_def
        call_observers_trace told_def)
qed

section \<open>Every operation keeps the invariant and none fails\<close>

definition driver_count :: "estime \<Rightarrow> nat" where
  "driver_count s = (case es_drivers s of Some ds \<Rightarrow> length ds | None \<Rightarrow> 0)"

lemma driver_count_frame [simp]:
  "driver_count (s\<lparr>es_trace := x\<rparr>) = driver_count s"
  "driver_count (s\<lparr>es_prefs := p\<rparr>) = driver_count s"
  "driver_count (s\<lparr>es_base := q\<rparr>) = driver_count s"
  "driver_count (s\<lparr>es_observers := os\<rparr>) = driver_count s"
  "driver_count (put_driver i d s) = driver_count s"
  by (simp_all add: driver_count_def put_driver_def split: option.split)

lemma same_frame_count: "same_frame s s' \<Longrightarrow> driver_count s' = driver_count s"
  by (simp add: same_frame_def driver_count_def)

text \<open>\<open>op_ok n s r\<close>: the operation returned, kept the invariant and the number of drivers.\<close>

definition op_ok :: "nat \<Rightarrow> estime option \<Rightarrow> bool" where
  "op_ok n r \<longleftrightarrow> (\<exists>s'. r = Some s' \<and> es_inv s' \<and> driver_count s' = n)"

lemma op_okI [intro]: "es_inv s \<Longrightarrow> driver_count s = n \<Longrightarrow> op_ok n (Some s)"
  by (auto simp: op_ok_def)

lemma the_driver_inv:
  assumes "es_inv s" "i < driver_count s"
  obtains d where "the_driver i s = Some d" "plausible_driver d"
  using assms by (auto simp: the_driver_def driver_count_def elim!: es_invE)

lemma put_driver_inv:
  assumes "es_inv s" "plausible_driver d"
  shows "es_inv (put_driver i d s)"
proof -
  obtain ds b where "es_drivers s = Some ds" "es_bestDriver s = Some b" "b < length ds"
      "\<forall>d\<in>set ds. plausible_driver d"
    using assms(1) by (rule es_invE)
  moreover from this have "\<forall>d'\<in>set (ds[i := d]). plausible_driver d'"
    using assms(2) set_update_subset_insert[of ds i d] by auto
  ultimately show ?thesis using assms(1) by (simp add: put_driver_def es_inv_def)
qed

lemma valueChangedBy_ok:
  assumes "es_inv s" "plausible_now now"
  shows "op_ok (driver_count s) (syncValueChangedByDriver th now i s)"
proof -
  obtain ds old where "es_drivers s = Some ds" "es_bestDriver s = Some old"
    using assms(1) by (rule es_invE)
  then obtain s' where "syncValueChangedByDriver th now i s = Some s'" "es_inv s'" "same_frame s s'"
    using valueChangedBy_total[OF assms, of ds old th i] by blast
  then show ?thesis using same_frame_count by (auto simp: op_ok_def)
qed

lemma statusChangedBy_ok:
  assumes "es_inv s" "plausible_now now"
  shows "op_ok (driver_count s) (syncStatusChangedByDriver th now i s)"
proof -
  obtain ds old where "es_drivers s = Some ds" "es_bestDriver s = Some old"
    using assms(1) by (rule es_invE)
  then obtain s' where "syncStatusChangedByDriver th now i s = Some s'" "es_inv s'" "same_frame s s'"
    using statusChangedBy_total[OF assms, of ds old th i] by blast
  then show ?thesis using same_frame_count by (auto simp: op_ok_def)
qed

lemma setContSkew_ok:
  assumes "es_inv s" "plausible_now now" "i < driver_count s" "\<bar>skew\<bar> < ESFarFarInTheFuture / 2"
  shows "op_ok (driver_count s) (setContSkew th now i skew err s)"
proof -
  obtain d where d: "the_driver i s = Some d" "plausible_driver d"
    using the_driver_inv assms(1,3) by blast
  let ?p = "\<lparr>pref_timeSkew = skew + continuousOffset (es_base s),
      pref_timeSkewAccuracy = err, pref_contSkew = skew\<rparr>"
  let ?s = "put_driver i (d\<lparr>drv_contSkew := skew, drv_currentTimeError := err\<rparr>) s"
  have "es_base ?s = es_base s" by (simp add: put_driver_def)
  moreover have "es_inv ?s"
    using put_driver_inv assms(1,4) d(2) by (simp add: plausible_driver_def)
  then have "op_ok (driver_count s) (syncValueChangedByDriver th now i (?s\<lparr>es_prefs := ?p\<rparr>))"
    using valueChangedBy_ok[of "?s\<lparr>es_prefs := ?p\<rparr>"] assms(2) by simp
  ultimately show ?thesis using d(1) assms(1) by (auto simp: setContSkew_def)
qed

lemma setStatus_ok:
  assumes "es_inv s" "plausible_now now" "i < driver_count s"
  shows "op_ok (driver_count s) (setStatus th now i st s)"
proof -
  obtain d where d: "the_driver i s = Some d" "plausible_driver d"
    using the_driver_inv assms(1,3) by blast
  have "es_inv (put_driver i (d\<lparr>drv_status := st\<rparr>) s)"
    using put_driver_inv assms(1) d(2) by (simp add: plausible_driver_def)
  then show ?thesis
    using statusChangedBy_ok[of "put_driver i (d\<lparr>drv_status := st\<rparr>) s"] assms(1,2) d(1)
    by (auto simp: setStatus_def)
qed

lemma setupFakeTime_ok:
  assumes "es_inv s" "plausible_now now" "i < driver_count s" "\<bar>t\<bar> < ESFarFarInTheFuture / 4"
  shows "op_ok (driver_count s) (setupFakeTime th now i t e s)"
proof -
  have "\<bar>t - now\<bar> < ESFarFarInTheFuture / 2"
    using assms(2,4) unfolding plausible_now_def by linarith
  then show ?thesis
    using assms setContSkew_ok by (simp add: setupFakeTime_def Let_def)
qed

lemma drv_resync_ok:
  assumes "es_inv s" "plausible_now now" "i < driver_count s"
  shows "op_ok (driver_count s) (drv_resync th now u i s)"
proof -
  obtain d where "the_driver i s = Some d" "plausible_driver d"
    using the_driver_inv assms(1,3) by blast
  then show ?thesis
    using assms setupFakeTime_ok[of s now i]
    by (cases "drv_kind d") (auto simp: drv_resync_def emit_def plausible_driver_def)
qed

lemma drv_post_ok:
  assumes "es_inv s" "i < driver_count s"
  shows "op_ok (driver_count s) (drv_post c i s)"
proof -
  obtain d where "the_driver i s = Some d" using the_driver_inv assms by blast
  then show ?thesis
    using assms by (cases "drv_kind d") (auto simp: drv_post_def emit_def)
qed

lemma drv_notify_ok:
  assumes "es_inv s" "i < driver_count s"
  shows "op_ok (driver_count s) (drv_notifyContinuousOffsetChange i s)"
proof -
  obtain d where "the_driver i s = Some d" using the_driver_inv assms by blast
  then show ?thesis using assms by (auto simp: drv_notifyContinuousOffsetChange_def)
qed

lemma drivers_loop_ok:
  assumes op: "\<And>i s. es_inv s \<Longrightarrow> driver_count s = n \<Longrightarrow> i < n \<Longrightarrow> op_ok n (op i s)"
    and "es_inv s" "driver_count s = n" "\<forall>i\<in>set is. i < n"
  shows "op_ok n (drivers_loop op is s)"
  using assms(2-)
proof (induction "is" arbitrary: s)
  case (Cons i iter)
  then obtain s1 where "op i s = Some s1" "es_inv s1" "driver_count s1 = n"
    using op[of s i] by (auto simp: op_ok_def)
  then show ?case using Cons by simp
qed auto

lemma for_each_ok:
  assumes op: "\<And>i s'. es_inv s' \<Longrightarrow> driver_count s' = driver_count s \<Longrightarrow> i < driver_count s \<Longrightarrow>
      op_ok (driver_count s) (op i s')"
    and "es_inv s"
  shows "op_ok (driver_count s) (for_each_driver op s)"
proof -
  obtain ds where ds: "es_drivers s = Some ds" using assms(2) by (rule es_invE)
  then have "driver_count s = length ds" by (simp add: driver_count_def)
  then show ?thesis
    using drivers_loop_ok[of "driver_count s" op s "[0..<length ds]"] assms ds
    by (simp add: for_each_driver_def)
qed

lemma resync_ok:
  "es_inv s \<Longrightarrow> plausible_now now \<Longrightarrow> op_ok (driver_count s) (resync th now u s)"
  unfolding resync_def by (rule for_each_ok) (metis drv_resync_ok)

lemma notifyOffset_ok:
  "es_inv s \<Longrightarrow> op_ok (driver_count s) (EsTime.notifyContinuousOffsetChange s)"
  unfolding notifyContinuousOffsetChange_def by (rule for_each_ok) (metis drv_notify_ok)

lemma post_ok: "es_inv s \<Longrightarrow> op_ok (driver_count s) (for_each_driver (drv_post c) s)"
  by (rule for_each_ok) (metis drv_post_ok)

lemma continuousTimeReset_ok:
  assumes "es_inv s" "plausible_now now"
  shows "op_ok (driver_count s) (continuousTimeReset th now s)"
proof -
  obtain s1 where "for_each_driver (drv_resync th now False) s = Some s1" "es_inv s1"
      "driver_count s1 = driver_count s"
    using resync_ok[OF assms, of th False] by (auto simp: op_ok_def resync_def)
  then show ?thesis by (auto simp: continuousTimeReset_def call_observers_trace)
qed

lemma timebase_calls_ok:
  "es_inv s \<Longrightarrow> plausible_now now \<Longrightarrow> op_ok (driver_count s) (timebase_calls th now cs s)"
proof (induction cs arbitrary: s)
  case (Cons c cs)
  have "op_ok (driver_count s) (case c of
      NotifyContinuousOffsetChange \<Rightarrow> EsTime.notifyContinuousOffsetChange s
    | ContinuousTimeReset \<Rightarrow> continuousTimeReset th now s
    | Resync u \<Rightarrow> resync th now u s)"
    using Cons.prems notifyOffset_ok continuousTimeReset_ok resync_ok by (cases c) simp_all
  then show ?case using Cons.IH Cons.prems(2) by (fastforce simp: op_ok_def)
qed auto

text \<open>The operations a client, a driver or the time base can start.\<close>

datatype es_op =
    OpSetContSkew nat ESTimeInterval ESTimeInterval
  | OpSetStatus nat ESTimeSourceStatus
  | OpResync bool
  | OpStopSyncing
  | OpDisableSync
  | OpEnableSync
  | OpSetDeviceCountryCode string
  | OpContinuousTimeReset
  | OpSystemBaseChange times
  | OpWakingUp times
  | OpWorkingSyncValue ESTimeInterval ESTimeInterval
  | OpRegister observer
  | OpUnregister observer

fun es_step :: "nat \<Rightarrow> ESTimeInterval \<Rightarrow> es_op \<Rightarrow> estime \<Rightarrow> estime option" where
  "es_step th now (OpSetContSkew i skew err) s = setContSkew th now i skew err s"
| "es_step th now (OpSetStatus i st) s = setStatus th now i st s"
| "es_step th now (OpResync u) s = resync th now u s"
| "es_step th now OpStopSyncing s = stopSyncing s"
| "es_step th now OpDisableSync s = disableSync s"
| "es_step th now OpEnableSync s = enableSync s"
| "es_step th now (OpSetDeviceCountryCode cc) s = setDeviceCountryCode cc s"
| "es_step th now OpContinuousTimeReset s = continuousTimeReset th now s"
| "es_step th now (OpSystemBaseChange t) s = es_systemBaseChange th now t s"
| "es_step th now (OpWakingUp t) s = es_wakingUp th now t s"
| "es_step th now (OpWorkingSyncValue v a) s = Some (workingSyncValue th v a s)"
| "es_step th now (OpRegister ob) s = Some (registerTimeSyncObserver ob s)"
| "es_step th now (OpUnregister ob) s = Some (unregisterTimeSyncObserver ob s)"

fun es_run :: "(nat \<times> ESTimeInterval \<times> es_op) list \<Rightarrow> estime \<Rightarrow> estime option" where
  "es_run [] s = Some s"
| "es_run ((th, now, op) # ops) s = do { s \<leftarrow> es_step th now op s; es_run ops s }"

definition op_plausible :: "nat \<Rightarrow> nat \<times> ESTimeInterval \<times> es_op \<Rightarrow> bool" where
  "op_plausible n x = (case x of (th, now, op) \<Rightarrow> plausible_now now \<and>
     (case op of
        OpSetContSkew i skew err \<Rightarrow> i < n \<and> \<bar>skew\<bar> < ESFarFarInTheFuture / 2
      | OpSetStatus i st \<Rightarrow> i < n
      | _ \<Rightarrow> True))"

lemma es_step_ok:
  assumes inv: "es_inv s" and op: "op_plausible (driver_count s) (th, now, op)"
  shows "op_ok (driver_count s) (es_step th now op s)"
proof -
  have now: "plausible_now now" using op by (simp add: op_plausible_def)
  show ?thesis
  proof (cases op)
    case (OpSetContSkew i skew err)
    then show ?thesis using inv now op setContSkew_ok by (simp add: op_plausible_def)
  next
    case (OpSetStatus i st)
    then show ?thesis using inv now op setStatus_ok by (simp add: op_plausible_def)
  next
    case (OpSystemBaseChange t)
    then show ?thesis
      using timebase_calls_ok[of "s\<lparr>es_base := b\<rparr>" for b] inv now
      by (auto simp: es_systemBaseChange_def split: prod.split)
  next
    case (OpWakingUp t)
    then show ?thesis
      using timebase_calls_ok[of "s\<lparr>es_base := b\<rparr>" for b] inv now
      by (auto simp: es_wakingUp_def split: prod.split)
  qed (use inv now resync_ok post_ok continuousTimeReset_ok in
      \<open>auto simp: stopSyncing_def disableSync_def enableSync_def setDeviceCountryCode_def
        workingSyncValue_def call_observers_trace registerTimeSyncObserver_def
        unregisterTimeSyncObserver_def\<close>)
qed

definition es_move :: "nat \<times> ESTimeInterval \<times> es_op \<Rightarrow> estime \<Rightarrow> estime option" where
  "es_move x = (case x of (th, now, op) \<Rightarrow> es_step th now op)"

interpretation es: machine es_move "\<lambda>x s. op_plausible n x" "\<lambda>s. es_inv s \<and> driver_count s = n" for n
proof unfold_locales
  fix s x
  assume "es_inv s \<and> driver_count s = n" "op_plausible n x"
  then show "\<exists>s'. es_move x s = Some s' \<and> es_inv s' \<and> driver_count s' = n"
    using es_step_ok[of s] by (cases x) (auto simp: es_move_def op_ok_def)
qed

lemma es_run_run: "es_run ops s = run es_move ops s"
proof (induction ops arbitrary: s)
  case (Cons x ops)
  have "es_move x = es_step (fst x) (fst (snd x)) (snd (snd x))" by (cases x) (simp add: es_move_def fun_eq_iff)
  then show ?case using Cons by (cases x) (simp add: bind_eq_None_conv fun_eq_iff Cons.IH[abs_def])
qed simp

lemma es_run_ok:
  "es_inv s \<Longrightarrow> \<forall>x\<in>set ops. op_plausible (driver_count s) x \<Longrightarrow>
     op_ok (driver_count s) (es_run ops s)"
  using es.run_total[of s "driver_count s" ops] by (auto simp: es_run_run op_ok_def)

section \<open>A service runs without failing an assertion\<close>

definition plausible_start :: "timebase \<Rightarrow> user_prefs \<Rightarrow> ESTimeInterval \<Rightarrow> bool" where
  "plausible_start base prefs fakeTime \<longleftrightarrow>
     \<bar>pref_contSkew prefs\<bar> < ESFarFarInTheFuture / 2 \<and>
     \<bar>pref_timeSkew prefs - continuousOffset base\<bar> < ESFarFarInTheFuture / 2 \<and>
     \<bar>fakeTime\<bar> < ESFarFarInTheFuture / 4"

lemma ESFarFar_pos [simp]: "0 < ESFarFarInTheFuture"
  by (simp add: ESFarFarInTheFuture_def)

lemma new_driver_plausible:
  assumes "plausible_start base prefs ft"
    and "\<forall>t e. kind = FakeDriver t e \<longrightarrow> t = ft"
  shows "plausible_driver (new_driver base prefs kind)"
  using assms by (cases kind) (auto simp: plausible_driver_def new_driver_def plausible_start_def)

lemma estime_start_base:
  "es_base (estime_start base prefs) = base" "es_prefs (estime_start base prefs) = prefs"
  by (simp_all add: estime_start_def)

lemma estime_init_inv:
  assumes "estime_init ios flags ft fe (estime_start base prefs) = Some s"
    and "es_bestDriver s \<noteq> None" "plausible_start base prefs ft"
  shows "es_inv s"
proof -
  have sys: "plausible_driver new_system_driver"
    by (simp add: plausible_driver_def new_system_driver_def)
  have drv: "plausible_driver (new_driver base prefs NTPDriver)"
      "plausible_driver (new_driver base prefs XGPS150Driver)"
      "plausible_driver (new_driver base prefs (FakeDriver ft fe))"
    using new_driver_plausible[OF assms(3)] by simp_all
  have "leap_armed (estime_start base prefs)"
    by (simp add: leap_armed_def estime_start_def)
  moreover have "cache_ok (es_leapCache (estime_start base prefs))"
    using cache_ok_init by (simp add: estime_start_def)
  ultimately show ?thesis
    using assms(1,2) sys drv
    by (auto simp: estime_init_def es_inv_def Let_def estime_start_base split: if_splits)
qed

text \<open>C13: From initialisation on, every sequence of driver updates, resynchronisations, time base changes and registrations returns without failing an assertion and keeps the invariant of the service: a valid best driver, a usable leap second cache and an armed leap second from the table.\<close>

theorem estime_never_asserts:
  assumes "estime_init ios flags ft fe (estime_start base prefs) = Some s"
    and "es_bestDriver s \<noteq> None" "plausible_start base prefs ft"
    and "\<forall>x\<in>set ops. op_plausible (driver_count s) x"
  shows "\<exists>s'. es_run ops s = Some s' \<and> es_inv s' \<and> driver_count s' = driver_count s"
  using es_run_ok[OF estime_init_inv[OF assms(1-3)] assms(4)] by (simp add: op_ok_def)

definition sample_prefs :: user_prefs where
  "sample_prefs = \<lparr>pref_timeSkew = 0, pref_timeSkewAccuracy = 0, pref_contSkew = 0\<rparr>"

definition sample_flags :: maker_flags where
  "sample_flags = \<lparr>ESNTPMakerFlag = True, ESXGPS150MakerFlag = True, ESFakeMakerFlag = False,
     ESSystemTimeMakerFlag = False\<rparr>"

definition sample_base :: timebase where
  "sample_base = initCommonDualBase 0 0"

definition sample_driver :: "driver_kind \<Rightarrow> ESTimeSourceDriver" where
  "sample_driver k = \<lparr>drv_contSkew = 0, drv_currentTimeError = 10 ^ 9, drv_status = StatusOff,
     drv_kind = k\<rparr>"

definition sample_estime :: estime where
  "sample_estime = (estime_start sample_base sample_prefs)
     \<lparr>es_drivers := Some [sample_driver NTPDriver, sample_driver XGPS150Driver],
      es_bestDriver := Some 0\<rparr>"

lemma sample_init:
  "estime_init True sample_flags 0 0 (estime_start sample_base sample_prefs) = Some sample_estime"
  by (simp add: estime_init_def sample_flags_def sample_estime_def estime_start_def sample_base_def
      sample_prefs_def sample_driver_def new_driver_def initCommonDualBase_def Let_def)

lemma sample_plausible: "plausible_start sample_base sample_prefs 0"
  by (simp add: plausible_start_def sample_base_def sample_prefs_def initCommonDualBase_def)

lemma sample_inv: "es_inv sample_estime"
  using estime_init_inv[OF sample_init _ sample_plausible] by (simp add: sample_estime_def)

lemma sample_count [simp]: "driver_count sample_estime = 2"
  by (simp add: driver_count_def sample_estime_def)

theorem estime_never_asserts_witness:
  "\<exists>s'. es_run [(1, 504921500, OpSetContSkew 0 5 (1/10)), (1, 504921501, OpSetStatus 0 StatusRefining),
        (0, 504921600, OpSetContSkew 1 4 (1/20)), (0, 504921601, OpContinuousTimeReset)]
      sample_estime = Some s' \<and> es_inv s' \<and> driver_count s' = driver_count sample_estime"
  by (rule estime_never_asserts[OF sample_init _ sample_plausible])
    (simp_all add: sample_estime_def op_plausible_def plausible_now_def
      driver_count_def ESFarFarInTheFuture_def)

section \<open>A change of a driver\<close>

text \<open>C14: When a driver reports a new skew, the service ends up with a usable driver of least error whenever one is usable, leaves the old one only for a strictly better one, and tells each observer once, in order, about the value, and about the status if the driver changed.\<close>

theorem setContSkew_effect:
  assumes "es_inv s" "plausible_now now" "\<bar>skew\<bar> < ESFarFarInTheFuture / 2"
    and "the_driver i s = Some d" "(skew, err) \<noteq> (drv_contSkew d, drv_currentTimeError d)"
    and "es_bestDriver s = Some old" "es_drivers s = Some ds"
  shows "\<exists>s' b ds'. setContSkew th now i skew err s = Some s' \<and>
    ds' = ds[i := d\<lparr>drv_contSkew := skew, drv_currentTimeError := err\<rparr>] \<and>
    es_drivers s' = Some ds' \<and> es_bestDriver s' = Some b \<and> best_among ds' old b \<and>
    pref_contSkew (es_prefs s') = skew \<and>
    es_trace s' = es_trace s @
      (if b \<noteq> old then told th SyncValueChanged s @ told th SyncStatusChanged s
       else if i = old then told th SyncValueChanged s else [])"
proof -
  let ?d = "d\<lparr>drv_contSkew := skew, drv_currentTimeError := err\<rparr>"
  let ?p = "\<lparr>pref_timeSkew = skew + continuousOffset (es_base s),
      pref_timeSkewAccuracy = err, pref_contSkew = skew\<rparr>"
  let ?s = "put_driver i ?d s\<lparr>es_prefs := ?p\<rparr>"
  have "d \<in> set ds" using assms(4,7) by (auto simp: the_driver_def split: if_splits)
  then have "plausible_driver ?d"
    using assms(1,3,7) by (auto elim!: es_invE simp: plausible_driver_def)
  then have "es_inv ?s" using put_driver_inv assms(1) by simp
  moreover have "es_drivers ?s = Some (ds[i := ?d])" "es_bestDriver ?s = Some old"
    using assms(6,7) by (simp_all add: put_driver_def)
  ultimately obtain s' b where s': "syncValueChangedByDriver th now i ?s = Some s'"
      "same_frame ?s s'" "es_bestDriver s' = Some b" "best_among (ds[i := ?d]) old b"
      "es_prefs s' = ?p"
      "es_trace s' = es_trace s @
        (if b \<noteq> old then told th SyncValueChanged s @ told th SyncStatusChanged s
         else if i = old then told th SyncValueChanged s else [])"
    using valueChangedBy_total[of ?s now "ds[i := ?d]" old th i] assms(2)
    by (auto simp: told_def put_driver_def)
  moreover have "setContSkew th now i skew err s = Some s'"
    using s'(1) assms(4,5) by (auto simp: setContSkew_def put_driver_def Let_def)
  ultimately show ?thesis
    using assms(7) by (auto simp: same_frame_def put_driver_def)
qed

theorem setContSkew_effect_witness:
  "\<exists>s' b ds'. setContSkew 1 504921500 1 (3/2) (1/20) sample_estime = Some s' \<and>
    ds' = [sample_driver NTPDriver, sample_driver XGPS150Driver]
      [1 := (sample_driver XGPS150Driver)\<lparr>drv_contSkew := 3/2, drv_currentTimeError := 1/20\<rparr>] \<and>
    es_drivers s' = Some ds' \<and> es_bestDriver s' = Some b \<and> best_among ds' 0 b \<and>
    pref_contSkew (es_prefs s') = 3/2 \<and>
    es_trace s' = es_trace sample_estime @
      (if b \<noteq> 0 then told 1 SyncValueChanged sample_estime @ told 1 SyncStatusChanged sample_estime
       else if 1 = (0::nat) then told 1 SyncValueChanged sample_estime else [])"
  by (rule setContSkew_effect[OF sample_inv])
    (simp_all add: sample_estime_def the_driver_def sample_driver_def plausible_now_def
      ESFarFarInTheFuture_def)

section \<open>The conversions\<close>

lemma best_driver_inv:
  assumes "es_inv s"
  obtains d where "best_driver s = Some d" "plausible_driver d"
  using assms by (elim es_invE) (auto simp: best_driver_def)

text \<open>
  NTP time to continuous time and back is the identity, but for the very instant at which a
  leap second begins, which comes back one microsecond short.
\<close>

lemma ntp_of_continuous:
  assumes "es_inv s" "t < ESFarFarInTheFuture"
  shows "\<exists>c. cTimeForNTPTime t s = Some c \<and>
    ntpTimeForCTime c s =
      Some (if t = nextLeapSecondDate s then t - ESLeapSecondHoldShortInterval else t)"
proof -
  obtain d where d: "best_driver s = Some d" using assms(1) by (rule best_driver_inv)
  have "leap_armed s" using assms(1) by (rule es_invE)
  then show ?thesis
    by (cases rule: leap_armed_cases)
      (use assms(2) d in \<open>auto simp: cTimeForNTPTime_def ntpTimeForCTime_def adjustForLeapSecond_def
        adjustForLeapSecondGuts_def\<close>)
qed

text \<open>C16: Converting a synchronised time to continuous time and back is the identity, except that the instant a leap second begins comes back a microsecond short.\<close>

theorem ntp_continuous_roundtrip:
  assumes "es_inv s" "t < ESFarFarInTheFuture"
  shows "\<exists>c. cTimeForNTPTime t s = Some c \<and>
    ntpTimeForCTime c s =
      Some (if t = nextLeapSecondDate s then t - ESLeapSecondHoldShortInterval else t)"
  by (rule ntp_of_continuous[OF assms])

definition armed_estime :: estime where
  "armed_estime = sample_estime\<lparr>nextLeapSecondDate := 504921600, nextLeapSecondDelta := 1\<rparr>"

lemma armed_inv: "es_inv armed_estime"
proof -
  have "event_at 26 \<in> set leapSecondTable" by (rule nth_mem) simp
  moreover have "beginningOfChange (event_at 26) = 504921600" "leapSeconds (event_at 26) = 1"
    using boc_last event_leapSeconds[of 26] by (simp_all add: ESLastLeapSecondTransition_def)
  ultimately have "leap_armed armed_estime"
    by (force simp: leap_armed_def armed_estime_def)
  then show ?thesis using sample_inv by (auto simp: es_inv_def armed_estime_def)
qed

theorem ntp_continuous_roundtrip_witness:
  "\<exists>c. cTimeForNTPTime 504921700 armed_estime = Some c \<and>
    ntpTimeForCTime c armed_estime =
      Some (if 504921700 = nextLeapSecondDate armed_estime
            then 504921700 - ESLeapSecondHoldShortInterval else 504921700)"
  by (rule ntp_continuous_roundtrip[OF armed_inv]) (simp add: ESFarFarInTheFuture_def)

text \<open>Around a leap second: nothing before it, held short of it for its length, behind by it after.\<close>

lemma adjust_leap:
  assumes "nextLeapSecondDelta s = 1"
  shows "adjustForLeapSecond raw s = Some
    (if raw < nextLeapSecondDate s then raw
     else if raw \<le> nextLeapSecondDate s + 1 then nextLeapSecondDate s - ESLeapSecondHoldShortInterval
     else raw - 1)"
  using assms by (auto simp: adjustForLeapSecond_def adjustForLeapSecondGuts_def)

lemma adjust_live_leap:
  assumes "nextLeapSecondDelta s = 1"
  shows "adjustForLeapSecondWithLiveCorrection raw s = Some
    (let D = nextLeapSecondDate s; h = ESLeapSecondHoldShortInterval
     in if raw < D - 1 then (raw, 0)
        else if raw \<le> D then (raw, raw - D + h + 1)
        else if raw \<le> D + 1 then (D - h, raw - D + h + 1)
        else (raw - 1, 0))"
  using assms
  by (auto simp: adjustForLeapSecondWithLiveCorrection_def
      adjustForLeapSecondGutsWithLiveCorrection_def Let_def)

text \<open>C17: The adjusted time is defined for every time before the far future, never runs back by more than a microsecond and never runs faster than the unadjusted time but for that microsecond.\<close>

theorem adjusted_time_never_runs_back:
  assumes "leap_armed s" "r1 \<le> r2" "r2 < ESFarFarInTheFuture"
  shows "\<exists>t1 t2. adjustForLeapSecond r1 s = Some t1 \<and> adjustForLeapSecond r2 s = Some t2 \<and>
    t1 - ESLeapSecondHoldShortInterval \<le> t2 \<and>
    t2 - t1 \<le> r2 - r1 + ESLeapSecondHoldShortInterval"
proof -
  obtain h where h: "ESLeapSecondHoldShortInterval = h" "0 < h" "h < 1"
    using hold_short_pos hold_short_lt_1 by blast
  show ?thesis
    using assms(1)
  proof (cases rule: leap_armed_cases)
    case never
    moreover have "r1 - h \<le> r2" using assms(2) h(2) by linarith
    ultimately show ?thesis
      using assms(2,3) h(2) unfolding h(1) by (simp add: adjustForLeapSecond_def)
  next
    case (leap e)
    then show ?thesis
      using assms(2) h(2,3) by (auto simp: adjust_leap h(1) less_imp_le)
  qed
qed

theorem adjusted_time_never_runs_back_witness:
  "\<exists>t1 t2. adjustForLeapSecond 504921599 armed_estime = Some t1 \<and>
    adjustForLeapSecond (504921600 + 1/2) armed_estime = Some t2 \<and>
    t1 - ESLeapSecondHoldShortInterval \<le> t2 \<and>
    t2 - t1 \<le> 504921600 + 1/2 - 504921599 + ESLeapSecondHoldShortInterval"
  using armed_inv
  by (intro adjusted_time_never_runs_back) (auto simp: es_inv_def ESFarFarInTheFuture_def)

section \<open>Elapsed time across a leap second\<close>

text \<open>
  A client that stores the adjusted time and the live correction of two instants gets the
  real time that passed between them, to a microsecond, also when one or both fall into a
  leap second. \<open>leap_window k r\<close> says that the unadjusted time \<open>r\<close> is later than the
  event before event \<open>k\<close> and earlier than the one after it.
\<close>

definition leap_window :: "nat \<Rightarrow> ESTimeInterval \<Rightarrow> bool" where
  "leap_window k r \<longleftrightarrow> k < 27 \<and>
     (\<forall>i<k. beginningOfChange (event_at i) < r) \<and>
     (\<forall>i. k < i \<and> i < 27 \<longrightarrow> r - 1 \<le> beginningOfChange (event_at i))"

text \<open>The instant that an adjusted time and its live correction stand for.\<close>

definition instant_of :: "ESTimeInterval \<times> ESTimeInterval \<Rightarrow> real" where
  "instant_of p = fst p + leap_count (fst p) + (if snd p > 1 then snd p - 1 else 0)"

lemma table_gaps: "sorted_wrt (\<lambda>a b. a + 1 < b) (map beginningOfChange leapSecondTable)"
  by (simp add: leapSecondTable_def)

lemma boc_gap:
  assumes "i < j" "j < 27"
  shows "beginningOfChange (event_at i) + 1 < beginningOfChange (event_at j)"
  using sorted_wrt_nth_less[OF table_gaps, of i j] assms by simp

lemma leap_count_upto:
  assumes "k < 27" "\<And>i. i < k \<Longrightarrow> beginningOfChange (event_at i) < t"
    and "t \<le> beginningOfChange (event_at k)"
  shows "leap_count t = real k"
  using leap_count_eq[of k t] assms boc_le[of k] by fastforce

lemma leap_count_past:
  assumes "k < 27" "beginningOfChange (event_at k) < t"
    and "\<And>i. k < i \<Longrightarrow> i < 27 \<Longrightarrow> t \<le> beginningOfChange (event_at i)"
  shows "leap_count t = real k + 1"
proof -
  have "beginningOfChange (event_at i) < t" if "i < k + 1" for i
    using boc_le[of i k] that assms(1,2) by simp
  then show ?thesis using leap_count_eq[of "k + 1" t] assms by simp
qed

lemma instant_of_adjusted:
  assumes w: "leap_window k r" and D: "nextLeapSecondDate s = beginningOfChange (event_at k)"
    and "nextLeapSecondDelta s = 1" and h: "ESLeapSecondHoldShortInterval = h" "0 < h" "h < 1"
  shows "\<exists>p. adjustForLeapSecondWithLiveCorrection r s = Some p \<and>
    r + real k \<le> instant_of p \<and> instant_of p \<le> r + real k + h"
proof -
  let ?D = "beginningOfChange (event_at k)"
  have k: "k < 27" using w by (simp add: leap_window_def)
  note adj = adjust_live_leap[OF assms(3), of r, unfolded D h(1) Let_def]
  consider "r \<le> ?D" | "?D < r" "r \<le> ?D + 1" | "?D + 1 < r" by linarith
  then show ?thesis
  proof cases
    case 1
    then have "leap_count r = real k"
      using w k by (intro leap_count_upto) (auto simp: leap_window_def)
    then show ?thesis using adj 1 h(2,3) by (auto simp: instant_of_def)
  next
    case 2
    have "beginningOfChange (event_at i) < ?D - h" if "i < k" for i
      using boc_gap[OF that k] h(3) by linarith
    then have "leap_count (?D - h) = real k"
      using k h(2) by (intro leap_count_upto) auto
    then show ?thesis using adj 2 h(2) by (auto simp: instant_of_def)
  next
    case 3
    then have "leap_count (r - 1) = real k + 1"
      using w k by (intro leap_count_past) (auto simp: leap_window_def)
    then show ?thesis using adj 3 h(2) by (auto simp: instant_of_def)
  qed
qed

lemma live_interval_instants:
  assumes "cache_ok c"
  shows "\<exists>c'. intervalBetweenUTCValuesWithLiveLeapCorrections (fst p) (snd p) (fst q) (snd q) c =
    Some (instant_of q - instant_of p, c')"
proof -
  obtain c' where "leapSecondsDuringInterval (fst p) (fst q) c
      = Some (leap_count (fst q) - leap_count (fst p), c')"
    using leapSecondsDuring_elapsed[OF assms] by blast
  then show ?thesis
    by (auto simp: intervalBetweenUTCValuesWithLiveLeapCorrections_def instant_of_def Let_def)
qed

text \<open>C15: Two instants stored as adjusted time and live correction give back the real time between them to a microsecond, also when either lies inside the leap second that is armed; both must lie after the leap second before the armed one and before the one after it.\<close>

theorem elapsed_across_leap_second:
  assumes "leap_reachable c" "leap_window k r1" "leap_window k r2"
    and "nextLeapSecondDate s = beginningOfChange (event_at k)" "nextLeapSecondDelta s = 1"
  shows "\<exists>utc1 live1 utc2 live2 e c'.
    adjustForLeapSecondWithLiveCorrection r1 s = Some (utc1, live1) \<and>
    adjustForLeapSecondWithLiveCorrection r2 s = Some (utc2, live2) \<and>
    intervalBetweenUTCValuesWithLiveLeapCorrections utc1 live1 utc2 live2 c = Some (e, c') \<and>
    \<bar>e - (r2 - r1)\<bar> \<le> ESLeapSecondHoldShortInterval"
proof -
  obtain h where h: "ESLeapSecondHoldShortInterval = h" "0 < h" "h < 1"
    using hold_short_pos hold_short_lt_1 by blast
  obtain p q where p: "adjustForLeapSecondWithLiveCorrection r1 s = Some p"
      "r1 + real k \<le> instant_of p" "instant_of p \<le> r1 + real k + h"
    and q: "adjustForLeapSecondWithLiveCorrection r2 s = Some q"
      "r2 + real k \<le> instant_of q" "instant_of q \<le> r2 + real k + h"
    using instant_of_adjusted[OF _ assms(4,5) h] assms(2,3) by metis
  obtain c' where c': "intervalBetweenUTCValuesWithLiveLeapCorrections (fst p) (snd p) (fst q) (snd q) c
      = Some (instant_of q - instant_of p, c')"
    using live_interval_instants leap_reachable_ok assms(1) by blast
  have "\<bar>instant_of q - instant_of p - (r2 - r1)\<bar> \<le> h"
    using p q by linarith
  then show ?thesis
    using p(1) q(1) c' h(1) by (metis prod.collapse)
qed

lemma leap_window_26: "504900000 \<le> r \<Longrightarrow> leap_window 26 r"
proof -
  have "beginningOfChange (event_at 25) = 457401600" by (simp add: leapSecondTable_def)
  then have "beginningOfChange (event_at i) \<le> 457401600" if "i < 26" for i
    using boc_le[of i 25] that by simp
  then show "504900000 \<le> r \<Longrightarrow> leap_window 26 r"
    by (force simp: leap_window_def)
qed

theorem elapsed_across_leap_second_witness:
  "\<exists>utc1 live1 utc2 live2 e c'.
    adjustForLeapSecondWithLiveCorrection (504921600 + 1/2) armed_estime = Some (utc1, live1) \<and>
    adjustForLeapSecondWithLiveCorrection 504921700 armed_estime = Some (utc2, live2) \<and>
    intervalBetweenUTCValuesWithLiveLeapCorrections utc1 live1 utc2 live2 23 = Some (e, c') \<and>
    \<bar>e - (504921700 - (504921600 + 1/2))\<bar> \<le> ESLeapSecondHoldShortInterval"
  by (rule elapsed_across_leap_second[OF leap_reachable_2008 leap_window_26 leap_window_26])
    (simp_all add: armed_estime_def boc_last ESLastLeapSecondTransition_def)

section \<open>A synchronisation inside the second after a leap\<close>

text \<open>
  The source's own time already counts the leap second, so after a synchronisation nothing is
  left to subtract. \<open>setupNextLeapSecondData\<close> finds that out from \<open>currentTime\<close>, which
  still uses the old date: within the first second after the leap it is held short of it, so
  the same leap second stays armed and is subtracted again until the next synchronisation.
\<close>

text \<open>C18: A synchronisation whose time falls into the first second after a leap leaves that leap second armed, so a second too much is subtracted from then on until the next synchronisation.\<close>

theorem sync_in_leap_second_loses_a_second:
  assumes "nextLeapSecondDate s = beginningOfChange (event_at k)" "nextLeapSecondDelta s = 1"
    and "k < 27" "cache_ok (es_leapCache s)" "best_driver s = Some d"
    and "nextLeapSecondDate s \<le> drv_contSkew d + now" "drv_contSkew d + now \<le> nextLeapSecondDate s + 1"
    and "nextLeapSecondDate s + 1 < drv_contSkew d + later"
  shows "\<exists>s'. setupNextLeapSecondData now s = Some s' \<and>
    currentTime later s' = Some (drv_contSkew d + later - 1)"
proof -
  let ?D = "beginningOfChange (event_at k)" and ?h = ESLeapSecondHoldShortInterval
  have t: "currentTime now s = Some (?D - ?h)"
    using assms by (auto simp: currentTime_def adjust_leap)
  have "beginningOfChange (event_at i) < ?D - ?h" if "i < k" for i
    using boc_gap[OF that assms(3)] hold_short_lt_1 by linarith
  then have n: "next_leap (?D - ?h) = (?D, 1)"
    using next_leap_eq[of k "?D - ?h"] assms(3) event_leapSeconds[of k] hold_short_pos less_imp_le
    by simp
  obtain c' where "nextLeapSecondAfter (?D - ?h) (es_leapCache s) = Some ((?D, 1), c')"
    using next_correct[OF assms(4), of "?D - ?h"] n by auto
  then have "setupNextLeapSecondData now s = Some (s\<lparr>nextLeapSecondDate := ?D,
      nextLeapSecondDelta := 1, es_leapCache := c'\<rparr>)"
    using t by (simp add: setupNextLeapSecondData_def)
  moreover have "best_driver (s\<lparr>nextLeapSecondDate := ?D, nextLeapSecondDelta := 1,
      es_leapCache := c'\<rparr>) = Some d"
    using assms(5) by (simp add: best_driver_def)
  ultimately show ?thesis using assms(1,8) by (simp add: currentTime_def adjust_leap)
qed

definition half_past_leap :: estime where
  "half_past_leap = armed_estime\<lparr>es_drivers := Some [(sample_driver NTPDriver)\<lparr>drv_contSkew := 0\<rparr>]\<rparr>"

theorem sync_in_leap_second_loses_a_second_witness:
  "\<exists>s'. setupNextLeapSecondData (504921600 + 1/2) half_past_leap = Some s' \<and>
    currentTime 504921700 s' = Some (0 + 504921700 - 1)"
  using sync_in_leap_second_loses_a_second
    [of half_past_leap 26 "sample_driver NTPDriver" "504921600 + 1/2" 504921700]
  by (simp add: half_past_leap_def armed_estime_def sample_estime_def boc_last best_driver_def
      ESLastLeapSecondTransition_def sample_driver_def estime_start_def cacheLastEvent_init_def
      cache_ok_def ESNumberOfLeapSecondEntries_def)

end
