(* ===== verification/EsTimer.thy ===== *)
theory EsTimer
  imports EsTypes
begin

text \<open>
  The timers of src/ESTimer.cpp: the sorted queue of the timer thread, firing and repeating,
  and the protocol by which a timer is deleted while messages about it cross between the timer
  thread and the thread it notifies.

  Timers are addresses of a heap; a freed timer is not in it, and an operation that reads a
  freed timer or fails an assertion is \<^const>\<open>None\<close>. The counts of notifications sent and received
  only grow from 0, so they are natural numbers; that their \<open>int\<close> overflows is not modelled. The messages on their way to the
  timer thread are a list, those on their way to the notification threads another;
  \<open>EsTimerProtocol\<close> has the steps of the threads. \<open>conv\<close> is
  \<open>ESTime::cTimeForNTPTime\<close>; \<open>ES_SELECT_USES_CONTINUOUS_TIME\<close> is 1, as in the source.
\<close>

section \<open>Timers and the state\<close>

datatype timer_kind =
    IntervalTimer ESTimeInterval
  | AbsoluteTimer ESTimeInterval
  | DailyTimer ESTimeInterval
  | ContinuousTimeTimer

record timer =
  t_observer :: nat
  t_atTime :: ESTimeInterval
  t_useContinuousTime :: bool
  t_notificationThread :: "nat option"
  t_releasePending :: bool
  t_activated :: bool
  t_fireTime :: ESTimeInterval
  t_notificationsSent :: nat
  t_notificationsReceived :: nat
  t_kind :: timer_kind

datatype timer_msg =
    MActivate nat
  | MRelease nat nat

record timer_world =
  theap :: "nat \<rightharpoonup> timer"
  tqueue :: "nat list"
  inbox :: "timer_msg list"
  notifications :: "nat list"
  delivered :: "nat list"

section \<open>Construction\<close>

definition new_timer :: "nat \<Rightarrow> ESTimeInterval \<Rightarrow> bool \<Rightarrow> timer_kind \<Rightarrow> timer" where
  "new_timer observer atTime useContinuousTime kind =
     \<lparr>t_observer = observer, t_atTime = atTime, t_useContinuousTime = useContinuousTime,
      t_notificationThread = None, t_releasePending = False, t_activated = False,
      t_fireTime = 0, t_notificationsSent = 0, t_notificationsReceived = 0, t_kind = kind\<rparr>"

definition new_interval_timer ::
  "ESTimeInterval \<Rightarrow> nat \<Rightarrow> ESTimeInterval \<Rightarrow> ESTimeInterval \<Rightarrow> ESTimeInterval \<Rightarrow> timer" where
  "new_interval_timer now observer intervalFromReference continuousTimeReference repeatEverySeconds =
     new_timer observer
       ((if continuousTimeReference = -1 then now else continuousTimeReference) + intervalFromReference)
       True (IntervalTimer repeatEverySeconds)"

definition new_absolute_timer :: "nat \<Rightarrow> ESTimeInterval \<Rightarrow> ESTimeInterval \<Rightarrow> timer" where
  "new_absolute_timer observer synchronizedTime repeatEverySeconds =
     new_timer observer synchronizedTime False (AbsoluteTimer repeatEverySeconds)"

definition daily_calculateNextTimerTime :: "ESTimeInterval option" where
  "daily_calculateNextTimerTime = do { ESAssert False; Some 0 }"

definition new_daily_timer :: "nat \<Rightarrow> ESTimeInterval \<Rightarrow> timer option" where
  "new_daily_timer observer repeatIntervalInDays = do {
     let t = new_timer observer 0 False (DailyTimer repeatIntervalInDays);
     next \<leftarrow> daily_calculateNextTimerTime;
     Some (t\<lparr>t_atTime := next\<rparr>)
   }"

definition new_continuous_timer :: "nat \<Rightarrow> ESTimeInterval \<Rightarrow> timer" where
  "new_continuous_timer observer continuousTime =
     new_timer observer continuousTime True ContinuousTimeTimer"

section \<open>Fire times and repetition\<close>

definition calculateFireTime :: "(ESTimeInterval \<Rightarrow> ESTimeInterval) \<Rightarrow> timer \<Rightarrow> timer" where
  "calculateFireTime conv t =
     (if t_useContinuousTime t then t\<lparr>t_fireTime := t_atTime t\<rparr>
      else t\<lparr>t_fireTime := conv (t_atTime t)\<rparr>)"

fun possiblyRepeat :: "timer \<Rightarrow> (bool \<times> timer) option" where
  "possiblyRepeat t = (case t_kind t of
     IntervalTimer r \<Rightarrow>
       (if r \<noteq> 0 then Some (True, t\<lparr>t_atTime := t_atTime t + r\<rparr>) else Some (False, t))
   | AbsoluteTimer r \<Rightarrow>
       (if r \<noteq> 0 then Some (True, t\<lparr>t_atTime := t_atTime t + r\<rparr>) else Some (False, t))
   | DailyTimer r \<Rightarrow>
       (if r \<noteq> 0 then do { next \<leftarrow> daily_calculateNextTimerTime; Some (True, t\<lparr>t_atTime := next\<rparr>) }
        else Some (False, t))
   | ContinuousTimeTimer \<Rightarrow> Some (False, t))"

section \<open>The priority queue\<close>

text \<open>
  A \<open>std::multiset\<close> of pointers ordered by \<open>ESltTimer\<close>: an element is inserted after the
  elements with an equal key, and \<open>erase\<close> with an element removes all that have its key.
  Comparing reads the fire time of every timer met, so all must be alive.
\<close>

definition fire_key :: "(nat \<rightharpoonup> timer) \<Rightarrow> nat \<Rightarrow> ESTimeInterval" where
  "fire_key h i = (case h i of Some t \<Rightarrow> t_fireTime t | None \<Rightarrow> 0)"

definition ESltTimer :: "(nat \<rightharpoonup> timer) \<Rightarrow> nat \<Rightarrow> nat \<Rightarrow> bool" where
  "ESltTimer h i j \<longleftrightarrow> fire_key h i < fire_key h j"

fun queue_insert :: "(nat \<rightharpoonup> timer) \<Rightarrow> nat \<Rightarrow> nat list \<Rightarrow> nat list" where
  "queue_insert h i [] = [i]"
| "queue_insert h i (j # q) = (if ESltTimer h i j then i # j # q else j # queue_insert h i q)"

text \<open>
  With a hint, the place among equal keys is the one closest to the place just before the hint: before
  the equal ones that follow it, after those that precede it.
\<close>

fun queue_insert_lower :: "(nat \<rightharpoonup> timer) \<Rightarrow> nat \<Rightarrow> nat list \<Rightarrow> nat list" where
  "queue_insert_lower h i [] = [i]"
| "queue_insert_lower h i (j # q) = (if ESltTimer h j i then j # queue_insert_lower h i q else i # j # q)"

definition queue_insert_near :: "(nat \<rightharpoonup> timer) \<Rightarrow> nat option \<Rightarrow> nat \<Rightarrow> nat list \<Rightarrow> nat list" where
  "queue_insert_near h hint i q =
     (let pre = takeWhile (\<lambda>j. hint \<noteq> Some j) q; post = dropWhile (\<lambda>j. hint \<noteq> Some j) q
      in if pre = [] \<or> \<not> ESltTimer h i (last pre) then pre @ queue_insert_lower h i post
         else queue_insert h i pre @ post)"

definition queue_erase_key :: "(nat \<rightharpoonup> timer) \<Rightarrow> nat \<Rightarrow> nat list \<Rightarrow> nat list" where
  "queue_erase_key h i q = filter (\<lambda>j. ESltTimer h i j \<or> ESltTimer h j i) q"

definition queue_alive :: "(nat \<rightharpoonup> timer) \<Rightarrow> nat list \<Rightarrow> bool" where
  "queue_alive h q \<longleftrightarrow> list_all (\<lambda>i. h i \<noteq> None) q"

abbreviation put_timer :: "nat \<Rightarrow> timer \<Rightarrow> timer_world \<Rightarrow> timer_world" where
  "put_timer i t w \<equiv> w\<lparr>theap := (theap w)(i \<mapsto> t)\<rparr>"

section \<open>The timer thread\<close>

definition tt_activate :: "(ESTimeInterval \<Rightarrow> ESTimeInterval) \<Rightarrow> nat \<Rightarrow> timer_world \<Rightarrow> timer_world option" where
  "tt_activate conv i w = do {
     t \<leftarrow> theap w i;
     let t = calculateFireTime conv t;
     let w = put_timer i t w;
     ESAssert (queue_alive (theap w) (tqueue w));
     let w = w\<lparr>tqueue := queue_insert (theap w) i (tqueue w)\<rparr>;
     Some (put_timer i (t\<lparr>t_activated := True\<rparr>) w)
   }"

definition tt_deactivate :: "nat \<Rightarrow> timer_world \<Rightarrow> timer_world option" where
  "tt_deactivate i w = do {
     t \<leftarrow> theap w i;
     ESAssert (queue_alive (theap w) (tqueue w));
     let w = w\<lparr>tqueue := queue_erase_key (theap w) i (tqueue w)\<rparr>;
     Some (put_timer i (t\<lparr>t_activated := False\<rparr>) w)
   }"

text \<open>\<open>delete timer\<close>: the destructor asserts that the timer is not activated.\<close>

definition delete_timer :: "nat \<Rightarrow> timer_world \<Rightarrow> timer_world option" where
  "delete_timer i w = do {
     t \<leftarrow> theap w i;
     ESAssert (\<not> t_activated t);
     Some (w\<lparr>theap := (theap w)(i := None)\<rparr>)
   }"

definition tt_release :: "nat \<Rightarrow> nat \<Rightarrow> timer_world \<Rightarrow> timer_world option" where
  "tt_release i notificationsReceivedAtTimeOfRequest w = do {
     t \<leftarrow> theap w i;
     w \<leftarrow> (if t_activated t then tt_deactivate i w else Some w);
     t \<leftarrow> theap w i;
     if notificationsReceivedAtTimeOfRequest \<noteq> t_notificationsSent t then Some w
     else delete_timer i w
   }"

definition deliverNotification :: "nat \<Rightarrow> timer_world \<Rightarrow> timer_world option" where
  "deliverNotification i w = do {
     t \<leftarrow> theap w i;
     ESAssert (t_notificationThread t \<noteq> None);
     let w = put_timer i (t\<lparr>t_notificationsSent := t_notificationsSent t + 1\<rparr>) w;
     Some (w\<lparr>notifications := notifications w @ [i]\<rparr>)
   }"

text \<open>
  \<open>pre\<close> is the part of the queue before the iterator, \<open>rest\<close> the part from it on. A
  repeating timer is put back where its new fire time belongs; if that is before \<open>next\<close>,
  this pass does not meet it again.
\<close>

partial_function (option) fire_loop ::
  "(ESTimeInterval \<Rightarrow> ESTimeInterval) \<Rightarrow> ESTimeInterval \<Rightarrow> nat list \<Rightarrow> nat list \<Rightarrow> timer_world \<Rightarrow>
     timer_world option" where
  "fire_loop conv now pre rest w = (case rest of
     [] \<Rightarrow> Some (w\<lparr>tqueue := pre\<rparr>)
   | i # next \<Rightarrow> do {
       t \<leftarrow> theap w i;
       if t_fireTime t < now then do {
         w \<leftarrow> deliverNotification i w;
         t \<leftarrow> theap w i;
         (again, t) \<leftarrow> possiblyRepeat t;
         if again then do {
           let t = calculateFireTime conv t;
           let w = put_timer i t w;
           ESAssert (queue_alive (theap w) (pre @ next));
           if next = [] \<or> ESltTimer (theap w) i (hd next)
           then fire_loop conv now (queue_insert (theap w) i pre) next w
           else fire_loop conv now pre (queue_insert (theap w) i next) w
         }
         else fire_loop conv now pre next (put_timer i (t\<lparr>t_activated := False\<rparr>) w)
       }
       else Some (w\<lparr>tqueue := pre @ rest\<rparr>)
     })"

definition fireLapsedTimers ::
  "(ESTimeInterval \<Rightarrow> ESTimeInterval) \<Rightarrow> ESTimeInterval \<Rightarrow> timer_world \<Rightarrow> timer_world option" where
  "fireLapsedTimers conv now w = fire_loop conv now [] (tqueue w) w"

text \<open>\<open>newIter\<close> is the hint of the next insertion: the timer inserted last.\<close>

fun recalculate_loop ::
  "(ESTimeInterval \<Rightarrow> ESTimeInterval) \<Rightarrow> nat list \<Rightarrow> nat option \<Rightarrow> nat list \<Rightarrow> (nat \<rightharpoonup> timer) \<Rightarrow>
     (nat list \<times> (nat \<rightharpoonup> timer)) option" where
  "recalculate_loop conv [] newIter newQueue h = Some (newQueue, h)"
| "recalculate_loop conv (i # iter) newIter newQueue h = do {
     t \<leftarrow> h i;
     let h = h(i \<mapsto> calculateFireTime conv t);
     ESAssert (queue_alive h newQueue);
     recalculate_loop conv iter (Some i) (queue_insert_near h newIter i newQueue) h
   }"

definition recalculateAllFireTimes ::
  "(ESTimeInterval \<Rightarrow> ESTimeInterval) \<Rightarrow> ESTimeInterval \<Rightarrow> timer_world \<Rightarrow> timer_world option" where
  "recalculateAllFireTimes conv now w = do {
     (newQueue, h) \<leftarrow> recalculate_loop conv (tqueue w) None [] (theap w);
     fireLapsedTimers conv now (w\<lparr>tqueue := newQueue, theap := h\<rparr>)
   }"

text \<open>The time \<open>select\<close> may block: none without timers, else seconds and microseconds.\<close>

definition select_timeout :: "ESTimeInterval \<Rightarrow> timer_world \<Rightarrow> (int \<times> int) option option" where
  "select_timeout now w = (case tqueue w of
     [] \<Rightarrow> Some None
   | i # _ \<Rightarrow> do {
       t \<leftarrow> theap w i;
       let delta = t_fireTime t - now;
       let delta = (if delta < 0 then 0 else delta);
       let seconds = \<lfloor>delta\<rfloor>;
       Some (Some (seconds, \<lfloor>(delta - of_int seconds) * 1000000\<rfloor>))
     })"

section \<open>The thread that owns the timer\<close>

definition activate :: "nat \<Rightarrow> nat \<Rightarrow> timer_world \<Rightarrow> timer_world option" where
  "activate thread i w = do {
     t \<leftarrow> theap w i;
     ESAssert (\<not> t_releasePending t);
     ESAssert (t_notificationThread t = None);
     let w = put_timer i (t\<lparr>t_notificationThread := Some thread\<rparr>) w;
     Some (w\<lparr>inbox := inbox w @ [MActivate i]\<rparr>)
   }"

definition release :: "nat \<Rightarrow> nat \<Rightarrow> timer_world \<Rightarrow> timer_world option" where
  "release thread i w = do {
     t \<leftarrow> theap w i;
     ESAssert (\<not> t_releasePending t);
     let w = put_timer i (t\<lparr>t_releasePending := True\<rparr>) w;
     ESAssert (t_notificationThread t = None \<or> t_notificationThread t = Some thread);
     Some (w\<lparr>inbox := inbox w @ [MRelease i (t_notificationsReceived t)]\<rparr>)
   }"

definition releasePending :: "timer \<Rightarrow> bool option" where
  "releasePending t = do {
     ESAssert (t_notificationThread t \<noteq> None);
     Some (t_releasePending t)
   }"

definition receiveNotificationMessage :: "nat \<Rightarrow> timer_world \<Rightarrow> timer_world option" where
  "receiveNotificationMessage i w = do {
     t \<leftarrow> theap w i;
     ESAssert (t_notificationThread t \<noteq> None);
     let t = t\<lparr>t_notificationsReceived := t_notificationsReceived t + 1\<rparr>;
     let w = put_timer i t w;
     pending \<leftarrow> releasePending t;
     if pending
     then Some (w\<lparr>inbox := inbox w @ [MRelease i (t_notificationsReceived t)]\<rparr>)
     else Some (w\<lparr>delivered := delivered w @ [t_observer t]\<rparr>)
   }"

text \<open>The glue functions: a message is taken from the inbox and handled.\<close>

fun handle_message :: "(ESTimeInterval \<Rightarrow> ESTimeInterval) \<Rightarrow> timer_msg \<Rightarrow> timer_world \<Rightarrow> timer_world option" where
  "handle_message conv (MActivate i) w = tt_activate conv i w"
| "handle_message conv (MRelease i n) w = tt_release i n w"

end
