(* ===== verification/EsTimerProtocol.thy ===== *)
theory EsTimerProtocol
  imports EsTimer "HOL-Library.Multiset"
begin

text \<open>
  What holds of the timers of \<open>EsTimer\<close> however the threads interleave: no thread reads a
  freed timer, a timer is freed only when nothing about it is on its way, the queue stays
  sorted, and a pass of the timer thread ends after it has notified the timers that have lapsed.

  A step is one thread handling one event. A message to the timer thread may overtake others,
  but not one about the same timer, which the same thread has sent; notifications may arrive in
  any order.
\<close>

section \<open>The queue\<close>

locale timer_queue =
  fixes key :: "'a \<Rightarrow> real"
    and ins :: "'a \<Rightarrow> 'a list \<Rightarrow> 'a list"
    and era :: "'a \<Rightarrow> 'a list \<Rightarrow> 'a list"
  assumes mset_ins: "mset (ins x q) = add_mset x (mset q)"
    and sorted_ins: "sorted (map key q) \<Longrightarrow> sorted (map key (ins x q))"
    and set_era: "set (era x q) = {y \<in> set q. key y \<noteq> key x}"
    and sorted_era: "sorted (map key q) \<Longrightarrow> sorted (map key (era x q))"
    and distinct_era: "distinct q \<Longrightarrow> distinct (era x q)"
begin

lemma set_ins [simp]: "set (ins x q) = insert x (set q)"
  using arg_cong[OF mset_ins[of x q], of set_mset] by simp

lemma distinct_ins: "distinct (ins x q) \<longleftrightarrow> x \<notin> set q \<and> distinct q"
proof -
  have "distinct (ins x q) = distinct (x # q)"
    by (rule mset_eq_imp_distinct_iff) (simp add: mset_ins)
  then show ?thesis by simp
qed

text \<open>Insertion next to a split of the queue, on the side the new key belongs to.\<close>

lemma sorted_ins_left:
  assumes "sorted (map key (pre @ rest))" "rest = [] \<or> key x < key (hd rest)"
  shows "sorted (map key (ins x pre @ rest))"
  using assms sorted_ins[of pre x]
  by (cases rest) (force simp: sorted_append)+

lemma sorted_ins_right:
  assumes "sorted (map key (pre @ rest))" "rest \<noteq> []" "key (hd rest) \<le> key x"
  shows "sorted (map key (pre @ ins x rest))"
  using assms sorted_ins[of rest x]
  by (cases rest) (force simp: sorted_append)+

lemma hd_is_least: "sorted (map key (x # q)) \<Longrightarrow> y \<in> set q \<Longrightarrow> key x \<le> key y"
  by simp

end

lemma mset_queue_insert: "mset (queue_insert h i q) = add_mset i (mset q)"
  by (induction q) simp_all

lemma sorted_queue_insert:
  "sorted (map (fire_key h) q) \<Longrightarrow> sorted (map (fire_key h) (queue_insert h i q))"
proof (induction q)
  case (Cons j q)
  have "set (queue_insert h i q) = insert i (set q)"
    using arg_cong[OF mset_queue_insert[of h i q], of set_mset] by simp
  then show ?case using Cons by (auto simp: ESltTimer_def)
qed simp

interpretation tq: timer_queue "fire_key h" "queue_insert h" "queue_erase_key h"
  for h :: "nat \<rightharpoonup> timer"
  by unfold_locales
    (auto simp: mset_queue_insert sorted_queue_insert queue_erase_key_def ESltTimer_def sorted_filter)

text \<open>Insertion with a hint keeps the same contract.\<close>

lemma mset_queue_insert_lower: "mset (queue_insert_lower h i q) = add_mset i (mset q)"
  by (induction q) simp_all

lemma sorted_queue_insert_lower:
  "sorted (map (fire_key h) q) \<Longrightarrow> sorted (map (fire_key h) (queue_insert_lower h i q))"
proof (induction q)
  case (Cons j q)
  have "set (queue_insert_lower h i q) = insert i (set q)"
    using arg_cong[OF mset_queue_insert_lower[of h i q], of set_mset] by simp
  then show ?case using Cons by (auto simp: ESltTimer_def)
qed simp

interpretation tql: timer_queue "fire_key h" "queue_insert_lower h" "queue_erase_key h"
  for h :: "nat \<rightharpoonup> timer"
  by unfold_locales
    (auto simp: mset_queue_insert_lower sorted_queue_insert_lower queue_erase_key_def ESltTimer_def sorted_filter)

lemma queue_insert_near_split:
  obtains pre post where "q = pre @ post" "queue_insert_near h hint i q =
    (if pre = [] \<or> \<not> ESltTimer h i (last pre) then pre @ queue_insert_lower h i post else queue_insert h i pre @ post)"
proof
  show "q = takeWhile (\<lambda>j. hint \<noteq> Some j) q @ dropWhile (\<lambda>j. hint \<noteq> Some j) q" by simp
qed (simp only: queue_insert_near_def Let_def)

lemma mset_queue_insert_near: "mset (queue_insert_near h hint i q) = add_mset i (mset q)"
  by (rule queue_insert_near_split[of q h hint i]) (simp add: tql.mset_ins tq.mset_ins)

lemma sorted_queue_insert_near:
  assumes "sorted (map (fire_key h) q)"
  shows "sorted (map (fire_key h) (queue_insert_near h hint i q))"
proof -
  obtain pre post where p: "q = pre @ post" "queue_insert_near h hint i q =
    (if pre = [] \<or> \<not> ESltTimer h i (last pre) then pre @ queue_insert_lower h i post else queue_insert h i pre @ post)"
    by (rule queue_insert_near_split)
  have s: "sorted (map (fire_key h) (pre @ post))" using assms p(1) by simp
  show ?thesis
  proof (cases pre rule: rev_cases)
    case Nil
    then show ?thesis using s tql.sorted_ins[of h post i] by (simp add: p(2))
  next
    case (snoc xs x)
    show ?thesis
    proof (cases "ESltTimer h i x")
      case True
      then have "\<forall>j\<in>set post. fire_key h i \<le> fire_key h j"
        using s snoc by (auto simp: ESltTimer_def sorted_append)
      then show ?thesis using s True snoc tq.sorted_ins[of h pre i] by (auto simp: p(2) sorted_append)
    next
      case False
      then have "\<forall>j\<in>set pre. fire_key h j \<le> fire_key h i"
        using s snoc by (force simp: ESltTimer_def sorted_append)
      then show ?thesis using s False snoc tql.sorted_ins[of h post i] by (auto simp: p(2) sorted_append)
    qed
  qed
qed

interpretation tqn: timer_queue "fire_key h" "queue_insert_near h hint" "queue_erase_key h"
  for h :: "nat \<rightharpoonup> timer" and hint
  by unfold_locales
    (auto simp: mset_queue_insert_near sorted_queue_insert_near queue_erase_key_def ESltTimer_def sorted_filter)

section \<open>The invariant\<close>

fun msg_timer :: "timer_msg \<Rightarrow> nat" where
  "msg_timer (MActivate i) = i"
| "msg_timer (MRelease i n) = i"

definition msgs :: "nat \<Rightarrow> timer_world \<Rightarrow> timer_msg list" where
  "msgs i w = filter (\<lambda>m. msg_timer m = i) (inbox w)"

text \<open>
  One live timer \<open>i\<close>: \<open>ms\<close> are the messages about it on their way to the timer thread,
  \<open>p\<close> counts its notifications that have not arrived, \<open>inq\<close> says whether it is queued.
\<close>

definition act_ok :: "nat \<Rightarrow> timer \<Rightarrow> timer_msg list \<Rightarrow> bool" where
  "act_ok i t acts \<longleftrightarrow> acts = [] \<or>
     acts = [MActivate i] \<and> t_notificationThread t \<noteq> None \<and> \<not> t_activated t \<and>
     t_notificationsSent t = 0"

definition rel_ok :: "timer \<Rightarrow> timer_msg list \<Rightarrow> nat list \<Rightarrow> bool" where
  "rel_ok t acts ns \<longleftrightarrow>
     (if t_releasePending t
      then sorted_wrt (<) ns \<and>
        (if ns = [] then acts = [] \<and> \<not> t_activated t \<and>
           t_notificationsReceived t < t_notificationsSent t
         else last ns = t_notificationsReceived t)
      else ns = [])"

definition messages_ok :: "nat \<Rightarrow> timer \<Rightarrow> timer_msg list \<Rightarrow> bool" where
  "messages_ok i t ms \<longleftrightarrow>
     (\<exists>acts ns. ms = acts @ map (MRelease i) ns \<and> act_ok i t acts \<and> rel_ok t acts ns)"

definition counts_ok :: "timer \<Rightarrow> nat \<Rightarrow> bool \<Rightarrow> bool" where
  "counts_ok t p inq \<longleftrightarrow>
     t_notificationsSent t = t_notificationsReceived t + p \<and>
     (inq \<longrightarrow> t_activated t) \<and>
     (t_activated t \<longrightarrow> t_notificationThread t \<noteq> None) \<and>
     (t_notificationThread t = None \<longrightarrow> t_notificationsSent t = 0)"

definition protocol_ok :: "nat \<Rightarrow> timer \<Rightarrow> timer_msg list \<Rightarrow> nat \<Rightarrow> bool \<Rightarrow> bool" where
  "protocol_ok i t ms p inq \<longleftrightarrow> counts_ok t p inq \<and> messages_ok i t ms"

definition kind_ok :: "timer \<Rightarrow> bool" where
  "kind_ok t \<longleftrightarrow> (case t_kind t of
     IntervalTimer r \<Rightarrow> 0 \<le> r \<and> t_useContinuousTime t
   | AbsoluteTimer r \<Rightarrow> 0 \<le> r \<and> \<not> t_useContinuousTime t
   | DailyTimer r \<Rightarrow> False
   | ContinuousTimeTimer \<Rightarrow> t_useContinuousTime t)"

lemma kind_ok_frame [simp]:
  "kind_ok (t\<lparr>t_notificationThread := x1\<rparr>) = kind_ok t"
  "kind_ok (t\<lparr>t_releasePending := x2\<rparr>) = kind_ok t"
  "kind_ok (t\<lparr>t_activated := x3\<rparr>) = kind_ok t"
  "kind_ok (t\<lparr>t_fireTime := x4\<rparr>) = kind_ok t"
  "kind_ok (t\<lparr>t_notificationsSent := x5\<rparr>) = kind_ok t"
  "kind_ok (t\<lparr>t_notificationsReceived := x6\<rparr>) = kind_ok t"
  "kind_ok (t\<lparr>t_atTime := x7\<rparr>) = kind_ok t"
  by (simp_all add: kind_ok_def split: timer_kind.split)

definition timer_ok :: "nat \<Rightarrow> timer_world \<Rightarrow> bool" where
  "timer_ok i w \<longleftrightarrow> (case theap w i of
     None \<Rightarrow> i \<notin> set (tqueue w) \<and> msgs i w = [] \<and> i \<notin> set (notifications w)
   | Some t \<Rightarrow> kind_ok t \<and>
       protocol_ok i t (msgs i w) (count_list (notifications w) i) (i \<in> set (tqueue w)))"

definition queue_ok :: "timer_world \<Rightarrow> bool" where
  "queue_ok w \<longleftrightarrow> distinct (tqueue w) \<and> sorted (map (fire_key (theap w)) (tqueue w))"

definition world_ok :: "timer_world \<Rightarrow> bool" where
  "world_ok w \<longleftrightarrow> queue_ok w \<and> (\<forall>i. timer_ok i w)"

lemma world_ok_alive:
  assumes "world_ok w" "i \<in> set (tqueue w)"
  obtains t where "theap w i = Some t" "t_activated t" "t_notificationThread t \<noteq> None" "kind_ok t"
proof -
  have "timer_ok i w" using assms(1) by (simp add: world_ok_def)
  then show ?thesis
    using assms(2) that by (auto simp: timer_ok_def protocol_ok_def counts_ok_def split: option.splits)
qed

lemma world_ok_queue_alive:
  assumes "world_ok w" "set q \<subseteq> set (tqueue w)"
  shows "queue_alive (theap w) q"
  unfolding queue_alive_def list_all_iff
proof
  fix i assume "i \<in> set q"
  then obtain t where "theap w i = Some t" using world_ok_alive assms by blast
  then show "theap w i \<noteq> None" by simp
qed

lemma protocol_ok_dequeue:
  assumes "protocol_ok i t ms p inq" "inq' \<longrightarrow> inq"
  shows "protocol_ok i t ms p inq'"
  using assms by (auto simp: protocol_ok_def counts_ok_def)

text \<open>Two worlds that differ about timer \<open>i\<close> only; others may have left the queue.\<close>

definition same_others :: "nat \<Rightarrow> timer_world \<Rightarrow> timer_world \<Rightarrow> bool" where
  "same_others i w w' \<longleftrightarrow> (\<forall>j. j \<noteq> i \<longrightarrow> theap w' j = theap w j \<and> msgs j w' = msgs j w \<and>
     count_list (notifications w') j = count_list (notifications w) j \<and>
     (j \<in> set (tqueue w') \<longrightarrow> j \<in> set (tqueue w)))"

lemma timer_ok_others:
  assumes "timer_ok j w" "same_others i w w'" "j \<noteq> i"
  shows "timer_ok j w'"
proof -
  have c: "j \<in> set (notifications w') \<longleftrightarrow> j \<in> set (notifications w)"
    using assms(2,3) count_list_0_iff unfolding same_others_def by metis
  show ?thesis
    using assms c unfolding timer_ok_def same_others_def
    by (auto split: option.splits intro: protocol_ok_dequeue)
qed

lemma world_okI:
  assumes "world_ok w" "same_others i w w'" "timer_ok i w'" "queue_ok w'"
  shows "world_ok w'"
  using assms timer_ok_others by (metis world_ok_def)

lemma queue_ok_keys:
  assumes "queue_ok w" "tqueue w' = tqueue w"
    and "\<And>j. j \<in> set (tqueue w) \<Longrightarrow> fire_key (theap w') j = fire_key (theap w) j"
  shows "queue_ok w'"
proof -
  have "map (fire_key (theap w')) (tqueue w') = map (fire_key (theap w)) (tqueue w)"
    using assms(2,3) by simp
  then show ?thesis using assms(1,2) unfolding queue_ok_def by metis
qed

section \<open>The thread that owns a timer\<close>

lemma msgs_append [simp]:
  "msgs j (w\<lparr>inbox := inbox w @ [m]\<rparr>) = msgs j w @ (if msg_timer m = j then [m] else [])"
  by (simp add: msgs_def)

lemma msgs_frame [simp]:
  "msgs j (w\<lparr>theap := h\<rparr>) = msgs j w"
  "msgs j (w\<lparr>tqueue := q\<rparr>) = msgs j w"
  "msgs j (w\<lparr>notifications := ns\<rparr>) = msgs j w"
  "msgs j (w\<lparr>delivered := d\<rparr>) = msgs j w"
  by (simp_all add: msgs_def)

lemma timer_okD:
  assumes "world_ok w" "theap w i = Some t"
  shows "kind_ok t" "protocol_ok i t (msgs i w) (count_list (notifications w) i) (i \<in> set (tqueue w))"
  using assms by (auto simp: world_ok_def timer_ok_def split: option.splits dest: spec[of _ i])

lemma fresh_timer:
  assumes "world_ok w" "theap w i = None"
  shows "i \<notin> set (tqueue w)" "msgs i w = []" "i \<notin> set (notifications w)"
  using assms by (auto simp: world_ok_def timer_ok_def split: option.splits dest: spec[of _ i])

lemma put_timer_queue_ok:
  assumes "queue_ok w" "i \<in> set (tqueue w) \<longrightarrow> fire_key (theap w) i = t_fireTime t"
    and "theap w' = (theap w)(i \<mapsto> t)" "tqueue w' = tqueue w"
  shows "queue_ok w'"
  using assms(1,4) by (rule queue_ok_keys) (use assms(2,3) in \<open>auto simp: fire_key_def\<close>)

definition not_started :: "timer \<Rightarrow> bool" where
  "not_started t \<longleftrightarrow> t_notificationThread t = None \<and> \<not> t_releasePending t \<and> \<not> t_activated t \<and>
     t_notificationsSent t = 0 \<and> t_notificationsReceived t = 0"

lemma world_okD: "world_ok w \<Longrightarrow> queue_ok w"
  by (simp add: world_ok_def)

lemma messages_None:
  assumes "messages_ok i t ms" "t_notificationThread t = None" "\<not> t_releasePending t"
  shows "ms = []"
  using assms by (auto simp: messages_ok_def act_ok_def rel_ok_def)

lemma create_ok:
  assumes "world_ok w" "theap w i = None" "not_started t" "kind_ok t"
  shows "world_ok (put_timer i t w)"
proof (rule world_okI[OF assms(1), of i])
  have "messages_ok i t []"
    using assms(3) by (simp add: messages_ok_def act_ok_def rel_ok_def not_started_def)
  then show "timer_ok i (put_timer i t w)"
    using assms(3,4) fresh_timer[OF assms(1,2)]
    by (simp add: timer_ok_def protocol_ok_def counts_ok_def not_started_def count_list_0_iff)
  show "queue_ok (put_timer i t w)"
    using fresh_timer(1)[OF assms(1,2)]
    by (intro put_timer_queue_ok[OF world_okD[OF assms(1)]]) auto
qed (simp add: same_others_def)

lemma activate_ok:
  assumes w: "world_ok w" "theap w i = Some t"
    and "\<not> t_releasePending t" "t_notificationThread t = None"
  shows "\<exists>w'. activate th i w = Some w' \<and> world_ok w'"
proof -
  let ?t = "t\<lparr>t_notificationThread := Some th\<rparr>"
  let ?w = "put_timer i ?t w\<lparr>inbox := inbox w @ [MActivate i]\<rparr>"
  note t = timer_okD[OF w]
  have c: "i \<notin> set (tqueue w)" "\<not> t_activated t" "t_notificationsSent t = 0"
      "counts_ok t (count_list (notifications w) i) False"
    using t(2) assms(4) by (auto simp: protocol_ok_def counts_ok_def)
  have "msgs i w = []"
    using t(2) messages_None[OF _ assms(4,3)] by (metis protocol_ok_def)
  then have "msgs i ?w = [MActivate i] @ map (MRelease i) []" by (simp add: msgs_def)
  moreover have "act_ok i ?t [MActivate i]" "rel_ok ?t [MActivate i] []"
    using c assms(3) by (simp_all add: act_ok_def rel_ok_def)
  ultimately have "messages_ok i ?t (msgs i ?w)" unfolding messages_ok_def by blast
  moreover have "counts_ok ?t (count_list (notifications w) i) (i \<in> set (tqueue w))"
    using c by (simp add: counts_ok_def)
  ultimately have "timer_ok i ?w"
    using t(1) by (simp add: timer_ok_def protocol_ok_def)
  moreover have "queue_ok ?w"
    using c(1) by (intro put_timer_queue_ok[OF world_okD[OF w(1)], of i ?t]) auto
  moreover have "same_others i w ?w" by (simp add: same_others_def msgs_def)
  ultimately have "world_ok ?w" using world_okI[OF w(1)] by blast
  then show ?thesis using assms by (simp add: activate_def)
qed

lemma release_ok:
  assumes w: "world_ok w" "theap w i = Some t"
    and "\<not> t_releasePending t" "t_notificationThread t = None \<or> t_notificationThread t = Some th"
  shows "\<exists>w'. release th i w = Some w' \<and> world_ok w'"
proof -
  let ?n = "t_notificationsReceived t"
  let ?t = "t\<lparr>t_releasePending := True\<rparr>"
  let ?w = "put_timer i ?t w\<lparr>inbox := inbox w @ [MRelease i ?n]\<rparr>"
  note t = timer_okD[OF w]
  obtain acts where acts: "msgs i w = acts" "act_ok i t acts"
    using t(2) assms(3) by (auto simp: protocol_ok_def messages_ok_def rel_ok_def)
  have "msgs i ?w = acts @ map (MRelease i) [?n]"
    using acts(1) by (simp add: msgs_def)
  moreover have "act_ok i ?t acts" "rel_ok ?t acts [?n]"
    using acts(2) by (simp_all add: act_ok_def rel_ok_def)
  ultimately have "messages_ok i ?t (msgs i ?w)" unfolding messages_ok_def by blast
  moreover have "counts_ok ?t (count_list (notifications w) i) (i \<in> set (tqueue w))"
    using t(2) by (auto simp: protocol_ok_def counts_ok_def)
  ultimately have "timer_ok i ?w" using t(1) by (simp add: timer_ok_def protocol_ok_def)
  moreover have "queue_ok ?w"
    using w(2) by (intro put_timer_queue_ok[OF world_okD[OF w(1)], of i ?t]) (auto simp: fire_key_def)
  moreover have "same_others i w ?w" by (simp add: same_others_def msgs_def)
  ultimately have "world_ok ?w" using world_okI[OF w(1)] by blast
  moreover have "release th i w = Some ?w" using assms by (auto simp: release_def)
  ultimately show ?thesis by blast
qed

lemma rel_ok_resend:
  assumes "rel_ok t acts ns" "t_releasePending t"
  shows "rel_ok (t\<lparr>t_notificationsReceived := t_notificationsReceived t + 1\<rparr>) acts
    (ns @ [t_notificationsReceived t + 1])"
proof -
  have "n \<le> t_notificationsReceived t" if n: "n \<in> set ns" for n
  proof -
    have ns: "sorted_wrt (<) ns" "last ns = t_notificationsReceived t"
      using assms n by (auto simp: rel_ok_def split: if_splits)
    obtain i where i: "i < length ns" "n = ns ! i" using n by (auto simp: in_set_conv_nth)
    show ?thesis
    proof (cases "i = length ns - 1")
      case True
      then show ?thesis using i ns(2) by (metis last_conv_nth length_0_conv not_less_zero order_refl)
    next
      case False
      then have "ns ! i < ns ! (length ns - 1)"
        using i sorted_wrt_nth_less[OF ns(1), of i "length ns - 1"] by simp
      then show ?thesis
        using i ns(2) by (metis last_conv_nth length_0_conv not_less_zero less_imp_le)
    qed
  qed
  then show ?thesis
    using assms by (force simp: rel_ok_def sorted_wrt_append split: if_splits)
qed

lemma receive_ok:
  assumes w: "world_ok w" "notifications w = xs @ i # ys"
  shows "\<exists>w'. receiveNotificationMessage i (w\<lparr>notifications := xs @ ys\<rparr>) = Some w' \<and> world_ok w'"
proof -
  have "i \<in> set (notifications w)" using w(2) by simp
  then obtain t where ht: "theap w i = Some t" using fresh_timer(3)[OF w(1)] by blast
  note t = timer_okD[OF w(1) ht]
  let ?n = "t_notificationsReceived t"
  let ?t = "t\<lparr>t_notificationsReceived := ?n + 1\<rparr>"
  let ?w = "put_timer i ?t (w\<lparr>notifications := xs @ ys\<rparr>)"
  let ?wr = "?w\<lparr>inbox := inbox w @ [MRelease i (?n + 1)]\<rparr>"
  let ?wd = "?w\<lparr>delivered := delivered w @ [t_observer t]\<rparr>"
  have c: "counts_ok t (Suc (count_list (xs @ ys) i)) (i \<in> set (tqueue w))" "messages_ok i t (msgs i w)"
    using w(2) t(2) by (simp_all add: protocol_ok_def)
  then have thr: "t_notificationThread t \<noteq> None"
    unfolding counts_ok_def by (metis add_Suc_right nat.simps(3))
  have c': "counts_ok ?t (count_list (xs @ ys) i) (i \<in> set (tqueue w))"
    using c(1) by (auto simp: counts_ok_def)
  have q: "queue_ok ?wr" "queue_ok ?wd"
    using ht by (auto intro!: put_timer_queue_ok[OF world_okD[OF w(1)], of i ?t] simp: fire_key_def)
  have o: "same_others i w ?wr" "same_others i w ?wd"
    using w(2) by (simp_all add: same_others_def msgs_def)
  obtain acts ns where ms: "msgs i w = acts @ map (MRelease i) ns" "act_ok i t acts" "rel_ok t acts ns"
    using c(2) unfolding messages_ok_def by blast
  have act: "act_ok i ?t acts" using ms(2) by (simp add: act_ok_def)
  show ?thesis
  proof (cases "t_releasePending t")
    case False
    have "rel_ok ?t acts ns" using ms(3) False by (simp add: rel_ok_def)
    then have "messages_ok i ?t (msgs i ?wd)"
      using ms(1) act unfolding messages_ok_def by (auto simp: msgs_def)
    then have "timer_ok i ?wd" using t(1) c' by (simp add: timer_ok_def protocol_ok_def)
    then have "world_ok ?wd" using world_okI[OF w(1) o(2) _ q(2)] by blast
    then show ?thesis
      using ht thr False by (simp add: receiveNotificationMessage_def releasePending_def)
  next
    case True
    have "msgs i ?wr = acts @ map (MRelease i) (ns @ [?n + 1])"
      using ms(1) by (simp add: msgs_def)
    then have "messages_ok i ?t (msgs i ?wr)"
      using act rel_ok_resend[OF ms(3) True] unfolding messages_ok_def by blast
    then have "timer_ok i ?wr" using t(1) c' by (simp add: timer_ok_def protocol_ok_def)
    then have "world_ok ?wr" using world_okI[OF w(1) o(1) _ q(1)] by blast
    then show ?thesis
      using ht thr True by (simp add: receiveNotificationMessage_def releasePending_def)
  qed
qed

section \<open>Messages to the timer thread\<close>

lemma messages_ok_activate:
  assumes "messages_ok i t (MActivate i # ms)"
  shows "t_notificationThread t \<noteq> None" "\<not> t_activated t" "t_notificationsSent t = 0"
    "messages_ok i (t\<lparr>t_fireTime := f, t_activated := True\<rparr>) ms"
proof -
  obtain acts ns where a: "MActivate i # ms = acts @ map (MRelease i) ns"
      "act_ok i t acts" "rel_ok t acts ns"
    using assms unfolding messages_ok_def by blast
  then have acts: "acts = [MActivate i]" "ms = map (MRelease i) ns"
    by (auto simp: act_ok_def Cons_eq_append_conv Cons_eq_map_conv)
  then show "t_notificationThread t \<noteq> None" "\<not> t_activated t" "t_notificationsSent t = 0"
    using a(2) by (simp_all add: act_ok_def)
  have "rel_ok (t\<lparr>t_fireTime := f, t_activated := True\<rparr>) [] ns"
    using a(3) acts(1) by (auto simp: rel_ok_def split: if_splits)
  then show "messages_ok i (t\<lparr>t_fireTime := f, t_activated := True\<rparr>) ms"
    using acts(2) by (auto simp: messages_ok_def act_ok_def)
qed

lemma messages_ok_release:
  assumes "messages_ok i t (MRelease i n # ms)"
  shows "t_releasePending t"
    "n = t_notificationsSent t \<Longrightarrow> t_notificationsReceived t \<le> t_notificationsSent t \<Longrightarrow>
       ms = [] \<and> t_notificationsReceived t = n"
    "n \<noteq> t_notificationsSent t \<Longrightarrow> t_notificationsReceived t \<le> t_notificationsSent t \<Longrightarrow>
       messages_ok i (t\<lparr>t_activated := False\<rparr>) ms"
proof -
  obtain acts ns where a: "MRelease i n # ms = acts @ map (MRelease i) ns"
      "act_ok i t acts" "rel_ok t acts ns"
    using assms unfolding messages_ok_def by blast
  then obtain ns' where ns: "acts = []" "ns = n # ns'" "ms = map (MRelease i) ns'"
    by (auto simp: act_ok_def Cons_eq_append_conv Cons_eq_map_conv)
  then show rp: "t_releasePending t" using a(3) by (simp add: rel_ok_def split: if_splits)
  have s: "sorted_wrt (<) (n # ns')" "last (n # ns') = t_notificationsReceived t"
    using a(3) ns rp by (auto simp: rel_ok_def)
  have last: "n < t_notificationsReceived t" if "ns' \<noteq> []"
    using s that last_in_set[of ns'] by auto
  show "ms = [] \<and> t_notificationsReceived t = n"
    if "n = t_notificationsSent t" "t_notificationsReceived t \<le> t_notificationsSent t"
    using last that ns(3) s(2) by (cases ns') auto
  show "messages_ok i (t\<lparr>t_activated := False\<rparr>) ms"
    if "n \<noteq> t_notificationsSent t" "t_notificationsReceived t \<le> t_notificationsSent t"
  proof -
    have "rel_ok (t\<lparr>t_activated := False\<rparr>) [] ns'"
      using s that rp by (cases "ns' = []") (auto simp: rel_ok_def)
    then show ?thesis using ns(3) by (auto simp: messages_ok_def act_ok_def)
  qed
qed

text \<open>The world once message \<open>m\<close>, the first about its timer, has left the inbox.\<close>

lemma take_message:
  assumes "inbox w = xs @ m # ys" "\<forall>m'\<in>set xs. msg_timer m' \<noteq> msg_timer m"
  shows "msgs (msg_timer m) w = m # msgs (msg_timer m) (w\<lparr>inbox := xs @ ys\<rparr>)"
    and "j \<noteq> msg_timer m \<Longrightarrow> msgs j (w\<lparr>inbox := xs @ ys\<rparr>) = msgs j w"
  using assms by (auto simp: msgs_def)

lemma queue_put:
  assumes "queue_ok w" "i \<notin> set (tqueue w)"
  shows "sorted (map (fire_key ((theap w)(i \<mapsto> t))) (tqueue w))"
proof -
  have "map (fire_key ((theap w)(i \<mapsto> t))) (tqueue w) = map (fire_key (theap w)) (tqueue w)"
    using assms(2) by (auto simp: fire_key_def)
  then show ?thesis using assms(1) unfolding queue_ok_def by metis
qed

lemma fire_key_cong: "t_fireTime t' = t_fireTime t \<Longrightarrow>
    fire_key (h(i \<mapsto> t')) = fire_key (h(i \<mapsto> t))"
  by (auto simp: fire_key_def)

lemma tt_activate_ok:
  assumes w: "world_ok w" "inbox w = xs @ MActivate i # ys" "\<forall>m'\<in>set xs. msg_timer m' \<noteq> i"
  shows "\<exists>w'. tt_activate conv i (w\<lparr>inbox := xs @ ys\<rparr>) = Some w' \<and> world_ok w'"
proof -
  let ?v = "w\<lparr>inbox := xs @ ys\<rparr>"
  note m = take_message[OF w(2), simplified, OF w(3)]
  then obtain t where ht: "theap w i = Some t" using fresh_timer(2)[OF w(1)] by force
  note t = timer_okD[OF w(1) ht]
  obtain f where f: "calculateFireTime conv t = t\<lparr>t_fireTime := f\<rparr>"
    unfolding calculateFireTime_def by (metis (full_types))
  let ?t = "t\<lparr>t_fireTime := f\<rparr>"
  let ?t' = "t\<lparr>t_fireTime := f, t_activated := True\<rparr>"
  let ?q = "queue_insert ((theap w)(i \<mapsto> ?t)) i (tqueue w)"
  let ?w = "?v\<lparr>theap := (theap w)(i \<mapsto> ?t'), tqueue := ?q\<rparr>"
  have c: "counts_ok t (count_list (notifications w) i) (i \<in> set (tqueue w))"
      "messages_ok i t (MActivate i # msgs i ?v)"
    using t(2) m(1) by (simp_all add: protocol_ok_def)
  note a = messages_ok_activate[OF c(2)]
  have nq: "i \<notin> set (tqueue w)" using c(1) a(2) by (auto simp: counts_ok_def)
  have "timer_ok i ?w"
    using t(1) a c(1) nq by (auto simp: timer_ok_def protocol_ok_def counts_ok_def)
  moreover have "queue_ok ?w"
    using tq.sorted_ins[OF queue_put[OF world_okD[OF w(1)] nq, of ?t], of i] nq world_okD[OF w(1)]
      fire_key_cong[of ?t' ?t "theap w" i]
    by (simp add: queue_ok_def tq.distinct_ins)
  moreover have "same_others i w ?w" using m(2) by (simp add: same_others_def)
  ultimately have "world_ok ?w" using world_okI[OF w(1)] by blast
  moreover have "queue_alive ((theap w)(i \<mapsto> ?t)) (tqueue w)"
    using world_ok_queue_alive[OF w(1), of "tqueue w"] by (auto simp: queue_alive_def list_all_iff)
  then have "tt_activate conv i ?v = Some ?w"
    by (simp add: tt_activate_def ht f Let_def)
  ultimately show ?thesis by blast
qed

lemma queue_erase_ok:
  assumes "queue_ok w" "theap w i = Some t"
  shows "queue_ok (w\<lparr>theap := (theap w)(i := x), tqueue := queue_erase_key (theap w) i (tqueue w)\<rparr>)"
proof -
  let ?q = "queue_erase_key (theap w) i (tqueue w)"
  have "i \<notin> set ?q" by (simp add: tq.set_era)
  then have "map (fire_key ((theap w)(i := x))) ?q = map (fire_key (theap w)) ?q"
    by (auto simp: fire_key_def)
  then have "sorted (map (fire_key ((theap w)(i := x))) ?q)"
    using assms(1) tq.sorted_era unfolding queue_ok_def by metis
  then show ?thesis
    using assms(1) tq.distinct_era by (simp add: queue_ok_def)
qed

lemma tt_release_ok:
  assumes w: "world_ok w" "inbox w = xs @ MRelease i n # ys" "\<forall>m'\<in>set xs. msg_timer m' \<noteq> i"
  shows "\<exists>w'. tt_release i n (w\<lparr>inbox := xs @ ys\<rparr>) = Some w' \<and> world_ok w'"
proof -
  let ?v = "w\<lparr>inbox := xs @ ys\<rparr>"
  note m = take_message[OF w(2), simplified, OF w(3)]
  then obtain t where ht: "theap w i = Some t" using fresh_timer(2)[OF w(1)] by force
  note t = timer_okD[OF w(1) ht]
  let ?t = "t\<lparr>t_activated := False\<rparr>"
  have c: "counts_ok t (count_list (notifications w) i) (i \<in> set (tqueue w))"
      "messages_ok i t (MRelease i n # msgs i ?v)"
    using t(2) m(1) by (simp_all add: protocol_ok_def)
  note r = messages_ok_release[OF c(2)]
  have le: "t_notificationsReceived t \<le> t_notificationsSent t" using c(1) by (simp add: counts_ok_def)
  let ?q = "if t_activated t then queue_erase_key (theap w) i (tqueue w) else tqueue w"
  let ?u = "?v\<lparr>theap := (theap w)(i \<mapsto> ?t), tqueue := ?q\<rparr>"
  let ?wd = "?u\<lparr>theap := (theap w)(i := None)\<rparr>"
  have nq: "i \<notin> set ?q" using c(1) by (auto simp: tq.set_era counts_ok_def)
  have q: "queue_ok (w\<lparr>theap := (theap w)(i := x), tqueue := ?q\<rparr>)" for x
  proof (cases "t_activated t")
    case True
    then show ?thesis using queue_erase_ok[OF world_okD[OF w(1)] ht, of x] by simp
  next
    case False
    have "map (fire_key ((theap w)(i := x))) (tqueue w) = map (fire_key (theap w)) (tqueue w)"
      using nq False by (auto simp: fire_key_def)
    then have "sorted (map (fire_key ((theap w)(i := x))) (tqueue w))"
      using world_okD[OF w(1)] unfolding queue_ok_def by metis
    then show ?thesis using False world_okD[OF w(1)] by (simp add: queue_ok_def)
  qed
  have q: "queue_ok ?u" "queue_ok ?wd"
    using q[of "Some ?t"] q[of None] by (simp_all add: queue_ok_def)
  have o: "same_others i w ?u" "same_others i w ?wd"
    using m(2) by (auto simp: same_others_def tq.set_era)
  have alive: "queue_alive (theap w) (tqueue w)"
    using world_ok_queue_alive[OF w(1), of "tqueue w"] by simp
  have step: "tt_release i n ?v = (if n \<noteq> t_notificationsSent t then Some ?u else Some ?wd)"
    using ht alive by (simp add: tt_release_def tt_deactivate_def delete_timer_def Let_def fun_upd_idem)
  show ?thesis
  proof (cases "n = t_notificationsSent t")
    case True
    then have "msgs i ?v = []" "count_list (notifications w) i = 0"
      using r(2)[OF True le] c(1) by (auto simp: counts_ok_def)
    then have "timer_ok i ?wd" using nq by (simp add: timer_ok_def count_list_0_iff)
    then have "world_ok ?wd" using world_okI[OF w(1) o(2) _ q(2)] by blast
    then show ?thesis using step True by simp
  next
    case False
    have "counts_ok ?t (count_list (notifications w) i) (i \<in> set ?q)"
      using c(1) nq by (auto simp: counts_ok_def)
    then have "timer_ok i ?u"
      using t(1) r(3)[OF False le] by (simp add: timer_ok_def protocol_ok_def)
    then have "world_ok ?u" using world_okI[OF w(1) o(1) _ q(1)] by blast
    then show ?thesis using step False by simp
  qed
qed

section \<open>A pass over the lapsed timers\<close>

text \<open>
  \<open>conv\<close> turns a longer interval of synchronised time into an interval that is no shorter,
  as \<open>ESTime::cTimeForNTPTime\<close> does.
\<close>

definition expanding :: "(real \<Rightarrow> real) \<Rightarrow> bool" where
  "expanding conv \<longleftrightarrow> (\<forall>x y. x \<le> y \<longrightarrow> y - x \<le> conv y - conv x)"

text \<open>How often the timer can still be met in this pass.\<close>

definition repeat_of :: "timer \<Rightarrow> ESTimeInterval" where
  "repeat_of t = (case t_kind t of IntervalTimer r \<Rightarrow> r | AbsoluteTimer r \<Rightarrow> r | _ \<Rightarrow> 0)"

definition base_time :: "(real \<Rightarrow> real) \<Rightarrow> timer \<Rightarrow> ESTimeInterval" where
  "base_time conv t = (if t_useContinuousTime t then t_atTime t else conv (t_atTime t))"

definition timer_weight :: "(real \<Rightarrow> real) \<Rightarrow> ESTimeInterval \<Rightarrow> timer \<Rightarrow> nat" where
  "timer_weight conv now t =
     (if 0 < repeat_of t \<and> t_fireTime t < now
      then nat \<lceil>(now - base_time conv t) / repeat_of t\<rceil> + 2 else 1)"

definition heap_weight :: "(real \<Rightarrow> real) \<Rightarrow> ESTimeInterval \<Rightarrow> (nat \<rightharpoonup> timer) \<Rightarrow> nat \<Rightarrow> nat" where
  "heap_weight conv now h i = (case h i of Some t \<Rightarrow> timer_weight conv now t | None \<Rightarrow> 0)"

lemma timer_weight_pos: "0 < timer_weight conv now t"
  by (simp add: timer_weight_def)

lemma base_time_add:
  assumes "expanding conv" "0 \<le> r"
  shows "base_time conv t + r \<le> base_time conv (t\<lparr>t_atTime := t_atTime t + r\<rparr>)"
proof -
  have "t_atTime t + r - t_atTime t \<le> conv (t_atTime t + r) - conv (t_atTime t)"
    using assms unfolding expanding_def by (metis le_add_same_cancel1)
  then show ?thesis by (simp add: base_time_def)
qed

lemma possiblyRepeat_cases:
  assumes "kind_ok t"
  shows "possiblyRepeat t = (if repeat_of t \<noteq> 0
    then Some (True, t\<lparr>t_atTime := t_atTime t + repeat_of t\<rparr>) else Some (False, t))"
    and "0 \<le> repeat_of t"
  using assms by (auto simp: kind_ok_def repeat_of_def split: timer_kind.splits)

lemma calculateFireTime_eq: "calculateFireTime conv t = t\<lparr>t_fireTime := base_time conv t\<rparr>"
  by (simp add: calculateFireTime_def base_time_def)

lemma weight_decreases:
  assumes "expanding conv" "t_fireTime t < now" "0 < repeat_of t"
    and t': "t' = calculateFireTime conv (t\<lparr>t_notificationsSent := n, t_atTime := t_atTime t + repeat_of t\<rparr>)"
  shows "timer_weight conv now t' < timer_weight conv now t"
proof -
  let ?r = "repeat_of t"
  have r': "repeat_of t' = ?r" by (simp add: t' calculateFireTime_eq repeat_of_def)
  have f': "t_fireTime t' = base_time conv t'"
    by (simp add: t' calculateFireTime_eq base_time_def)
  have b: "base_time conv t + ?r \<le> base_time conv t'"
    using base_time_add[OF assms(1), of ?r t] assms(3)
    by (cases "t_useContinuousTime t") (simp_all add: t' calculateFireTime_eq base_time_def)
  show ?thesis
  proof (cases "t_fireTime t' < now")
    case False
    then show ?thesis using assms(2,3) by (simp add: timer_weight_def)
  next
    case True
    have "(now - base_time conv t') / ?r \<le> (now - base_time conv t) / ?r - 1"
    proof -
      have "(now - base_time conv t') / ?r \<le> (now - base_time conv t - ?r) / ?r"
        by (rule divide_right_mono) (use b assms(3) in linarith)+
      then show ?thesis using assms(3) by (simp add: diff_divide_distrib)
    qed
    moreover have "0 < (now - base_time conv t') / ?r" using True f' assms(3) by simp
    ultimately have "nat \<lceil>(now - base_time conv t') / ?r\<rceil> < nat \<lceil>(now - base_time conv t) / ?r\<rceil>"
      by linarith
    then show ?thesis using True assms(2,3) r' by (simp add: timer_weight_def)
  qed
qed

text \<open>One firing: the timer \<open>i\<close> becomes \<open>t'\<close> and the queue \<open>q\<close>.\<close>

lemma fired_ok:
  assumes w: "world_ok w" "theap w i = Some t" "i \<in> set (tqueue w)"
    and t': "kind_ok t'" "t_notificationsSent t' = t_notificationsSent t + 1"
      "t_notificationsReceived t' = t_notificationsReceived t"
      "t_notificationThread t' = t_notificationThread t" "t_releasePending t' = t_releasePending t"
      "i \<in> set q \<longrightarrow> t_activated t'"
    and q: "set q \<subseteq> set (tqueue w)" "distinct q" "sorted (map (fire_key ((theap w)(i \<mapsto> t'))) q)"
  shows "world_ok (w\<lparr>theap := (theap w)(i \<mapsto> t'), notifications := notifications w @ [i], tqueue := q\<rparr>)"
    (is "world_ok ?w")
proof -
  have t: "counts_ok t (count_list (notifications w) i) True" "messages_ok i t (msgs i w)"
    using timer_okD[OF w(1,2)] w(3) by (simp_all add: protocol_ok_def)
  then have act: "t_activated t" and thr: "t_notificationThread t \<noteq> None"
    by (auto simp: counts_ok_def)
  obtain acts ns where ms: "msgs i w = acts @ map (MRelease i) ns" "act_ok i t acts" "rel_ok t acts ns"
    using t(2) unfolding messages_ok_def by blast
  have "acts = []" using ms(2) act by (auto simp: act_ok_def)
  moreover have "rel_ok t' [] ns"
    using ms(3) act t'(3,5) by (auto simp: rel_ok_def split: if_splits)
  ultimately have "messages_ok i t' (msgs i ?w)"
    using ms(1) by (auto simp: messages_ok_def act_ok_def)
  moreover have "counts_ok t' (count_list (notifications ?w) i) (i \<in> set q)"
    using t(1) t' thr by (auto simp: counts_ok_def)
  ultimately have "timer_ok i ?w" using t'(1) by (simp add: timer_ok_def protocol_ok_def)
  moreover have "same_others i w ?w" using q(1) by (auto simp: same_others_def)
  moreover have "queue_ok ?w" using q(2,3) by (simp add: queue_ok_def)
  ultimately show ?thesis using world_okI[OF w(1)] by blast
qed

lemma key_upd_other: "i \<notin> set q \<Longrightarrow> map (fire_key (h(i \<mapsto> t))) q = map (fire_key h) q"
  by (auto simp: fire_key_def)

lemma weight_upd_other:
  "i \<notin> set q \<Longrightarrow> map (heap_weight conv now (h(i \<mapsto> t))) q = map (heap_weight conv now h) q"
  by (auto simp: heap_weight_def)

text \<open>The two sides of the queue after a repeating timer has been put back.\<close>

definition put_back :: "(nat \<rightharpoonup> timer) \<Rightarrow> nat \<Rightarrow> nat list \<Rightarrow> nat list \<Rightarrow> nat list \<times> nat list" where
  "put_back h i pre next =
     (if next = [] \<or> ESltTimer h i (hd next) then (queue_insert h i pre, next)
      else (pre, queue_insert h i next))"

lemma put_back_facts:
  assumes "put_back h i pre next = (pre', rest')" "sorted (map (fire_key h) (pre @ next))"
    and "i \<notin> set (pre @ next)" "distinct (pre @ next)"
  shows "set (pre' @ rest') = insert i (set (pre @ next))" "distinct (pre' @ rest')"
    "sorted (map (fire_key h) (pre' @ rest'))"
    "rest' = next \<or> mset rest' = add_mset i (mset next)"
  using assms tq.sorted_ins_left[of h pre "next" i] tq.sorted_ins_right[of h pre "next" i]
  by (auto simp: put_back_def ESltTimer_def tq.distinct_ins mset_queue_insert not_less split: if_splits)

lemma sum_weight_mset: "mset xs = mset ys \<Longrightarrow> sum_list (map f xs) = (sum_list (map f ys) :: nat)"
  by (metis mset_map sum_mset_sum_list)

lemma notifications_heap_comm:
  "w\<lparr>notifications := ns, theap := h\<rparr> = w\<lparr>theap := h, notifications := ns\<rparr>"
  by simp

lemma fire_loop_Cons:
  assumes "world_ok (w\<lparr>tqueue := pre @ i # next\<rparr>)" "theap w i = Some t"
    and now: "t_fireTime t < now"
    and t2: "t2 = t\<lparr>t_notificationsSent := t_notificationsSent t + 1\<rparr>"
  shows "fire_loop conv now pre (i # next) w =
    (if repeat_of t \<noteq> 0
     then let t3 = calculateFireTime conv (t2\<lparr>t_atTime := t_atTime t + repeat_of t\<rparr>);
              w3 = w\<lparr>theap := (theap w)(i \<mapsto> t3), notifications := notifications w @ [i]\<rparr>;
              (pre', rest') = put_back (theap w3) i pre next
          in fire_loop conv now pre' rest' w3
     else fire_loop conv now pre next
            (w\<lparr>theap := (theap w)(i \<mapsto> t2\<lparr>t_activated := False\<rparr>),
               notifications := notifications w @ [i]\<rparr>))"
proof -
  have i: "i \<in> set (tqueue (w\<lparr>tqueue := pre @ i # next\<rparr>))" by simp
  obtain t' where "theap w i = Some t'" "t_notificationThread t' \<noteq> None" "kind_ok t'"
    by (rule world_ok_alive[OF assms(1) i]) simp
  then have t: "t_notificationThread t \<noteq> None" "kind_ok t" using assms(2) by simp_all
  have d: "deliverNotification i w
      = Some (w\<lparr>theap := (theap w)(i \<mapsto> t2), notifications := notifications w @ [i]\<rparr>)"
    using assms(2) t(1) t2 by (simp add: deliverNotification_def)
  have k2: "kind_ok t2" using t(2) t2 by simp
  have r2: "repeat_of t2 = repeat_of t" "t_atTime t2 = t_atTime t" by (simp_all add: t2 repeat_of_def)
  have p: "possiblyRepeat t2 = (if repeat_of t \<noteq> 0
      then Some (True, t2\<lparr>t_atTime := t_atTime t + repeat_of t\<rparr>) else Some (False, t2))"
    using possiblyRepeat_cases(1)[OF k2] r2 by simp
  have alive: "queue_alive ((theap w)(i \<mapsto> x)) (pre @ next)" for x
    using world_ok_queue_alive[OF assms(1), of "pre @ next"]
    by (auto simp: queue_alive_def list_all_iff)
  show ?thesis
    using assms(2) now alive
    by (subst fire_loop.simps) (simp add: d p put_back_def Let_def notifications_heap_comm
      del: possiblyRepeat.simps)
qed

definition lapsed_in :: "(nat \<rightharpoonup> timer) \<Rightarrow> ESTimeInterval \<Rightarrow> nat list \<Rightarrow> nat set" where
  "lapsed_in h now q = {i \<in> set q. fire_key h i < now}"

lemma fire_loop_ok:
  assumes "expanding conv" "world_ok (w\<lparr>tqueue := pre @ rest\<rparr>)"
  shows "\<exists>w' ns. fire_loop conv now pre rest w = Some w' \<and> world_ok w' \<and>
    notifications w' = notifications w @ ns \<and> set ns = lapsed_in (theap w) now rest \<and>
    inbox w' = inbox w \<and> delivered w' = delivered w \<and> set (tqueue w') \<subseteq> set (pre @ rest)"
  using assms(2)
proof (induction "sum_list (map (heap_weight conv now (theap w)) rest)" arbitrary: w pre rest
    rule: less_induct)
  case less
  show ?case
  proof (cases rest)
    case Nil
    then show ?thesis
      using less.prems by (subst fire_loop.simps) (auto simp: lapsed_in_def)
  next
    case (Cons i "next")
    let ?wq = "w\<lparr>tqueue := pre @ i # next\<rparr>"
    have ok: "world_ok ?wq" using less.prems Cons by simp
    have "i \<in> set (tqueue ?wq)" by simp
    then obtain t where t: "theap w i = Some t" "kind_ok t"
      using world_ok_alive[OF ok] by (metis select_convs(1) surjective update_convs(2))
    have sorted: "distinct (pre @ i # next)" "sorted (map (fire_key (theap w)) (pre @ i # next))"
      using world_okD[OF ok] by (simp_all add: queue_ok_def)
    have key: "fire_key (theap w) i = t_fireTime t" using t(1) by (simp add: fire_key_def)
    show ?thesis
    proof (cases "t_fireTime t < now")
      case False
      have "fire_loop conv now pre rest w = Some (w\<lparr>tqueue := pre @ rest\<rparr>)"
        using False t(1) Cons by (subst fire_loop.simps) simp
      moreover have "lapsed_in (theap w) now rest = {}"
        using False sorted(2) key Cons by (fastforce simp: lapsed_in_def sorted_append)
      ultimately show ?thesis using less.prems by auto
    next
      case True
      let ?t2 = "t\<lparr>t_notificationsSent := t_notificationsSent t + 1\<rparr>"
      note step = fire_loop_Cons[OF ok t(1) True refl]
      define again where "again = (repeat_of t \<noteq> 0)"
      define t3 where "t3 = (if again
        then calculateFireTime conv (?t2\<lparr>t_atTime := t_atTime t + repeat_of t\<rparr>)
        else ?t2\<lparr>t_activated := False\<rparr>)"
      let ?h = "(theap w)(i \<mapsto> t3)"
      let ?v = "w\<lparr>theap := ?h, notifications := notifications w @ [i]\<rparr>"
      obtain pre' rest' where pr: "(pre', rest') = (if again then put_back ?h i pre next else (pre, next))"
        by (metis surj_pair)
      have st: "fire_loop conv now pre rest w = fire_loop conv now pre' rest' ?v"
        using step pr Cons by (cases again) (auto simp: again_def t3_def Let_def split: prod.splits)
      have srt: "sorted (map (fire_key ?h) (pre @ next))"
        using sorted by (subst key_upd_other) (auto simp: sorted_append)
      have q: "set (pre' @ rest') \<subseteq> set (pre @ i # next)" "distinct (pre' @ rest')"
          "sorted (map (fire_key ?h) (pre' @ rest'))"
          "rest' = next \<or> again \<and> mset rest' = add_mset i (mset next)"
          "i \<in> set (pre' @ rest') \<longrightarrow> again"
        using put_back_facts[of ?h i pre "next" pre' rest'] srt sorted(1) pr
        by (auto split: if_splits)
      have t3: "kind_ok t3" "t_notificationsSent t3 = t_notificationsSent t + 1"
          "t_notificationsReceived t3 = t_notificationsReceived t"
          "t_notificationThread t3 = t_notificationThread t" "t_releasePending t3 = t_releasePending t"
          "again \<longrightarrow> t_activated t3 = t_activated t"
        using t(2) by (simp_all add: t3_def calculateFireTime_eq)
      have "t_activated t"
        using timer_okD(2)[OF ok, of i t] t(1) by (simp add: protocol_ok_def counts_ok_def)
      then have v: "world_ok (?v\<lparr>tqueue := pre' @ rest'\<rparr>)"
        using fired_ok[where q = "pre' @ rest'", OF ok _ _ t3(1-5)] t(1) t3(6) q by auto
      have less: "sum_list (map (heap_weight conv now ?h) rest')
          < sum_list (map (heap_weight conv now (theap w)) rest)"
      proof -
        have nx: "map (heap_weight conv now ?h) next = map (heap_weight conv now (theap w)) next"
          using sorted(1) by (intro weight_upd_other) simp
        have old: "heap_weight conv now (theap w) i = timer_weight conv now t"
          using t(1) by (simp add: heap_weight_def)
        show ?thesis
        proof (cases "rest' = next")
          case True
          then have "sum_list (map (heap_weight conv now ?h) rest')
              = sum_list (map (heap_weight conv now (theap w)) next)"
            using nx by (simp only:)
          then show ?thesis using old timer_weight_pos Cons by simp
        next
          case False
          then have r: "again" "mset rest' = mset (i # next)" using q(4) by auto
          have "timer_weight conv now t3 < timer_weight conv now t"
            using weight_decreases[OF assms(1) True] possiblyRepeat_cases(2)[OF t(2)] r(1)
            by (simp add: t3_def again_def)
          moreover have "sum_list (map (heap_weight conv now ?h) rest')
              = sum_list (map (heap_weight conv now ?h) (i # next))"
            using r(2) by (rule sum_weight_mset)
          moreover have "sum_list (map (heap_weight conv now ?h) (i # next))
              = timer_weight conv now t3 + sum_list (map (heap_weight conv now (theap w)) next)"
            unfolding list.map nx by (simp add: heap_weight_def)
          ultimately show ?thesis using old Cons by simp
        qed
      qed
      obtain w' ns where IH: "fire_loop conv now pre' rest' ?v = Some w'" "world_ok w'"
          "notifications w' = notifications ?v @ ns" "set ns = lapsed_in ?h now rest'"
          "inbox w' = inbox w" "delivered w' = delivered w" "set (tqueue w') \<subseteq> set (pre' @ rest')"
        using less.hyps[OF _ v] less by auto
      have "insert i (lapsed_in ?h now rest') = lapsed_in (theap w) now rest"
      proof -
        have "j \<noteq> i \<Longrightarrow> fire_key ?h j = fire_key (theap w) j" for j by (simp add: fire_key_def)
        moreover have "set rest' \<subseteq> insert i (set next)" "set next \<subseteq> set rest'"
          using q(4) by (auto dest: mset_eq_setD arg_cong[of _ _ set_mset])
        ultimately show ?thesis
          using True key Cons by (auto simp: lapsed_in_def) (metis fire_key_def)+
      qed
      then have "set (i # ns) = lapsed_in (theap w) now rest" using IH(4) by simp
      moreover have "notifications w' = notifications w @ (i # ns)" using IH(3) by simp
      moreover have "fire_loop conv now pre rest w = Some w'" using st IH(1) by simp
      moreover have "set (tqueue w') \<subseteq> set (pre @ rest)"
        using IH(7) q(1) unfolding Cons by (rule order_trans)
      ultimately show ?thesis using IH(2,5,6) by blast
    qed
  qed
qed

lemma fire_ok:
  assumes "expanding conv" "world_ok w"
  shows "\<exists>w' ns. fireLapsedTimers conv now w = Some w' \<and> world_ok w' \<and>
    notifications w' = notifications w @ ns \<and> set ns = lapsed_in (theap w) now (tqueue w) \<and>
    inbox w' = inbox w \<and> delivered w' = delivered w \<and> set (tqueue w') \<subseteq> set (tqueue w)"
proof -
  have "world_ok (w\<lparr>tqueue := [] @ tqueue w\<rparr>)" using assms(2) by simp
  from fire_loop_ok[OF assms(1) this] show ?thesis by (simp add: fireLapsedTimers_def)
qed

section \<open>Recalculating the fire times\<close>

lemma recalculate_loop_ok:
  assumes "distinct (q @ newq)" "\<forall>i\<in>set (q @ newq). h i \<noteq> None" "sorted (map (fire_key h) newq)"
  shows "\<exists>newq' h'. recalculate_loop conv q newIter newq h = Some (newq', h') \<and>
    set newq' = set (q @ newq) \<and> distinct newq' \<and> sorted (map (fire_key h') newq') \<and>
    (\<forall>i. i \<notin> set q \<longrightarrow> h' i = h i) \<and>
    (\<forall>i\<in>set q. h' i = map_option (calculateFireTime conv) (h i))"
  using assms
proof (induction q arbitrary: newIter newq h)
  case (Cons i q)
  obtain t where t: "h i = Some t" using Cons.prems(2) by auto
  let ?h = "h(i \<mapsto> calculateFireTime conv t)"
  have "sorted (map (fire_key ?h) newq)"
    using Cons.prems(1,3) by (subst key_upd_other) auto
  then have s: "sorted (map (fire_key ?h) (queue_insert_near ?h newIter i newq))" by (rule tqn.sorted_ins)
  have d: "distinct (q @ queue_insert_near ?h newIter i newq)"
    using Cons.prems(1) by (auto simp: tqn.distinct_ins)
  have a: "\<forall>j\<in>set (q @ queue_insert_near ?h newIter i newq). ?h j \<noteq> None"
    using Cons.prems(2) by auto
  obtain newq' h' where r: "recalculate_loop conv q (Some i) (queue_insert_near ?h newIter i newq) ?h = Some (newq', h')"
      "set newq' = set (q @ queue_insert_near ?h newIter i newq)" "distinct newq'" "sorted (map (fire_key h') newq')"
      "\<forall>j. j \<notin> set q \<longrightarrow> h' j = ?h j" "\<forall>j\<in>set q. h' j = map_option (calculateFireTime conv) (?h j)"
    using Cons.IH[OF d a s] by blast
  have "queue_alive ?h newq" using Cons.prems(2) by (auto simp: queue_alive_def list_all_iff)
  then have "recalculate_loop conv (i # q) newIter newq h = Some (newq', h')"
    using t r(1) by (simp add: Let_def)
  moreover have "h' i = ?h i" using r(5) Cons.prems(1) by simp
  moreover have "?h j = h j" if "j \<in> set q" for j using that Cons.prems(1) by auto
  ultimately show ?case using r(2-6) t by (intro exI[of _ newq'] exI[of _ h']) auto
qed auto

lemma calculate_protocol:
  "protocol_ok i (t\<lparr>t_fireTime := f\<rparr>) ms p inq = protocol_ok i t ms p inq"
  by (simp add: protocol_ok_def counts_ok_def messages_ok_def act_ok_def rel_ok_def)

lemma recalculate_world:
  assumes "world_ok w"
  shows "\<exists>q h. recalculate_loop conv (tqueue w) None [] (theap w) = Some (q, h) \<and>
    world_ok (w\<lparr>tqueue := q, theap := h\<rparr>) \<and> set q = set (tqueue w) \<and>
    (\<forall>i\<in>set q. h i = map_option (calculateFireTime conv) (theap w i))"
proof -
  have "distinct (tqueue w @ [])" "\<forall>i\<in>set (tqueue w @ []). theap w i \<noteq> None"
    using world_okD[OF assms] world_ok_queue_alive[OF assms, of "tqueue w"]
    by (simp_all add: queue_ok_def queue_alive_def list_all_iff)
  then obtain q h where r: "recalculate_loop conv (tqueue w) None [] (theap w) = Some (q, h)"
      "set q = set (tqueue w)" "distinct q" "sorted (map (fire_key h) q)"
      "\<forall>i. i \<notin> set (tqueue w) \<longrightarrow> h i = theap w i"
      "\<forall>i\<in>set (tqueue w). h i = map_option (calculateFireTime conv) (theap w i)"
    using recalculate_loop_ok[of "tqueue w" "[]" "theap w" conv None] by auto
  have "timer_ok i (w\<lparr>tqueue := q, theap := h\<rparr>)" for i
  proof -
    have ok: "timer_ok i w" using assms by (simp add: world_ok_def)
    show ?thesis
    proof (cases "i \<in> set (tqueue w)")
      case False
      then show ?thesis using ok r(2,5) by (simp add: timer_ok_def split: option.splits)
    next
      case True
      then obtain t where "theap w i = Some t" "h i = Some (calculateFireTime conv t)"
        using r(6) world_ok_alive[OF assms] by (metis option.map(2))
      then show ?thesis
        using ok r(2) True by (simp add: timer_ok_def calculate_protocol calculateFireTime_eq)
    qed
  qed
  then have "world_ok (w\<lparr>tqueue := q, theap := h\<rparr>)" using r(3,4) by (simp add: world_ok_def queue_ok_def)
  then show ?thesis using r(1,2,6) by blast
qed

lemma recalculate_ok:
  assumes "expanding conv" "world_ok w"
  shows "\<exists>w'. recalculateAllFireTimes conv now w = Some w' \<and> world_ok w'"
proof -
  obtain q h where "recalculate_loop conv (tqueue w) None [] (theap w) = Some (q, h)"
      "world_ok (w\<lparr>tqueue := q, theap := h\<rparr>)"
    using recalculate_world[OF assms(2)] by blast
  then show ?thesis
    using fire_ok[OF assms(1)] by (fastforce simp: recalculateAllFireTimes_def)
qed

section \<open>The steps of the threads\<close>

inductive timer_step :: "timer_world \<Rightarrow> timer_world \<Rightarrow> bool" where
  create: "theap w i = None \<Longrightarrow> not_started t \<Longrightarrow> kind_ok t \<Longrightarrow>
    timer_step w (put_timer i t w)"
| activates: "theap w i = Some t \<Longrightarrow> \<not> t_releasePending t \<Longrightarrow> t_notificationThread t = None \<Longrightarrow>
    activate th i w = Some w' \<Longrightarrow> timer_step w w'"
| releases: "theap w i = Some t \<Longrightarrow> \<not> t_releasePending t \<Longrightarrow>
    t_notificationThread t = None \<or> t_notificationThread t = Some th \<Longrightarrow>
    release th i w = Some w' \<Longrightarrow> timer_step w w'"
| receives: "notifications w = xs @ i # ys \<Longrightarrow>
    receiveNotificationMessage i (w\<lparr>notifications := xs @ ys\<rparr>) = Some w' \<Longrightarrow> timer_step w w'"
| handles: "inbox w = xs @ m # ys \<Longrightarrow> \<forall>m'\<in>set xs. msg_timer m' \<noteq> msg_timer m \<Longrightarrow>
    handle_message conv m (w\<lparr>inbox := xs @ ys\<rparr>) = Some w' \<Longrightarrow> timer_step w w'"
| fires: "expanding conv \<Longrightarrow> fireLapsedTimers conv now w = Some w' \<Longrightarrow> timer_step w w'"
| recalculates: "expanding conv \<Longrightarrow> recalculateAllFireTimes conv now w = Some w' \<Longrightarrow> timer_step w w'"

inductive timer_reachable :: "timer_world \<Rightarrow> bool" where
  start: "timer_reachable \<lparr>theap = Map.empty, tqueue = [], inbox = [], notifications = [], delivered = []\<rparr>"
| step: "timer_reachable w \<Longrightarrow> timer_step w w' \<Longrightarrow> timer_reachable w'"

lemma handle_ok:
  assumes "world_ok w" "inbox w = xs @ m # ys" "\<forall>m'\<in>set xs. msg_timer m' \<noteq> msg_timer m"
  shows "\<exists>w'. handle_message conv m (w\<lparr>inbox := xs @ ys\<rparr>) = Some w' \<and> world_ok w'"
  using tt_activate_ok[OF assms(1)] tt_release_ok[OF assms(1)] assms(2,3)
  by (cases m) auto

lemma timer_step_ok: "timer_step w w' \<Longrightarrow> world_ok w \<Longrightarrow> world_ok w'"
proof (induction rule: timer_step.induct)
  case (create w i t)
  then show ?case by (intro create_ok)
next
  case (activates w i t th w')
  then show ?case using activate_ok[of w i t th] by auto
next
  case (releases w i t th w')
  then show ?case using release_ok[of w i t th] by auto
next
  case (receives w xs i ys w')
  then show ?case using receive_ok[of w xs i ys] by auto
next
  case (handles w xs m ys conv w')
  then show ?case using handle_ok[of w xs m ys conv] by auto
next
  case (fires conv now w w')
  then show ?case using fire_ok[of conv w now] by auto
next
  case (recalculates conv now w w')
  then show ?case using recalculate_ok[of conv w now] by auto
qed

lemma timer_reachable_ok: "timer_reachable w \<Longrightarrow> world_ok w"
proof (induction rule: timer_reachable.induct)
  case start
  show ?case by (simp add: world_ok_def queue_ok_def timer_ok_def msgs_def)
next
  case (step w w')
  then show ?case by (blast intro: timer_step_ok)
qed

section \<open>What this means for the program\<close>

text \<open>C8: In every interleaving of the timer thread and the notification threads, handling a notification, handling a message to the timer thread and recalculating the fire times succeed: no freed timer is read and no assertion fails, also when a release crosses a notification.\<close>

theorem timers_never_touch_freed_memory:
  assumes "timer_reachable w" "expanding conv"
  shows "(\<forall>xs i ys. notifications w = xs @ i # ys \<longrightarrow>
      receiveNotificationMessage i (w\<lparr>notifications := xs @ ys\<rparr>) \<noteq> None) \<and>
    (\<forall>xs m ys. inbox w = xs @ m # ys \<and> (\<forall>m'\<in>set xs. msg_timer m' \<noteq> msg_timer m) \<longrightarrow>
      handle_message conv m (w\<lparr>inbox := xs @ ys\<rparr>) \<noteq> None) \<and>
    recalculateAllFireTimes conv now w \<noteq> None"
proof -
  have w: "world_ok w" using assms(1) by (rule timer_reachable_ok)
  obtain w' where "recalculateAllFireTimes conv now w = Some w'"
    using recalculate_ok[OF assms(2) w] by blast
  moreover have "receiveNotificationMessage i (w\<lparr>notifications := xs @ ys\<rparr>) \<noteq> None"
    if "notifications w = xs @ i # ys" for xs i ys
    using receive_ok[OF w that] by auto
  moreover have "handle_message conv m (w\<lparr>inbox := xs @ ys\<rparr>) \<noteq> None"
    if "inbox w = xs @ m # ys" "\<forall>m'\<in>set xs. msg_timer m' \<noteq> msg_timer m" for xs m ys
    using handle_ok[OF w that, of conv] by auto
  ultimately show ?thesis by blast
qed

text \<open>C10: Once a timer is deleted, it is not in the queue and no message about it is on its way to any thread.\<close>

theorem freed_timer_is_unreachable:
  assumes "timer_reachable w" "theap w i = None"
  shows "i \<notin> set (tqueue w) \<and> (\<forall>m\<in>set (inbox w). msg_timer m \<noteq> i) \<and> i \<notin> set (notifications w)"
  using fresh_timer[OF timer_reachable_ok[OF assms(1)] assms(2)]
  by (auto simp: msgs_def filter_empty_conv)

text \<open>C9: As long as a released timer has not been deleted, a release request for it or a notification that will send another one is on its way, so the release protocol cannot leak the timer.\<close>

theorem released_timer_is_not_forgotten:
  assumes "timer_reachable w" "theap w i = Some t" "t_releasePending t"
  shows "(\<exists>n. MRelease i n \<in> set (inbox w)) \<or> i \<in> set (notifications w)"
proof -
  have "messages_ok i t (msgs i w)" and c: "counts_ok t (count_list (notifications w) i) (i \<in> set (tqueue w))"
    using timer_okD(2)[OF timer_reachable_ok[OF assms(1)] assms(2)] by (simp_all add: protocol_ok_def)
  then obtain acts ns where ms: "msgs i w = acts @ map (MRelease i) ns" "rel_ok t acts ns"
    unfolding messages_ok_def by blast
  show ?thesis
  proof (cases ns)
    case Nil
    then have "count_list (notifications w) i \<noteq> 0"
      using ms(2) assms(3) c by (auto simp: rel_ok_def counts_ok_def)
    then show ?thesis by (auto simp: count_list_0_iff)
  next
    case (Cons n ns')
    then have "MRelease i n \<in> set (msgs i w)" using ms(1) by simp
    then show ?thesis by (auto simp: msgs_def)
  qed
qed

text \<open>C11: A pass of the timer thread ends, although repeating timers are put back into the queue it walks; it notifies exactly the timers that had lapsed when it began and leaves the queue sorted.\<close>

theorem fire_pass_ends_and_notifies_the_lapsed:
  assumes "timer_reachable w" "expanding conv"
  shows "\<exists>w' ns. fireLapsedTimers conv now w = Some w' \<and>
    notifications w' = notifications w @ ns \<and>
    set ns = {i \<in> set (tqueue w). fire_key (theap w) i < now} \<and>
    sorted (map (fire_key (theap w')) (tqueue w')) \<and> set (tqueue w') \<subseteq> set (tqueue w)"
proof -
  obtain w' ns where "fireLapsedTimers conv now w = Some w'" "world_ok w'"
      "notifications w' = notifications w @ ns" "set ns = lapsed_in (theap w) now (tqueue w)"
      "set (tqueue w') \<subseteq> set (tqueue w)"
    using fire_ok[OF assms(2) timer_reachable_ok[OF assms(1)]] by blast
  then show ?thesis
    using world_okD[of w'] by (auto simp: lapsed_in_def queue_ok_def)
qed

text \<open>
  \<open>deactivate\<close> erases by key. A release of timer \<open>i\<close> also takes every other timer with the
  same fire time out of the queue, and leaves it marked as activated: it never fires again.
\<close>

text \<open>C12: Deactivating a timer erases by key, so releasing an activated timer also removes every other timer with the same fire time from the queue; that timer stays marked as activated and is never notified.\<close>

theorem release_drops_timers_with_equal_fire_time:
  assumes "timer_reachable w" "inbox w = MRelease i n # ys" "theap w i = Some t" "t_activated t"
    and "j \<noteq> i" "j \<in> set (tqueue w)" "fire_key (theap w) j = fire_key (theap w) i" "expanding conv"
  shows "\<exists>w' t' w'' ns. handle_message conv (MRelease i n) (w\<lparr>inbox := ys\<rparr>) = Some w' \<and>
    theap w' j = Some t' \<and> t_activated t' \<and> j \<notin> set (tqueue w') \<and>
    fireLapsedTimers conv now w' = Some w'' \<and> notifications w'' = notifications w' @ ns \<and> j \<notin> set ns"
proof -
  have w: "world_ok w" using assms(1) by (rule timer_reachable_ok)
  have "inbox w = [] @ MRelease i n # ys" using assms(2) by simp
  from tt_release_ok[OF w this] obtain w' where w':
      "tt_release i n (w\<lparr>inbox := ys\<rparr>) = Some w'" "world_ok w'" by auto
  have alive: "queue_alive (theap w) (tqueue w)"
    using world_ok_queue_alive[OF w, of "tqueue w"] by simp
  have "tqueue w' = queue_erase_key (theap w) i (tqueue w)" "theap w' j = theap w j"
    using w'(1) assms(3-5) alive
    by (auto simp: tt_release_def tt_deactivate_def delete_timer_def Let_def split: if_splits)
  moreover obtain t' where "theap w j = Some t'" "t_activated t'"
    using world_ok_alive[OF w assms(6)] by blast
  moreover obtain w'' ns where "fireLapsedTimers conv now w' = Some w''"
      "notifications w'' = notifications w' @ ns" "set ns = lapsed_in (theap w') now (tqueue w')"
    using fire_ok[OF assms(8) w'(2)] by blast
  ultimately show ?thesis
    using w'(1) assms(7) by (auto simp: tq.set_era lapsed_in_def)
qed

section \<open>A run\<close>

text \<open>Two continuous timers for the same instant; the first is released before it fires.\<close>

definition two_timers :: "bool \<Rightarrow> timer_msg list \<Rightarrow> timer_world" where
  "two_timers pending inb =
     \<lparr>theap = [0 \<mapsto> (new_continuous_timer 7 100)\<lparr>t_notificationThread := Some 5,
                  t_releasePending := pending, t_activated := True, t_fireTime := 100\<rparr>,
               1 \<mapsto> (new_continuous_timer 8 100)\<lparr>t_notificationThread := Some 5,
                  t_activated := True, t_fireTime := 100\<rparr>],
      tqueue = [0, 1], inbox = inb, notifications = [], delivered = []\<rparr>"

lemma expanding_id [simp]: "expanding (\<lambda>t. t)"
  by (simp add: expanding_def)

lemma one_continuous_timer:
  assumes r: "timer_reachable w" and n: "theap w i = None"
  shows "timer_reachable (w\<lparr>theap := (theap w)(i \<mapsto>
      (new_continuous_timer ob tm)\<lparr>t_notificationThread := Some th\<rparr>), inbox := inbox w @ [MActivate i]\<rparr>)"
proof -
  let ?t = "new_continuous_timer ob tm"
  have "timer_reachable (put_timer i ?t w)"
    by (rule timer_reachable.step[OF r timer_step.create[OF n]])
      (simp_all add: new_continuous_timer_def new_timer_def not_started_def kind_ok_def)
  moreover have "timer_step (put_timer i ?t w) (w\<lparr>theap := (theap w)(i \<mapsto>
      ?t\<lparr>t_notificationThread := Some th\<rparr>), inbox := inbox w @ [MActivate i]\<rparr>)"
    by (rule timer_step.activates[where i = i and t = ?t and th = th])
      (simp_all add: new_continuous_timer_def new_timer_def activate_def)
  ultimately show ?thesis by (rule timer_reachable.step)
qed

lemma two_timers_reachable: "timer_reachable (two_timers False [])"
proof -
  let ?t = "\<lambda>ob. (new_continuous_timer ob 100)\<lparr>t_notificationThread := Some 5\<rparr>"
  let ?a = "\<lparr>theap = [0 \<mapsto> ?t 7, 1 \<mapsto> ?t 8], tqueue = [],
      inbox = [MActivate 0, MActivate 1], notifications = [], delivered = []\<rparr>"
  let ?f = "\<lambda>ob. (?t ob)\<lparr>t_activated := True, t_fireTime := 100\<rparr>"
  have "timer_reachable ?a"
    using one_continuous_timer[where i = 1 and ob = 8 and tm = 100 and th = 5,
        OF one_continuous_timer[where i = 0 and ob = 7 and tm = 100 and th = 5,
          OF timer_reachable.start]]
    by simp
  moreover have "timer_step ?a (?a\<lparr>theap := [0 \<mapsto> ?f 7, 1 \<mapsto> ?t 8], tqueue := [0], inbox := [MActivate 1]\<rparr>)"
    by (rule timer_step.handles[where xs = "[]" and m = "MActivate 0" and ys = "[MActivate 1]"
          and conv = "\<lambda>t. t"])
      (simp_all add: tt_activate_def calculateFireTime_def new_continuous_timer_def new_timer_def
        queue_alive_def fun_upd_twist)
  moreover have "timer_step (?a\<lparr>theap := [0 \<mapsto> ?f 7, 1 \<mapsto> ?t 8], tqueue := [0], inbox := [MActivate 1]\<rparr>)
      (two_timers False [])"
    by (rule timer_step.handles[where xs = "[]" and m = "MActivate 1" and ys = "[]" and conv = "\<lambda>t. t"])
      (simp_all add: tt_activate_def calculateFireTime_def new_continuous_timer_def new_timer_def
        queue_alive_def two_timers_def ESltTimer_def fire_key_def)
  ultimately show ?thesis by (metis timer_reachable.step)
qed

lemma two_timers_released: "timer_reachable (two_timers True [MRelease 0 0])"
proof -
  have "timer_step (two_timers False []) (two_timers True [MRelease 0 0])"
    by (rule timer_step.releases[where i = 0 and th = 5 and t = "the (theap (two_timers False []) 0)"])
      (simp_all add: two_timers_def release_def new_continuous_timer_def new_timer_def fun_upd_twist)
  then show ?thesis using two_timers_reachable by (metis timer_reachable.step)
qed

theorem timers_never_touch_freed_memory_witness:
  "recalculateAllFireTimes (\<lambda>t. t) 200 (two_timers True [MRelease 0 0]) \<noteq> None"
  using timers_never_touch_freed_memory[OF two_timers_released expanding_id] by blast

theorem freed_timer_is_unreachable_witness:
  "2 \<notin> set (tqueue (two_timers True [MRelease 0 0])) \<and>
   2 \<notin> set (notifications (two_timers True [MRelease 0 0]))"
proof -
  have "theap (two_timers True [MRelease 0 0]) 2 = None" by (simp add: two_timers_def)
  from freed_timer_is_unreachable[OF two_timers_released this] show ?thesis by simp
qed

theorem released_timer_is_not_forgotten_witness:
  "(\<exists>n. MRelease 0 n \<in> set (inbox (two_timers True [MRelease 0 0]))) \<or>
   0 \<in> set (notifications (two_timers True [MRelease 0 0]))"
  by (rule released_timer_is_not_forgotten[where
        t = "the (theap (two_timers True [MRelease 0 0]) 0)", OF two_timers_released])
    (simp_all add: two_timers_def)

theorem fire_pass_ends_and_notifies_the_lapsed_witness:
  "\<exists>w' ns. fireLapsedTimers (\<lambda>t. t) 150 (two_timers False []) = Some w' \<and>
    notifications w' = notifications (two_timers False []) @ ns \<and>
    set ns = {i \<in> set (tqueue (two_timers False [])).
                fire_key (theap (two_timers False [])) i < 150} \<and>
    sorted (map (fire_key (theap w')) (tqueue w')) \<and>
    set (tqueue w') \<subseteq> set (tqueue (two_timers False []))"
  by (rule fire_pass_ends_and_notifies_the_lapsed[OF two_timers_reachable expanding_id])

theorem release_drops_timers_with_equal_fire_time_witness:
  "\<exists>w' t' w'' ns. handle_message (\<lambda>t. t) (MRelease 0 0)
      ((two_timers True [MRelease 0 0])\<lparr>inbox := []\<rparr>) = Some w' \<and>
    theap w' 1 = Some t' \<and> t_activated t' \<and> 1 \<notin> set (tqueue w') \<and>
    fireLapsedTimers (\<lambda>t. t) 200 w' = Some w'' \<and> notifications w'' = notifications w' @ ns \<and>
    1 \<notin> set ns"
  by (rule release_drops_timers_with_equal_fire_time[where
        t = "the (theap (two_timers True [MRelease 0 0]) 0)", OF two_timers_released])
    (simp_all add: two_timers_def fire_key_def)

end
