(* ===== verification/EsTimerTime.thy ===== *)
theory EsTimerTime
  imports EsTimeLaws EsTimerProtocol
begin

text \<open>
  The timers of \<open>EsTimer\<close> on the time service of \<open>EsTime\<close>: the observer by which the timer
  thread hears of changes (\<open>ESTimerThreadTimeObserver\<close> in src/ESTimer.cpp), and what the
  conversion of the time service means for timers at a synchronised time.
\<close>

section \<open>The timer thread's observer\<close>

text \<open>\<open>ES_SELECT_USES_CONTINUOUS_TIME\<close> is 1, so a new synchronisation is ignored.\<close>

fun timer_thread_observes ::
  "(ESTimeInterval \<Rightarrow> ESTimeInterval) \<Rightarrow> ESTimeInterval \<Rightarrow> notification \<Rightarrow> timer_world \<Rightarrow>
     timer_world option" where
  "timer_thread_observes conv now SyncValueChanged w = Some w"
| "timer_thread_observes conv now SyncStatusChanged w = Some w"
| "timer_thread_observes conv now ContinuousTimeWasReset w = recalculateAllFireTimes conv now w"
| "timer_thread_observes conv now (WorkingSyncValueChanged v a) w = Some w"

section \<open>The conversion of the time service\<close>

definition es_conv :: "estime \<Rightarrow> ESTimeInterval \<Rightarrow> ESTimeInterval" where
  "es_conv s t = the (cTimeForNTPTime t s)"

lemma es_conv_expanding:
  assumes "es_inv s"
  shows "expanding (es_conv s)"
proof -
  obtain d where d: "best_driver s = Some d" using assms by (rule best_driver_inv)
  have "leap_armed s" using assms by (rule es_invE)
  then have "0 \<le> nextLeapSecondDelta s" by (cases rule: leap_armed_cases) simp_all
  then show ?thesis using d by (auto simp: expanding_def es_conv_def cTimeForNTPTime_def)
qed

text \<open>A pass over the timers ends whatever the state of the time service is.\<close>

theorem timer_pass_with_time_service:
  assumes "es_inv s" "timer_reachable w"
  shows "\<exists>w' ns. fireLapsedTimers (es_conv s) now w = Some w' \<and>
    notifications w' = notifications w @ ns \<and>
    set ns = {i \<in> set (tqueue w). fire_key (theap w) i < now}"
  using fire_ok[OF es_conv_expanding[OF assms(1)] timer_reachable_ok[OF assms(2)], of now]
  by (auto simp: lapsed_in_def)

theorem timer_pass_with_time_service_witness:
  "\<exists>w' ns. fireLapsedTimers (es_conv armed_estime) 150 (two_timers False []) = Some w' \<and>
    notifications w' = notifications (two_timers False []) @ ns \<and>
    set ns = {i \<in> set (tqueue (two_timers False [])). fire_key (theap (two_timers False [])) i < 150}"
  by (rule timer_pass_with_time_service[OF armed_inv two_timers_reachable])

text \<open>
  A timer at a synchronised time is queued under the continuous time its instant had when it
  was activated. When a synchronisation moves the skew, that instant has another continuous
  time, but the timer thread does not recalculate: the timer fires when the synchronised time
  is off its instant by just the change of the skew.
\<close>

definition no_leap_near :: "estime \<Rightarrow> ESTimeInterval \<Rightarrow> bool" where
  "no_leap_near s t \<longleftrightarrow> t < nextLeapSecondDate s"

theorem absolute_timer_ignores_synchronisation:
  assumes "theap w i = Some t" "\<not> t_useContinuousTime t"
    and "t_fireTime t = t_fireTime (calculateFireTime (es_conv s) t)"
    and "best_driver s = Some d" "best_driver s' = Some d'"
    and "no_leap_near s (t_atTime t)"
    and "no_leap_near s' (t_atTime t)" "no_leap_near s' (t_fireTime t + drv_contSkew d')"
  shows "timer_thread_observes (es_conv s') now SyncValueChanged w = Some w \<and>
    ntpTimeForCTime (t_fireTime t) s' = Some (t_atTime t + (drv_contSkew d' - drv_contSkew d)) \<and>
    ntpTimeForCTime (t_fireTime (calculateFireTime (es_conv s') t)) s' = Some (t_atTime t)"
  using assms
  by (auto simp: calculateFireTime_def es_conv_def cTimeForNTPTime_def ntpTimeForCTime_def
      adjustForLeapSecond_def no_leap_near_def)

definition late_estime :: "real \<Rightarrow> estime" where
  "late_estime skew = sample_estime\<lparr>es_drivers := Some [(sample_driver NTPDriver)\<lparr>drv_contSkew := skew\<rparr>]\<rparr>"

definition absolute_world :: timer_world where
  "absolute_world = \<lparr>theap = [0 \<mapsto> (new_absolute_timer 7 600000000 0)
       \<lparr>t_fireTime := 600000000, t_activated := True, t_notificationThread := Some 5\<rparr>],
     tqueue = [0], inbox = [], notifications = [], delivered = []\<rparr>"

theorem absolute_timer_ignores_synchronisation_witness:
  "timer_thread_observes (es_conv (late_estime 60)) 500 SyncValueChanged absolute_world
     = Some absolute_world \<and>
   ntpTimeForCTime 600000000 (late_estime 60) = Some (600000000 + (60 - 0)) \<and>
   ntpTimeForCTime (t_fireTime (calculateFireTime (es_conv (late_estime 60))
     (the (theap absolute_world 0)))) (late_estime 60) = Some 600000000"
  using absolute_timer_ignores_synchronisation
    [of absolute_world 0 "the (theap absolute_world 0)" "late_estime 0" "sample_driver NTPDriver"
      "late_estime 60" "(sample_driver NTPDriver)\<lparr>drv_contSkew := 60\<rparr>" 500]
  by (simp add: absolute_world_def late_estime_def sample_estime_def sample_driver_def best_driver_def
      new_absolute_timer_def new_timer_def calculateFireTime_def es_conv_def cTimeForNTPTime_def
      no_leap_near_def estime_start_def ESFarFarInTheFuture_def)

end
