(* ===== verification/EsCalendar.thy ===== *)
theory EsCalendar
  imports EsTypes
begin

text \<open>
  The UTC half of the calendar, src/ESCalendar.cpp with the constants of
  src/ESCalendarPvt.hpp: dates of the hybrid calendar, which is Julian before 15 October 1582
  and Gregorian from then on, and the translations of its dates to and from the Gregorian
  calendar extended backwards.

  The doubles that hold whole numbers are integers here, the others exact reals: the time of day is
  split from the rest of the day without error, where the code may be off by some microseconds and
  then reads a whole minute as the minute before with 59.99999 seconds. Years stay below 1.4
  million, above which \<open>1461 * signedYear\<close> overflows an \<open>int\<close>. Era 0 counts the years before the
  common era.
\<close>

section \<open>Constants and date components\<close>

definition kECJulianDayOf1990Epoch :: real where
  "kECJulianDayOf1990Epoch = 2447891.5"

definition kEC1990Epoch :: real where
  "kEC1990Epoch = - 347241600"

definition kECAverageDaysInGregorianYear :: real where
  "kECAverageDaysInGregorianYear = 365.2425"

definition kECDaysInGregorianCycle :: real where
  "kECDaysInGregorianCycle = kECAverageDaysInGregorianYear * 400"

definition kECDaysInJulianCycle :: real where
  "kECDaysInJulianCycle = 365.25 * 4"

definition kECDaysInNonLeapCentury :: real where
  "kECDaysInNonLeapCentury = 36525"

definition kECJulianGregorianSwitchoverTimeInterval :: real where
  "kECJulianGregorianSwitchoverTimeInterval = - 13197600000"

record ESDateComponents =
  dc_era :: int
  dc_year :: int
  dc_month :: int
  dc_day :: int
  dc_hour :: int
  dc_minute :: int
  dc_seconds :: real

section \<open>From a time to its date\<close>

text \<open>Year, month and day of a day of the year that begins on 1 March.\<close>

definition date_in_year :: "int \<Rightarrow> int \<Rightarrow> int \<times> int \<times> int \<times> int" where
  "date_in_year signedYear x0 =
     (let monthI = \<lfloor>(5 * real_of_int x0 + 461) / 153\<rfloor>;
          (month, signedYear) = (if monthI > 12 then (monthI - 12, signedYear + 1)
                                 else (monthI, signedYear));
          (era, year) = (if signedYear \<le> 0 then (0, 1 - signedYear) else (1, signedYear));
          dayF = real_of_int x0 - real_of_int \<lfloor>(153 * real_of_int monthI - 457) / 5\<rfloor> + 1
      in (era, year, month, round dayF))"

definition julian_year :: "int \<Rightarrow> int \<times> int" where
  "julian_year x1 =
     (let signedYear = \<lfloor>(4 * real_of_int x1 + 3) / kECDaysInJulianCycle\<rfloor>
      in (signedYear, x1 - \<lfloor>kECDaysInJulianCycle * real_of_int signedYear / 4\<rfloor>))"

text \<open>\<open>toint\<close> is how the century is converted to an \<open>int\<close>: truncated or rounded down.\<close>

definition gregorian_year :: "(real \<Rightarrow> int) \<Rightarrow> int \<Rightarrow> int \<times> int" where
  "gregorian_year toint x2 =
     (let century = toint ((4 * real_of_int x2 + 3) / kECDaysInGregorianCycle);
          x1 = x2 - \<lfloor>kECDaysInGregorianCycle * real_of_int century / 4\<rfloor>;
          yearWithinCentury = \<lfloor>(100 * real_of_int x1 + 99) / kECDaysInNonLeapCentury\<rfloor>;
          signedYear = 100 * century + yearWithinCentury
      in (signedYear,
          x1 - \<lfloor>kECDaysInNonLeapCentury * real_of_int yearWithinCentury / 100\<rfloor>))"

definition UTCComponentsFromTimeInterval :: "ESTimeInterval \<Rightarrow> ESDateComponents" where
  "UTCComponentsFromTimeInterval timeInterval =
     (let (xRemainder, signedYear, x0) =
            (if timeInterval < kECJulianGregorianSwitchoverTimeInterval
             then let x1F = 730793 + timeInterval / (24 * 3600);
                      x1 = \<lfloor>x1F\<rfloor>
                  in (x1F - real_of_int x1, julian_year x1)
             else let x2F = 730791 + timeInterval / (24 * 3600);
                      x2 = \<lfloor>x2F\<rfloor>
                  in (x2F - real_of_int x2, gregorian_year truncate_real x2));
          (era, year, month, day) = date_in_year signedYear x0;
          hoursF = xRemainder * 24;
          hoursI = \<lfloor>hoursF\<rfloor>;
          minutesF = (hoursF - real_of_int hoursI) * 60;
          minutesI = \<lfloor>minutesF\<rfloor>
      in \<lparr>dc_era = era, dc_year = year, dc_month = month, dc_day = day,
          dc_hour = hoursI, dc_minute = minutesI,
          dc_seconds = (minutesF - real_of_int minutesI) * 60\<rparr>)"

section \<open>From a date to its time\<close>

definition march_year :: "int \<Rightarrow> int \<Rightarrow> int \<Rightarrow> int \<times> int" where
  "march_year era year month =
     (let signedYear = (if era = 0 then 1 - year else year)
      in if month < 3 then (signedYear - 1, month + 12) else (signedYear, month))"

definition before_switchover :: "int \<Rightarrow> int \<Rightarrow> int \<Rightarrow> int \<Rightarrow> bool" where
  "before_switchover era year month day \<longleftrightarrow>
     era = 0 \<or> year < 1582 \<or> (year = 1582 \<and> (month < 10 \<or> (month = 10 \<and> day < 15)))"

definition timeIntervalFromUTCComponents :: "ESDateComponents \<Rightarrow> ESTimeInterval" where
  "timeIntervalFromUTCComponents cs =
     (let (signedYear, monthI) = march_year (dc_era cs) (dc_year cs) (dc_month cs);
          J = (if before_switchover (dc_era cs) (dc_year cs) (dc_month cs) (dc_day cs)
               then 1721116.5 + real_of_int \<lfloor>1461 * real_of_int signedYear / 4\<rfloor>
               else let c = \<lfloor>real_of_int signedYear / 100\<rfloor>;
                        x = signedYear - 100 * c
                    in 1721118.5 + real_of_int \<lfloor>146097 * real_of_int c / 4\<rfloor>
                         + real_of_int \<lfloor>36525 * real_of_int x / 100\<rfloor>);
          J = J + (real_of_int \<lfloor>(153 * real_of_int monthI - 457) / 5\<rfloor> + real_of_int (dc_day cs))
      in (J - kECJulianDayOf1990Epoch) * 24 * 3600 + kEC1990Epoch
           + real_of_int (dc_hour cs) * 3600 + real_of_int (dc_minute cs) * 60 + dc_seconds cs)"

text \<open>\<open>ESUtil::fmod\<close> is an argument of the weekday functions.\<close>

definition UTCWeekdayFromTimeInterval :: "(real \<Rightarrow> real \<Rightarrow> real) \<Rightarrow> ESTimeInterval \<Rightarrow> int" where
  "UTCWeekdayFromTimeInterval es_fmod timeInterval =
     (let intervalDays = timeInterval / (24 * 3600);
          weekday = es_fmod (intervalDays + 1) 7
      in \<lfloor>weekday\<rfloor>)"

definition daysInMonth :: "int \<Rightarrow> int \<Rightarrow> int \<Rightarrow> int option" where
  "daysInMonth eraNumber yearNumber monthNumber =
     (let m = monthNumber - 1 in
      if m = 0 then Some 31
      else if m = 1 then
        (let cs = \<lparr>dc_era = eraNumber, dc_year = yearNumber, dc_month = 2, dc_day = 1,
                   dc_hour = 0, dc_minute = 0, dc_seconds = 0\<rparr>;
             firstOfFeb = timeIntervalFromUTCComponents cs;
             firstOfMar = timeIntervalFromUTCComponents (cs\<lparr>dc_month := 3\<rparr>)
         in Some (round ((firstOfMar - firstOfFeb) / (24 * 3600))))
      else if m \<in> {2, 4, 6, 7, 9, 11} then Some 31
      else if m \<in> {3, 5, 8, 10} then Some 30
      else None)"

section \<open>The two calendars before the switch\<close>

definition gregorian_section :: "int \<Rightarrow> int \<Rightarrow> int \<Rightarrow> int \<Rightarrow> bool" where
  "gregorian_section era year month day \<longleftrightarrow>
     era = 1 \<and> (year > 1582 \<or>
       (year = 1582 \<and> (month > 10 \<or> (month = 10 \<and> day \<ge> 15))))"

definition gregorianToHybrid :: "int \<times> int \<times> int \<times> int \<Rightarrow> int \<times> int \<times> int \<times> int" where
  "gregorianToHybrid ymd = (case ymd of (era, year, month, day) \<Rightarrow>
     if gregorian_section era year month day then ymd
     else let (signedYear, monthI) = march_year era year month;
              c = \<lfloor>real_of_int signedYear / 100\<rfloor>;
              x = signedYear - 100 * c;
              J = 1721118.5 + real_of_int \<lfloor>146097 * real_of_int c / 4\<rfloor>
                    + real_of_int \<lfloor>36525 * real_of_int x / 100\<rfloor>;
              J = J + (real_of_int \<lfloor>(153 * real_of_int monthI - 457) / 5\<rfloor> + real_of_int day);
              x1F = J - 1721117.5;
              (signedYear, x0) = julian_year \<lfloor>x1F\<rfloor>
          in date_in_year signedYear x0)"

definition hybridToGregorian :: "int \<times> int \<times> int \<times> int \<Rightarrow> int \<times> int \<times> int \<times> int" where
  "hybridToGregorian ymd = (case ymd of (era, year, month, day) \<Rightarrow>
     if gregorian_section era year month day then ymd
     else let (signedYear, monthI) = march_year era year month;
              J = 1721116.5 + real_of_int \<lfloor>1461 * real_of_int signedYear / 4\<rfloor>;
              J = J + (real_of_int \<lfloor>(153 * real_of_int monthI - 457) / 5\<rfloor> + real_of_int day);
              x2F = J - 1721119.5;
              (signedYear, x0) = gregorian_year floor \<lfloor>x2F\<rfloor>
          in date_in_year signedYear x0)"

section \<open>Staircases\<close>

text \<open>
  Every step of the conversions is one lemma: the least index at which a staircase
  \<open>(a * y + b) div c\<close> passes a value is again a quotient.
\<close>

lemma le_div_int_iff:
  fixes a y z :: int
  assumes "0 < a"
  shows "y \<le> z div a \<longleftrightarrow> y * a \<le> z"
proof -
  have "y \<le> z div a \<longleftrightarrow> real_of_int y \<le> real_of_int z / real_of_int a"
    by (simp add: le_floor_iff flip: floor_divide_of_int_eq[where ?'a = real])
  also have "\<dots> \<longleftrightarrow> real_of_int (y * a) \<le> real_of_int z"
    using assms by (simp add: pos_le_divide_eq)
  finally show ?thesis by linarith
qed

lemma stair_le:
  fixes a b c x y :: int
  assumes "0 < a" "0 < c"
  shows "y \<le> (c * x + c - 1 - b) div a \<longleftrightarrow> (a * y + b) div c \<le> x"
proof -
  have "y \<le> (c * x + c - 1 - b) div a \<longleftrightarrow> y * a \<le> c * x + c - 1 - b"
    by (rule le_div_int_iff[OF assms(1)])
  also have "\<dots> \<longleftrightarrow> \<not> (x + 1) * c \<le> a * y + b"
    by (simp add: algebra_simps) linarith
  also have "\<dots> \<longleftrightarrow> \<not> x + 1 \<le> (a * y + b) div c"
    by (simp add: le_div_int_iff[OF assms(2)])
  finally show ?thesis by linarith
qed

lemma stair_inverse:
  fixes a b c x y :: int
  assumes "0 < a" "0 < c" "(a * y + b) div c \<le> x" "x < (a * (y + 1) + b) div c"
  shows "(c * x + c - 1 - b) div a = y"
  using stair_le[OF assms(1,2), of y x b] stair_le[OF assms(1,2), of "y + 1" x b] assms(3,4)
  by linarith

lemma stair_bounds:
  fixes a b c x :: int
  assumes "0 < a" "0 < c"
  defines "y \<equiv> (c * x + c - 1 - b) div a"
  shows "(a * y + b) div c \<le> x" "x < (a * (y + 1) + b) div c"
  using stair_le[OF assms(1,2), of y x b] stair_le[OF assms(1,2), of "y + 1" x b]
  by (simp_all add: y_def)

definition julian_days :: "int \<Rightarrow> int" where
  "julian_days y = 1461 * y div 4"

definition century_days :: "int \<Rightarrow> int" where
  "century_days c = 146097 * c div 4"

definition gregorian_days :: "int \<Rightarrow> int" where
  "gregorian_days y = century_days (y div 100) + 36525 * (y mod 100) div 100"

definition month_days :: "int \<Rightarrow> int" where
  "month_days m = (153 * m - 457) div 5"

lemma floor_quotients:
  "\<lfloor>1461 * real_of_int y / 4\<rfloor> = julian_days y"
  "\<lfloor>146097 * real_of_int c / 4\<rfloor> = century_days c"
  "\<lfloor>36525 * real_of_int x / 100\<rfloor> = 36525 * x div 100"
  "\<lfloor>(153 * real_of_int m - 457) / 5\<rfloor> = month_days m"
  "\<lfloor>real_of_int y / 100\<rfloor> = y div 100"
  "\<lfloor>(4 * real_of_int x + 3) / 1461\<rfloor> = (4 * x + 3) div 1461"
  "\<lfloor>(4 * real_of_int x + 3) / 146097\<rfloor> = (4 * x + 3) div 146097"
  "\<lfloor>(100 * real_of_int x + 99) / 36525\<rfloor> = (100 * x + 99) div 36525"
  "\<lfloor>(5 * real_of_int x + 461) / 153\<rfloor> = (5 * x + 461) div 153"
proof -
  have q: "real_of_int p / real_of_int n = r \<Longrightarrow> \<lfloor>r\<rfloor> = p div n" for p n r
    using floor_divide_of_int_eq[of p n, where ?'a = real] by simp
  show "\<lfloor>1461 * real_of_int y / 4\<rfloor> = julian_days y" unfolding julian_days_def by (rule q) simp
  show "\<lfloor>146097 * real_of_int c / 4\<rfloor> = century_days c"
    unfolding century_days_def by (rule q) simp
  show "\<lfloor>36525 * real_of_int x / 100\<rfloor> = 36525 * x div 100" by (rule q) simp
  show "\<lfloor>(153 * real_of_int m - 457) / 5\<rfloor> = month_days m"
    unfolding month_days_def by (rule q) simp
  show "\<lfloor>real_of_int y / 100\<rfloor> = y div 100" by (rule q) simp
  show "\<lfloor>(4 * real_of_int x + 3) / 1461\<rfloor> = (4 * x + 3) div 1461" by (rule q) simp
  show "\<lfloor>(4 * real_of_int x + 3) / 146097\<rfloor> = (4 * x + 3) div 146097" by (rule q) simp
  show "\<lfloor>(100 * real_of_int x + 99) / 36525\<rfloor> = (100 * x + 99) div 36525" by (rule q) simp
  show "\<lfloor>(5 * real_of_int x + 461) / 153\<rfloor> = (5 * x + 461) div 153" by (rule q) simp
qed

lemma kEC_values:
  "kECDaysInJulianCycle = 1461" "kECDaysInGregorianCycle = 146097"
  "kECDaysInNonLeapCentury = 36525"
  by (simp_all add: kECDaysInJulianCycle_def kECDaysInGregorianCycle_def
      kECAverageDaysInGregorianYear_def kECDaysInNonLeapCentury_def)

section \<open>The calendars counted\<close>

text \<open>
  Dates are compared with a count of days that is built from the rules of the calendars alone:
  the successor of a date, with the lengths of the months and the leap years.
\<close>

type_synonym caldate = "int \<times> int \<times> int \<times> int"

definition leap :: "bool \<Rightarrow> int \<Rightarrow> bool" where
  "leap greg y \<longleftrightarrow> y mod 4 = 0 \<and> (greg \<longrightarrow> y mod 100 = 0 \<longrightarrow> y mod 400 = 0)"

definition month_length :: "bool \<Rightarrow> int \<Rightarrow> int" where
  "month_length lp m = (if m = 2 then (if lp then 29 else 28)
     else if m = 4 \<or> m = 6 \<or> m = 9 \<or> m = 11 then 30 else 31)"

definition civil_year :: "int \<Rightarrow> int \<times> int" where
  "civil_year y = (if y \<le> 0 then (0, 1 - y) else (1, y))"

definition signed_year :: "int \<Rightarrow> int \<Rightarrow> int" where
  "signed_year era year = (if era = 0 then 1 - year else year)"

definition calendar_date :: "bool \<Rightarrow> caldate \<Rightarrow> bool" where
  "calendar_date greg d = (case d of (era, year, month, day) \<Rightarrow>
     (era = 0 \<or> era = 1) \<and> 1 \<le> year \<and> 1 \<le> month \<and> month \<le> 12 \<and> 1 \<le> day \<and>
     day \<le> month_length (leap greg (signed_year era year)) month)"

text \<open>The day number of a date, with 1 January 2001 as day 0.\<close>

definition year_days :: "bool \<Rightarrow> int \<Rightarrow> int" where
  "year_days greg y = (if greg then gregorian_days y - 730791 else julian_days y - 730793)"

definition day_of :: "bool \<Rightarrow> caldate \<Rightarrow> int" where
  "day_of greg d = (case d of (era, year, month, day) \<Rightarrow>
     case march_year era year month of (y, m) \<Rightarrow> year_days greg y + month_days m + day - 1)"

lemma div_step:
  fixes k y :: int
  assumes "0 < k"
  shows "(y + 1) div k = y div k + (if (y + 1) mod k = 0 then 1 else 0)"
proof -
  have "(y + 1) div k = (y div k * k + (y mod k + 1)) div k" by (simp add: mult.commute)
  also have "\<dots> = y div k + (y mod k + 1) div k"
    using assms by (metis div_mult_self3 less_irrefl)
  finally have d: "(y + 1) div k = y div k + (y mod k + 1) div k" .
  have m: "(y + 1) mod k = (y mod k + 1) mod k" by (simp add: mod_add_left_eq)
  have r: "0 \<le> y mod k" "y mod k < k" using assms by simp_all
  show ?thesis
  proof (cases "y mod k + 1 = k")
    case True
    then show ?thesis using assms by (simp add: d m)
  next
    case False
    then have "(y mod k + 1) div k = 0" "(y mod k + 1) mod k = y mod k + 1"
      using r by (simp_all add: div_pos_pos_trivial)
    then show ?thesis using r by (simp add: d m)
  qed
qed

lemma div_scale: "0 < c \<Longrightarrow> (c * k + b) * y div c = k * y + b * y div c" for b c k y :: int
  by (simp add: algebra_simps div_plus_div_distrib_dvd_left)

lemma julian_days_alt: "julian_days y = 365 * y + y div 4"
  using div_scale[of 4 365 1 y] by (simp add: julian_days_def)

lemma gregorian_days_alt: "gregorian_days y = 365 * y + y div 4 - y div 100 + y div 400"
proof -
  define c x where "c = y div 100" and "x = y mod 100"
  have y: "y = 100 * c + x" by (simp add: c_def x_def)
  have x: "0 \<le> x" "x < 100" by (simp_all add: x_def)
  have a: "(100 * c + x) div 4 = 25 * c + x div 4"
    using div_mult_self2[of 4 x "25 * c"] by (simp add: algebra_simps)
  have b: "y div 400 = c div 4"
    unfolding c_def using zdiv_zmult2_eq[of 4 y 100] by simp
  have d: "36525 * x div 100 = 365 * x + x div 4"
  proof -
    have "36525 * x div 100 = 365 * x + 25 * x div 100" using div_scale[of 100 365 25 x] by simp
    moreover have "25 * x div 100 = x div 4" using div_mult_mult1[of "25::int" x 4] by simp
    ultimately show ?thesis by simp
  qed
  have e: "century_days c = 36524 * c + c div 4"
    using div_scale[of 4 36524 1 c] by (simp add: century_days_def)
  show ?thesis
    unfolding gregorian_days_def b c_def[symmetric] x_def[symmetric] d e
    unfolding y a by (simp add: algebra_simps)
qed

lemma year_days_step:
  "year_days greg (y + 1) = year_days greg y + (if leap greg (y + 1) then 366 else 365)"
proof -
  have m: "(y + 1) mod 400 = 0 \<Longrightarrow> (y + 1) mod 100 = 0"
    "(y + 1) mod 100 = 0 \<Longrightarrow> (y + 1) mod 4 = 0"
    using mod_mod_cancel[of 100 400 "y + 1"] mod_mod_cancel[of 4 100 "y + 1"] by simp_all
  define p q r where "p \<longleftrightarrow> (y + 1) mod 4 = 0" and "q \<longleftrightarrow> (y + 1) mod 100 = 0"
    and "r \<longleftrightarrow> (y + 1) mod 400 = 0"
  have d: "(y + 1) div 4 = y div 4 + (if p then 1 else 0)"
    "(y + 1) div 100 = y div 100 + (if q then 1 else 0)"
    "(y + 1) div 400 = y div 400 + (if r then 1 else 0)"
    by (simp_all only: p_def q_def r_def div_step)
  have l: "leap greg (y + 1) \<longleftrightarrow> p \<and> (greg \<longrightarrow> q \<longrightarrow> r)"
    by (simp only: leap_def p_def q_def r_def)
  have "r \<longrightarrow> q" "q \<longrightarrow> p" using m unfolding p_def q_def r_def by blast+
  then show ?thesis
    unfolding year_days_def julian_days_alt gregorian_days_alt l d by (auto split: if_splits)
qed

lemma month_days_values:
  "month_days 3 = 0" "month_days 4 = 31" "month_days 5 = 61" "month_days 6 = 92"
  "month_days 7 = 122" "month_days 8 = 153" "month_days 9 = 184" "month_days 10 = 214"
  "month_days 11 = 245" "month_days 12 = 275" "month_days 13 = 306" "month_days 14 = 337"
  "month_days 15 = 367"
  by (simp_all add: month_days_def)

lemma march_month_cases:
  fixes m :: int
  assumes "3 \<le> m" "m \<le> 14"
  obtains "m = 3" | "m = 4" | "m = 5" | "m = 6" | "m = 7" | "m = 8" | "m = 9" | "m = 10" | "m = 11"
    | "m = 12" | "m = 13" | "m = 14"
proof -
  have "m = 3 \<or> m = 4 \<or> m = 5 \<or> m = 6 \<or> m = 7 \<or> m = 8 \<or> m = 9 \<or> m = 10 \<or> m = 11 \<or>
      m = 12 \<or> m = 13 \<or> m = 14"
    using assms by presburger
  then show thesis using that by blast
qed

lemma month_days_step:
  assumes "3 \<le> m" "m < 14"
  shows "month_days (m + 1) = month_days m + month_length lp (if m > 12 then m - 12 else m)"
proof -
  have "m \<le> 14" using assms(2) by simp
  from assms(1) this show ?thesis
    using assms(2)
    by (cases rule: march_month_cases) (simp_all add: month_days_values month_length_def)
qed

lemma month_at:
  assumes "0 \<le> x0" "x0 \<le> 365"
  defines "m \<equiv> (5 * x0 + 461) div 153"
  shows "3 \<le> m" "m \<le> 14" "month_days m \<le> x0" "x0 < month_days (m + 1)"
proof -
  have e: "m = (5 * x0 + 5 - 1 - (- 457)) div 153" by (simp add: m_def)
  show "month_days m \<le> x0" "x0 < month_days (m + 1)"
    using stair_bounds[of 153 5 x0 "- 457"] by (simp_all add: e month_days_def)
  have "153 * 3 \<le> 5 * x0 + 461" "5 * x0 + 461 < 153 * 15" using assms by simp_all
  then have "3 \<le> m" "m < 15"
    unfolding m_def by (simp_all add: le_div_int_iff div_less_iff_less_mult)
  then show "3 \<le> m" "m \<le> 14" by simp_all
qed

lemma month_at_unique:
  assumes "month_days m \<le> x0" "x0 < month_days (m + 1)"
  shows "(5 * x0 + 461) div 153 = m"
  using stair_inverse[of 153 5 m "- 457" x0] assms by (simp add: month_days_def)

text \<open>The date \<open>x0\<close> days after 1 March of the year \<open>y\<close>.\<close>

definition march_date :: "int \<Rightarrow> int \<Rightarrow> int \<Rightarrow> caldate" where
  "march_date y m x0 =
     (case civil_year (if m > 12 then y + 1 else y) of (era, year) \<Rightarrow>
        (era, year, if m > 12 then m - 12 else m, x0 - month_days m + 1))"

lemma date_in_year_march: "date_in_year y x0 = march_date y ((5 * x0 + 461) div 153) x0"
proof -
  have r: "round (real_of_int x0 - real_of_int k + 1) = x0 - k + 1" for k
    using round_of_int[of "x0 - k + 1", where ?'a = real] by simp
  show ?thesis
    by (simp add: date_in_year_def march_date_def civil_year_def Let_def floor_quotients r)
qed

lemma march_year_march_date:
  assumes "3 \<le> m" "m \<le> 14" "march_date y m x0 = (era, year, month, day)"
  shows "march_year era year month = (y, m)" "era = 0 \<or> era = 1" "1 \<le> year" "1 \<le> month"
    "month \<le> 12" "day = x0 - month_days m + 1" "month = (if m > 12 then m - 12 else m)"
    "signed_year era year = (if m > 12 then y + 1 else y)"
  using assms
  by (auto simp: march_date_def civil_year_def march_year_def signed_year_def split: if_splits)

definition year_length :: "bool \<Rightarrow> int \<Rightarrow> int" where
  "year_length greg y = (if leap greg (y + 1) then 366 else 365)"

lemma year_length_bounds: "365 \<le> year_length greg y" "year_length greg y \<le> 366"
  by (simp_all add: year_length_def)

lemma date_in_year_ok:
  assumes "0 \<le> x0" "x0 < year_length greg y"
  shows "calendar_date greg (date_in_year y x0)" "day_of greg (date_in_year y x0) = year_days greg y + x0"
proof -
  define m where "m = (5 * x0 + 461) div 153"
  have x: "x0 \<le> 365" using assms year_length_bounds[of greg y] by simp
  note m = month_at[OF assms(1) x, folded m_def]
  obtain era year month day where d: "march_date y m x0 = (era, year, month, day)"
    by (cases "march_date y m x0")
  note p = march_year_march_date[OF m(1,2) d]
  have "day \<le> month_length (leap greg (signed_year era year)) month"
  proof (cases "m < 14")
    case True
    then show ?thesis
      using month_days_step[OF m(1) True, of "leap greg (signed_year era year)"] m p by simp
  next
    case False
    then have "m = 14" using m by simp
    then show ?thesis
      using assms(2) p
      by (auto simp: month_length_def year_length_def month_days_values split: if_splits)
  qed
  then show "calendar_date greg (date_in_year y x0)"
    using m(3) p d by (auto simp: date_in_year_march calendar_date_def m_def[symmetric])
  show "day_of greg (date_in_year y x0) = year_days greg y + x0"
    using p(1,6) d by (simp add: date_in_year_march day_of_def m_def[symmetric])
qed

text \<open>Every date is reached so: this is the code's view of a date.\<close>

lemma calendar_date_march:
  assumes "calendar_date greg (era, year, month, day)"
  obtains y m where "march_year era year month = (y, m)" "3 \<le> m" "m \<le> 14"
    "0 \<le> month_days m + day - 1" "month_days m + day - 1 < year_length greg y"
    "date_in_year y (month_days m + day - 1) = (era, year, month, day)"
proof -
  have a: "era = 0 \<or> era = 1" "1 \<le> year" "1 \<le> month" "month \<le> 12" "1 \<le> day"
    "day \<le> month_length (leap greg (signed_year era year)) month"
    using assms by (simp_all add: calendar_date_def)
  obtain y m where ym: "march_year era year month = (y, m)" by force
  have m: "3 \<le> m" "m \<le> 14" "month = (if m > 12 then m - 12 else m)"
    and y: "signed_year era year = (if m > 12 then y + 1 else y)"
    using ym a by (auto simp: march_year_def signed_year_def Let_def split: if_splits)
  let ?x = "month_days m + day - 1"
  have md: "0 \<le> month_days m" "m < 14 \<Longrightarrow> month_days (m + 1) \<le> 337"
    using m(1,2) by (cases rule: march_month_cases; simp add: month_days_values)+
  have s: "?x < month_days (m + 1) \<and> ?x < year_length greg y"
  proof (cases "m < 14")
    case True
    then show ?thesis
      using month_days_step[OF m(1) True, of "leap greg (signed_year era year)"] a(6) m(3) md(2)
        year_length_bounds[of greg y] by simp
  next
    case False
    then have "m = 14" using m by simp
    then show ?thesis
      using a(6) m(3) y
      by (simp add: month_length_def year_length_def month_days_values split: if_splits)
  qed
  have "(5 * ?x + 461) div 153 = m"
    using s a(5) by (intro month_at_unique) simp_all
  then have "date_in_year y ?x = march_date y m ?x" by (simp add: date_in_year_march)
  also have "\<dots> = (era, year, month, day)"
    using m y a by (auto simp: march_date_def civil_year_def signed_year_def split: if_splits)
  finally show thesis using that[OF ym m(1,2)] s md(1) a(5) by simp
qed

subsection \<open>The year of a day\<close>

lemma year_days_mono: "y \<le> z \<Longrightarrow> year_days greg y \<le> year_days greg z"
proof (induction z rule: int_ge_induct)
  case (step z)
  then show ?case using year_days_step[of greg z] by (auto split: if_splits)
qed simp

lemma year_days_length: "year_days greg (y + 1) = year_days greg y + year_length greg y"
  by (simp add: year_days_step year_length_def)

lemma year_bounds_unique:
  assumes "0 \<le> x" "x < year_length greg y" "0 \<le> u" "u < year_length greg z"
    "year_days greg y + x = year_days greg z + u"
  shows "y = z \<and> x = u"
proof -
  have "\<not> y + 1 \<le> z" "\<not> z + 1 \<le> y"
    using year_days_mono[of "y + 1" z greg] year_days_mono[of "z + 1" y greg]
      year_days_length[of greg y] year_days_length[of greg z] assms by linarith+
  then have "y = z" by simp
  then show ?thesis using assms(5) by simp
qed

lemma julian_year_ok:
  assumes "julian_year x1 = (y, x0)"
  shows "0 \<le> x0" "x0 < year_length False y" "x1 = julian_days y + x0"
proof -
  have y: "y = (4 * x1 + 4 - 1 - 0) div 1461" and x: "x0 = x1 - julian_days y"
    using assms unfolding julian_year_def Let_def kEC_values floor_quotients by auto
  have b: "julian_days y \<le> x1" "x1 < julian_days (y + 1)"
    using stair_bounds[of 1461 4 x1 0] by (simp_all add: y julian_days_def)
  then show "0 \<le> x0" "x0 < year_length False y" "x1 = julian_days y + x0"
    using x year_days_length[of False y] by (simp_all add: year_days_def)
qed

lemma gregorian_days_split:
  assumes "0 \<le> x" "x < 100"
  shows "gregorian_days (100 * c + x) = century_days c + 36525 * x div 100"
  using assms by (simp add: gregorian_days_def div_pos_pos_trivial)

lemma gregorian_year_ok:
  assumes "gregorian_year toint x2 = (y, x0)"
    "toint ((4 * real_of_int x2 + 3) / 146097) = (4 * x2 + 3) div 146097"
  shows "0 \<le> x0" "x0 < year_length True y" "x2 = gregorian_days y + x0"
proof -
  define c where "c = (4 * x2 + 3) div 146097"
  define x1 where "x1 = x2 - century_days c"
  define w where "w = (100 * x1 + 99) div 36525"
  have e: "y = 100 * c + w" "x0 = x1 - 36525 * w div 100"
    using assms(1)[unfolded gregorian_year_def Let_def kEC_values assms(2) floor_quotients]
    unfolding w_def x1_def c_def prod.inject by (blast intro: sym)+
  have b: "century_days c \<le> x2" "x2 < century_days (c + 1)"
    using stair_bounds[of 146097 4 x2 0] by (simp_all add: c_def century_days_def)
  have d: "36525 * w div 100 \<le> x1" "x1 < 36525 * (w + 1) div 100"
    using stair_bounds[of 36525 100 x1 0] by (simp_all add: w_def)
  have l: "century_days (c + 1) \<le> century_days c + 36525"
    using div_scale[of 4 36524 1 c] div_scale[of 4 36524 1 "c + 1"] div_step[of 4 c]
    by (simp add: century_days_def)
  have "36525 * 0 \<le> 100 * x1 + 99" "100 * x1 + 99 < 36525 * 100"
    using b l by (simp_all add: x1_def)
  then have w: "0 \<le> w" "w < 100" unfolding w_def by (simp_all add: div_less_iff_less_mult)
  have g: "gregorian_days y = century_days c + 36525 * w div 100"
    using gregorian_days_split[OF w] by (simp add: e)
  have "x2 < gregorian_days (y + 1)"
  proof (cases "w = 99")
    case True
    then have "y + 1 = 100 * (c + 1) + 0" by (simp add: e)
    then show ?thesis using gregorian_days_split[of 0 "c + 1"] b by (simp add: algebra_simps)
  next
    case False
    then have "gregorian_days (100 * c + (w + 1)) = century_days c + 36525 * (w + 1) div 100"
      using w by (intro gregorian_days_split) simp_all
    then show ?thesis using d(2) by (simp add: e x1_def add.assoc)
  qed
  then show "0 \<le> x0" "x0 < year_length True y" "x2 = gregorian_days y + x0"
    using g d(1) e(2) year_days_length[of True y] by (simp_all add: year_days_def x1_def)
qed

subsection \<open>The hybrid calendar\<close>

text \<open>The ten days from 5 to 14 October 1582 do not exist.\<close>

definition hybrid_date :: "caldate \<Rightarrow> bool" where
  "hybrid_date d = (case d of (era, year, month, day) \<Rightarrow>
     calendar_date (gregorian_section era year month day) d \<and>
     \<not> (era = 1 \<and> year = 1582 \<and> month = 10 \<and> 5 \<le> day \<and> day < 15))"

definition hybrid_day :: "caldate \<Rightarrow> int" where
  "hybrid_day d = (case d of (era, year, month, day) \<Rightarrow>
     day_of (gregorian_section era year month day) d)"

definition switch_day :: int where
  "switch_day = - 152750"

text \<open>The order of the dates around October 1582.\<close>

lemma october_1582:
  assumes "calendar_date greg (era, year, month, day)" "1 \<le> k" "k \<le> 31"
  shows "(era = 1 \<and> (year > 1582 \<or> (year = 1582 \<and> (month > 10 \<or> (month = 10 \<and> k \<le> day))))) \<longleftrightarrow>
    year_days greg 1582 + 213 + k \<le> day_of greg (era, year, month, day)"
proof -
  obtain y m where ym: "march_year era year month = (y, m)" "3 \<le> m" "m \<le> 14"
    "0 \<le> month_days m + day - 1" "month_days m + day - 1 < year_length greg y"
    "date_in_year y (month_days m + day - 1) = (era, year, month, day)"
    using calendar_date_march[OF assms(1)] .
  have d: "day_of greg (era, year, month, day) = year_days greg y + (month_days m + day - 1)"
    using ym(1) by (simp add: day_of_def)
  have c: "(era = 1 \<and> (year > 1582 \<or> (year = 1582 \<and> (month > 10 \<or> (month = 10 \<and> k \<le> day))))) \<longleftrightarrow>
    y > 1582 \<or> (y = 1582 \<and> (m > 10 \<or> (m = 10 \<and> k \<le> day)))"
    using ym(1) assms(1)
    by (auto simp: march_year_def calendar_date_def Let_def split: if_splits)
  consider "y + 1 \<le> 1582" | "1582 + 1 \<le> y" | "y = 1582" by linarith
  then show ?thesis
  proof cases
    case 1
    then show ?thesis
      unfolding c d using year_days_mono[OF 1, of greg] year_days_length[of greg y] ym(5) assms(2)
      by simp
  next
    case 2
    then show ?thesis
      unfolding c d using year_days_mono[OF 2, of greg] year_days_length[of greg 1582]
        year_length_bounds[of greg 1582] ym(4) assms(3) by simp
  next
    case 3
    have l: "1 \<le> day" "day \<le> month_length (leap greg (signed_year era year)) month"
      and mm: "month = (if m > 12 then m - 12 else m)"
      using assms(1) ym(1)
      by (auto simp: calendar_date_def march_year_def Let_def split: if_splits)
    show ?thesis
      unfolding c d using ym(2,3) l mm assms(2,3) 3
      by (cases rule: march_month_cases) (simp_all add: month_days_values month_length_def)
  qed
qed

lemma october_values:
  "year_days True 1582 + 213 + 15 = switch_day" "year_days False 1582 + 213 + 5 = switch_day"
  by (simp_all add: year_days_def gregorian_days_alt julian_days_alt switch_day_def)

lemma gregorian_section_day:
  assumes "calendar_date True (era, year, month, day)"
  shows "gregorian_section era year month day \<longleftrightarrow> switch_day \<le> day_of True (era, year, month, day)"
  using october_1582[OF assms, of 15] by (simp add: gregorian_section_def october_values)

lemma julian_section_day:
  assumes "calendar_date False (era, year, month, day)"
  shows "\<not> gregorian_section era year month day \<and>
      \<not> (era = 1 \<and> year = 1582 \<and> month = 10 \<and> 5 \<le> day \<and> day < 15) \<longleftrightarrow>
    day_of False (era, year, month, day) < switch_day"
  using october_1582[OF assms, of 5] by (auto simp: gregorian_section_def october_values)

lemma hybrid_date_iff:
  "hybrid_date d \<and> hybrid_day d < switch_day \<longleftrightarrow> calendar_date False d \<and> day_of False d < switch_day"
  "hybrid_date d \<and> switch_day \<le> hybrid_day d \<longleftrightarrow> calendar_date True d \<and> switch_day \<le> day_of True d"
proof -
  obtain era year month day where d: "d = (era, year, month, day)" by (cases d)
  let ?s = "gregorian_section era year month day"
  let ?gap = "era = 1 \<and> year = 1582 \<and> month = 10 \<and> 5 \<le> day \<and> day < 15"
  have h: "hybrid_date d \<longleftrightarrow> calendar_date ?s d \<and> \<not> ?gap" "hybrid_day d = day_of ?s d"
    by (simp_all add: d hybrid_date_def hybrid_day_def)
  have g: "?s \<Longrightarrow> \<not> ?gap" by (auto simp: gregorian_section_def)
  have t: "calendar_date True d \<Longrightarrow> ?s \<longleftrightarrow> switch_day \<le> day_of True d"
    using gregorian_section_day by (simp add: d)
  have f: "calendar_date False d \<Longrightarrow> \<not> ?s \<and> \<not> ?gap \<longleftrightarrow> day_of False d < switch_day"
    using julian_section_day by (simp add: d)
  have e: "?s \<Longrightarrow> ?s = True" "\<not> ?s \<Longrightarrow> ?s = False" by simp_all
  show "hybrid_date d \<and> hybrid_day d < switch_day \<longleftrightarrow> calendar_date False d \<and> day_of False d < switch_day"
  proof (cases ?s)
    case True
    show ?thesis unfolding h e(1)[OF True] using True t f g by (metis not_less)
  next
    case False
    show ?thesis unfolding h e(2)[OF False] using False f by blast
  qed
  show "hybrid_date d \<and> switch_day \<le> hybrid_day d \<longleftrightarrow> calendar_date True d \<and> switch_day \<le> day_of True d"
  proof (cases ?s)
    case True
    show ?thesis unfolding h e(1)[OF True] using True t g by blast
  next
    case False
    show ?thesis unfolding h e(2)[OF False] using False t f by (metis not_less)
  qed
qed

section \<open>Times and dates\<close>

definition cs_date :: "ESDateComponents \<Rightarrow> caldate" where
  "cs_date cs = (dc_era cs, dc_year cs, dc_month cs, dc_day cs)"

definition cs_clock :: "ESDateComponents \<Rightarrow> real" where
  "cs_clock cs = 3600 * real_of_int (dc_hour cs) + 60 * real_of_int (dc_minute cs) + dc_seconds cs"

definition cs_clock_ok :: "ESDateComponents \<Rightarrow> bool" where
  "cs_clock_ok cs \<longleftrightarrow> 0 \<le> dc_hour cs \<and> dc_hour cs < 24 \<and> 0 \<le> dc_minute cs \<and> dc_minute cs < 60 \<and>
     0 \<le> dc_seconds cs \<and> dc_seconds cs < 60"

lemma cs_clock_bounds:
  assumes "cs_clock_ok cs"
  shows "0 \<le> cs_clock cs" "cs_clock cs < 86400"
proof -
  have "real_of_int (dc_hour cs) \<le> 23" "real_of_int (dc_minute cs) \<le> 59"
    "0 \<le> real_of_int (dc_hour cs)" "0 \<le> real_of_int (dc_minute cs)"
    using assms by (simp_all add: cs_clock_ok_def)
  then show "0 \<le> cs_clock cs" "cs_clock cs < 86400"
    using assms by (simp_all add: cs_clock_ok_def cs_clock_def)
qed

lemma before_switchover_section:
  "era = 0 \<or> era = 1 \<Longrightarrow> before_switchover era year month day \<longleftrightarrow> \<not> gregorian_section era year month day"
  by (auto simp: before_switchover_def gregorian_section_def)

lemma timeIntervalFromUTCComponents_day:
  assumes "dc_era cs = 0 \<or> dc_era cs = 1"
  shows "timeIntervalFromUTCComponents cs = 86400 * real_of_int (hybrid_day (cs_date cs)) + cs_clock cs"
proof -
  obtain y m where ym: "march_year (dc_era cs) (dc_year cs) (dc_month cs) = (y, m)" by force
  let ?s = "gregorian_section (dc_era cs) (dc_year cs) (dc_month cs) (dc_day cs)"
  have d: "hybrid_day (cs_date cs) = year_days ?s y + month_days m + dc_day cs - 1"
    by (simp add: hybrid_day_def cs_date_def day_of_def ym)
  have r: "y - 100 * (y div 100) = y mod 100" by (simp add: minus_mult_div_eq_mod)
  show ?thesis
    unfolding d timeIntervalFromUTCComponents_def ym before_switchover_section[OF assms] Let_def
      prod.case floor_quotients r
    by (cases ?s)
      (simp_all add: year_days_def gregorian_days_def cs_clock_def kECJulianDayOf1990Epoch_def
        kEC1990Epoch_def algebra_simps)
qed

text \<open>The clock of a fraction of a day.\<close>

lemma clock_of_fraction:
  fixes f :: real
  assumes "0 \<le> f" "f < 1"
  defines "h \<equiv> \<lfloor>f * 24\<rfloor>"
  defines "mF \<equiv> (f * 24 - real_of_int h) * 60"
  defines "m \<equiv> \<lfloor>mF\<rfloor>"
  defines "s \<equiv> (mF - real_of_int m) * 60"
  shows "0 \<le> h" "h < 24" "0 \<le> m" "m < 60" "0 \<le> s" "s < 60"
    "3600 * real_of_int h + 60 * real_of_int m + s = 86400 * f"
proof -
  have h: "real_of_int h \<le> f * 24" "f * 24 < real_of_int h + 1" by (simp_all add: h_def)
  have m: "real_of_int m \<le> mF" "mF < real_of_int m + 1" by (simp_all add: m_def)
  show "0 \<le> h" "h < 24" using assms(1,2) by (simp_all add: h_def floor_less_iff)
  have "0 \<le> mF" "mF < 60" using h by (simp_all add: mF_def)
  then show "0 \<le> m" "m < 60" by (simp_all add: m_def floor_less_iff)
  show "0 \<le> s" "s < 60" using m by (simp_all add: s_def)
  show "3600 * real_of_int h + 60 * real_of_int m + s = 86400 * f" by (simp add: s_def mF_def)
qed

lemma clock_unique:
  fixes h m h' m' :: int and s s' :: real
  assumes "0 \<le> s" "s < 60" "0 \<le> m" "m < 60" "0 \<le> s'" "s' < 60" "0 \<le> m'" "m' < 60"
    "3600 * real_of_int h + 60 * real_of_int m + s = 3600 * real_of_int h' + 60 * real_of_int m' + s'"
  shows "h = h' \<and> m = m' \<and> s = s'"
proof -
  have "\<lfloor>60 * real_of_int h + real_of_int m + s / 60\<rfloor> = \<lfloor>60 * real_of_int h' + real_of_int m' + s' / 60\<rfloor>"
    using assms(9) by (intro arg_cong[of _ _ floor]) (simp add: field_simps)
  moreover have "\<lfloor>60 * real_of_int h + real_of_int m + s / 60\<rfloor> = 60 * h + m"
    "\<lfloor>60 * real_of_int h' + real_of_int m' + s' / 60\<rfloor> = 60 * h' + m'"
    by (rule floor_unique; use assms(1-8) in simp)+
  ultimately have e: "60 * h + m = 60 * h' + m'" by simp
  then have "h = h'" using assms(3,4,7,8) by linarith
  then show ?thesis using e assms(9) by simp
qed

lemma UTCComponents_split:
  obtains y x0 where
    "cs_date (UTCComponentsFromTimeInterval t) = date_in_year y x0"
    "0 \<le> x0" "x0 < year_length (switch_day \<le> \<lfloor>t / 86400\<rfloor>) y"
    "\<lfloor>t / 86400\<rfloor> = year_days (switch_day \<le> \<lfloor>t / 86400\<rfloor>) y + x0"
    "cs_clock_ok (UTCComponentsFromTimeInterval t)"
    "cs_clock (UTCComponentsFromTimeInterval t) = t - 86400 * real_of_int \<lfloor>t / 86400\<rfloor>"
proof -
  let ?n = "\<lfloor>t / 86400\<rfloor>"
  have c: "t < kECJulianGregorianSwitchoverTimeInterval \<longleftrightarrow> \<not> switch_day \<le> ?n"
    by (simp add: kECJulianGregorianSwitchoverTimeInterval_def switch_day_def le_floor_iff) linarith
  have fl: "\<lfloor>k + t / 86400\<rfloor> = \<lfloor>k\<rfloor> + ?n" if "k \<in> \<int>" for k :: real
    using that by (auto elim!: Ints_cases)
  define f where "f = t / 86400 - real_of_int ?n"
  have f: "0 \<le> f" "f < 1" unfolding f_def by linarith+
  obtain y x0 where yx: "(if t < kECJulianGregorianSwitchoverTimeInterval then julian_year (?n + 730793)
      else gregorian_year truncate_real (?n + 730791)) = (y, x0)" by force
  note k = clock_of_fraction[OF f]
  have u: "UTCComponentsFromTimeInterval t =
      (case date_in_year y x0 of (era, year, month, day) \<Rightarrow>
        \<lparr>dc_era = era, dc_year = year, dc_month = month, dc_day = day, dc_hour = \<lfloor>f * 24\<rfloor>,
         dc_minute = \<lfloor>(f * 24 - real_of_int \<lfloor>f * 24\<rfloor>) * 60\<rfloor>,
         dc_seconds = ((f * 24 - real_of_int \<lfloor>f * 24\<rfloor>) * 60 -
           real_of_int \<lfloor>(f * 24 - real_of_int \<lfloor>f * 24\<rfloor>) * 60\<rfloor>) * 60\<rparr>)"
    using yx unfolding UTCComponentsFromTimeInterval_def f_def
    by (auto simp: Let_def add.commute split: if_splits prod.splits)
  have v: "cs_date (UTCComponentsFromTimeInterval t) = date_in_year y x0"
    by (simp add: u cs_date_def split: prod.splits)
  have w: "cs_clock_ok (UTCComponentsFromTimeInterval t)"
    using k by (simp add: u cs_clock_ok_def split: prod.splits)
  have x: "cs_clock (UTCComponentsFromTimeInterval t) = t - 86400 * real_of_int ?n"
    using k(7) by (simp add: u cs_clock_def f_def split: prod.splits)
  have "0 \<le> x0 \<and> x0 < year_length (switch_day \<le> ?n) y \<and> ?n = year_days (switch_day \<le> ?n) y + x0"
  proof (cases "switch_day \<le> ?n")
    case True
    have "0 \<le> (4 * real_of_int (?n + 730791) + 3) / 146097"
    proof -
      have "switch_day \<le> n \<Longrightarrow> 0 \<le> 4 * (n + 730791) + 3" for n by (simp add: switch_day_def)
      from this[OF True] have "0 \<le> 4 * (?n + 730791) + 3" .
      then have "0 \<le> real_of_int (4 * (?n + 730791) + 3)" by (simp only: of_int_0_le_iff)
      then show ?thesis by simp
    qed
    then have "truncate_real ((4 * real_of_int (?n + 730791) + 3) / 146097) =
        (4 * (?n + 730791) + 3) div 146097"
      unfolding floor_quotients(7)[symmetric] by (simp add: truncate_real_def)
    with True yx c gregorian_year_ok[of truncate_real "?n + 730791" y x0] show ?thesis
      by (simp add: year_days_def)
  next
    case False
    with yx c julian_year_ok[of "?n + 730793" y x0] show ?thesis by (simp add: year_days_def)
  qed
  then show thesis using that[OF v _ _ _ w x] by blast
qed

lemma hybrid_day_of_year:
  assumes "0 \<le> x0" "x0 < year_length (switch_day \<le> n) y" "n = year_days (switch_day \<le> n) y + x0"
  shows "hybrid_date (date_in_year y x0)" "hybrid_day (date_in_year y x0) = n"
proof -
  have d: "calendar_date (switch_day \<le> n) (date_in_year y x0)"
    "day_of (switch_day \<le> n) (date_in_year y x0) = n"
    using date_in_year_ok[OF assms(1,2)] assms(3) by simp_all
  show h: "hybrid_date (date_in_year y x0)"
    using d hybrid_date_iff[of "date_in_year y x0"] by (cases "switch_day \<le> n") auto
  obtain era year month day where e: "date_in_year y x0 = (era, year, month, day)"
    by (cases "date_in_year y x0")
  have "gregorian_section era year month day \<longleftrightarrow> switch_day \<le> n"
  proof (cases "switch_day \<le> n")
    case True
    then show ?thesis using d gregorian_section_day[of era year month day] by (simp add: e)
  next
    case False
    then show ?thesis
      using d julian_section_day[of era year month day] unfolding e
      by (metis (full_types) not_less)
  qed
  then show "hybrid_day (date_in_year y x0) = n" using d(2) by (simp add: hybrid_day_def e)
qed

lemma hybrid_section:
  assumes "hybrid_date x"
  shows "calendar_date (switch_day \<le> hybrid_day x) x"
    "day_of (switch_day \<le> hybrid_day x) x = hybrid_day x"
proof -
  obtain era year month day where x: "x = (era, year, month, day)" by (cases x)
  have s: "gregorian_section era year month day \<longleftrightarrow> switch_day \<le> hybrid_day x"
  proof (cases "gregorian_section era year month day")
    case True
    then show ?thesis
      using assms gregorian_section_day[of era year month day]
      by (simp add: x hybrid_date_def hybrid_day_def)
  next
    case False
    then show ?thesis
      using assms julian_section_day[of era year month day]
      by (auto simp add: x hybrid_date_def hybrid_day_def)
  qed
  show "calendar_date (switch_day \<le> hybrid_day x) x"
    "day_of (switch_day \<le> hybrid_day x) x = hybrid_day x"
    using assms unfolding s[symmetric] by (simp_all add: x hybrid_date_def hybrid_day_def)
qed

lemma hybrid_day_inj:
  assumes "hybrid_date d" "hybrid_date e" "hybrid_day d = hybrid_day e"
  shows "d = e"
proof -
  define greg where "greg \<longleftrightarrow> switch_day \<le> hybrid_day d"
  have c: "calendar_date greg d" "calendar_date greg e" "day_of greg d = day_of greg e"
    using hybrid_section[OF assms(1)] hybrid_section[OF assms(2)] assms(3)
    by (simp_all add: greg_def)
  obtain era year month day where d: "d = (era, year, month, day)" by (cases d)
  obtain era' year' month' day' where e: "e = (era', year', month', day')" by (cases e)
  obtain y m where ym: "march_year era year month = (y, m)"
    "0 \<le> month_days m + day - 1" "month_days m + day - 1 < year_length greg y"
    "date_in_year y (month_days m + day - 1) = d"
    using calendar_date_march[OF c(1)[unfolded d]] by (metis d)
  obtain z k where zk: "march_year era' year' month' = (z, k)"
    "0 \<le> month_days k + day' - 1" "month_days k + day' - 1 < year_length greg z"
    "date_in_year z (month_days k + day' - 1) = e"
    using calendar_date_march[OF c(2)[unfolded e]] by (metis e)
  have "y = z \<and> month_days m + day - 1 = month_days k + day' - 1"
    using c(3) ym(1) zk(1) by (intro year_bounds_unique[OF ym(2,3) zk(2,3)]) (simp add: d e day_of_def)
  then show ?thesis using ym(4) zk(4) by metis
qed

text \<open>The date of a time: its day is the whole number of days, its clock the rest.\<close>

lemma UTCComponentsFromTimeInterval_day:
  "hybrid_date (cs_date (UTCComponentsFromTimeInterval t))"
  "hybrid_day (cs_date (UTCComponentsFromTimeInterval t)) = \<lfloor>t / 86400\<rfloor>"
  "cs_clock_ok (UTCComponentsFromTimeInterval t)"
  "cs_clock (UTCComponentsFromTimeInterval t) = t - 86400 * real_of_int \<lfloor>t / 86400\<rfloor>"
proof -
  obtain y x0 where s: "cs_date (UTCComponentsFromTimeInterval t) = date_in_year y x0"
    "0 \<le> x0" "x0 < year_length (switch_day \<le> \<lfloor>t / 86400\<rfloor>) y"
    "\<lfloor>t / 86400\<rfloor> = year_days (switch_day \<le> \<lfloor>t / 86400\<rfloor>) y + x0"
    "cs_clock_ok (UTCComponentsFromTimeInterval t)"
    "cs_clock (UTCComponentsFromTimeInterval t) = t - 86400 * real_of_int \<lfloor>t / 86400\<rfloor>"
    by (rule UTCComponents_split)
  show "hybrid_date (cs_date (UTCComponentsFromTimeInterval t))"
    "hybrid_day (cs_date (UTCComponentsFromTimeInterval t)) = \<lfloor>t / 86400\<rfloor>"
    using hybrid_day_of_year[OF s(2-4)] by (simp_all add: s(1))
  show "cs_clock_ok (UTCComponentsFromTimeInterval t)"
    "cs_clock (UTCComponentsFromTimeInterval t) = t - 86400 * real_of_int \<lfloor>t / 86400\<rfloor>"
    using s(5,6) .
qed

lemma hybrid_date_era: "hybrid_date (cs_date cs) \<Longrightarrow> dc_era cs = 0 \<or> dc_era cs = 1"
  by (simp add: hybrid_date_def calendar_date_def cs_date_def)

lemma interval_of_components:
  "timeIntervalFromUTCComponents (UTCComponentsFromTimeInterval t) = t"
  using UTCComponentsFromTimeInterval_day[of t]
    timeIntervalFromUTCComponents_day[OF hybrid_date_era, of "UTCComponentsFromTimeInterval t"]
  by simp

text \<open>C25: Every time, before and after the switch to the Gregorian calendar and in both eras, becomes a valid date and time of day, and these convert back to that time. In the doubles of the code the time comes back to some microseconds in our centuries, and years must stay below 1.4 million (1461 times the year is an int). The other direction holds only of exact reals, so it is not claimed: a whole minute may be read as the minute before with 59.99999 seconds.\<close>

theorem utc_components_of_interval:
  "hybrid_date (cs_date (UTCComponentsFromTimeInterval t)) \<and>
   cs_clock_ok (UTCComponentsFromTimeInterval t) \<and>
   timeIntervalFromUTCComponents (UTCComponentsFromTimeInterval t) = t"
  using UTCComponentsFromTimeInterval_day[of t] interval_of_components[of t] by simp

lemma components_of_interval:
  assumes "hybrid_date (cs_date cs)" "cs_clock_ok cs"
  shows "UTCComponentsFromTimeInterval (timeIntervalFromUTCComponents cs) = cs"
proof -
  let ?t = "timeIntervalFromUTCComponents cs"
  let ?u = "UTCComponentsFromTimeInterval ?t"
  have t: "?t = 86400 * real_of_int (hybrid_day (cs_date cs)) + cs_clock cs"
    using timeIntervalFromUTCComponents_day hybrid_date_era[OF assms(1)] by blast
  have n: "\<lfloor>?t / 86400\<rfloor> = hybrid_day (cs_date cs)"
    using cs_clock_bounds[OF assms(2)] by (intro floor_unique) (simp_all add: t)
  have d: "cs_date ?u = cs_date cs"
    using UTCComponentsFromTimeInterval_day(1,2)[of ?t] assms(1) n by (intro hybrid_day_inj) simp_all
  have c: "cs_clock ?u = cs_clock cs"
    using UTCComponentsFromTimeInterval_day(4)[of ?t] by (simp only: n) (simp add: t)
  have "dc_hour ?u = dc_hour cs \<and> dc_minute ?u = dc_minute cs \<and> dc_seconds ?u = dc_seconds cs"
    using assms(2) UTCComponentsFromTimeInterval_day(3)[of ?t] c
    by (intro clock_unique) (simp_all add: cs_clock_ok_def cs_clock_def)
  then show ?thesis using d by (simp add: cs_date_def)
qed

section \<open>Successive days\<close>

text \<open>The day after a date, by the rules of the calendar.\<close>

definition next_day :: "caldate \<Rightarrow> caldate" where
  "next_day d = (case d of (era, year, month, day) \<Rightarrow>
     if d = (1, 1582, 10, 4) then (1, 1582, 10, 15)
     else if day < month_length (leap (gregorian_section era year month day) (signed_year era year)) month
       then (era, year, month, day + 1)
     else if month < 12 then (era, year, month + 1, 1)
     else case civil_year (signed_year era year + 1) of (era', year') \<Rightarrow> (era', year', 1, 1))"

definition midnight_of :: "caldate \<Rightarrow> ESDateComponents" where
  "midnight_of d = (case d of (era, year, month, day) \<Rightarrow>
     \<lparr>dc_era = era, dc_year = year, dc_month = month, dc_day = day,
      dc_hour = 0, dc_minute = 0, dc_seconds = 0\<rparr>)"

lemma midnight_of_simps [simp]:
  "cs_date (midnight_of d) = d" "cs_clock (midnight_of d) = 0" "cs_clock_ok (midnight_of d)"
  by (cases d; simp add: midnight_of_def cs_date_def cs_clock_def cs_clock_ok_def)+

lemma march_year_civil:
  assumes "civil_year z = (era, year)"
  shows "march_year era year month = (if month < 3 then (z - 1, month + 12) else (z, month))"
    "signed_year era year = z" "era = 0 \<or> era = 1" "1 \<le> year"
  using assms by (auto simp: civil_year_def march_year_def signed_year_def split: if_splits)

lemma march_year_signed:
  "march_year era year month =
     (if month < 3 then (signed_year era year - 1, month + 12) else (signed_year era year, month))"
  by (simp add: march_year_def signed_year_def)

lemma month_end:
  assumes "1 \<le> month" "month < 12"
  shows "day_of greg (era, year, month + 1, 1) =
    day_of greg (era, year, month, 1) + month_length (leap greg (signed_year era year)) month"
proof (cases "month = 2")
  case True
  show ?thesis
    using year_days_step[of greg "signed_year era year - 1"]
    by (simp add: True day_of_def march_year_signed month_days_values month_length_def)
next
  case False
  let ?m = "if month < 3 then month + 12 else month"
  have "month_days (?m + 1) = month_days ?m +
      month_length (leap greg (signed_year era year)) (if ?m > 12 then ?m - 12 else ?m)"
    using assms False by (intro month_days_step) auto
  then show ?thesis
    using assms False by (auto simp: day_of_def march_year_signed split: if_splits)
qed

lemma year_end:
  assumes "civil_year (signed_year era year + 1) = (era', year')"
  shows "day_of greg (era', year', 1, 1) = day_of greg (era, year, 12, 31) + 1"
  using march_year_civil(2)[OF assms]
  by (simp add: day_of_def march_year_signed month_days_values)

lemma day_of_shift: "day_of greg (era, year, month, day) = day_of greg (era, year, month, 1) + day - 1"
  by (simp add: day_of_def split: prod.splits)

lemma calendar_next:
  assumes "calendar_date greg (era, year, month, day)"
  defines "d \<equiv> (if day < month_length (leap greg (signed_year era year)) month
      then (era, year, month, day + 1)
    else if month < 12 then (era, year, month + 1, 1)
    else case civil_year (signed_year era year + 1) of (era', year') \<Rightarrow> (era', year', 1, 1))"
  shows "calendar_date greg d" "day_of greg d = day_of greg (era, year, month, day) + 1"
proof -
  have a: "era = 0 \<or> era = 1" "1 \<le> year" "1 \<le> month" "month \<le> 12" "1 \<le> day"
    "day \<le> month_length (leap greg (signed_year era year)) month"
    using assms(1) by (simp_all add: calendar_date_def)
  obtain era' year' where c: "civil_year (signed_year era year + 1) = (era', year')" by force
  have pos: "1 \<le> month_length lp k" for lp k by (simp add: month_length_def)
  show "calendar_date greg d"
    using a march_year_civil(3,4)[OF c] pos
    by (auto simp: d_def c calendar_date_def)
  show "day_of greg d = day_of greg (era, year, month, day) + 1"
  proof (cases "day < month_length (leap greg (signed_year era year)) month")
    case True
    then show ?thesis by (simp add: d_def day_of_shift[of _ _ _ _ day] day_of_shift[of _ _ _ _ "day + 1"])
  next
    case False
    then have l: "day = month_length (leap greg (signed_year era year)) month" using a(6) by simp
    show ?thesis
    proof (cases "month < 12")
      case True
      then show ?thesis
        using False l month_end[OF a(3) True, of greg era year] day_of_shift[of greg era year month day]
        by (simp add: d_def)
    next
      case m: False
      then have "month = 12" using a(4) by simp
      then show ?thesis
        using False l year_end[OF c, of greg] by (simp add: d_def c month_length_def)
    qed
  qed
qed

lemma next_day_hybrid:
  assumes "hybrid_date d"
  shows "hybrid_date (next_day d)" "hybrid_day (next_day d) = hybrid_day d + 1"
proof -
  obtain era year month day where d: "d = (era, year, month, day)" by (cases d)
  have "hybrid_date (next_day d) \<and> hybrid_day (next_day d) = hybrid_day d + 1"
  proof (cases "d = (1, 1582, 10, 4)")
    case True
    then show ?thesis
      by (simp add: next_day_def hybrid_date_def hybrid_day_def calendar_date_def gregorian_section_def
          month_length_def day_of_def march_year_def month_days_values year_days_def
          gregorian_days_alt julian_days_alt)
  next
    case False
    define greg where "greg \<longleftrightarrow> switch_day \<le> hybrid_day d"
    note h = hybrid_section[OF assms, folded greg_def]
    have s: "gregorian_section era year month day \<longleftrightarrow> greg"
    proof (cases greg)
      case True
      then show ?thesis using h gregorian_section_day[of era year month day]
        by (simp add: d greg_def)
    next
      case False
      then show ?thesis using h julian_section_day[of era year month day] unfolding d greg_def
        by (metis (full_types) not_less)
    qed
    have n: "next_day d = (if day < month_length (leap greg (signed_year era year)) month
        then (era, year, month, day + 1)
      else if month < 12 then (era, year, month + 1, 1)
      else case civil_year (signed_year era year + 1) of (era', year') \<Rightarrow> (era', year', 1, 1))"
      using False by (simp add: next_day_def d s)
    note c = calendar_next[OF h(1)[unfolded d], folded n]
    have w: "day_of greg (next_day d) = hybrid_day d + 1" using c(2) h(2) by (simp add: d)
    have "hybrid_day d + 1 \<noteq> switch_day"
    proof
      assume e: "hybrid_day d + 1 = switch_day"
      have "hybrid_date (1, 1582, 10, 4)" "hybrid_day (1, 1582, 10, 4) = switch_day - 1"
        by (simp_all add: hybrid_date_def hybrid_day_def calendar_date_def gregorian_section_def
            month_length_def day_of_def march_year_def month_days_values year_days_def
            julian_days_alt switch_day_def)
      then show False using hybrid_day_inj[OF assms] e False by simp
    qed
    then have g: "greg \<longleftrightarrow> switch_day \<le> hybrid_day d + 1" by (auto simp: greg_def)
    show ?thesis
    proof (cases greg)
      case True
      then have "hybrid_date (next_day d) \<and> switch_day \<le> hybrid_day (next_day d)"
        using hybrid_date_iff(2)[of "next_day d"] c(1) w g by simp
      then show ?thesis using hybrid_section(2)[of "next_day d"] w True by simp
    next
      case False
      then have "hybrid_date (next_day d) \<and> hybrid_day (next_day d) < switch_day"
        using hybrid_date_iff(1)[of "next_day d"] c(1) w g by simp
      then show ?thesis using hybrid_section(2)[of "next_day d"] w False by (simp add: not_le)
    qed
  qed
  then show "hybrid_date (next_day d)" "hybrid_day (next_day d) = hybrid_day d + 1" by simp_all
qed

lemma midnight_interval:
  assumes "hybrid_date x"
  shows "timeIntervalFromUTCComponents (midnight_of x) = 86400 * real_of_int (hybrid_day x)"
  using hybrid_date_era[of "midnight_of x"] assms timeIntervalFromUTCComponents_day[of "midnight_of x"] by simp

lemma epoch_midnight: "timeIntervalFromUTCComponents (midnight_of (1, 2001, 1, 1)) = 0"
proof -
  have z: "hybrid_date (1, 2001, 1, 1)" "hybrid_day (1, 2001, 1, 1) = 0"
    by (simp_all add: hybrid_date_def hybrid_day_def calendar_date_def gregorian_section_def
        month_length_def day_of_def march_year_def month_days_values year_days_def gregorian_days_alt)
  show ?thesis using midnight_interval[OF z(1)] z(2) by simp
qed

text \<open>C24: From 1 January 2001 at time 0, each next day of the hybrid calendar, with the leap days of the Julian and Gregorian rules and 15 October 1582 after 4 October, is exactly 86400 seconds later and is read back as that date: the floating point formulas are the calendar.\<close>

theorem utc_days_follow_calendar:
  assumes "hybrid_date d"
  shows "hybrid_date (next_day d) \<and>
    timeIntervalFromUTCComponents (midnight_of (next_day d)) =
      timeIntervalFromUTCComponents (midnight_of d) + 86400 \<and>
    UTCComponentsFromTimeInterval (timeIntervalFromUTCComponents (midnight_of d) + 86400) =
      midnight_of (next_day d) \<and>
    timeIntervalFromUTCComponents (midnight_of (1, 2001, 1, 1)) = 0"
proof -
  note n = next_day_hybrid[OF assms]
  have s: "timeIntervalFromUTCComponents (midnight_of (next_day d)) =
      timeIntervalFromUTCComponents (midnight_of d) + 86400"
    using n assms by (simp add: midnight_interval)
  then show ?thesis
    using n(1) components_of_interval[of "midnight_of (next_day d)"] epoch_midnight by simp
qed

section \<open>The Gregorian calendar before the switch\<close>

lemma gregorianToHybrid_day:
  assumes "calendar_date True g"
  shows "hybrid_date (gregorianToHybrid g) \<and> hybrid_day (gregorianToHybrid g) = day_of True g"
proof -
  obtain era year month day where g: "g = (era, year, month, day)" by (cases g)
  show ?thesis
  proof (cases "gregorian_section era year month day")
    case True
    then show ?thesis
      using assms by (auto simp: g gregorianToHybrid_def hybrid_date_def hybrid_day_def gregorian_section_def)
  next
    case False
    then have n: "\<not> switch_day \<le> day_of True g"
      using gregorian_section_day assms by (simp add: g)
    obtain y m where ym: "march_year era year month = (y, m)" by force
    obtain z u where zu: "julian_year (day_of True g + 730793) = (z, u)" by force
    have f: "\<lfloor>1721118.5 + real_of_int (century_days (y div 100)) +
          real_of_int (36525 * (y - 100 * (y div 100)) div 100) +
          (real_of_int (month_days m) + real_of_int day) - 1721117.5\<rfloor> = day_of True g + 730793"
      unfolding minus_mult_div_eq_mod
      by (rule floor_unique) (simp_all add: g day_of_def ym year_days_def gregorian_days_def)
    have "gregorianToHybrid g = date_in_year z u"
      using False unfolding g gregorianToHybrid_def ym prod.case Let_def floor_quotients
      by (simp only: f[unfolded g] zu[unfolded g] prod.case if_False)
    moreover have "hybrid_date (date_in_year z u) \<and> hybrid_day (date_in_year z u) = day_of True g"
      using hybrid_day_of_year[of u "day_of True g" z] julian_year_ok[OF zu] n
      by (simp add: year_days_def)
    ultimately show ?thesis by simp
  qed
qed

lemma hybridToGregorian_day:
  assumes "hybrid_date h"
  shows "calendar_date True (hybridToGregorian h) \<and> day_of True (hybridToGregorian h) = hybrid_day h"
proof -
  obtain era year month day where h: "h = (era, year, month, day)" by (cases h)
  show ?thesis
  proof (cases "gregorian_section era year month day")
    case True
    then show ?thesis
      using assms by (simp add: h hybridToGregorian_def hybrid_date_def hybrid_day_def)
  next
    case False
    obtain y m where ym: "march_year era year month = (y, m)" by force
    obtain z u where zu: "gregorian_year floor (hybrid_day h + 730791) = (z, u)" by force
    have f: "\<lfloor>1721116.5 + real_of_int (julian_days y) +
          (real_of_int (month_days m) + real_of_int day) - 1721119.5\<rfloor> = hybrid_day h + 730791"
      using False by (intro floor_unique) (simp_all add: h hybrid_day_def day_of_def ym year_days_def)
    have "hybridToGregorian h = date_in_year z u"
      using False unfolding h hybridToGregorian_def ym prod.case Let_def floor_quotients
      by (simp only: f[unfolded h] zu[unfolded h] prod.case if_False)
    then show ?thesis
      using gregorian_year_ok[OF zu floor_quotients(7)] date_in_year_ok[of u True z]
      by (simp add: year_days_def)
  qed
qed

lemma gregorian_day_inj:
  assumes "calendar_date True d" "calendar_date True e" "day_of True d = day_of True e"
  shows "d = e"
proof -
  have "d = x" if "calendar_date True d" "gregorian_year floor (day_of True d + 730791) = (y, x0)"
    "x = date_in_year y x0" for d x y x0
  proof -
    obtain era year month day where d: "d = (era, year, month, day)" by (cases d)
    note t1 = that(1)[unfolded d]
    obtain z k where zk: "march_year era year month = (z, k)" "3 \<le> k" "k \<le> 14"
      "0 \<le> month_days k + day - 1" "month_days k + day - 1 < year_length True z"
      "date_in_year z (month_days k + day - 1) = (era, year, month, day)"
      using calendar_date_march[OF t1] by metis
    note g = gregorian_year_ok[OF that(2) floor_quotients(7)]
    have "z = y \<and> month_days k + day - 1 = x0"
      using g zk(1) by (intro year_bounds_unique[OF zk(4,5) g(1,2)]) (simp add: d day_of_def year_days_def)
    then show ?thesis using zk(6) that(3) d by simp
  qed
  then show ?thesis using assms by (metis surj_pair)
qed

text \<open>C26: The conversions between the proleptic Gregorian and the hybrid calendar keep the day and are inverse to each other on all valid dates.\<close>

theorem hybrid_gregorian_inverse:
  "(calendar_date True g \<longrightarrow> hybrid_date (gregorianToHybrid g) \<and>
     hybrid_day (gregorianToHybrid g) = day_of True g \<and> hybridToGregorian (gregorianToHybrid g) = g) \<and>
   (hybrid_date h \<longrightarrow> calendar_date True (hybridToGregorian h) \<and>
     day_of True (hybridToGregorian h) = hybrid_day h \<and> gregorianToHybrid (hybridToGregorian h) = h)"
  using gregorianToHybrid_day hybridToGregorian_day gregorian_day_inj hybrid_day_inj by metis

section \<open>Months and weekdays\<close>

lemma daysInMonth_calendar:
  assumes "era = 0 \<or> era = 1" "1 \<le> month" "month \<le> 12"
  shows "daysInMonth era year month =
    Some (month_length (leap (gregorian_section era year 2 1) (signed_year era year)) month)"
proof -
  have sec: "gregorian_section era year 3 1 = gregorian_section era year 2 1"
    by (auto simp: gregorian_section_def)
  have "round (real_of_int (day_of greg (era, year, 3, 1)) - real_of_int (day_of greg (era, year, 2, 1)))
      = month_length (leap greg (signed_year era year)) 2" for greg
    using month_end[of 2 greg era year] by (simp flip: of_int_diff)
  then have f: "daysInMonth era year 2 =
      Some (month_length (leap (gregorian_section era year 2 1) (signed_year era year)) 2)"
    using assms(1)
    by (simp add: daysInMonth_def timeIntervalFromUTCComponents_day cs_date_def cs_clock_def
        hybrid_day_def sec diff_divide_distrib)
  have "month = 1 \<or> month = 2 \<or> month = 3 \<or> month = 4 \<or> month = 5 \<or> month = 6 \<or> month = 7 \<or> month = 8 \<or>
      month = 9 \<or> month = 10 \<or> month = 11 \<or> month = 12"
    using assms(2,3) by presburger
  then show ?thesis
    using f by (elim disjE) (simp_all add: daysInMonth_def month_length_def)
qed

section \<open>The theorems at concrete dates\<close>

theorem utc_days_follow_calendar_witness:
  "hybrid_date (1, 1582, 10, 15) \<and>
   timeIntervalFromUTCComponents (midnight_of (1, 1582, 10, 15)) =
     timeIntervalFromUTCComponents (midnight_of (1, 1582, 10, 4)) + 86400"
  using utc_days_follow_calendar[of "(1, 1582, 10, 4)"]
  by (simp add: hybrid_date_def calendar_date_def gregorian_section_def month_length_def next_day_def)

theorem hybrid_gregorian_inverse_witness:
  "hybridToGregorian (gregorianToHybrid (1, 1582, 10, 14)) = (1, 1582, 10, 14) \<and>
   gregorianToHybrid (hybridToGregorian (0, 44, 3, 15)) = (0, 44, 3, 15)"
  using hybrid_gregorian_inverse[of "(1, 1582, 10, 14)" "(0, 44, 3, 15)"]
  by (simp add: hybrid_date_def calendar_date_def gregorian_section_def month_length_def)

end
