(* ===== verification/CNumbers.thy ===== *)
theory CNumbers
  imports Complex_Main CStrings
begin

text \<open>
  The part of \<open>math.h\<close>, \<open>printf\<close> and \<open>scanf\<close> that works on doubles, over exact reals: rounding,
  numbers printed with a fixed number of decimals, and the conversion \<open>%lf\<close>. A number that is
  printed is read back as the nearest number of its decimals. Infinities, NaN and hexadecimal
  numbers are not reals and have no reading here.
\<close>

section \<open>Rounding\<close>

text \<open>\<open>rint\<close>: to the nearest integer, a half to the even one.\<close>

definition rint :: "real \<Rightarrow> int" where
  "rint x = (let n = \<lfloor>x\<rfloor> in
     if x - real_of_int n < 1 / 2 then n
     else if x - real_of_int n > 1 / 2 then n + 1
     else if even n then n else n + 1)"

text \<open>\<open>round\<close>: to the nearest integer, a half away from zero.\<close>

definition c_round :: "real \<Rightarrow> int" where
  "c_round x = (if x < 0 then - \<lfloor>1 / 2 - x\<rfloor> else \<lfloor>x + 1 / 2\<rfloor>)"

lemma rint_of_int [simp]: "rint (real_of_int n) = n"
  by (simp add: rint_def)

lemma rint_nonneg: "0 \<le> x \<Longrightarrow> 0 \<le> rint x"
  by (simp add: rint_def Let_def)

lemma rint_nonpos: "x < 0 \<Longrightarrow> rint x \<le> 0"
  unfolding rint_def Let_def by (auto split: if_splits; linarith)

section \<open>Printing\<close>

text \<open>\<open>%.<k>f\<close>: the exact value rounded to \<open>k\<close> decimals, a tie to the even digit.\<close>

definition fmt_f :: "nat \<Rightarrow> real \<Rightarrow> string" where
  "fmt_f k x = (let n = nat \<bar>rint (x * 10 ^ k)\<bar>
     in (if x < 0 then ''-'' else '''') @ dec_str (n div 10 ^ k) @ ''.'' @ pad (CHR ''0'') k (dec_str (n mod 10 ^ k)))"

section \<open>Scanning\<close>

definition skip_white :: "string \<Rightarrow> string" where
  "skip_white s = dropWhile c_isspace s"

definition scan_sign :: "string \<Rightarrow> bool \<times> string" where
  "scan_sign s = (case s of [] \<Rightarrow> (False, [])
     | c # s' \<Rightarrow> if c = CHR ''-'' then (True, s') else if c = CHR ''+'' then (False, s') else (False, s))"

definition scan_digits :: "string \<Rightarrow> string \<times> string" where
  "scan_digits s = (takeWhile c_isdigit s, dropWhile c_isdigit s)"

text \<open>An exponent that breaks off makes the whole number fail to match.\<close>

definition scan_exponent :: "string \<Rightarrow> (int \<times> string) option" where
  "scan_exponent s = (case s of [] \<Rightarrow> Some (0, [])
     | c # s' \<Rightarrow> if c = CHR ''e'' \<or> c = CHR ''E''
         then let (minus, s1) = scan_sign s'; (ds, s2) = scan_digits s1
              in if ds = [] then None else Some (if minus then - int (dec_val ds) else int (dec_val ds), s2)
         else Some (0, s))"

definition scan_fraction :: "string \<Rightarrow> string \<times> string" where
  "scan_fraction s = (case s of [] \<Rightarrow> ([], [])
     | c # s' \<Rightarrow> if c = CHR ''.'' then scan_digits s' else ([], s))"

definition scan_lf :: "string \<Rightarrow> (real \<times> string) option" where
  "scan_lf s =
     (let (minus, s1) = scan_sign s; (ip, s2) = scan_digits s1; (fp, s3) = scan_fraction s2
      in if ip @ fp = [] then None
         else case scan_exponent s3 of None \<Rightarrow> None
         | Some (e, s4) \<Rightarrow>
             let x = real (dec_val (ip @ fp)) / 10 ^ length fp;
                 y = (if e < 0 then x / 10 ^ nat (- e) else x * 10 ^ nat e)
             in Some (if minus then - y else y, s4))"

section \<open>Laws\<close>

lemma skip_white_length: "length (skip_white s) \<le> length s"
  by (simp add: skip_white_def length_dropWhile_le)

lemma skip_white_simps [simp]:
  "skip_white [] = []"
  "skip_white (c # s) = (if c_isspace c then skip_white s else c # s)"
  by (simp_all add: skip_white_def)

lemma dec_val_zeros [simp]: "dec_val (replicate m (CHR ''0'') @ s) = dec_val s"
  by (induction m) (simp_all add: dec_val_Cons digit_val_def)

lemma scan_digits_append:
  assumes "\<forall>c\<in>set ds. c_isdigit c" and "r = [] \<or> \<not> c_isdigit (hd r)"
  shows "scan_digits (ds @ r) = (ds, r)"
proof -
  have "takeWhile c_isdigit r = []" "dropWhile c_isdigit r = r" using assms(2) by (cases r; auto)+
  then show ?thesis using assms(1) by (simp add: scan_digits_def)
qed

lemma scan_sign_length: "scan_sign s = (m, r) \<Longrightarrow> length r \<le> length s"
  by (auto simp: scan_sign_def split: list.splits if_splits)

lemma scan_digits_length: "scan_digits s = (ds, r) \<Longrightarrow> length ds + length r = length s"
  by (auto simp: scan_digits_def simp flip: length_append)

lemma scan_fraction_length: "scan_fraction s = (ds, r) \<Longrightarrow> length ds + length r \<le> length s"
  by (auto simp: scan_fraction_def dest: scan_digits_length split: list.splits if_splits)

lemma scan_exponent_length: "scan_exponent s = Some (e, r) \<Longrightarrow> length r \<le> length s"
  by (auto simp: scan_exponent_def Let_def dest!: scan_digits_length scan_sign_length split: list.splits if_splits prod.splits)

lemma scan_lf_length:
  assumes "scan_lf s = Some (x, r)" shows "length r < length s"
proof -
  obtain m s1 ip s2 fp s3 where s: "scan_sign s = (m, s1)" "scan_digits s1 = (ip, s2)" "scan_fraction s2 = (fp, s3)"
    by fastforce
  then obtain e where e: "ip @ fp \<noteq> []" "scan_exponent s3 = Some (e, r)"
    using assms by (auto simp: scan_lf_def Let_def split: if_splits option.splits prod.splits)
  have "0 < length ip + length fp" using e(1) by (cases ip; cases fp) auto
  then show ?thesis
    using scan_sign_length[OF s(1)] scan_digits_length[OF s(2)] scan_fraction_length[OF s(3)] scan_exponent_length[OF e(2)]
    by linarith
qed

lemma fmt_f_first: "\<exists>c s. fmt_f k x = c # s \<and> \<not> c_isspace c"
proof -
  obtain c s where c: "dec_str (nat \<bar>rint (x * 10 ^ k)\<bar> div 10 ^ k) = c # s"
    by (meson dec_str_not_Nil neq_Nil_conv)
  then have "c_isdigit c" using dec_str_digits by (metis list.set_intros(1))
  then have "\<not> c_isspace c" by (rule digit_not_space)
  with c show ?thesis by (auto simp: fmt_f_def Let_def c_isspace_def)
qed

lemma fmt_f_not_Nil [simp]: "fmt_f k x \<noteq> []"
  using fmt_f_first[of k x] by auto

lemma digit_ne_sign: "c_isdigit c \<Longrightarrow> c \<noteq> CHR ''-'' \<and> c \<noteq> CHR ''+''"
  by (auto simp: c_isdigit_def)

text \<open>A number that was printed is read as the nearest one of its decimals, up to what follows it.\<close>

lemma scan_lf_fmt_f:
  assumes "r = [] \<or> (\<not> c_isdigit (hd r) \<and> hd r \<noteq> CHR ''e'' \<and> hd r \<noteq> CHR ''E'')" and "0 < k"
  shows "scan_lf (fmt_f k x @ r) = Some (real_of_int (rint (x * 10 ^ k)) / 10 ^ k, r)"
proof -
  define n where "n = nat \<bar>rint (x * 10 ^ k)\<bar>"
  define ip where "ip = dec_str (n div 10 ^ k)"
  define fp where "fp = pad (CHR ''0'') k (dec_str (n mod 10 ^ k))"
  have ip: "\<forall>c\<in>set ip. c_isdigit c" "ip \<noteq> []" by (auto simp: ip_def dec_str_digits)
  have fp: "\<forall>c\<in>set fp. c_isdigit c"
    by (auto simp: fp_def pad_def dec_str_digits) (simp add: c_isdigit_def)
  have len: "length fp = k" using assms(2) dec_str_length[of "n mod 10 ^ k" k] by (simp add: fp_def pad_length)
  have val: "dec_val (ip @ fp) = n"
    using len by (simp add: dec_val_append ip_def) (simp add: fp_def pad_def div_mult_mod_eq)
  have s: "fmt_f k x @ r = (if x < 0 then ''-'' else '''') @ ip @ ''.'' @ fp @ r"
    by (simp add: fmt_f_def Let_def n_def ip_def fp_def)
  obtain c t where ct: "ip = c # t" using ip(2) by (cases ip) auto
  have sg: "scan_sign (fmt_f k x @ r) = (x < 0, ip @ ''.'' @ fp @ r)"
    unfolding s using digit_ne_sign[of c] ip(1) by (auto simp: scan_sign_def ct)
  have d: "scan_digits (ip @ ''.'' @ fp @ r) = (ip, ''.'' @ fp @ r)"
    by (rule scan_digits_append) (use ip in \<open>simp_all add: c_isdigit_def\<close>)
  have f: "scan_fraction (''.'' @ fp @ r) = (fp, r)"
    using scan_digits_append[OF fp, of r] assms(1) by (auto simp: scan_fraction_def)
  have e: "scan_exponent r = Some (0, r)" using assms(1) by (cases r) (auto simp: scan_exponent_def)
  have "x < 0 \<Longrightarrow> x * 10 ^ k < 0" "\<not> x < 0 \<Longrightarrow> 0 \<le> x * 10 ^ k" by (simp_all add: mult_neg_pos)
  then have v: "real_of_int (rint (x * 10 ^ k)) = (if x < 0 then - real n else real n)"
    using rint_nonneg[of "x * 10 ^ k"] rint_nonpos[of "x * 10 ^ k"] by (simp add: n_def)
  show ?thesis
    unfolding scan_lf_def sg d f Let_def prod.case e option.case val len v using ip(2) by simp
qed

end
