(* ===== verification/EsLocalTime.thy ===== *)
theory EsLocalTime
  imports EsCalendar CNumbers "HOL-Library.Signed_Division"
begin

text \<open>
  Local time: the functions of src/ESCalendar.cpp that take a time zone, and the time zone
  objects of src/ESCalendar_simpleTZ.cpp.

  What a time zone answers (\<open>ESTimeZoneImplementation\<close>, which asks the operating system) is a
  record of functions: every theorem holds for all zones that satisfy its hypotheses. The time
  zone objects live in a store, because they are counted by reference and freed.
\<close>

section \<open>Time zones\<close>

record ESTimeZoneImplementation =
  offsetFromUTCForTime :: "ESTimeInterval \<Rightarrow> ESTimeInterval"
  isDSTAtTime :: "ESTimeInterval \<Rightarrow> bool"
  nextDSTChangeAfterTime :: "ESTimeInterval \<Rightarrow> ESTimeInterval"
  impl_name :: string

record ESTimeZone =
  tz_impl :: ESTimeZoneImplementation
  refCount :: int

type_synonym tz_store = "nat \<rightharpoonup> ESTimeZone"

text \<open>\<open>new_tz\<close> is the address that \<open>malloc\<close> returns; it is not in use.\<close>

definition initTimeZoneFromOlsonID ::
  "nat \<Rightarrow> ESTimeZoneImplementation \<Rightarrow> tz_store \<Rightarrow> (nat \<times> tz_store) option" where
  "initTimeZoneFromOlsonID new_tz impl h =
     (if new_tz \<in> dom h then None else Some (new_tz, h(new_tz \<mapsto> \<lparr>tz_impl = impl, refCount = 1\<rparr>)))"

definition freeTimeZone :: "nat \<Rightarrow> tz_store \<Rightarrow> tz_store option" where
  "freeTimeZone p h = do {
     z \<leftarrow> h p;
     ESAssert (refCount z = 0);
     Some (h(p := None))
   }"

definition retainTimeZone :: "nat \<Rightarrow> tz_store \<Rightarrow> tz_store option" where
  "retainTimeZone p h = do {
     z \<leftarrow> h p;
     ESAssert (refCount z > 0);
     Some (h(p \<mapsto> z\<lparr>refCount := refCount z + 1\<rparr>))
   }"

definition releaseTimeZone :: "bool \<Rightarrow> nat \<Rightarrow> tz_store \<Rightarrow> tz_store option" where
  "releaseTimeZone assertOnRelease p h = do {
     ESAssert (\<not> assertOnRelease);
     z \<leftarrow> h p;
     ESAssert (refCount z > 0);
     let h = h(p \<mapsto> z\<lparr>refCount := refCount z - 1\<rparr>) in
     if refCount z - 1 = 0 then freeTimeZone p h else Some h
   }"

definition localTimeZoneChanged ::
  "bool \<Rightarrow> nat \<Rightarrow> ESTimeZoneImplementation \<Rightarrow> nat option \<Rightarrow> tz_store \<Rightarrow>
     (nat option \<times> tz_store) option" where
  "localTimeZoneChanged assertOnRelease new_tz impl localTimeZone h = do {
     p \<leftarrow> localTimeZone;
     h \<leftarrow> releaseTimeZone assertOnRelease p h;
     (q, h) \<leftarrow> initTimeZoneFromOlsonID new_tz impl h;
     Some (Some q, h)
   }"

text \<open>The zone is a null pointer or an object.\<close>

definition tzOffsetForTimeInterval :: "ESTimeZoneImplementation option \<Rightarrow> ESTimeInterval \<Rightarrow> ESTimeInterval" where
  "tzOffsetForTimeInterval estz dt =
     (case estz of None \<Rightarrow> 0 | Some z \<Rightarrow> offsetFromUTCForTime z dt)"

definition isDSTAtTimeInterval :: "ESTimeZoneImplementation \<Rightarrow> ESTimeInterval \<Rightarrow> bool" where
  "isDSTAtTimeInterval estz timeInterval = isDSTAtTime estz timeInterval"

definition nextDSTChangeAfterTimeInterval :: "ESTimeZoneImplementation \<Rightarrow> ESTimeInterval \<Rightarrow> ESTimeInterval" where
  "nextDSTChangeAfterTimeInterval estz fromDateInterval = nextDSTChangeAfterTime estz fromDateInterval"

section \<open>Local dates\<close>

definition localComponentsFromTimeInterval ::
  "ESTimeInterval \<Rightarrow> ESTimeZoneImplementation \<Rightarrow> ESDateComponents" where
  "localComponentsFromTimeInterval timeInterval timeZone =
     UTCComponentsFromTimeInterval (timeInterval + offsetFromUTCForTime timeZone timeInterval)"

definition timeIntervalFromLocalComponents ::
  "ESTimeZoneImplementation \<Rightarrow> ESDateComponents \<Rightarrow> ESTimeInterval" where
  "timeIntervalFromLocalComponents timeZone cs =
     (let localT = timeIntervalFromUTCComponents cs;
          offsetAtLocalT = offsetFromUTCForTime timeZone localT;
          tryUTC = localT - offsetAtLocalT;
          offsetAtTryUTC = offsetFromUTCForTime timeZone tryUTC
      in if offsetAtTryUTC = offsetAtLocalT then tryUTC else localT - offsetAtTryUTC)"

definition localWeekdayFromTimeInterval ::
  "(real \<Rightarrow> real \<Rightarrow> real) \<Rightarrow> ESTimeInterval \<Rightarrow> ESTimeZoneImplementation \<Rightarrow> int" where
  "localWeekdayFromTimeInterval es_fmod timeInterval timeZone =
     (let localNow = timeInterval + tzOffsetForTimeInterval (Some timeZone) timeInterval;
          localNowDays = localNow / (24 * 3600);
          weekday = es_fmod (localNowDays + 1) 7
      in \<lfloor>weekday\<rfloor>)"

definition daysInYear :: "ESTimeZoneImplementation \<Rightarrow> ESTimeInterval \<Rightarrow> int" where
  "daysInYear estz forTime =
     (let cs = localComponentsFromTimeInterval forTime estz;
          cs = cs\<lparr>dc_day := 1, dc_month := 1, dc_hour := 0, dc_minute := 0, dc_seconds := 0\<rparr>;
          d1 = timeIntervalFromLocalComponents estz cs;
          cs = cs\<lparr>dc_day := 31, dc_month := 12, dc_hour := 23, dc_minute := 23, dc_seconds := 59\<rparr>;
          d2 = timeIntervalFromLocalComponents estz cs
      in rint ((d2 - d1) / (3600 * 24)))"

definition clock_seconds :: "ESDateComponents \<Rightarrow> real" where
  "clock_seconds cs = real_of_int (dc_hour cs * 3600 + dc_minute cs * 60) + dc_seconds cs"

definition addDaysToTimeInterval ::
  "ESTimeInterval \<Rightarrow> ESTimeZoneImplementation \<Rightarrow> int \<Rightarrow> ESTimeInterval" where
  "addDaysToTimeInterval now estz days =
     (let timeSinceMidnightNow = clock_seconds (localComponentsFromTimeInterval now estz);
          thn = now + real_of_int days * 86400;
          timeSinceMidnightThen = clock_seconds (localComponentsFromTimeInterval thn estz);
          deltaError = timeSinceMidnightThen - timeSinceMidnightNow
      in if \<bar>deltaError\<bar> < 0.001 then thn
         else let deltaError =
                (if deltaError > 0
                 then if deltaError > 12 * 3600 then deltaError - 24 * 3600 else deltaError
                 else if deltaError < - 12 * 3600 then deltaError + 24 * 3600 else deltaError)
              in thn - deltaError)"

definition era_and_year :: "int \<Rightarrow> int \<times> int" where
  "era_and_year signedYear = (if signedYear \<le> 0 then (0, 1 - signedYear) else (1, signedYear))"

definition addMonthsToTimeInterval ::
  "ESTimeInterval \<Rightarrow> ESTimeZoneImplementation \<Rightarrow> int \<Rightarrow> ESTimeInterval option" where
  "addMonthsToTimeInterval now estz months =
     (let cs = localComponentsFromTimeInterval now estz;
          signedYearNow = (if dc_era cs = 0 then 1 - dc_year cs else dc_year cs);
          zeroMonthNow = dc_month cs - 1;
          yearMonthThen = real_of_int signedYearNow + real_of_int (zeroMonthNow + months) / 12;
          signedYearThen = \<lfloor>yearMonthThen\<rfloor>;
          zeroMonthThen = rint ((yearMonthThen - real_of_int signedYearThen) * 12);
          monthThen = zeroMonthThen + 1;
          (eraThen, yearThen) = era_and_year signedYearThen
      in do {
        daysInMonthThen \<leftarrow> daysInMonth eraThen yearThen monthThen;
        let dayThen = (if dc_day cs > daysInMonthThen then daysInMonthThen else dc_day cs);
        Some (timeIntervalFromLocalComponents estz
          (cs\<lparr>dc_era := eraThen, dc_year := yearThen, dc_month := monthThen, dc_day := dayThen\<rparr>))
      })"

definition addYearsToTimeInterval ::
  "ESTimeInterval \<Rightarrow> ESTimeZoneImplementation \<Rightarrow> int \<Rightarrow> ESTimeInterval" where
  "addYearsToTimeInterval now estz years =
     (let cs = localComponentsFromTimeInterval now estz;
          signedYearNow = (if dc_era cs = 0 then 1 - dc_year cs else dc_year cs);
          signedYearThen = signedYearNow + years;
          (eraThen, yearThen) = era_and_year signedYearThen
      in timeIntervalFromLocalComponents estz (cs\<lparr>dc_era := eraThen, dc_year := yearThen\<rparr>))"

section \<open>The search for the next change of daylight saving time\<close>

text \<open>\<open>n\<close> is the number of rounds that are left before the count exceeds 100.\<close>

fun binarySearch_loop ::
  "nat \<Rightarrow> ESTimeZoneImplementation \<Rightarrow> bool \<Rightarrow> ESTimeInterval \<Rightarrow> ESTimeInterval \<Rightarrow> int \<Rightarrow> int \<Rightarrow>
     int option" where
  "binarySearch_loop 0 estz isDSTNow now by lo hi = None"
| "binarySearch_loop (Suc n) estz isDSTNow now by lo hi =
     (if lo = hi then None
      else let tryIndex = (lo + hi + 1) sdiv 2 in
        if tryIndex = hi then do {
          ESAssert (tryIndex \<noteq> lo);
          Some hi
        } else do {
          ESAssert (tryIndex \<ge> lo);
          ESAssert (tryIndex \<le> hi);
          let tryInterval = now + real_of_int tryIndex * by;
          let isDSTThen = isDSTAtTimeInterval estz tryInterval;
          let (lo, hi) = (if isDSTThen = isDSTNow then (tryIndex, hi) else (lo, tryIndex));
          ESAssert (isDSTNow = isDSTAtTimeInterval estz (now + by * real_of_int lo));
          ESAssert (isDSTNow \<noteq> isDSTAtTimeInterval estz (now + by * real_of_int hi));
          binarySearch_loop n estz isDSTNow now by lo hi
        })"

definition binarySearch ::
  "ESTimeZoneImplementation \<Rightarrow> bool \<Rightarrow> ESTimeInterval \<Rightarrow> ESTimeInterval \<Rightarrow> int \<Rightarrow> int \<Rightarrow>
     int option" where
  "binarySearch estz isDSTNow now searchByInterval knownLikeNowIndex knownLikeThenIndex = do {
     ESAssert (knownLikeNowIndex < knownLikeThenIndex);
     ESAssert (isDSTNow = isDSTAtTimeInterval estz (now + searchByInterval * real_of_int knownLikeNowIndex));
     ESAssert (isDSTNow \<noteq> isDSTAtTimeInterval estz (now + searchByInterval * real_of_int knownLikeThenIndex));
     binarySearch_loop 100 estz isDSTNow now searchByInterval knownLikeNowIndex knownLikeThenIndex
   }"

definition tryAtInterval :: "ESTimeZoneImplementation \<Rightarrow> ESTimeInterval \<Rightarrow> bool" where
  "tryAtInterval estz timeInterval \<longleftrightarrow>
     isDSTAtTimeInterval estz (timeInterval + 1) \<noteq> isDSTAtTimeInterval estz (timeInterval - 1)"

definition ONE_DAY :: ESTimeInterval where
  "ONE_DAY = 60 * 60 * 24"

text \<open>The first of the periods 1 to 8 of 60 days at whose end \<open>isDST\<close> has changed.\<close>

definition first_period :: "ESTimeZoneImplementation \<Rightarrow> bool \<Rightarrow> ESTimeInterval \<Rightarrow> int option" where
  "first_period estz isDSTNow timeInterval =
     find (\<lambda>period. isDSTAtTimeInterval estz (timeInterval + real_of_int (period * 60) * ONE_DAY) \<noteq> isDSTNow)
       [1..8]"

definition just_after_midnight :: "ESTimeZoneImplementation \<Rightarrow> ESTimeInterval \<Rightarrow> ESTimeInterval" where
  "just_after_midnight estz t =
     timeIntervalFromLocalComponents estz
       ((localComponentsFromTimeInterval t estz)\<lparr>dc_hour := 0, dc_minute := 0, dc_seconds := 1\<rparr>)"

text \<open>
  The loop that backs up to a day that begins before the change: \<open>Inl\<close> is a change found
  at a midnight, \<open>Inr\<close> the second after a midnight before the change.
\<close>

fun back_up ::
  "nat \<Rightarrow> ESTimeZoneImplementation \<Rightarrow> bool \<Rightarrow> ESTimeInterval \<Rightarrow> (ESTimeInterval + ESTimeInterval) option" where
  "back_up r estz isDSTNow justAfter =
     (if isDSTAtTimeInterval estz justAfter = isDSTNow then Some (Inr justAfter)
      else let justBefore = justAfter - 2 in
        if isDSTAtTimeInterval estz justBefore \<noteq> isDSTAtTimeInterval estz justAfter
        then Some (Inl (justBefore + 1))
        else case r of 0 \<Rightarrow> None
          | Suc r' \<Rightarrow> back_up r' estz isDSTNow (just_after_midnight estz justBefore))"

declare back_up.simps [simp del]

text \<open>The offsets from midnight that are tried, in their order.\<close>

definition search_offsets :: "int list" where
  "search_offsets =
     [2 * 60 * 60]
     @ map (\<lambda>i. i * 60 * 60) (filter (\<lambda>i. i \<noteq> 2) [1..24])
     @ concat (map (\<lambda>i. [i * 60 * 60 + 30 * 60, i * 60 * 60 + 15 * 60, i * 60 * 60 + 45 * 60]) [0..24])
     @ concat (map (\<lambda>h. map (\<lambda>m. h * 60 * 60 + m * 60) (filter (\<lambda>m. m \<noteq> 30) [1..59])) [0..24])"

definition nextDSTChangeTheSlowWay :: "ESTimeZoneImplementation \<Rightarrow> ESTimeInterval \<Rightarrow> ESTimeInterval option" where
  "nextDSTChangeTheSlowWay estz timeInterval =
     (let isDSTNow = isDSTAtTimeInterval estz timeInterval in
      case first_period estz isDSTNow timeInterval of None \<Rightarrow> Some 0
      | Some period \<Rightarrow> do {
          firstChangedDayIndex \<leftarrow> binarySearch estz isDSTNow timeInterval ONE_DAY ((period - 1) * 60) (period * 60);
          let changedDay = timeInterval + real_of_int firstChangedDayIndex * ONE_DAY;
          found \<leftarrow> back_up 2 estz isDSTNow (just_after_midnight estz changedDay);
          case found of Inl t \<Rightarrow> Some t
          | Inr justAfter \<Rightarrow>
              let midnightOnChangedDay = justAfter - 1
              in find (tryAtInterval estz) (map (\<lambda>d. midnightOnChangedDay + real_of_int d) search_offsets)
        })"

text \<open>The offset after the next change, by steps of 60 days (src/ESCalendar_android.cpp).\<close>

fun offset_steps :: "ESTimeZoneImplementation \<Rightarrow> ESTimeInterval \<Rightarrow> ESTimeInterval \<Rightarrow> ESTimeInterval \<Rightarrow>
  int list \<Rightarrow> ESTimeInterval" where
  "offset_steps estz timeInterval tzOffsetNow tzOffsetThen [] = tzOffsetThen"
| "offset_steps estz timeInterval tzOffsetNow tzOffsetThen (bimonth # bs) =
     (let tryInterval = timeInterval + real_of_int (bimonth * (60 * 60 * 24 * 30 * 2));
          tzOffsetThen = tzOffsetForTimeInterval (Some estz) tryInterval
      in if tzOffsetThen \<noteq> tzOffsetNow then tzOffsetThen
         else offset_steps estz timeInterval tzOffsetNow tzOffsetThen bs)"

definition tzOffsetAfterNextDSTChange :: "ESTimeZoneImplementation \<Rightarrow> ESTimeInterval \<Rightarrow> ESTimeInterval" where
  "tzOffsetAfterNextDSTChange estz timeInterval =
     (let tzOffsetNow = tzOffsetForTimeInterval (Some estz) timeInterval
      in offset_steps estz timeInterval tzOffsetNow tzOffsetNow [0..17])"

section \<open>Zones with one change\<close>

definition one_change ::
  "ESTimeZoneImplementation \<Rightarrow> real \<Rightarrow> real \<Rightarrow> real \<Rightarrow> real \<Rightarrow> real \<Rightarrow> bool" where
  "one_change z T a b lo hi \<longleftrightarrow>
     (\<forall>x. lo \<le> x \<longrightarrow> x \<le> hi \<longrightarrow> offsetFromUTCForTime z x = (if x < T then a else b)) \<and>
     \<bar>a\<bar> \<le> 86400 \<and> \<bar>b\<bar> \<le> 86400"

lemma one_change_offset:
  "one_change z T a b lo hi \<Longrightarrow> lo \<le> x \<Longrightarrow> x \<le> hi \<Longrightarrow>
     offsetFromUTCForTime z x = (if x < T then a else b)"
  by (simp add: one_change_def)

lemma one_change_bounds:
  assumes "one_change z T a b lo hi"
  shows "- 86400 \<le> a" "a \<le> 86400" "- 86400 \<le> b" "b \<le> 86400"
  using assms by (auto simp: one_change_def)

text \<open>The time of a local reading \<open>L\<close>, when the zone has one change.\<close>

lemma local_interval_one_change:
  assumes z: "one_change z T a b lo hi" and L: "timeIntervalFromUTCComponents cs = L"
    and r: "lo + 172800 \<le> L" "L \<le> hi - 172800"
  defines "t \<equiv> timeIntervalFromLocalComponents z cs"
  shows "t = L - a \<or> t = L - b"
    "L < T + a \<or> T + b \<le> L \<Longrightarrow> t + offsetFromUTCForTime z t = L"
    "L < T + a \<Longrightarrow> L < T + b \<Longrightarrow> t = L - a"
    "T + a \<le> L \<Longrightarrow> T + b \<le> L \<Longrightarrow> t = L - b"
    "L < T \<Longrightarrow> L < T + a \<Longrightarrow> T + b \<le> L \<Longrightarrow> t = L - a"
    "T \<le> L \<Longrightarrow> L < T + a \<Longrightarrow> T + b \<le> L \<Longrightarrow> t = L - b"
proof -
  note bd = one_change_bounds[OF z]
  have o: "offsetFromUTCForTime z L = (if L < T then a else b)"
    "offsetFromUTCForTime z (L - a) = (if L - a < T then a else b)"
    "offsetFromUTCForTime z (L - b) = (if L - b < T then a else b)"
    by (rule one_change_offset[OF z]; use r bd in linarith)+
  have t: "t = (if L < T then if L - a < T then L - a else L - b
      else if L - b < T then L - a else L - b)"
    by (auto simp: t_def timeIntervalFromLocalComponents_def L o Let_def)
  show "t = L - a \<or> t = L - b" by (simp add: t)
  show "L < T + a \<or> T + b \<le> L \<Longrightarrow> t + offsetFromUTCForTime z t = L"
    by (auto simp: t o)
  show "L < T + a \<Longrightarrow> L < T + b \<Longrightarrow> t = L - a" "T + a \<le> L \<Longrightarrow> T + b \<le> L \<Longrightarrow> t = L - b"
    "L < T \<Longrightarrow> L < T + a \<Longrightarrow> T + b \<le> L \<Longrightarrow> t = L - a"
    "T \<le> L \<Longrightarrow> L < T + a \<Longrightarrow> T + b \<le> L \<Longrightarrow> t = L - b"
    by (auto simp: t)
qed

text \<open>C27: In a zone with at most one change near a time, its local date is converted back to a time with the same local date; it is the same time except in the hour that is repeated, where zones west of Greenwich give the first of the two times and zones east the second.\<close>

theorem local_round_trip:
  assumes "one_change z T a b (t - 345600) (t + 345600)"
  defines "L \<equiv> t + offsetFromUTCForTime z t"
  defines "r \<equiv> timeIntervalFromLocalComponents z (localComponentsFromTimeInterval t z)"
  shows "localComponentsFromTimeInterval r z = localComponentsFromTimeInterval t z \<and>
    (r = t \<or> (T + b \<le> L \<and> L < T + a)) \<and>
    (T + b \<le> L \<and> L < T + a \<longrightarrow> (a \<le> 0 \<longrightarrow> r = L - a) \<and> (0 \<le> b \<longrightarrow> r = L - b))"
proof -
  note z = assms(1)
  note bd = one_change_bounds[OF z]
  have o: "offsetFromUTCForTime z t = (if t < T then a else b)"
    by (rule one_change_offset[OF z]) simp_all
  have l: "timeIntervalFromUTCComponents (localComponentsFromTimeInterval t z) = L"
    by (simp add: localComponentsFromTimeInterval_def interval_of_components L_def)
  have rg: "t - 345600 + 172800 \<le> L" "L \<le> t + 345600 - 172800"
    using bd o by (auto simp: L_def)
  note k = local_interval_one_change[OF z l rg, folded r_def]
  have e: "L < T + a \<or> T + b \<le> L" using o by (auto simp: L_def)
  have "r + offsetFromUTCForTime z r = L" by (rule k(2)[OF e])
  then have 1: "localComponentsFromTimeInterval r z = localComponentsFromTimeInterval t z"
    by (simp add: localComponentsFromTimeInterval_def L_def)
  have 2: "r = t" if n: "\<not> (T + b \<le> L \<and> L < T + a)"
  proof (cases "t < T")
    case True
    then have "L = t + a" using o by (simp add: L_def)
    then show ?thesis using k(3) n True by simp
  next
    case False
    then have "L = t + b" using o by (simp add: L_def)
    then show ?thesis using k(4) n False by simp
  qed
  have 3: "r = L - a" if "T + b \<le> L" "L < T + a" "a \<le> 0" using k(5) that by simp
  have 4: "r = L - b" if "T + b \<le> L" "L < T + a" "0 \<le> b" using k(6) that by simp
  show ?thesis using 1 2 3 4 by blast
qed

section \<open>Adding days, months and years\<close>

lemma clock_seconds_clock: "clock_seconds cs = cs_clock cs"
  by (simp add: clock_seconds_def cs_clock_def)

lemma local_date:
  fixes z t
  defines "y \<equiv> t + offsetFromUTCForTime z t"
  shows "hybrid_date (cs_date (localComponentsFromTimeInterval t z))"
    "hybrid_day (cs_date (localComponentsFromTimeInterval t z)) = \<lfloor>y / 86400\<rfloor>"
    "cs_clock_ok (localComponentsFromTimeInterval t z)"
    "cs_clock (localComponentsFromTimeInterval t z) = y - 86400 * real_of_int \<lfloor>y / 86400\<rfloor>"
  unfolding y_def localComponentsFromTimeInterval_def by (rule UTCComponentsFromTimeInterval_day)+

text \<open>A change of the reading of less than half a day is told from the passing of midnight.\<close>

lemma clock_change:
  fixes y e :: real and d :: int
  assumes "\<bar>e\<bar> < 43200" "e = 0 \<or> 0.001 \<le> \<bar>e\<bar>"
  defines "delta \<equiv> (y + real_of_int d * 86400 + e - 86400 * real_of_int \<lfloor>(y + real_of_int d * 86400 + e) / 86400\<rfloor>)
      - (y - 86400 * real_of_int \<lfloor>y / 86400\<rfloor>)"
  shows "(if \<bar>delta\<bar> < 0.001 then 0
    else if delta > 0 then if delta > 43200 then delta - 86400 else delta
    else if delta < - 43200 then delta + 86400 else delta) = e"
proof -
  let ?w = "y / 86400 + e / 86400"
  have f: "(y + real_of_int d * 86400 + e) / 86400 = ?w + real_of_int d" by simp
  have g: "\<lfloor>(y + real_of_int d * 86400 + e) / 86400\<rfloor> = \<lfloor>?w\<rfloor> + d" unfolding f by simp
  define k where "k = \<lfloor>?w\<rfloor> - \<lfloor>y / 86400\<rfloor>"
  have delta: "delta = e - 86400 * real_of_int k"
    unfolding delta_def g k_def by (simp add: algebra_simps)
  have "\<bar>e / 86400\<bar> < 1" using assms(1) by simp
  then have "real_of_int k < 2" "- 2 < real_of_int k"
    using assms(1) unfolding k_def by linarith+
  then have "k = - 1 \<or> k = 0 \<or> k = 1" by linarith
  moreover have "k \<noteq> 0 \<Longrightarrow> e \<noteq> 0" by (auto simp: k_def)
  moreover have "k = 1 \<Longrightarrow> 0 < e" "k = - 1 \<Longrightarrow> e < 0"
  proof -
    show "0 < e" if "k = 1"
    proof (rule ccontr)
      assume "\<not> 0 < e"
      then have "\<lfloor>?w\<rfloor> \<le> \<lfloor>y / 86400\<rfloor>" by (intro floor_mono) simp
      then show False using that by (simp add: k_def)
    qed
    show "e < 0" if "k = - 1"
    proof (rule ccontr)
      assume "\<not> e < 0"
      then have "\<lfloor>y / 86400\<rfloor> \<le> \<lfloor>?w\<rfloor>" by (intro floor_mono) simp
      then show False using that by (simp add: k_def)
    qed
  qed
  ultimately show ?thesis
    using assms(1,2) unfolding delta by (elim disjE) (auto simp: abs_if split: if_splits)
qed

theorem addDays_keeps_clock:
  fixes z now d
  defines "thn \<equiv> now + real_of_int d * 86400"
  defines "e \<equiv> offsetFromUTCForTime z thn - offsetFromUTCForTime z now"
  defines "r \<equiv> addDaysToTimeInterval now z d"
  assumes "\<bar>e\<bar> < 43200" "e = 0 \<or> 0.001 \<le> \<bar>e\<bar>"
  shows "r = thn - e \<and>
    (offsetFromUTCForTime z r = offsetFromUTCForTime z thn \<longrightarrow>
      cs_clock (localComponentsFromTimeInterval r z) = cs_clock (localComponentsFromTimeInterval now z) \<and>
      hybrid_day (cs_date (localComponentsFromTimeInterval r z)) =
        hybrid_day (cs_date (localComponentsFromTimeInterval now z)) + d)"
proof -
  let ?a = "offsetFromUTCForTime z now"
  have b: "thn + offsetFromUTCForTime z thn = now + ?a + real_of_int d * 86400 + e"
    by (simp add: e_def thn_def)
  have "r = thn - e"
    unfolding r_def addDaysToTimeInterval_def Let_def clock_seconds_clock local_date(4)
      thn_def[symmetric] b
    using clock_change[OF assms(4,5), of "now + ?a" d] by (auto split: if_splits)
  moreover have "(thn - e + offsetFromUTCForTime z thn) = now + ?a + real_of_int d * 86400"
    using b by simp
  moreover have "\<lfloor>(now + ?a + real_of_int d * 86400) / 86400\<rfloor> = \<lfloor>(now + ?a) / 86400\<rfloor> + d"
    by (simp add: add_divide_distrib)
  ultimately show ?thesis
    by (auto simp: local_date)
qed

definition fixed_zone :: "ESTimeZoneImplementation \<Rightarrow> real \<Rightarrow> bool" where
  "fixed_zone z a \<longleftrightarrow> (\<forall>x. offsetFromUTCForTime z x = a)"

lemma fixed_zone_interval:
  assumes "fixed_zone z a"
  shows "timeIntervalFromLocalComponents z cs = timeIntervalFromUTCComponents cs - a"
    "localComponentsFromTimeInterval (timeIntervalFromUTCComponents cs - a) z =
       UTCComponentsFromTimeInterval (timeIntervalFromUTCComponents cs)"
  using assms
  by (simp_all add: fixed_zone_def timeIntervalFromLocalComponents_def localComponentsFromTimeInterval_def)

text \<open>The month that is \<open>k\<close> months after a date, the day cut to the length of that month.\<close>

definition month_later :: "ESDateComponents \<Rightarrow> int \<Rightarrow> ESDateComponents" where
  "month_later cs k =
     (let M = 12 * signed_year (dc_era cs) (dc_year cs) + (dc_month cs - 1) + k;
          (era, year) = civil_year (M div 12);
          month = M mod 12 + 1;
          len = month_length (leap (gregorian_section era year 2 1) (M div 12)) month
      in cs\<lparr>dc_era := era, dc_year := year, dc_month := month, dc_day := min (dc_day cs) len\<rparr>)"

lemma addMonths_month_later:
  "addMonthsToTimeInterval now z k =
     Some (timeIntervalFromLocalComponents z (month_later (localComponentsFromTimeInterval now z) k))"
proof -
  define cs where "cs = localComponentsFromTimeInterval now z"
  define M where "M = 12 * signed_year (dc_era cs) (dc_year cs) + (dc_month cs - 1) + k"
  let ?y = "real_of_int (signed_year (dc_era cs) (dc_year cs)) + real_of_int (dc_month cs - 1 + k) / 12"
  have y: "?y = real_of_int M / real_of_int 12" by (simp add: M_def field_simps)
  have f: "\<lfloor>?y\<rfloor> = M div 12" unfolding y by (rule floor_divide_of_int_eq)
  have "(?y - real_of_int (M div 12)) * 12 = real_of_int (M - 12 * (M div 12))"
    unfolding y by (simp add: field_simps)
  then have m: "rint ((?y - real_of_int (M div 12)) * 12) = M mod 12"
    by (simp only: rint_of_int) (simp add: minus_mult_div_eq_mod)
  obtain era year where ey: "civil_year (M div 12) = (era, year)" by force
  have e: "era_and_year (M div 12) = (era, year)" using ey by (simp add: era_and_year_def civil_year_def)
  have d: "daysInMonth era year (M mod 12 + 1) =
      Some (month_length (leap (gregorian_section era year 2 1) (M div 12)) (M mod 12 + 1))"
    using daysInMonth_calendar[OF march_year_civil(3)[OF ey], of "M mod 12 + 1"]
      march_year_civil(2)[OF ey] by simp
  have s: "(if dc_era cs = 0 then 1 - dc_year cs else dc_year cs) = signed_year (dc_era cs) (dc_year cs)"
    by (simp add: signed_year_def)
  show ?thesis
    unfolding addMonthsToTimeInterval_def month_later_def Let_def cs_def[symmetric] s f m
      M_def[symmetric] e ey prod.case d
    by (simp add: min_def not_le)
qed

lemma month_later_date:
  fixes k
  assumes "hybrid_date (cs_date cs)" "cs_clock_ok cs"
  defines "cs' \<equiv> month_later cs k"
  shows "cs_clock_ok cs'"
    "hybrid_date (cs_date cs') \<or>
      dc_era cs' = 1 \<and> dc_year cs' = 1582 \<and> dc_month cs' = 10 \<and> 5 \<le> dc_day cs' \<and> dc_day cs' < 15"
proof -
  define M where "M = 12 * signed_year (dc_era cs) (dc_year cs) + (dc_month cs - 1) + k"
  obtain era year where ey: "civil_year (M div 12) = (era, year)" by force
  define m where "m = M mod 12 + 1"
  define len where "len = month_length (leap (gregorian_section era year 2 1) (M div 12)) m"
  have c: "cs' = cs\<lparr>dc_era := era, dc_year := year, dc_month := m, dc_day := min (dc_day cs) len\<rparr>"
    by (simp add: cs'_def month_later_def Let_def M_def[symmetric] ey m_def len_def)
  show "cs_clock_ok cs'" using assms(2) by (simp add: c cs_clock_ok_def)
  have m: "1 \<le> m" "m \<le> 12" by (simp_all add: m_def)
  note v = march_year_civil[OF ey]
  have d: "1 \<le> dc_day cs" using assms(1) by (simp add: hybrid_date_def calendar_date_def cs_date_def)
  have l: "1 \<le> len" by (simp add: len_def month_length_def)
  have feb: "leap (gregorian_section era year m (min (dc_day cs) len)) (M div 12) =
      leap (gregorian_section era year 2 1) (M div 12)" if "m = 2"
    using that by (simp add: gregorian_section_def)
  have "len = month_length (leap (gregorian_section era year m (min (dc_day cs) len)) (M div 12)) m"
    using feb by (simp add: len_def month_length_def)
  then have "min (dc_day cs) len \<le>
      month_length (leap (gregorian_section era year m (min (dc_day cs) len)) (M div 12)) m"
    by (metis min.cobounded2)
  then show "hybrid_date (cs_date cs') \<or>
      dc_era cs' = 1 \<and> dc_year cs' = 1582 \<and> dc_month cs' = 10 \<and> 5 \<le> dc_day cs' \<and> dc_day cs' < 15"
    using m v d l by (auto simp: c hybrid_date_def calendar_date_def cs_date_def)
qed

text \<open>
  \<open>L\<close> is what the local clock has to read in the end. The zone may change its clock near that reading, but
  not skip it.
\<close>

text \<open>C29: Adding months, forwards or backwards, across the era, the switch of calendars and changes of daylight saving time, gives a time whose local date and clock are the same day and time of day of the later month, or its last day; provided that the zone has at most one change within two days of the result, of offsets of at most a day, that the clock does not skip the reading, and that it is not one of the days of October 1582 that were dropped.\<close>

theorem addMonths_same_day:
  fixes z k now
  defines "cs' \<equiv> month_later (localComponentsFromTimeInterval now z) k"
  defines "L \<equiv> timeIntervalFromUTCComponents cs'"
  assumes z: "one_change z T a b (L - 172800) (L + 172800)" and shown: "L < T + a \<or> T + b \<le> L"
    and switch: "\<not> (dc_era cs' = 1 \<and> dc_year cs' = 1582 \<and> dc_month cs' = 10 \<and> 5 \<le> dc_day cs' \<and> dc_day cs' < 15)"
  shows "\<exists>r. addMonthsToTimeInterval now z k = Some r \<and> r + offsetFromUTCForTime z r = L \<and>
    localComponentsFromTimeInterval r z = cs'"
proof -
  have d: "hybrid_date (cs_date cs')" "cs_clock_ok cs'"
    using month_later_date[OF local_date(1,3)] switch unfolding cs'_def by blast+
  define r where "r = timeIntervalFromLocalComponents z cs'"
  have r: "r + offsetFromUTCForTime z r = L"
    unfolding r_def by (rule local_interval_one_change(2)[OF z _ _ _ shown]) (simp_all add: L_def)
  then have "localComponentsFromTimeInterval r z = cs'"
    using components_of_interval[OF d] by (simp add: localComponentsFromTimeInterval_def L_def)
  then show ?thesis using r by (simp add: addMonths_month_later cs'_def[symmetric] r_def)
qed

text \<open>A leap day goes to 1 March of a year that has none.\<close>

theorem addYears_leap_day:
  assumes "fixed_zone z a"
    and "localComponentsFromTimeInterval now z = cs" "dc_month cs = 2" "dc_day cs = 29"
    and "civil_year (signed_year (dc_era cs) (dc_year cs) + k) = (era, year)"
    and "\<not> leap (gregorian_section era year 2 1) (signed_year (dc_era cs) (dc_year cs) + k)"
  shows "localComponentsFromTimeInterval (addYearsToTimeInterval now z k) z =
    cs\<lparr>dc_era := era, dc_year := year, dc_month := 3, dc_day := 1\<rparr>"
proof -
  let ?c = "cs\<lparr>dc_era := era, dc_year := year\<rparr>"
  let ?m = "cs\<lparr>dc_era := era, dc_year := year, dc_month := 3, dc_day := 1\<rparr>"
  note v = march_year_civil[OF assms(5)]
  have clk: "cs_clock_ok cs" using local_date(3)[of now z] assms(2) by simp
  have g: "gregorian_section era year 2 29 = gregorian_section era year 2 1"
    "gregorian_section era year 3 1 = gregorian_section era year 2 1"
    by (auto simp: gregorian_section_def)
  have d: "hybrid_day (era, year, 2, 29) = hybrid_day (era, year, 3, 1)"
    using month_end[of 2 "gregorian_section era year 2 1" era year]
      day_of_shift[of "gregorian_section era year 2 1" era year 2 29] v(2) assms(6)
    by (simp add: hybrid_day_def g month_length_def)
  have t: "timeIntervalFromUTCComponents ?c = timeIntervalFromUTCComponents ?m"
    using v(3) d assms(3,4)
    by (simp add: timeIntervalFromUTCComponents_day cs_date_def cs_clock_def)
  have "hybrid_date (cs_date ?m)" "cs_clock_ok ?m"
    using v clk by (simp_all add: hybrid_date_def calendar_date_def cs_date_def month_length_def cs_clock_ok_def)
  then have m: "UTCComponentsFromTimeInterval (timeIntervalFromUTCComponents ?m) = ?m"
    by (rule components_of_interval)
  have "addYearsToTimeInterval now z k = timeIntervalFromLocalComponents z ?c"
    using assms(5)
    by (simp add: addYearsToTimeInterval_def assms(2) Let_def era_and_year_def civil_year_def
        signed_year_def split: if_splits)
  then show ?thesis
    using fixed_zone_interval[OF assms(1)] t m by metis
qed

section \<open>The search\<close>

text \<open>The search never fails an assertion, and ends at a step where the answer changes.\<close>

declare binarySearch_loop.simps [simp del]

lemma binarySearch_loop_adjacent:
  fixes lo :: int
  assumes "0 \<le> lo"
  shows "binarySearch_loop (Suc n) z d t s lo (lo + 1) = Some (lo + 1)"
proof -
  have e: "(lo + (lo + 1) + 1) sdiv 2 = lo + 1" using assms by (simp add: signed_divide_int_def sgn_if)
  show ?thesis unfolding binarySearch_loop.simps(2) e Let_def by simp
qed

lemma binarySearch_loop_finds:
  fixes z s t and lo hi :: int
  defines "D \<equiv> \<lambda>i. isDSTAtTimeInterval z (t + s * real_of_int i)"
  assumes "0 \<le> lo" "lo < hi" "hi - lo \<le> 2 ^ n" "D lo = d" "D hi \<noteq> d"
  shows "\<exists>k. binarySearch_loop (Suc n) z d t s lo hi = Some k \<and> lo < k \<and> k \<le> hi \<and> D k \<noteq> d \<and> D (k - 1) = d"
  using assms(2-)
proof (induction n arbitrary: lo hi)
  case 0
  then have "hi = lo + 1" by simp
  then show ?case using 0 binarySearch_loop_adjacent[of lo] by simp
next
  case (Suc n)
  define m where "m = (lo + hi + 1) sdiv 2"
  have m: "m = (lo + hi + 1) div 2" using Suc.prems by (simp add: m_def signed_divide_int_def sgn_if)
  show ?case
  proof (cases "m = hi")
    case True
    then have "hi = lo + 1" using Suc.prems m by linarith
    then show ?thesis using Suc.prems binarySearch_loop_adjacent[of lo] by simp
  next
    case False
    have b: "lo < m" "m < hi" using False Suc.prems m by linarith+
    have w: "hi - m \<le> 2 ^ n" "m - lo \<le> 2 ^ n" using Suc.prems(3) m by simp_all
    show ?thesis
    proof (cases "D m = d")
      case True
      have "\<exists>k. binarySearch_loop (Suc n) z d t s m hi = Some k \<and> m < k \<and> k \<le> hi \<and> D k \<noteq> d \<and> D (k - 1) = d"
        using Suc.prems b w True by (intro Suc.IH) simp_all
      then show ?thesis
        using Suc.prems b False True
        unfolding binarySearch_loop.simps(2)[of "Suc n"] m_def[symmetric] Let_def
        by (auto simp: D_def mult.commute)
    next
      case F: False
      have "\<exists>k. binarySearch_loop (Suc n) z d t s lo m = Some k \<and> lo < k \<and> k \<le> m \<and> D k \<noteq> d \<and> D (k - 1) = d"
        using Suc.prems b w F by (intro Suc.IH) simp_all
      then show ?thesis
        using Suc.prems b False F
        unfolding binarySearch_loop.simps(2)[of "Suc n"] m_def[symmetric] Let_def
        by (auto simp: D_def mult.commute)
    qed
  qed
qed

theorem binarySearch_finds:
  fixes z s t and lo hi :: int
  defines "D \<equiv> \<lambda>i. isDSTAtTimeInterval z (t + s * real_of_int i)"
  assumes "0 \<le> lo" "lo < hi" "hi - lo \<le> 2 ^ 99" "D lo = d" "D hi \<noteq> d"
  shows "\<exists>k. binarySearch z d t s lo hi = Some k \<and> lo < k \<and> k \<le> hi \<and> D k \<noteq> d \<and> D (k - 1) = d"
proof -
  have "binarySearch z d t s lo hi = binarySearch_loop (Suc 99) z d t s lo hi"
    using assms by (simp add: binarySearch_def D_def del: binarySearch_loop.simps)
  then show ?thesis
    using binarySearch_loop_finds[of lo hi 99 z t s d] assms(2-) unfolding D_def by metis
qed

lemma first_period_Some:
  assumes "first_period z d t = Some p"
  shows "1 \<le> p" "p \<le> 8" "isDSTAtTimeInterval z (t + ONE_DAY * real_of_int (p * 60)) \<noteq> d"
    "p > 1 \<Longrightarrow> isDSTAtTimeInterval z (t + ONE_DAY * real_of_int ((p - 1) * 60)) = d"
proof -
  obtain i where i: "i < length [1..8]" "[1..8] ! i = p"
    "isDSTAtTimeInterval z (t + real_of_int (p * 60) * ONE_DAY) \<noteq> d"
    "\<And>j. j < i \<Longrightarrow> \<not> isDSTAtTimeInterval z (t + real_of_int ([1..8] ! j * 60) * ONE_DAY) \<noteq> d"
    using assms unfolding first_period_def find_Some_iff by auto
  have p: "p = 1 + int i" using i(1,2) by simp
  show "1 \<le> p" "p \<le> 8" using i(1) p by simp_all
  show "isDSTAtTimeInterval z (t + ONE_DAY * real_of_int (p * 60)) \<noteq> d"
    using i(3) by (simp add: mult.commute)
  assume "p > 1"
  then have j: "i - 1 < i" "[1..8] ! (i - 1) = p - 1" using p i(1) by simp_all
  show "isDSTAtTimeInterval z (t + ONE_DAY * real_of_int ((p - 1) * 60)) = d"
    using i(4)[OF j(1)] unfolding j(2) by (simp add: mult.commute)
qed

lemma slow_way_day:
  assumes "first_period z (isDSTAtTimeInterval z t) t = Some p"
  obtains k where
    "binarySearch z (isDSTAtTimeInterval z t) t ONE_DAY ((p - 1) * 60) (p * 60) = Some k"
    "0 < k" "k \<le> p * 60"
    "isDSTAtTimeInterval z (t + ONE_DAY * real_of_int k) \<noteq> isDSTAtTimeInterval z t"
    "isDSTAtTimeInterval z (t + ONE_DAY * real_of_int (k - 1)) = isDSTAtTimeInterval z t"
proof -
  note p = first_period_Some[OF assms]
  have lo: "isDSTAtTimeInterval z (t + ONE_DAY * real_of_int ((p - 1) * 60)) = isDSTAtTimeInterval z t"
    using p(1,4) by (cases "p = 1") simp_all
  have "\<exists>k. binarySearch_loop (Suc 99) z (isDSTAtTimeInterval z t) t ONE_DAY ((p - 1) * 60) (p * 60) = Some k \<and>
      (p - 1) * 60 < k \<and> k \<le> p * 60 \<and>
      isDSTAtTimeInterval z (t + ONE_DAY * real_of_int k) \<noteq> isDSTAtTimeInterval z t \<and>
      isDSTAtTimeInterval z (t + ONE_DAY * real_of_int (k - 1)) = isDSTAtTimeInterval z t"
    using p(1,3) lo by (intro binarySearch_loop_finds) simp_all
  then obtain k where k: "binarySearch_loop (Suc 99) z (isDSTAtTimeInterval z t) t ONE_DAY ((p - 1) * 60) (p * 60) = Some k"
    "(p - 1) * 60 < k" "k \<le> p * 60"
    "isDSTAtTimeInterval z (t + ONE_DAY * real_of_int k) \<noteq> isDSTAtTimeInterval z t"
    "isDSTAtTimeInterval z (t + ONE_DAY * real_of_int (k - 1)) = isDSTAtTimeInterval z t" by blast
  have "binarySearch z (isDSTAtTimeInterval z t) t ONE_DAY ((p - 1) * 60) (p * 60) = Some k"
    using k(1) p(3) lo unfolding binarySearch_def
    by (simp del: binarySearch_loop.simps add: numeral_eq_Suc)
  then show thesis using that k(2-) p(1,2) by simp
qed

section \<open>A change that is found\<close>

text \<open>
  Daylight saving time changes at \<open>T\<close>, from offset \<open>60 * A - T\<close> to \<open>60 * B - T\<close>: \<open>60 * A\<close> and
  \<open>60 * B\<close> are what the local clock reads before and after. Both are whole minutes, at most an
  hour apart, and no midnight is skipped strictly inside the change.
\<close>

definition dst_change :: "ESTimeZoneImplementation \<Rightarrow> real \<Rightarrow> int \<Rightarrow> int \<Rightarrow> real \<Rightarrow> real \<Rightarrow> bool" where
  "dst_change z T A B lo hi \<longleftrightarrow>
     one_change z T (60 * real_of_int A - T) (60 * real_of_int B - T) lo hi \<and>
     (\<forall>x. lo \<le> x \<longrightarrow> x \<le> hi \<longrightarrow> isDSTAtTime z x \<noteq> isDSTAtTime z lo \<longleftrightarrow> T \<le> x) \<and>
     \<bar>A - B\<bar> \<le> 60 \<and> (\<forall>n. \<not> (A < 1440 * n \<and> 1440 * n < B))"

lemma dst_changeD:
  assumes "dst_change z T A B lo hi"
  shows "one_change z T (60 * real_of_int A - T) (60 * real_of_int B - T) lo hi"
    "\<bar>A - B\<bar> \<le> 60" "\<not> (A < 1440 * n \<and> 1440 * n < B)"
  using assms by (simp_all add: dst_change_def)

lemma dst_change_isDST:
  assumes "dst_change z T A B lo hi" "lo \<le> x" "x \<le> hi" "lo \<le> y" "y \<le> hi"
  shows "isDSTAtTimeInterval z x \<noteq> isDSTAtTimeInterval z y \<longleftrightarrow> (T \<le> x) \<noteq> (T \<le> y)"
proof -
  have "isDSTAtTime z x \<noteq> isDSTAtTime z lo \<longleftrightarrow> T \<le> x" "isDSTAtTime z y \<noteq> isDSTAtTime z lo \<longleftrightarrow> T \<le> y"
    using assms unfolding dst_change_def by blast+
  then show ?thesis unfolding isDSTAtTimeInterval_def by blast
qed

text \<open>The midnight of a local day, and the second after it.\<close>

lemma just_after_midnight_day:
  assumes "\<lfloor>(x + offsetFromUTCForTime z x) / 86400\<rfloor> = n"
  shows "\<exists>cs. just_after_midnight z x = timeIntervalFromLocalComponents z cs \<and>
    timeIntervalFromUTCComponents cs = 86400 * real_of_int n + 1"
proof -
  let ?cs = "(localComponentsFromTimeInterval x z)\<lparr>dc_hour := 0, dc_minute := 0, dc_seconds := 1\<rparr>"
  have d: "cs_date ?cs = cs_date (localComponentsFromTimeInterval x z)" by (simp add: cs_date_def)
  have "dc_era ?cs = 0 \<or> dc_era ?cs = 1"
    using hybrid_date_era[OF local_date(1)[of x z]] by simp
  then have "timeIntervalFromUTCComponents ?cs = 86400 * real_of_int n + 1"
    using local_date(2)[of x z] assms
    by (simp add: timeIntervalFromUTCComponents_day d) (simp add: cs_clock_def)
  then show ?thesis unfolding just_after_midnight_def by blast
qed

lemma just_after_midnight_cases:
  assumes z: "dst_change z T A B lo hi" and n: "\<lfloor>(x + offsetFromUTCForTime z x) / 86400\<rfloor> = n"
    and r: "lo + 172800 \<le> 86400 * real_of_int n" "86400 * real_of_int n + 1 \<le> hi - 172800"
  defines "u \<equiv> just_after_midnight z x"
  shows "(1440 * n < B \<and> u = 86400 * real_of_int n + 1 - (60 * real_of_int A - T) \<and> 1440 * n < A) \<or>
    (1440 * n < B \<and> A = 1440 * n \<and> (u = T + 1 \<or> u = 86400 * real_of_int n + 1 - (60 * real_of_int B - T))) \<or>
    (B \<le> 1440 * n \<and> 1440 * n < A \<and> u = 86400 * real_of_int n + 1 - (60 * real_of_int A - T)) \<or>
    (B \<le> 1440 * n \<and> u = 86400 * real_of_int n + 1 - (60 * real_of_int B - T))"
proof -
  obtain cs where cs: "u = timeIntervalFromLocalComponents z cs"
    "timeIntervalFromUTCComponents cs = 86400 * real_of_int n + 1"
    using just_after_midnight_day[OF n] unfolding u_def by blast
  have "lo + 172800 \<le> 86400 * real_of_int n + 1" using r(1) by simp
  note k = local_interval_one_change[OF dst_changeD(1)[OF z] cs(2) this r(2), folded cs(1)]
  have i: "86400 * real_of_int n + 1 < 60 * real_of_int A \<longleftrightarrow> 1440 * n < A"
    "86400 * real_of_int n + 1 < 60 * real_of_int B \<longleftrightarrow> 1440 * n < B" by linarith+
  consider (1) "1440 * n < B" "1440 * n < A" | (2) "1440 * n < B" "A \<le> 1440 * n"
    | (3) "B \<le> 1440 * n" "1440 * n < A" | (4) "B \<le> 1440 * n" "A \<le> 1440 * n" by linarith
  then show ?thesis
  proof cases
    case 1
    then show ?thesis using k(3) i by simp
  next
    case 2
    then have "A = 1440 * n" using dst_changeD(3)[OF z, of n] by linarith
    then show ?thesis using k(1) 2 by auto
  next
    case 3
    then show ?thesis using k(1) by auto
  next
    case 4
    then show ?thesis using k(4) i by auto
  qed
qed

definition found_from :: "real \<Rightarrow> (real + real) option \<Rightarrow> bool" where
  "found_from T f \<longleftrightarrow> f = Some (Inl T) \<or>
     (\<exists>m q. f = Some (Inr (m + 1)) \<and> T - m = 60 * real_of_int q \<and> 1 \<le> q \<and> q \<le> 1499)"

lemma found_from_Inr:
  "T - m = 60 * real_of_int q \<Longrightarrow> 1 \<le> q \<Longrightarrow> q \<le> 1499 \<Longrightarrow> found_from T (Some (Inr (m + 1)))"
  by (auto simp: found_from_def)

lemma back_up_before:
  assumes "dst_change z T A B lo hi" "lo \<le> t" "t < T" "lo \<le> u" "u \<le> hi" "u < T" "T \<le> hi"
  shows "back_up r z (isDSTAtTimeInterval z t) u = Some (Inr u)"
  using dst_change_isDST[OF assms(1), of u t] assms by (subst back_up.simps) auto

lemma back_up_at:
  assumes "dst_change z T A B lo hi" "lo \<le> t" "t < T" "lo + 2 \<le> u" "u \<le> hi" "T \<le> u" "u < T + 2"
  shows "back_up r z (isDSTAtTimeInterval z t) u = Some (Inl (u - 1))"
  using dst_change_isDST[OF assms(1), of u t] dst_change_isDST[OF assms(1), of "u - 2" t]
    dst_change_isDST[OF assms(1), of "u - 2" u] assms
  by (subst back_up.simps) (auto simp: Let_def)

lemma back_up_after:
  assumes "dst_change z T A B lo hi" "lo \<le> t" "t < T" "lo + 2 \<le> u" "u \<le> hi" "T + 2 \<le> u"
  shows "back_up (Suc r) z (isDSTAtTimeInterval z t) u =
    back_up r z (isDSTAtTimeInterval z t) (just_after_midnight z (u - 2))"
  using dst_change_isDST[OF assms(1), of u t] dst_change_isDST[OF assms(1), of "u - 2" u] assms
  by (subst back_up.simps) (auto simp: Let_def)

text \<open>A day that begins before the change: the search by minutes can start.\<close>

lemma back_up_day_of_change:
  assumes z: "dst_change z T A B lo hi" and t: "lo \<le> t" "t < T" "T \<le> hi"
    and n: "\<lfloor>(x + offsetFromUTCForTime z x) / 86400\<rfloor> = n"
    and r: "lo + 172800 \<le> 86400 * real_of_int n" "86400 * real_of_int n + 1 \<le> hi - 172800"
    and d: "1440 * n < B" "B < 1440 * n + 1440"
  shows "found_from T (back_up k z (isDSTAtTimeInterval z t) (just_after_midnight z x))"
proof -
  let ?u = "just_after_midnight z x"
  note bd = one_change_bounds[OF dst_changeD(1)[OF z]]
  note ab = dst_changeD(2)[OF z]
  consider (1) "?u = 86400 * real_of_int n + 1 - (60 * real_of_int A - T)" "1440 * n < A"
    | (2) "A = 1440 * n" "?u = T + 1"
    | (3) "A = 1440 * n" "?u = 86400 * real_of_int n + 1 - (60 * real_of_int B - T)"
    using just_after_midnight_cases[OF z n r] d(1) by auto
  then show ?thesis
  proof cases
    case 1
    let ?m = "86400 * real_of_int n - (60 * real_of_int A - T)"
    have u: "?u = ?m + 1" using 1 by simp
    have q: "T - ?m = 60 * real_of_int (A - 1440 * n)" by simp
    have "1 \<le> A - 1440 * n" "A - 1440 * n \<le> 1499" using 1 ab d by simp_all
    then have "found_from T (Some (Inr (?m + 1)))" by (intro found_from_Inr[OF q])
    moreover have "?u < T" "lo \<le> ?u" "?u \<le> hi" using 1 r bd by simp_all
    ultimately show ?thesis using back_up_before[OF z t(1,2) _ _ _ t(3)] by (simp add: u)
  next
    case 2
    have "lo + 2 \<le> T" using r bd 2(1) by simp
    moreover have "T + 1 \<le> hi" using r bd 2(1) by simp
    ultimately have "back_up k z (isDSTAtTimeInterval z t) (T + 1) = Some (Inl T)"
      using back_up_at[OF z t(1,2), of "T + 1" k] by simp
    then show ?thesis by (simp add: 2(2) found_from_def)
  next
    case 3
    let ?m = "86400 * real_of_int n - (60 * real_of_int B - T)"
    have u: "?u = ?m + 1" using 3 by simp
    have q: "T - ?m = 60 * real_of_int (B - 1440 * n)" by simp
    have "1 \<le> B - 1440 * n" "B - 1440 * n \<le> 1499" using d by simp_all
    then have "found_from T (Some (Inr (?m + 1)))" by (intro found_from_Inr[OF q])
    moreover have "?u < T" "lo \<le> ?u" "?u \<le> hi" using 3 d r bd by simp_all
    ultimately show ?thesis using back_up_before[OF z t(1,2) _ _ _ t(3)] by (simp add: u)
  qed
qed

lemma back_up_finds:
  assumes z: "dst_change z T A B lo hi" and t: "lo \<le> t" "t < T" "T \<le> hi"
    and n: "\<lfloor>(x + offsetFromUTCForTime z x) / 86400\<rfloor> = n"
    and r: "lo + 259200 \<le> 86400 * real_of_int n" "86400 * real_of_int n + 1 \<le> hi - 172800"
    and d: "1440 * n - 1440 < B" "B < 1440 * n + 1440"
  shows "found_from T (back_up 2 z (isDSTAtTimeInterval z t) (just_after_midnight z x))"
proof (cases "1440 * n < B")
  case True
  then show ?thesis using back_up_day_of_change[OF z t n _ r(2) True d(2)] r(1) by simp
next
  case False
  let ?u = "just_after_midnight z x"
  note bd = one_change_bounds[OF dst_changeD(1)[OF z]]
  note ab = dst_changeD(2)[OF z]
  have r1: "lo + 172800 \<le> 86400 * real_of_int n" using r(1) by simp
  consider (1) "1440 * n < A" "?u = 86400 * real_of_int n + 1 - (60 * real_of_int A - T)"
    | (2) "?u = 86400 * real_of_int n + 1 - (60 * real_of_int B - T)"
    using just_after_midnight_cases[OF z n r1 r(2)] False by auto
  then show ?thesis
  proof cases
    case 1
    let ?m = "86400 * real_of_int n - (60 * real_of_int A - T)"
    have u: "?u = ?m + 1" using 1 by simp
    have q: "T - ?m = 60 * real_of_int (A - 1440 * n)" by simp
    have "1 \<le> A - 1440 * n" "A - 1440 * n \<le> 1499" using 1 ab False by simp_all
    then have "found_from T (Some (Inr (?m + 1)))" by (intro found_from_Inr[OF q])
    moreover have "?u < T" "lo \<le> ?u" "?u \<le> hi" using 1 r bd by simp_all
    ultimately show ?thesis using back_up_before[OF z t(1,2) _ _ _ t(3)] by (simp add: u)
  next
    case 2
    have b: "lo + 2 \<le> ?u" "?u \<le> hi" using 2 r bd by simp_all
    show ?thesis
    proof (cases "B = 1440 * n")
      case True
      then have u: "?u = T + 1" using 2 by simp
      then show ?thesis
        using back_up_at[OF z t(1,2) b, of 2] by (simp add: found_from_def)
    next
      case F: False
      then have l: "T + 2 \<le> ?u" using 2 False by simp
      have "offsetFromUTCForTime z (?u - 2) = 60 * real_of_int B - T"
        using one_change_offset[OF dst_changeD(1)[OF z], of "?u - 2"] b l by simp
      then have "(?u - 2 + offsetFromUTCForTime z (?u - 2)) / 86400 = (86400 * real_of_int n - 1) / 86400"
        using 2 by simp
      moreover have "\<lfloor>(86400 * real_of_int n - 1) / 86400\<rfloor> = n - 1"
        by (rule floor_unique) simp_all
      ultimately have n': "\<lfloor>(?u - 2 + offsetFromUTCForTime z (?u - 2)) / 86400\<rfloor> = n - 1"
        by (simp only:)
      have "found_from T (back_up 1 z (isDSTAtTimeInterval z t) (just_after_midnight z (?u - 2)))"
        using r d False F by (intro back_up_day_of_change[OF z t n']) simp_all
      then show ?thesis
        using back_up_after[OF z t(1,2) b l, of 1] by (simp add: numeral_2_eq_2)
    qed
  qed
qed

text \<open>The offsets of the exhaustive search are the minutes of the day, up to 24:59.\<close>

lemma search_offsets_minutes: "set search_offsets = (\<lambda>q. 60 * q) ` {1..1499}"
proof (intro equalityI subsetI)
  fix s assume "s \<in> set search_offsets"
  then have "s mod 60 = 0 \<and> 60 \<le> s \<and> s \<le> 89940"
    unfolding search_offsets_def by auto
  then show "s \<in> (\<lambda>q. 60 * q) ` {1..1499}" by (intro image_eqI[of _ _ "s div 60"]) auto
next
  fix s :: int assume "s \<in> (\<lambda>q. 60 * q) ` {1..1499}"
  then obtain q where q: "s = 60 * q" "1 \<le> q" "q \<le> 1499" by auto
  define h m where "h = q div 60" and "m = q mod 60"
  have qhm: "q = 60 * h + m" by (simp add: h_def m_def)
  have hm: "0 \<le> m" "m \<le> 59" "0 \<le> h" "h \<le> 24"
    using q by (simp_all add: h_def m_def)
  have s: "s = h * 60 * 60 + m * 60" using q(1) qhm by simp
  consider "m = 0" "h = 2" | "m = 0" "h \<noteq> 2" "1 \<le> h" | "m = 30" | "m \<noteq> 0" "m \<noteq> 30"
    using q qhm hm by linarith
  then show "s \<in> set search_offsets"
  proof cases
    case 4
    have "s \<in> set (map (\<lambda>m. h * 60 * 60 + m * 60) (filter (\<lambda>m. m \<noteq> 30) [1..59]))"
      using hm 4 unfolding s set_map by (intro imageI) simp
    moreover have "h \<in> set [0..24]" using hm by simp
    ultimately have "s \<in> set (concat (map (\<lambda>h. map (\<lambda>m. h * 60 * 60 + m * 60) (filter (\<lambda>m. m \<noteq> 30) [1..59])) [0..24]))"
      unfolding set_concat set_map[of _ "[0..24]"] by (metis (no_types, lifting) UN_I image_eqI)
    then show ?thesis unfolding search_offsets_def set_append by (intro UnI2) 
  qed (use hm s in \<open>auto simp: search_offsets_def\<close>)
qed

lemma find_unique: "y \<in> set xs \<Longrightarrow> (\<And>x. x \<in> set xs \<Longrightarrow> P x \<longleftrightarrow> x = y) \<Longrightarrow> find P xs = Some y"
  by (induction xs) auto

text \<open>The first period at whose end the flag differs ends at most 60 days after the change.\<close>

lemma first_period_after_change:
  assumes D: "\<And>x. t \<le> x \<Longrightarrow> x \<le> T + 5184000 \<Longrightarrow> isDSTAtTimeInterval z x \<noteq> isDSTAtTimeInterval z t \<longleftrightarrow> T \<le> x"
    and t: "t < T" "T \<le> t + 41472000"
  shows "\<exists>p. first_period z (isDSTAtTimeInterval z t) t = Some p \<and> t + real_of_int (p * 60) * ONE_DAY < T + 5184000"
proof -
  define q where "q = \<lceil>(T - t) / 5184000\<rceil>"
  have q: "real_of_int q < (T - t) / 5184000 + 1" "(T - t) / 5184000 \<le> real_of_int q" unfolding q_def by linarith+
  have "0 < real_of_int q" using q(2) t(1) by (simp add: less_le_trans)
  then have q0: "1 \<le> q" by linarith
  have "(T - t) / 5184000 \<le> 8" using t(2) by simp
  then have q8: "q \<le> 8" unfolding q_def by linarith
  have e: "t + real_of_int (q * 60) * ONE_DAY < T + 5184000" "T \<le> t + real_of_int (q * 60) * ONE_DAY"
    using q by (simp_all add: ONE_DAY_def field_simps)
  have "0 < real_of_int q" using q0 by linarith
  then have "isDSTAtTimeInterval z (t + real_of_int (q * 60) * ONE_DAY) \<noteq> isDSTAtTimeInterval z t"
    using D[of "t + real_of_int (q * 60) * ONE_DAY"] e by (simp add: ONE_DAY_def)
  then have "first_period z (isDSTAtTimeInterval z t) t \<noteq> None"
    using q0 q8 unfolding first_period_def find_None_iff by auto
  then obtain p where p: "first_period z (isDSTAtTimeInterval z t) t = Some p" by blast
  have "p \<le> q"
  proof (rule ccontr)
    assume "\<not> p \<le> q"
    obtain i where i: "i < length [1..8]" "[1..8] ! i = p"
      "\<And>j. j < i \<Longrightarrow> \<not> isDSTAtTimeInterval z (t + real_of_int ([1..8] ! j * 60) * ONE_DAY) \<noteq> isDSTAtTimeInterval z t"
      using p unfolding first_period_def find_Some_iff by auto
    have "nat (q - 1) < i" "[1..8] ! nat (q - 1) = q" using i(1,2) q0 q8 \<open>\<not> p \<le> q\<close> by simp_all
    then show False
      using i(3)[of "nat (q - 1)"] \<open>isDSTAtTimeInterval z (t + real_of_int (q * 60) * ONE_DAY) \<noteq> _\<close> by simp
  qed
  then have "real_of_int p \<le> real_of_int q" by simp
  then show ?thesis using p e(1) by (auto simp: ONE_DAY_def)
qed

text \<open>
  The change is the only one from five days before \<open>t\<close> to 67 days after the change itself; later ones do
  not matter.
\<close>

text \<open>C28: The search for the next change of daylight saving time ends without failing an assertion and returns the exact change, if that comes within 480 days, is the only one from 5 days before the start of the search to 67 days after the change itself (so two changes a year are fine), is of at most 60 minutes, from one whole local minute to another, and does not skip over a midnight. A summer time shorter than 60 days may be missed (theorem slow_way_misses_short_summer).\<close>

theorem slow_way_finds_change:
  assumes z: "dst_change z T A B (t - 432000) (T + 5788800)" and t: "t < T" "T \<le> t + 41472000"
  shows "nextDSTChangeTheSlowWay z t = Some T"
proof -
  note bd = one_change_bounds[OF dst_changeD(1)[OF z]]
  have D: "isDSTAtTimeInterval z x \<noteq> isDSTAtTimeInterval z t \<longleftrightarrow> T \<le> x"
    if "t \<le> x" "x \<le> T + 5184000" for x
    using dst_change_isDST[OF z, of x t] that t by auto
  obtain p where p: "first_period z (isDSTAtTimeInterval z t) t = Some p"
      "t + real_of_int (p * 60) * ONE_DAY < T + 5184000"
    using first_period_after_change[OF D t] by blast
  obtain k where k: "binarySearch z (isDSTAtTimeInterval z t) t ONE_DAY ((p - 1) * 60) (p * 60) = Some k"
    "0 < k" "k \<le> p * 60"
    "isDSTAtTimeInterval z (t + ONE_DAY * real_of_int k) \<noteq> isDSTAtTimeInterval z t"
    "isDSTAtTimeInterval z (t + ONE_DAY * real_of_int (k - 1)) = isDSTAtTimeInterval z t"
    using slow_way_day[OF p(1)] .
  define c where "c = t + real_of_int k * ONE_DAY"
  have kr: "1 \<le> real_of_int k" "real_of_int k \<le> real_of_int (p * 60)" using k(2,3) by linarith+
  have "real_of_int k * ONE_DAY \<le> real_of_int (p * 60) * ONE_DAY" using kr(2) by (simp only: ONE_DAY_def)
  then have cp: "c < T + 5184000" using p(2) unfolding c_def by linarith
  have c: "T \<le> c" "c - 86400 < T"
    using D[of "t + ONE_DAY * real_of_int k"] D[of "t + ONE_DAY * real_of_int (k - 1)"] k(4,5) kr cp
    by (simp_all add: c_def ONE_DAY_def)
  define n where "n = \<lfloor>(c + offsetFromUTCForTime z c) / 86400\<rfloor>"
  have o: "offsetFromUTCForTime z c = 60 * real_of_int B - T"
    using one_change_offset[OF dst_changeD(1)[OF z], of c] c t by simp
  have "real_of_int n \<le> (c + (60 * real_of_int B - T)) / 86400"
    "(c + (60 * real_of_int B - T)) / 86400 < real_of_int n + 1"
    unfolding n_def o by (rule of_int_floor_le, rule floor_correct[THEN conjunct2, simplified])
  then have nb: "86400 * real_of_int n \<le> c + (60 * real_of_int B - T)"
    "c + (60 * real_of_int B - T) < 86400 * real_of_int n + 86400" by simp_all
  have "1440 * n - 1440 < B" "B < 1440 * n + 1440" using nb c by linarith+
  then have f: "found_from T (back_up 2 z (isDSTAtTimeInterval z t) (just_after_midnight z c))"
    using nb bd c t by (intro back_up_finds[OF z _ t(1) _ n_def[symmetric]]) simp_all
  have slow: "nextDSTChangeTheSlowWay z t =
      (back_up 2 z (isDSTAtTimeInterval z t) (just_after_midnight z c) \<bind>
        (\<lambda>found. case found of Inl t \<Rightarrow> Some t
          | Inr justAfter \<Rightarrow> find (tryAtInterval z) (map (\<lambda>d. justAfter - 1 + real_of_int d) search_offsets)))"
    unfolding nextDSTChangeTheSlowWay_def Let_def p(1) option.case k(1) bind.bind_lunit c_def[symmetric]
    by simp
  from f consider "back_up 2 z (isDSTAtTimeInterval z t) (just_after_midnight z c) = Some (Inl T)"
    | m q where "back_up 2 z (isDSTAtTimeInterval z t) (just_after_midnight z c) = Some (Inr (m + 1))"
      "T - m = 60 * real_of_int q" "1 \<le> q" "q \<le> 1499"
    unfolding found_from_def by blast
  then show ?thesis
  proof cases
    case 1
    then show ?thesis by (simp add: slow)
  next
    case 2
    have "find (tryAtInterval z) (map (\<lambda>d. m + real_of_int d) search_offsets) = Some T"
    proof (rule find_unique)
      show "T \<in> set (map (\<lambda>d. m + real_of_int d) search_offsets)"
        using 2 by (auto simp: search_offsets_minutes image_image intro!: image_eqI[of _ _ q])
      fix x assume "x \<in> set (map (\<lambda>d. m + real_of_int d) search_offsets)"
      then obtain j where j: "x = m + 60 * real_of_int j" "1 \<le> j" "j \<le> 1499"
        by (auto simp: search_offsets_minutes)
      have jr: "1 \<le> real_of_int j" "real_of_int j \<le> 1499" "1 \<le> real_of_int q" "real_of_int q \<le> 1499"
        using j(2,3) 2(3,4) by linarith+
      have "isDSTAtTimeInterval z (x + 1) \<noteq> isDSTAtTimeInterval z (x - 1) \<longleftrightarrow> (T \<le> x + 1) \<noteq> (T \<le> x - 1)"
        using j(1) jr 2(2) t by (intro dst_change_isDST[OF z]) simp_all
      also have "\<dots> \<longleftrightarrow> j = q" using j(1) 2(2) by linarith
      also have "\<dots> \<longleftrightarrow> x = T"
      proof -
        have T: "T = m + 60 * real_of_int q" using 2(2) by simp
        show ?thesis unfolding T j(1) by simp
      qed
      finally show "tryAtInterval z x \<longleftrightarrow> x = T" by (simp add: tryAtInterval_def)
    qed
    then show ?thesis by (simp add: slow 2(1))
  qed
qed

section \<open>The theorems in concrete zones\<close>

definition eastern_standard :: ESTimeZoneImplementation where
  "eastern_standard = \<lparr>offsetFromUTCForTime = (\<lambda>x. - 18000), isDSTAtTime = (\<lambda>x. False),
     nextDSTChangeAfterTime = (\<lambda>x. 0), impl_name = ''EST''\<rparr>"

lemma eastern_standard_offset [simp]: "offsetFromUTCForTime eastern_standard x = - 18000"
  by (simp add: eastern_standard_def)

lemma eastern_standard_fixed: "fixed_zone eastern_standard (- 18000)"
  by (simp add: fixed_zone_def eastern_standard_def)

text \<open>A zone whose clock goes from 2:00 to 3:00 on day 100, and the one of the autumn of that year.\<close>

definition spring_zone :: ESTimeZoneImplementation where
  "spring_zone = \<lparr>offsetFromUTCForTime = (\<lambda>x. if x < 8665200 then - 18000 else - 14400),
     isDSTAtTime = (\<lambda>x. 8665200 \<le> x), nextDSTChangeAfterTime = (\<lambda>x. if x < 8665200 then 8665200 else 0),
     impl_name = ''Spring''\<rparr>"

definition autumn_zone :: ESTimeZoneImplementation where
  "autumn_zone = \<lparr>offsetFromUTCForTime = (\<lambda>x. if x < 26013600 then - 14400 else - 18000),
     isDSTAtTime = (\<lambda>x. x < 26013600), nextDSTChangeAfterTime = (\<lambda>x. if x < 26013600 then 26013600 else 0),
     impl_name = ''Autumn''\<rparr>"

lemma spring_zone_answers [simp]:
  "offsetFromUTCForTime spring_zone x = (if x < 8665200 then - 18000 else - 14400)"
  "nextDSTChangeAfterTime spring_zone x = (if x < 8665200 then 8665200 else 0)"
  by (simp_all add: spring_zone_def)

lemma spring_zone_change: "lo < 8665200 \<Longrightarrow> dst_change spring_zone 8665200 144120 144180 lo hi"
  by (simp add: dst_change_def one_change_def) (simp add: spring_zone_def)

lemma autumn_zone_change: "one_change autumn_zone 26013600 (- 14400) (- 18000) lo hi"
  by (simp add: one_change_def autumn_zone_def)

theorem local_round_trip_witness:
  "timeIntervalFromLocalComponents autumn_zone (localComponentsFromTimeInterval 26012000 autumn_zone)
    = 26012000 \<or>
   timeIntervalFromLocalComponents autumn_zone (localComponentsFromTimeInterval 26012000 autumn_zone)
    = 26015600"
  using local_round_trip[OF autumn_zone_change, of 26012000]
  by (auto simp: autumn_zone_def)

theorem addDays_keeps_clock_witness:
  "addDaysToTimeInterval 8640000 spring_zone 1 = 8722800 \<and>
   cs_clock (localComponentsFromTimeInterval 8722800 spring_zone) =
     cs_clock (localComponentsFromTimeInterval 8640000 spring_zone)"
  using addDays_keeps_clock[of spring_zone 8640000 1] by auto

text \<open>A zone with two changes a year: from day 100 to day 301.\<close>

definition summer_zone :: ESTimeZoneImplementation where
  "summer_zone = \<lparr>offsetFromUTCForTime = (\<lambda>x. if 8665200 \<le> x \<and> x < 26013600 then - 14400 else - 18000),
     isDSTAtTime = (\<lambda>x. 8665200 \<le> x \<and> x < 26013600),
     nextDSTChangeAfterTime = (\<lambda>x. if x < 8665200 then 8665200 else if x < 26013600 then 26013600 else 0),
     impl_name = ''Summer''\<rparr>"

lemma summer_zone_change: "lo < 8665200 \<Longrightarrow> hi < 26013600 \<Longrightarrow> dst_change summer_zone 8665200 144120 144180 lo hi"
  by (simp add: dst_change_def one_change_def) (simp add: summer_zone_def)

theorem slow_way_finds_change_witness: "nextDSTChangeTheSlowWay summer_zone 0 = Some 8665200"
  by (rule slow_way_finds_change[OF summer_zone_change]) simp_all

text \<open>Summer time that lasts for less than 60 days can fall between the samples: no change is found.\<close>

lemma slow_way_misses_short_summer:
  assumes "\<And>p. 1 \<le> p \<Longrightarrow> p \<le> 8 \<Longrightarrow>
    isDSTAtTimeInterval z (t + real_of_int (p * 60) * ONE_DAY) = isDSTAtTimeInterval z t"
  shows "nextDSTChangeTheSlowWay z t = Some 0"
proof -
  have "first_period z (isDSTAtTimeInterval z t) t = None"
    using assms unfolding first_period_def find_None_iff by auto
  then show ?thesis by (simp add: nextDSTChangeTheSlowWay_def)
qed

lemma eastern_local_date:
  assumes "hybrid_date (cs_date cs)" "cs_clock_ok cs"
  shows "localComponentsFromTimeInterval (timeIntervalFromUTCComponents cs + 18000) eastern_standard = cs"
  using fixed_zone_interval(2)[OF eastern_standard_fixed, of cs] components_of_interval[OF assms] by simp

lemmas date_evaluation = hybrid_date_def calendar_date_def gregorian_section_def month_length_def
  cs_date_def cs_clock_ok_def leap_def signed_year_def civil_year_def

text \<open>From 31 January, in winter, to 30 June, in summer time.\<close>

lemma winter_morning:
  "localComponentsFromTimeInterval 2644200 summer_zone =
     \<lparr>dc_era = 1, dc_year = 2001, dc_month = 1, dc_day = 31, dc_hour = 9, dc_minute = 30, dc_seconds = 0\<rparr>" (is "_ = ?cs")
proof -
  have "timeIntervalFromUTCComponents ?cs = 2626200"
    by (simp add: timeIntervalFromUTCComponents_def march_year_def before_switchover_def kEC1990Epoch_def
        kECJulianDayOf1990Epoch_def Let_def)
  moreover have "UTCComponentsFromTimeInterval (timeIntervalFromUTCComponents ?cs) = ?cs"
    by (rule components_of_interval) (simp_all add: date_evaluation)
  ultimately show ?thesis by (simp add: localComponentsFromTimeInterval_def summer_zone_def)
qed

theorem addMonths_same_day_witness:
  "\<exists>r. addMonthsToTimeInterval 2644200 summer_zone 5 = Some r \<and> r + offsetFromUTCForTime summer_zone r = 15586200 \<and>
     localComponentsFromTimeInterval r summer_zone =
       \<lparr>dc_era = 1, dc_year = 2001, dc_month = 6, dc_day = 30, dc_hour = 9, dc_minute = 30, dc_seconds = 0\<rparr>"
proof -
  let ?cs = "\<lparr>dc_era = 1, dc_year = 2001, dc_month = 6, dc_day = 30, dc_hour = 9, dc_minute = 30, dc_seconds = 0\<rparr>"
  have m: "month_later (localComponentsFromTimeInterval 2644200 summer_zone) 5 = ?cs"
    by (simp add: winter_morning month_later_def date_evaluation)
  have L: "timeIntervalFromUTCComponents ?cs = 15586200"
    by (simp add: timeIntervalFromUTCComponents_def march_year_def before_switchover_def kEC1990Epoch_def
        kECJulianDayOf1990Epoch_def Let_def)
  have "one_change summer_zone 8665200 (- 18000) (- 14400) (15586200 - 172800) (15586200 + 172800)"
    by (simp add: one_change_def summer_zone_def)
  then show ?thesis using addMonths_same_day[where z = summer_zone and now = 2644200 and k = 5] unfolding m L by simp
qed

theorem addYears_leap_day_witness:
  "localComponentsFromTimeInterval (addYearsToTimeInterval (timeIntervalFromUTCComponents
       \<lparr>dc_era = 1, dc_year = 2004, dc_month = 2, dc_day = 29, dc_hour = 9, dc_minute = 30, dc_seconds = 0\<rparr>
       + 18000) eastern_standard (- 1)) eastern_standard =
     \<lparr>dc_era = 1, dc_year = 2003, dc_month = 3, dc_day = 1, dc_hour = 9, dc_minute = 30, dc_seconds = 0\<rparr>"
  by (subst addYears_leap_day[OF eastern_standard_fixed eastern_local_date, where era = 1 and year = 2003])
    (simp_all add: date_evaluation)

end
