(* ===== verification/EsTimeEnvironment.thy ===== *)
theory EsTimeEnvironment
  imports EsLocalTime
begin

text \<open>
  A time environment: a time zone, with the cache that finds the midnight before a time
  (src/ESTimeEnvironment.cpp, src/ESTimeEnvironment.hpp).

  The zone objects are in the store of \<open>EsLocalTime\<close>; reading a zone that was freed is an
  error. \<open>tzLock\<close> is not recursive: locking it twice in one thread never returns, which is
  \<^const>\<open>None\<close> too. \<open>ESUtil::fmod\<close> is an argument.
\<close>

section \<open>State\<close>

definition ESFarInThePast :: real where
  "ESFarInThePast = - (10 ^ 100)"

definition ECMidnightCacheSpan :: real where
  "ECMidnightCacheSpan = 30 * 24 * 3600"

definition ECMidnightCachePreload :: real where
  "ECMidnightCachePreload = 15 * 24 * 3600"

record ESTimeEnvironment =
  env_estz :: nat
  env_prevTimeForTZ :: ESTimeInterval
  env_resultForTZ :: ESTimeInterval
  env_cacheMidnightBase :: ESTimeInterval
  env_cacheDSTEvent :: ESTimeInterval
  env_cacheDSTDelta :: ESTimeInterval
  env_observingIPhoneTime :: bool
  env_timeZoneIsDefault :: bool

record tz_locks =
  tzLock :: bool
  haveTZLock :: bool

text \<open>\<open>junk\<close> holds what the fields had that the constructor does not set.\<close>

definition new_environment ::
  "nat \<Rightarrow> ESTimeZoneImplementation \<Rightarrow> bool \<Rightarrow> ESTimeEnvironment \<Rightarrow> tz_store \<Rightarrow>
     (ESTimeEnvironment \<times> tz_store) option" where
  "new_environment new_tz impl observing junk h = do {
     (p, h) \<leftarrow> initTimeZoneFromOlsonID new_tz impl h;
     Some (junk\<lparr>env_estz := p, env_observingIPhoneTime := observing, env_prevTimeForTZ := 0,
             env_cacheMidnightBase := ESFarInThePast\<rparr>, h)
   }"

definition delete_environment :: "bool \<Rightarrow> ESTimeEnvironment \<Rightarrow> tz_store \<Rightarrow> tz_store option" where
  "delete_environment assertOnRelease e h = releaseTimeZone assertOnRelease (env_estz e) h"

definition env_zone :: "ESTimeEnvironment \<Rightarrow> tz_store \<Rightarrow> ESTimeZoneImplementation option" where
  "env_zone e h = map_option tz_impl (h (env_estz e))"

section \<open>The midnight before a time\<close>

definition fill_midnight_cache ::
  "ESTimeZoneImplementation \<Rightarrow> ESTimeInterval \<Rightarrow> ESTimeEnvironment \<Rightarrow> ESTimeEnvironment" where
  "fill_midnight_cache z timeInterval e =
     (let firstDay = timeInterval - ECMidnightCachePreload;
          cs = localComponentsFromTimeInterval firstDay z;
          cs = cs\<lparr>dc_hour := 0, dc_minute := 0, dc_seconds := 1\<rparr>;
          firstMidnight = timeIntervalFromLocalComponents z cs;
          e = e\<lparr>env_cacheMidnightBase := firstMidnight - 1\<rparr>;
          nextTZChange = nextDSTChangeAfterTimeInterval z firstMidnight
      in if nextTZChange \<noteq> 0
         then let e = e\<lparr>env_cacheDSTEvent := nextTZChange\<rparr> in
           if env_cacheDSTEvent e \<le> env_cacheMidnightBase e + ECMidnightCacheSpan
           then let postTransitionTime =
                      clock_seconds (localComponentsFromTimeInterval (env_cacheDSTEvent e + 1) z);
                    preTransitionTime =
                      clock_seconds (localComponentsFromTimeInterval (env_cacheDSTEvent e - 1) z);
                    (postTransitionTime, preTransitionTime) =
                      (if \<bar>postTransitionTime - preTransitionTime\<bar> > 3600 * 12
                       then if postTransitionTime > preTransitionTime
                         then (postTransitionTime - 3600 * 24, preTransitionTime)
                         else (postTransitionTime, preTransitionTime - 3600 * 24)
                       else (postTransitionTime, preTransitionTime))
                in e\<lparr>env_cacheDSTDelta := postTransitionTime - preTransitionTime - 2\<rparr>
           else e\<lparr>env_cacheDSTDelta := 0\<rparr>
         else e\<lparr>env_cacheDSTEvent := ESFarFarInTheFuture, env_cacheDSTDelta := 0\<rparr>)"

definition midnightForTimeInterval ::
  "(real \<Rightarrow> real \<Rightarrow> real) \<Rightarrow> tz_store \<Rightarrow> ESTimeInterval \<Rightarrow> ESTimeEnvironment \<Rightarrow>
     (ESTimeInterval \<times> ESTimeEnvironment) option" where
  "midnightForTimeInterval es_fmod h timeInterval e = do {
     e \<leftarrow> (if timeInterval \<le> env_cacheMidnightBase e \<or>
              timeInterval \<ge> env_cacheMidnightBase e + ECMidnightCacheSpan
           then do { z \<leftarrow> env_zone e h; Some (fill_midnight_cache z timeInterval e) }
           else Some e);
     let midnightBase = (if timeInterval < env_cacheDSTEvent e then env_cacheMidnightBase e
                         else env_cacheMidnightBase e - env_cacheDSTDelta e);
     let timeSinceMidnight = es_fmod (timeInterval - midnightBase) (24 * 3600);
     Some (timeInterval - timeSinceMidnight, e)
   }"

section \<open>The zone of an environment\<close>

text \<open>The lock is taken unless it is held already, and released by who took it.\<close>

definition lock_unless_held :: "tz_locks \<Rightarrow> tz_locks option" where
  "lock_unless_held l =
     (if haveTZLock l then Some l
      else if tzLock l then None else Some \<lparr>tzLock = True, haveTZLock = True\<rparr>)"

definition unlock_unless :: "bool \<Rightarrow> tz_locks \<Rightarrow> tz_locks" where
  "unlock_unless wasLocked l = (if wasLocked then l else \<lparr>tzLock = False, haveTZLock = False\<rparr>)"

definition clearCache :: "bool \<Rightarrow> ESTimeEnvironment \<times> tz_locks \<Rightarrow> (ESTimeEnvironment \<times> tz_locks) option" where
  "clearCache inMainThread el = (case el of (e, l) \<Rightarrow> do {
     ESAssert inMainThread;
     let wasLocked = haveTZLock l;
     l \<leftarrow> lock_unless_held l;
     let e = e\<lparr>env_prevTimeForTZ := 0, env_cacheMidnightBase := ESFarInThePast\<rparr>;
     Some (e, unlock_unless wasLocked l)
   })"

definition handleNewTimeZone :: "bool \<Rightarrow> ESTimeEnvironment \<times> tz_locks \<Rightarrow> (ESTimeEnvironment \<times> tz_locks) option" where
  "handleNewTimeZone inMainThread el = (case el of (e, l) \<Rightarrow> do {
     ESAssert inMainThread;
     let wasLocked = haveTZLock l;
     l \<leftarrow> lock_unless_held l;
     (e, l) \<leftarrow> clearCache inMainThread (e, l);
     Some (e, unlock_unless wasLocked l)
   })"

definition setTimeZone ::
  "bool \<Rightarrow> bool \<Rightarrow> nat option \<Rightarrow> nat option \<Rightarrow> ESTimeEnvironment \<Rightarrow> tz_locks \<Rightarrow> tz_store \<Rightarrow>
     (ESTimeEnvironment \<times> tz_locks \<times> tz_store) option" where
  "setTimeZone inMainThread assertOnRelease localTimeZone newTimeZone e l h = do {
     ESAssert inMainThread;
     let wasLocked = haveTZLock l;
     l \<leftarrow> lock_unless_held l;
     h \<leftarrow> releaseTimeZone assertOnRelease (env_estz e) h;
     (e, h) \<leftarrow> (case newTimeZone of
         Some p \<Rightarrow> do {
           h \<leftarrow> retainTimeZone p h;
           Some (e\<lparr>env_estz := p, env_timeZoneIsDefault := False\<rparr>, h)
         }
       | None \<Rightarrow> do {
           ESAssert (env_observingIPhoneTime e);
           p \<leftarrow> localTimeZone;
           h \<leftarrow> retainTimeZone p h;
           Some (e\<lparr>env_estz := p, env_timeZoneIsDefault := True\<rparr>, h)
         });
     (e, l) \<leftarrow> handleNewTimeZone inMainThread (e, l);
     Some (e, unlock_unless wasLocked l, h)
   }"

definition lockForBGTZAccess :: "bool \<Rightarrow> tz_locks \<Rightarrow> tz_locks option" where
  "lockForBGTZAccess inMainThread l = do {
     ESAssert (\<not> inMainThread);
     if tzLock l then None else Some (l\<lparr>tzLock := True\<rparr>)
   }"

definition unlockForBGTZAccess :: "bool \<Rightarrow> tz_locks \<Rightarrow> tz_locks option" where
  "unlockForBGTZAccess inMainThread l = do {
     ESAssert (\<not> inMainThread);
     Some (l\<lparr>tzLock := False\<rparr>)
   }"

section \<open>Midnights\<close>

text \<open>What the code uses of \<open>ESUtil::fmod\<close>: the remainder that is not negative.\<close>

definition floor_mod :: "real \<Rightarrow> real \<Rightarrow> real" where
  "floor_mod x y = x - y * real_of_int \<lfloor>x / y\<rfloor>"

definition fmod_ok :: "(real \<Rightarrow> real \<Rightarrow> real) \<Rightarrow> bool" where
  "fmod_ok f \<longleftrightarrow> (\<forall>x y. 0 < y \<longrightarrow> f x y = floor_mod x y)"

text \<open>The time the local clock reads, as seconds of the day.\<close>

definition clock_reading :: "ESTimeZoneImplementation \<Rightarrow> real \<Rightarrow> real" where
  "clock_reading z t = floor_mod (t + offsetFromUTCForTime z t) 86400"

lemma clock_reading_clock: "clock_reading z t = clock_seconds (localComponentsFromTimeInterval t z)"
  by (simp add: clock_reading_def floor_mod_def clock_seconds_clock local_date)

lemma floor_mod_shift: "0 < y \<Longrightarrow> floor_mod (x + y * real_of_int k) y = floor_mod x y"
  by (simp add: floor_mod_def add_divide_distrib algebra_simps)

definition midnight_cache_ok :: "ESTimeZoneImplementation \<Rightarrow> ESTimeEnvironment \<Rightarrow> bool" where
  "midnight_cache_ok z e \<longleftrightarrow>
     (\<forall>t. - (10 ^ 99) \<le> t \<longrightarrow> env_cacheMidnightBase e < t \<longrightarrow>
        t < env_cacheMidnightBase e + ECMidnightCacheSpan \<longrightarrow>
        (\<exists>k::int. t - (if t < env_cacheDSTEvent e then env_cacheMidnightBase e
                       else env_cacheMidnightBase e - env_cacheDSTDelta e) =
           t + offsetFromUTCForTime z t + 86400 * real_of_int k))"

lemma cleared_cache_ok: "env_cacheMidnightBase e = ESFarInThePast \<Longrightarrow> midnight_cache_ok z e"
  by (auto simp: midnight_cache_ok_def ESFarInThePast_def ECMidnightCacheSpan_def)

text \<open>
  The next change the zone answers, for a zone that has at most the change at \<open>T\<close> between
  \<open>lo\<close> and \<open>hi\<close>.
\<close>

definition next_change_ok :: "ESTimeZoneImplementation \<Rightarrow> real \<Rightarrow> real \<Rightarrow> real \<Rightarrow> bool" where
  "next_change_ok z T lo hi \<longleftrightarrow>
     (\<forall>x. lo \<le> x \<longrightarrow> x \<le> hi \<longrightarrow>
       (if x < T \<and> T \<le> hi then nextDSTChangeAfterTime z x = T
        else nextDSTChangeAfterTime z x = 0 \<or> hi < nextDSTChangeAfterTime z x)) \<and> T \<noteq> 0"

lemma floor_mod_cong:
  assumes "0 < y"
  obtains k where "floor_mod x y = x + y * real_of_int k"
proof
  show "floor_mod x y = x + y * real_of_int (- \<lfloor>x / y\<rfloor>)" by (simp add: floor_mod_def)
qed

text \<open>The change of the clock that the code measures, up to whole days.\<close>

lemma measured_change:
  assumes "dst_change z T A B lo hi" "lo + 1 \<le> T" "T + 1 \<le> hi"
  defines "post \<equiv> clock_seconds (localComponentsFromTimeInterval (T + 1) z)"
    and "pre \<equiv> clock_seconds (localComponentsFromTimeInterval (T - 1) z)"
  shows "\<exists>k::int. post - pre - 2 = 60 * real_of_int (B - A) + 86400 * real_of_int k"
proof -
  have o: "offsetFromUTCForTime z (T + 1) = 60 * real_of_int B - T"
    "offsetFromUTCForTime z (T - 1) = 60 * real_of_int A - T"
    using one_change_offset[OF dst_changeD(1)[OF assms(1)], of "T + 1"]
      one_change_offset[OF dst_changeD(1)[OF assms(1)], of "T - 1"] assms(2,3) by simp_all
  obtain i where "post = T + 1 + (60 * real_of_int B - T) + 86400 * real_of_int i"
    unfolding post_def clock_reading_clock[symmetric] clock_reading_def o
    by (rule floor_mod_cong[of 86400]) simp_all
  moreover obtain j where "pre = T - 1 + (60 * real_of_int A - T) + 86400 * real_of_int j"
    unfolding pre_def clock_reading_clock[symmetric] clock_reading_def o
    by (rule floor_mod_cong[of 86400]) simp_all
  ultimately have "post - pre - 2 = 60 * real_of_int (B - A) + 86400 * real_of_int (i - j)" by simp
  then show ?thesis by blast
qed

text \<open>The first midnight of the window, when no midnight is skipped by the change.\<close>

lemma first_midnight:
  assumes z: "dst_change z T A B lo hi" and r: "lo + 400000 \<le> x" "x \<le> hi - 400000"
    and nogap: "\<And>n. \<not> (A \<le> 1440 * n \<and> 1440 * n < B)"
  obtains n :: int where
    "x - 90000 \<le> just_after_midnight z x - 1" "just_after_midnight z x - 1 \<le> x + 3600"
    "(just_after_midnight z x - 1 = 86400 * real_of_int n - (60 * real_of_int A - T) \<and> 1440 * n < A) \<or>
     (just_after_midnight z x - 1 = 86400 * real_of_int n - (60 * real_of_int B - T) \<and> B \<le> 1440 * n)"
proof -
  define n where "n = \<lfloor>(x + offsetFromUTCForTime z x) / 86400\<rfloor>"
  have o: "offsetFromUTCForTime z x = (if x < T then 60 * real_of_int A - T else 60 * real_of_int B - T)"
    using one_change_offset[OF dst_changeD(1)[OF z], of x] r by simp
  have "real_of_int n \<le> (x + offsetFromUTCForTime z x) / 86400"
    "(x + offsetFromUTCForTime z x) / 86400 < real_of_int n + 1"
    unfolding n_def by (rule of_int_floor_le, rule floor_correct[THEN conjunct2, simplified])
  then have n: "86400 * real_of_int n \<le> x + offsetFromUTCForTime z x"
    "x + offsetFromUTCForTime z x < 86400 * real_of_int n + 86400" by simp_all
  note bd = one_change_bounds[OF dst_changeD(1)[OF z]]
  have ob: "- 86400 \<le> offsetFromUTCForTime z x" "offsetFromUTCForTime z x \<le> 86400"
    using bd o by auto
  have ab: "real_of_int A - real_of_int B \<le> 60" "real_of_int B - real_of_int A \<le> 60"
    using dst_changeD(2)[OF z] by linarith+
  have c: "(just_after_midnight z x - 1 = 86400 * real_of_int n - (60 * real_of_int A - T) \<and> 1440 * n < A) \<or>
     (just_after_midnight z x - 1 = 86400 * real_of_int n - (60 * real_of_int B - T) \<and> B \<le> 1440 * n)"
    using just_after_midnight_cases[OF z n_def[symmetric]] n ob r nogap[of n] by auto
  have "x - 90000 \<le> just_after_midnight z x - 1 \<and> just_after_midnight z x - 1 \<le> x + 3600"
    using c n o ab by (auto split: if_splits)
  then show thesis using that c by blast
qed

lemma fill_midnight_cache_fields:
  defines "base \<equiv> \<lambda>z t. just_after_midnight z (t - ECMidnightCachePreload) - 1"
  shows "env_cacheMidnightBase (fill_midnight_cache z t e) = base z t"
    "nextDSTChangeAfterTime z (base z t + 1) = 0 \<Longrightarrow> env_cacheDSTDelta (fill_midnight_cache z t e) = 0"
    "nextDSTChangeAfterTime z (base z t + 1) = T \<Longrightarrow> T \<noteq> 0 \<Longrightarrow>
       env_cacheDSTEvent (fill_midnight_cache z t e) = T"
    "nextDSTChangeAfterTime z (base z t + 1) = T \<Longrightarrow> base z t + ECMidnightCacheSpan < T \<Longrightarrow>
       env_cacheDSTDelta (fill_midnight_cache z t e) = 0"
  by (auto simp: base_def fill_midnight_cache_def just_after_midnight_def Let_def
      nextDSTChangeAfterTimeInterval_def)

lemma fill_midnight_cache_delta:
  assumes "nextDSTChangeAfterTime z (just_after_midnight z (t - ECMidnightCachePreload)) = T" "T \<noteq> 0"
    "T \<le> just_after_midnight z (t - ECMidnightCachePreload) - 1 + ECMidnightCacheSpan"
  defines "d \<equiv> clock_seconds (localComponentsFromTimeInterval (T + 1) z) -
      clock_seconds (localComponentsFromTimeInterval (T - 1) z) - 2"
  shows "env_cacheDSTDelta (fill_midnight_cache z t e) \<in> {d, d - 86400, d + 86400}"
proof -
  have "env_cacheDSTDelta (fill_midnight_cache z t e) =
    (if \<bar>d + 2\<bar> > 43200 then if d + 2 > 0 then d - 86400 else d + 86400 else d)"
    using assms(1-3)
    by (simp add: fill_midnight_cache_def just_after_midnight_def Let_def
        nextDSTChangeAfterTimeInterval_def d_def)
  then show ?thesis by auto
qed

lemma fill_midnight_cache_ok:
  fixes e
  assumes z: "dst_change z T A B (t - 2000000) (t + 3000000)"
    and nx: "next_change_ok z T (t - 2000000) (t + 3000000)"
    and nogap: "\<And>n. \<not> (A \<le> 1440 * n \<and> 1440 * n < B)"
  defines "e' \<equiv> fill_midnight_cache z t e"
  shows "midnight_cache_ok z e'" "env_cacheMidnightBase e' < t"
    "t < env_cacheMidnightBase e' + ECMidnightCacheSpan"
proof -
  define u where "u = just_after_midnight z (t - ECMidnightCachePreload)"
  define base where "base = u - 1"
  note f = fill_midnight_cache_fields[where z = z and t = t and e = e, folded u_def, folded base_def, folded e'_def]
  note span = ECMidnightCacheSpan_def ECMidnightCachePreload_def
  have r: "t - 2000000 + 400000 \<le> t - ECMidnightCachePreload" "t - ECMidnightCachePreload \<le> t + 3000000 - 400000"
    by (simp_all add: span)
  obtain n :: int where n: "t - ECMidnightCachePreload - 90000 \<le> base" "base \<le> t - ECMidnightCachePreload + 3600"
    "(base = 86400 * real_of_int n - (60 * real_of_int A - T) \<and> 1440 * n < A) \<or>
     (base = 86400 * real_of_int n - (60 * real_of_int B - T) \<and> B \<le> 1440 * n)"
    unfolding base_def u_def using first_midnight[OF z r nogap] by metis
  show w: "env_cacheMidnightBase e' < t" "t < env_cacheMidnightBase e' + ECMidnightCacheSpan"
    using n(1,2) by (simp_all add: f(1) span)
  have u1: "u = base + 1" by (simp add: base_def)
  have off: "offsetFromUTCForTime z x = (if x < T then 60 * real_of_int A - T else 60 * real_of_int B - T)"
    if "base < x" "x < base + ECMidnightCacheSpan" for x
    using one_change_offset[OF dst_changeD(1)[OF z], of x] that n(1,2) by (simp add: span)
  have nxt: "if u < T \<and> T \<le> t + 3000000 then nextDSTChangeAfterTime z u = T
      else nextDSTChangeAfterTime z u = 0 \<or> t + 3000000 < nextDSTChangeAfterTime z u"
    using nx n(1,2) u1 unfolding next_change_ok_def span by auto
  have quiet: "midnight_cache_ok z e'"
    if q: "nextDSTChangeAfterTime z u = 0 \<or> base + ECMidnightCacheSpan < nextDSTChangeAfterTime z u"
      and c: "\<And>x. base < x \<Longrightarrow> x < base + ECMidnightCacheSpan \<Longrightarrow>
        \<exists>k::int. x - base = x + offsetFromUTCForTime z x + 86400 * real_of_int k"
  proof -
    have "env_cacheDSTDelta e' = 0" using q f(2,4) u1 by auto
    then show ?thesis using c by (auto simp: midnight_cache_ok_def f(1))
  qed
  show "midnight_cache_ok z e'"
  proof (cases "base = 86400 * real_of_int n - (60 * real_of_int A - T) \<and> 1440 * n < A")
    case True
    then have b: "base = 86400 * real_of_int n - (60 * real_of_int A - T)" "u < T"
      using u1 by auto
    have c1: "x - base = x + (60 * real_of_int A - T) + 86400 * real_of_int (- n)" for x
      by (simp add: b(1))
    show ?thesis
    proof (cases "T \<le> base + ECMidnightCacheSpan")
      case False
      have "nextDSTChangeAfterTime z u = 0 \<or> base + ECMidnightCacheSpan < nextDSTChangeAfterTime z u"
        using nxt False b(2) n(1,2) by (auto simp: span split: if_splits)
      moreover have "offsetFromUTCForTime z x = 60 * real_of_int A - T"
        if "base < x" "x < base + ECMidnightCacheSpan" for x
        using off[OF that] that False by simp
      ultimately show ?thesis using c1 by (intro quiet) metis+
    next
      case in_window: True
      then have next_T: "nextDSTChangeAfterTime z u = T"
        using nxt b(2) n(1,2) by (auto simp: span split: if_splits)
      have T0: "T \<noteq> 0" using nx by (simp add: next_change_ok_def)
      have ev: "env_cacheDSTEvent e' = T" using f(3) next_T T0 u1 by simp
      obtain k where k: "env_cacheDSTDelta e' = 60 * real_of_int (B - A) + 86400 * real_of_int k"
      proof -
        have rT: "t - 2000000 + 1 \<le> T" "T + 1 \<le> t + 3000000"
          using b(2) u1 in_window n(1,2) by (simp_all add: span)
        obtain j where j: "clock_seconds (localComponentsFromTimeInterval (T + 1) z) -
            clock_seconds (localComponentsFromTimeInterval (T - 1) z) - 2 =
            60 * real_of_int (B - A) + 86400 * real_of_int j"
          using measured_change[OF z rT] by blast
        have "env_cacheDSTDelta e' \<in> {60 * real_of_int (B - A) + 86400 * real_of_int j,
            60 * real_of_int (B - A) + 86400 * real_of_int (j - 1),
            60 * real_of_int (B - A) + 86400 * real_of_int (j + 1)}"
          using fill_midnight_cache_delta[of z t T e] next_T T0 in_window u1
          unfolding u_def[symmetric] e'_def[symmetric] j by (auto simp: algebra_simps)
        then show thesis using that by blast
      qed
      show ?thesis
        unfolding midnight_cache_ok_def f(1) ev k
      proof (intro allI impI)
        fix x assume x: "base < x" "x < base + ECMidnightCacheSpan"
        show "\<exists>i::int. x - (if x < T then base else base - (60 * real_of_int (B - A) + 86400 * real_of_int k)) =
            x + offsetFromUTCForTime z x + 86400 * real_of_int i"
        proof (cases "x < T")
          case True
          then show ?thesis using off[OF x] c1[of x] by (intro exI[of _ "- n"]) simp
        next
          case False
          then show ?thesis using off[OF x] b(1)
            by (intro exI[of _ "k - n"]) (simp add: algebra_simps)
        qed
      qed
    qed
  next
    case False
    then have b: "base = 86400 * real_of_int n - (60 * real_of_int B - T)" "T \<le> base" using n(3) by auto
    have "nextDSTChangeAfterTime z u = 0 \<or> base + ECMidnightCacheSpan < nextDSTChangeAfterTime z u"
      using nxt b(2) n(1,2) u1 by (auto simp: span split: if_splits)
    moreover have "x - base = x + offsetFromUTCForTime z x + 86400 * real_of_int (- n)"
      if "base < x" "x < base + ECMidnightCacheSpan" for x
      using off[OF that] that b by simp
    ultimately show ?thesis by (intro quiet) blast+
  qed
qed

lemma midnight_of_environment:
  assumes z: "dst_change z T A B (t - 2000000) (t + 3000000)"
    and "next_change_ok z T (t - 2000000) (t + 3000000)"
    and "\<And>n. \<not> (A \<le> 1440 * n \<and> 1440 * n < B)"
    and "fmod_ok f" "env_zone e h = Some z" "midnight_cache_ok z e" "- (10 ^ 99) \<le> t"
  shows "\<exists>e'. midnightForTimeInterval f h t e = Some (t - clock_reading z t, e') \<and>
    midnight_cache_ok z e' \<and> env_estz e' = env_estz e"
proof -
  let ?miss = "t \<le> env_cacheMidnightBase e \<or> t \<ge> env_cacheMidnightBase e + ECMidnightCacheSpan"
  define e' where "e' = (if ?miss then fill_midnight_cache z t e else e)"
  have c: "midnight_cache_ok z e'" "env_cacheMidnightBase e' < t"
    "t < env_cacheMidnightBase e' + ECMidnightCacheSpan"
    using fill_midnight_cache_ok[OF assms(1-3)] assms(6) by (auto simp: e'_def)
  obtain k :: int where k: "t - (if t < env_cacheDSTEvent e' then env_cacheMidnightBase e'
      else env_cacheMidnightBase e' - env_cacheDSTDelta e') =
      t + offsetFromUTCForTime z t + 86400 * real_of_int k"
    using c assms(7) unfolding midnight_cache_ok_def by blast
  have "f (t + offsetFromUTCForTime z t + 86400 * real_of_int k) 86400 = clock_reading z t"
    using assms(4) by (simp add: fmod_ok_def clock_reading_def floor_mod_shift)
  moreover have "midnightForTimeInterval f h t e =
      Some (t - f (t - (if t < env_cacheDSTEvent e' then env_cacheMidnightBase e'
      else env_cacheMidnightBase e' - env_cacheDSTDelta e')) 86400, e')"
    using assms(5) by (simp add: midnightForTimeInterval_def e'_def Let_def)
  moreover have "env_estz e' = env_estz e"
    by (auto simp: e'_def fill_midnight_cache_def Let_def)
  ultimately show ?thesis using c(1) k by auto
qed


text \<open>
  Near \<open>t\<close>, from about 23 days before to about 35 days after, the zone has at most one change of
  daylight saving time, by at most an hour and at a whole minute, which skips no midnight, and it
  answers the next change correctly.
\<close>

definition regular_near :: "ESTimeZoneImplementation \<Rightarrow> real \<Rightarrow> bool" where
  "regular_near z t \<longleftrightarrow> - (10 ^ 99) \<le> t \<and> (\<exists>T A B. dst_change z T A B (t - 2000000) (t + 3000000) \<and>
     next_change_ok z T (t - 2000000) (t + 3000000) \<and> (\<forall>n. \<not> (A \<le> 1440 * n \<and> 1440 * n < B)))"

lemma midnight_regular:
  assumes "regular_near z t" "fmod_ok f" "env_zone e h = Some z" "midnight_cache_ok z e"
  shows "\<exists>e'. midnightForTimeInterval f h t e = Some (t - clock_reading z t, e') \<and>
    midnight_cache_ok z e' \<and> env_zone e' h = Some z"
proof -
  obtain T A B where r: "dst_change z T A B (t - 2000000) (t + 3000000)"
      "next_change_ok z T (t - 2000000) (t + 3000000)" "\<And>n. \<not> (A \<le> 1440 * n \<and> 1440 * n < B)" "- (10 ^ 99) \<le> t"
    using assms(1) unfolding regular_near_def by blast
  show ?thesis using midnight_of_environment[OF r(1,2,3) assms(2,3,4) r(4)] assms(3) by (auto simp: env_zone_def)
qed

text \<open>Queries one after the other, through the cache.\<close>

fun midnights :: "(real \<Rightarrow> real \<Rightarrow> real) \<Rightarrow> tz_store \<Rightarrow> ESTimeInterval list \<Rightarrow> ESTimeEnvironment \<Rightarrow>
    (ESTimeInterval list \<times> ESTimeEnvironment) option" where
  "midnights f h [] e = Some ([], e)"
| "midnights f h (t # ts) e = do {
     (m, e) \<leftarrow> midnightForTimeInterval f h t e;
     (ms, e) \<leftarrow> midnights f h ts e;
     Some (m # ms, e)
   }"

lemma midnights_regular:
  assumes "\<forall>t\<in>set ts. regular_near z t" "fmod_ok f" "env_zone e h = Some z" "midnight_cache_ok z e"
  shows "\<exists>e'. midnights f h ts e = Some (map (\<lambda>t. t - clock_reading z t) ts, e') \<and>
    midnight_cache_ok z e' \<and> env_zone e' h = Some z"
  using assms(1,3,4)
proof (induction ts arbitrary: e)
  case (Cons t ts)
  obtain e1 where e1: "midnightForTimeInterval f h t e = Some (t - clock_reading z t, e1)" "midnight_cache_ok z e1"
      "env_zone e1 h = Some z"
    using midnight_regular[OF _ assms(2) Cons.prems(2,3)] Cons.prems(1) by force
  show ?case using Cons.IH[OF _ e1(3,2)] Cons.prems(1) e1(1) by force
qed simp

text \<open>C30: From a cleared cache on, for any sequence of queries, each midnight found is the time less what the local clock reads, whatever the queries before have left in the cache, also across a change of daylight saving time in the cached 30 days. Each query must be at a regular time of the zone: from 2000000 s before to 3000000 s after it there is at most one change, of at most 60 minutes, from one whole local minute to another, that skips no midnight (a skipped one makes the answers wrong: theorem midnight_after_skipped_midnight), is not at time 0, and is what the zone answers as its next change; ESUtil::fmod is the remainder of the floor.\<close>

theorem midnight_correct:
  assumes "env_cacheMidnightBase e = ESFarInThePast" "env_zone e h = Some z" "fmod_ok f"
    and "\<forall>t\<in>set ts. regular_near z t"
  shows "\<exists>e'. midnights f h ts e = Some (map (\<lambda>t. t - clock_reading z t) ts, e')"
  using midnights_regular[OF assms(4,3,2) cleared_cache_ok[OF assms(1)]] by blast

text \<open>
  A zone that skips a midnight: three hours behind before the change, two after it, and the
  change at a local midnight. When the first day of the window is the day of the change, the
  hour that is missing from the base is missing from every midnight of the window.
\<close>

definition skipping_zone :: ESTimeZoneImplementation where
  "skipping_zone = \<lparr>offsetFromUTCForTime = (\<lambda>x. if x < 10800 then - 10800 else - 7200),
     isDSTAtTime = (\<lambda>x. 10800 \<le> x), nextDSTChangeAfterTime = (\<lambda>x. if x < 10800 then 10800 else 0),
     impl_name = []\<rparr>"

definition fresh_environment :: ESTimeEnvironment where
  "fresh_environment = \<lparr>env_estz = 0, env_prevTimeForTZ = 0, env_resultForTZ = 0,
     env_cacheMidnightBase = ESFarInThePast, env_cacheDSTEvent = 0, env_cacheDSTDelta = 0,
     env_observingIPhoneTime = False, env_timeZoneIsDefault = False\<rparr>"

lemma floor_values:
  "\<lfloor>46800 / 86400 :: real\<rfloor> = 0" "\<lfloor>3601 / 86400 :: real\<rfloor> = 0" "\<lfloor>- 1 / 86400 :: real\<rfloor> = - 1"
  "\<lfloor>1346400 / 86400 :: real\<rfloor> = 15" "\<lfloor>1342800 / 86400 :: real\<rfloor> = 15"
  by (rule floor_unique; simp)+

lemma skipping_base: "just_after_midnight skipping_zone 54000 = 7201"
proof -
  have "\<lfloor>(54000 + offsetFromUTCForTime skipping_zone 54000) / 86400\<rfloor> = 0"
    using floor_values(1) by (simp add: skipping_zone_def)
  from just_after_midnight_day[OF this] obtain cs where
    "just_after_midnight skipping_zone 54000 = timeIntervalFromLocalComponents skipping_zone cs"
    "timeIntervalFromUTCComponents cs = 1" by auto
  then show ?thesis by (simp add: timeIntervalFromLocalComponents_def skipping_zone_def)
qed

theorem midnight_after_skipped_midnight:
  "(\<exists>e'. midnightForTimeInterval floor_mod [0 \<mapsto> \<lparr>tz_impl = skipping_zone, refCount = 1\<rparr>] 1350000
     fresh_environment = Some (1350000 - 50400, e')) \<and> clock_reading skipping_zone 1350000 = 46800"
proof -
  let ?e = "fill_midnight_cache skipping_zone 1350000 fresh_environment"
  have p: "1350000 - ECMidnightCachePreload = 54000" by (simp add: ECMidnightCachePreload_def)
  note f = fill_midnight_cache_fields[where z = skipping_zone and t = 1350000 and e = fresh_environment,
      unfolded p skipping_base, simplified]
  have b: "env_cacheMidnightBase ?e = 7200" and ev: "env_cacheDSTEvent ?e = 10800"
    using f(1,3) by (simp_all add: skipping_zone_def)
  have c: "clock_seconds (localComponentsFromTimeInterval 10801 skipping_zone) = 3601"
    "clock_seconds (localComponentsFromTimeInterval 10799 skipping_zone) = 86399"
    unfolding clock_reading_clock[symmetric] clock_reading_def
    using floor_values by (simp_all add: skipping_zone_def floor_mod_def)
  have d: "env_cacheDSTDelta ?e = 3600"
    using skipping_base c unfolding just_after_midnight_def
    by (simp add: fill_midnight_cache_def p Let_def nextDSTChangeAfterTimeInterval_def ECMidnightCacheSpan_def)
      (simp add: skipping_zone_def)
  have "midnightForTimeInterval floor_mod [0 \<mapsto> \<lparr>tz_impl = skipping_zone, refCount = 1\<rparr>] 1350000
      fresh_environment = Some (1350000 - 50400, ?e)"
    using b d ev floor_values(4)
    by (simp add: midnightForTimeInterval_def env_zone_def fresh_environment_def ESFarInThePast_def
        ECMidnightCacheSpan_def Let_def floor_mod_def)
  then show ?thesis
    using floor_values(5) by (auto simp: clock_reading_def floor_mod_def skipping_zone_def)
qed

section \<open>References to zones\<close>

text \<open>The environment's reference moves from the old zone to the new one; the lock is free again.\<close>

theorem setTimeZone_moves_reference:
  assumes "h (env_estz e) = Some old" "0 < refCount old" "h p = Some new" "0 < refCount new"
    and "l = \<lparr>tzLock = False, haveTZLock = False\<rparr>"
  shows "(p \<noteq> env_estz e \<longrightarrow> (\<exists>e' h'. setTimeZone True False lz (Some p) e l h = Some (e', l, h') \<and>
      env_estz e' = p \<and> (\<forall>z. midnight_cache_ok z e') \<and>
      h' p = Some (new\<lparr>refCount := refCount new + 1\<rparr>) \<and>
      h' (env_estz e) = (if refCount old = 1 then None else Some (old\<lparr>refCount := refCount old - 1\<rparr>)))) \<and>
    (p = env_estz e \<longrightarrow> setTimeZone True False lz (Some p) e l h =
      (if refCount old = 1 then None
       else Some (e\<lparr>env_timeZoneIsDefault := False, env_prevTimeForTZ := 0,
                   env_cacheMidnightBase := ESFarInThePast\<rparr>, l, h)))"
proof -
  have r: "releaseTimeZone False (env_estz e) h =
      Some (if refCount old = 1 then h(env_estz e := None)
            else h(env_estz e \<mapsto> old\<lparr>refCount := refCount old - 1\<rparr>))"
    using assms(1,2) by (simp add: releaseTimeZone_def freeTimeZone_def Let_def)
  show ?thesis
    using assms
    by (auto simp: setTimeZone_def r retainTimeZone_def lock_unless_held_def unlock_unless_def
        handleNewTimeZone_def clearCache_def cleared_cache_ok fun_upd_idem)
qed

section \<open>The theorems in a concrete environment\<close>

definition spring_store :: tz_store where
  "spring_store = [0 \<mapsto> \<lparr>tz_impl = spring_zone, refCount = 1\<rparr>, 1 \<mapsto> \<lparr>tz_impl = eastern_standard, refCount = 1\<rparr>]"

lemma fresh_environment_time [simp]: "env_prevTimeForTZ fresh_environment = 0"
  by (simp add: fresh_environment_def)

lemma spring_env_zone: "env_zone fresh_environment spring_store = Some spring_zone"
  by (simp add: env_zone_def fresh_environment_def spring_store_def)

lemma spring_no_skip: "\<not> (144120 \<le> 1440 * n \<and> 1440 * n < (144180 :: int))"
proof
  assume n: "144120 \<le> 1440 * n \<and> 1440 * n < 144180"
  then have "101 \<le> n" by linarith
  with n show False by linarith
qed

lemma spring_next_change: "0 < lo \<or> lo < 8665200 \<Longrightarrow> next_change_ok spring_zone 8665200 lo hi"
  by (simp add: next_change_ok_def)

lemma floor_mod_ok: "fmod_ok floor_mod"
  by (simp add: fmod_ok_def)

lemma spring_regular: "0 \<le> t \<Longrightarrow> t < 10665200 \<Longrightarrow> regular_near spring_zone t"
  unfolding regular_near_def
  by (intro conjI exI[of _ 8665200] exI[of _ 144120] exI[of _ 144180] spring_zone_change spring_next_change)
    (simp_all add: spring_no_skip)

text \<open>In the summer, before the change, at the change and an hour after it.\<close>

theorem midnight_correct_witness:
  "\<exists>e'. midnights floor_mod spring_store [9000000, 8600000, 8665200, 8668800] fresh_environment =
      Some ([9000000 - clock_reading spring_zone 9000000, 8600000 - clock_reading spring_zone 8600000,
        8665200 - clock_reading spring_zone 8665200, 8668800 - clock_reading spring_zone 8668800], e')"
  using midnight_correct[OF _ spring_env_zone floor_mod_ok, of "[9000000, 8600000, 8665200, 8668800]"]
  by (simp add: fresh_environment_def spring_regular)

theorem setTimeZone_moves_reference_witness:
  "\<exists>e' h'. setTimeZone True False None (Some 1) fresh_environment \<lparr>tzLock = False, haveTZLock = False\<rparr>
      spring_store = Some (e', \<lparr>tzLock = False, haveTZLock = False\<rparr>, h') \<and> env_estz e' = 1 \<and> h' 0 = None"
proof -
  have "\<exists>e' h'. setTimeZone True False None (Some 1) fresh_environment \<lparr>tzLock = False, haveTZLock = False\<rparr>
      spring_store = Some (e', \<lparr>tzLock = False, haveTZLock = False\<rparr>, h') \<and> env_estz e' = 1 \<and>
      (\<forall>z. midnight_cache_ok z e') \<and> h' 1 = Some \<lparr>tz_impl = eastern_standard, refCount = 2\<rparr> \<and> h' 0 = None"
    using setTimeZone_moves_reference[of spring_store fresh_environment
        "\<lparr>tz_impl = spring_zone, refCount = 1\<rparr>" 1 "\<lparr>tz_impl = eastern_standard, refCount = 1\<rparr>" _ None]
    by (simp add: spring_store_def fresh_environment_def)
  then show ?thesis by blast
qed

end
