(* ===== verification/EsWatchTime.thy ===== *)
theory EsWatchTime
  imports EsTimeLaws EsTimeEnvironment
begin

text \<open>
  The clocks of the applications: src/ESWatchTime.cpp. A watch runs at \<open>_warp\<close> times the speed
  of the time service, \<open>y = warp * x + zero\<close>, or is stopped (\<open>_warp\<close> is 0) at \<open>zero\<close>.

  An operation gets what \<open>currentContinuousSystemTime\<close> returns during it and the state of the
  time service, which it only reads. \<open>nan\<close> as a start time is \<^const>\<open>None\<close>.
\<close>

section \<open>Speeds\<close>

datatype ESWatchTimeCycle =
    CycleReverseFF6 | CycleReverseFF5 | CycleReverseFF4 | CycleReverseFF3 | CycleReverseFF2
  | CycleReverseFF1 | CycleReverse | CycleReverseSlow1 | CycleSlow1 | CycleNormal | CycleFF1
  | CycleFF2 | CycleFF3 | CycleFF4 | CycleFF5 | CycleFF6 | CyclePaused | CycleOther

fun cycle_index :: "ESWatchTimeCycle \<Rightarrow> nat" where
  "cycle_index CycleReverseFF6 = 0" | "cycle_index CycleReverseFF5 = 1"
| "cycle_index CycleReverseFF4 = 2" | "cycle_index CycleReverseFF3 = 3"
| "cycle_index CycleReverseFF2 = 4" | "cycle_index CycleReverseFF1 = 5"
| "cycle_index CycleReverse = 6" | "cycle_index CycleReverseSlow1 = 7"
| "cycle_index CycleSlow1 = 8" | "cycle_index CycleNormal = 9"
| "cycle_index CycleFF1 = 10" | "cycle_index CycleFF2 = 11"
| "cycle_index CycleFF3 = 12" | "cycle_index CycleFF4 = 13"
| "cycle_index CycleFF5 = 14" | "cycle_index CycleFF6 = 15"
| "cycle_index CyclePaused = 16" | "cycle_index CycleOther = 17"

fun warpValuesForCycle :: "ESWatchTimeCycle \<Rightarrow> real" where
  "warpValuesForCycle CycleReverseFF6 = - 5 * 24 * 3600"
| "warpValuesForCycle CycleReverseFF5 = - 24 * 3600"
| "warpValuesForCycle CycleReverseFF4 = - 5 * 3600"
| "warpValuesForCycle CycleReverseFF3 = - 3600"
| "warpValuesForCycle CycleReverseFF2 = - 60"
| "warpValuesForCycle CycleReverseFF1 = - 5"
| "warpValuesForCycle CycleReverse = - 1"
| "warpValuesForCycle CycleReverseSlow1 = - 0.25"
| "warpValuesForCycle CycleSlow1 = 0.25"
| "warpValuesForCycle CycleNormal = 1"
| "warpValuesForCycle CycleFF1 = 5"
| "warpValuesForCycle CycleFF2 = 60"
| "warpValuesForCycle CycleFF3 = 3600"
| "warpValuesForCycle CycleFF4 = 5 * 3600"
| "warpValuesForCycle CycleFF5 = 24 * 3600"
| "warpValuesForCycle CycleFF6 = 5 * 24 * 3600"
| "warpValuesForCycle CyclePaused = 0"
| "warpValuesForCycle CycleOther = 1"

fun nextCycleForFF :: "ESWatchTimeCycle \<Rightarrow> ESWatchTimeCycle" where
  "nextCycleForFF CycleReverseFF6 = CycleReverseFF5"
| "nextCycleForFF CycleReverseFF5 = CycleReverseFF4"
| "nextCycleForFF CycleReverseFF4 = CycleReverseFF3"
| "nextCycleForFF CycleReverseFF3 = CycleReverseFF2"
| "nextCycleForFF CycleReverseFF2 = CycleReverseFF1"
| "nextCycleForFF CycleReverseFF1 = CycleReverse"
| "nextCycleForFF CycleReverse = CycleReverseSlow1"
| "nextCycleForFF CycleReverseSlow1 = CycleSlow1"
| "nextCycleForFF CycleSlow1 = CycleNormal"
| "nextCycleForFF CycleNormal = CycleFF1"
| "nextCycleForFF CycleFF1 = CycleFF2"
| "nextCycleForFF CycleFF2 = CycleFF3"
| "nextCycleForFF CycleFF3 = CycleFF4"
| "nextCycleForFF CycleFF4 = CycleFF5"
| "nextCycleForFF CycleFF5 = CycleFF6"
| "nextCycleForFF CycleFF6 = CycleNormal"
| "nextCycleForFF CyclePaused = CycleNormal"
| "nextCycleForFF CycleOther = CycleNormal"

fun nextCycleForRewind :: "ESWatchTimeCycle \<Rightarrow> ESWatchTimeCycle" where
  "nextCycleForRewind CycleReverseFF6 = CycleReverse"
| "nextCycleForRewind CycleReverseFF5 = CycleReverseFF6"
| "nextCycleForRewind CycleReverseFF4 = CycleReverseFF5"
| "nextCycleForRewind CycleReverseFF3 = CycleReverseFF4"
| "nextCycleForRewind CycleReverseFF2 = CycleReverseFF3"
| "nextCycleForRewind CycleReverseFF1 = CycleReverseFF2"
| "nextCycleForRewind CycleReverse = CycleReverseFF1"
| "nextCycleForRewind CycleReverseSlow1 = CycleReverse"
| "nextCycleForRewind CycleSlow1 = CycleReverseSlow1"
| "nextCycleForRewind CycleNormal = CycleSlow1"
| "nextCycleForRewind CycleFF1 = CycleNormal"
| "nextCycleForRewind CycleFF2 = CycleFF1"
| "nextCycleForRewind CycleFF3 = CycleFF2"
| "nextCycleForRewind CycleFF4 = CycleFF3"
| "nextCycleForRewind CycleFF5 = CycleFF4"
| "nextCycleForRewind CycleFF6 = CycleFF5"
| "nextCycleForRewind CyclePaused = CycleReverseSlow1"
| "nextCycleForRewind CycleOther = CycleReverse"

section \<open>State\<close>

record ESWatchTime =
  wt_warp :: real
  wt_zero :: real
  wt_fastWarpReferenceTime :: ESTimeInterval
  wt_warpBeforeFreeze :: real
  wt_cycle :: ESWatchTimeCycle
  wt_useSmoothTime :: bool
  wt_latched :: int
  wt_latchCorrectedTime :: ESTimeInterval

definition new_watch :: "ESTimeInterval \<Rightarrow> ESWatchTime" where
  "new_watch junk = \<lparr>wt_warp = 1, wt_zero = 0, wt_fastWarpReferenceTime = 0, wt_warpBeforeFreeze = 0,
     wt_cycle = CycleNormal, wt_useSmoothTime = False, wt_latched = 0, wt_latchCorrectedTime = junk\<rparr>"

definition new_frozen_watch :: "ESTimeInterval \<Rightarrow> ESTimeInterval \<Rightarrow> ESWatchTime" where
  "new_frozen_watch junk frozenTimeInterval = \<lparr>wt_warp = 0, wt_zero = frozenTimeInterval,
     wt_fastWarpReferenceTime = 0, wt_warpBeforeFreeze = 0, wt_cycle = CyclePaused,
     wt_useSmoothTime = False, wt_latched = 0, wt_latchCorrectedTime = junk\<rparr>"

definition appropriateCorrectedTime :: "real \<Rightarrow> estime \<Rightarrow> ESWatchTime \<Rightarrow> real option" where
  "appropriateCorrectedTime now s w =
     (if wt_useSmoothTime w then Some (currentContinuousTime now) else currentTime now s)"

definition calcEffectiveSkewIgnoringLeapSeconds :: "estime \<Rightarrow> ESWatchTime \<Rightarrow> real option" where
  "calcEffectiveSkewIgnoringLeapSeconds s w =
     (if wt_useSmoothTime w then Some (es_continuousOffset s) else skewForReportingPurposesOnly s)"

definition ourTimeAtIPhoneZeroIgnoringLeapSeconds :: "estime \<Rightarrow> ESWatchTime \<Rightarrow> real option" where
  "ourTimeAtIPhoneZeroIgnoringLeapSeconds s w =
     (if wt_warp w \<noteq> 0
      then do { k \<leftarrow> calcEffectiveSkewIgnoringLeapSeconds s w; Some (wt_zero w + k) }
      else Some (wt_zero w))"

section \<open>The time of a watch\<close>

definition wt_currentTimeIgnoringLatch :: "real \<Rightarrow> estime \<Rightarrow> ESWatchTime \<Rightarrow> real option" where
  "wt_currentTimeIgnoringLatch now s w =
     (if wt_warp w \<noteq> 0
      then do { x \<leftarrow> appropriateCorrectedTime now s w; Some (wt_warp w * x + wt_zero w) }
      else Some (wt_zero w))"

definition wt_currentTime :: "real \<Rightarrow> estime \<Rightarrow> ESWatchTime \<Rightarrow> real option" where
  "wt_currentTime now s w =
     (if wt_latched w \<noteq> 0 then Some (wt_latchCorrectedTime w)
      else if wt_warp w \<noteq> 0
      then do { x \<leftarrow> appropriateCorrectedTime now s w; Some (wt_warp w * x + wt_zero w) }
      else Some (wt_zero w))"

definition convertFromSystemToWatch :: "real \<Rightarrow> estime \<Rightarrow> ESWatchTime \<Rightarrow> real option" where
  "convertFromSystemToWatch t s w =
     (if wt_warp w \<noteq> 0
      then let continuousTime = cTimeForSysTime t s in do {
        correctedTime \<leftarrow> (if wt_useSmoothTime w then Some continuousTime
                          else ntpTimeForCTime continuousTime s);
        Some (wt_warp w * correctedTime + wt_zero w)
      }
      else Some (wt_zero w))"

definition convertFromWatchToSystem :: "real \<Rightarrow> estime \<Rightarrow> ESWatchTime \<Rightarrow> real option" where
  "convertFromWatchToSystem t s w =
     (if wt_warp w = 0 then Some 0
      else let correctedTime = (t - wt_zero w) / wt_warp w in do {
        continuousTime \<leftarrow> (if wt_useSmoothTime w then Some correctedTime
                           else cTimeForNTPTime correctedTime s);
        Some (sysTimeForCTime continuousTime s)
      })"

text \<open>The inner option is the double: \<^const>\<open>None\<close> is NaN.\<close>

definition contTimeForWatchTime :: "real \<Rightarrow> real \<Rightarrow> estime \<Rightarrow> ESWatchTime \<Rightarrow> real option option" where
  "contTimeForWatchTime now t s w =
     (if wt_warp w = 0
      then let effectiveWatchTime = (if wt_latched w \<noteq> 0 then wt_latchCorrectedTime w else wt_zero w)
           in if effectiveWatchTime = t then Some (Some (currentContinuousTime now)) else Some None
      else let correctedTime = (t - wt_zero w) / wt_warp w in do {
        continuousTime \<leftarrow> (if wt_useSmoothTime w then Some correctedTime
                           else cTimeForNTPTime correctedTime s);
        Some (Some continuousTime)
      })"

definition contTimeForCurrentWatchTime :: "real \<Rightarrow> estime \<Rightarrow> ESWatchTime \<Rightarrow> real option" where
  "contTimeForCurrentWatchTime now s w =
     (if wt_warp w = 0
      then if wt_latched w \<noteq> 0
           then if wt_useSmoothTime w then Some (wt_latchCorrectedTime w)
                else cTimeForNTPTime (wt_latchCorrectedTime w) s
           else Some (currentContinuousTime now)
      else if wt_useSmoothTime w
           then Some ((currentContinuousTime now - wt_zero w) / wt_warp w)
           else do {
             t \<leftarrow> currentTime now s;
             cTimeForNTPTime ((t - wt_zero w) / wt_warp w) s
           })"

definition watchTimeForContTime :: "real \<Rightarrow> estime \<Rightarrow> ESWatchTime \<Rightarrow> real option" where
  "watchTimeForContTime continuousTime s w =
     (if wt_warp w \<noteq> 0
      then do {
        correctedTime \<leftarrow> (if wt_useSmoothTime w then Some continuousTime
                          else ntpTimeForCTime continuousTime s);
        Some (wt_warp w * correctedTime + wt_zero w)
      }
      else Some (wt_zero w))"

definition isStopped :: "ESWatchTime \<Rightarrow> bool" where
  "isStopped w \<longleftrightarrow> wt_warp w = 0"

definition runningBackward :: "ESWatchTime \<Rightarrow> bool" where
  "runningBackward w \<longleftrightarrow> wt_warp w < 0"

definition frozen :: "ESWatchTime \<Rightarrow> bool" where
  "frozen w \<longleftrightarrow> wt_warp w = 0"

definition isCorrect :: "ESWatchTime \<Rightarrow> bool" where
  "isCorrect w \<longleftrightarrow> wt_warp w = 1 \<and> wt_zero w = 0"

definition lastMotionWasInReverse :: "ESWatchTime \<Rightarrow> bool" where
  "lastMotionWasInReverse w \<longleftrightarrow> wt_warp w < 0 \<or> (wt_warp w = 0 \<and> wt_warpBeforeFreeze w < 0)"

section \<open>Latches\<close>

text \<open>\<open>fmod\<close> of the C library: the sign is that of the first argument.\<close>

definition c_fmod :: "real \<Rightarrow> real \<Rightarrow> real" where
  "c_fmod x y = x - y * real_of_int (truncate_real (x / y))"

definition latch_unit :: "real \<Rightarrow> real" where
  "latch_unit absoluteWarp =
     (if absoluteWarp > 60 * 10
      then if absoluteWarp > 60 * 60 * 10
        then if absoluteWarp > 12 * 60 * 60 * 10 then 24 * 60 * 60 else 60 * 60
        else 60
      else 0)"

definition latchTimeForBeatsPerSecond ::
  "int \<Rightarrow> real \<Rightarrow> estime \<Rightarrow> ESWatchTime \<Rightarrow> (ESTimeInterval \<times> ESWatchTime) option" where
  "latchTimeForBeatsPerSecond beatsPerSecond now s w = do {
     ESAssert (wt_latched w \<ge> 0);
     w \<leftarrow> (if wt_latched w = 0
           then do {
             t \<leftarrow> wt_currentTime now s w;
             let t = (if beatsPerSecond > 0
                      then real_of_int (rint (t * real_of_int beatsPerSecond)) / real_of_int beatsPerSecond
                      else t);
             let absoluteWarp = \<bar>wt_warp w\<bar>;
             let latchUnit = latch_unit absoluteWarp;
             let t = (if absoluteWarp > 60 * 10
                      then real_of_int (rint (t / latchUnit)) * latchUnit
                             + c_fmod (wt_fastWarpReferenceTime w) latchUnit
                      else t);
             Some (w\<lparr>wt_latchCorrectedTime := t\<rparr>)
           }
           else Some w);
     Some (wt_latchCorrectedTime w, w\<lparr>wt_latched := wt_latched w + 1\<rparr>)
   }"

definition latchTimeOnMinuteBoundary ::
  "real \<Rightarrow> estime \<Rightarrow> ESWatchTime \<Rightarrow> (ESTimeInterval \<times> ESWatchTime) option" where
  "latchTimeOnMinuteBoundary now s w = do {
     ESAssert (wt_latched w \<ge> 0);
     w \<leftarrow> (if wt_latched w = 0
           then do {
             t \<leftarrow> wt_currentTime now s w;
             Some (w\<lparr>wt_latchCorrectedTime := real_of_int (rint (t / 60)) * 60\<rparr>)
           }
           else Some w);
     Some (wt_latchCorrectedTime w, w\<lparr>wt_latched := wt_latched w + 1\<rparr>)
   }"

definition unlatchTime :: "ESWatchTime \<Rightarrow> ESWatchTime option" where
  "unlatchTime w = do {
     ESAssert (wt_latched w > 0);
     Some (w\<lparr>wt_latched := wt_latched w - 1\<rparr>)
   }"

definition setFastWarpReferenceTime :: "ESTimeInterval \<Rightarrow> ESWatchTime \<Rightarrow> ESWatchTime" where
  "setFastWarpReferenceTime t w = w\<lparr>wt_fastWarpReferenceTime := t\<rparr>"

section \<open>Setting a watch\<close>

definition ESMinimumSupportedAstroDate :: real where
  "ESMinimumSupportedAstroDate = - 189344476800"

definition ESMaximumSupportedAstroDate :: real where
  "ESMaximumSupportedAstroDate = 25245561600"

text \<open>The search in \<open>cycleFromWarp\<close>, over the cycles from \<open>ESWatchCycleFirst\<close> to \<open>ESWatchCycleLastForward\<close>.\<close>

definition all_cycles :: "ESWatchTimeCycle list" where
  "all_cycles = [CycleReverseFF6, CycleReverseFF5, CycleReverseFF4, CycleReverseFF3, CycleReverseFF2,
     CycleReverseFF1, CycleReverse, CycleReverseSlow1, CycleSlow1, CycleNormal, CycleFF1, CycleFF2,
     CycleFF3, CycleFF4, CycleFF5, CycleFF6]"

fun cycle_search :: "real \<Rightarrow> ESWatchTimeCycle list \<Rightarrow> ESWatchTimeCycle" where
  "cycle_search warp [] = CycleOther"
| "cycle_search warp (cycle # cs) =
     (if warpValuesForCycle cycle > warp
      then if cycle_index cycle < cycle_index CycleReverseFF6
        then let before = all_cycles ! (cycle_index cycle - 1) in
          if warpValuesForCycle cycle - warp > warp - warpValuesForCycle before
          then before
          else cycle
        else cycle_search warp cs
      else cycle_search warp cs)"

definition cycleFromWarp :: "real \<Rightarrow> ESWatchTimeCycle" where
  "cycleFromWarp warp = (if warp = 0 then CyclePaused else cycle_search warp all_cycles)"

definition stop :: "real \<Rightarrow> estime \<Rightarrow> ESWatchTime \<Rightarrow> ESWatchTime option" where
  "stop now s w =
     (if wt_warp w \<noteq> 0
      then do {
        t \<leftarrow> (if wt_latched w \<noteq> 0 then Some (wt_latchCorrectedTime w) else wt_currentTime now s w);
        Some (w\<lparr>wt_zero := t, wt_warpBeforeFreeze := wt_warp w, wt_warp := 0, wt_cycle := CyclePaused\<rparr>)
      }
      else Some w)"

definition checkAndConstrainAbsoluteTime ::
  "real \<Rightarrow> estime \<Rightarrow> ESWatchTime \<Rightarrow> (bool \<times> ESWatchTime) option" where
  "checkAndConstrainAbsoluteTime now s w = do {
     t \<leftarrow> wt_currentTime now s w;
     if t \<le> ESMinimumSupportedAstroDate
     then do {
       w \<leftarrow> (if wt_warp w \<noteq> 0 then stop now s w
             else Some (w\<lparr>wt_zero := ESMinimumSupportedAstroDate\<rparr>));
       Some (True, w)
     }
     else if t \<ge> ESMaximumSupportedAstroDate
     then do {
       w \<leftarrow> (if wt_warp w \<noteq> 0 then stop now s w
             else Some (w\<lparr>wt_zero := ESMaximumSupportedAstroDate\<rparr>));
       Some (True, w)
     }
     else Some (False, w)
   }"

definition start :: "real \<Rightarrow> estime \<Rightarrow> ESWatchTime \<Rightarrow> ESWatchTime option" where
  "start now s w =
     (if wt_warp w = 0
      then let w = (if wt_warpBeforeFreeze w = 0 then w\<lparr>wt_warpBeforeFreeze := 1\<rparr> else w) in do {
        x \<leftarrow> appropriateCorrectedTime now s w;
        Some (w\<lparr>wt_zero := wt_zero w - x * wt_warpBeforeFreeze w, wt_warp := wt_warpBeforeFreeze w,
                wt_cycle := cycleFromWarp (wt_warpBeforeFreeze w)\<rparr>)
      }
      else Some w)"

definition toggleStop :: "real \<Rightarrow> estime \<Rightarrow> ESWatchTime \<Rightarrow> ESWatchTime option" where
  "toggleStop now s w = (if wt_warp w = 0 then start now s w else stop now s w)"

definition reverse_watch :: "ESWatchTime \<Rightarrow> ESWatchTime" where
  "reverse_watch w = w\<lparr>wt_warp := - wt_warp w, wt_warpBeforeFreeze := - wt_warpBeforeFreeze w\<rparr>"

definition setUseSmoothTime :: "bool \<Rightarrow> ESWatchTime \<Rightarrow> ESWatchTime" where
  "setUseSmoothTime b w = w\<lparr>wt_useSmoothTime := b\<rparr>"

definition toggleStopWithRounding :: "real \<Rightarrow> real \<Rightarrow> estime \<Rightarrow> ESWatchTime \<Rightarrow> ESWatchTime option" where
  "toggleStopWithRounding rounding now s w =
     (if wt_warp w = 0 then start now s w
      else do {
        w \<leftarrow> stop now s w;
        Some (w\<lparr>wt_zero := real_of_int \<lfloor>wt_zero w / rounding\<rfloor> * rounding\<rparr>)
      })"

definition stopwatchInitStoppedReading :: "real \<Rightarrow> ESWatchTime \<Rightarrow> ESWatchTime option" where
  "stopwatchInitStoppedReading interval w = do {
     ESAssert (wt_useSmoothTime w);
     Some (w\<lparr>wt_warp := 0, wt_cycle := CyclePaused, wt_zero := interval\<rparr>)
   }"

definition stopwatchInitRunningFromZeroTime :: "real \<Rightarrow> ESWatchTime \<Rightarrow> ESWatchTime option" where
  "stopwatchInitRunningFromZeroTime zeroRTime w = do {
     ESAssert (wt_useSmoothTime w);
     Some (w\<lparr>wt_warp := 1, wt_cycle := CycleNormal, wt_zero := - zeroRTime\<rparr>)
   }"

definition stopwatchReset :: "real \<Rightarrow> ESWatchTime \<Rightarrow> ESWatchTime option" where
  "stopwatchReset now w = do {
     ESAssert (wt_useSmoothTime w);
     Some (if wt_warp w \<noteq> 0 then w\<lparr>wt_zero := - wt_warp w * currentContinuousTime now\<rparr>
           else w\<lparr>wt_zero := 0\<rparr>)
   }"

definition copyLapTimeFromOtherTimer :: "real \<Rightarrow> estime \<Rightarrow> ESWatchTime \<Rightarrow> ESWatchTime \<Rightarrow> ESWatchTime option" where
  "copyLapTimeFromOtherTimer now s otherTimer w = do {
     ESAssert (wt_useSmoothTime w);
     ESAssert (wt_useSmoothTime otherTimer);
     t \<leftarrow> wt_currentTime now s otherTimer;
     Some (w\<lparr>wt_zero := t, wt_warp := 0, wt_cycle := CyclePaused\<rparr>)
   }"

definition makeTimeIdenticalToOtherTimer :: "ESWatchTime \<Rightarrow> ESWatchTime \<Rightarrow> ESWatchTime option" where
  "makeTimeIdenticalToOtherTimer otherTimer w = do {
     ESAssert (wt_useSmoothTime w = wt_useSmoothTime otherTimer);
     Some (w\<lparr>wt_zero := wt_zero otherTimer, wt_warp := wt_warp otherTimer, wt_cycle := wt_cycle otherTimer\<rparr>)
   }"

definition makeTimeIdenticalWithDelta :: "ESWatchTime \<Rightarrow> real \<Rightarrow> ESWatchTime \<Rightarrow> ESWatchTime option" where
  "makeTimeIdenticalWithDelta otherTimer delta w = do {
     ESAssert (wt_useSmoothTime w);
     ESAssert (\<not> wt_useSmoothTime otherTimer);
     Some (w\<lparr>wt_zero := wt_zero otherTimer + delta, wt_warp := wt_warp otherTimer, wt_cycle := wt_cycle otherTimer\<rparr>)
   }"

definition offsetFromOtherTimer :: "real \<Rightarrow> estime \<Rightarrow> ESWatchTime \<Rightarrow> ESWatchTime \<Rightarrow> real option" where
  "offsetFromOtherTimer now s otherTimer w = do {
     ESAssert (\<not> wt_useSmoothTime otherTimer);
     if wt_warp w = wt_warp otherTimer then Some (wt_zero w - wt_zero otherTimer)
     else if wt_useSmoothTime w
     then do {
       t \<leftarrow> wt_currentTime now s w;
       u \<leftarrow> wt_currentTime now s otherTimer;
       Some (sysTimeForCTime t s - u)
     }
     else do {
       t \<leftarrow> wt_currentTime now s w;
       u \<leftarrow> wt_currentTime now s otherTimer;
       Some (t - u)
     }
   }"

definition isIdenticalTo :: "ESWatchTime \<Rightarrow> ESWatchTime \<Rightarrow> bool option" where
  "isIdenticalTo otherTimer w = do {
     ESAssert (wt_useSmoothTime w = wt_useSmoothTime otherTimer);
     Some (wt_zero w = wt_zero otherTimer \<and> wt_warp w = wt_warp otherTimer)
   }"

definition setToFrozenDateInterval :: "ESTimeInterval \<Rightarrow> real \<Rightarrow> estime \<Rightarrow> ESWatchTime \<Rightarrow> ESWatchTime option" where
  "setToFrozenDateInterval date now s w =
     map_option snd (checkAndConstrainAbsoluteTime now s
       (w\<lparr>wt_warp := 0, wt_cycle := CyclePaused, wt_zero := date\<rparr>))"

definition resetToLocal :: "ESWatchTime \<Rightarrow> ESWatchTime" where
  "resetToLocal w = w\<lparr>wt_zero := 0, wt_warp := 1, wt_cycle := CycleNormal\<rparr>"

definition setWarp :: "real \<Rightarrow> real \<Rightarrow> estime \<Rightarrow> ESWatchTime \<Rightarrow> ESWatchTime option" where
  "setWarp newWarp now s w =
     (if newWarp = 0 then stop now s w
      else do {
        x \<leftarrow> appropriateCorrectedTime now s w;
        let w = (if wt_warp w = 0 then w\<lparr>wt_zero := wt_zero w - x * newWarp\<rparr>
                 else w\<lparr>wt_zero := wt_zero w + (wt_warp w - newWarp) * x\<rparr>);
        Some (w\<lparr>wt_warp := newWarp, wt_cycle := cycleFromWarp newWarp\<rparr>)
      })"

definition pausePlay :: "real \<Rightarrow> estime \<Rightarrow> ESWatchTime \<Rightarrow> ESWatchTime option" where
  "pausePlay now s w =
     (if wt_warp w = 0
      then map_option (\<lambda>w. w\<lparr>wt_cycle := CycleNormal\<rparr>) (setWarp 1 now s w)
      else map_option (\<lambda>w. w\<lparr>wt_cycle := CyclePaused\<rparr>) (stop now s w))"

definition cycleFastForward :: "real \<Rightarrow> estime \<Rightarrow> ESWatchTime \<Rightarrow> ESWatchTime option" where
  "cycleFastForward now s w =
     (let newCycle = nextCycleForFF (wt_cycle w)
      in map_option (\<lambda>w. w\<lparr>wt_cycle := newCycle\<rparr>) (setWarp (warpValuesForCycle newCycle) now s w))"

definition cycleRewind :: "real \<Rightarrow> estime \<Rightarrow> ESWatchTime \<Rightarrow> ESWatchTime option" where
  "cycleRewind now s w =
     (let newCycle = nextCycleForRewind (wt_cycle w)
      in map_option (\<lambda>w. w\<lparr>wt_cycle := newCycle\<rparr>) (setWarp (warpValuesForCycle newCycle) now s w))"

text \<open>The preferences: a missing one reads as 0.\<close>

definition saveStateForWatch :: "string \<Rightarrow> ESWatchTime \<Rightarrow> (string \<Rightarrow> real) \<Rightarrow> string \<Rightarrow> real" where
  "saveStateForWatch nam w prefs =
     prefs(nam @ ''-_warp'' := wt_warp w - 1,
           nam @ ''-_warpBeforeFreeze'' := wt_warpBeforeFreeze w - 1,
           nam @ ''-timeZero'' := wt_zero w)"

definition restoreStateForWatch :: "string \<Rightarrow> (string \<Rightarrow> real) \<Rightarrow> ESWatchTime \<Rightarrow> ESWatchTime" where
  "restoreStateForWatch nam prefs w =
     w\<lparr>wt_warp := prefs (nam @ ''-_warp'') + 1,
       wt_warpBeforeFreeze := prefs (nam @ ''-_warpBeforeFreeze'') + 1,
       wt_zero := prefs (nam @ ''-timeZero'')\<rparr>"

section \<open>Moving a watch by seconds\<close>

definition advanceBySeconds ::
  "real \<Rightarrow> ESTimeInterval option \<Rightarrow> real \<Rightarrow> estime \<Rightarrow> ESWatchTime \<Rightarrow> ESWatchTime option" where
  "advanceBySeconds numSeconds startTime now s w = do {
     w \<leftarrow> (case startTime of
         Some st \<Rightarrow> do {
           t \<leftarrow> wt_currentTime now s w;
           let timeSinceStartDate = t - st;
           Some (w\<lparr>wt_zero := wt_zero w + (numSeconds - timeSinceStartDate)\<rparr>)
         }
       | None \<Rightarrow> Some (w\<lparr>wt_zero := wt_zero w + numSeconds\<rparr>));
     map_option snd (checkAndConstrainAbsoluteTime now s w)
   }"

definition kESWatchTimeAdvanceGap :: real where
  "kESWatchTimeAdvanceGap = 2"

definition onEvenTime :: "real \<Rightarrow> real \<Rightarrow> ESTimeInterval" where
  "onEvenTime t interval =
     (let nt = real_of_int \<lfloor>t / interval\<rfloor> * interval in if nt < t then nt + interval else nt)"

definition onEvenTimeBack :: "real \<Rightarrow> real \<Rightarrow> ESTimeInterval" where
  "onEvenTimeBack t interval =
     (let nt = real_of_int \<lceil>t / interval\<rceil> * interval in if nt > t then nt - interval else nt)"

definition gapJumpBeforeInterval :: "ESWatchTime \<Rightarrow> ESTimeInterval" where
  "gapJumpBeforeInterval w =
     (if wt_warp w \<ge> 0 then kESWatchTimeAdvanceGap + 1 else - kESWatchTimeAdvanceGap - 1)"

definition offsetAfterJump :: "ESWatchTime \<Rightarrow> ESTimeInterval" where
  "offsetAfterJump w = (if wt_warp w \<ge> 0 then - kESWatchTimeAdvanceGap else kESWatchTimeAdvanceGap)"

definition preAdvanceForNextAtTime :: "real \<Rightarrow> real \<Rightarrow> ESWatchTime \<Rightarrow> ESTimeInterval" where
  "preAdvanceForNextAtTime currentLocal interval w =
     (if wt_warp w \<ge> 0 then currentLocal + kESWatchTimeAdvanceGap + 1 else currentLocal + interval / 2)"

definition preAdvanceForPrevAtTime :: "real \<Rightarrow> real \<Rightarrow> ESWatchTime \<Rightarrow> ESTimeInterval" where
  "preAdvanceForPrevAtTime currentLocal interval w =
     (if wt_warp w \<ge> 0 then currentLocal - interval / 2 else currentLocal - kESWatchTimeAdvanceGap - 1)"

section \<open>A watch never jumps when its speed is set\<close>

lemmas watch_defs = stop_def start_def toggleStop_def setWarp_def pausePlay_def cycleFastForward_def
  cycleRewind_def wt_currentTime_def appropriateCorrectedTime_def

lemma appropriate_simps [simp]:
  "appropriateCorrectedTime now s (w\<lparr>wt_zero := z\<rparr>) = appropriateCorrectedTime now s w"
  "appropriateCorrectedTime now s (w\<lparr>wt_warp := v\<rparr>) = appropriateCorrectedTime now s w"
  "appropriateCorrectedTime now s (w\<lparr>wt_cycle := c\<rparr>) = appropriateCorrectedTime now s w"
  "appropriateCorrectedTime now s (w\<lparr>wt_warpBeforeFreeze := v\<rparr>) = appropriateCorrectedTime now s w"
  "appropriateCorrectedTime now s (w\<lparr>wt_latched := i\<rparr>) = appropriateCorrectedTime now s w"
  "appropriateCorrectedTime now s (w\<lparr>wt_latchCorrectedTime := t\<rparr>) = appropriateCorrectedTime now s w"
  by (simp_all add: appropriateCorrectedTime_def)

lemma cycle_irrelevant [simp]: "wt_currentTime now s (w\<lparr>wt_cycle := c\<rparr>) = wt_currentTime now s w"
  by (simp add: wt_currentTime_def)

lemma setWarp_time:
  assumes "appropriateCorrectedTime now s w = Some x" "wt_latched w = 0"
  shows "\<exists>w'. setWarp v now s w = Some w' \<and> wt_warp w' = v \<and> wt_latched w' = 0 \<and>
    wt_useSmoothTime w' = wt_useSmoothTime w \<and> wt_currentTime now s w' = wt_currentTime now s w"
proof (cases "v = 0")
  case True
  then show ?thesis using assms by (auto simp: setWarp_def stop_def wt_currentTime_def)
next
  case False
  then show ?thesis using assms by (simp add: setWarp_def wt_currentTime_def Let_def algebra_simps)
qed

text \<open>Every operation that sets the speed leaves the time of an unlatched watch as it was.\<close>

text \<open>C32: Setting the speed, stop, start, toggling the stop, pause and play, and the two buttons that cycle the speed all keep the time an unlatched watch shows, whenever the corrected time it runs on is defined. The other two operations on the speed are not covered: reverse (theorem reverse_jumps) and the stop with rounding change the time.\<close>

theorem speed_keeps_time:
  assumes "appropriateCorrectedTime now s w = Some x" "wt_latched w = 0"
    and "f \<in> {setWarp v, stop, start, toggleStop, pausePlay, cycleFastForward, cycleRewind}"
  shows "\<exists>w'. f now s w = Some w' \<and> wt_currentTime now s w' = wt_currentTime now s w"
proof -
  note k = setWarp_time[OF assms(1,2)]
  have st: "\<exists>w'. stop now s w = Some w' \<and> wt_currentTime now s w' = wt_currentTime now s w"
    using assms(1,2) by (simp add: stop_def wt_currentTime_def)
  have sta: "\<exists>w'. start now s w = Some w' \<and> wt_currentTime now s w' = wt_currentTime now s w"
    using assms(1,2) by (simp add: start_def wt_currentTime_def Let_def)
  have cyc: "\<exists>w'. map_option (\<lambda>w. w\<lparr>wt_cycle := c\<rparr>) (setWarp u now s w) = Some w' \<and>
      wt_currentTime now s w' = wt_currentTime now s w" for c u
    using k[of u] by auto
  have pau: "\<exists>w'. pausePlay now s w = Some w' \<and> wt_currentTime now s w' = wt_currentTime now s w"
    using cyc[of CycleNormal 1] st by (auto simp: pausePlay_def)
  show ?thesis
    using assms(3) k[of v] st sta pau cyc
    by (auto simp: toggleStop_def cycleFastForward_def cycleRewind_def Let_def)
qed

text \<open>Reversing a running watch does not keep it: the time is mirrored at \<open>zero\<close>.\<close>

theorem reverse_jumps:
  assumes "appropriateCorrectedTime now s w = Some x" "wt_latched w = 0" "wt_warp w \<noteq> 0"
  shows "\<exists>t t'. wt_currentTime now s w = Some t \<and> wt_currentTime now s (reverse_watch w) = Some t' \<and>
    t' = 2 * wt_zero w - t \<and> (t' = t \<longleftrightarrow> x = 0)"
  using assms by (simp add: reverse_watch_def wt_currentTime_def)

text \<open>The search for the cycle of a speed never finds one.\<close>

theorem cycle_of_speed_is_other: "cycleFromWarp warp = (if warp = 0 then CyclePaused else CycleOther)"
proof -
  have "cycle_search warp cs = CycleOther" for cs by (induction cs) simp_all
  then show ?thesis by (simp add: cycleFromWarp_def)
qed

section \<open>Conversions\<close>

text \<open>
  Without smooth time the instant at which a leap second begins comes back a microsecond early, which the
  speed of the watch multiplies.
\<close>

text \<open>C31: For a watch that is not stopped, and a time before the far future, watch time converts to continuous and to system time and back without change, whatever its speed, through the leap seconds of the time service, but for one instant: without smooth time, the instant the armed leap second begins comes back a microsecond times the speed early.\<close>

theorem watch_conversions_inverse:
  fixes t :: real and w :: ESWatchTime and s :: estime
  defines "x \<equiv> (t - wt_zero w) / wt_warp w"
  defines "t' \<equiv> (if \<not> wt_useSmoothTime w \<and> x = nextLeapSecondDate s
    then t - wt_warp w * ESLeapSecondHoldShortInterval else t)"
  assumes "es_inv s" "wt_warp w \<noteq> 0" "x < ESFarFarInTheFuture"
  shows "(\<exists>c. contTimeForWatchTime now t s w = Some (Some c) \<and> watchTimeForContTime c s w = Some t') \<and>
    (\<exists>u. convertFromWatchToSystem t s w = Some u \<and> convertFromSystemToWatch u s w = Some t')"
proof -
  obtain c where c: "cTimeForNTPTime x s = Some c"
    "ntpTimeForCTime c s = Some (if x = nextLeapSecondDate s then x - ESLeapSecondHoldShortInterval else x)"
    using ntp_of_continuous[OF assms(3,5)] by blast
  have y: "wt_warp w * x + wt_zero w = t" using assms(4) by (simp add: x_def)
  show ?thesis
  proof (cases "wt_useSmoothTime w")
    case True
    then show ?thesis
      using assms(4) y
      by (simp add: contTimeForWatchTime_def watchTimeForContTime_def convertFromWatchToSystem_def t'_def
          convertFromSystemToWatch_def sysTimeForCTime_def cTimeForSysTime_def Let_def x_def[symmetric])
  next
    case False
    have n: "ntpTimeForCTime c s = Some ((t' - wt_zero w) / wt_warp w)"
      using c(2) False assms(4) y by (simp add: t'_def x_def[symmetric] diff_divide_distrib) (simp add: x_def diff_divide_distrib)
    then have "wt_warp w * ((t' - wt_zero w) / wt_warp w) + wt_zero w = t'" using assms(4) by simp
    then show ?thesis
      using False assms(4) c(1) n
      by (simp add: contTimeForWatchTime_def watchTimeForContTime_def convertFromWatchToSystem_def
          convertFromSystemToWatch_def sysTimeForCTime_def cTimeForSysTime_def Let_def x_def[symmetric])
  qed
qed

text \<open>
  The continuous time at which a running watch shows its present time is the present
  continuous time; \<open>contTimeForWatchTime()\<close> divides the time of the time service, not that of
  the watch, and answers something else as soon as the watch was moved or runs at another speed.
\<close>

theorem current_continuous_time_of_watch:
  assumes "wt_warp w \<noteq> 0" "wt_latched w = 0" "wt_useSmoothTime w"
  shows "\<exists>t. wt_currentTime now s w = Some t \<and> contTimeForWatchTime now t s w = Some (Some now) \<and>
    contTimeForCurrentWatchTime now s w = Some ((now - wt_zero w) / wt_warp w) \<and>
    ((now - wt_zero w) / wt_warp w = now \<longleftrightarrow> t = wt_warp w * now + (1 - wt_warp w) * now)"
  using assms
  by (auto simp: wt_currentTime_def appropriateCorrectedTime_def currentContinuousTime_def
      contTimeForWatchTime_def contTimeForCurrentWatchTime_def field_simps)

section \<open>Latched watches\<close>

theorem latch_holds_time:
  assumes "wt_latched w = 0" "wt_currentTime now s w = Some c"
  shows "\<exists>t w'. latchTimeForBeatsPerSecond n now s w = Some (t, w') \<and>
    (\<forall>now' s'. wt_currentTime now' s' w' = Some t) \<and>
    (\<forall>m now' s'. \<exists>w2. latchTimeForBeatsPerSecond m now' s' w' = Some (t, w2) \<and> unlatchTime w2 = Some w') \<and>
    unlatchTime w' = Some (w\<lparr>wt_latchCorrectedTime := t\<rparr>) \<and>
    (0 < n \<and> \<bar>wt_warp w\<bar> \<le> 600 \<longrightarrow> \<bar>t - c\<bar> \<le> 1 / (2 * real_of_int n))"
proof -
  have r: "\<bar>real_of_int (rint y) - y\<bar> \<le> 1 / 2" for y
    unfolding rint_def Let_def by (auto; linarith)
  have b: "\<bar>real_of_int (rint (c * real_of_int n)) / real_of_int n - c\<bar> \<le> 1 / (2 * real_of_int n)" if "0 < n"
    using r[of "c * real_of_int n"] that by (simp add: abs_le_iff field_simps)
  show ?thesis
    using assms b
    by (simp add: latchTimeForBeatsPerSecond_def unlatchTime_def wt_currentTime_def Let_def
        split: if_splits)
qed

section \<open>The supported range\<close>

text \<open>
  A stopped watch is brought into the range. A running one is only stopped, where it is: it
  comes into the range when it is checked again.
\<close>

definition clamped :: "real \<Rightarrow> real" where
  "clamped t = max ESMinimumSupportedAstroDate (min ESMaximumSupportedAstroDate t)"

lemma astro_range: "ESMinimumSupportedAstroDate < ESMaximumSupportedAstroDate"
  by (simp add: ESMinimumSupportedAstroDate_def ESMaximumSupportedAstroDate_def)

lemma constrain_stopped:
  assumes "wt_latched w = 0" "wt_warp w = 0"
  shows "\<exists>b w'. checkAndConstrainAbsoluteTime now s w = Some (b, w') \<and>
    wt_currentTime now s w' = Some (clamped (wt_zero w)) \<and> wt_latched w' = 0 \<and> wt_warp w' = 0"
proof -
  have c: "wt_currentTime now s w = Some (wt_zero w)" using assms by (simp add: wt_currentTime_def)
  consider "wt_zero w \<le> ESMinimumSupportedAstroDate"
    | "ESMinimumSupportedAstroDate < wt_zero w" "ESMaximumSupportedAstroDate \<le> wt_zero w"
    | "ESMinimumSupportedAstroDate < wt_zero w" "wt_zero w < ESMaximumSupportedAstroDate" by linarith
  then show ?thesis
    by cases (use assms astro_range in \<open>simp_all add: checkAndConstrainAbsoluteTime_def c clamped_def
        wt_currentTime_def max_def min_def ex_bool_eq\<close>)
qed

lemma constrain_running:
  assumes "wt_latched w = 0" "wt_warp w \<noteq> 0" "wt_currentTime now s w = Some t"
  shows "checkAndConstrainAbsoluteTime now s w =
    (if t \<le> ESMinimumSupportedAstroDate \<or> ESMaximumSupportedAstroDate \<le> t
     then Some (True, w\<lparr>wt_zero := t, wt_warpBeforeFreeze := wt_warp w, wt_warp := 0, wt_cycle := CyclePaused\<rparr>)
     else Some (False, w))"
  using assms by (simp add: checkAndConstrainAbsoluteTime_def stop_def)

theorem constrained_to_range:
  assumes "wt_latched w = 0" "wt_currentTime now s w = Some t"
  shows "\<exists>b w'. checkAndConstrainAbsoluteTime now s w = Some (b, w') \<and>
    (if wt_warp w = 0 then wt_currentTime now s w' = Some (clamped t)
     else wt_currentTime now s w' = Some t \<and> (b \<longleftrightarrow> wt_warp w' = 0) \<and>
       (b \<longleftrightarrow> t \<le> ESMinimumSupportedAstroDate \<or> ESMaximumSupportedAstroDate \<le> t) \<and>
       (b \<longrightarrow> (\<exists>b2 w2. checkAndConstrainAbsoluteTime now s w' = Some (b2, w2) \<and>
         wt_currentTime now s w2 = Some (clamped t))))"
proof (cases "wt_warp w = 0")
  case True
  then have "wt_zero w = t" using assms by (simp add: wt_currentTime_def)
  then show ?thesis using constrain_stopped[OF assms(1) True, of now s] True by auto
next
  case False
  let ?w = "w\<lparr>wt_zero := t, wt_warpBeforeFreeze := wt_warp w, wt_warp := 0, wt_cycle := CyclePaused\<rparr>"
  have "\<exists>b2 w2. checkAndConstrainAbsoluteTime now s ?w = Some (b2, w2) \<and>
      wt_currentTime now s w2 = Some (clamped t)"
    using constrain_stopped[of ?w now s] assms(1) by auto
  moreover have "wt_currentTime now s ?w = Some t" using assms(1) by (simp add: wt_currentTime_def)
  ultimately show ?thesis
    using constrain_running[OF assms(1) False assms(2)] False assms(2) by simp
qed

section \<open>The theorems for concrete watches\<close>

definition smooth_watch :: ESWatchTime where
  "smooth_watch = new_watch 0\<lparr>wt_useSmoothTime := True\<rparr>"

lemma smooth_watch_fields [simp]:
  "wt_warp smooth_watch = 1" "wt_zero smooth_watch = 0" "wt_latched smooth_watch = 0"
  "appropriateCorrectedTime now s smooth_watch = Some now"
  "wt_currentTime now s smooth_watch = Some now"
  by (simp_all add: smooth_watch_def new_watch_def wt_currentTime_def appropriateCorrectedTime_def currentContinuousTime_def)


theorem watch_conversions_inverse_witness:
  "(\<exists>c. contTimeForWatchTime 5 504921700 armed_estime (new_watch 0) = Some (Some c) \<and>
     watchTimeForContTime c armed_estime (new_watch 0) = Some 504921700) \<and>
   (\<exists>u. convertFromWatchToSystem 504921700 armed_estime (new_watch 0) = Some u \<and>
     convertFromSystemToWatch u armed_estime (new_watch 0) = Some 504921700)"
  using watch_conversions_inverse[OF armed_inv, where t = 504921700 and w = "new_watch 0" and now = 5]
  by (simp add: new_watch_def armed_estime_def ESFarFarInTheFuture_def)

theorem constrained_to_range_witness:
  "\<exists>b w'. checkAndConstrainAbsoluteTime 5 sample_estime (new_frozen_watch 0 (10 ^ 20)) = Some (b, w') \<and>
     wt_currentTime 5 sample_estime w' = Some (clamped (10 ^ 20))"
  using constrained_to_range[of "new_frozen_watch 0 (10 ^ 20)" 5 sample_estime "10 ^ 20"]
  by (simp add: new_frozen_watch_def wt_currentTime_def)

theorem speed_keeps_time_witness:
  "\<exists>w'. setWarp 60 100 sample_estime smooth_watch = Some w' \<and>
     wt_currentTime 100 sample_estime w' =
       wt_currentTime 100 sample_estime smooth_watch"
  by (rule speed_keeps_time[where v = 60]) simp_all

theorem reverse_jumps_witness:
  "\<exists>t t'. wt_currentTime 100 sample_estime smooth_watch = Some t \<and>
     wt_currentTime 100 sample_estime (reverse_watch smooth_watch) = Some t' \<and>
     t' \<noteq> t"
  using reverse_jumps[of 100 sample_estime smooth_watch 100] by auto

theorem latch_holds_time_witness:
  "\<exists>t w'. latchTimeForBeatsPerSecond 10 5 sample_estime (new_frozen_watch 0 7) = Some (t, w') \<and>
     wt_currentTime 99 sample_estime w' = Some t \<and> \<bar>t - 7\<bar> \<le> 1 / 20"
  using latch_holds_time[of "new_frozen_watch 0 7" 5 sample_estime 7 10]
  by (fastforce simp: new_frozen_watch_def wt_currentTime_def)

end
