(* ===== verification/EsWatchHands.thy ===== *)
theory EsWatchHands
  imports EsWatchTime
begin

text \<open>
  What a watch shows: the methods of src/ESWatchTime.cpp for hands, dials and stopwatches.
  They read the time of the watch and an environment (its zone and its midnight cache, which
  they may fill), so most return the value and the environment.
\<close>

section \<open>The time of day\<close>


definition secondsSinceMidnightValue ::
  "(real \<Rightarrow> real \<Rightarrow> real) \<Rightarrow> tz_store \<Rightarrow> real \<Rightarrow> estime \<Rightarrow> ESTimeEnvironment \<Rightarrow> ESWatchTime \<Rightarrow>
     (real \<times> ESTimeEnvironment) option" where
  "secondsSinceMidnightValue f h now s env w = do {
     t \<leftarrow> wt_currentTime now s w;
     (midnight, env) \<leftarrow> midnightForTimeInterval f h t env;
     Some (t - midnight, env)
   }"


definition secondValue where
  "secondValue f h now s env w =
     map_option (\<lambda>(v, env). (f v 60, env)) (secondsSinceMidnightValue f h now s env w)"


definition minuteValue where
  "minuteValue f h now s env w =
     map_option (\<lambda>(v, env). (f (v / 60) 60, env)) (secondsSinceMidnightValue f h now s env w)"


definition hour12Value where
  "hour12Value f h now s env w =
     map_option (\<lambda>(v, env). (f (v / 3600) 12, env)) (secondsSinceMidnightValue f h now s env w)"


definition hour24Value where
  "hour24Value f h now s env w =
     map_option (\<lambda>(v, env). (f (v / 3600) 24, env)) (secondsSinceMidnightValue f h now s env w)"

section \<open>The date\<close>

text \<open>The local date of a watch, in the zone of the environment.\<close>

definition watch_date :: "tz_store \<Rightarrow> real \<Rightarrow> estime \<Rightarrow> ESTimeEnvironment \<Rightarrow> ESWatchTime \<Rightarrow> ESDateComponents option" where
  "watch_date h now s env w = do {
     t \<leftarrow> wt_currentTime now s w;
     z \<leftarrow> env_zone env h;
     Some (localComponentsFromTimeInterval t z)
   }"

definition dayNumber where
  "dayNumber h now s env w = map_option (\<lambda>cs. dc_day cs - 1) (watch_date h now s env w)"

text \<open>The fraction of a day a clock shows.\<close>

definition day_fraction :: "ESDateComponents \<Rightarrow> real" where
  "day_fraction cs = real_of_int (dc_hour cs) / 24 + real_of_int (dc_minute cs) / (60 * 24)
     + dc_seconds cs / (3600 * 24)"

definition dayValue where
  "dayValue h now s env w =
     map_option (\<lambda>cs. real_of_int (dc_day cs) - 1 + day_fraction cs) (watch_date h now s env w)"

definition monthNumber where
  "monthNumber h now s env w = map_option (\<lambda>cs. dc_month cs - 1) (watch_date h now s env w)"

definition calcDaysInMonth :: "int \<Rightarrow> int \<Rightarrow> int \<Rightarrow> ESTimeZoneImplementation \<Rightarrow> int" where
  "calcDaysInMonth nsMonthNumber year era estz =
     (if nsMonthNumber = 1 then 31
      else if nsMonthNumber = 2 then
        let cs = \<lparr>dc_era = era, dc_year = year, dc_month = 2, dc_day = 1,
                  dc_hour = 0, dc_minute = 0, dc_seconds = 0\<rparr>;
            feb1 = timeIntervalFromLocalComponents estz cs;
            mar1 = timeIntervalFromLocalComponents estz (cs\<lparr>dc_month := 3\<rparr>)
        in rint ((mar1 - feb1) / (3600 * 24))
      else if nsMonthNumber = 3 then 31
      else if nsMonthNumber = 4 then 30
      else if nsMonthNumber = 5 then 31
      else if nsMonthNumber = 6 then 30
      else if nsMonthNumber = 7 then 30
      else if nsMonthNumber = 8 then 31
      else if nsMonthNumber = 9 then 30
      else if nsMonthNumber = 10 then 31
      else if nsMonthNumber = 11 then 30
      else if nsMonthNumber = 12 then 31
      else 0)"

definition monthValue where
  "monthValue h now s env w = do {
     cs \<leftarrow> watch_date h now s env w;
     z \<leftarrow> env_zone env h;
     Some (real_of_int (dc_month cs) - 1
       + (real_of_int (dc_day cs) - 1 + day_fraction cs)
         / real_of_int (calcDaysInMonth (dc_month cs) (dc_year cs) (dc_era cs) z))
   }"

definition yearNumber where
  "yearNumber h now s env w = map_option dc_year (watch_date h now s env w)"

definition eraNumber where
  "eraNumber h now s env w = map_option dc_era (watch_date h now s env w)"

section \<open>Daylight saving time and years\<close>

definition isDSTUsingEnv where
  "isDSTUsingEnv h now s env w = do {
     t \<leftarrow> wt_currentTime now s w;
     let t = (if wt_warp w > 0 then t + 1 else if wt_warp w < 0 then t - 1 else t);
     z \<leftarrow> env_zone env h;
     Some (isDSTAtTimeInterval z t)
   }"

definition nextDSTChangeUsingEnv where
  "nextDSTChangeUsingEnv f h now s env w = do {
     t \<leftarrow> wt_currentTimeIgnoringLatch now s w;
     (_, env) \<leftarrow> midnightForTimeInterval f h t env;
     if t > env_cacheMidnightBase env \<and> t < env_cacheDSTEvent env
     then Some (env_cacheDSTEvent env, env)
     else do {
       z \<leftarrow> env_zone env h;
       Some (nextDSTChangeAfterTimeInterval z t, env)
     }
   }"

text \<open>The walk from change to change: \<^const>\<open>None\<close> if it does not end.\<close>

partial_function (option) prev_change_loop ::
  "ESTimeZoneImplementation \<Rightarrow> real \<Rightarrow> real \<Rightarrow> real option" where
  "prev_change_loop z now best =
     (let next = nextDSTChangeAfterTimeInterval z (best + 7200)
      in if next = 0 \<or> next \<ge> now then Some best else prev_change_loop z now next)"

definition prevDSTChangePrecisely where
  "prevDSTChangePrecisely precise h now s env w = do {
     z \<leftarrow> env_zone env h;
     t \<leftarrow> wt_currentTimeIgnoringLatch now s w;
     let oneYearPrior = t - 365 * 24 * 3600;
     let nextShift = nextDSTChangeAfterTimeInterval z oneYearPrior;
     if nextShift \<noteq> 0 \<and> nextShift < t then prev_change_loop z t nextShift
     else if \<not> precise then Some 0
     else None
   }"

definition leapYearUsingEnv where
  "leapYearUsingEnv h now s env w = do {
     t \<leftarrow> wt_currentTime now s w;
     z \<leftarrow> env_zone env h;
     Some (real_of_int (daysInYear z t) > 365.5)
   }"

definition weekdayValue where
  "weekdayValue (f :: real \<Rightarrow> real \<Rightarrow> real) h now s env w = do {
     t \<leftarrow> wt_currentTime now s w;
     z \<leftarrow> env_zone env h;
     let localNow = t + tzOffsetForTimeInterval (Some z) t;
     let localNowDays = localNow / (24 * 3600);
     Some (f (localNowDays + 1) 7)
   }"

definition weekdayNumber where
  "weekdayNumber f h now s env w = map_option floor (weekdayValue f h now s env w)"

definition weekdayNumberAsCalendarColumn where
  "weekdayNumberAsCalendarColumn f h now s env weekdayStart w =
     map_option (\<lambda>v. (7 + \<lfloor>v\<rfloor> - weekdayStart) smod 7) (weekdayValue f h now s env w)"

definition year366IndicatorFraction where
  "year366IndicatorFraction h now s env w = do {
     ct \<leftarrow> wt_currentTime now s w;
     z \<leftarrow> env_zone env h;
     let cs = localComponentsFromTimeInterval ct z;
     let firstOfThisYearInterval = timeIntervalFromLocalComponents z
       (cs\<lparr>dc_month := 1, dc_day := 1, dc_hour := 0, dc_minute := 0, dc_seconds := 0\<rparr>);
     let isLeapYear = real_of_int (daysInYear z ct) > 365.5;
     let isGregorianTransitionYear = (dc_year cs = 1582 \<and> dc_era cs = 1);
     let ct = (if \<not> isLeapYear \<and> dc_month cs > 2
               then if isGregorianTransitionYear \<and> (dc_month cs > 10 \<or> (dc_month cs = 10 \<and> dc_day cs > 4))
                 then ct + 24 * 3600 + 10 * 24 * 3600
                 else ct + 24 * 3600
               else ct);
     Some ((ct - firstOfThisYearInterval) / (366 * 24 * 3600))
   }"

definition dayOfYearNumber where
  "dayOfYearNumber f h now s env w = do {
     t \<leftarrow> wt_currentTime now s w;
     (m, env) \<leftarrow> midnightForTimeInterval f h t env;
     let midnight = m + 2;
     z \<leftarrow> env_zone env h;
     let cs = localComponentsFromTimeInterval midnight z;
     let firstOfThisYearInterval = timeIntervalFromLocalComponents z
       (cs\<lparr>dc_month := 1, dc_day := 1, dc_hour := 0, dc_minute := 0, dc_seconds := 0\<rparr>);
     Some (rint ((midnight - firstOfThisYearInterval) / (24 * 3600)), env)
   }"

text \<open>The distance from 1 January to the first day of the first week.\<close>

definition first_week_delta :: "bool \<Rightarrow> int \<Rightarrow> int \<Rightarrow> int" where
  "first_week_delta useISO8601 weekStartDay weekdayOfJan1 =
     (if useISO8601
      then if weekdayOfJan1 = 0 \<or> weekdayOfJan1 \<ge> 5 then (8 - weekdayOfJan1) smod 7 else 1 - weekdayOfJan1
      else - ((weekdayOfJan1 + 7 - weekStartDay) smod 7))"

text \<open>The loop to the year the day belongs to, as many rounds as the fuel allows.\<close>

fun first_week_loop ::
  "nat \<Rightarrow> (real \<Rightarrow> real \<Rightarrow> real) \<Rightarrow> bool \<Rightarrow> int \<Rightarrow> ESTimeZoneImplementation \<Rightarrow> real \<Rightarrow>
     ESDateComponents \<Rightarrow> real \<Rightarrow> real option" where
  "first_week_loop 0 f useISO8601 weekStartDay z midnight cs first = None"
| "first_week_loop (Suc n) f useISO8601 weekStartDay z midnight cs first =
     (let weekdayOfJan1 = localWeekdayFromTimeInterval f first z;
          first = first + real_of_int (first_week_delta useISO8601 weekStartDay weekdayOfJan1 * 24 * 3600)
      in if midnight \<ge> first then Some first
         else let cs = (if dc_era cs > 0
                        then if dc_year cs = 1 then cs\<lparr>dc_era := 0\<rparr> else cs\<lparr>dc_year := dc_year cs - 1\<rparr>
                        else cs\<lparr>dc_year := dc_year cs + 1\<rparr>);
                  first = timeIntervalFromLocalComponents z cs
              in do {
                ESAssert (midnight \<ge> first);
                first_week_loop n f useISO8601 weekStartDay z midnight cs first
              })"

definition weekOfYearNumber where
  "weekOfYearNumber fuel f h weekStartDay useISO8601 now s env w = do {
     ESAssert (\<not> useISO8601 \<or> weekStartDay = 1);
     t \<leftarrow> wt_currentTime now s w;
     (m, env) \<leftarrow> midnightForTimeInterval f h t env;
     let midnight = m + 2;
     z \<leftarrow> env_zone env h;
     let cs = localComponentsFromTimeInterval midnight z;
     let weekday = localWeekdayFromTimeInterval f midnight z;
     let weekdayOfDec31 = (weekday + (31 - dc_day cs)) smod 7;
     if useISO8601 \<and> dc_month cs = 12 \<and> dc_day cs \<ge> 29 \<and>
        weekdayOfDec31 \<le> 3 \<and> weekdayOfDec31 \<ge> 1 \<and> weekdayOfDec31 + dc_day cs \<ge> 32
     then Some (0, env)
     else let cs = cs\<lparr>dc_month := 1, dc_day := 1, dc_hour := 0, dc_minute := 0, dc_seconds := 0\<rparr>;
              first = timeIntervalFromLocalComponents z cs
          in do {
            first \<leftarrow> first_week_loop fuel f useISO8601 weekStartDay z midnight cs first;
            Some (rint ((midnight - first) / (24 * 3600)) sdiv 7, env)
          }
   }"

section \<open>Stopwatches\<close>

definition stopwatch_seconds :: "real \<Rightarrow> estime \<Rightarrow> ESWatchTime \<Rightarrow> int option" where
  "stopwatch_seconds now s w = map_option floor (wt_currentTime now s w)"

definition stopwatchSecondNumber where
  "stopwatchSecondNumber now s w = map_option (\<lambda>n. n smod 60) (stopwatch_seconds now s w)"

definition stopwatchSecondValue where
  "stopwatchSecondValue (f :: real \<Rightarrow> real \<Rightarrow> real) now s w = map_option (\<lambda>t. f t 60) (wt_currentTime now s w)"

definition stopwatchMinuteNumber where
  "stopwatchMinuteNumber now s w = map_option (\<lambda>n. (n sdiv 60) smod 60) (stopwatch_seconds now s w)"

definition stopwatchMinuteValue where
  "stopwatchMinuteValue (f :: real \<Rightarrow> real \<Rightarrow> real) now s w =
     map_option (\<lambda>t. f (t / 60) 60) (wt_currentTime now s w)"

definition stopwatchHour24Number where
  "stopwatchHour24Number now s w = map_option (\<lambda>n. (n sdiv 3600) smod 24) (stopwatch_seconds now s w)"

definition stopwatchHour24Value where
  "stopwatchHour24Value (f :: real \<Rightarrow> real \<Rightarrow> real) now s w =
     map_option (\<lambda>t. f (t / 3600) 24) (wt_currentTime now s w)"

definition stopwatchHour12Number where
  "stopwatchHour12Number now s w = map_option (\<lambda>n. (n sdiv 3600) smod 12) (stopwatch_seconds now s w)"

definition stopwatchHour12Value where
  "stopwatchHour12Value (f :: real \<Rightarrow> real \<Rightarrow> real) now s w =
     map_option (\<lambda>t. f (t / 3600) 12) (wt_currentTime now s w)"

definition stopwatchDayNumber where
  "stopwatchDayNumber now s w = map_option (\<lambda>n. n sdiv (3600 * 24)) (stopwatch_seconds now s w)"

definition stopwatchDayValue where
  "stopwatchDayValue now s w = map_option (\<lambda>t. t / (3600 * 24)) (wt_currentTime now s w)"

section \<open>Offsets and differences\<close>

text \<open>The offset of the zone at the time of the watch, through the cache of one time.\<close>

definition tzOffsetUsingEnv ::
  "tz_store \<Rightarrow> real \<Rightarrow> estime \<Rightarrow> ESTimeEnvironment \<Rightarrow> ESWatchTime \<Rightarrow> (real \<times> ESTimeEnvironment) option" where
  "tzOffsetUsingEnv h now s env w = do {
     t \<leftarrow> wt_currentTime now s w;
     env \<leftarrow> (if env_prevTimeForTZ env = t then Some env
             else do {
               z \<leftarrow> env_zone env h;
               Some (env\<lparr>env_prevTimeForTZ := t, env_resultForTZ := tzOffsetForTimeInterval (Some z) t\<rparr>)
             });
     Some (env_resultForTZ env, env)
   }"

definition local_midnight :: "ESTimeZoneImplementation \<Rightarrow> real \<Rightarrow> real" where
  "local_midnight z t = timeIntervalFromLocalComponents z
     ((localComponentsFromTimeInterval t z)\<lparr>dc_hour := 0, dc_minute := 0, dc_seconds := 0\<rparr>)"

definition numberOfDaysOffsetFrom2 ::
  "tz_store \<Rightarrow> real \<Rightarrow> estime \<Rightarrow> ESWatchTime \<Rightarrow> ESTimeEnvironment \<Rightarrow> ESTimeEnvironment \<Rightarrow> ESWatchTime \<Rightarrow> int option" where
  "numberOfDaysOffsetFrom2 h now s other env1 env2 w = do {
     t \<leftarrow> wt_currentTime now s w;
     z1 \<leftarrow> env_zone env1 h;
     u \<leftarrow> wt_currentTime now s other;
     z2 \<leftarrow> env_zone env2 h;
     let deltaSeconds = local_midnight z1 t - local_midnight z2 u;
     Some (rint (deltaSeconds / (24 * 3600)))
   }"

definition numberOfDaysOffsetFrom ::
  "tz_store \<Rightarrow> real \<Rightarrow> estime \<Rightarrow> ESWatchTime \<Rightarrow> ESTimeEnvironment \<Rightarrow> ESWatchTime \<Rightarrow> int option" where
  "numberOfDaysOffsetFrom h now s other env w = do {
     t \<leftarrow> wt_currentTime now s w;
     z \<leftarrow> env_zone env h;
     u \<leftarrow> wt_currentTime now s other;
     let deltaSeconds = local_midnight z t - local_midnight z u;
     Some (rint (deltaSeconds / (24 * 3600)))
   }"

section \<open>The hands show the local date\<close>






text \<open>The hands of a watch with the midnight cache of its environment, after any queries.\<close>


section \<open>The month hand\<close>

lemma rint_fixed_diff:
  assumes "fixed_zone z a" "dc_era cs = 0 \<or> dc_era cs = 1"
  shows "calcDaysInMonth 2 (dc_year cs) (dc_era cs) z =
    month_length (leap (gregorian_section (dc_era cs) (dc_year cs) 2 1) (signed_year (dc_era cs) (dc_year cs))) 2"
proof -
  let ?g = "gregorian_section (dc_era cs) (dc_year cs) 2 1"
  have g: "gregorian_section (dc_era cs) (dc_year cs) 3 1 = ?g" by (auto simp: gregorian_section_def)
  have "hybrid_day (dc_era cs, dc_year cs, 3, 1) = hybrid_day (dc_era cs, dc_year cs, 2, 1) +
      month_length (leap ?g (signed_year (dc_era cs) (dc_year cs))) 2"
    using month_end[of 2 ?g "dc_era cs" "dc_year cs"] by (simp add: hybrid_day_def g)
  then show ?thesis
    using assms(2)
    by (simp add: calcDaysInMonth_def fixed_zone_interval[OF assms(1)] timeIntervalFromUTCComponents_day
        cs_date_def cs_clock_def Let_def)
qed

lemma day_fraction_bounds:
  assumes "cs_clock_ok cs"
  shows "0 \<le> day_fraction cs" "day_fraction cs < 1"
proof -
  have "day_fraction cs = cs_clock cs / 86400"
    by (simp add: day_fraction_def cs_clock_def add_divide_distrib)
  then show "0 \<le> day_fraction cs" "day_fraction cs < 1"
    using cs_clock_bounds[OF assms] by simp_all
qed

text \<open>The month hand is inside its month but for July, which is taken to have 30 days.\<close>

theorem month_hand_range:
  assumes "fixed_zone z a" "env_zone env h = Some z" "wt_currentTime now s w = Some t"
  defines "cs \<equiv> localComponentsFromTimeInterval t z"
  shows "\<exists>v. monthValue h now s env w = Some v \<and>
    (dc_month cs \<noteq> 7 \<longrightarrow> real_of_int (dc_month cs) - 1 \<le> v \<and> v < real_of_int (dc_month cs)) \<and>
    (dc_month cs = 7 \<and> dc_day cs = 31 \<longrightarrow> 7 \<le> v)"
proof -
  let ?len = "calcDaysInMonth (dc_month cs) (dc_year cs) (dc_era cs) z"
  let ?d = "real_of_int (dc_day cs) - 1 + day_fraction cs"
  have h: "hybrid_date (cs_date cs)" and ok: "cs_clock_ok cs"
    unfolding cs_def by (rule local_date)+
  note f = day_fraction_bounds[OF ok]
  have v: "monthValue h now s env w = Some (real_of_int (dc_month cs) - 1 + ?d / real_of_int ?len)"
    using assms(2,3) by (simp add: monthValue_def watch_date_def cs_def)
  have c: "dc_era cs = 0 \<or> dc_era cs = 1" "1 \<le> dc_month cs" "dc_month cs \<le> 12" "1 \<le> dc_day cs"
    "dc_day cs \<le> month_length (leap (gregorian_section (dc_era cs) (dc_year cs) (dc_month cs) (dc_day cs))
      (signed_year (dc_era cs) (dc_year cs))) (dc_month cs)"
    using h by (simp_all add: hybrid_date_def calendar_date_def cs_date_def)
  have "dc_day cs \<le> ?len \<and> 0 < ?len" if "dc_month cs \<noteq> 7"
  proof (cases "dc_month cs = 2")
    case True
    have "gregorian_section (dc_era cs) (dc_year cs) 2 (dc_day cs) = gregorian_section (dc_era cs) (dc_year cs) 2 1"
      by (auto simp: gregorian_section_def)
    then show ?thesis using rint_fixed_diff[OF assms(1) c(1)] c(5) True by (auto simp: month_length_def)
  next
    case False
    have "dc_month cs = 1 \<or> dc_month cs = 3 \<or> dc_month cs = 4 \<or> dc_month cs = 5 \<or> dc_month cs = 6 \<or>
        dc_month cs = 8 \<or> dc_month cs = 9 \<or> dc_month cs = 10 \<or> dc_month cs = 11 \<or> dc_month cs = 12"
      using c(2,3) False that by presburger
    then show ?thesis using c(5) by (elim disjE) (simp_all add: calcDaysInMonth_def month_length_def)
  qed
  moreover have "0 \<le> ?d / real_of_int l \<and> ?d / real_of_int l < 1" if "dc_day cs \<le> l" "0 < l" for l
  proof -
    have "0 \<le> ?d" "?d < real_of_int l" using c(4) f that by linarith+
    then show ?thesis by simp
  qed
  moreover have "1 \<le> ?d / 30" if "dc_day cs = 31" using that f by simp
  ultimately show ?thesis unfolding v by (auto simp: calcDaysInMonth_def)
qed

section \<open>The offset of one time\<close>

text \<open>
  The cache remembers the offset at one time. Clearing it sets that time to 0, so the offset
  of the zone before is still answered for a watch that shows the time 0.
\<close>

theorem tzOffset_after_clearing:
  assumes "clearCache True (env, \<lparr>tzLock = False, haveTZLock = False\<rparr>) = Some (env', l)"
    and "env_zone env' h = Some z" "wt_currentTime now s w = Some t"
  shows "\<exists>env''. tzOffsetUsingEnv h now s env' w =
    Some (if t = 0 then env_resultForTZ env else offsetFromUTCForTime z t, env'')"
proof -
  have "env' = env\<lparr>env_prevTimeForTZ := 0, env_cacheMidnightBase := ESFarInThePast\<rparr>"
    using assms(1) by (simp add: clearCache_def lock_unless_held_def)
  then show ?thesis
    using assms(2,3) by (auto simp: tzOffsetUsingEnv_def tzOffsetForTimeInterval_def)
qed

section \<open>The previous change of daylight saving time\<close>

text \<open>The walk ends as long as the zone answers later times, and stops at the last change it meets.\<close>

theorem prev_change_walk_ends:
  assumes "\<And>x. nextDSTChangeAfterTime z x = 0 \<or> x < nextDSTChangeAfterTime z x" "best < now"
  shows "\<exists>r. prev_change_loop z now best = Some r \<and> best \<le> r \<and> r < now \<and>
    (nextDSTChangeAfterTime z (r + 7200) = 0 \<or> now \<le> nextDSTChangeAfterTime z (r + 7200))"
  using assms(2)
proof (induction "nat \<lceil>(now - best) / 7200\<rceil>" arbitrary: best rule: less_induct)
  case less
  let ?n = "nextDSTChangeAfterTime z (best + 7200)"
  show ?case
  proof (cases "?n = 0 \<or> ?n \<ge> now")
    case True
    then show ?thesis
      using less.prems
      by (subst prev_change_loop.simps) (auto simp: nextDSTChangeAfterTimeInterval_def Let_def)
  next
    case False
    then have n: "best + 7200 < ?n" "?n < now" using assms(1)[of "best + 7200"] by auto
    have "(now - ?n) / 7200 \<le> (now - best) / 7200 - 1" using n(1) by (simp add: field_simps)
    then have "\<lceil>(now - ?n) / 7200\<rceil> \<le> \<lceil>(now - best) / 7200\<rceil> - 1"
      by (metis ceiling_diff_one ceiling_mono)
    moreover have "0 < \<lceil>(now - ?n) / 7200\<rceil>" using n(2) by simp
    ultimately have "nat \<lceil>(now - ?n) / 7200\<rceil> < nat \<lceil>(now - best) / 7200\<rceil>" by linarith
    from less.hyps[OF this n(2)] obtain r where r: "prev_change_loop z now ?n = Some r" "?n \<le> r" "r < now"
      "nextDSTChangeAfterTime z (r + 7200) = 0 \<or> now \<le> nextDSTChangeAfterTime z (r + 7200)" by blast
    then show ?thesis
      using False n
      by (subst prev_change_loop.simps) (auto simp: nextDSTChangeAfterTimeInterval_def Let_def)
  qed
qed

section \<open>The theorems for a frozen watch\<close>

definition frozen_watch :: "real \<Rightarrow> ESWatchTime" where
  "frozen_watch t = new_frozen_watch 0 t"

lemma frozen_watch_fields [simp]:
  "wt_currentTime now s (frozen_watch t) = Some t" "wt_latched (frozen_watch t) = 0"
  "wt_warp (frozen_watch t) = 0"
  by (simp_all add: frozen_watch_def new_frozen_watch_def wt_currentTime_def)


definition eastern_store :: tz_store where
  "eastern_store = [0 \<mapsto> \<lparr>tz_impl = eastern_standard, refCount = 1\<rparr>]"

lemma eastern_env_zone: "env_zone fresh_environment eastern_store = Some eastern_standard"
  by (simp add: env_zone_def fresh_environment_def eastern_store_def)

theorem month_hand_range_witness:
  "\<exists>v. monthValue eastern_store 5 sample_estime fresh_environment (frozen_watch 
      (timeIntervalFromUTCComponents (midnight_of (1, 2026, 7, 31)) + 18000)) = Some v \<and> 7 \<le> v"
proof -
  have "localComponentsFromTimeInterval (timeIntervalFromUTCComponents (midnight_of (1, 2026, 7, 31)) + 18000)
      eastern_standard = midnight_of (1, 2026, 7, 31)"
    by (rule eastern_local_date) (simp_all add: date_evaluation midnight_of_def)
  then show ?thesis
    using month_hand_range[OF eastern_standard_fixed eastern_env_zone frozen_watch_fields(1),
        of 5 sample_estime "timeIntervalFromUTCComponents (midnight_of (1, 2026, 7, 31)) + 18000"]
    by (auto simp: midnight_of_def)
qed

theorem prev_change_walk_ends_witness:
  "\<exists>r. prev_change_loop spring_zone 9000000 0 = Some r \<and> r < 9000000"
proof -
  have "nextDSTChangeAfterTime spring_zone x = 0 \<or> x < nextDSTChangeAfterTime spring_zone x" for x by simp
  from prev_change_walk_ends[OF this, of 0 9000000] show ?thesis by auto
qed

end
