(* ===== verification/EsWatchAdvance.thy ===== *)
theory EsWatchAdvance
  imports EsWatchHands
begin

text \<open>
  Moving a watch: the \<open>advance\<close> and \<open>retard\<close> methods of src/ESWatchTime.cpp. They add to
  \<open>_ourTimeAtCorrectedZero\<close> and bring the watch into the supported range.
\<close>

section \<open>To the next and the previous boundary\<close>

definition shift_watch :: "real \<Rightarrow> real \<Rightarrow> estime \<Rightarrow> ESWatchTime \<Rightarrow> ESWatchTime option" where
  "shift_watch d now s w =
     map_option snd (checkAndConstrainAbsoluteTime now s (w\<lparr>wt_zero := wt_zero w + d\<rparr>))"

definition advanceToNextInterval ::
  "tz_store \<Rightarrow> real \<Rightarrow> real \<Rightarrow> estime \<Rightarrow> ESTimeEnvironment \<Rightarrow> ESWatchTime \<Rightarrow>
     (ESWatchTime \<times> ESTimeEnvironment) option" where
  "advanceToNextInterval h interval now s env w = do {
     (tzOff, env) \<leftarrow> tzOffsetUsingEnv h now s env w;
     currentTimeGMT \<leftarrow> wt_currentTime now s w;
     let currentTimeLocal = currentTimeGMT + tzOff;
     let newTimeLocal = onEvenTime (preAdvanceForNextAtTime currentTimeLocal interval w) interval;
     let newTimeLocal = newTimeLocal + offsetAfterJump w;
     w \<leftarrow> shift_watch (newTimeLocal - currentTimeLocal) now s w;
     Some (w, env)
   }"

definition advanceToPrevInterval ::
  "tz_store \<Rightarrow> real \<Rightarrow> real \<Rightarrow> estime \<Rightarrow> ESTimeEnvironment \<Rightarrow> ESWatchTime \<Rightarrow>
     (ESWatchTime \<times> ESTimeEnvironment) option" where
  "advanceToPrevInterval h interval now s env w = do {
     (tzOff, env) \<leftarrow> tzOffsetUsingEnv h now s env w;
     currentTimeGMT \<leftarrow> wt_currentTime now s w;
     let currentTimeLocal = currentTimeGMT + tzOff;
     let newTimeLocal = onEvenTimeBack (preAdvanceForPrevAtTime currentTimeLocal interval w) interval;
     let newTimeLocal = newTimeLocal + offsetAfterJump w;
     w \<leftarrow> shift_watch (newTimeLocal - currentTimeLocal) now s w;
     Some (w, env)
   }"

definition first_of_month :: "ESTimeZoneImplementation \<Rightarrow> real \<Rightarrow> real" where
  "first_of_month z t = timeIntervalFromLocalComponents z
     ((localComponentsFromTimeInterval t z)\<lparr>dc_day := 1, dc_hour := 0, dc_minute := 0, dc_seconds := 0\<rparr>)"

definition first_of_year :: "ESTimeZoneImplementation \<Rightarrow> real \<Rightarrow> real" where
  "first_of_year z t = timeIntervalFromLocalComponents z
     ((localComponentsFromTimeInterval t z)
       \<lparr>dc_day := 1, dc_month := 1, dc_hour := 0, dc_minute := 0, dc_seconds := 0\<rparr>)"

definition advanceToNextMonth ::
  "tz_store \<Rightarrow> real \<Rightarrow> estime \<Rightarrow> ESTimeEnvironment \<Rightarrow> ESWatchTime \<Rightarrow> ESWatchTime option" where
  "advanceToNextMonth h now s env w = do {
     curTime \<leftarrow> wt_currentTime now s w;
     let preTime = preAdvanceForNextAtTime curTime (3600 * 24 * 15) w;
     z \<leftarrow> env_zone env h;
     let firstOfThisMonth = first_of_month z preTime;
     firstOfNextMonth \<leftarrow> addMonthsToTimeInterval firstOfThisMonth z 1;
     shift_watch (firstOfNextMonth - curTime + offsetAfterJump w) now s w
   }"

definition advanceToPrevMonth ::
  "tz_store \<Rightarrow> real \<Rightarrow> estime \<Rightarrow> ESTimeEnvironment \<Rightarrow> ESWatchTime \<Rightarrow> ESWatchTime option" where
  "advanceToPrevMonth h now s env w = do {
     curTime \<leftarrow> wt_currentTime now s w;
     let preTime = preAdvanceForPrevAtTime curTime (3600 * 24 * 15) w;
     z \<leftarrow> env_zone env h;
     let firstOfThisMonth = first_of_month z preTime;
     shift_watch (firstOfThisMonth - curTime + offsetAfterJump w) now s w
   }"

definition advanceToNextYear ::
  "tz_store \<Rightarrow> real \<Rightarrow> estime \<Rightarrow> ESTimeEnvironment \<Rightarrow> ESWatchTime \<Rightarrow> ESWatchTime option" where
  "advanceToNextYear h now s env w = do {
     curTime \<leftarrow> wt_currentTime now s w;
     let preTime = preAdvanceForNextAtTime curTime (3600 * 24 * 15) w;
     z \<leftarrow> env_zone env h;
     let firstOfThisYear = first_of_year z preTime;
     let firstOfNextYear = addYearsToTimeInterval firstOfThisYear z 1;
     shift_watch (firstOfNextYear - curTime + offsetAfterJump w) now s w
   }"

definition advanceToPrevYear ::
  "tz_store \<Rightarrow> real \<Rightarrow> estime \<Rightarrow> ESTimeEnvironment \<Rightarrow> ESWatchTime \<Rightarrow> ESWatchTime option" where
  "advanceToPrevYear h now s env w = do {
     curTime \<leftarrow> wt_currentTime now s w;
     let preTime = preAdvanceForNextAtTime curTime (3600 * 24 * 15) w;
     z \<leftarrow> env_zone env h;
     let firstOfThisYear = first_of_year z preTime;
     shift_watch (firstOfThisYear - curTime + offsetAfterJump w) now s w
   }"

text \<open>The unit that goes with the speed.\<close>

datatype advance_unit = AdvanceYear | AdvanceMonth | AdvanceInterval real

definition advance_unit_of :: "ESWatchTimeCycle \<Rightarrow> advance_unit" where
  "advance_unit_of c =
     (case c of CycleFF6 \<Rightarrow> AdvanceYear | CycleReverseFF6 \<Rightarrow> AdvanceYear
      | CycleFF5 \<Rightarrow> AdvanceMonth | CycleReverseFF5 \<Rightarrow> AdvanceMonth
      | CycleFF2 \<Rightarrow> AdvanceInterval 3600 | CycleReverseFF2 \<Rightarrow> AdvanceInterval 3600
      | CycleFF1 \<Rightarrow> AdvanceInterval 60 | CycleReverseFF1 \<Rightarrow> AdvanceInterval 60
      | CycleSlow1 \<Rightarrow> AdvanceInterval 1 | CycleReverseSlow1 \<Rightarrow> AdvanceInterval 1
      | _ \<Rightarrow> AdvanceInterval (24 * 3600))"

definition advanceToNext where
  "advanceToNext h now s env w =
     (case advance_unit_of (wt_cycle w) of
        AdvanceYear \<Rightarrow> map_option (\<lambda>w. (w, env)) (advanceToNextYear h now s env w)
      | AdvanceMonth \<Rightarrow> map_option (\<lambda>w. (w, env)) (advanceToNextMonth h now s env w)
      | AdvanceInterval i \<Rightarrow> advanceToNextInterval h i now s env w)"

definition advanceToPrevious where
  "advanceToPrevious h now s env w =
     (case advance_unit_of (wt_cycle w) of
        AdvanceYear \<Rightarrow> map_option (\<lambda>w. (w, env)) (advanceToPrevYear h now s env w)
      | AdvanceMonth \<Rightarrow> map_option (\<lambda>w. (w, env)) (advanceToPrevMonth h now s env w)
      | AdvanceInterval i \<Rightarrow> advanceToPrevInterval h i now s env w)"

section \<open>By days, months and years\<close>

definition start_or_now :: "real option \<Rightarrow> real \<Rightarrow> estime \<Rightarrow> ESWatchTime \<Rightarrow> real option" where
  "start_or_now startTime now s w = (case startTime of Some t \<Rightarrow> Some t | None \<Rightarrow> wt_currentTime now s w)"

definition advanceByDays where
  "advanceByDays h intDays startTime now s env w = do {
     t \<leftarrow> start_or_now startTime now s w;
     z \<leftarrow> env_zone env h;
     let sameTimeNextDay = addDaysToTimeInterval t z intDays;
     advanceBySeconds (sameTimeNextDay - t) (Some t) now s w
   }"

definition advanceByMonths where
  "advanceByMonths h intMonths startTime now s env w = do {
     t \<leftarrow> start_or_now startTime now s w;
     z \<leftarrow> env_zone env h;
     sameTimeNextMonth \<leftarrow> addMonthsToTimeInterval t z intMonths;
     advanceBySeconds (sameTimeNextMonth - t) (Some t) now s w
   }"

definition advanceByYears where
  "advanceByYears h numYears startTime now s env w = do {
     t \<leftarrow> start_or_now startTime now s w;
     z \<leftarrow> env_zone env h;
     let sameTimeNextYear = addYearsToTimeInterval t z numYears;
     advanceBySeconds (sameTimeNextYear - t) (Some t) now s w
   }"

text \<open>\<open>advanceOneDayUsingEnv\<close> and its five sisters pass the current time and 1 or -1.\<close>

definition advance_one where
  "advance_one advance k h now s env w = do {
     t \<leftarrow> wt_currentTime now s w;
     advance h (k :: int) (Some t) now s env w
   }"

definition advanceToQuarterHour where
  "advanceToQuarterHour h now s env w = do {
     ct \<leftarrow> wt_currentTime now s w;
     z \<leftarrow> env_zone env h;
     let cs = localComponentsFromTimeInterval ct z;
     let secondsSinceHour = real_of_int (dc_minute cs * 60) + dc_seconds cs;
     if secondsSinceHour < 15 * 60 then advanceBySeconds (15 * 60 - secondsSinceHour) None now s w
     else if secondsSinceHour < 30 * 60 then advanceBySeconds (30 * 60 - secondsSinceHour) None now s w
     else if secondsSinceHour < 45 * 60 then advanceBySeconds (45 * 60 - secondsSinceHour) None now s w
     else advanceBySeconds (60 * 60 - secondsSinceHour) None now s w
   }"

definition retreatToQuarterHour where
  "retreatToQuarterHour h now s env w = do {
     ct \<leftarrow> wt_currentTime now s w;
     z \<leftarrow> env_zone env h;
     let cs = localComponentsFromTimeInterval ct z;
     let fudge = 0.01;
     let secondsSinceHour = real_of_int (dc_minute cs * 60) + dc_seconds cs - fudge;
     let secondsSinceHour = (if secondsSinceHour < 0 then secondsSinceHour + 60 * 60 else secondsSinceHour);
     if secondsSinceHour < 15 * 60 then advanceBySeconds (- fudge - secondsSinceHour) None now s w
     else if secondsSinceHour < 30 * 60 then advanceBySeconds (- fudge + 15 * 60 - secondsSinceHour) None now s w
     else if secondsSinceHour < 45 * 60 then advanceBySeconds (- fudge + 30 * 60 - secondsSinceHour) None now s w
     else advanceBySeconds (- fudge + 45 * 60 - secondsSinceHour) None now s w
   }"

section \<open>A step to a boundary\<close>

lemma shift_watch_in_range:
  assumes "wt_latched w = 0" "wt_currentTime now s w = Some t"
    and "ESMinimumSupportedAstroDate < t + d" "t + d < ESMaximumSupportedAstroDate"
  shows "shift_watch d now s w = Some (w\<lparr>wt_zero := wt_zero w + d\<rparr>)"
    "wt_currentTime now s (w\<lparr>wt_zero := wt_zero w + d\<rparr>) = Some (t + d)"
proof -
  show c: "wt_currentTime now s (w\<lparr>wt_zero := wt_zero w + d\<rparr>) = Some (t + d)"
    using assms(1,2) by (auto simp: wt_currentTime_def split: if_splits option.splits bind_splits)
  show "shift_watch d now s w = Some (w\<lparr>wt_zero := wt_zero w + d\<rparr>)"
    using assms(3,4) by (simp add: shift_watch_def checkAndConstrainAbsoluteTime_def c)
qed

lemma onEvenTime_next:
  assumes "0 < i"
  obtains n :: int where "onEvenTime x i = real_of_int n * i" "x \<le> onEvenTime x i" "onEvenTime x i < x + i"
proof -
  define k where "k = \<lfloor>x / i\<rfloor>"
  have "real_of_int k \<le> x / i" "x / i < real_of_int k + 1"
    unfolding k_def by (rule of_int_floor_le, rule floor_correct[THEN conjunct2, simplified])
  then have k: "real_of_int k * i \<le> x" "x < (real_of_int k + 1) * i"
    using assms by (simp_all add: pos_le_divide_eq pos_divide_less_eq)
  show thesis
  proof (cases "real_of_int k * i < x")
    case True
    show thesis
      by (rule that[of "k + 1"]; use k True in \<open>simp add: onEvenTime_def k_def[symmetric] algebra_simps\<close>)
  next
    case False
    show thesis
      by (rule that[of k]; use k False assms in \<open>simp add: onEvenTime_def k_def[symmetric] algebra_simps\<close>)
  qed
qed

text \<open>
  A forward step of a watch that does not run backwards ends two seconds before the first
  boundary of local time that is at least three seconds away, so repeated steps make progress.
\<close>

theorem next_interval_stops_before_boundary:
  assumes "wt_latched w = 0" "0 \<le> wt_warp w" "wt_currentTime now s w = Some t" "0 < i"
    and "tzOffsetUsingEnv h now s env w = Some (off, env')"
    and "ESMinimumSupportedAstroDate < t" "t + i + 1 < ESMaximumSupportedAstroDate"
  shows "\<exists>w' t' n. advanceToNextInterval h i now s env w = Some (w', env') \<and>
    wt_currentTime now s w' = Some t' \<and> t' + off = real_of_int n * i - kESWatchTimeAdvanceGap \<and>
    t + 1 \<le> t' \<and> t' < t + 1 + i"
proof -
  obtain n where n: "onEvenTime (t + off + 3) i = real_of_int n * i"
    "t + off + 3 \<le> onEvenTime (t + off + 3) i" "onEvenTime (t + off + 3) i < t + off + 3 + i"
    using onEvenTime_next[OF assms(4)] by metis
  let ?d = "onEvenTime (t + off + 3) i - 2 - (t + off)"
  have p: "preAdvanceForNextAtTime (t + off) i w = t + off + 3" "offsetAfterJump w = - 2"
    using assms(2) by (simp_all add: preAdvanceForNextAtTime_def offsetAfterJump_def kESWatchTimeAdvanceGap_def)
  have "advanceToNextInterval h i now s env w =
      map_option (\<lambda>w. (w, env')) (shift_watch ?d now s w)"
    using assms(3,5) by (simp add: advanceToNextInterval_def Let_def p map_conv_bind_option comp_def)
  moreover have "ESMinimumSupportedAstroDate < t + ?d" "t + ?d < ESMaximumSupportedAstroDate"
    using n assms(6,7) by simp_all
  note shift_watch_in_range[OF assms(1,3) this]
  ultimately show ?thesis using n by (auto simp: kESWatchTimeAdvanceGap_def)
qed

section \<open>Back by years\<close>

lemma first_of_year_fixed:
  assumes "fixed_zone z a"
  shows "first_of_year z (first_of_year z t + 1) = first_of_year z t"
proof -
  let ?c = "localComponentsFromTimeInterval t z"
  let ?y = "?c\<lparr>dc_day := 1, dc_month := 1, dc_hour := 0, dc_minute := 0, dc_seconds := 0\<rparr>"
  let ?y1 = "?y\<lparr>dc_seconds := 1\<rparr>"
  have e: "dc_era ?c = 0 \<or> dc_era ?c = 1" "1 \<le> dc_year ?c"
    using local_date(1)[of t z] by (simp_all add: hybrid_date_def calendar_date_def cs_date_def)
  have "timeIntervalFromUTCComponents ?y1 = timeIntervalFromUTCComponents ?y + 1"
    using e(1) by (simp add: timeIntervalFromUTCComponents_day cs_date_def cs_clock_def)
  then have "first_of_year z t + 1 = timeIntervalFromUTCComponents ?y1 - a"
    by (simp add: first_of_year_def fixed_zone_interval[OF assms])
  moreover have "hybrid_date (cs_date ?y1)" "cs_clock_ok ?y1"
    using e by (simp_all add: hybrid_date_def calendar_date_def cs_date_def month_length_def cs_clock_ok_def)
  ultimately have "localComponentsFromTimeInterval (first_of_year z t + 1) z = ?y1"
    using components_of_interval fixed_zone_interval[OF assms] by metis
  then show ?thesis by (simp add: first_of_year_def)
qed

text \<open>
  The step to the previous year looks for the first of the year from three seconds ahead, not
  from behind: after one step the watch is two seconds before a first of January, and from
  there every further step ends where it began.
\<close>

theorem previous_year_sticks:
  assumes "fixed_zone z a" "env_zone env h = Some z"
    and "wt_latched w = 0" "0 \<le> wt_warp w" "wt_currentTime now s w = Some t"
    and "ESMinimumSupportedAstroDate < first_of_year z (t + 3) - 2"
    and "first_of_year z (t + 3) - 2 < ESMaximumSupportedAstroDate"
  shows "\<exists>w1. advanceToPrevYear h now s env w = Some w1 \<and>
    wt_currentTime now s w1 = Some (first_of_year z (t + 3) - kESWatchTimeAdvanceGap) \<and>
    advanceToPrevYear h now s env w1 = Some w1"
proof -
  have step: "advanceToPrevYear h now s env v =
      shift_watch (first_of_year z (u + 3) - u - 2) now s v"
    if "wt_currentTime now s v = Some u" "0 \<le> wt_warp v" for u v
    using that assms(2)
    by (simp add: advanceToPrevYear_def preAdvanceForNextAtTime_def offsetAfterJump_def
        kESWatchTimeAdvanceGap_def add.commute[of 3])
  define d where "d = first_of_year z (t + 3) - t - 2"
  define w1 where "w1 = w\<lparr>wt_zero := wt_zero w + d\<rparr>"
  define u where "u = first_of_year z (t + 3) - 2"
  have td: "t + d = u" by (simp add: d_def u_def)
  have w1: "advanceToPrevYear h now s env w = Some w1" "wt_currentTime now s w1 = Some u"
    using shift_watch_in_range[OF assms(3,5), of d] assms(6,7) step[OF assms(5,4)]
    unfolding td u_def[symmetric] by (simp_all add: w1_def d_def)
  have "first_of_year z (u + 3) = first_of_year z (t + 3)"
    using first_of_year_fixed[OF assms(1), of "t + 3"] by (simp add: u_def add.commute)
  then have "first_of_year z (u + 3) - u - 2 = 0" by (simp add: u_def)
  then have "advanceToPrevYear h now s env w1 = shift_watch 0 now s w1"
    using step[OF w1(2)] assms(4) by (simp add: w1_def)
  also have "\<dots> = Some w1"
    using shift_watch_in_range(1)[of w1 now s u 0] w1(2) assms(3,6,7) by (simp add: w1_def u_def)
  finally show ?thesis using w1 by (simp add: u_def kESWatchTimeAdvanceGap_def)
qed

section \<open>Quarters of an hour\<close>

text \<open>The seconds since the hour, and the quarter after them.\<close>

lemma advance_unlatched:
  assumes "wt_latched w = 0" "wt_currentTime now s w = Some t"
    and "ESMinimumSupportedAstroDate < t + d" "t + d < ESMaximumSupportedAstroDate"
  shows "\<exists>w'. advanceBySeconds d None now s w = Some w' \<and> wt_currentTime now s w' = Some (t + d)"
  using shift_watch_in_range[OF assms] by (auto simp: advanceBySeconds_def shift_watch_def)

theorem quarter_hour_steps:
  assumes "env_zone env h = Some z" "wt_latched w = 0" "wt_currentTime now s w = Some t"
    and "ESMinimumSupportedAstroDate < t - 901" "t + 901 < ESMaximumSupportedAstroDate"
  defines "L \<equiv> t + offsetFromUTCForTime z t"
  shows "(\<exists>w' d n. advanceToQuarterHour h now s env w = Some w' \<and> wt_currentTime now s w' = Some (t + d) \<and>
      L + d = 900 * real_of_int n \<and> 0 < d \<and> d \<le> 900) \<and>
    (\<exists>w' d n. retreatToQuarterHour h now s env w = Some w' \<and> wt_currentTime now s w' = Some (t - d) \<and>
      L - d = 900 * real_of_int n \<and> 0 < d \<and> d \<le> 900.01)"
proof -
  define cs where "cs = localComponentsFromTimeInterval t z"
  define x where "x = real_of_int (dc_minute cs * 60) + dc_seconds cs"
  have ok: "cs_clock_ok cs" unfolding cs_def by (rule local_date)
  have "real_of_int (dc_minute cs) \<le> 59" using ok by (simp add: cs_clock_ok_def)
  then have x: "0 \<le> x" "x < 3600" using ok by (simp_all add: x_def cs_clock_ok_def)
  define q where "q = 96 * \<lfloor>L / 86400\<rfloor> + 4 * dc_hour cs"
  have "cs_clock cs = L - 86400 * real_of_int \<lfloor>L / 86400\<rfloor>"
    unfolding cs_def L_def by (rule local_date)
  then have L: "L = 900 * real_of_int q + x" by (simp add: cs_clock_def x_def q_def)
  have up: "\<exists>w' d n. advanceBySeconds (e - x) None now s w = Some w' \<and> wt_currentTime now s w' = Some (t + d) \<and>
      L + d = 900 * real_of_int n \<and> 0 < d \<and> d \<le> 900"
    if "e = 900 * real_of_int k" "e - 900 \<le> x" "x < e" "e \<le> 3600" for e k
  proof -
    note e = that
    obtain w' where "advanceBySeconds (e - x) None now s w = Some w'" "wt_currentTime now s w' = Some (t + (e - x))"
      using advance_unlatched[OF assms(2,3), of "e - x"] e x assms(4,5) by auto
    moreover have "L + (e - x) = 900 * real_of_int (q + k)" using e(1) by (simp add: L)
    ultimately show ?thesis using e by (intro exI[of _ w'] exI[of _ "e - x"] exI[of _ "q + k"]) simp
  qed
  have down: "\<exists>w' d n. advanceBySeconds (e - x) None now s w = Some w' \<and> wt_currentTime now s w' = Some (t - d) \<and>
      L - d = 900 * real_of_int n \<and> 0 < d \<and> d \<le> 900.01"
    if "e = 900 * real_of_int k" "e < x" "x \<le> e + 900.01" for e k
  proof -
    note e = that
    obtain w' where "advanceBySeconds (e - x) None now s w = Some w'" "wt_currentTime now s w' = Some (t + (e - x))"
      using advance_unlatched[OF assms(2,3), of "e - x"] e x assms(4,5) by auto
    moreover have "t + (e - x) = t - (x - e)" by simp
    moreover have "L - (x - e) = 900 * real_of_int (q + k)" using e(1) by (simp add: L)
    ultimately show ?thesis using e by (intro exI[of _ w'] exI[of _ "x - e"] exI[of _ "q + k"]) simp
  qed
  have adv: "advanceToQuarterHour h now s env w =
      (if x < 900 then advanceBySeconds (900 - x) None now s w
       else if x < 1800 then advanceBySeconds (1800 - x) None now s w
       else if x < 2700 then advanceBySeconds (2700 - x) None now s w
       else advanceBySeconds (3600 - x) None now s w)"
    using assms(1,3) by (simp add: advanceToQuarterHour_def Let_def cs_def[symmetric] x_def)
  have ret: "retreatToQuarterHour h now s env w =
      (if x < 0.01 then advanceBySeconds (- 900 - x) None now s w
       else if x < 900.01 then advanceBySeconds (0 - x) None now s w
       else if x < 1800.01 then advanceBySeconds (900 - x) None now s w
       else if x < 2700.01 then advanceBySeconds (1800 - x) None now s w
       else advanceBySeconds (2700 - x) None now s w)"
  proof -
    define y where "y = (if x - 0.01 < 0 then x - 0.01 + 60 * 60 else x - 0.01)"
    have "retreatToQuarterHour h now s env w =
      (if y < 15 * 60 then advanceBySeconds (- 0.01 - y) None now s w
       else if y < 30 * 60 then advanceBySeconds (- 0.01 + 15 * 60 - y) None now s w
       else if y < 45 * 60 then advanceBySeconds (- 0.01 + 30 * 60 - y) None now s w
       else advanceBySeconds (- 0.01 + 45 * 60 - y) None now s w)"
      unfolding retreatToQuarterHour_def assms(1,3) bind.bind_lunit Let_def
        cs_def[symmetric] x_def[symmetric] y_def by (rule refl)
    moreover have "y = x + 3599.99" if "x < 0.01" using that by (simp add: y_def)
    moreover have "y = x - 0.01" if "\<not> x < 0.01" using that by (simp add: y_def)
    ultimately show ?thesis using x by (cases "x < 0.01") auto
  qed
  consider "x < 900" | "900 \<le> x" "x < 1800" | "1800 \<le> x" "x < 2700" | "2700 \<le> x" by linarith
  then have 1: "\<exists>w' d n. advanceToQuarterHour h now s env w = Some w' \<and> wt_currentTime now s w' = Some (t + d) \<and>
      L + d = 900 * real_of_int n \<and> 0 < d \<and> d \<le> 900"
  proof cases
    case 1 show ?thesis using 1 x up[of 900 1] by (simp add: adv)
  next
    case 2 show ?thesis using 2 x up[of 1800 2] by (simp add: adv)
  next
    case 3 show ?thesis using 3 x up[of 2700 3] by (simp add: adv)
  next
    case 4 show ?thesis using 4 x up[of 3600 4] by (simp add: adv)
  qed
  consider "x < 0.01" | "0.01 \<le> x" "x < 900.01" | "900.01 \<le> x" "x < 1800.01" | "1800.01 \<le> x" "x < 2700.01"
    | "2700.01 \<le> x" by linarith
  then have 2: "\<exists>w' d n. retreatToQuarterHour h now s env w = Some w' \<and> wt_currentTime now s w' = Some (t - d) \<and>
      L - d = 900 * real_of_int n \<and> 0 < d \<and> d \<le> 900.01"
  proof cases
    case 1 show ?thesis using 1 x down[of "- 900" "- 1"] by (simp add: ret)
  next
    case 2 show ?thesis using 2 x down[of 0 0] by (simp add: ret)
  next
    case 3 show ?thesis using 3 x down[of 900 1] by (simp add: ret)
  next
    case 4 show ?thesis using 4 x down[of 1800 2] by (simp add: ret)
  next
    case 5 show ?thesis using 5 x down[of 2700 3] by (simp add: ret)
  qed
  show ?thesis using 1 2 by simp
qed

section \<open>The theorems for a stopped watch\<close>

theorem next_interval_stops_before_boundary_witness:
  "\<exists>w' t' n env'. advanceToNextInterval eastern_store 3600 5 sample_estime fresh_environment (frozen_watch 100) =
      Some (w', env') \<and> wt_currentTime 5 sample_estime w' = Some t' \<and>
      t' - 18000 = real_of_int n * 3600 - kESWatchTimeAdvanceGap"
proof -
  obtain env' where "tzOffsetUsingEnv eastern_store 5 sample_estime fresh_environment (frozen_watch 100) =
      Some (- 18000, env')"
    using eastern_env_zone
    by (simp add: tzOffsetUsingEnv_def tzOffsetForTimeInterval_def)
  from next_interval_stops_before_boundary[OF _ _ _ _ this, of 100 3600] show ?thesis
    by (simp add: ESMinimumSupportedAstroDate_def ESMaximumSupportedAstroDate_def) blast
qed

theorem previous_year_sticks_witness:
  "\<exists>w1. advanceToPrevYear eastern_store 5 sample_estime fresh_environment (frozen_watch
       (timeIntervalFromUTCComponents (midnight_of (1, 2001, 1, 1)) + 18000 - 3)) = Some w1 \<and>
     advanceToPrevYear eastern_store 5 sample_estime fresh_environment w1 = Some w1"
proof -
  let ?m = "midnight_of (1, 2001, 1, 1)"
  have "localComponentsFromTimeInterval (timeIntervalFromUTCComponents ?m + 18000) eastern_standard = ?m"
    by (rule eastern_local_date) (simp_all add: date_evaluation midnight_of_def)
  then have "localComponentsFromTimeInterval 18000 eastern_standard = ?m" by (simp add: epoch_midnight)
  then have "first_of_year eastern_standard 18000 = timeIntervalFromLocalComponents eastern_standard ?m"
    by (simp add: first_of_year_def midnight_of_def)
  then have y: "first_of_year eastern_standard 18000 = 18000"
    by (simp add: fixed_zone_interval(1)[OF eastern_standard_fixed] epoch_midnight)
  show ?thesis
    using previous_year_sticks[OF eastern_standard_fixed eastern_env_zone, of "frozen_watch 17997" 5 sample_estime 17997]
    by (simp add: y epoch_midnight ESMinimumSupportedAstroDate_def ESMaximumSupportedAstroDate_def) blast
qed

theorem quarter_hour_steps_witness:
  "\<exists>w' d n. advanceToQuarterHour eastern_store 5 sample_estime fresh_environment (frozen_watch 100) = Some w' \<and>
     wt_currentTime 5 sample_estime w' = Some (100 + d) \<and> d - 17900 = 900 * real_of_int n \<and> 0 < d"
  using quarter_hour_steps[OF eastern_env_zone, of "frozen_watch 100" 5 sample_estime 100]
  by (simp add: ESMinimumSupportedAstroDate_def ESMaximumSupportedAstroDate_def) blast

end
