(* ===== verification/EsNtpHostNames.thy ===== *)
theory EsNtpHostNames
  imports CStrings EsTypes
begin

text \<open>
  The servers the NTP driver asks: src/ESNTPHostNames.cpp. The hosts of the user come first, then
  the pools of the country, of its continent and of the world, and last Apple's server.

  The lists of the user's servers and the flag of the pool are the static variables. An
  iterator into the list of the user's servers is a position: the list is not changed while
  an iterator is in use. \<open>ESUtil::localeCountryCode\<close> is an argument.
\<close>

section \<open>Farms\<close>

record ContinentFarmDescriptor =
  cf_farmName :: string
  cf_numberOfServers :: int

definition Africa :: ContinentFarmDescriptor where
  "Africa = \<lparr>cf_farmName = ''africa'', cf_numberOfServers = 1\<rparr>"
definition Asia :: ContinentFarmDescriptor where
  "Asia = \<lparr>cf_farmName = ''asia'', cf_numberOfServers = 4\<rparr>"
definition Europe :: ContinentFarmDescriptor where
  "Europe = \<lparr>cf_farmName = ''europe'', cf_numberOfServers = 4\<rparr>"
definition NorthAmerica :: ContinentFarmDescriptor where
  "NorthAmerica = \<lparr>cf_farmName = ''north-america'', cf_numberOfServers = 4\<rparr>"
definition Oceania :: ContinentFarmDescriptor where
  "Oceania = \<lparr>cf_farmName = ''oceania'', cf_numberOfServers = 4\<rparr>"
definition SouthAmerica :: ContinentFarmDescriptor where
  "SouthAmerica = \<lparr>cf_farmName = ''south-america'', cf_numberOfServers = 1\<rparr>"

record CountryFarmDescriptor =
  countryName :: string
  poolNameForCountry :: string
  numberOfServers :: int
  continentDescriptor :: ContinentFarmDescriptor

definition farm :: "string \<Rightarrow> string \<Rightarrow> int \<Rightarrow> ContinentFarmDescriptor \<Rightarrow> CountryFarmDescriptor" where
  "farm c p n d = \<lparr>countryName = c, poolNameForCountry = p, numberOfServers = n, continentDescriptor = d\<rparr>"

definition countryFarmDescriptors :: "CountryFarmDescriptor list" where
  "countryFarmDescriptors =
    [farm ''us'' ''us'' 4 NorthAmerica, farm ''jp'' ''jp'' 4 Asia, farm ''gb'' ''uk'' 4 Europe,
     farm ''uk'' ''uk'' 4 Europe, farm ''ca'' ''ca'' 4 NorthAmerica, farm ''de'' ''de'' 4 Europe,
     farm ''au'' ''au'' 4 Oceania, farm ''it'' ''it'' 4 Europe, farm ''nl'' ''nl'' 4 Europe,
     farm ''cn'' ''cn'' 1 Asia, farm ''fr'' ''fr'' 4 Europe, farm ''ch'' ''ch'' 4 Europe,
     farm ''es'' ''es'' 1 Europe, farm ''hk'' ''hk'' 0 Asia, farm ''se'' ''se'' 4 Europe,
     farm ''ru'' ''ru'' 4 Europe, farm ''mx'' ''mx'' 0 NorthAmerica, farm ''at'' ''at'' 4 Europe,
     farm ''no'' ''no'' 4 Europe, farm ''be'' ''be'' 1 Europe, farm ''nz'' ''nz'' 1 Oceania,
     farm ''sg'' ''sg'' 1 Asia, farm ''br'' ''br'' 1 SouthAmerica, farm ''tw'' ''tw'' 1 Asia,
     farm ''dk'' ''dk'' 4 Europe, farm ''kr'' ''kr'' 1 Asia, farm ''ie'' ''ie'' 1 Europe,
     farm ''my'' ''my'' 1 Asia, farm ''pl'' ''pl'' 4 Europe, farm ''th'' ''th'' 1 Asia,
     farm ''cz'' ''cz'' 4 Europe, farm ''tr'' ''tr'' 1 Europe, farm ''ae'' ''ae'' 0 Asia,
     farm ''za'' ''za'' 1 Africa, farm ''in'' ''in'' 1 Asia, farm ''sa'' ''sa'' 0 Asia,
     farm ''ar'' ''ar'' 0 SouthAmerica, farm ''cl'' ''cl'' 0 SouthAmerica,
     farm ''pt'' ''pt'' 1 Europe, farm ''gr'' ''gr'' 1 Europe, farm ''lu'' ''lu'' 1 Europe,
     farm ''co'' ''co'' 0 SouthAmerica, farm ''id'' ''id'' 1 Asia, farm ''ph'' ''ph'' 0 Asia,
     farm ''fi'' ''fi'' 4 Europe, farm ''ro'' ''ro'' 4 Europe, farm ''il'' ''il'' 0 Asia,
     farm ''hu'' ''hu'' 4 Europe, farm ''hr'' ''hr'' 0 Europe, farm ''kw'' ''kw'' 0 Asia,
     farm ''sk'' ''sk'' 1 Europe, farm ''si'' ''si'' 4 Europe, farm ''mo'' ''mo'' 0 Asia,
     farm ''lb'' ''lb'' 0 Asia, farm ''ve'' ''ve'' 0 SouthAmerica, farm ''eg'' ''eg'' 0 Africa,
     farm ''ec'' ''ec'' 0 SouthAmerica, farm ''cr'' ''cr'' 0 NorthAmerica,
     farm ''pa'' ''pa'' 0 NorthAmerica, farm ''pe'' ''pe'' 0 SouthAmerica,
     farm ''qa'' ''qa'' 0 Asia, farm ''vn'' ''vn'' 1 Asia, farm ''bg'' ''bg'' 4 Europe,
     farm ''lt'' ''lt'' 0 Europe, farm ''do'' ''do'' 0 NorthAmerica, farm ''pk'' ''pk'' 0 Asia,
     farm ''mt'' ''mt'' 0 Europe, farm ''tn'' ''tn'' 0 Africa, farm ''gt'' ''gt'' 0 NorthAmerica,
     farm ''kz'' ''kz'' 0 Asia, farm ''sv'' ''sv'' 0 NorthAmerica, farm ''lk'' ''lk'' 0 Asia,
     farm ''ee'' ''ee'' 0 Europe, farm ''lv'' ''lv'' 1 Europe, farm ''uy'' ''uy'' 0 SouthAmerica,
     farm ''ni'' ''ni'' 0 NorthAmerica, farm ''py'' ''py'' 0 SouthAmerica,
     farm ''jo'' ''jo'' 0 Asia, farm ''jm'' ''jm'' 0 NorthAmerica, farm ''am'' ''am'' 0 Asia,
     farm ''hn'' ''hn'' 0 NorthAmerica, farm ''mk'' ''mk'' 0 Europe, farm ''md'' ''md'' 1 Europe,
     farm ''sn'' ''sn'' 0 Africa, farm ''ke'' ''ke'' 0 Africa, farm ''ml'' ''ml'' 0 Africa,
     farm ''mu'' ''mu'' 0 Asia, farm ''bw'' ''bw'' 0 Africa, farm ''ad'' ''ad'' 0 Europe,
     farm ''af'' ''af'' 0 Asia, farm ''ag'' ''ag'' 0 NorthAmerica,
     farm ''ai'' ''ai'' 0 NorthAmerica, farm ''al'' ''al'' 0 Europe,
     farm ''an'' ''an'' 0 NorthAmerica, farm ''ao'' ''ao'' 0 Africa, farm ''aq'' ''aq'' 0 Oceania,
     farm ''as'' ''as'' 0 Oceania, farm ''aw'' ''aw'' 0 NorthAmerica, farm ''az'' ''az'' 0 Asia,
     farm ''ba'' ''ba'' 0 Europe, farm ''bb'' ''bb'' 0 NorthAmerica, farm ''bd'' ''bd'' 0 Asia,
     farm ''bf'' ''bf'' 0 Africa, farm ''bh'' ''bh'' 0 Asia, farm ''bi'' ''bi'' 0 Africa,
     farm ''bj'' ''bj'' 0 Africa, farm ''bm'' ''bm'' 0 NorthAmerica, farm ''bn'' ''bn'' 0 Asia,
     farm ''bo'' ''bo'' 0 SouthAmerica, farm ''bs'' ''bs'' 0 NorthAmerica,
     farm ''bt'' ''bt'' 0 Asia, farm ''by'' ''by'' 1 Europe, farm ''bz'' ''bz'' 0 NorthAmerica,
     farm ''cd'' ''cd'' 0 Africa, farm ''cf'' ''cf'' 0 Africa, farm ''cg'' ''cg'' 0 Africa,
     farm ''ci'' ''ci'' 0 Africa, farm ''cm'' ''cm'' 0 Africa, farm ''cu'' ''cu'' 0 NorthAmerica,
     farm ''cv'' ''cv'' 0 Africa, farm ''cx'' ''cx'' 0 Oceania, farm ''cy'' ''cy'' 0 Europe,
     farm ''dj'' ''dj'' 0 Africa, farm ''dm'' ''dm'' 0 NorthAmerica, farm ''dz'' ''dz'' 0 Africa,
     farm ''eh'' ''eh'' 0 Africa, farm ''er'' ''er'' 0 Africa, farm ''et'' ''et'' 0 Africa,
     farm ''fj'' ''fj'' 0 Oceania, farm ''fk'' ''fk'' 0 SouthAmerica, farm ''fm'' ''fm'' 0 Oceania,
     farm ''fo'' ''fo'' 0 Europe, farm ''ga'' ''ga'' 0 Africa, farm ''gd'' ''gd'' 0 NorthAmerica,
     farm ''ge'' ''ge'' 0 Asia, farm ''gf'' ''gf'' 0 SouthAmerica, farm ''gg'' ''gg'' 0 Europe,
     farm ''gh'' ''gh'' 0 Africa, farm ''gi'' ''gi'' 0 Europe, farm ''gl'' ''gl'' 0 NorthAmerica,
     farm ''gm'' ''gm'' 0 Africa, farm ''gn'' ''gn'' 0 Africa, farm ''gp'' ''gp'' 0 NorthAmerica,
     farm ''gq'' ''gq'' 0 Africa, farm ''gs'' ''gs'' 0 SouthAmerica, farm ''gu'' ''gu'' 0 Oceania,
     farm ''gw'' ''gw'' 0 Africa, farm ''gy'' ''gy'' 0 SouthAmerica, farm ''hm'' ''hm'' 0 Oceania,
     farm ''ht'' ''ht'' 0 NorthAmerica, farm ''im'' ''im'' 0 Europe, farm ''io'' ''io'' 0 Asia,
     farm ''iq'' ''iq'' 0 Asia, farm ''ir'' ''ir'' 0 Asia, farm ''is'' ''is'' 0 Europe,
     farm ''je'' ''je'' 0 Europe, farm ''kg'' ''kg'' 0 Asia, farm ''kh'' ''kh'' 0 Asia,
     farm ''ki'' ''ki'' 0 Oceania, farm ''kp'' ''kp'' 0 Asia, farm ''ky'' ''ky'' 0 NorthAmerica,
     farm ''la'' ''la'' 0 Asia, farm ''lc'' ''lc'' 0 NorthAmerica, farm ''li'' ''li'' 0 Europe,
     farm ''lr'' ''lr'' 0 Africa, farm ''ls'' ''ls'' 0 Africa, farm ''ly'' ''ly'' 0 Africa,
     farm ''ma'' ''ma'' 0 Africa, farm ''mc'' ''mc'' 0 Europe, farm ''mg'' ''mg'' 0 Africa,
     farm ''mh'' ''mh'' 0 Oceania, farm ''mm'' ''mm'' 0 Asia, farm ''mn'' ''mn'' 0 Asia,
     farm ''mp'' ''mp'' 0 Oceania, farm ''mq'' ''mq'' 0 NorthAmerica, farm ''mr'' ''mr'' 0 Africa,
     farm ''ms'' ''ms'' 0 NorthAmerica, farm ''mv'' ''mv'' 0 Asia, farm ''mw'' ''mw'' 0 Africa,
     farm ''mz'' ''mz'' 0 Africa, farm ''na'' ''na'' 0 Africa, farm ''nc'' ''nc'' 0 Oceania,
     farm ''ne'' ''ne'' 0 Africa, farm ''nf'' ''nf'' 0 Oceania, farm ''ng'' ''ng'' 0 Africa,
     farm ''np'' ''np'' 0 Asia, farm ''nr'' ''nr'' 0 Oceania, farm ''nu'' ''nu'' 0 Oceania,
     farm ''om'' ''om'' 0 Asia, farm ''pf'' ''pf'' 0 Oceania, farm ''pg'' ''pg'' 0 Oceania,
     farm ''pm'' ''pm'' 0 NorthAmerica, farm ''pn'' ''pn'' 0 Oceania,
     farm ''pr'' ''pr'' 0 NorthAmerica, farm ''ps'' ''ps'' 0 Asia, farm ''pw'' ''pw'' 0 Oceania,
     farm ''rs'' ''rs'' 1 Europe, farm ''rw'' ''rw'' 0 Africa, farm ''sb'' ''sb'' 0 Oceania,
     farm ''sc'' ''sc'' 0 Asia, farm ''sd'' ''sd'' 0 Africa, farm ''sh'' ''sh'' 0 Africa,
     farm ''sj'' ''sj'' 0 Europe, farm ''sl'' ''sl'' 0 Africa, farm ''sm'' ''sm'' 0 Europe,
     farm ''so'' ''so'' 0 Africa, farm ''sr'' ''sr'' 0 SouthAmerica, farm ''st'' ''st'' 0 Africa,
     farm ''sy'' ''sy'' 0 Asia, farm ''sz'' ''sz'' 0 Africa, farm ''td'' ''td'' 0 Africa,
     farm ''tg'' ''tg'' 0 Africa, farm ''tj'' ''tj'' 0 Asia, farm ''tl'' ''tl'' 0 Oceania,
     farm ''tm'' ''tm'' 0 Asia, farm ''to'' ''to'' 0 Oceania, farm ''tt'' ''tt'' 0 NorthAmerica,
     farm ''tv'' ''tv'' 0 Oceania, farm ''tz'' ''tz'' 0 Africa, farm ''ua'' ''ua'' 4 Europe,
     farm ''ug'' ''ug'' 0 Africa, farm ''um'' ''um'' 0 NorthAmerica, farm ''uz'' ''uz'' 0 Asia,
     farm ''va'' ''va'' 0 Europe, farm ''vc'' ''vc'' 0 NorthAmerica,
     farm ''vg'' ''vg'' 0 NorthAmerica, farm ''vi'' ''vi'' 0 NorthAmerica,
     farm ''vu'' ''vu'' 0 Oceania, farm ''ws'' ''ws'' 0 Oceania, farm ''ye'' ''ye'' 0 Asia,
     farm ''yu'' ''yu'' 0 Europe, farm ''zm'' ''zm'' 0 Africa, farm ''zw'' ''zw'' 0 Africa]"

definition defaultCountryDescriptor :: CountryFarmDescriptor where
  "defaultCountryDescriptor = farm ''us'' ''us'' 4 Europe"

definition numGlobalServers :: int where
  "numGlobalServers = 4"

text \<open>\<open>strcasecmp\<close> in the C locale.\<close>

definition c_tolower :: "char \<Rightarrow> char" where
  "c_tolower c = (if 65 \<le> (of_char c :: nat) \<and> (of_char c :: nat) \<le> 90 then char_of ((of_char c :: nat) + 32) else c)"

definition same_nocase :: "string \<Rightarrow> string \<Rightarrow> bool" where
  "same_nocase a b \<longleftrightarrow> map c_tolower a = map c_tolower b"

definition find_farm :: "string \<Rightarrow> CountryFarmDescriptor option" where
  "find_farm cc = find (\<lambda>f. same_nocase cc (countryName f)) countryFarmDescriptors"

definition getFarmDescriptorForCountry :: "string \<Rightarrow> string \<Rightarrow> CountryFarmDescriptor" where
  "getFarmDescriptorForCountry locale cc =
     (case (if cc \<noteq> [] then find_farm cc else None) of Some f \<Rightarrow> f
      | None \<Rightarrow> (case (if cc \<noteq> locale \<and> locale \<noteq> [] then find_farm locale else None) of
          Some f \<Rightarrow> f | None \<Rightarrow> defaultCountryDescriptor))"

section \<open>The hosts of the user\<close>

record host_names =
  userServerNames :: "string list option"
  usePool :: bool

definition addUserServer :: "string \<Rightarrow> host_names \<Rightarrow> host_names" where
  "addUserServer s n = n\<lparr>userServerNames := Some (case userServerNames n of None \<Rightarrow> [s] | Some l \<Rightarrow> l @ [s])\<rparr>"

definition removeUserServer :: "string \<Rightarrow> host_names \<Rightarrow> host_names option" where
  "removeUserServer s n = do {
     l \<leftarrow> userServerNames n;
     Some (n\<lparr>userServerNames := Some (removeAll s l)\<rparr>)
   }"

definition clearUserServerList :: "host_names \<Rightarrow> host_names" where
  "clearUserServerList n = n\<lparr>userServerNames := None\<rparr>"

definition enablePoolHosts :: "host_names \<Rightarrow> host_names" where
  "enablePoolHosts n = n\<lparr>usePool := True\<rparr>"

definition disablePoolHosts :: "host_names \<Rightarrow> host_names" where
  "disablePoolHosts n = n\<lparr>usePool := False\<rparr>"

definition numberOfUserHostNames :: "host_names \<Rightarrow> int" where
  "numberOfUserHostNames n = (case userServerNames n of None \<Rightarrow> 0 | Some l \<Rightarrow> int (length l))"

section \<open>The iterator\<close>

record hosts_iterator =
  it_farm :: CountryFarmDescriptor
  it_hostIndex :: int
  it_isUserHost :: bool
  it_host :: string
  it_proximity :: int
  it_userIterator :: "nat option"

definition new_iterator :: "string \<Rightarrow> string \<Rightarrow> int \<Rightarrow> hosts_iterator" where
  "new_iterator locale countryCode junk =
     \<lparr>it_farm = getFarmDescriptorForCountry locale countryCode, it_hostIndex = - 1, it_isUserHost = False,
      it_host = [], it_proximity = junk, it_userIterator = None\<rparr>"

definition pool_host :: "int \<Rightarrow> string \<Rightarrow> string" where
  "pool_host k name = fmt_d k @ ''.'' @ name @ ''.pool.ntp.org''"

definition iterator_next_pool :: "hosts_iterator \<Rightarrow> bool \<times> hosts_iterator" where
  "iterator_next_pool it =
     (let it = it\<lparr>it_isUserHost := False, it_hostIndex := it_hostIndex it + 1\<rparr>;
          k = it_hostIndex it;
          nc = numberOfServers (it_farm it);
          nk = cf_numberOfServers (continentDescriptor (it_farm it))
      in if k < nc
         then (True, it\<lparr>it_host := pool_host k (poolNameForCountry (it_farm it)), it_proximity := 1\<rparr>)
         else if k < nc + nk
         then (True, it\<lparr>it_host := pool_host (k - nc) (cf_farmName (continentDescriptor (it_farm it))),
                       it_proximity := 2\<rparr>)
         else if k < nc + nk + numGlobalServers
         then (True, it\<lparr>it_host := fmt_d (k - nc - nk) @ ''.pool.ntp.org'', it_proximity := 3\<rparr>)
         else if k < nc + nk + numGlobalServers + 1
         then (True, it\<lparr>it_host := ''time.apple.com'', it_proximity := 4\<rparr>)
         else (False, it))"

definition iterator_next :: "host_names \<Rightarrow> hosts_iterator \<Rightarrow> bool \<times> hosts_iterator" where
  "iterator_next n it =
     (let pool = (\<lambda>it. if usePool n then iterator_next_pool it else (False, it))
      in case userServerNames n of
           None \<Rightarrow> pool it
         | Some l \<Rightarrow>
             let pos = (case it_userIterator it of None \<Rightarrow> 0 | Some p \<Rightarrow> p);
                 it = it\<lparr>it_userIterator := Some pos\<rparr>
             in if pos < length l
                then (True, it\<lparr>it_host := l ! pos, it_userIterator := Some (pos + 1),
                              it_proximity := 0, it_isUserHost := True\<rparr>)
                else pool it)"

definition iterator_reset :: "string \<Rightarrow> string option \<Rightarrow> hosts_iterator \<Rightarrow> hosts_iterator" where
  "iterator_reset locale countryCode it =
     it\<lparr>it_userIterator := None,
        it_farm := (case countryCode of None \<Rightarrow> it_farm it | Some cc \<Rightarrow> getFarmDescriptorForCountry locale cc),
        it_hostIndex := - 1, it_host := [], it_isUserHost := False\<rparr>"

definition totalNumberOfHostNames :: "host_names \<Rightarrow> hosts_iterator \<Rightarrow> int option" where
  "totalNumberOfHostNames n it = do {
     ESAssert (usePool n \<or> userServerNames n \<noteq> None);
     let poolCount = numberOfUserHostNames n;
     Some (if usePool n
           then poolCount + (numberOfServers (it_farm it)
                  + cf_numberOfServers (continentDescriptor (it_farm it)) + numGlobalServers + 1)
           else poolCount)
   }"

text \<open>The loop \<open>while (iter.next())\<close> of a client: host, proximity and whether it is a user's host.\<close>

type_synonym host_entry = "string \<times> int \<times> bool"

partial_function (option) iterate_hosts ::
  "host_names \<Rightarrow> hosts_iterator \<Rightarrow> (host_entry list \<times> hosts_iterator) option" where
  "iterate_hosts n it =
     (let (more, it) = iterator_next n it
      in if more
         then do {
           (hs, it') \<leftarrow> iterate_hosts n it;
           Some ((it_host it, it_proximity it, it_isUserHost it) # hs, it')
         }
         else Some ([], it))"

section \<open>What the iterator enumerates\<close>

definition user_hosts :: "host_names \<Rightarrow> host_entry list" where
  "user_hosts n = (case userServerNames n of None \<Rightarrow> [] | Some l \<Rightarrow> map (\<lambda>h. (h, 0, True)) l)"

definition pool_hosts :: "CountryFarmDescriptor \<Rightarrow> host_entry list" where
  "pool_hosts f =
     map (\<lambda>k. (pool_host k (poolNameForCountry f), 1, False)) [0..numberOfServers f - 1] @
     map (\<lambda>k. (pool_host k (cf_farmName (continentDescriptor f)), 2, False))
       [0..cf_numberOfServers (continentDescriptor f) - 1] @
     map (\<lambda>k. (fmt_d k @ ''.pool.ntp.org'', 3, False)) [0..numGlobalServers - 1] @
     [(''time.apple.com'', 4, False)]"

definition host_list :: "host_names \<Rightarrow> CountryFarmDescriptor \<Rightarrow> host_entry list" where
  "host_list n f = user_hosts n @ (if usePool n then pool_hosts f else [])"

definition farm_ok :: "CountryFarmDescriptor \<Rightarrow> bool" where
  "farm_ok f \<longleftrightarrow> 0 \<le> numberOfServers f \<and> numberOfServers f \<le> 4 \<and> length (poolNameForCountry f) \<le> 2 \<and>
     0 \<le> cf_numberOfServers (continentDescriptor f) \<and> cf_numberOfServers (continentDescriptor f) \<le> 4 \<and>
     length (cf_farmName (continentDescriptor f)) \<le> 13"

lemma continents_ok: "farm_ok (farm c p n d) \<longleftrightarrow> 0 \<le> n \<and> n \<le> 4 \<and> length p \<le> 2"
  if "d \<in> {Africa, Asia, Europe, NorthAmerica, Oceania, SouthAmerica}"
  using that
  by (auto simp: farm_ok_def farm_def Africa_def Asia_def Europe_def NorthAmerica_def Oceania_def SouthAmerica_def)

lemma country_farms_ok: "list_all farm_ok countryFarmDescriptors"
  by (simp add: countryFarmDescriptors_def continents_ok)

lemma farm_for_country_ok: "farm_ok (getFarmDescriptorForCountry locale cc)"
proof -
  have "farm_ok f" if "find_farm x = Some f" for x f
    using that country_farms_ok by (auto simp: find_farm_def find_Some_iff list_all_length)
  moreover have "farm_ok defaultCountryDescriptor" by (simp add: defaultCountryDescriptor_def continents_ok)
  ultimately show ?thesis
    by (auto simp: getFarmDescriptorForCountry_def split: option.split if_splits)
qed

text \<open>The \<open>k\<close>th host of the pools.\<close>

definition pool_entry :: "CountryFarmDescriptor \<Rightarrow> int \<Rightarrow> host_entry" where
  "pool_entry f k =
     (let nc = numberOfServers f; nk = cf_numberOfServers (continentDescriptor f)
      in if k < nc then (pool_host k (poolNameForCountry f), 1, False)
         else if k < nc + nk then (pool_host (k - nc) (cf_farmName (continentDescriptor f)), 2, False)
         else if k < nc + nk + numGlobalServers then (fmt_d (k - nc - nk) @ ''.pool.ntp.org'', 3, False)
         else (''time.apple.com'', 4, False))"

definition pool_size :: "CountryFarmDescriptor \<Rightarrow> int" where
  "pool_size f = numberOfServers f + cf_numberOfServers (continentDescriptor f) + numGlobalServers + 1"

lemma upto_shift: "map f [a + n..b + n] = map (\<lambda>k. f (k + n)) [a..(b :: int)]"
proof (induction "nat (b - a + 1)" arbitrary: a)
  case (Suc m)
  then show ?case using Suc.hyps(1)[of "a + 1"] by (simp add: upto_rec1 add.commute add.left_commute)
qed simp

lemma upto_append:
  assumes "a \<le> m" "m \<le> b + 1"
  shows "[a..b] = [a..m - 1] @ [m..(b :: int)]"
proof -
  consider "m = a" | "a \<le> m - 1" "m = b + 1" | "a \<le> m - 1" "m - 1 \<le> b" using assms by linarith
  then show ?thesis
  proof cases
    case 3
    then have "[a..b] = [a..m - 1] @ [m - 1 + 1..b]" by (rule upto_split2)
    then show ?thesis by (simp only: diff_add_cancel)
  qed simp_all
qed

lemma pool_hosts_entries:
  assumes "farm_ok f"
  shows "pool_hosts f = map (pool_entry f) [0..pool_size f - 1]"
proof -
  let ?c = "numberOfServers f" and ?k = "cf_numberOfServers (continentDescriptor f)"
  have n: "0 \<le> ?c" "0 \<le> ?k" using assms by (simp_all add: farm_ok_def)
  have "[0..pool_size f - 1] = [0..?c - 1] @ [?c..?c + ?k - 1] @ [?c + ?k..?c + ?k + 3] @ [?c + ?k + 4]"
  proof -
    have "[0..pool_size f - 1] = [0..?c - 1] @ [?c..pool_size f - 1]"
      by (rule upto_append) (use n in \<open>simp_all add: pool_size_def numGlobalServers_def\<close>)
    also have "[?c..pool_size f - 1] = [?c..?c + ?k - 1] @ [?c + ?k..pool_size f - 1]"
      by (rule upto_append) (use n in \<open>simp_all add: pool_size_def numGlobalServers_def\<close>)
    also have "[?c + ?k..pool_size f - 1] = [?c + ?k..?c + ?k + 4 - 1] @ [?c + ?k + 4..pool_size f - 1]"
      by (rule upto_append) (use n in \<open>simp_all add: pool_size_def numGlobalServers_def\<close>)
    finally show ?thesis by (simp add: pool_size_def numGlobalServers_def add.commute)
  qed
  moreover have "map (pool_entry f) [0..?c - 1] = map (\<lambda>k. (pool_host k (poolNameForCountry f), 1, False)) [0..?c - 1]"
    by (simp add: pool_entry_def)
  moreover have "map (pool_entry f) [?c..?c + ?k - 1] =
      map (\<lambda>k. (pool_host k (cf_farmName (continentDescriptor f)), 2, False)) [0..?k - 1]"
  proof -
    have "map (pool_entry f) [0 + ?c..?k - 1 + ?c] =
        map (\<lambda>k. (pool_host k (cf_farmName (continentDescriptor f)), 2, False)) [0..?k - 1]"
      unfolding upto_shift by (rule map_cong) (simp_all add: pool_entry_def Let_def)
    then show ?thesis by (simp add: algebra_simps)
  qed
  moreover have "map (pool_entry f) [?c + ?k..?c + ?k + 3] =
      map (\<lambda>k. (fmt_d k @ ''.pool.ntp.org'', 3, False)) [0..numGlobalServers - 1]"
  proof -
    have "map (pool_entry f) [0 + (?c + ?k)..3 + (?c + ?k)] =
        map (\<lambda>k. (fmt_d k @ ''.pool.ntp.org'', 3, False)) [0..3]"
      unfolding upto_shift by (rule map_cong) (use n in \<open>simp_all add: pool_entry_def Let_def numGlobalServers_def\<close>)
    then show ?thesis by (simp add: algebra_simps numGlobalServers_def)
  qed
  moreover have "pool_entry f (?c + ?k + 4) = (''time.apple.com'', 4, False)"
    using n by (simp add: pool_entry_def numGlobalServers_def Let_def)
  ultimately show ?thesis by (simp add: pool_hosts_def)
qed

lemma iterate_stop: "iterator_next n it = (False, it') \<Longrightarrow> iterate_hosts n it = Some ([], it')"
  by (subst iterate_hosts.simps) simp

lemma iterate_more:
  assumes "iterator_next n it = (True, it1)" "iterate_hosts n it1 = Some (hs, it2)"
  shows "iterate_hosts n it = Some ((it_host it1, it_proximity it1, it_isUserHost it1) # hs, it2)"
  using assms by (subst iterate_hosts.simps) simp

definition users_done :: "host_names \<Rightarrow> hosts_iterator \<Rightarrow> bool" where
  "users_done n it \<longleftrightarrow> (case userServerNames n of None \<Rightarrow> True
     | Some l \<Rightarrow> it_userIterator it = Some (length l) \<or> (it_userIterator it = None \<and> l = []))"

lemma next_users_done:
  assumes "users_done n it"
  shows "\<exists>it'. iterator_next n it = (if usePool n then iterator_next_pool it' else (False, it')) \<and>
    it_farm it' = it_farm it \<and> it_hostIndex it' = it_hostIndex it \<and> users_done n it'"
  using assms
  by (cases "userServerNames n") (auto simp: users_done_def iterator_next_def Let_def)

lemma iterate_pool:
  assumes "usePool n" "users_done n it" "farm_ok (it_farm it)"
    and "it_hostIndex it = k - 1" "0 \<le> k" "k \<le> pool_size (it_farm it)"
  shows "\<exists>it'. iterate_hosts n it = Some (map (pool_entry (it_farm it)) [k..pool_size (it_farm it) - 1], it')"
  using assms(2-)
proof (induction "nat (pool_size (it_farm it) - k)" arbitrary: it k rule: less_induct)
  case less
  let ?f = "it_farm it"
  have n: "0 \<le> numberOfServers ?f" "0 \<le> cf_numberOfServers (continentDescriptor ?f)"
    using less.prems(2) by (simp_all add: farm_ok_def)
  obtain it1 where it1: "iterator_next n it = iterator_next_pool it1" "it_farm it1 = ?f"
    "it_hostIndex it1 = k - 1" "users_done n it1"
    using next_users_done[OF less.prems(1)] assms(1) less.prems(3) by auto
  show ?case
  proof (cases "k = pool_size ?f")
    case True
    then have "fst (iterator_next n it) = False"
      using it1 less.prems n
      by (simp add: iterator_next_pool_def Let_def pool_size_def numGlobalServers_def)
    then show ?thesis using True iterate_stop[of n it] by (cases "iterator_next n it") simp
  next
    case False
    obtain it2 where it2: "iterator_next n it = (True, it2)" "it_farm it2 = ?f" "it_hostIndex it2 = k"
      "(it_host it2, it_proximity it2, it_isUserHost it2) = pool_entry ?f k" "users_done n it2"
    proof (rule that)
      let ?it2 = "snd (iterator_next_pool it1)"
      show "iterator_next n it = (True, ?it2)" "it_farm ?it2 = ?f" "it_hostIndex ?it2 = k" "users_done n ?it2"
        "(it_host ?it2, it_proximity ?it2, it_isUserHost ?it2) = pool_entry ?f k"
        using it1 False less.prems(5)
        by (auto simp: iterator_next_pool_def Let_def pool_size_def numGlobalServers_def pool_entry_def users_done_def
            split: option.splits)
    qed
    have s: "nat (pool_size (it_farm it2) - (k + 1)) < nat (pool_size ?f - k)"
      using False less.prems(5) by (simp add: it2(2))
    obtain it3 where "iterate_hosts n it2 = Some (map (pool_entry ?f) [k + 1..pool_size ?f - 1], it3)"
      using less.hyps[OF s it2(5)] it2(2,3) less.prems False by auto
    then have "iterate_hosts n it = Some (pool_entry ?f k # map (pool_entry ?f) [k + 1..pool_size ?f - 1], it3)"
      using iterate_more[OF it2(1)] it2(4) by simp
    moreover have "[k..pool_size ?f - 1] = k # [k + 1..pool_size ?f - 1]"
      using False less.prems(5) by (simp add: upto_rec1)
    ultimately show ?thesis by simp
  qed
qed

lemma iterate_after_users:
  assumes "farm_ok (it_farm it)" "users_done n it" "it_hostIndex it = - 1"
  shows "\<exists>it'. iterate_hosts n it = Some (if usePool n then pool_hosts (it_farm it) else [], it')"
proof (cases "usePool n")
  case True
  have "0 \<le> pool_size (it_farm it)" using assms(1) by (simp add: pool_size_def farm_ok_def numGlobalServers_def)
  then show ?thesis
    using iterate_pool[OF True assms(2,1), of 0] assms True pool_hosts_entries by simp
next
  case False
  then show ?thesis
    using next_users_done[OF assms(2)] by (auto intro!: iterate_stop)
qed

lemma iterate_users:
  assumes "userServerNames n = Some l" "p \<le> length l" "farm_ok (it_farm it)" "it_hostIndex it = - 1"
    and "it_userIterator it = Some p \<or> (it_userIterator it = None \<and> p = 0)"
  shows "\<exists>it'. iterate_hosts n it = Some (map (\<lambda>h. (h, 0, True)) (drop p l) @
    (if usePool n then pool_hosts (it_farm it) else []), it')"
  using assms(2-)
proof (induction "length l - p" arbitrary: p it)
  case 0
  then have "users_done n it" using assms(1) by (auto simp: users_done_def)
  then show ?case using iterate_after_users 0 by simp
next
  case (Suc m)
  then have p: "p < length l" by simp
  obtain it1 where n: "iterator_next n it = (True, it1)"
    and it1: "it_host it1 = l ! p" "it_proximity it1 = 0" "it_isUserHost it1" "it_farm it1 = it_farm it"
      "it_hostIndex it1 = - 1" "it_userIterator it1 = Some (Suc p)"
  proof
    show "iterator_next n it = (True,
        it\<lparr>it_userIterator := Some (p + 1), it_host := l ! p, it_proximity := 0, it_isUserHost := True\<rparr>)"
      using Suc.prems p assms(1) by (auto simp: iterator_next_def Let_def)
  qed (use Suc.prems in simp_all)
  have "m = length l - Suc p" "Suc p \<le> length l" using Suc.hyps(2) p by simp_all
  then obtain it' where "iterate_hosts n it1 = Some (map (\<lambda>h. (h, 0, True)) (drop (Suc p) l) @
      (if usePool n then pool_hosts (it_farm it) else []), it')"
    using Suc.hyps(1)[of "Suc p" it1] Suc.prems(2) it1(4-6) by auto
  then show ?case
    using iterate_more[OF n] p it1(1-3) by (simp add: Cons_nth_drop_Suc[symmetric])
qed

lemma iterate_host_list:
  assumes "farm_ok (it_farm it)" "it_hostIndex it = - 1" "it_userIterator it = None"
  shows "\<exists>it'. iterate_hosts n it = Some (host_list n (it_farm it), it')"
proof (cases "userServerNames n")
  case None
  then show ?thesis
    using iterate_after_users[OF assms(1), of n] assms(2) by (simp add: users_done_def host_list_def user_hosts_def)
next
  case (Some l)
  then show ?thesis
    using iterate_users[OF Some _ assms(1,2), of 0] assms(3) by (simp add: host_list_def user_hosts_def)
qed

lemma host_list_length:
  assumes "farm_ok f"
  shows "int (length (host_list n f)) = numberOfUserHostNames n + (if usePool n then pool_size f else 0)"
  using assms
  by (simp add: host_list_def user_hosts_def numberOfUserHostNames_def pool_hosts_entries pool_size_def farm_ok_def
      numGlobalServers_def split: option.split)

lemma fmt_d_digit: "0 \<le> k \<Longrightarrow> k < 10 \<Longrightarrow> length (fmt_d k) = 1"
proof -
  assume k: "0 \<le> k" "k < 10"
  then have "nat k < 10" by simp
  then show ?thesis using k(1) by (simp add: fmt_d_def dec_str.simps)
qed

lemma pool_host_short: "0 \<le> k \<Longrightarrow> k < 10 \<Longrightarrow> length name \<le> 13 \<Longrightarrow> length (pool_host k name) < 32"
  by (simp add: pool_host_def fmt_d_digit)

text \<open>
  From its start the iterator gives the hosts of \<open>host_list\<close> in order and then ends; there are as many
  as \<open>totalNumberOfHostNames\<close> says, none is nearer than the one before, and no name of a pool is cut
  by the buffer of 32 characters.
\<close>

text \<open>C23: From its start the iterator gives the servers of the user, then the pools of the country, the continent and the world and time.apple.com, in this order, and ends; it gives as many as totalNumberOfHostNames says, and no name of a pool is cut by the buffer.\<close>

theorem iterator_enumerates:
  assumes "it = new_iterator locale cc junk \<or> it = iterator_reset locale (Some cc) it0"
  shows "\<exists>it'. iterate_hosts n it = Some (host_list n (getFarmDescriptorForCountry locale cc), it') \<and>
    sorted (map (\<lambda>(h, p, u). p) (host_list n (getFarmDescriptorForCountry locale cc))) \<and>
    (\<forall>(h, p, u)\<in>set (host_list n (getFarmDescriptorForCountry locale cc)). u \<or> length h < 32) \<and>
    totalNumberOfHostNames n it = (if usePool n \<or> userServerNames n \<noteq> None
      then Some (int (length (host_list n (getFarmDescriptorForCountry locale cc)))) else None)"
proof -
  let ?f = "getFarmDescriptorForCountry locale cc"
  have it: "it_farm it = ?f" "it_hostIndex it = - 1" "it_userIterator it = None"
    using assms by (auto simp: new_iterator_def iterator_reset_def)
  have f: "farm_ok ?f" by (rule farm_for_country_ok)
  have "sorted (map (\<lambda>(h, p, u). p) (host_list n ?f))"
    by (auto simp: host_list_def user_hosts_def pool_hosts_def sorted_append comp_def map_replicate_const
        split: option.split)
  moreover have "\<forall>(h, p, u)\<in>set (host_list n ?f). u \<or> length h < 32"
    using f
    by (auto simp: host_list_def user_hosts_def pool_hosts_def farm_ok_def numGlobalServers_def
        fmt_d_digit split: option.split intro!: pool_host_short)
  ultimately show ?thesis
    using iterate_host_list[of it n] host_list_length[OF f, of n] it f
    by (auto simp: totalNumberOfHostNames_def pool_size_def)
qed

theorem iterator_enumerates_witness:
  "\<exists>it'. iterate_hosts \<lparr>userServerNames = Some [''ntp.example.org''], usePool = True\<rparr> (new_iterator ''fr'' ''SE'' 0) =
     Some (host_list \<lparr>userServerNames = Some [''ntp.example.org''], usePool = True\<rparr>
       (getFarmDescriptorForCountry ''fr'' ''SE''), it')"
  using iterator_enumerates[of "new_iterator ''fr'' ''SE'' 0" "''fr''" "''SE''" 0
      undefined "\<lparr>userServerNames = Some [''ntp.example.org''], usePool = True\<rparr>"] by blast

end
