(* ===== verification/EsNtpPacket.thy ===== *)
theory EsNtpPacket
  imports NtpFixedPoint EsTime
begin

text \<open>
  One exchange with a server: the packet of src/ntp.h, the macros of src/ntp_fp.h that convert
  to double, and the part of \<open>ESNTPSocketDescriptor::recvPacket\<close> (src/ESNTPDriver.cpp) that
  checks a response and computes what it says about the skew.

  The fields of a packet are in host byte order. A shift of an \<open>int\<close> by 32 or more is
  undefined, which is \<^const>\<open>None\<close>.
\<close>

section \<open>Packets\<close>

record pkt =
  li_vn_mode :: u8
  pkt_stratum :: u8
  pkt_ppoll :: u8
  pkt_precision :: u8
  pkt_rootdelay :: u32
  pkt_rootdispersion :: u32
  pkt_refid :: u32
  pkt_reftime :: l_fp
  pkt_org :: l_fp
  pkt_rec :: l_fp
  pkt_xmt :: l_fp

definition PKT_MODE :: "u8 \<Rightarrow> u8" where
  "PKT_MODE m = m AND 7"

definition PKT_VERSION :: "u8 \<Rightarrow> u8" where
  "PKT_VERSION m = drop_bit 3 m AND 7"

definition PKT_LEAP :: "u8 \<Rightarrow> u8" where
  "PKT_LEAP m = drop_bit 6 m AND 3"

definition PKT_LI_VN_MODE :: "u8 \<Rightarrow> u8 \<Rightarrow> u8 \<Rightarrow> u8" where
  "PKT_LI_VN_MODE li vn md = (push_bit 6 li AND 0xc0) OR (push_bit 3 vn AND 0x38) OR (md AND 7)"

definition STRATUM_PKT_UNSPEC :: u8 where "STRATUM_PKT_UNSPEC = 0"
definition STRATUM_UNSPEC :: u8 where "STRATUM_UNSPEC = 16"
definition NTP_VERSION :: u8 where "NTP_VERSION = 4"
definition NTP_OLDVERSION :: u8 where "NTP_OLDVERSION = 1"
definition MODE_PASSIVE :: u8 where "MODE_PASSIVE = 2"
definition MODE_SERVER :: u8 where "MODE_SERVER = 4"

definition PKT_TO_STRATUM :: "u8 \<Rightarrow> u8" where
  "PKT_TO_STRATUM s = (if s = STRATUM_PKT_UNSPEC then STRATUM_UNSPEC else s)"

definition LEN_PKT_NOMAC :: int where
  "LEN_PKT_NOMAC = 12 * 4"

section \<open>Fixed point to double\<close>

definition FRAC :: real where
  "FRAC = 4294967296"

definition FRIC :: real where
  "FRIC = 65536"

text \<open>\<open>FPTOD\<close> of an unsigned and of a signed number.\<close>

definition FPTOD :: "int \<Rightarrow> real" where
  "FPTOD r = real_of_int r / FRIC"

definition LFPTOD :: "l_fp \<Rightarrow> real" where
  "LFPTOD v =
     (if sint (l_ui v) < 0
      then let (i, f) = M_NEG (l_ui v) (l_uf v)
           in - (real_of_int (sint i) + real_of_int (uint f) / FRAC)
      else real_of_int (sint (l_ui v)) + real_of_int (uint (l_uf v)) / FRAC)"

section \<open>Constants of the driver\<close>

definition ES_DISPERSION_REJECT :: real where "ES_DISPERSION_REJECT = 0.3"
definition ES_ROOT_DELAY_REJECT :: real where "ES_ROOT_DELAY_REJECT = 1"
definition ES_BASE_PENALTY_STRATUM :: int where "ES_BASE_PENALTY_STRATUM = 8"
definition ES_BASE_STRATUM_PENALTY :: real where "ES_BASE_STRATUM_PENALTY = 0.5"
definition ES_PENALTY_PER_STRATUM :: real where "ES_PENALTY_PER_STRATUM = 0.25"

section \<open>The checks\<close>

text \<open>The time stamp of a continuous time (\<open>timeStampMake\<close>).\<close>

definition NTP_JAN_1970 :: u32 where "NTP_JAN_1970 = 2208988800"

definition timeStampMake :: "ESTimeInterval \<Rightarrow> l_fp \<times> ESTimeInterval" where
  "timeStampMake now =
     (let ((sec, usec), esti) = gettimeofdayCont now;
          dtemp = real_of_int usec / 10 ^ 6 * FRAC
      in (\<lparr>l_ui = word_of_int sec + NTP_JAN_1970, l_uf = word_of_int (truncate_real dtemp)\<rparr>, esti))"

definition pkt_precision_seconds :: "u8 \<Rightarrow> real option" where
  "pkt_precision_seconds p =
     (if sint p < 0
      then if - sint p < 32
           then Some (1 / real_of_int (sint (push_bit (nat (- sint p)) (1 :: u32)))) else None
      else if sint p < 32
           then Some (real_of_int (sint (push_bit (nat (sint p)) (1 :: u32)))) else None)"

text \<open>
  What becomes of a response: the host is bad, the packet is bad, its times are impossible, or
  what it says: leap bits, stratum, root delay, root dispersion and precision. The stratum
  comes with every verdict after it was read.
\<close>

record host_data =
  hd_leap :: u8
  hd_rootdelay :: real
  hd_rootdispersion :: real
  hd_precision :: real

datatype verdict = VBadPacket | VBadHost "u8 option" | VBadTimes u8 u8 | VGood u8 host_data

definition check_times :: "pkt \<Rightarrow> u8 \<Rightarrow> host_data \<Rightarrow> verdict" where
  "check_times p stratum h =
     (if L_ISZERO (pkt_rec p) then VBadTimes stratum (hd_leap h)
      else if \<not> L_ISHIS (pkt_xmt p) (pkt_rec p) \<and> \<not> L_ISEQU (pkt_xmt p) (pkt_rec p)
      then VBadTimes stratum (hd_leap h)
      else VGood stratum h)"

definition check_packet :: "int \<Rightarrow> pkt \<Rightarrow> verdict option" where
  "check_packet len p =
     (if len \<noteq> LEN_PKT_NOMAC then Some VBadPacket
      else if PKT_VERSION (li_vn_mode p) < NTP_OLDVERSION \<or> PKT_VERSION (li_vn_mode p) > NTP_VERSION
      then Some (VBadHost None)
      else if PKT_MODE (li_vn_mode p) \<noteq> MODE_SERVER \<and> PKT_MODE (li_vn_mode p) \<noteq> MODE_PASSIVE
      then Some (VBadHost None)
      else if pkt_stratum p = STRATUM_PKT_UNSPEC then Some (VBadHost None)
      else let stratum = PKT_TO_STRATUM (pkt_stratum p) in
        if stratum = 0 then Some (VBadHost (Some stratum))
        else do {
          precision \<leftarrow> pkt_precision_seconds (pkt_precision p);
          if precision > 0.25 then Some (VBadHost (Some stratum))
          else let rootdelay = FPTOD (uint (pkt_rootdelay p)) in
            if rootdelay > ES_ROOT_DELAY_REJECT then Some (VBadHost (Some stratum))
            else if rootdelay = 0 \<and> stratum \<noteq> 1 then Some (VBadHost (Some stratum))
            else let rootdispersion = FPTOD (uint (pkt_rootdispersion p)) in
              if rootdispersion > ES_DISPERSION_REJECT \<or> rootdispersion \<le> 0
              then Some (VBadHost (Some stratum))
              else Some (check_times p stratum \<lparr>hd_leap = PKT_LEAP (li_vn_mode p),
                hd_rootdelay = rootdelay, hd_rootdispersion = rootdispersion, hd_precision = precision\<rparr>)
        })"

section \<open>The offset and its error\<close>

text \<open>The offset of the server's clock and the round trip time, in seconds.\<close>

definition packet_offset :: "l_fp \<Rightarrow> pkt \<Rightarrow> real \<times> real" where
  "packet_offset recvTime p =
     (let t10 = L_SUB (pkt_xmt p) recvTime;
          t23 = L_SUB (pkt_rec p) (pkt_org p);
          ci = L_ADD (L_RSHIFT t10) (L_RSHIFT t23);
          di = LFPTOFP (L_SUB t23 t10)
      in (LFPTOD ci, FPTOD (sint di)))"

definition host_error :: "u8 \<Rightarrow> host_data \<Rightarrow> real" where
  "host_error stratum h =
     (let e = hd_rootdispersion h * 1.25 + hd_rootdelay h / 2 + hd_precision h
      in if uint stratum \<ge> ES_BASE_PENALTY_STRATUM
         then e + (ES_BASE_STRATUM_PENALTY +
                   real_of_int (uint stratum - ES_BASE_PENALTY_STRATUM) * ES_PENALTY_PER_STRATUM)
         else e)"

text \<open>The bounds of the offset and their distance from its middle.\<close>

definition packet_bounds :: "l_fp \<Rightarrow> pkt \<Rightarrow> u8 \<Rightarrow> host_data \<Rightarrow> real \<times> real \<times> real" where
  "packet_bounds recvTime p stratum h =
     (let (offsetThisTime, rttThisTime) = packet_offset recvTime p;
          error = rttThisTime / 2 + host_error stratum h
      in (offsetThisTime - error, offsetThisTime + error, error))"

section \<open>What the arithmetic computes\<close>

lemma sint_u64_bounds: "- (2 ^ 63) \<le> sint (w :: u64)" "sint (w :: u64) < 2 ^ 63"
  using sint_greater_eq[of w] sint_less[of w] by simp_all

lemma sint_u64_of_int: "- (2 ^ 63) \<le> n \<Longrightarrow> n < 2 ^ 63 \<Longrightarrow> sint (of_int n :: u64) = n"
  by (simp add: signed_of_int signed_take_bit_int_eq_self)

lemma LFPTOD_val:
  assumes "sint (lfp_val v) \<noteq> - (2 ^ 63)"
  shows "LFPTOD v = real_of_int (sint (lfp_val v)) / FRAC"
proof (cases "sint (l_ui v) < 0")
  case False
  then show ?thesis by (simp add: LFPTOD_def lfp_val_def sint_fx FRAC_def field_simps)
next
  case True
  obtain i f where m: "M_NEG (l_ui v) (l_uf v) = (i, f)" by force
  have "fx i f = - lfp_val v"
    using L_NEG_val[of v] m by (simp add: L_NEG_def mk_lfp_val)
  then have "sint i * 2 ^ 32 + uint f = sint (- lfp_val v)" by (metis sint_fx)
  also have "\<dots> = - sint (lfp_val v)"
  proof -
    have "- lfp_val v = of_int (- sint (lfp_val v))" by simp
    then show ?thesis
      using sint_u64_of_int[of "- sint (lfp_val v)"] sint_u64_bounds[of "lfp_val v"] assms by simp
  qed
  finally have h: "sint i * 2 ^ 32 + uint f = - sint (lfp_val v)" .
  have "real_of_int (sint i * 2 ^ 32 + uint f) = - real_of_int (sint (lfp_val v))" unfolding h by simp
  then show ?thesis using True m by (simp add: LFPTOD_def FRAC_def)
qed

lemma sint_half: "sint (signed_drop_bit 1 (w :: u64)) = sint w div 2"
  by (simp add: sint_signed_drop_bit_eq drop_bit_eq_div)

lemma packet_offset_value:
  fixes p recv
  defines "a \<equiv> sint (lfp_val (pkt_xmt p) - lfp_val recv)"
    and "b \<equiv> sint (lfp_val (pkt_rec p) - lfp_val (pkt_org p))"
  assumes r: "- (2 ^ 47) \<le> b - a" "b - a < 2 ^ 47" "\<bar>a\<bar> < 2 ^ 62"
  shows "packet_offset recv p =
    (real_of_int (a div 2 + b div 2) / FRAC, real_of_int ((b - a) div 2 ^ 16) / FRIC)"
proof -
  let ?t10 = "L_SUB (pkt_xmt p) recv" and ?t23 = "L_SUB (pkt_rec p) (pkt_org p)"
  let ?ci = "L_ADD (L_RSHIFT ?t10) (L_RSHIFT ?t23)" and ?d = "L_SUB ?t23 ?t10"
  have w: "lfp_val ?t10 = of_int a" "lfp_val ?t23 = of_int b"
    by (simp_all add: lfp_simps a_def b_def)
  have s: "sint (lfp_val ?t10) = a" "sint (lfp_val ?t23) = b"
    by (simp_all add: lfp_simps a_def b_def)
  have "lfp_val ?ci = of_int (sint (signed_drop_bit 1 (lfp_val ?t10)) + sint (signed_drop_bit 1 (lfp_val ?t23)))"
    by (simp add: lfp_simps)
  also have "\<dots> = of_int (a div 2 + b div 2)" by (simp only: sint_half s)
  finally have v: "lfp_val ?ci = of_int (a div 2 + b div 2)" .
  have c: "sint (lfp_val ?ci) = a div 2 + b div 2"
  proof -
    have "2 * (a div 2) \<le> a" "a \<le> 2 * (a div 2) + 1" "2 * (b div 2) \<le> b" "b \<le> 2 * (b div 2) + 1" by auto
    moreover have "- 4611686018427387904 < a" "a < 4611686018427387904"
      "- 140737488355328 \<le> b - a" "b - a < 140737488355328" using r by simp_all
    ultimately have "- (2 ^ 63) \<le> a div 2 + b div 2" "a div 2 + b div 2 < 2 ^ 63" by simp_all
    then show ?thesis unfolding v by (rule sint_u64_of_int)
  qed
  have c': "LFPTOD ?ci = real_of_int (a div 2 + b div 2) / FRAC"
    using LFPTOD_val[of ?ci] r unfolding c by simp
  have u: "lfp_val ?d = of_int (b - a)" by (simp add: L_SUB_val[of ?t23 ?t10] w)
  have d: "sint (lfp_val ?d) = b - a"
    unfolding u by (rule sint_u64_of_int; use r in simp)
  have e: "sint (l_ui ?d) * 2 ^ 32 + uint (l_uf ?d) = b - a"
    using d by (simp only: lfp_val_def sint_fx)
  have f: "0 \<le> uint (l_uf ?d)" "uint (l_uf ?d) < 2 ^ 32" by (rule uint_u32)+
  have "sint (LFPTOFP ?d) = (b - a) div 2 ^ 16"
    unfolding LFPTOFP_def e[symmetric]
  proof (rule MFPTOFP_floor)
    define i g where "i = sint (l_ui ?d)" and "g = uint (l_uf ?d)"
    have "i * 4294967296 + g = b - a" "0 \<le> g" "g < 4294967296"
      "- 140737488355328 \<le> b - a" "b - a < 140737488355328"
      using e f r unfolding i_def[symmetric] g_def[symmetric] by simp_all
    then show "- 32768 \<le> sint (l_ui ?d)" "sint (l_ui ?d) < 32768"
      unfolding i_def[symmetric] by linarith+
  qed
  then show ?thesis unfolding packet_offset_def Let_def c' FPTOD_def by simp
qed

section \<open>The bounds contain the true offset\<close>

text \<open>
  \<open>n0\<close> to \<open>n3\<close> are the four time stamps, counted without wrapping around in units of
  \<open>2\<^sup>-\<^sup>3\<^sup>2\<close> seconds; \<open>theta\<close> is by how much the time of the server is ahead of ours,
  \<open>d1\<close> and \<open>d2\<close> are the delays of the request and the response, \<open>e1\<close> and \<open>e2\<close> the
  errors of the server's clock.
\<close>

definition exchange :: "l_fp \<Rightarrow> pkt \<Rightarrow> int \<Rightarrow> int \<Rightarrow> int \<Rightarrow> int \<Rightarrow> bool" where
  "exchange recv p n0 n1 n2 n3 \<longleftrightarrow>
     lfp_val recv = of_int n0 \<and> lfp_val (pkt_xmt p) = of_int n1 \<and>
     lfp_val (pkt_rec p) = of_int n2 \<and> lfp_val (pkt_org p) = of_int n3 \<and>
     \<bar>n1 - n0\<bar> < 2 ^ 62 \<and> \<bar>n2 - n3\<bar> < 2 ^ 62 \<and>
     - (2 ^ 47) \<le> (n2 - n3) - (n1 - n0) \<and> (n2 - n3) - (n1 - n0) < 2 ^ 47"

lemma exchange_offset:
  assumes "exchange recv p n0 n1 n2 n3"
  shows "packet_offset recv p =
    (real_of_int ((n1 - n0) div 2 + (n2 - n3) div 2) / FRAC,
     real_of_int (((n2 - n3) - (n1 - n0)) div 2 ^ 16) / FRIC)"
proof -
  note e = assms[unfolded exchange_def]
  have "- (2 ^ 63) \<le> n1 - n0" "n1 - n0 < 2 ^ 63" "- (2 ^ 63) \<le> n2 - n3" "n2 - n3 < 2 ^ 63"
    using e by (simp_all add: abs_less_iff)
  then have "sint (lfp_val (pkt_xmt p) - lfp_val recv) = n1 - n0"
    "sint (lfp_val (pkt_rec p) - lfp_val (pkt_org p)) = n2 - n3"
    using sint_u64_of_int[of "n1 - n0"] sint_u64_of_int[of "n2 - n3"] e by simp_all
  then show ?thesis
    using packet_offset_value[where p = p and recv = recv] e by simp
qed

lemma packet_interval:
  assumes "exchange recv p n0 n1 n2 n3"
    and "real_of_int n2 / FRAC = real_of_int n3 / FRAC + theta + d1 + e1"
    and "real_of_int n0 / FRAC = real_of_int n1 / FRAC - theta - e2 + d2"
    and "0 \<le> d1" "0 \<le> d2" "\<bar>e1\<bar> \<le> host_error st h" "\<bar>e2\<bar> \<le> host_error st h"
  shows "\<exists>lo hi err. packet_bounds recv p st h = (lo, hi, err) \<and>
    lo - 1 / FRIC \<le> theta \<and> theta \<le> hi + 1 / FRIC"
proof -
  define a b where "a = n1 - n0" and "b = n2 - n3"
  define offset where "offset = real_of_int (a div 2 + b div 2) / FRAC"
  define rtt where "rtt = real_of_int ((b - a) div 2 ^ 16) / FRIC"
  have p: "packet_offset recv p = (offset, rtt)"
    using exchange_offset[OF assms(1)] by (simp add: a_def b_def offset_def rtt_def)
  have "2 * (a div 2) \<le> a" "a \<le> 2 * (a div 2) + 1" "2 * (b div 2) \<le> b" "b \<le> 2 * (b div 2) + 1" by auto
  then have "2 * (a div 2 + b div 2) \<le> a + b" "a + b \<le> 2 * (a div 2 + b div 2) + 2" by simp_all
  then have "real_of_int (2 * (a div 2 + b div 2)) \<le> real_of_int (a + b)"
    "real_of_int (a + b) \<le> real_of_int (2 * (a div 2 + b div 2) + 2)" by (simp_all only: of_int_le_iff)
  then have o: "offset \<le> real_of_int (a + b) / (2 * FRAC)" "real_of_int (a + b) / (2 * FRAC) \<le> offset + 1 / FRAC"
    by (simp_all add: offset_def FRAC_def field_simps)
  have "(b - a) div 2 ^ 16 * 2 ^ 16 \<le> b - a" "b - a < (b - a) div 2 ^ 16 * 2 ^ 16 + 2 ^ 16"
    by (simp_all only: minus_mod_eq_div_mult[symmetric]) (simp_all add: diff_less_eq)
  then have "real_of_int ((b - a) div 2 ^ 16 * 2 ^ 16) \<le> real_of_int (b - a)"
    "real_of_int (b - a) < real_of_int ((b - a) div 2 ^ 16 * 2 ^ 16 + 2 ^ 16)"
    by (simp_all only: of_int_le_iff of_int_less_iff)
  then have r: "rtt \<le> real_of_int (b - a) / FRAC" "real_of_int (b - a) / FRAC < rtt + 1 / FRIC"
    by (simp_all add: rtt_def FRAC_def FRIC_def field_simps)
  have "real_of_int (a + b) / FRAC = 2 * theta + d1 - d2 + e1 + e2"
    "real_of_int (b - a) / FRAC = d1 + d2 + e1 - e2"
    using assms(2,3) by (simp_all add: a_def b_def add_divide_distrib diff_divide_distrib)
  then have "\<bar>offset - theta\<bar> \<le> rtt / 2 + host_error st h + 1 / FRIC"
    using o r assms(4-7) unfolding FRAC_def FRIC_def abs_le_iff by linarith
  then show ?thesis
    unfolding packet_bounds_def p by (simp add: abs_le_iff Let_def)
qed

text \<open>C21: If both ways of an exchange take their time, the server stamps within its error, and the residue of time stamps stays in range, the true offset lies in the bounds that the response gives, to the last bit of the fixed point numbers.\<close>

theorem packet_interval_sound:
  assumes "exchange recv p n0 n1 n2 n3"
    and "real_of_int n2 / FRAC = real_of_int n3 / FRAC + theta + d1 + e1"
    and "real_of_int n0 / FRAC = real_of_int n1 / FRAC - theta - e2 + d2"
    and "0 \<le> d1" "0 \<le> d2" "\<bar>e1\<bar> \<le> host_error st h" "\<bar>e2\<bar> \<le> host_error st h"
  shows "\<exists>lo hi err. packet_bounds recv p st h = (lo, hi, err) \<and>
    lo - 1 / FRIC \<le> theta \<and> theta \<le> hi + 1 / FRIC"
  by (rule packet_interval[OF assms])

section \<open>What an accepted packet promises\<close>

lemma sint_shift_1:
  assumes "n < 32"
  shows "sint (push_bit n (1 :: u32)) = (if n = 31 then - (2 ^ 31) else 2 ^ n)"
proof (cases "n = 31")
  case False
  have w: "push_bit n (1 :: u32) = of_int (2 ^ n)" by (simp add: push_bit_eq_mult)
  have "(2 :: int) ^ n \<le> 2 ^ 30" using assms False by (intro power_increasing) simp_all
  then have "(2 :: int) ^ n < 2 ^ 31" by simp
  then have "signed_take_bit 31 ((2 :: int) ^ n) = 2 ^ n"
  proof (intro signed_take_bit_int_eq_self)
    have "- (2 ^ 31) \<le> (0 :: int)" by simp
    also have "0 \<le> (2 :: int) ^ n" by simp
    finally show "- (2 ^ 31) \<le> (2 :: int) ^ n" .
  qed
  then have "sint (of_int (2 ^ n) :: u32) = 2 ^ n" by (subst signed_of_int) simp
  then show ?thesis using False w by simp
qed simp

lemma precision_accepted:
  assumes "pkt_precision_seconds p = Some x" "x \<le> 0.25"
  shows "(sint p = 31 \<and> x = - (2 ^ 31)) \<or>
    (- 31 \<le> sint p \<and> sint p \<le> - 2 \<and> - (1 / 2 ^ 31) \<le> x \<and> x \<le> 1 / 4)"
proof (cases "sint p < 0")
  case False
  then have n: "nat (sint p) < 32" "x = real_of_int (sint (push_bit (nat (sint p)) (1 :: u32)))"
    using assms(1) by (auto simp: pkt_precision_seconds_def split: if_splits)
  have x: "x = (if nat (sint p) = 31 then - (2 ^ 31) else 2 ^ nat (sint p))"
    using n(2) unfolding sint_shift_1[OF n(1)] by simp
  have "1 \<le> x" if "nat (sint p) \<noteq> 31"
    using that x one_le_power[of "2 :: real" "nat (sint p)"] by simp
  then have "nat (sint p) = 31" using assms(2) by force
  then show ?thesis using x by simp
next
  case True
  define n where "n = nat (- sint p)"
  have n: "n < 32" "0 < n" "sint p = - int n" "x = 1 / real_of_int (sint (push_bit n (1 :: u32)))"
    using assms(1) True by (auto simp: pkt_precision_seconds_def n_def split: if_splits)
  show ?thesis
  proof (cases "n = 31")
    case True
    then have "x = 1 / real_of_int (- (2 ^ 31))" using n(4) unfolding sint_shift_1[OF n(1)] by simp
    then show ?thesis using n(3) True by simp
  next
    case False
    then have x: "x = 1 / 2 ^ n" using n(4) unfolding sint_shift_1[OF n(1)] by simp
    have "n \<noteq> 1" using x assms(2) by auto
    then have "2 \<le> n" using n(2) by simp
    then have "(2 :: real) ^ 2 \<le> 2 ^ n" by (intro power_increasing) simp_all
    then have "0 < x" "x \<le> 1 / 4" by (simp_all add: x field_simps)
    then have "- (1 / 2 ^ 31) \<le> x \<and> x \<le> 1 / 4" by simp
    then show ?thesis using n(1,3) \<open>2 \<le> n\<close> by simp
  qed
qed

lemma FPTOD_uint: "0 \<le> FPTOD (uint w)"
  by (simp add: FPTOD_def FRIC_def del: of_int_uint)

lemma FPTOD_uint_pos: "0 < FPTOD (uint w) \<Longrightarrow> 1 / FRIC \<le> FPTOD (uint w)"
  by (simp add: FPTOD_def FRIC_def del: of_int_uint)

lemma accepted_packet:
  assumes "check_packet len p = Some (VGood st h)"
  shows "len = LEN_PKT_NOMAC" "st \<noteq> 0" "st = pkt_stratum p"
    "pkt_precision_seconds (pkt_precision p) = Some (hd_precision h)" "hd_precision h \<le> 0.25"
    "0 \<le> hd_rootdelay h" "hd_rootdelay h \<le> 1" "hd_rootdelay h = 0 \<Longrightarrow> st = 1"
    "0 < hd_rootdispersion h" "hd_rootdispersion h \<le> 0.3"
    "lfp_val (pkt_rec p) \<le> lfp_val (pkt_xmt p)" "1 / FRIC \<le> hd_rootdispersion h"
  using assms
  by (auto simp: check_packet_def check_times_def Let_def PKT_TO_STRATUM_def STRATUM_UNSPEC_def lfp_simps
      ES_ROOT_DELAY_REJECT_def ES_DISPERSION_REJECT_def FPTOD_uint FPTOD_uint_pos
      split: if_splits bind_splits)

text \<open>C22: An accepted response has a positive host error of at most 1.125 seconds (63.375 from stratum 8 on), unless the precision byte is 31; with that byte 1 << 31 is negative, passes the check and makes the error less than minus 2^30 seconds.\<close>

theorem accepted_packet_error:
  assumes "check_packet len p = Some (VGood st h)"
  shows "(sint (pkt_precision p) \<noteq> 31 \<longrightarrow> 0 < host_error st h \<and>
      host_error st h \<le> (if uint st < ES_BASE_PENALTY_STRATUM then 1.125 else 63.375)) \<and>
    (sint (pkt_precision p) = 31 \<longrightarrow> host_error st h < - (2 ^ 30)) \<and>
    (hd_rootdelay h = 0 \<longrightarrow> st = 1) \<and> uint (lfp_val (pkt_rec p)) \<le> uint (lfp_val (pkt_xmt p))"
proof -
  note a = accepted_packet[OF assms]
  define s where "s = uint st"
  define pen where "pen = (if 8 \<le> s then 0.5 + (real_of_int s - 8) * 0.25 else 0)"
  have "0 \<le> s" "s < 256" using uint_lt2p[of st] unfolding s_def by simp_all
  then have p: "0 \<le> pen" "pen \<le> 62.25" "s < 8 \<Longrightarrow> pen = 0" by (simp_all add: pen_def)
  have e: "host_error st h = hd_rootdispersion h * 1.25 + hd_rootdelay h / 2 + hd_precision h + pen"
    unfolding host_error_def Let_def s_def pen_def ES_BASE_PENALTY_STRATUM_def ES_BASE_STRATUM_PENALTY_def
      ES_PENALTY_PER_STRATUM_def by (simp del: of_int_uint)
  have d: "1 / 65536 \<le> hd_rootdispersion h" using a(12) by (simp add: FRIC_def)
  have "0 < host_error st h \<and> host_error st h \<le> (if s < 8 then 1.125 else 63.375)"
    if "sint (pkt_precision p) \<noteq> 31"
  proof -
    have "- (1 / 2147483648) \<le> hd_precision h"
      using precision_accepted[OF a(4,5)] that by auto
    then show ?thesis using a(5-7,10) p d unfolding e by (cases "s < 8") auto
  qed
  moreover have "host_error st h < - (2 ^ 30)" if "sint (pkt_precision p) = 31"
  proof -
    have "hd_precision h = - 2147483648" using precision_accepted[OF a(4,5)] that by auto
    then show ?thesis using a(7,10) p unfolding e by simp
  qed
  moreover have "uint (lfp_val (pkt_rec p)) \<le> uint (lfp_val (pkt_xmt p))"
    using a(11) by (simp add: word_le_def)
  ultimately show ?thesis using a(8) unfolding s_def[symmetric] ES_BASE_PENALTY_STRATUM_def by blast
qed

section \<open>Concrete packets\<close>

text \<open>A response of a server of stratum 2 after 31 milliseconds, and one with a precision of 31.\<close>

definition good_packet :: pkt where
  "good_packet = \<lparr>li_vn_mode = 0x24, pkt_stratum = 2, pkt_ppoll = 6, pkt_precision = - 20, pkt_rootdelay = 0x400,
     pkt_rootdispersion = 0x200, pkt_refid = 0, pkt_reftime = L_CLR, pkt_org = \<lparr>l_ui = 1000, l_uf = 0\<rparr>,
     pkt_rec = \<lparr>l_ui = 1005, l_uf = 0x04000000\<rparr>, pkt_xmt = \<lparr>l_ui = 1005, l_uf = 0x04000000\<rparr>\<rparr>"

definition evil_packet :: pkt where
  "evil_packet = good_packet\<lparr>pkt_precision := 31\<rparr>"

lemma lfp_val_int: "lfp_val v = of_int (uint (l_ui v) * 2 ^ 32 + uint (l_uf v))"
  unfolding lfp_val_def uint_fx[symmetric] by (rule word_of_int_uint[symmetric])

lemma good_packet_accepted:
  "check_packet 48 good_packet = Some (VGood 2 \<lparr>hd_leap = 0, hd_rootdelay = 1 / 64,
     hd_rootdispersion = 1 / 128, hd_precision = 1 / 1048576\<rparr>)"
  by (simp add: check_packet_def check_times_def good_packet_def LEN_PKT_NOMAC_def PKT_VERSION_def PKT_MODE_def
      PKT_LEAP_def PKT_TO_STRATUM_def STRATUM_PKT_UNSPEC_def NTP_OLDVERSION_def NTP_VERSION_def
      MODE_SERVER_def pkt_precision_seconds_def FPTOD_def FRIC_def ES_ROOT_DELAY_REJECT_def
      ES_DISPERSION_REJECT_def L_ISZERO_def L_ISHIS_def M_ISHIS_def L_ISEQU_def M_ISEQU_def Let_def)

lemma evil_packet_accepted:
  "check_packet 48 evil_packet = Some (VGood 2 \<lparr>hd_leap = 0, hd_rootdelay = 1 / 64,
     hd_rootdispersion = 1 / 128, hd_precision = - 2147483648\<rparr>)"
  by (simp add: check_packet_def check_times_def good_packet_def evil_packet_def LEN_PKT_NOMAC_def PKT_VERSION_def PKT_MODE_def
      PKT_LEAP_def PKT_TO_STRATUM_def STRATUM_PKT_UNSPEC_def NTP_OLDVERSION_def NTP_VERSION_def
      MODE_SERVER_def pkt_precision_seconds_def FPTOD_def FRIC_def ES_ROOT_DELAY_REJECT_def
      ES_DISPERSION_REJECT_def L_ISZERO_def L_ISHIS_def M_ISHIS_def L_ISEQU_def M_ISEQU_def Let_def)

theorem accepted_packet_error_witness:
  "host_error 2 \<lparr>hd_leap = 0, hd_rootdelay = 1 / 64, hd_rootdispersion = 1 / 128,
     hd_precision = - 2147483648\<rparr> < - (2 ^ 30)"
  using accepted_packet_error[OF evil_packet_accepted] by (simp add: evil_packet_def)

theorem packet_interval_sound_witness:
  "\<exists>lo hi err. packet_bounds \<lparr>l_ui = 1000, l_uf = 0x08000000\<rparr> good_packet 2
      \<lparr>hd_leap = 0, hd_rootdelay = 1 / 64, hd_rootdispersion = 1 / 128, hd_precision = 1 / 1048576\<rparr> = (lo, hi, err) \<and>
     lo - 1 / FRIC \<le> 5 \<and> 5 \<le> hi + 1 / FRIC"
  by (rule packet_interval_sound[where ?n0.0 = "1000 * 2 ^ 32 + 0x08000000" and ?n1.0 = "1005 * 2 ^ 32 + 0x04000000"
        and ?n2.0 = "1005 * 2 ^ 32 + 0x04000000" and ?n3.0 = "1000 * 2 ^ 32"
        and ?d1.0 = "1 / 64" and ?d2.0 = "1 / 64" and ?e1.0 = 0 and ?e2.0 = 0])
    (simp_all add: exchange_def good_packet_def lfp_val_int FRAC_def host_error_def ES_BASE_PENALTY_STRATUM_def)

end
