(* ===== verification/EsNtpSocket.thy ===== *)
theory EsNtpSocket
  imports EsNtpPacket EsNtpHostNames EsTimeLaws
begin

text \<open>
  The state of the NTP driver (src/ESNTPDriver.cpp) and what one socket does. The state is the
  object \<open>ESNTPDriver\<close>, the descriptors of the host names and of their sockets, and the static
  variables of the file. The driver works in a thread of its own: an operation is what that
  thread does for one event, and the time is read once for each event. The assertions that
  code runs in this thread are true by construction.

  A pointer to a timer is a \<open>timer\<close>: no timer, one that will fire, or one that has fired and was
  not released. A released timer does not notify (shown for the timers in EsTimerProtocol).
  A socket is named by the positions of its host name and of itself. The priority queue of
  sockets is the list of what was pushed; its top is the first of least average round trip time.
  The file descriptors, the results of \<open>connect\<close> and \<open>send\<close>, what the name resolver finds and
  whether the Internet can be reached are arguments.
\<close>

section \<open>Constants\<close>

definition ES_FIX_GOOD :: real where "ES_FIX_GOOD = 0.16"
definition ES_FIX_TIMEOUT :: real where "ES_FIX_TIMEOUT = 3600 * 1"
definition ES_FIX_TIMEOUT_FAILED :: real where "ES_FIX_TIMEOUT_FAILED = 60 * 10"
definition ES_FIX_TIMEOUT_FAILED_BACKOFF :: real where "ES_FIX_TIMEOUT_FAILED_BACKOFF = 2"
definition ES_FIX_TIMEOUT_FAILED_MAX :: real where "ES_FIX_TIMEOUT_FAILED_MAX = ES_FIX_TIMEOUT"
definition ES_SEND_FAILURE_THROTTLE :: real where "ES_SEND_FAILURE_THROTTLE = 60"
definition ES_FORCE_RTT_FOR_BAD_PACKET :: real where "ES_FORCE_RTT_FOR_BAD_PACKET = 1800"
definition ES_FORCE_RTT_FOR_BAD_HOST :: real where "ES_FORCE_RTT_FOR_BAD_HOST = 3600"
definition ES_RESOLUTION_FAILURE_RETRY_BASE :: real where "ES_RESOLUTION_FAILURE_RETRY_BASE = 10"
definition ES_SHORT_SOCKET_TIMEOUT :: real where "ES_SHORT_SOCKET_TIMEOUT = 1"
definition ES_LONG_SOCKET_TIMEOUT :: real where "ES_LONG_SOCKET_TIMEOUT = 10"
definition ES_NO_PROGRESS_TIMEOUT :: real where "ES_NO_PROGRESS_TIMEOUT = 2"
definition ES_PROXIMITY_LEVEL_TIMEOUT :: real where "ES_PROXIMITY_LEVEL_TIMEOUT = 10"
definition ES_MAX_ACTIVE_POOL_HOSTS :: int where "ES_MAX_ACTIVE_POOL_HOSTS = 10"
definition ES_NETWORK_RESTART_DELAY :: real where "ES_NETWORK_RESTART_DELAY = 4"
definition ES_THROTTLE_BASE_PACKETS :: int where "ES_THROTTLE_BASE_PACKETS = 6"
definition ES_THROTTLE_BASE_INTERVAL :: real where "ES_THROTTLE_BASE_INTERVAL = 0.5"
definition ES_THROTTLE_INTERVAL_MULTIPLIER :: real where "ES_THROTTLE_INTERVAL_MULTIPLIER = 1.05"
definition ES_THROTTLE_INTERVAL_MAX :: real where "ES_THROTTLE_INTERVAL_MAX = 15"
definition ES_GIVE_UP_INTERVAL :: real where "ES_GIVE_UP_INTERVAL = 60 * 8"
definition POLLING_INTERVALB :: real where "POLLING_INTERVALB = 1"
definition POLLING_HOST_GAP :: real where "POLLING_HOST_GAP = 0.2"

definition LEAP_NOWARNING :: u8 where "LEAP_NOWARNING = 0"
definition MODE_CLIENT :: u8 where "MODE_CLIENT = 3"
definition NTP_MINPOLL :: u8 where "NTP_MINPOLL = 4"
definition NTPDATE_PRECISION :: u8 where "NTPDATE_PRECISION = - 6"
definition NTPDATE_REFID :: u32 where "NTPDATE_REFID = 0"

definition STRATUM_TO_PKT :: "u8 \<Rightarrow> u8" where
  "STRATUM_TO_PKT s = (if s = STRATUM_UNSPEC then STRATUM_PKT_UNSPEC else s)"

section \<open>The state\<close>

datatype timer = NoTimer | Pending ESTimeInterval | Fired

datatype sock_timer_observer = SendThrottle | SocketShortTimeout

record xmit_time_stamp =
  xmitTimeFP :: l_fp
  xmitTimeES :: ESTimeInterval
  longTimeoutTimer :: timer

record addrinfo =
  ai_family :: int
  ai_socktype :: int
  ai_protocol :: int
  ai_addr :: "u8 list"

record sock =
  sk_timer :: timer
  sk_timerObserver :: sock_timer_observer
  sk_address :: addrinfo
  sk_fd :: int
  sk_xmitTimes :: "xmit_time_stamp list"
  sk_lastSendFailureTime :: ESTimeInterval
  sk_lastSendTime :: ESTimeInterval
  sk_averageRTT :: ESTimeInterval
  sk_sumRTT :: ESTimeInterval
  sk_packetsSent :: int
  sk_packetsReceived :: int
  sk_packetsUsed :: int
  sk_leapBits :: int
  sk_stratum :: "int option"
  sk_skewLB :: ESTimeInterval
  sk_skewUB :: ESTimeInterval
  sk_nonRTTError :: ESTimeInterval

text \<open>The constructor and the loop that fills in an address; the stratum is not initialised.\<close>

definition new_sock :: "addrinfo \<Rightarrow> sock" where
  "new_sock a = \<lparr>sk_timer = NoTimer, sk_timerObserver = SendThrottle, sk_address = a, sk_fd = - 1,
     sk_xmitTimes = [], sk_lastSendFailureTime = 0, sk_lastSendTime = 0, sk_averageRTT = 0,
     sk_sumRTT = 0, sk_packetsSent = 0, sk_packetsReceived = 0, sk_packetsUsed = 0, sk_leapBits = 0,
     sk_stratum = None, sk_skewLB = - (10 ^ 6), sk_skewUB = 10 ^ 6, sk_nonRTTError = 0\<rparr>"

record host =
  hn_name :: string
  hn_isUserHost :: bool
  hn_proximity :: int
  hn_sockets :: "sock list"
  hn_resolving :: bool
  hn_doneResolving :: bool
  hn_numResolutionFailures :: int
  hn_failureTimer :: timer

text \<open>A descriptor after its constructor and \<open>init\<close>.\<close>

definition host_init :: "host_entry \<Rightarrow> host" where
  "host_init e = (case e of (name, proximity, isUserHost) \<Rightarrow>
     \<lparr>hn_name = name, hn_isUserHost = isUserHost, hn_proximity = proximity, hn_sockets = [],
      hn_resolving = False, hn_doneResolving = False, hn_numResolutionFailures = 0,
      hn_failureTimer = NoTimer\<rparr>)"

record host_info =
  hi_address :: addrinfo
  hi_packetsSent :: int
  hi_packetsReceived :: int
  hi_packetsUsed :: int
  hi_skewLB :: ESTimeInterval
  hi_skewUB :: ESTimeInterval
  hi_nonRTTError :: ESTimeInterval
  hi_leapBits :: int
  hi_stratum :: "int option"
  hi_disabled :: bool

record host_name_info =
  hni_name :: string
  hni_resolving :: bool
  hni_resolved :: bool
  hni_failedResolution :: bool
  hni_hostInfos :: "host_info list"

datatype ntp_message = MsgResync bool | MsgStopSyncing | MsgStopSyncingIfNecessary | MsgDisableSync
  | MsgEnableSync | MsgSetDeviceCountryCode string | MsgEnteringBackground nat
  | MsgRestartPollingCycle | MsgStopPollingCycle | MsgMakeHostReport observer

record ntp_statics =
  st_appSignature :: u32
  st_numPacketsSent :: int
  st_numPacketsReceived :: int
  st_numLongTimeoutsTriggered :: int
  st_lastSyncStart :: ESTimeInterval
  st_lastSyncElapsedTime :: ESTimeInterval
  st_sumNumPacketsSent :: int
  st_sumLastSyncElapsedTime :: ESTimeInterval
  st_numSyncs :: int
  st_timeOfLastSuccessfulSync :: ESTimeInterval
  st_timeOfLastSyncAttempt :: ESTimeInterval
  st_inPollingMode :: bool
  st_nextSendHostIndex :: int
  st_pollingCycleRunning :: bool
  st_pollingRunning :: bool
  st_pollingInterval :: int
  st_pollingHostTimer :: timer
  st_recursing :: bool

text \<open>
  The driver also holds its position among the drivers of the time service and that service, the
  lists of \<open>ESNTPHostNames\<close>, the messages to its thread, and a record of what it did: the
  packets it sent with their descriptors, the host reports with the threads they went to, how many
  attempts to send it made, and how often the network activity indicator was started and not yet
  stopped.
\<close>

record ntp_driver = ntp_statics +
  nd_index :: nat
  nd_thread :: nat
  nd_es :: estime
  nd_names :: host_names
  nd_maxSocketFD :: int
  nd_maxMinOffset :: real
  nd_minMaxOffset :: real
  nd_stopReading :: bool
  nd_reading :: bool
  nd_networkReachable :: bool
  nd_networkObserver :: bool
  nd_lastSuccessfulSyncTime :: ESTimeInterval
  nd_poolHostLookupFailures :: int
  nd_currentProximity :: int
  nd_throttleLastTicketTime :: ESTimeInterval
  nd_throttleSendInterval :: ESTimeInterval
  nd_lastFailTimeout :: ESTimeInterval
  nd_noProgressTimeout :: timer
  nd_restartSyncTimeout :: timer
  nd_giveUpTimer :: timer
  nd_proximityBumpTimer :: timer
  nd_disabled :: bool
  nd_deviceCountryCode :: string
  nd_hostNameIterator :: hosts_iterator
  nd_hosts :: "host list"
  nd_available :: "(nat \<times> nat) list"
  nd_inbox :: "ntp_message list"
  nd_reportObservers :: "observer list"
  nd_wire :: "(int \<times> pkt) list"
  nd_reports :: "(nat \<times> nat \<times> host_name_info list) list"
  nd_attempts :: nat
  nd_activity :: int
  nd_finishedBackgroundTasks :: "nat list"

record net_result =
  nr_socket :: int
  nr_connect :: int
  nr_send :: int

record ntp_env =
  ne_now :: ESTimeInterval
  ne_net :: "nat \<Rightarrow> net_result"
  ne_locale :: string

section \<open>Sockets and host names by position\<close>

definition the_host :: "nat \<Rightarrow> ntp_driver \<Rightarrow> host option" where
  "the_host n d = (if n < length (nd_hosts d) then Some (nd_hosts d ! n) else None)"

definition put_host :: "nat \<Rightarrow> host \<Rightarrow> ntp_driver \<Rightarrow> ntp_driver" where
  "put_host n h d = d\<lparr>nd_hosts := (nd_hosts d)[n := h]\<rparr>"

definition the_sock :: "nat \<times> nat \<Rightarrow> ntp_driver \<Rightarrow> sock option" where
  "the_sock si d = (case the_host (fst si) d of None \<Rightarrow> None
     | Some h \<Rightarrow> (if snd si < length (hn_sockets h) then Some (hn_sockets h ! snd si) else None))"

definition put_sock :: "nat \<times> nat \<Rightarrow> sock \<Rightarrow> ntp_driver \<Rightarrow> ntp_driver" where
  "put_sock si sk d =
     (let h = nd_hosts d ! fst si
      in put_host (fst si) (h\<lparr>hn_sockets := (hn_sockets h)[snd si := sk]\<rparr>) d)"

definition is_user_sock :: "nat \<times> nat \<Rightarrow> ntp_driver \<Rightarrow> bool option" where
  "is_user_sock si d = map_option hn_isUserHost (the_host (fst si) d)"

section \<open>The driver as a source of time\<close>

definition ntp_status :: "ntp_driver \<Rightarrow> ESTimeSourceStatus option" where
  "ntp_status d = map_option drv_status (the_driver (nd_index d) (nd_es d))"

definition ntp_contSkew :: "ntp_driver \<Rightarrow> ESTimeInterval option" where
  "ntp_contSkew d = map_option drv_contSkew (the_driver (nd_index d) (nd_es d))"

definition ntp_currentTimeError :: "ntp_driver \<Rightarrow> ESTimeInterval option" where
  "ntp_currentTimeError d = map_option drv_currentTimeError (the_driver (nd_index d) (nd_es d))"

definition ntp_setStatus :: "ntp_env \<Rightarrow> ESTimeSourceStatus \<Rightarrow> ntp_driver \<Rightarrow> ntp_driver option" where
  "ntp_setStatus en st d = do {
     s \<leftarrow> setStatus (nd_thread d) (ne_now en) (nd_index d) st (nd_es d);
     Some (d\<lparr>nd_es := s\<rparr>)
   }"

definition ntp_setContSkew :: "ntp_env \<Rightarrow> ESTimeInterval \<Rightarrow> ESTimeInterval \<Rightarrow> ntp_driver \<Rightarrow> ntp_driver option" where
  "ntp_setContSkew en skew err d = do {
     s \<leftarrow> setContSkew (nd_thread d) (ne_now en) (nd_index d) skew err (nd_es d);
     Some (d\<lparr>nd_es := s\<rparr>)
   }"

definition ntp_workingSyncValue :: "ESTimeInterval \<Rightarrow> ESTimeInterval \<Rightarrow> ntp_driver \<Rightarrow> ntp_driver" where
  "ntp_workingSyncValue v a d = d\<lparr>nd_es := workingSyncValue (nd_thread d) v a (nd_es d)\<rparr>"

section \<open>Host reports\<close>

definition host_info_of :: "sock \<Rightarrow> host_info" where
  "host_info_of sk = \<lparr>hi_address = sk_address sk, hi_packetsSent = sk_packetsSent sk,
     hi_packetsReceived = sk_packetsReceived sk, hi_packetsUsed = sk_packetsUsed sk,
     hi_skewLB = sk_skewLB sk, hi_skewUB = sk_skewUB sk, hi_nonRTTError = sk_nonRTTError sk,
     hi_leapBits = sk_leapBits sk, hi_stratum = sk_stratum sk, hi_disabled = False\<rparr>"

definition host_report :: "ntp_driver \<Rightarrow> host_name_info list" where
  "host_report d = map (\<lambda>h. \<lparr>hni_name = hn_name h, hni_resolving = hn_resolving h,
     hni_resolved = hn_doneResolving h, hni_failedResolution = hn_numResolutionFailures h > 0,
     hni_hostInfos = map host_info_of (hn_sockets h)\<rparr>) (nd_hosts d)"

definition callHostReportAvailable ::
  "nat \<Rightarrow> observer \<Rightarrow> host_name_info list \<Rightarrow> nat \<times> nat \<times> host_name_info list" where
  "callHostReportAvailable thread ob rep =
     (case ob_notificationThread ob of
        Some t \<Rightarrow> if t \<noteq> thread then (ob_id ob, t, rep) else (ob_id ob, thread, rep)
      | None \<Rightarrow> (ob_id ob, thread, rep))"

definition constructAndSendHostReportToObserver :: "observer \<Rightarrow> ntp_driver \<Rightarrow> ntp_driver" where
  "constructAndSendHostReportToObserver ob d =
     d\<lparr>nd_reports := nd_reports d @ [callHostReportAvailable (nd_thread d) ob (host_report d)]\<rparr>"

definition makeHostReportIfRequired :: "ntp_driver \<Rightarrow> ntp_driver" where
  "makeHostReportIfRequired d = fold constructAndSendHostReportToObserver (nd_reportObservers d) d"

definition registerHostReportObserver :: "observer \<Rightarrow> ntp_driver \<Rightarrow> ntp_driver" where
  "registerHostReportObserver ob d =
     d\<lparr>nd_reportObservers := nd_reportObservers d @ [ob], nd_inbox := nd_inbox d @ [MsgMakeHostReport ob]\<rparr>"

definition unregisterHostReportObserver :: "observer \<Rightarrow> ntp_driver \<Rightarrow> ntp_driver" where
  "unregisterHostReportObserver ob d = d\<lparr>nd_reportObservers := removeAll ob (nd_reportObservers d)\<rparr>"

section \<open>Sending a packet\<close>

definition make_packet :: "u32 \<Rightarrow> l_fp \<Rightarrow> pkt" where
  "make_packet appSignature xmt = \<lparr>li_vn_mode = PKT_LI_VN_MODE LEAP_NOWARNING NTP_VERSION MODE_CLIENT,
     pkt_stratum = STRATUM_TO_PKT STRATUM_UNSPEC, pkt_ppoll = NTP_MINPOLL,
     pkt_precision = NTPDATE_PRECISION, pkt_rootdelay = push_bit 8 0x45 OR 0x53,
     pkt_rootdispersion = appSignature, pkt_refid = NTPDATE_REFID, pkt_reftime = L_CLR,
     pkt_org = L_CLR, pkt_rec = L_CLR, pkt_xmt = xmt\<rparr>"

text \<open>The signature in host byte order; \<open>char\<close> is signed, as on all the platforms of the library.\<close>

definition setAppSignature :: "u8 list \<Rightarrow> ntp_driver \<Rightarrow> ntp_driver option" where
  "setAppSignature sig d = do {
     ESAssert (length sig \<le> 4 \<and> 0 < length sig);
     let b = (\<lambda>i. if i < length sig then (signed_take_bit 7 (word_of_int (uint (sig ! i))) :: u32) else 0);
     Some (d\<lparr>st_appSignature := push_bit 24 (b 0) OR push_bit 16 (b 1) OR push_bit 8 (b 2) OR b 3\<rparr>)
   }"

definition checkMaxSocketFD :: "int \<Rightarrow> ntp_driver \<Rightarrow> ntp_driver" where
  "checkMaxSocketFD fd d = (if fd > nd_maxSocketFD d then d\<lparr>nd_maxSocketFD := fd\<rparr> else d)"

definition getThrottleTicket :: "ESTimeInterval \<Rightarrow> ntp_driver \<Rightarrow> (ESTimeInterval \<times> ntp_driver) option" where
  "getThrottleTicket sendTime d =
     (if st_numPacketsReceived d < ES_THROTTLE_BASE_PACKETS
      then do {
        ESAssert (nd_throttleSendInterval d = 0);
        Some (sendTime, d\<lparr>nd_throttleSendInterval := 0, nd_throttleLastTicketTime := sendTime\<rparr>)
      }
      else
        let interval = (if st_numPacketsReceived d = ES_THROTTLE_BASE_PACKETS then ES_THROTTLE_BASE_INTERVAL
                        else let i = nd_throttleSendInterval d * ES_THROTTLE_INTERVAL_MULTIPLIER
                             in if i > ES_THROTTLE_INTERVAL_MAX then ES_THROTTLE_INTERVAL_MAX else i);
            ticket = nd_throttleLastTicketTime d + interval
        in Some (ticket, d\<lparr>nd_throttleSendInterval := interval, nd_throttleLastTicketTime := ticket\<rparr>))"

text \<open>
  One attempt to send, as far as it does not call \<open>stateGotPacketSendError\<close>: the flag says that it
  has to. Every call of \<open>socket\<close> and of \<open>send\<close> takes the next result of the network.
\<close>

definition send_now :: "ntp_env \<Rightarrow> nat \<times> nat \<Rightarrow> ntp_driver \<Rightarrow> (bool \<times> ntp_driver) option" where
  "send_now en si d = do {
     sk \<leftarrow> the_sock si d;
     let (fp, es) = timeStampMake (ne_now en);
     let sk = sk\<lparr>sk_xmitTimes := \<lparr>xmitTimeFP = fp, xmitTimeES = es, longTimeoutTimer = NoTimer\<rparr>
                                  # sk_xmitTimes sk\<rparr>;
     let sz = nr_send (ne_net en (nd_attempts d));
     let d = d\<lparr>nd_attempts := Suc (nd_attempts d),
               nd_wire := nd_wire d @ [(sk_fd sk, make_packet (st_appSignature d) fp)]\<rparr>;
     if sz = LEN_PKT_NOMAC
     then Some (False, (put_sock si
            (sk\<lparr>sk_lastSendTime := ne_now en, sk_lastSendFailureTime := 0,
                sk_timer := Pending (ne_now en + ES_SHORT_SOCKET_TIMEOUT),
                sk_timerObserver := SocketShortTimeout, sk_packetsSent := sk_packetsSent sk + 1\<rparr>) d)
            \<lparr>st_numPacketsSent := st_numPacketsSent d + 1\<rparr>)
     else Some (True, put_sock si
            (sk\<lparr>sk_averageRTT := ES_FORCE_RTT_FOR_BAD_HOST, sk_lastSendFailureTime := ne_now en\<rparr>) d)
   }"

definition send_connected :: "ntp_env \<Rightarrow> bool \<Rightarrow> nat \<times> nat \<Rightarrow> ntp_driver \<Rightarrow> (bool \<times> ntp_driver) option" where
  "send_connected en haveTicket si d = do {
     sk \<leftarrow> the_sock si d;
     isUserHost \<leftarrow> is_user_sock si d;
     let sk = sk\<lparr>sk_timer := NoTimer\<rparr>;
     let d = put_sock si sk d;
     let sendTime = ne_now en;
     if \<not> haveTicket \<and> \<not> isUserHost \<and> \<not> st_inPollingMode d then do {
       (ticket, d) \<leftarrow> getThrottleTicket sendTime d;
       if ticket > sendTime
       then Some (False, put_sock si (sk\<lparr>sk_timer := Pending (sendTime + (ticket - sendTime)),
                                         sk_timerObserver := SendThrottle\<rparr>) d)
       else send_now en si d
     }
     else send_now en si d
   }"

definition connectAndSendFirstPacket :: "ntp_env \<Rightarrow> nat \<times> nat \<Rightarrow> ntp_driver \<Rightarrow> (bool \<times> ntp_driver) option" where
  "connectAndSendFirstPacket en si d = do {
     sk \<leftarrow> the_sock si d;
     ESAssert (sk_fd sk < 0);
     if sk_lastSendFailureTime sk \<noteq> 0 \<and> ne_now en - sk_lastSendFailureTime sk < ES_SEND_FAILURE_THROTTLE
     then Some (True, d)
     else do {
       let r = ne_net en (nd_attempts d);
       let d = d\<lparr>nd_attempts := Suc (nd_attempts d)\<rparr>;
       if nr_socket r < 0
       then Some (True, put_sock si (sk\<lparr>sk_fd := nr_socket r, sk_averageRTT := ES_FORCE_RTT_FOR_BAD_HOST,
                                        sk_lastSendFailureTime := ne_now en\<rparr>) d)
       else if nr_connect r \<noteq> 0
       then Some (True, put_sock si (sk\<lparr>sk_fd := - 1, sk_averageRTT := ES_FORCE_RTT_FOR_BAD_HOST,
                                        sk_lastSendFailureTime := ne_now en\<rparr>) d)
       else send_connected en False si
              (checkMaxSocketFD (nr_socket r) (put_sock si (sk\<lparr>sk_fd := nr_socket r\<rparr>) d))
     }
   }"

definition send_attempt :: "ntp_env \<Rightarrow> bool \<Rightarrow> nat \<times> nat \<Rightarrow> ntp_driver \<Rightarrow> (bool \<times> ntp_driver) option" where
  "send_attempt en haveTicket si d = do {
     sk \<leftarrow> the_sock si d;
     if sk_fd sk < 0 then connectAndSendFirstPacket en si d else send_connected en haveTicket si d
   }"

section \<open>Which host is next\<close>

definition startResolving :: "nat \<Rightarrow> ntp_driver \<Rightarrow> ntp_driver" where
  "startResolving n d = (case the_host n d of None \<Rightarrow> d | Some h \<Rightarrow> put_host n (h\<lparr>hn_resolving := True\<rparr>) d)"

fun resolve_loop :: "int \<Rightarrow> host list \<Rightarrow> nat \<Rightarrow> nat option" where
  "resolve_loop currentProximity [] n = None"
| "resolve_loop currentProximity (h # hs) n =
     (if hn_proximity h > currentProximity then None
      else if \<not> hn_resolving h \<and> \<not> hn_doneResolving h then Some n
      else resolve_loop currentProximity hs (Suc n))"

definition resolveOnePoolHostDNS :: "ntp_driver \<Rightarrow> bool \<times> ntp_driver" where
  "resolveOnePoolHostDNS d = (case resolve_loop (nd_currentProximity d) (nd_hosts d) 0 of
     None \<Rightarrow> (False, d) | Some n \<Rightarrow> (True, startResolving n d))"

definition averageRTT :: "ntp_driver \<Rightarrow> nat \<times> nat \<Rightarrow> ESTimeInterval" where
  "averageRTT d si = (case the_sock si d of None \<Rightarrow> 0 | Some sk \<Rightarrow> sk_averageRTT sk)"

fun least_by :: "('a \<Rightarrow> real) \<Rightarrow> 'a \<Rightarrow> 'a list \<Rightarrow> 'a" where
  "least_by f x [] = x"
| "least_by f x (y # ys) = least_by f (if f y < f x then y else x) ys"

definition available_top :: "ntp_driver \<Rightarrow> (nat \<times> nat) option" where
  "available_top d = (case nd_available d of [] \<Rightarrow> None | x # xs \<Rightarrow> Some (least_by (averageRTT d) x xs))"

definition available_pop :: "ntp_driver \<Rightarrow> ntp_driver" where
  "available_pop d = (case available_top d of None \<Rightarrow> d
     | Some t \<Rightarrow> d\<lparr>nd_available := remove1 t (nd_available d)\<rparr>)"

definition pushPoolSocket :: "nat \<times> nat \<Rightarrow> ntp_driver \<Rightarrow> ntp_driver" where
  "pushPoolSocket si d = d\<lparr>nd_available := nd_available d @ [si]\<rparr>"

definition ensureFreshHostAvailable :: "ntp_driver \<Rightarrow> bool \<times> ntp_driver" where
  "ensureFreshHostAvailable d = (case available_top d of
     None \<Rightarrow> resolveOnePoolHostDNS d
   | Some t \<Rightarrow> if averageRTT d t \<noteq> 0 then resolveOnePoolHostDNS d else (True, d))"

text \<open>What sending needs for its termination: neither queue nor \<open>recursing\<close> is changed.\<close>

lemma hosts_frame [simp]:
  "st_recursing (put_sock si sk d) = st_recursing d" "nd_available (put_sock si sk d) = nd_available d"
  "st_recursing (put_host n h d) = st_recursing d" "nd_available (put_host n h d) = nd_available d"
  "st_recursing (checkMaxSocketFD fd d) = st_recursing d"
  "nd_available (checkMaxSocketFD fd d) = nd_available d"
  by (simp_all add: put_sock_def put_host_def checkMaxSocketFD_def Let_def)

lemma send_now_frame:
  "send_now en si d = Some (f, d') \<Longrightarrow> st_recursing d' = st_recursing d \<and> nd_available d' = nd_available d"
  by (auto simp: send_now_def Let_def split: Option.bind_splits prod.splits if_splits)

lemma throttle_frame:
  "getThrottleTicket t d = Some (x, d') \<Longrightarrow> st_recursing d' = st_recursing d \<and> nd_available d' = nd_available d"
  by (auto simp: getThrottleTicket_def Let_def split: if_splits)

lemma send_connected_frame:
  "send_connected en ht si d = Some (f, d') \<Longrightarrow>
    st_recursing d' = st_recursing d \<and> nd_available d' = nd_available d"
  by (auto simp: send_connected_def Let_def split: Option.bind_splits prod.splits if_splits
      dest!: send_now_frame throttle_frame)

lemma send_attempt_frame:
  "send_attempt en ht si d = Some (f, d') \<Longrightarrow>
    st_recursing d' = st_recursing d \<and> nd_available d' = nd_available d"
  by (auto simp: send_attempt_def connectAndSendFirstPacket_def Let_def
      split: Option.bind_splits if_splits dest!: send_connected_frame)

end
