(* ===== verification/EsNtpDriver.thy ===== *)
theory EsNtpDriver
  imports EsNtpSocket
begin

text \<open>
  What the NTP driver does (src/ESNTPDriver.cpp): the choice of hosts, start and end of a
  synchronisation, timers, names, packets, polling, calls from other threads, and one step of
  its thread for one event.
\<close>

section \<open>Sending and its errors\<close>

text \<open>
  The three procedures that call each other: \<open>ESNTPSocketDescriptor::sendPacket\<close>, whose errors go
  through \<open>stateGotPacketSendError\<close> to \<open>stateGotBadPacket\<close>, that one, and
  \<open>sendPacketToFastestPoolHost\<close>. The recursion ends: the static \<open>recursing\<close> lets only the first
  bad packet push its socket back, after which every turn takes one socket from the queue.
\<close>

function sendPacket :: "ntp_env \<Rightarrow> bool \<Rightarrow> nat \<times> nat \<Rightarrow> ntp_driver \<Rightarrow> ntp_driver option"
  and stateGotBadPacket :: "ntp_env \<Rightarrow> nat \<times> nat \<Rightarrow> ntp_driver \<Rightarrow> ntp_driver option"
  and sendPacketToFastestPoolHost :: "ntp_env \<Rightarrow> ntp_driver \<Rightarrow> ntp_driver option" where
  "sendPacket en haveTicket si d = do {
     (failed, d) \<leftarrow> send_attempt en haveTicket si d;
     if failed then stateGotBadPacket en si d else Some d
   }"
| "stateGotBadPacket en si d =
     (if st_recursing d then sendPacketToFastestPoolHost en d
      else do {
        isUserHost \<leftarrow> is_user_sock si d;
        if isUserHost then do {
          d \<leftarrow> sendPacket en False si (d\<lparr>st_recursing := True\<rparr>);
          Some (d\<lparr>st_recursing := False\<rparr>)
        }
        else if st_inPollingMode d then Some (pushPoolSocket si (d\<lparr>st_recursing := True\<rparr>))
        else do {
          d \<leftarrow> sendPacketToFastestPoolHost en (pushPoolSocket si (d\<lparr>st_recursing := True\<rparr>));
          Some (d\<lparr>st_recursing := False\<rparr>)
        }
      })"
| "sendPacketToFastestPoolHost en d =
     (case available_top d of
        None \<Rightarrow> Some (snd (resolveOnePoolHostDNS d))
      | Some fastest \<Rightarrow>
          if averageRTT d fastest \<ge> ES_FORCE_RTT_FOR_BAD_HOST \<and> fst (resolveOnePoolHostDNS d)
          then Some (snd (resolveOnePoolHostDNS d))
          else sendPacket en False fastest (available_pop d))"
  by pat_completeness auto

lemma least_by_in: "least_by f x xs \<in> set (x # xs)"
  by (induction f x xs rule: least_by.induct) auto

lemma available_top_in: "available_top d = Some t \<Longrightarrow> t \<in> set (nd_available d)"
  using least_by_in by (fastforce simp: available_top_def split: list.splits)

lemma available_pop_frame [simp]: "st_recursing (available_pop d) = st_recursing d"
  by (simp add: available_pop_def split: option.split)

lemma available_pop_less:
  assumes "available_top d = Some t"
  shows "length (nd_available (available_pop d)) < length (nd_available d)"
proof -
  have "t \<in> set (nd_available d)" by (rule available_top_in[OF assms])
  moreover from this have "0 < length (nd_available d)" by (cases "nd_available d") simp_all
  ultimately show ?thesis by (simp add: available_pop_def assms length_remove1)
qed

definition send_rank :: "(ntp_env \<times> bool \<times> (nat \<times> nat) \<times> ntp_driver) + (ntp_env \<times> (nat \<times> nat) \<times> ntp_driver) +
    (ntp_env \<times> ntp_driver) \<Rightarrow> nat \<times> nat \<times> nat" where
  "send_rank x = (let key = (\<lambda>d k. (if st_recursing d then 0 else 1, length (nd_available d), k)) in
     case x of Inl (en, haveTicket, si, d) \<Rightarrow> key d 2 | Inr (Inl (en, si, d)) \<Rightarrow> key d 1
     | Inr (Inr (en, d)) \<Rightarrow> key d 0)"

termination sendPacket
proof (relation "inv_image (less_than <*lex*> less_than <*lex*> less_than) send_rank")
  show "wf (inv_image (less_than <*lex*> less_than <*lex*> less_than) send_rank)" by auto
next
  fix en d t
  assume "available_top d = Some t"
  then show "(Inl (en, False, t, available_pop d), Inr (Inr (en, d)))
      \<in> inv_image (less_than <*lex*> less_than <*lex*> less_than) send_rank"
    using available_pop_less by (simp add: send_rank_def Let_def)
qed (auto simp: send_rank_def Let_def pushPoolSocket_def dest: send_attempt_frame)

definition sendPacketToFastestPoolHostIncludingThisOne ::
  "ntp_env \<Rightarrow> nat \<times> nat \<Rightarrow> ntp_driver \<Rightarrow> ntp_driver option" where
  "sendPacketToFastestPoolHostIncludingThisOne en si d = (case available_top d of
     None \<Rightarrow> sendPacket en False si d
   | Some fastest \<Rightarrow>
       if averageRTT d fastest < averageRTT d si
       then sendPacket en False fastest (pushPoolSocket si (available_pop d))
       else sendPacket en False si d)"

section \<open>Stopping and starting\<close>

definition close_sock :: "sock \<Rightarrow> sock" where
  "close_sock sk = sk\<lparr>sk_timer := NoTimer, sk_fd := - 1\<rparr>"

definition closeAllSockets :: "ntp_driver \<Rightarrow> ntp_driver" where
  "closeAllSockets d = d\<lparr>nd_hosts := map (\<lambda>h. h\<lparr>hn_sockets := map close_sock (hn_sockets h)\<rparr>) (nd_hosts d)\<rparr>"

text \<open>In the driver's thread.\<close>

definition stopPollingCycle :: "ntp_driver \<Rightarrow> ntp_driver option" where
  "stopPollingCycle d = do {
     let d = d\<lparr>st_pollingRunning := False, st_pollingCycleRunning := False\<rparr>;
     ESAssert (st_inPollingMode d);
     Some (d\<lparr>st_pollingHostTimer := NoTimer\<rparr>)
   }"

definition restartPollingCycle :: "ntp_env \<Rightarrow> ntp_driver \<Rightarrow> ntp_driver option" where
  "restartPollingCycle en d = do {
     let d = d\<lparr>st_pollingRunning := True, st_pollingCycleRunning := True\<rparr>;
     ESAssert (st_inPollingMode d);
     Some (d\<lparr>st_pollingHostTimer := Pending (ne_now en + POLLING_INTERVALB)\<rparr>)
   }"

definition note_sync_end :: "ntp_env \<Rightarrow> ntp_driver \<Rightarrow> ntp_driver option" where
  "note_sync_end en d = do {
     ESAssert (st_lastSyncStart d \<noteq> 0);
     let elapsed = ne_now en - st_lastSyncStart d;
     t \<leftarrow> currentTime (ne_now en) (nd_es d);
     Some (d\<lparr>st_lastSyncElapsedTime := elapsed, st_timeOfLastSyncAttempt := t, st_lastSyncStart := 0,
             st_numSyncs := st_numSyncs d + 1,
             st_sumLastSyncElapsedTime := st_sumLastSyncElapsedTime d + elapsed,
             st_sumNumPacketsSent := st_sumNumPacketsSent d + st_numPacketsSent d\<rparr>)
   }"

definition stopSyncingInThisThread :: "ntp_env \<Rightarrow> ntp_driver \<Rightarrow> ntp_driver option" where
  "stopSyncingInThisThread en d =
     (if nd_reading d then Some (d\<lparr>nd_stopReading := True\<rparr>)
      else do {
        d \<leftarrow> note_sync_end en d;
        let d = closeAllSockets d;
        let d = d\<lparr>nd_activity := nd_activity d - 1\<rparr>;
        let d = d\<lparr>nd_noProgressTimeout := NoTimer, nd_giveUpTimer := NoTimer, nd_proximityBumpTimer := NoTimer\<rparr>;
        d \<leftarrow> (if st_inPollingMode d then stopPollingCycle d else Some d);
        let d = ntp_workingSyncValue (- 1) (- 1) d;
        Some (d\<lparr>nd_throttleSendInterval := 0,
                nd_hostNameIterator := iterator_reset (ne_locale en) None (nd_hostNameIterator d),
                nd_hosts := [], nd_available := []\<rparr>)
      })"

definition stopSyncingIfNecessaryInThisThread :: "ntp_env \<Rightarrow> ntp_driver \<Rightarrow> ntp_driver option" where
  "stopSyncingIfNecessaryInThisThread en d =
     (if st_lastSyncStart d \<noteq> 0 then stopSyncingInThisThread en d else Some d)"

fun start_status :: "bool \<Rightarrow> ESTimeSourceStatus \<Rightarrow> ESTimeSourceStatus" where
  "start_status userRequested StatusSynchronized =
     (if userRequested then StatusPollingSynchronized else StatusPollingUnsynchronized)"
| "start_status userRequested StatusPollingSynchronized =
     (if userRequested then StatusPollingSynchronized else StatusPollingUnsynchronized)"
| "start_status userRequested StatusFailedSynchronized =
     (if userRequested then StatusPollingSynchronized else StatusPollingUnsynchronized)"
| "start_status userRequested StatusNoNetSynchronized =
     (if userRequested then StatusPollingSynchronized else StatusPollingUnsynchronized)"
| "start_status userRequested StatusPollingRefining =
     (if userRequested then StatusPollingRefining else StatusPollingUnsynchronized)"
| "start_status userRequested StatusRefining =
     (if userRequested then StatusPollingRefining else StatusPollingUnsynchronized)"
| "start_status userRequested StatusFailedRefining =
     (if userRequested then StatusPollingRefining else StatusPollingUnsynchronized)"
| "start_status userRequested _ = StatusPollingUnsynchronized"

text \<open>The descriptors of the host names: every host of the user and the first other one are resolved.\<close>

fun start_hosts :: "bool \<Rightarrow> bool \<Rightarrow> host_entry list \<Rightarrow> host list" where
  "start_hosts polling firstNonUserResolved [] = []"
| "start_hosts polling firstNonUserResolved (e # es) =
     (let h = host_init e
      in if hn_isUserHost h \<or> polling
         then h\<lparr>hn_resolving := True\<rparr> # start_hosts polling firstNonUserResolved es
         else if \<not> firstNonUserResolved then h\<lparr>hn_resolving := True\<rparr> # start_hosts polling True es
         else h # start_hosts polling firstNonUserResolved es)"

text \<open>The state of a new synchronisation: counters, timers, bounds.\<close>

definition start_reset :: "ntp_env \<Rightarrow> ntp_driver \<Rightarrow> ntp_driver" where
  "start_reset en d = d\<lparr>nd_maxMinOffset := - (10 ^ 9), nd_minMaxOffset := 10 ^ 9, nd_maxSocketFD := - 1,
     nd_poolHostLookupFailures := 0, nd_lastFailTimeout := 0,
     st_numPacketsSent := 0, st_numPacketsReceived := 0, st_numLongTimeoutsTriggered := 0,
     nd_throttleLastTicketTime := 0, nd_throttleSendInterval := 0,
     nd_giveUpTimer := Pending (ne_now en + ES_GIVE_UP_INTERVAL), nd_restartSyncTimeout := NoTimer,
     nd_currentProximity := 0,
     nd_proximityBumpTimer := Pending (ne_now en + ES_PROXIMITY_LEVEL_TIMEOUT)\<rparr>"

text \<open>The status and the error that observers see from now on.\<close>

definition start_report :: "ntp_env \<Rightarrow> bool \<Rightarrow> ntp_driver \<Rightarrow> ntp_driver option" where
  "start_report en userRequested d = do {
     status \<leftarrow> ntp_status d;
     d \<leftarrow> ntp_setStatus en (start_status userRequested status) d;
     err \<leftarrow> ntp_currentTimeError d;
     skew \<leftarrow> ntp_contSkew d;
     d \<leftarrow> ntp_setContSkew en skew (if userRequested then err else 10 ^ 9) d;
     Some (ntp_workingSyncValue (- 1) (- 1) d)
   }"

definition start_hosts_of_names :: "ntp_driver \<Rightarrow> ntp_driver option" where
  "start_hosts_of_names d = do {
     total \<leftarrow> totalNumberOfHostNames (nd_names d) (nd_hostNameIterator d);
     let d = d\<lparr>nd_activity := nd_activity d + 1\<rparr>;
     (entries, it) \<leftarrow> iterate_hosts (nd_names d) (nd_hostNameIterator d);
     ESAssert (int (length entries) = total);
     Some (d\<lparr>nd_hostNameIterator := it, nd_hosts := start_hosts (st_inPollingMode d) False entries\<rparr>)
   }"

definition startSyncing :: "ntp_env \<Rightarrow> bool \<Rightarrow> ntp_driver \<Rightarrow> ntp_driver option" where
  "startSyncing en userRequested d =
     (if nd_disabled d then Some d
      else if st_lastSyncStart d \<noteq> 0 then Some d
      else if \<not> nd_networkReachable d then Some d
      else do {
        let d = d\<lparr>st_lastSyncStart := ne_now en, nd_stopReading := False\<rparr>;
        d \<leftarrow> start_report en userRequested d;
        let d = start_reset en d;
        d \<leftarrow> (if st_inPollingMode d then restartPollingCycle en (d\<lparr>nd_currentProximity := 4\<rparr>) else Some d);
        d \<leftarrow> start_hosts_of_names d;
        Some (makeHostReportIfRequired d)
      })"

definition resyncInThisThread :: "ntp_env \<Rightarrow> bool \<Rightarrow> ntp_driver \<Rightarrow> ntp_driver option" where
  "resyncInThisThread en userRequested d = do {
     d \<leftarrow> (if st_lastSyncStart d \<noteq> 0 then stopSyncingInThisThread en d else Some d);
     startSyncing en userRequested d
   }"

definition disableSyncInThisThread :: "ntp_env \<Rightarrow> ntp_driver \<Rightarrow> ntp_driver option" where
  "disableSyncInThisThread en d = stopSyncingIfNecessaryInThisThread en (d\<lparr>nd_disabled := True\<rparr>)"

definition enableSyncInThisThread :: "ntp_env \<Rightarrow> ntp_driver \<Rightarrow> ntp_driver option" where
  "enableSyncInThisThread en d = resyncInThisThread en False (d\<lparr>nd_disabled := False\<rparr>)"

definition setDeviceCountryCodeInThread :: "ntp_env \<Rightarrow> string \<Rightarrow> ntp_driver \<Rightarrow> ntp_driver option" where
  "setDeviceCountryCodeInThread en cc d = resyncInThisThread en False
     (d\<lparr>nd_hostNameIterator := iterator_reset (ne_locale en) (Some cc) (nd_hostNameIterator d)\<rparr>)"

definition enteringBackgroundInThread :: "ntp_env \<Rightarrow> nat \<Rightarrow> ntp_driver \<Rightarrow> ntp_driver option" where
  "enteringBackgroundInThread en taskID d = do {
     d \<leftarrow> (if st_lastSyncStart d \<noteq> 0 then stopSyncingInThisThread en d else Some d);
     Some (d\<lparr>nd_finishedBackgroundTasks := nd_finishedBackgroundTasks d @ [taskID]\<rparr>)
   }"

section \<open>Timers of the driver\<close>

definition bumpProximity :: "ntp_env \<Rightarrow> ntp_driver \<Rightarrow> ntp_driver" where
  "bumpProximity en d =
     (if nd_currentProximity d < 4
      then let d = d\<lparr>nd_currentProximity := nd_currentProximity d + 1\<rparr>
           in if nd_currentProximity d < 3
              then d\<lparr>nd_proximityBumpTimer := Pending (ne_now en + ES_PROXIMITY_LEVEL_TIMEOUT)\<rparr>
              else d
      else d)"

fun give_up_status :: "ESTimeSourceStatus \<Rightarrow> ESTimeSourceStatus" where
  "give_up_status StatusNoNetSynchronized = StatusFailedSynchronized"
| "give_up_status StatusPollingSynchronized = StatusFailedSynchronized"
| "give_up_status StatusFailedSynchronized = StatusFailedSynchronized"
| "give_up_status StatusSynchronized = StatusFailedSynchronized"
| "give_up_status StatusPollingRefining = StatusFailedRefining"
| "give_up_status StatusRefining = StatusFailedRefining"
| "give_up_status StatusFailedRefining = StatusFailedRefining"
| "give_up_status StatusNoNetRefining = StatusFailedRefining"
| "give_up_status _ = StatusFailedUnynchronized"

definition giveUpTimerFire :: "ntp_env \<Rightarrow> ntp_driver \<Rightarrow> ntp_driver option" where
  "giveUpTimerFire en d = do {
     let t = (if nd_lastFailTimeout d > 0
              then let t = nd_lastFailTimeout d * ES_FIX_TIMEOUT_FAILED_BACKOFF
                   in if t > ES_FIX_TIMEOUT_FAILED_MAX then ES_FIX_TIMEOUT_FAILED_MAX else t
              else ES_FIX_TIMEOUT_FAILED);
     let d = d\<lparr>nd_lastFailTimeout := t, nd_restartSyncTimeout := Pending (ne_now en + t)\<rparr>;
     status \<leftarrow> ntp_status d;
     d \<leftarrow> ntp_setStatus en (give_up_status status) d;
     stopSyncingInThisThread en d
   }"

definition installNoProgressTimeout :: "ntp_env \<Rightarrow> ntp_driver \<Rightarrow> ntp_driver" where
  "installNoProgressTimeout en d =
     d\<lparr>nd_noProgressTimeout := Pending (ne_now en + (ES_NO_PROGRESS_TIMEOUT + nd_throttleSendInterval d))\<rparr>"

definition stateGotNoProgressTimeout :: "ntp_env \<Rightarrow> ntp_driver \<Rightarrow> ntp_driver option" where
  "stateGotNoProgressTimeout en d =
     (let numHostsActive = st_numPacketsSent d - st_numPacketsReceived d - st_numLongTimeoutsTriggered d
      in if numHostsActive \<ge> ES_MAX_ACTIVE_POOL_HOSTS
         then let (fresh, d) = ensureFreshHostAvailable d
              in Some (if fresh then installNoProgressTimeout en d else d)
         else do {
           d \<leftarrow> sendPacketToFastestPoolHost en d;
           Some (installNoProgressTimeout en d)
         })"

definition stateGotResyncTimeout :: "ntp_env \<Rightarrow> ntp_driver \<Rightarrow> ntp_driver option" where
  "stateGotResyncTimeout en d = resyncInThisThread en True d"

definition startSyncingAfterDelay :: "ntp_env \<Rightarrow> ntp_driver \<Rightarrow> ntp_driver" where
  "startSyncingAfterDelay en d = d\<lparr>nd_restartSyncTimeout := Pending (ne_now en + ES_NETWORK_RESTART_DELAY)\<rparr>"

section \<open>The network goes away and comes back\<close>

fun no_net_status :: "ESTimeSourceStatus \<Rightarrow> ESTimeSourceStatus" where
  "no_net_status StatusNoNetSynchronized = StatusNoNetSynchronized"
| "no_net_status StatusPollingSynchronized = StatusNoNetSynchronized"
| "no_net_status StatusFailedSynchronized = StatusNoNetSynchronized"
| "no_net_status StatusSynchronized = StatusNoNetSynchronized"
| "no_net_status StatusPollingRefining = StatusNoNetRefining"
| "no_net_status StatusRefining = StatusNoNetRefining"
| "no_net_status StatusFailedRefining = StatusNoNetRefining"
| "no_net_status StatusNoNetRefining = StatusNoNetRefining"
| "no_net_status _ = StatusNoNetUnsynchronized"

definition stateGotNetworkUnreachable :: "ntp_env \<Rightarrow> bool \<Rightarrow> ntp_driver \<Rightarrow> ntp_driver option" where
  "stateGotNetworkUnreachable en knownToBeActive d = do {
     let d = d\<lparr>nd_networkReachable := False\<rparr>;
     d \<leftarrow> (if knownToBeActive \<or> nd_hosts d \<noteq> []
           then do { status \<leftarrow> ntp_status d; ntp_setStatus en (no_net_status status) d }
           else Some d);
     if st_lastSyncStart d \<noteq> 0 then stopSyncingInThisThread en d else Some d
   }"

definition stateGotNetworkReachable :: "ntp_env \<Rightarrow> ntp_driver \<Rightarrow> ntp_driver option" where
  "stateGotNetworkReachable en d = do {
     let d = d\<lparr>nd_networkReachable := True\<rparr>;
     status \<leftarrow> ntp_status d;
     Some (if status \<in> {StatusNoNetSynchronized, StatusNoNetRefining, StatusNoNetUnsynchronized}
           then startSyncingAfterDelay en d else d)
   }"

section \<open>Names\<close>

definition setupPostResolutionFailureTimer :: "ntp_env \<Rightarrow> nat \<Rightarrow> ntp_driver \<Rightarrow> ntp_driver option" where
  "setupPostResolutionFailureTimer en n d = do {
     h \<leftarrow> the_host n d;
     let delay = ES_RESOLUTION_FAILURE_RETRY_BASE * of_int (hn_numResolutionFailures h);
     ESAssert (hn_failureTimer h = NoTimer);
     Some (put_host n (h\<lparr>hn_failureTimer := Pending (ne_now en + delay)\<rparr>) d)
   }"

definition stateGotNameResolutionFailure :: "ntp_env \<Rightarrow> nat \<Rightarrow> ntp_driver \<Rightarrow> ntp_driver option" where
  "stateGotNameResolutionFailure en n d = do {
     d \<leftarrow> setupPostResolutionFailureTimer en n d;
     h \<leftarrow> the_host n d;
     Some (if \<not> hn_isUserHost h then snd (resolveOnePoolHostDNS d) else d)
   }"

text \<open>\<open>reachable\<close> is what \<open>ESNetwork::internetIsReachable\<close> answers.\<close>

definition nameResolutionFailed :: "ntp_env \<Rightarrow> bool \<Rightarrow> nat \<Rightarrow> ntp_driver \<Rightarrow> ntp_driver option" where
  "nameResolutionFailed en reachable n d =
     (let d = makeHostReportIfRequired d
      in if \<not> nd_networkObserver d
         then let d = d\<lparr>nd_networkObserver := True\<rparr>
              in if \<not> reachable then stateGotNetworkUnreachable en True d
                 else stateGotNameResolutionFailure en n d
         else stateGotNameResolutionFailure en n d)"

fun sendPacketsToAllHosts_loop :: "ntp_env \<Rightarrow> nat \<Rightarrow> nat list \<Rightarrow> ntp_driver \<Rightarrow> ntp_driver option" where
  "sendPacketsToAllHosts_loop en n [] d = Some d"
| "sendPacketsToAllHosts_loop en n (i # is) d = do {
     d \<leftarrow> sendPacket en False (n, i) d;
     sendPacketsToAllHosts_loop en n is d
   }"

definition sendPacketsToAllHosts :: "ntp_env \<Rightarrow> nat \<Rightarrow> ntp_driver \<Rightarrow> ntp_driver option" where
  "sendPacketsToAllHosts en n d = do {
     h \<leftarrow> the_host n d;
     sendPacketsToAllHosts_loop en n [0..<length (hn_sockets h)] d
   }"

definition stateGotNameResolutionComplete :: "ntp_env \<Rightarrow> nat \<Rightarrow> ntp_driver \<Rightarrow> ntp_driver option" where
  "stateGotNameResolutionComplete en n d = do {
     let d = d\<lparr>nd_poolHostLookupFailures := 0\<rparr>;
     if st_inPollingMode d then Some d
     else do {
       h \<leftarrow> the_host n d;
       d \<leftarrow> (if hn_isUserHost h then sendPacketsToAllHosts en n d else sendPacketToFastestPoolHost en d);
       Some (if nd_noProgressTimeout d = NoTimer \<and> \<not> st_inPollingMode d then installNoProgressTimeout en d else d)
     }
   }"

definition nameResolutionComplete :: "ntp_env \<Rightarrow> nat \<Rightarrow> ntp_driver \<Rightarrow> ntp_driver option" where
  "nameResolutionComplete en n d = stateGotNameResolutionComplete en n (makeHostReportIfRequired d)"

text \<open>The size of \<open>struct sockaddr_storage\<close>.\<close>

definition sockaddr_storage_size :: nat where
  "sockaddr_storage_size = 128"

definition notifyNameResolutionComplete ::
  "ntp_env \<Rightarrow> bool \<Rightarrow> nat \<Rightarrow> addrinfo list \<Rightarrow> ntp_driver \<Rightarrow> ntp_driver option" where
  "notifyNameResolutionComplete en reachable n addrs d = do {
     h \<leftarrow> the_host n d;
     ESAssert (hn_sockets h = []);
     let h = h\<lparr>hn_resolving := False, hn_doneResolving := True\<rparr>;
     if addrs = [] then nameResolutionFailed en reachable n (put_host n h d)
     else do {
       ESAssert (list_all (\<lambda>a. length (ai_addr a) < sockaddr_storage_size) addrs);
       let d = put_host n (h\<lparr>hn_sockets := map new_sock addrs\<rparr>) d;
       let d = (if \<not> hn_isUserHost h then fold (\<lambda>i. pushPoolSocket (n, i)) [0..<length addrs] d else d);
       nameResolutionComplete en n d
     }
   }"

definition notifyNameResolutionFailed :: "ntp_env \<Rightarrow> bool \<Rightarrow> nat \<Rightarrow> ntp_driver \<Rightarrow> ntp_driver option" where
  "notifyNameResolutionFailed en reachable n d = do {
     h \<leftarrow> the_host n d;
     nameResolutionFailed en reachable n
       (put_host n (h\<lparr>hn_resolving := False, hn_doneResolving := True,
                     hn_numResolutionFailures := hn_numResolutionFailures h + 1\<rparr>) d)
   }"

definition postResolutionFailureTimerFire :: "nat \<Rightarrow> ntp_driver \<Rightarrow> ntp_driver option" where
  "postResolutionFailureTimerFire n d = do {
     h \<leftarrow> the_host n d;
     Some (startResolving n (put_host n (h\<lparr>hn_failureTimer := NoTimer\<rparr>) d))
   }"

section \<open>Packets\<close>

definition stateGotFinishingPacket :: "ntp_env \<Rightarrow> ntp_driver \<Rightarrow> ntp_driver option" where
  "stateGotFinishingPacket en d = stopSyncingInThisThread en
     (d\<lparr>nd_lastSuccessfulSyncTime := ne_now en, nd_lastFailTimeout := 0,
        nd_restartSyncTimeout := Pending (ne_now en + ES_FIX_TIMEOUT)\<rparr>)"

definition stateGotPacketWithReportableSync :: "ntp_env \<Rightarrow> nat \<times> nat \<Rightarrow> ntp_driver \<Rightarrow> ntp_driver option" where
  "stateGotPacketWithReportableSync en si d = do {
     isUserHost \<leftarrow> is_user_sock si d;
     if isUserHost then sendPacket en False si d
     else sendPacketToFastestPoolHostIncludingThisOne en si d
   }"

definition narrow :: "real \<Rightarrow> real \<Rightarrow> ntp_driver \<Rightarrow> ntp_driver" where
  "narrow minOffset maxOffset d =
     d\<lparr>nd_maxMinOffset := (if minOffset > nd_maxMinOffset d then minOffset else nd_maxMinOffset d),
       nd_minMaxOffset := (if maxOffset < nd_minMaxOffset d then maxOffset else nd_minMaxOffset d)\<rparr>"

text \<open>
  The error is small enough. With \<open>ES_TRIPLEBASE\<close> the code also tells the calibrator
  (\<open>ESTimeCalibrator::notifySuccessfulSkew\<close>, EsCalibrator), which no state of the driver depends on.
\<close>

definition gotPacket_done :: "ntp_env \<Rightarrow> real \<Rightarrow> real \<Rightarrow> ntp_driver \<Rightarrow> ntp_driver option" where
  "gotPacket_done en tentativeSkew currentError d = do {
     let d = makeHostReportIfRequired d;
     d \<leftarrow> ntp_setContSkew en tentativeSkew currentError d;
     d \<leftarrow> ntp_setStatus en StatusSynchronized d;
     t \<leftarrow> currentTime (ne_now en) (nd_es d);
     let d = d\<lparr>st_timeOfLastSuccessfulSync := t, st_timeOfLastSyncAttempt := t\<rparr>;
     if st_inPollingMode d then Some d else stateGotFinishingPacket en d
   }"

text \<open>It is not, but it may be better than what was known.\<close>

definition gotPacket_refine :: "ntp_env \<Rightarrow> real \<Rightarrow> real \<Rightarrow> nat \<times> nat \<Rightarrow> ntp_driver \<Rightarrow> ntp_driver option" where
  "gotPacket_refine en tentativeSkew currentError si d = do {
     skew \<leftarrow> ntp_contSkew d;
     err \<leftarrow> ntp_currentTimeError d;
     let minSkew = tentativeSkew - currentError;
     let maxSkew = tentativeSkew + currentError;
     d \<leftarrow> (if skew < minSkew then ntp_setContSkew en tentativeSkew currentError d
           else if skew > maxSkew then ntp_setContSkew en tentativeSkew currentError d
           else if currentError < err then ntp_setContSkew en tentativeSkew currentError d
           else Some d);
     let d = ntp_workingSyncValue tentativeSkew currentError d;
     d \<leftarrow> ntp_setStatus en StatusRefining d;
     let d = makeHostReportIfRequired d;
     if st_inPollingMode d then Some d else stateGotPacketWithReportableSync en si d
   }"

definition gotPacket :: "ntp_env \<Rightarrow> real \<Rightarrow> real \<Rightarrow> nat \<times> nat \<Rightarrow> ntp_driver \<Rightarrow> (bool \<times> ntp_driver) option" where
  "gotPacket en minOffset maxOffset si d = do {
     let d = narrow minOffset maxOffset d;
     d \<leftarrow> (if nd_minMaxOffset d < nd_maxMinOffset d
           then if st_inPollingMode d then Some (makeHostReportIfRequired d)
                else resyncInThisThread en False d
           else let currentError = (nd_minMaxOffset d - nd_maxMinOffset d) / 2;
                    tentativeSkew = (nd_minMaxOffset d + nd_maxMinOffset d) / 2
                in if currentError < ES_FIX_GOOD then gotPacket_done en tentativeSkew currentError d
                   else gotPacket_refine en tentativeSkew currentError si d);
     Some (True, d)
   }"

text \<open>The packet this is the answer to, and the others.\<close>

fun find_xmit :: "l_fp \<Rightarrow> xmit_time_stamp list \<Rightarrow> (xmit_time_stamp \<times> xmit_time_stamp list) option" where
  "find_xmit org [] = None"
| "find_xmit org (x # xs) =
     (if L_ISEQU org (xmitTimeFP x) then Some (x, xs)
      else map_option (\<lambda>(y, ys). (y, x # ys)) (find_xmit org xs))"

definition note_bounds :: "bool \<Rightarrow> real \<Rightarrow> real \<Rightarrow> real \<Rightarrow> sock \<Rightarrow> sock" where
  "note_bounds polling minOffset maxOffset hostError sk =
     (if polling
      then sk\<lparr>sk_nonRTTError := hostError, sk_skewLB := minOffset, sk_skewUB := maxOffset\<rparr>
      else let sk = (if minOffset > sk_skewLB sk
                     then sk\<lparr>sk_skewLB := minOffset, sk_nonRTTError := hostError\<rparr> else sk)
           in if maxOffset < sk_skewUB sk
              then sk\<lparr>sk_skewUB := maxOffset, sk_nonRTTError := hostError\<rparr> else sk)"

definition badHost :: "ntp_env \<Rightarrow> nat \<times> nat \<Rightarrow> ntp_driver \<Rightarrow> ntp_driver option" where
  "badHost en si d = do {
     sk \<leftarrow> the_sock si d;
     stateGotBadPacket en si (put_sock si (sk\<lparr>sk_averageRTT := ES_FORCE_RTT_FOR_BAD_HOST\<rparr>) d)
   }"

definition badPacket :: "ntp_env \<Rightarrow> nat \<times> nat \<Rightarrow> ntp_driver \<Rightarrow> ntp_driver option" where
  "badPacket en si d = do {
     sk \<leftarrow> the_sock si d;
     stateGotBadPacket en si (put_sock si (sk\<lparr>sk_averageRTT := ES_FORCE_RTT_FOR_BAD_PACKET\<rparr>) d)
   }"

text \<open>An answer that passed the checks.\<close>

definition recvPacket_good ::
  "ntp_env \<Rightarrow> nat \<times> nat \<Rightarrow> pkt \<Rightarrow> u8 \<Rightarrow> host_data \<Rightarrow> ntp_driver \<Rightarrow> (bool \<times> ntp_driver) option" where
  "recvPacket_good en si p stratum h d = do {
     sk \<leftarrow> the_sock si d;
     let sk = sk\<lparr>sk_stratum := Some (uint stratum), sk_leapBits := uint (hd_leap h)\<rparr>;
     let (minOffset, maxOffset, error) = packet_bounds (fst (timeStampMake (ne_now en))) p stratum h;
     let sk = note_bounds (st_inPollingMode d) minOffset maxOffset (host_error stratum h) sk;
     let sk = sk\<lparr>sk_packetsUsed := sk_packetsUsed sk + 1, sk_sumRTT := sk_sumRTT sk + error * 2\<rparr>;
     let sk = sk\<lparr>sk_averageRTT := sk_sumRTT sk / of_int (sk_packetsReceived sk)\<rparr>;
     (used, d) \<leftarrow> gotPacket en minOffset maxOffset si (put_sock si sk d);
     if used then Some (True, d)
     else do {
       sk \<leftarrow> the_sock si d;
       Some (True, makeHostReportIfRequired (put_sock si (sk\<lparr>sk_packetsUsed := sk_packetsUsed sk - 1\<rparr>) d))
     }
   }"

definition recvPacket ::
  "ntp_env \<Rightarrow> nat \<times> nat \<Rightarrow> int \<Rightarrow> pkt \<Rightarrow> ntp_driver \<Rightarrow> (bool \<times> ntp_driver) option" where
  "recvPacket en si len response d = do {
     sk \<leftarrow> the_sock si d;
     case find_xmit (pkt_org response) (sk_xmitTimes sk) of
       None \<Rightarrow> Some (False, d)
     | Some (x, rest) \<Rightarrow> do {
         let sk = sk\<lparr>sk_xmitTimes := rest, sk_packetsReceived := sk_packetsReceived sk + 1,
                     sk_timer := NoTimer\<rparr>;
         let d = (put_sock si sk d)\<lparr>st_numPacketsReceived := st_numPacketsReceived d + 1\<rparr>;
         v \<leftarrow> check_packet len response;
         case v of
           VBadPacket \<Rightarrow> do { d \<leftarrow> badPacket en si d; Some (False, d) }
         | VBadHost None \<Rightarrow> do { d \<leftarrow> badHost en si d; Some (False, d) }
         | VBadHost (Some stratum) \<Rightarrow> do {
             d \<leftarrow> badHost en si (put_sock si (sk\<lparr>sk_stratum := Some (uint stratum)\<rparr>) d);
             Some (False, d)
           }
         | VBadTimes stratum leap \<Rightarrow> do {
             d \<leftarrow> stateGotBadPacket en si
               (put_sock si (sk\<lparr>sk_stratum := Some (uint stratum), sk_leapBits := uint leap\<rparr>) d);
             Some (False, d)
           }
         | VGood stratum h \<Rightarrow> recvPacket_good en si response stratum h d
       }
   }"

text \<open>
  What \<open>select\<close> found: the descriptors that can be read, with the result of \<open>recv\<close> and the
  packet in the buffer. The number of host names and of sockets does not change in these loops.
\<close>

type_synonym readers = "int \<Rightarrow> (int \<times> pkt) option"

fun processRemoteSockets_host :: "ntp_env \<Rightarrow> readers \<Rightarrow> nat \<Rightarrow> nat list \<Rightarrow> ntp_driver \<Rightarrow> ntp_driver option" where
  "processRemoteSockets_host en fds n [] d = Some d"
| "processRemoteSockets_host en fds n (i # is) d = do {
     sk \<leftarrow> the_sock (n, i) d;
     case (if sk_fd sk \<ge> 0 then fds (sk_fd sk) else None) of
       None \<Rightarrow> processRemoteSockets_host en fds n is d
     | Some (len, p) \<Rightarrow> do {
         (ok, d) \<leftarrow> recvPacket en (n, i) len p d;
         if nd_stopReading d then Some d else processRemoteSockets_host en fds n is d
       }
   }"

fun processRemoteSockets_loop :: "ntp_env \<Rightarrow> readers \<Rightarrow> nat list \<Rightarrow> ntp_driver \<Rightarrow> ntp_driver option" where
  "processRemoteSockets_loop en fds [] d = Some d"
| "processRemoteSockets_loop en fds (n # ns) d = do {
     h \<leftarrow> the_host n d;
     d \<leftarrow> processRemoteSockets_host en fds n [0..<length (hn_sockets h)] d;
     processRemoteSockets_loop en fds ns d
   }"

definition processRemoteSockets :: "ntp_env \<Rightarrow> readers \<Rightarrow> ntp_driver \<Rightarrow> ntp_driver option" where
  "processRemoteSockets en fds d = do {
     let d = d\<lparr>nd_reading := True\<rparr>;
     d \<leftarrow> processRemoteSockets_loop en fds [0..<length (nd_hosts d)] d;
     let d = d\<lparr>nd_reading := False\<rparr>;
     if nd_stopReading d then stopSyncingInThisThread en (d\<lparr>nd_stopReading := False\<rparr>) else Some d
   }"

text \<open>The descriptors given to \<open>select\<close>.\<close>

definition setBitsForSocketFDs :: "ntp_driver \<Rightarrow> int set" where
  "setBitsForSocketFDs d = {sk_fd sk | h sk. h \<in> set (nd_hosts d) \<and> sk \<in> set (hn_sockets h) \<and> sk_fd sk \<ge> 0}"

section \<open>Timers of a socket\<close>

definition stateGotShortSocketTimeout :: "ntp_env \<Rightarrow> nat \<times> nat \<Rightarrow> ntp_driver \<Rightarrow> ntp_driver option" where
  "stateGotShortSocketTimeout en si d = do {
     isUserHost \<leftarrow> is_user_sock si d;
     if isUserHost then sendPacket en False si d
     else sendPacketToFastestPoolHostIncludingThisOne en si (snd (ensureFreshHostAvailable d))
   }"

definition sendTimeoutShort :: "ntp_env \<Rightarrow> nat \<times> nat \<Rightarrow> ntp_driver \<Rightarrow> ntp_driver option" where
  "sendTimeoutShort en si d = do {
     sk \<leftarrow> the_sock si d;
     let sk = sk\<lparr>sk_timer := NoTimer\<rparr>;
     if st_inPollingMode d then Some (put_sock si sk d)
     else do {
       ESAssert (sk_xmitTimes sk \<noteq> []);
       let x = hd (sk_xmitTimes sk);
       let sk = sk\<lparr>sk_xmitTimes := x\<lparr>longTimeoutTimer := Pending (ne_now en + ES_LONG_SOCKET_TIMEOUT)\<rparr>
                                    # tl (sk_xmitTimes sk)\<rparr>;
       stateGotShortSocketTimeout en si (put_sock si sk d)
     }
   }"

definition stateGotLongSocketTimeout :: "ntp_driver \<Rightarrow> ntp_driver" where
  "stateGotLongSocketTimeout d = d\<lparr>st_numLongTimeoutsTriggered := st_numLongTimeoutsTriggered d + 1\<rparr>"

definition sendTimeoutLong :: "ntp_driver \<Rightarrow> ntp_driver" where
  "sendTimeoutLong d = (if st_inPollingMode d then d else stateGotLongSocketTimeout d)"

section \<open>Polling\<close>

definition setPollingInterval :: "int \<Rightarrow> ntp_driver \<Rightarrow> ntp_driver" where
  "setPollingInterval secs d = d\<lparr>st_inPollingMode := secs > 0, st_pollingInterval := secs\<rparr>"

text \<open>All sockets in order.\<close>

definition all_socks :: "ntp_driver \<Rightarrow> (nat \<times> nat) list" where
  "all_socks d = concat (map (\<lambda>n. map (Pair n) [0..<length (hn_sockets (nd_hosts d ! n))]) [0..<length (nd_hosts d)])"

fun polling_loop :: "ntp_env \<Rightarrow> (nat \<times> nat) list \<Rightarrow> int \<Rightarrow> ntp_driver \<Rightarrow> (bool \<times> ntp_driver) option" where
  "polling_loop en [] currentHostIndex d = Some (False, d)"
| "polling_loop en (si # sis) currentHostIndex d =
     (let currentHostIndex = currentHostIndex + 1
      in if currentHostIndex = st_nextSendHostIndex d
         then do {
           d \<leftarrow> sendPacket en True si d;
           Some (True, d\<lparr>st_nextSendHostIndex := st_nextSendHostIndex d + 1, st_pollingCycleRunning := True\<rparr>)
         }
         else do {
           ESAssert (currentHostIndex < st_nextSendHostIndex d);
           polling_loop en sis currentHostIndex d
         })"

definition sendToNextPollingHost :: "ntp_env \<Rightarrow> ntp_driver \<Rightarrow> ntp_driver option" where
  "sendToNextPollingHost en d = do {
     ESAssert (st_inPollingMode d);
     let anyUnresolvedHosts = list_ex (\<lambda>h. hn_sockets h = []) (nd_hosts d);
     (sent, d) \<leftarrow> polling_loop en (all_socks d) (- 1) d;
     if sent then Some (d\<lparr>st_pollingHostTimer := Pending (ne_now en + POLLING_HOST_GAP)\<rparr>)
     else Some (d\<lparr>st_nextSendHostIndex := 0, st_pollingCycleRunning := False,
       st_pollingHostTimer := Pending (ne_now en +
         (if anyUnresolvedHosts then POLLING_INTERVALB else of_int (st_pollingInterval d)))\<rparr>)
   }"

section \<open>Statistics\<close>

definition lastSyncElapsedTime :: "ESTimeInterval \<Rightarrow> ntp_driver \<Rightarrow> ESTimeInterval" where
  "lastSyncElapsedTime now d =
     (if st_lastSyncStart d = 0 then st_lastSyncElapsedTime d else now - st_lastSyncStart d)"

definition avgPacketsSent :: "ntp_driver \<Rightarrow> real" where
  "avgPacketsSent d = (if st_numSyncs d = 0 then 0 else of_int (st_sumNumPacketsSent d) / of_int (st_numSyncs d))"

definition avgSyncElapsedTime :: "ntp_driver \<Rightarrow> ESTimeInterval" where
  "avgSyncElapsedTime d = (if st_numSyncs d = 0 then 0 else st_sumLastSyncElapsedTime d / of_int (st_numSyncs d))"

definition timeOfLastSyncAttempt :: "ESTimeInterval \<Rightarrow> ntp_driver \<Rightarrow> ESTimeInterval option" where
  "timeOfLastSyncAttempt now d =
     (if st_lastSyncStart d = 0 then Some (st_timeOfLastSyncAttempt d) else currentTime now (nd_es d))"

definition timeSinceLastSuccessfulSynchronization :: "ESTimeInterval \<Rightarrow> ntp_driver \<Rightarrow> ESTimeInterval" where
  "timeSinceLastSuccessfulSynchronization now d = now - nd_lastSuccessfulSyncTime d"

section \<open>Calls from other threads\<close>

text \<open>A call from another thread becomes a message to the driver's thread.\<close>

definition callInThread :: "ntp_message \<Rightarrow> ntp_driver \<Rightarrow> ntp_driver" where
  "callInThread m d = d\<lparr>nd_inbox := nd_inbox d @ [m]\<rparr>"

definition stopSyncingIfNecessary :: "ntp_driver \<Rightarrow> ntp_driver" where
  "stopSyncingIfNecessary d = (if st_lastSyncStart d \<noteq> 0 then callInThread MsgStopSyncingIfNecessary d else d)"

definition ntp_goingToSleep :: "ntp_driver \<Rightarrow> ntp_driver" where
  "ntp_goingToSleep d = (if st_lastSyncStart d \<noteq> 0 then callInThread MsgStopSyncingIfNecessary d else d)"

definition enteringBackground :: "nat \<Rightarrow> ntp_driver \<Rightarrow> ntp_driver" where
  "enteringBackground bgTaskID d = (if bgTaskID \<noteq> 0 then callInThread (MsgEnteringBackground bgTaskID) d else d)"

definition ntp_setDeviceCountryCode :: "string \<Rightarrow> ntp_driver \<Rightarrow> ntp_driver" where
  "ntp_setDeviceCountryCode countryCode d =
     (if \<not> same_nocase countryCode (nd_deviceCountryCode d)
      then let d = d\<lparr>nd_deviceCountryCode := countryCode\<rparr>
           in if length countryCode = 2 then callInThread (MsgSetDeviceCountryCode countryCode) d else d
      else d)"

definition post_restartPollingCycle :: "ntp_driver \<Rightarrow> ntp_driver option" where
  "post_restartPollingCycle d = do {
     let d = d\<lparr>st_pollingRunning := True, st_pollingCycleRunning := True\<rparr>;
     ESAssert (st_inPollingMode d);
     Some (callInThread MsgRestartPollingCycle d)
   }"

definition post_stopPollingCycle :: "ntp_driver \<Rightarrow> ntp_driver option" where
  "post_stopPollingCycle d = do {
     let d = d\<lparr>st_pollingRunning := False, st_pollingCycleRunning := False\<rparr>;
     ESAssert (st_inPollingMode d);
     Some (callInThread MsgStopPollingCycle d)
   }"

fun handle_ntp_message :: "ntp_env \<Rightarrow> ntp_message \<Rightarrow> ntp_driver \<Rightarrow> ntp_driver option" where
  "handle_ntp_message en (MsgResync u) d = resyncInThisThread en u d"
| "handle_ntp_message en MsgStopSyncing d = stopSyncingInThisThread en d"
| "handle_ntp_message en MsgStopSyncingIfNecessary d = stopSyncingIfNecessaryInThisThread en d"
| "handle_ntp_message en MsgDisableSync d = disableSyncInThisThread en d"
| "handle_ntp_message en MsgEnableSync d = enableSyncInThisThread en d"
| "handle_ntp_message en (MsgSetDeviceCountryCode cc) d = setDeviceCountryCodeInThread en cc d"
| "handle_ntp_message en (MsgEnteringBackground i) d = enteringBackgroundInThread en i d"
| "handle_ntp_message en MsgRestartPollingCycle d = restartPollingCycle en d"
| "handle_ntp_message en MsgStopPollingCycle d = stopPollingCycle d"
| "handle_ntp_message en (MsgMakeHostReport ob) d = Some (constructAndSendHostReportToObserver ob d)"

text \<open>
  An operation of the time service in another thread, and the calls it makes to the NTP driver.
\<close>

fun deliver_call :: "driver_call \<Rightarrow> ntp_driver \<Rightarrow> ntp_driver" where
  "deliver_call (CallResync userRequested) d = callInThread (MsgResync userRequested) d"
| "deliver_call CallStopSyncing d = callInThread MsgStopSyncing d"
| "deliver_call CallDisableSync d = callInThread MsgDisableSync d"
| "deliver_call CallEnableSync d = callInThread MsgEnableSync d"
| "deliver_call (CallSetDeviceCountryCode cc) d = ntp_setDeviceCountryCode cc d"

fun deliver_event :: "es_event \<Rightarrow> ntp_driver \<Rightarrow> ntp_driver" where
  "deliver_event (DriverCall i c) d = (if i = nd_index d then deliver_call c d else d)"
| "deliver_event _ d = d"

definition ntp_service :: "ntp_env \<Rightarrow> nat \<Rightarrow> es_op \<Rightarrow> ntp_driver \<Rightarrow> ntp_driver option" where
  "ntp_service en thread op d = do {
     s \<leftarrow> es_step thread (ne_now en) op (nd_es d);
     Some (fold deliver_event (drop (length (es_trace (nd_es d))) (es_trace s)) (d\<lparr>nd_es := s\<rparr>))
   }"

section \<open>The thread of the driver\<close>

datatype ntp_event = EvReaders readers | EvResolved nat "addrinfo list" bool | EvResolutionFailed nat bool
  | EvRetryResolution nat | EvSendThrottle nat nat | EvShortTimeout nat nat | EvLongTimeout nat nat nat
  | EvNoProgress | EvRestartSync | EvGiveUp | EvProximityBump | EvPollingHost
  | EvNetworkReachable | EvNetworkUnreachable | EvMessage
  | EvService nat es_op | EvNames host_names | EvGoingToSleep | EvEnteringBackground nat
  | EvRegisterReports observer | EvUnregisterReports observer
  | EvPostRestartPolling | EvPostStopPolling | EvSetPollingInterval int

definition fire_sock_timer :: "nat \<times> nat \<Rightarrow> ntp_driver \<Rightarrow> ntp_driver option" where
  "fire_sock_timer si d = do { sk \<leftarrow> the_sock si d; Some (put_sock si (sk\<lparr>sk_timer := Fired\<rparr>) d) }"

definition fire_long_timer :: "nat \<times> nat \<Rightarrow> nat \<Rightarrow> ntp_driver \<Rightarrow> ntp_driver option" where
  "fire_long_timer si k d = do {
     sk \<leftarrow> the_sock si d;
     Some (put_sock si (sk\<lparr>sk_xmitTimes := (sk_xmitTimes sk)
       [k := (sk_xmitTimes sk ! k)\<lparr>longTimeoutTimer := Fired\<rparr>]\<rparr>) d)
   }"

text \<open>One event: the observers of the timers with their tests of the polling mode.\<close>

fun ntp_step :: "ntp_env \<Rightarrow> ntp_event \<Rightarrow> ntp_driver \<Rightarrow> ntp_driver option" where
  "ntp_step en (EvReaders fds) d = processRemoteSockets en fds d"
| "ntp_step en (EvResolved n addrs reachable) d = notifyNameResolutionComplete en reachable n addrs d"
| "ntp_step en (EvResolutionFailed n reachable) d = notifyNameResolutionFailed en reachable n d"
| "ntp_step en (EvRetryResolution n) d = postResolutionFailureTimerFire n d"
| "ntp_step en (EvSendThrottle n i) d = do { d \<leftarrow> fire_sock_timer (n, i) d; sendPacket en True (n, i) d }"
| "ntp_step en (EvShortTimeout n i) d = do { d \<leftarrow> fire_sock_timer (n, i) d; sendTimeoutShort en (n, i) d }"
| "ntp_step en (EvLongTimeout n i k) d = do { d \<leftarrow> fire_long_timer (n, i) k d; Some (sendTimeoutLong d) }"
| "ntp_step en EvNoProgress d = stateGotNoProgressTimeout en (d\<lparr>nd_noProgressTimeout := Fired\<rparr>)"
| "ntp_step en EvRestartSync d =
     (let d = d\<lparr>nd_restartSyncTimeout := Fired\<rparr>
      in if st_inPollingMode d then Some d else stateGotResyncTimeout en d)"
| "ntp_step en EvGiveUp d =
     (let d = d\<lparr>nd_giveUpTimer := Fired\<rparr>
      in if st_inPollingMode d then Some d else giveUpTimerFire en d)"
| "ntp_step en EvProximityBump d = Some (bumpProximity en (d\<lparr>nd_proximityBumpTimer := Fired\<rparr>))"
| "ntp_step en EvPollingHost d = sendToNextPollingHost en (d\<lparr>st_pollingHostTimer := Fired\<rparr>)"
| "ntp_step en EvNetworkReachable d = stateGotNetworkReachable en d"
| "ntp_step en EvNetworkUnreachable d = stateGotNetworkUnreachable en False d"
| "ntp_step en EvMessage d = (case nd_inbox d of [] \<Rightarrow> Some d
     | m # ms \<Rightarrow> handle_ntp_message en m (d\<lparr>nd_inbox := ms\<rparr>))"
| "ntp_step en (EvService thread op) d = ntp_service en thread op d"
| "ntp_step en (EvNames names) d = Some (d\<lparr>nd_names := names\<rparr>)"
| "ntp_step en EvGoingToSleep d = Some (ntp_goingToSleep d)"
| "ntp_step en (EvEnteringBackground i) d = Some (enteringBackground i d)"
| "ntp_step en (EvRegisterReports ob) d = Some (registerHostReportObserver ob d)"
| "ntp_step en (EvUnregisterReports ob) d = Some (unregisterHostReportObserver ob d)"
| "ntp_step en EvPostRestartPolling d = post_restartPollingCycle d"
| "ntp_step en EvPostStopPolling d = post_stopPollingCycle d"
| "ntp_step en (EvSetPollingInterval secs) d = Some (setPollingInterval secs d)"

text \<open>A timer that is due.\<close>

definition due :: "ESTimeInterval \<Rightarrow> timer \<Rightarrow> bool" where
  "due now tm = (case tm of Pending t \<Rightarrow> t \<le> now | _ \<Rightarrow> False)"

definition sock_due :: "ESTimeInterval \<Rightarrow> sock_timer_observer \<Rightarrow> nat \<times> nat \<Rightarrow> ntp_driver \<Rightarrow> bool" where
  "sock_due now ob si d = (case the_sock si d of None \<Rightarrow> False
     | Some sk \<Rightarrow> due now (sk_timer sk) \<and> sk_timerObserver sk = ob)"

text \<open>When an event can happen.\<close>

fun ntp_enabled :: "ntp_env \<Rightarrow> ntp_event \<Rightarrow> ntp_driver \<Rightarrow> bool" where
  "ntp_enabled en (EvReaders fds) d = True"
| "ntp_enabled en (EvResolved n addrs reachable) d = (case the_host n d of None \<Rightarrow> False
     | Some h \<Rightarrow> hn_resolving h \<and> list_all (\<lambda>a. length (ai_addr a) < sockaddr_storage_size) addrs)"
| "ntp_enabled en (EvResolutionFailed n reachable) d = (case the_host n d of None \<Rightarrow> False
     | Some h \<Rightarrow> hn_resolving h)"
| "ntp_enabled en (EvRetryResolution n) d = (case the_host n d of None \<Rightarrow> False
     | Some h \<Rightarrow> due (ne_now en) (hn_failureTimer h))"
| "ntp_enabled en (EvSendThrottle n i) d = sock_due (ne_now en) SendThrottle (n, i) d"
| "ntp_enabled en (EvShortTimeout n i) d = sock_due (ne_now en) SocketShortTimeout (n, i) d"
| "ntp_enabled en (EvLongTimeout n i k) d = (case the_sock (n, i) d of None \<Rightarrow> False
     | Some sk \<Rightarrow> k < length (sk_xmitTimes sk) \<and> due (ne_now en) (longTimeoutTimer (sk_xmitTimes sk ! k)))"
| "ntp_enabled en EvNoProgress d = due (ne_now en) (nd_noProgressTimeout d)"
| "ntp_enabled en EvRestartSync d = due (ne_now en) (nd_restartSyncTimeout d)"
| "ntp_enabled en EvGiveUp d = due (ne_now en) (nd_giveUpTimer d)"
| "ntp_enabled en EvProximityBump d = due (ne_now en) (nd_proximityBumpTimer d)"
| "ntp_enabled en EvPollingHost d = due (ne_now en) (st_pollingHostTimer d)"
| "ntp_enabled en EvNetworkReachable d = nd_networkObserver d"
| "ntp_enabled en EvNetworkUnreachable d = nd_networkObserver d"
| "ntp_enabled en EvMessage d = (nd_inbox d \<noteq> [])"
| "ntp_enabled en (EvService thread op) d = (thread \<noteq> nd_thread d)"
| "ntp_enabled en _ d = True"

text \<open>The driver after its constructor.\<close>

definition new_ntp_driver :: "nat \<Rightarrow> nat \<Rightarrow> estime \<Rightarrow> host_names \<Rightarrow> string \<Rightarrow> string \<Rightarrow> int \<Rightarrow> ntp_driver" where
  "new_ntp_driver index thread s names locale cc junk =
     \<lparr>st_appSignature = 0, st_numPacketsSent = 0, st_numPacketsReceived = 0, st_numLongTimeoutsTriggered = 0,
      st_lastSyncStart = 0, st_lastSyncElapsedTime = 0, st_sumNumPacketsSent = 0,
      st_sumLastSyncElapsedTime = 0, st_numSyncs = 0, st_timeOfLastSuccessfulSync = 0,
      st_timeOfLastSyncAttempt = 0, st_inPollingMode = False, st_nextSendHostIndex = 0,
      st_pollingCycleRunning = False, st_pollingRunning = False, st_pollingInterval = 0,
      st_pollingHostTimer = NoTimer, st_recursing = False,
      nd_index = index, nd_thread = thread, nd_es = s, nd_names = names, nd_maxSocketFD = - 1,
      nd_maxMinOffset = 0, nd_minMaxOffset = 0, nd_stopReading = False, nd_reading = False,
      nd_networkReachable = True, nd_networkObserver = False, nd_lastSuccessfulSyncTime = 0,
      nd_poolHostLookupFailures = 0, nd_currentProximity = 0, nd_throttleLastTicketTime = 0,
      nd_throttleSendInterval = 0, nd_lastFailTimeout = 0, nd_noProgressTimeout = NoTimer,
      nd_restartSyncTimeout = NoTimer, nd_giveUpTimer = NoTimer, nd_proximityBumpTimer = NoTimer,
      nd_disabled = False, nd_deviceCountryCode = cc, nd_hostNameIterator = new_iterator locale cc junk,
      nd_hosts = [], nd_available = [], nd_inbox = [], nd_reportObservers = [], nd_wire = [],
      nd_reports = [], nd_attempts = 0, nd_activity = 0, nd_finishedBackgroundTasks = []\<rparr>"

end
