(* ===== verification/EsNtpSends.thy ===== *)
theory EsNtpSends
  imports EsNtpDriver
begin

text \<open>
  What sending packets keeps true: \<open>sends_ok\<close>, by induction over the recursion of
  \<open>sendPacket\<close>, \<open>stateGotBadPacket\<close> and \<open>sendPacketToFastestPoolHost\<close>.
\<close>

declare sendPacket.simps [simp del] stateGotBadPacket.simps [simp del] sendPacketToFastestPoolHost.simps [simp del]

section \<open>Shape\<close>

text \<open>Which host names are the user's and how many sockets each has.\<close>

definition shape :: "ntp_driver \<Rightarrow> (bool \<times> nat) list" where
  "shape d = map (\<lambda>h. (hn_isUserHost h, length (hn_sockets h))) (nd_hosts d)"

definition has_sock :: "nat \<times> nat \<Rightarrow> (bool \<times> nat) list \<Rightarrow> bool" where
  "has_sock si sh \<longleftrightarrow> fst si < length sh \<and> snd si < snd (sh ! fst si)"

definition pool_sock :: "nat \<times> nat \<Rightarrow> (bool \<times> nat) list \<Rightarrow> bool" where
  "pool_sock si sh \<longleftrightarrow> has_sock si sh \<and> \<not> fst (sh ! fst si)"

lemma pool_sock_has: "pool_sock si sh \<Longrightarrow> has_sock si sh"
  by (simp add: pool_sock_def)

lemma the_sock_Some:
  "has_sock si (shape d) \<Longrightarrow> the_sock si d = Some (hn_sockets (nd_hosts d ! fst si) ! snd si)"
  by (auto simp: has_sock_def shape_def the_sock_def the_host_def)

lemma the_sock_has: "the_sock si d = Some sk \<Longrightarrow> has_sock si (shape d)"
  by (auto simp: has_sock_def shape_def the_sock_def the_host_def split: if_splits)

lemma is_user_Some:
  "has_sock si (shape d) \<Longrightarrow> is_user_sock si d = Some (fst (shape d ! fst si))"
  by (auto simp: has_sock_def shape_def is_user_sock_def the_host_def)

lemma shape_put_host:
  "\<lbrakk>n < length (nd_hosts d) \<Longrightarrow> hn_isUserHost h = hn_isUserHost (nd_hosts d ! n) \<and>
      length (hn_sockets h) = length (hn_sockets (nd_hosts d ! n))\<rbrakk> \<Longrightarrow> shape (put_host n h d) = shape d"
  by (cases "n < length (nd_hosts d)") (simp_all add: shape_def put_host_def map_update list_update_same_conv not_less list_update_beyond)

lemma shape_put_sock [simp]: "shape (put_sock si sk d) = shape d"
  by (simp add: put_sock_def Let_def shape_put_host)

lemma the_sock_put: "has_sock si (shape d) \<Longrightarrow> the_sock si (put_sock si sk d) = Some sk"
  by (auto simp: has_sock_def shape_def the_sock_def the_host_def put_sock_def put_host_def Let_def)

section \<open>What sending keeps\<close>

definition sock_ok :: "sock \<Rightarrow> bool" where
  "sock_ok sk \<longleftrightarrow> (sk_timer sk \<noteq> NoTimer \<and> sk_timerObserver sk = SocketShortTimeout \<longrightarrow> sk_xmitTimes sk \<noteq> [])"

definition host_ok :: "host \<Rightarrow> bool" where
  "host_ok h \<longleftrightarrow> (hn_sockets h \<noteq> [] \<longrightarrow> \<not> hn_resolving h \<and> hn_doneResolving h \<and> hn_failureTimer h = NoTimer) \<and>
     (hn_failureTimer h \<noteq> NoTimer \<longrightarrow> \<not> hn_resolving h \<and> hn_doneResolving h) \<and>
     0 \<le> hn_numResolutionFailures h \<and> (\<forall>sk\<in>set (hn_sockets h). sock_ok sk)"

definition throttle_ok :: "ntp_driver \<Rightarrow> bool" where
  "throttle_ok d \<longleftrightarrow> 0 \<le> nd_throttleSendInterval d \<and> nd_throttleSendInterval d \<le> ES_THROTTLE_INTERVAL_MAX \<and>
     (st_numPacketsReceived d < ES_THROTTLE_BASE_PACKETS \<longrightarrow> nd_throttleSendInterval d = 0)"

definition inner_inv :: "ntp_driver \<Rightarrow> bool" where
  "inner_inv d \<longleftrightarrow> (\<forall>h\<in>set (nd_hosts d). host_ok h) \<and> (\<forall>si\<in>set (nd_available d). pool_sock si (shape d)) \<and>
     throttle_ok d"

text \<open>What sending leaves alone.\<close>

definition outer where
  "outer d = (nd_es d, (nd_index d, nd_thread d, st_lastSyncStart d, nd_reading d, nd_stopReading d),
     (st_inPollingMode d, shape d, st_numPacketsReceived d, nd_maxMinOffset d, nd_minMaxOffset d),
     (nd_activity d, nd_giveUpTimer d, nd_restartSyncTimeout d, nd_proximityBumpTimer d, nd_noProgressTimeout d),
     (nd_lastFailTimeout d, nd_hostNameIterator d, nd_names d, nd_networkReachable d, nd_networkObserver d),
     (nd_disabled d, nd_inbox d, st_pollingHostTimer d, st_nextSendHostIndex d, nd_currentProximity d))"

definition sent_ok :: "ntp_driver \<Rightarrow> ntp_driver option \<Rightarrow> bool" where
  "sent_ok d r \<longleftrightarrow> (\<exists>d'. r = Some d' \<and> inner_inv d' \<and> outer d' = outer d)"

lemma the_sock_ok:
  assumes "inner_inv d" "the_sock si d = Some sk"
  shows "sock_ok sk"
proof -
  have "fst si < length (nd_hosts d)" "sk \<in> set (hn_sockets (nd_hosts d ! fst si))"
    using assms(2) by (auto simp: the_sock_def the_host_def split: if_splits)
  then show ?thesis using assms(1) by (auto simp: inner_inv_def host_ok_def)
qed

lemma put_sock_inv:
  assumes "inner_inv d" "sock_ok sk"
  shows "inner_inv (put_sock si sk d)"
proof (cases "fst si < length (nd_hosts d)")
  case True
  let ?h = "nd_hosts d ! fst si"
  have "host_ok ?h" using assms(1) True by (simp add: inner_inv_def)
  moreover have "set ((hn_sockets ?h)[snd si := sk]) \<subseteq> insert sk (set (hn_sockets ?h))"
    by (rule set_update_subset_insert)
  ultimately have "host_ok (?h\<lparr>hn_sockets := (hn_sockets ?h)[snd si := sk]\<rparr>)"
    using assms(2) by (auto simp: host_ok_def)
  then have "\<forall>h\<in>set (nd_hosts (put_sock si sk d)). host_ok h"
    using assms(1) set_update_subset_insert[of "nd_hosts d" "fst si"]
    by (fastforce simp: put_sock_def put_host_def Let_def inner_inv_def)
  then show ?thesis
    using assms(1) by (simp add: inner_inv_def throttle_ok_def) (simp add: put_sock_def put_host_def Let_def)
next
  case False
  then have "put_sock si sk d = d" by (simp add: put_sock_def put_host_def Let_def not_less list_update_beyond)
  then show ?thesis using assms(1) by simp
qed

lemma put_sock_outer [simp]: "outer (put_sock si sk d) = outer d"
  by (simp add: outer_def) (simp add: put_sock_def put_host_def Let_def)

lemma put_sock_fields [simp]:
  "st_inPollingMode (put_sock si sk d) = st_inPollingMode d" "nd_attempts (put_sock si sk d) = nd_attempts d"
  "st_numPacketsReceived (put_sock si sk d) = st_numPacketsReceived d"
  by (simp_all add: put_sock_def put_host_def Let_def)

lemma inner_inv_frame [simp]:
  "inner_inv (d\<lparr>nd_attempts := a\<rparr>) = inner_inv d" "inner_inv (d\<lparr>nd_wire := w\<rparr>) = inner_inv d"
  "inner_inv (d\<lparr>st_numPacketsSent := k\<rparr>) = inner_inv d" "inner_inv (d\<lparr>st_recursing := r\<rparr>) = inner_inv d"
  "inner_inv (d\<lparr>nd_maxSocketFD := m\<rparr>) = inner_inv d"
  by (simp_all add: inner_inv_def shape_def throttle_ok_def)

lemma outer_frame [simp]:
  "outer (d\<lparr>nd_attempts := a\<rparr>) = outer d" "outer (d\<lparr>nd_wire := w\<rparr>) = outer d"
  "outer (d\<lparr>st_numPacketsSent := k\<rparr>) = outer d" "outer (d\<lparr>st_recursing := r\<rparr>) = outer d"
  "outer (d\<lparr>nd_maxSocketFD := m\<rparr>) = outer d" "outer (d\<lparr>nd_available := av\<rparr>) = outer d"
  "outer (d\<lparr>nd_throttleSendInterval := i, nd_throttleLastTicketTime := t\<rparr>) = outer d"
  by (simp_all add: outer_def shape_def)

lemma shape_frame [simp]:
  "shape (d\<lparr>nd_attempts := a\<rparr>) = shape d" "shape (d\<lparr>nd_wire := w\<rparr>) = shape d"
  "shape (d\<lparr>st_numPacketsSent := k\<rparr>) = shape d" "shape (d\<lparr>st_recursing := r\<rparr>) = shape d"
  "shape (d\<lparr>nd_maxSocketFD := m\<rparr>) = shape d" "shape (d\<lparr>nd_available := av\<rparr>) = shape d"
  "shape (d\<lparr>nd_throttleSendInterval := i, nd_throttleLastTicketTime := t\<rparr>) = shape d"
  by (simp_all add: shape_def)

lemma outer_shape: "outer d' = outer d \<Longrightarrow> shape d' = shape d"
  by (simp add: outer_def)

lemma throttle_total:
  assumes "throttle_ok d"
  obtains t i where
    "getThrottleTicket now d = Some (t, d\<lparr>nd_throttleSendInterval := i, nd_throttleLastTicketTime := t\<rparr>)"
    "throttle_ok (d\<lparr>nd_throttleSendInterval := i, nd_throttleLastTicketTime := t\<rparr>)"
proof (cases "st_numPacketsReceived d < ES_THROTTLE_BASE_PACKETS")
  case True
  then show thesis using assms that[of now 0]
    by (simp add: getThrottleTicket_def throttle_ok_def ES_THROTTLE_INTERVAL_MAX_def)
next
  case False
  define i where "i = (if st_numPacketsReceived d = ES_THROTTLE_BASE_PACKETS then ES_THROTTLE_BASE_INTERVAL
      else if nd_throttleSendInterval d * ES_THROTTLE_INTERVAL_MULTIPLIER > ES_THROTTLE_INTERVAL_MAX
      then ES_THROTTLE_INTERVAL_MAX else nd_throttleSendInterval d * ES_THROTTLE_INTERVAL_MULTIPLIER)"
  have "0 \<le> i" "i \<le> ES_THROTTLE_INTERVAL_MAX"
    using assms by (simp_all add: i_def throttle_ok_def ES_THROTTLE_INTERVAL_MAX_def
        ES_THROTTLE_BASE_INTERVAL_def ES_THROTTLE_INTERVAL_MULTIPLIER_def)
  then show thesis using False that[of "nd_throttleLastTicketTime d + i" i]
    by (simp add: getThrottleTicket_def throttle_ok_def Let_def i_def)
qed

lemma throttle_inner:
  assumes "inner_inv d"
  obtains t d' where "getThrottleTicket now d = Some (t, d')" "inner_inv d'" "outer d' = outer d"
proof -
  have "throttle_ok d" using assms by (simp add: inner_inv_def)
  then obtain t i where t:
    "getThrottleTicket now d = Some (t, d\<lparr>nd_throttleSendInterval := i, nd_throttleLastTicketTime := t\<rparr>)"
    "throttle_ok (d\<lparr>nd_throttleSendInterval := i, nd_throttleLastTicketTime := t\<rparr>)"
    by (rule throttle_total)
  then have "inner_inv (d\<lparr>nd_throttleSendInterval := i, nd_throttleLastTicketTime := t\<rparr>)"
    using assms by (simp add: inner_inv_def)
  then show ?thesis using that t(1) by simp
qed

definition attempt_ok :: "ntp_driver \<Rightarrow> (bool \<times> ntp_driver) option \<Rightarrow> bool" where
  "attempt_ok d r \<longleftrightarrow> (\<exists>f d'. r = Some (f, d') \<and> inner_inv d' \<and> outer d' = outer d)"

lemma attempt_ok_Some [simp]:
  "attempt_ok d (Some (f, d')) \<longleftrightarrow> inner_inv d' \<and> outer d' = outer d"
  by (simp add: attempt_ok_def)

lemma send_now_ok:
  assumes "inner_inv d" "has_sock si (shape d)"
  shows "attempt_ok d (send_now en si d)"
  using assms
  by (auto simp: attempt_ok_def send_now_def the_sock_Some Let_def sock_ok_def intro!: put_sock_inv
      split: prod.split)

lemma send_connected_ok:
  assumes "inner_inv d" "has_sock si (shape d)"
  shows "attempt_ok d (send_connected en ht si d)"
proof -
  define sk where "sk = (hn_sockets (nd_hosts d ! fst si) ! snd si)\<lparr>sk_timer := NoTimer\<rparr>"
  define d1 where "d1 = put_sock si sk d"
  have sk: "sock_ok sk" by (simp add: sk_def sock_ok_def)
  have d1: "inner_inv d1" "outer d1 = outer d" "has_sock si (shape d1)"
    using put_sock_inv[OF assms(1) sk] assms(2) by (simp_all add: d1_def)
  obtain t d2 where d2: "getThrottleTicket (ne_now en) d1 = Some (t, d2)" "inner_inv d2" "outer d2 = outer d1"
    using throttle_inner[OF d1(1)] by blast
  have "sock_ok (sk\<lparr>sk_timer := Pending x, sk_timerObserver := SendThrottle\<rparr>)" for x
    by (simp add: sock_ok_def)
  then have p: "inner_inv (put_sock si (sk\<lparr>sk_timer := Pending x, sk_timerObserver := SendThrottle\<rparr>) d2)" for x
    by (rule put_sock_inv[OF d2(2)])
  have n: "attempt_ok d (send_now en si d1)" "attempt_ok d (send_now en si d2)"
    using send_now_ok[OF d1(1,3), of en] send_now_ok[OF d2(2), of si en] outer_shape[OF d2(3)] d1(2,3) d2(3)
    by (simp_all add: attempt_ok_def)
  show ?thesis
    using assms(2) n p d2(1,3) d1(2)
    by (simp add: send_connected_def the_sock_Some is_user_Some Let_def sk_def[symmetric] d1_def[symmetric])
qed

lemma send_attempt_ok:
  assumes "inner_inv d" "has_sock si (shape d)"
  shows "attempt_ok d (send_attempt en ht si d)"
proof -
  define sk where "sk = hn_sockets (nd_hosts d ! fst si) ! snd si"
  have s: "the_sock si d = Some sk" using the_sock_Some[OF assms(2)] by (simp add: sk_def)
  then have ok: "sock_ok sk" by (rule the_sock_ok[OF assms(1)])
  then have sf: "sock_ok (sk\<lparr>sk_fd := fd\<rparr>)" "sock_ok (sk\<lparr>sk_fd := fd, sk_averageRTT := r, sk_lastSendFailureTime := t\<rparr>)" for fd r t
    by (simp_all add: sock_ok_def)
  define da where "da = d\<lparr>nd_attempts := Suc (nd_attempts d)\<rparr>"
  have da: "inner_inv da" "outer da = outer d" using assms(1) by (simp_all add: da_def)
  have f: "attempt_ok d (Some (True, put_sock si (sk\<lparr>sk_fd := fd, sk_averageRTT := r, sk_lastSendFailureTime := t\<rparr>) da))"
    for fd r t
    using put_sock_inv[OF da(1) sf(2)] da(2) by simp
  have "attempt_ok d (send_connected en False si (checkMaxSocketFD fd (put_sock si (sk\<lparr>sk_fd := fd\<rparr>) da)))" for fd
  proof -
    let ?d = "checkMaxSocketFD fd (put_sock si (sk\<lparr>sk_fd := fd\<rparr>) da)"
    have "inner_inv ?d" "outer ?d = outer d"
      using put_sock_inv[OF da(1) sf(1)] da(2) by (simp_all add: checkMaxSocketFD_def)
    then show ?thesis
      using send_connected_ok[of ?d si en False] outer_shape[of ?d d] assms(2) by (simp add: attempt_ok_def)
  qed
  then have "attempt_ok d (connectAndSendFirstPacket en si d)" if "sk_fd sk < 0"
    using that f assms(1) by (simp add: connectAndSendFirstPacket_def s Let_def da_def[symmetric])
  then show ?thesis using send_connected_ok[OF assms] by (simp add: send_attempt_def s)
qed

lemma resolve_loop_sound:
  "resolve_loop cp hs k = Some n \<Longrightarrow> k \<le> n \<and> n < k + length hs \<and>
    \<not> hn_resolving (hs ! (n - k)) \<and> \<not> hn_doneResolving (hs ! (n - k))"
  by (induction cp hs k rule: resolve_loop.induct) (fastforce simp: nth_Cons' split: if_splits)+

lemma put_host_inner:
  assumes "inner_inv d" "host_ok h" "shape (put_host n h d) = shape d"
  shows "inner_inv (put_host n h d)"
proof -
  have "\<forall>h'\<in>set (nd_hosts (put_host n h d)). host_ok h'"
    using assms(1,2) set_update_subset_insert[of "nd_hosts d" n h]
    by (auto simp: put_host_def inner_inv_def)
  then show ?thesis
    using assms(1,3) by (simp add: inner_inv_def throttle_ok_def) (simp add: put_host_def)
qed

lemma put_host_outer: "shape (put_host n h d) = shape d \<Longrightarrow> outer (put_host n h d) = outer d"
  by (simp add: outer_def) (simp add: put_host_def)

lemma resolveOne_ok:
  assumes "inner_inv d"
  shows "inner_inv (snd (resolveOnePoolHostDNS d))" "outer (snd (resolveOnePoolHostDNS d)) = outer d"
proof -
  have *: "inner_inv (startResolving n d) \<and> outer (startResolving n d) = outer d"
    if "resolve_loop (nd_currentProximity d) (nd_hosts d) 0 = Some n" for n
  proof -
    define h where "h = nd_hosts d ! n"
    have n: "n < length (nd_hosts d)" "\<not> hn_resolving h" "\<not> hn_doneResolving h"
      using resolve_loop_sound[OF that] by (simp_all add: h_def)
    then have "host_ok h" using assms by (simp add: inner_inv_def h_def)
    then have h: "host_ok (h\<lparr>hn_resolving := True\<rparr>)" using n by (auto simp: host_ok_def)
    have "shape (put_host n (h\<lparr>hn_resolving := True\<rparr>) d) = shape d" by (simp add: shape_put_host h_def)
    then show ?thesis
      using put_host_inner[OF assms h] put_host_outer n by (simp add: startResolving_def the_host_def h_def)
  qed
  show "inner_inv (snd (resolveOnePoolHostDNS d))" "outer (snd (resolveOnePoolHostDNS d)) = outer d"
    using * assms by (auto simp: resolveOnePoolHostDNS_def split: option.split)
qed

lemma sent_ok_Some [simp]: "sent_ok d (Some d') \<longleftrightarrow> inner_inv d' \<and> outer d' = outer d"
  by (simp add: sent_ok_def)

lemma sent_ok_bind:
  assumes "sent_ok d r" "\<And>d'. inner_inv d' \<Longrightarrow> outer d' = outer d \<Longrightarrow> sent_ok d (f d')"
  shows "sent_ok d (r \<bind> f)"
  using assms by (auto simp: sent_ok_def)

lemma sent_ok_trans: "outer d1 = outer d \<Longrightarrow> sent_ok d1 r \<Longrightarrow> sent_ok d r"
  by (simp add: sent_ok_def)

lemma push_ok:
  assumes "inner_inv d" "pool_sock si (shape d)"
  shows "inner_inv (pushPoolSocket si d)" "outer (pushPoolSocket si d) = outer d"
  using assms by (auto simp: pushPoolSocket_def inner_inv_def throttle_ok_def)

lemma pop_ok:
  assumes "inner_inv d" "available_top d = Some t"
  shows "inner_inv (available_pop d)" "outer (available_pop d) = outer d" "pool_sock t (shape d)"
  using assms available_top_in[OF assms(2)]
  by (auto simp: available_pop_def inner_inv_def throttle_ok_def dest: in_set_remove1[THEN iffD1] notin_set_remove1)

lemma sends_ok:
  "inner_inv d \<Longrightarrow> has_sock si (shape d) \<Longrightarrow> sent_ok d (sendPacket en ht si d)"
  "inner_inv d \<Longrightarrow> has_sock si (shape d) \<Longrightarrow> sent_ok d (stateGotBadPacket en si d)"
  "inner_inv d \<Longrightarrow> sent_ok d (sendPacketToFastestPoolHost en d)"
proof (induction en ht si d and en si d and en d
    rule: sendPacket_stateGotBadPacket_sendPacketToFastestPoolHost.induct)
  case (1 en ht si d)
  obtain f d' where a: "send_attempt en ht si d = Some (f, d')" "inner_inv d'" "outer d' = outer d"
    using send_attempt_ok[OF 1(2,3), of en ht] by (auto simp: attempt_ok_def)
  then show ?case
    using 1(1)[OF a(1)] 1(3) outer_shape[OF a(3)] sent_ok_trans[OF a(3)]
    by (cases f) (simp_all add: sendPacket.simps)
next
  case (2 en si d)
  let ?d = "d\<lparr>st_recursing := True\<rparr>"
  have d: "inner_inv ?d" "outer ?d = outer d" "has_sock si (shape ?d)" using 2(4,5) by simp_all
  show ?case
  proof (cases "st_recursing d")
    case True
    then show ?thesis using 2(1) 2(4) by (simp add: stateGotBadPacket.simps)
  next
    case False
    note ih = 2(2,3)
    show ?thesis
    proof (cases "fst (shape d ! fst si)")
      case True
      then have "sent_ok ?d (sendPacket en False si ?d)"
        using ih(1)[OF False is_user_Some[OF 2(5)]] d by simp
      then show ?thesis using False True is_user_Some[OF 2(5)] d(2)
        by (auto simp: sent_ok_def stateGotBadPacket.simps)
    next
      case pool: False
      then have p: "pool_sock si (shape ?d)" using 2(5) by (simp add: pool_sock_def)
      have "sent_ok d (sendPacketToFastestPoolHost en (pushPoolSocket si ?d))" if "\<not> st_inPollingMode d"
        using ih(2)[OF False is_user_Some[OF 2(5)] _ that] pool push_ok[OF d(1) p] d(2)
          sent_ok_trans[of "pushPoolSocket si ?d" d] by simp
      then show ?thesis
        using False pool is_user_Some[OF 2(5)] d(2) push_ok[OF d(1) p]
        by (auto simp: sent_ok_def stateGotBadPacket.simps)
    qed
  qed
next
  case (3 en d)
  show ?case
  proof (cases "available_top d")
    case None
    then show ?thesis using resolveOne_ok[OF 3(2)] by (simp add: sendPacketToFastestPoolHost.simps)
  next
    case (Some t)
    note pop = pop_ok[OF 3(2) Some]
    have "has_sock t (shape (available_pop d))"
      using outer_shape[OF pop(2)] pool_sock_has pop(3) by simp
    then have "sent_ok d (sendPacket en False t (available_pop d))"
      if "\<not> (averageRTT d t \<ge> ES_FORCE_RTT_FOR_BAD_HOST \<and> fst (resolveOnePoolHostDNS d))"
      using 3(1)[OF Some that pop(1)] sent_ok_trans[OF pop(2)] by simp
    then show ?thesis using Some resolveOne_ok[OF 3(2)] by (simp add: sendPacketToFastestPoolHost.simps)
  qed
qed

lemma including_ok:
  assumes "inner_inv d" "pool_sock si (shape d)"
  shows "sent_ok d (sendPacketToFastestPoolHostIncludingThisOne en si d)"
proof (cases "available_top d")
  case (Some t)
  note pop = pop_ok[OF assms(1) Some]
  have p: "pool_sock si (shape (available_pop d))" using outer_shape[OF pop(2)] assms(2) by simp
  note push = push_ok[OF pop(1) p]
  have "outer (pushPoolSocket si (available_pop d)) = outer d" using push(2) pop(2) by simp
  then have "sent_ok d (sendPacket en False t (pushPoolSocket si (available_pop d)))"
    using sends_ok(1)[OF push(1), of t en False] pool_sock_has[OF pop(3)] outer_shape sent_ok_trans by metis
  then show ?thesis
    using Some sends_ok(1)[OF assms(1) pool_sock_has[OF assms(2)]]
    by (simp add: sendPacketToFastestPoolHostIncludingThisOne_def)
qed (use sends_ok(1)[OF assms(1) pool_sock_has[OF assms(2)]] in
    \<open>simp add: sendPacketToFastestPoolHostIncludingThisOne_def\<close>)

lemma reportable_ok:
  assumes "inner_inv d" "has_sock si (shape d)"
  shows "sent_ok d (stateGotPacketWithReportableSync en si d)"
  using assms including_ok[of d si en] sends_ok(1)[OF assms]
  by (simp add: stateGotPacketWithReportableSync_def is_user_Some pool_sock_def)

end
