(* ===== verification/EsNtpDriverLaws.thy ===== *)
theory EsNtpDriverLaws
  imports EsNtpSends
begin

text \<open>
  The invariant of the NTP driver over all its events, together with that of the time service:
  no event fails an assertion but for named cases.
\<close>

section \<open>The driver in the time service\<close>

definition es_ok :: "ntp_driver \<Rightarrow> bool" where
  "es_ok d \<longleftrightarrow> es_inv (nd_es d) \<and> nd_index d < driver_count (nd_es d) \<and>
     map_option drv_kind (the_driver (nd_index d) (nd_es d)) = Some NTPDriver"

definition env_ok :: "ntp_env \<Rightarrow> bool" where
  "env_ok en \<longleftrightarrow> plausible_now (ne_now en) \<and> ne_now en \<noteq> 0"

abbreviation own_driver :: "ntp_driver \<Rightarrow> ESTimeSourceDriver option" where
  "own_driver d \<equiv> the_driver (nd_index d) (nd_es d)"

lemma own_driver_Some:
  assumes "es_ok d"
  obtains dr where "own_driver d = Some dr" "plausible_driver dr"
  using the_driver_inv assms unfolding es_ok_def by blast

lemma the_driver_put:
  "the_driver i s = Some d \<Longrightarrow> the_driver i (put_driver i d' s) = Some d'"
  by (auto simp: the_driver_def put_driver_def split: option.splits if_splits)

lemma the_driver_same: "same_frame s s' \<Longrightarrow> the_driver i s' = the_driver i s"
  by (simp add: same_frame_def the_driver_def)

lemma put_driver_best:
  "es_inv s \<Longrightarrow> \<exists>ds b. es_drivers (put_driver i d s) = Some ds \<and> es_bestDriver (put_driver i d s) = Some b"
  by (auto simp: put_driver_def elim!: es_invE)

lemma ntp_setStatus_total:
  assumes "es_ok d" "env_ok en" "own_driver d = Some dr"
  shows "\<exists>s. ntp_setStatus en st d = Some (d\<lparr>nd_es := s\<rparr>) \<and> es_ok (d\<lparr>nd_es := s\<rparr>) \<and>
    the_driver (nd_index d) s = Some (dr\<lparr>drv_status := st\<rparr>)"
proof -
  let ?i = "nd_index d" and ?s = "nd_es d"
  have i: "es_inv ?s" "?i < driver_count ?s" "plausible_now (ne_now en)" "drv_kind dr = NTPDriver"
    using assms(1-3) by (simp_all add: es_ok_def env_ok_def)
  have same: "\<exists>s'. syncStatusChangedByDriver (nd_thread d) (ne_now en) ?i s2 = Some s' \<and> es_inv s' \<and> same_frame s2 s'"
    if "es_inv s2" for s2
    using statusChangedBy_total[OF that i(3)] that by (metis es_invE)
  have "plausible_driver dr" using the_driver_inv[OF i(1,2)] assms(3) by auto
  then have "es_inv (put_driver ?i (dr\<lparr>drv_status := st\<rparr>) ?s)"
    using put_driver_inv i(1) by (simp add: plausible_driver_def)
  then obtain s' where s': "syncStatusChangedByDriver (nd_thread d) (ne_now en) ?i
      (put_driver ?i (dr\<lparr>drv_status := st\<rparr>) ?s) = Some s'" "es_inv s'"
      "same_frame (put_driver ?i (dr\<lparr>drv_status := st\<rparr>) ?s) s'"
    using same by blast
  show ?thesis
  proof (cases "st = drv_status dr")
    case True
    then show ?thesis using assms i
      by (intro exI[of _ ?s]) (simp add: ntp_setStatus_def setStatus_def es_ok_def)
  next
    case False
    then show ?thesis
      using s' assms(3) i same_frame_count[OF s'(3)] the_driver_same[OF s'(3)]
      by (intro exI[of _ s']) (simp add: ntp_setStatus_def setStatus_def es_ok_def the_driver_put)
  qed
qed

lemma ntp_setContSkew_total:
  assumes "es_ok d" "env_ok en" "own_driver d = Some dr" "\<bar>skew\<bar> < ESFarFarInTheFuture / 2"
  shows "\<exists>s. ntp_setContSkew en skew err d = Some (d\<lparr>nd_es := s\<rparr>) \<and> es_ok (d\<lparr>nd_es := s\<rparr>) \<and>
    the_driver (nd_index d) s = Some (dr\<lparr>drv_contSkew := skew, drv_currentTimeError := err\<rparr>)"
proof -
  let ?i = "nd_index d" and ?s = "nd_es d"
  have i: "es_inv ?s" "?i < driver_count ?s" "plausible_now (ne_now en)" "drv_kind dr = NTPDriver"
    using assms(1-3) by (simp_all add: es_ok_def env_ok_def)
  show ?thesis
  proof (cases "(skew, err) = (drv_contSkew dr, drv_currentTimeError dr)")
    case True
    then show ?thesis using assms i
      by (intro exI[of _ ?s]) (simp add: ntp_setContSkew_def setContSkew_def es_ok_def)
  next
    case False
    obtain ds old where s: "es_bestDriver ?s = Some old" "es_drivers ?s = Some ds"
      using i(1) by (rule es_invE)
    obtain s' b where s': "setContSkew (nd_thread d) (ne_now en) ?i skew err ?s = Some s'"
        "es_drivers s' = Some (ds[?i := dr\<lparr>drv_contSkew := skew, drv_currentTimeError := err\<rparr>])"
      using setContSkew_effect[OF i(1,3) assms(4,3) False s] by blast
    moreover have "es_inv s' \<and> driver_count s' = driver_count ?s"
      using setContSkew_ok[OF i(1,3,2) assms(4), of "nd_thread d" err] s'(1) by (auto simp: op_ok_def)
    ultimately show ?thesis
      using i(2,4) s(2) by (intro exI[of _ s'])
        (simp add: ntp_setContSkew_def es_ok_def the_driver_def driver_count_def)
  qed
qed

lemma ntp_workingSyncValue_eq:
  "\<exists>s. ntp_workingSyncValue v a d = d\<lparr>nd_es := s\<rparr> \<and> (es_ok d \<longrightarrow> es_ok (d\<lparr>nd_es := s\<rparr>)) \<and>
    the_driver (nd_index d) s = own_driver d"
  by (auto simp: ntp_workingSyncValue_def workingSyncValue_def call_observers_trace es_ok_def the_driver_def)

lemma makeHostReport_eq: "\<exists>r. makeHostReportIfRequired d = d\<lparr>nd_reports := r\<rparr>"
proof -
  have "\<exists>r. fold constructAndSendHostReportToObserver obs d = d\<lparr>nd_reports := r\<rparr>" for obs
  proof (induction obs arbitrary: d)
    case (Cons ob obs)
    show ?case
      using Cons[of "constructAndSendHostReportToObserver ob d"]
      by (auto simp: constructAndSendHostReportToObserver_def)
  next
    case (Nil d)
    show ?case by (rule exI[of _ "nd_reports d"], cases d) simp
  qed
  then show ?thesis by (simp add: makeHostReportIfRequired_def)
qed

section \<open>The invariant\<close>

definition names_ok :: "host_names \<Rightarrow> bool" where
  "names_ok n \<longleftrightarrow> usePool n \<or> userServerNames n \<noteq> None"

text \<open>While no synchronisation runs there are no hosts, no timers but the one to restart, no activity.\<close>

definition idle_ok :: "ntp_driver \<Rightarrow> bool" where
  "idle_ok d \<longleftrightarrow> (st_lastSyncStart d = 0 \<longrightarrow> nd_hosts d = [] \<and> nd_activity d = 0 \<and> nd_giveUpTimer d = NoTimer \<and>
       nd_proximityBumpTimer d = NoTimer \<and> nd_noProgressTimeout d = NoTimer \<and>
       it_hostIndex (nd_hostNameIterator d) = - 1 \<and> it_userIterator (nd_hostNameIterator d) = None) \<and>
     (st_lastSyncStart d \<noteq> 0 \<longrightarrow> nd_activity d = 1)"

definition polling_ok :: "ntp_driver \<Rightarrow> bool" where
  "polling_ok d \<longleftrightarrow> (\<not> st_inPollingMode d \<longrightarrow> st_pollingHostTimer d = NoTimer \<and>
       MsgRestartPollingCycle \<notin> set (nd_inbox d) \<and> MsgStopPollingCycle \<notin> set (nd_inbox d)) \<and>
     0 \<le> st_nextSendHostIndex d"

definition bounds_ok :: "ntp_driver \<Rightarrow> bool" where
  "bounds_ok d \<longleftrightarrow> \<bar>nd_maxMinOffset d\<bar> \<le> 2 ^ 33 \<and> \<bar>nd_minMaxOffset d\<bar> \<le> 2 ^ 33"

definition base_inv :: "ntp_driver \<Rightarrow> bool" where
  "base_inv d \<longleftrightarrow> inner_inv d \<and> es_ok d \<and> farm_ok (it_farm (nd_hostNameIterator d)) \<and> names_ok (nd_names d) \<and>
     idle_ok d \<and> polling_ok d \<and> bounds_ok d \<and> (nd_stopReading d \<longrightarrow> st_lastSyncStart d \<noteq> 0)"

definition fail_ok :: "ntp_driver \<Rightarrow> bool" where
  "fail_ok d \<longleftrightarrow> (st_lastSyncStart d \<noteq> 0 \<longrightarrow> nd_lastFailTimeout d = 0 \<and>
     (\<not> st_inPollingMode d \<longrightarrow> nd_giveUpTimer d = Pending (st_lastSyncStart d + ES_GIVE_UP_INTERVAL)))"

lemma inner_inv_cong:
  "nd_hosts d' = nd_hosts d \<Longrightarrow> nd_available d' = nd_available d \<Longrightarrow>
    nd_throttleSendInterval d' = nd_throttleSendInterval d \<Longrightarrow>
    st_numPacketsReceived d' = st_numPacketsReceived d \<Longrightarrow> inner_inv d' = inner_inv d"
  by (simp add: inner_inv_def shape_def throttle_ok_def)

lemma shape_Nil [simp]: "shape d = [] \<longleftrightarrow> nd_hosts d = []"
  by (simp add: shape_def)

lemma outer_hosts: "outer d' = outer d \<Longrightarrow> nd_hosts d' = [] \<longleftrightarrow> nd_hosts d = []"
  using outer_shape shape_Nil by metis

lemma base_inv_sent:
  assumes "base_inv d" "inner_inv d'" "outer d' = outer d"
  shows "base_inv d'"
proof -
  have "nd_hosts d' = [] \<longleftrightarrow> nd_hosts d = []" by (rule outer_hosts[OF assms(3)])
  then show ?thesis
    using assms unfolding base_inv_def idle_ok_def polling_ok_def bounds_ok_def es_ok_def
    by (simp add: outer_def)
qed

lemma base_inv_es: "base_inv d \<Longrightarrow> es_ok (d\<lparr>nd_es := s\<rparr>) \<Longrightarrow> base_inv (d\<lparr>nd_es := s\<rparr>)"
  by (simp add: base_inv_def idle_ok_def polling_ok_def bounds_ok_def inner_inv_cong[of "d\<lparr>nd_es := s\<rparr>" d])

lemma base_inv_reports [simp]: "base_inv (d\<lparr>nd_reports := r\<rparr>) = base_inv d"
  by (simp add: base_inv_def idle_ok_def polling_ok_def bounds_ok_def es_ok_def inner_inv_cong[of "d\<lparr>nd_reports := r\<rparr>" d])

lemma idle_available:
  assumes "base_inv d" "nd_hosts d = []"
  shows "nd_available d = []"
proof -
  have "\<forall>si\<in>set (nd_available d). pool_sock si (shape d)" using assms(1) by (simp add: base_inv_def inner_inv_def)
  then show ?thesis using assms(2) by (cases "nd_available d") (auto simp: shape_def pool_sock_def has_sock_def)
qed

section \<open>Stopping\<close>

lemma workingSyncValue_frame [simp]:
  "es_inv (workingSyncValue th v a s) = es_inv s" "driver_count (workingSyncValue th v a s) = driver_count s"
  "the_driver i (workingSyncValue th v a s) = the_driver i s"
  by (simp_all add: workingSyncValue_def call_observers_trace the_driver_def)

text \<open>What a stop leaves behind.\<close>

definition stopped :: "ntp_driver \<Rightarrow> ntp_driver \<Rightarrow> bool" where
  "stopped d d' \<longleftrightarrow> base_inv d' \<and> st_lastSyncStart d' = 0 \<and> \<not> nd_reading d' \<and> \<not> nd_stopReading d' \<and>
     own_driver d' = own_driver d \<and> nd_index d' = nd_index d \<and>
     nd_restartSyncTimeout d' = nd_restartSyncTimeout d \<and> nd_lastFailTimeout d' = nd_lastFailTimeout d \<and>
     nd_networkReachable d' = nd_networkReachable d \<and> nd_disabled d' = nd_disabled d \<and>
     st_inPollingMode d' = st_inPollingMode d"

lemma stop_total:
  assumes "base_inv d" "env_ok en" "\<not> nd_reading d" "\<not> nd_stopReading d" "st_lastSyncStart d \<noteq> 0"
  shows "\<exists>d'. stopSyncingInThisThread en d = Some d' \<and> stopped d d'"
proof -
  have inv: "es_ok d" "names_ok (nd_names d)" "idle_ok d" "polling_ok d" "bounds_ok d"
    "farm_ok (it_farm (nd_hostNameIterator d))" "throttle_ok d"
    using assms(1) by (simp_all add: base_inv_def inner_inv_def)
  obtain t where t: "currentTime (ne_now en) (nd_es d) = Some t"
    using currentTime_total inv(1) assms(2) by (auto simp: es_ok_def env_ok_def)
  show ?thesis
    using inv assms(3-5) t
    by (cases "st_inPollingMode d")
      (simp_all add: stopSyncingInThisThread_def note_sync_end_def stopPollingCycle_def closeAllSockets_def
        ntp_workingSyncValue_def Let_def stopped_def base_inv_def inner_inv_def throttle_ok_def es_ok_def idle_ok_def
        polling_ok_def bounds_ok_def iterator_reset_def ES_THROTTLE_INTERVAL_MAX_def)
qed

lemma stop_reading: "nd_reading d \<Longrightarrow> stopSyncingInThisThread en d = Some (d\<lparr>nd_stopReading := True\<rparr>)"
  by (simp add: stopSyncingInThisThread_def)

section \<open>Starting\<close>

lemma iterator_next_farm: "iterator_next n it = (b, it') \<Longrightarrow> it_farm it' = it_farm it"
  by (auto simp: iterator_next_def iterator_next_pool_def Let_def split: option.splits if_splits)

lemma iterate_farm:
  assumes "iterate_hosts n it = Some (hs, it')"
  shows "it_farm it' = it_farm it"
proof -
  have "it_farm (snd (hs, it')) = it_farm it"
  proof (rule iterate_hosts.raw_induct[where P = "\<lambda>n it r. it_farm (snd r) = it_farm it", OF _ assms])
    fix iterate n it r
    assume ih: "\<And>n it r. iterate n it = Some r \<Longrightarrow> it_farm (snd r) = it_farm it"
      and r: "(let (more, it) = iterator_next n it
        in if more then do { (hs, it') \<leftarrow> iterate n it; Some ((it_host it, it_proximity it, it_isUserHost it) # hs, it') }
           else Some ([], it)) = Some r"
    obtain more it1 where n: "iterator_next n it = (more, it1)" by fastforce
    show "it_farm (snd r) = it_farm it"
      using r ih[of n it1] iterator_next_farm[OF n] by (auto simp: n split: if_splits Option.bind_splits)
  qed
  then show ?thesis by simp
qed

lemma start_hosts_new:
  "h \<in> set (start_hosts p f es) \<Longrightarrow> hn_sockets h = [] \<and> hn_failureTimer h = NoTimer \<and> hn_numResolutionFailures h = 0"
  by (induction p f es rule: start_hosts.induct) (auto simp: host_init_def Let_def split: prod.splits if_splits)

lemma start_hosts_ok:
  assumes "names_ok (nd_names d)" "farm_ok (it_farm (nd_hostNameIterator d))" "it_hostIndex (nd_hostNameIterator d) = - 1"
    "it_userIterator (nd_hostNameIterator d) = None"
  shows "\<exists>hs it. start_hosts_of_names d =
      Some (d\<lparr>nd_activity := nd_activity d + 1, nd_hostNameIterator := it, nd_hosts := hs\<rparr>) \<and>
    (\<forall>h\<in>set hs. host_ok h) \<and> farm_ok (it_farm it)"
proof -
  let ?n = "nd_names d" and ?it = "nd_hostNameIterator d"
  have f: "farm_ok (it_farm ?it)" "names_ok ?n" using assms(1,2) by simp_all
  obtain it where it: "iterate_hosts ?n ?it = Some (host_list ?n (it_farm ?it), it)"
    using iterate_host_list[OF f(1) assms(3,4)] by blast
  have "totalNumberOfHostNames ?n ?it = Some (int (length (host_list ?n (it_farm ?it))))"
    using f host_list_length[OF f(1), of ?n] by (simp add: totalNumberOfHostNames_def names_ok_def pool_size_def)
  moreover have "\<forall>h\<in>set (start_hosts p b es). host_ok h" for p b es
    using start_hosts_new by (auto simp: host_ok_def)
  ultimately show ?thesis
    using it iterate_farm[OF it] f(1)
    by (intro exI[of _ "start_hosts (st_inPollingMode d) False (host_list ?n (it_farm ?it))"] exI[of _ it])
      (simp add: start_hosts_of_names_def)
qed

lemma not_synchronized [simp]:
  "start_status u st \<noteq> StatusSynchronized" "give_up_status st \<noteq> StatusSynchronized" "no_net_status st \<noteq> StatusSynchronized"
  by (cases st; cases u; simp)+

lemma start_report_total:
  assumes e: "es_ok d" and "env_ok en" "own_driver d = Some dr"
  shows "\<exists>s st. start_report en u d = Some (d\<lparr>nd_es := s\<rparr>) \<and> es_ok (d\<lparr>nd_es := s\<rparr>) \<and> st \<noteq> StatusSynchronized \<and>
    the_driver (nd_index d) s = Some (dr\<lparr>drv_status := st,
      drv_currentTimeError := if u then drv_currentTimeError dr else 10 ^ 9\<rparr>)"
proof -
  let ?st = "start_status u (drv_status dr)" and ?e = "if u then drv_currentTimeError dr else 10 ^ 9"
  have "plausible_driver dr" using own_driver_Some[OF e] assms(3) by auto
  then have p: "\<bar>drv_contSkew dr\<bar> < ESFarFarInTheFuture / 2" by (simp add: plausible_driver_def)
  obtain s1 where s1: "ntp_setStatus en ?st d = Some (d\<lparr>nd_es := s1\<rparr>)" "es_ok (d\<lparr>nd_es := s1\<rparr>)"
      "the_driver (nd_index d) s1 = Some (dr\<lparr>drv_status := ?st\<rparr>)"
    using ntp_setStatus_total[OF e assms(2,3)] by blast
  obtain s2 where s2: "ntp_setContSkew en (drv_contSkew dr) ?e (d\<lparr>nd_es := s1\<rparr>) = Some (d\<lparr>nd_es := s2\<rparr>)"
      "es_ok (d\<lparr>nd_es := s2\<rparr>)"
      "the_driver (nd_index d) s2 = Some (dr\<lparr>drv_status := ?st, drv_currentTimeError := ?e\<rparr>)"
    using ntp_setContSkew_total[OF s1(2) assms(2), of "dr\<lparr>drv_status := ?st\<rparr>" "drv_contSkew dr" ?e] s1(3) p by auto
  have "es_ok (d\<lparr>nd_es := workingSyncValue (nd_thread d) (- 1) (- 1) s2\<rparr>)" using s2(2) by (simp add: es_ok_def)
  then show ?thesis
    using s1 s2 assms(3)
    by (intro exI[of _ "workingSyncValue (nd_thread d) (- 1) (- 1) s2"] exI[of _ ?st])
      (simp add: start_report_def ntp_status_def ntp_currentTimeError_def ntp_contSkew_def ntp_workingSyncValue_def)
qed

text \<open>What a start leaves behind.\<close>

definition started :: "ntp_env \<Rightarrow> bool \<Rightarrow> ntp_driver \<Rightarrow> ntp_driver \<Rightarrow> bool" where
  "started en u d d' \<longleftrightarrow> base_inv d' \<and> nd_reading d' = nd_reading d \<and> \<not> nd_stopReading d' \<and>
     st_lastSyncStart d' = ne_now en \<and> nd_lastFailTimeout d' = 0 \<and> nd_restartSyncTimeout d' = NoTimer \<and>
     nd_giveUpTimer d' = Pending (ne_now en + ES_GIVE_UP_INTERVAL) \<and>
     nd_maxMinOffset d' = - (10 ^ 9) \<and> nd_minMaxOffset d' = 10 ^ 9 \<and> nd_index d' = nd_index d \<and>
     st_inPollingMode d' = st_inPollingMode d \<and>
     (\<exists>dr st. own_driver d = Some dr \<and> st \<noteq> StatusSynchronized \<and> own_driver d' = Some (dr\<lparr>drv_status := st,
        drv_currentTimeError := if u then drv_currentTimeError dr else 10 ^ 9\<rparr>))"

definition can_start :: "ntp_driver \<Rightarrow> bool" where
  "can_start d \<longleftrightarrow> \<not> nd_disabled d \<and> st_lastSyncStart d = 0 \<and> nd_networkReachable d"

lemma start_not: "\<not> can_start d \<Longrightarrow> startSyncing en u d = Some d"
  by (auto simp: can_start_def startSyncing_def)

lemma start_total:
  assumes "base_inv d" "env_ok en" "can_start d"
  shows "\<exists>d'. startSyncing en u d = Some d' \<and> started en u d d'"
proof -
  have inv: "es_ok d" "names_ok (nd_names d)" "idle_ok d" "polling_ok d" "bounds_ok d"
    "farm_ok (it_farm (nd_hostNameIterator d))" "inner_inv d"
    using assms(1) by (simp_all add: base_inv_def inner_inv_def)
  have idle: "nd_hosts d = []" "nd_activity d = 0" "it_hostIndex (nd_hostNameIterator d) = - 1"
      "it_userIterator (nd_hostNameIterator d) = None"
    using inv(3) assms(3) by (simp_all add: idle_ok_def can_start_def)
  have av: "nd_available d = []" by (rule idle_available[OF assms(1) idle(1)])
  obtain dr where dr: "own_driver d = Some dr" using own_driver_Some[OF inv(1)] by blast
  have now: "ne_now en \<noteq> 0" using assms(2) by (simp add: env_ok_def)
  define d1 where "d1 = d\<lparr>st_lastSyncStart := ne_now en, nd_stopReading := False\<rparr>"
  have e1: "es_ok d1" using inv(1) by (simp add: d1_def es_ok_def)
  obtain s st where s: "start_report en u d1 = Some (d1\<lparr>nd_es := s\<rparr>)" "es_ok (d1\<lparr>nd_es := s\<rparr>)"
      "the_driver (nd_index d) s = Some (dr\<lparr>drv_status := st,
        drv_currentTimeError := if u then drv_currentTimeError dr else 10 ^ 9\<rparr>)" "st \<noteq> StatusSynchronized"
    using start_report_total[OF e1 assms(2), of dr u] dr by (auto simp: d1_def)
  define d2 where "d2 = start_reset en (d1\<lparr>nd_es := s\<rparr>)"
  define d3 where "d3 = (if st_inPollingMode d then d2\<lparr>nd_currentProximity := 4, st_pollingRunning := True,
      st_pollingCycleRunning := True, st_pollingHostTimer := Pending (ne_now en + POLLING_INTERVALB)\<rparr> else d2)"
  have r: "(if st_inPollingMode d2 then restartPollingCycle en (d2\<lparr>nd_currentProximity := 4\<rparr>) else Some d2) = Some d3"
    by (simp add: d3_def restartPollingCycle_def d2_def start_reset_def d1_def)
  have d3: "nd_hosts d3 = []" "nd_hostNameIterator d3 = nd_hostNameIterator d" "nd_names d3 = nd_names d"
    "nd_activity d3 = 0" "nd_es d3 = s" "nd_index d3 = nd_index d" "nd_available d3 = []"
    "nd_throttleSendInterval d3 = 0" "st_numPacketsReceived d3 = 0" "\<not> nd_stopReading d3"
    "nd_reading d3 = nd_reading d" "st_lastSyncStart d3 = ne_now en" "nd_maxMinOffset d3 = - (10 ^ 9)"
    "nd_minMaxOffset d3 = 10 ^ 9" "nd_lastFailTimeout d3 = 0" "nd_restartSyncTimeout d3 = NoTimer"
    "nd_giveUpTimer d3 = Pending (ne_now en + ES_GIVE_UP_INTERVAL)" "st_inPollingMode d3 = st_inPollingMode d"
    "nd_inbox d3 = nd_inbox d" "st_nextSendHostIndex d3 = st_nextSendHostIndex d"
    "\<not> st_inPollingMode d \<Longrightarrow> st_pollingHostTimer d3 = st_pollingHostTimer d"
    using idle av by (simp_all add: d3_def d2_def start_reset_def d1_def)
  obtain hs it where h: "start_hosts_of_names d3 =
        Some (d3\<lparr>nd_activity := nd_activity d3 + 1, nd_hostNameIterator := it, nd_hosts := hs\<rparr>)"
      "\<forall>h\<in>set hs. host_ok h" "farm_ok (it_farm it)"
    using start_hosts_ok[of d3] inv(2,6) idle(3,4) unfolding d3(2,3) by blast
  obtain rs where rs: "makeHostReportIfRequired (d3\<lparr>nd_activity := nd_activity d3 + 1, nd_hostNameIterator := it,
        nd_hosts := hs\<rparr>) = d3\<lparr>nd_activity := nd_activity d3 + 1, nd_hostNameIterator := it, nd_hosts := hs,
        nd_reports := rs\<rparr>"
    using makeHostReport_eq[of "d3\<lparr>nd_activity := nd_activity d3 + 1, nd_hostNameIterator := it, nd_hosts := hs\<rparr>"]
    by auto
  let ?d = "d3\<lparr>nd_activity := nd_activity d3 + 1, nd_hostNameIterator := it, nd_hosts := hs, nd_reports := rs\<rparr>"
  have "startSyncing en u d = Some ?d"
    using assms(3) s(1) r h(1) rs
    by (simp add: startSyncing_def can_start_def d1_def[symmetric] d2_def[symmetric])
  moreover have "started en u d ?d"
    using inv(2,4) s(2-4) h(2,3) now dr d3
    by (simp add: started_def base_inv_def inner_inv_def throttle_ok_def es_ok_def idle_ok_def polling_ok_def
        bounds_ok_def d1_def ES_THROTTLE_INTERVAL_MAX_def) blast
  ultimately show ?thesis by blast
qed

lemma stopped_base: "stopped d d' \<Longrightarrow> base_inv d' \<and> st_lastSyncStart d' = 0 \<and> \<not> nd_reading d' \<and> \<not> nd_stopReading d'"
  by (simp add: stopped_def)

lemma resync_reading:
  "nd_reading d \<Longrightarrow> st_lastSyncStart d \<noteq> 0 \<Longrightarrow> resyncInThisThread en u d = Some (d\<lparr>nd_stopReading := True\<rparr>)"
  by (simp add: resyncInThisThread_def stop_reading startSyncing_def)

lemma resync_total:
  assumes "base_inv d" "env_ok en" "\<not> nd_reading d" "\<not> nd_stopReading d"
  obtains d1 d' where "d1 = d \<and> st_lastSyncStart d = 0 \<or> st_lastSyncStart d \<noteq> 0 \<and> stopped d d1"
    "resyncInThisThread en u d = Some d'" "if can_start d1 then started en u d1 d' else d' = d1"
proof -
  obtain d1 where d1: "d1 = d \<and> st_lastSyncStart d = 0 \<or> st_lastSyncStart d \<noteq> 0 \<and> stopped d d1"
      "(if st_lastSyncStart d \<noteq> 0 then stopSyncingInThisThread en d else Some d) = Some d1"
    using stop_total[OF assms] by (cases "st_lastSyncStart d = 0") auto
  have "base_inv d1" using d1(1) assms(1) stopped_base by auto
  then obtain d' where "startSyncing en u d1 = Some d'" "if can_start d1 then started en u d1 d' else d' = d1"
    using start_total[OF _ assms(2), of d1 u] start_not[of d1 en u] by (cases "can_start d1") auto
  moreover have "resyncInThisThread en u d = startSyncing en u d1"
    unfolding resyncInThisThread_def d1(2) by simp
  ultimately show ?thesis using that d1(1) by simp
qed

section \<open>The whole invariant\<close>

text \<open>
  What is said of a run: by how much the true time is ahead of the clock of the device, and what the
  driver reported when the run began. That first report is read from the preferences, so it need
  not be true.
\<close>

record outlook =
  trueSkew :: real
  firstSkew :: real
  firstError :: real

definition still_first :: "outlook \<Rightarrow> ESTimeSourceDriver \<Rightarrow> bool" where
  "still_first w dr \<longleftrightarrow> drv_contSkew dr = firstSkew w \<and>
     (drv_currentTimeError dr = firstError w \<or> drv_currentTimeError dr = 10 ^ 9) \<and> drv_status dr \<noteq> StatusSynchronized"

text \<open>
  \<open>tells_true\<close>: the skew reported for the driver is within its error of the truth, up to the resolution
  of the packets' times; and it says \<open>StatusSynchronized\<close> only with an error below \<open>ES_FIX_GOOD\<close>.
\<close>

definition tells_true :: "real \<Rightarrow> ESTimeSourceDriver \<Rightarrow> ntp_driver \<Rightarrow> bool" where
  "tells_true \<theta> dr d \<longleftrightarrow> \<bar>drv_contSkew dr - \<theta>\<bar> \<le> drv_currentTimeError dr + 1 / FRIC \<and>
     \<bar>drv_contSkew dr - \<theta>\<bar> \<le> 10 ^ 9 + 1 / FRIC \<and>
     (drv_status dr = StatusSynchronized \<longrightarrow> drv_currentTimeError dr < ES_FIX_GOOD \<and>
        (st_lastSyncStart d \<noteq> 0 \<longrightarrow> nd_minMaxOffset d - nd_maxMinOffset d < 2 * ES_FIX_GOOD))"

definition tells :: "outlook \<Rightarrow> ESTimeSourceDriver \<Rightarrow> ntp_driver \<Rightarrow> bool" where
  "tells w dr d \<longleftrightarrow> still_first w dr \<or> tells_true (trueSkew w) dr d"

lemmas tells_simps = tells_def tells_true_def still_first_def

text \<open>
  \<open>truth\<close>: the skew the driver reports is the first one or within its error of the true one, and while it
  synchronises its bounds hold the true one. The invariant is for a set \<open>T\<close> of outlooks, which may be
  empty.
\<close>

definition truth :: "outlook \<Rightarrow> ntp_driver \<Rightarrow> bool" where
  "truth w d \<longleftrightarrow> \<bar>trueSkew w\<bar> \<le> 10 ^ 9 \<and>
     (\<forall>dr. own_driver d = Some dr \<longrightarrow> tells w dr d) \<and>
     (st_lastSyncStart d \<noteq> 0 \<longrightarrow> - (10 ^ 9) \<le> nd_maxMinOffset d \<and> nd_maxMinOffset d - 1 / FRIC \<le> trueSkew w \<and>
        trueSkew w \<le> nd_minMaxOffset d + 1 / FRIC \<and> nd_minMaxOffset d \<le> 10 ^ 9)"

definition full_inv :: "outlook set \<Rightarrow> ntp_driver \<Rightarrow> bool" where
  "full_inv T d \<longleftrightarrow> base_inv d \<and> fail_ok d \<and> (\<forall>w\<in>T. truth w d)"

definition quiet :: "ntp_driver \<Rightarrow> bool" where
  "quiet d \<longleftrightarrow> \<not> nd_reading d \<and> \<not> nd_stopReading d"

lemma full_sent:
  assumes "full_inv T d" "inner_inv d'" "outer d' = outer d"
  shows "full_inv T d'"
  using assms base_inv_sent[of d d'] by (simp add: full_inv_def fail_ok_def truth_def tells_simps outer_def)

lemma tells_idle: "tells w dr d \<Longrightarrow> st_lastSyncStart d' = 0 \<Longrightarrow> tells w dr d'"
  by (auto simp: tells_simps)

lemma tells_status: "tells w dr d \<Longrightarrow> st \<noteq> StatusSynchronized \<Longrightarrow> tells w (dr\<lparr>drv_status := st\<rparr>) d'"
  by (auto simp: tells_simps)

lemma full_stopped:
  assumes "full_inv T d" "stopped d d'"
  shows "full_inv T d' \<and> quiet d'"
  using assms tells_idle[of _ _ d d'] by (auto simp: full_inv_def stopped_def fail_ok_def truth_def quiet_def)

lemma tells_started:
  assumes "tells w dr d" "st \<noteq> StatusSynchronized"
  shows "tells w (dr\<lparr>drv_status := st, drv_currentTimeError := if u then drv_currentTimeError dr else 10 ^ 9\<rparr>) d'"
  using assms by (cases u) (auto simp: tells_simps)

lemma full_started:
  assumes "full_inv T d" "\<not> nd_reading d" "started en u d d'"
  shows "full_inv T d' \<and> quiet d'"
proof -
  have "truth w d'" if "w \<in> T" for w
  proof -
    have "truth w d" using assms(1) that by (simp add: full_inv_def)
    moreover obtain dr st where "own_driver d = Some dr" "st \<noteq> StatusSynchronized" "own_driver d' = Some (dr\<lparr>drv_status := st,
        drv_currentTimeError := if u then drv_currentTimeError dr else 10 ^ 9\<rparr>)"
      using assms(3) unfolding started_def by blast
    moreover have "nd_maxMinOffset d' = - (10 ^ 9)" "nd_minMaxOffset d' = 10 ^ 9"
      using assms(3) by (simp_all add: started_def)
    moreover have "trueSkew w \<le> 10 ^ 9 + 1 / FRIC" "- (10 ^ 9) - 1 / FRIC \<le> trueSkew w"
    proof -
      have "\<bar>trueSkew w\<bar> \<le> 10 ^ 9" using \<open>truth w d\<close> by (simp add: truth_def tells_simps)
      moreover have "0 \<le> 1 / FRIC" by (simp add: FRIC_def)
      ultimately show "trueSkew w \<le> 10 ^ 9 + 1 / FRIC" "- (10 ^ 9) - 1 / FRIC \<le> trueSkew w" by linarith+
    qed
    ultimately show ?thesis using tells_started[of w _ d _ u d'] by (simp add: truth_def)
  qed
  then show ?thesis using assms by (simp add: full_inv_def started_def fail_ok_def quiet_def)
qed

lemma resync_full:
  assumes "full_inv T d" "env_ok en" "quiet d"
  shows "\<exists>d'. resyncInThisThread en u d = Some d' \<and> full_inv T d' \<and> quiet d'"
proof -
  have p: "base_inv d" "\<not> nd_reading d" "\<not> nd_stopReading d" using assms(1,3) by (simp_all add: full_inv_def quiet_def)
  obtain d1 d' where d: "d1 = d \<and> st_lastSyncStart d = 0 \<or> st_lastSyncStart d \<noteq> 0 \<and> stopped d d1"
    "resyncInThisThread en u d = Some d'" "if can_start d1 then started en u d1 d' else d' = d1"
    by (rule resync_total[OF p(1) assms(2) p(2,3)])
  have "full_inv T d1 \<and> quiet d1" using d(1) assms(1,3) full_stopped by auto
  then show ?thesis using d(2,3) full_started[of T d1 en u d'] by (auto simp: quiet_def split: if_splits)
qed

lemma full_es:
  assumes "full_inv T d" "es_ok (d\<lparr>nd_es := s\<rparr>)"
    and "the_driver (nd_index d) s = Some dr"
    and "\<And>w. w \<in> T \<Longrightarrow> tells w dr d"
  shows "full_inv T (d\<lparr>nd_es := s\<rparr>)"
  using assms base_inv_es[of d s] by (simp add: full_inv_def fail_ok_def truth_def tells_simps)

lemma full_own:
  assumes "full_inv T d"
  obtains dr where "own_driver d = Some dr" "plausible_driver dr"
    "\<And>w. w \<in> T \<Longrightarrow> tells w dr d"
proof -
  have "es_ok d" "\<forall>w\<in>T. truth w d" using assms by (simp_all add: full_inv_def base_inv_def)
  moreover obtain dr where "own_driver d = Some dr" "plausible_driver dr"
    using own_driver_Some[OF \<open>es_ok d\<close>] by blast
  ultimately show ?thesis using that[of dr] by (simp add: truth_def tells_simps)
qed

lemma full_setStatus_tells:
  assumes "full_inv T d" "env_ok en" "own_driver d = Some dr" "\<And>w. w \<in> T \<Longrightarrow> tells w (dr\<lparr>drv_status := st\<rparr>) d"
  shows "\<exists>s. ntp_setStatus en st d = Some (d\<lparr>nd_es := s\<rparr>) \<and> full_inv T (d\<lparr>nd_es := s\<rparr>)"
proof -
  have "es_ok d" using assms(1) by (simp add: full_inv_def base_inv_def)
  then obtain s where "ntp_setStatus en st d = Some (d\<lparr>nd_es := s\<rparr>)" "es_ok (d\<lparr>nd_es := s\<rparr>)"
      "the_driver (nd_index d) s = Some (dr\<lparr>drv_status := st\<rparr>)"
    using ntp_setStatus_total[OF _ assms(2,3)] by blast
  moreover from this have "full_inv T (d\<lparr>nd_es := s\<rparr>)" using full_es[OF assms(1), of s "dr\<lparr>drv_status := st\<rparr>"] assms(4) by simp
  ultimately show ?thesis by blast
qed

lemma full_setStatus:
  assumes "full_inv T d" "env_ok en" "st \<noteq> StatusSynchronized"
  shows "\<exists>s. ntp_setStatus en st d = Some (d\<lparr>nd_es := s\<rparr>) \<and> full_inv T (d\<lparr>nd_es := s\<rparr>)"
proof -
  obtain dr where "own_driver d = Some dr" "\<And>w. w \<in> T \<Longrightarrow> tells w dr d" using full_own[OF assms(1)] by metis
  then show ?thesis using full_setStatus_tells[OF assms(1,2), of dr st] assms(3) tells_status[of _ dr d st d] by blast
qed

lemma full_setContSkew:
  assumes "full_inv T d" "env_ok en" "\<bar>skew\<bar> < ESFarFarInTheFuture / 2" "own_driver d = Some dr"
    and "\<And>w. w \<in> T \<Longrightarrow> \<bar>skew - trueSkew w\<bar> \<le> err + 1 / FRIC \<and> \<bar>skew - trueSkew w\<bar> \<le> 10 ^ 9 + 1 / FRIC"
    and "nd_minMaxOffset d - nd_maxMinOffset d = 2 * err" "drv_status dr = StatusSynchronized \<Longrightarrow> T \<noteq> {} \<Longrightarrow> err < ES_FIX_GOOD"
  shows "\<exists>s. ntp_setContSkew en skew err d = Some (d\<lparr>nd_es := s\<rparr>) \<and> full_inv T (d\<lparr>nd_es := s\<rparr>) \<and>
    the_driver (nd_index d) s = Some (dr\<lparr>drv_contSkew := skew, drv_currentTimeError := err\<rparr>)"
proof -
  have "es_ok d" using assms(1) by (simp add: full_inv_def base_inv_def)
  then obtain s where s: "ntp_setContSkew en skew err d = Some (d\<lparr>nd_es := s\<rparr>)" "es_ok (d\<lparr>nd_es := s\<rparr>)"
      "the_driver (nd_index d) s = Some (dr\<lparr>drv_contSkew := skew, drv_currentTimeError := err\<rparr>)"
    using ntp_setContSkew_total[OF _ assms(2,4,3)] by blast
  have "tells w (dr\<lparr>drv_contSkew := skew, drv_currentTimeError := err\<rparr>) d" if "w \<in> T" for w
    using assms(5)[OF that] assms(6,7) that by (auto simp: tells_simps)
  then have "full_inv T (d\<lparr>nd_es := s\<rparr>)" using full_es[OF assms(1) s(2,3)] by simp
  then show ?thesis using s by blast
qed

lemma full_working:
  "full_inv T d \<Longrightarrow> \<exists>s. ntp_workingSyncValue v a d = d\<lparr>nd_es := s\<rparr> \<and> full_inv T (d\<lparr>nd_es := s\<rparr>)"
proof -
  assume d: "full_inv T d"
  obtain dr where dr: "own_driver d = Some dr"
      "\<And>w. w \<in> T \<Longrightarrow> tells w dr d"
    using full_own[OF d] by metis
  have "es_ok d" using d by (simp add: full_inv_def base_inv_def)
  then have "full_inv T (d\<lparr>nd_es := workingSyncValue (nd_thread d) v a (nd_es d)\<rparr>)"
    using full_es[OF d, of _ dr] dr by (simp add: es_ok_def)
  then show ?thesis by (auto simp: ntp_workingSyncValue_def)
qed

lemma full_report:
  "full_inv T d \<Longrightarrow> \<exists>r. makeHostReportIfRequired d = d\<lparr>nd_reports := r\<rparr> \<and> full_inv T (d\<lparr>nd_reports := r\<rparr>)"
  using makeHostReport_eq[of d] by (auto simp: full_inv_def fail_ok_def truth_def tells_simps)

section \<open>Packets\<close>

text \<open>While sockets are read nothing but \<open>nd_stopReading\<close> notes a stop, so the hosts stay.\<close>

definition reading_ok :: "outlook set \<Rightarrow> ntp_driver \<Rightarrow> ntp_driver option \<Rightarrow> bool" where
  "reading_ok T d r \<longleftrightarrow> (\<exists>d'. r = Some d' \<and> full_inv T d' \<and> nd_reading d' \<and> shape d' = shape d)"

lemma reading_ok_Some [simp]:
  "reading_ok T d (Some d') \<longleftrightarrow> full_inv T d' \<and> nd_reading d' \<and> shape d' = shape d"
  by (simp add: reading_ok_def)

lemma sent_reading:
  assumes "full_inv T d" "nd_reading d" "sent_ok d r"
  shows "reading_ok T d r"
  using assms full_sent[of T d] by (auto simp: sent_ok_def reading_ok_def outer_def)

lemma reading_ok_trans: "shape d1 = shape d \<Longrightarrow> reading_ok T d1 r \<Longrightarrow> reading_ok T d r"
  by (simp add: reading_ok_def)

lemma full_inner: "full_inv T d \<Longrightarrow> inner_inv d"
  by (simp add: full_inv_def base_inv_def)

lemma full_syncing:
  assumes "full_inv T d" "has_sock si (shape d)"
  shows "st_lastSyncStart d \<noteq> 0"
  using assms by (auto simp: full_inv_def base_inv_def idle_ok_def has_sock_def shape_def)

lemma shape_es [simp]: "shape (d\<lparr>nd_es := s\<rparr>) = shape d" "shape (d\<lparr>nd_reports := r\<rparr>) = shape d"
  by (simp_all add: shape_def)

lemma full_stop_reading:
  assumes "full_inv T d" "st_lastSyncStart d \<noteq> 0"
  shows "full_inv T (d\<lparr>nd_stopReading := True\<rparr>)"
  using assms
  by (simp add: full_inv_def base_inv_def fail_ok_def truth_def tells_simps idle_ok_def polling_ok_def bounds_ok_def es_ok_def
      inner_inv_cong[of "d\<lparr>nd_stopReading := True\<rparr>" d])

lemma finishing_ok:
  assumes "full_inv T d" "nd_reading d" "st_lastSyncStart d \<noteq> 0"
  shows "reading_ok T d (stateGotFinishingPacket en d)"
proof -
  let ?d = "d\<lparr>nd_lastSuccessfulSyncTime := ne_now en, nd_lastFailTimeout := 0,
      nd_restartSyncTimeout := Pending (ne_now en + ES_FIX_TIMEOUT)\<rparr>"
  have "full_inv T ?d"
    using assms(1)
    by (simp add: full_inv_def base_inv_def fail_ok_def truth_def tells_simps idle_ok_def polling_ok_def bounds_ok_def es_ok_def
        inner_inv_cong[of ?d d])
  then have "full_inv T (?d\<lparr>nd_stopReading := True\<rparr>)" using full_stop_reading assms(3) by simp
  then show ?thesis using assms(2) by (simp add: stateGotFinishingPacket_def stop_reading shape_def)
qed

lemma narrow_full:
  assumes "full_inv T d" "\<bar>lo\<bar> \<le> 2 ^ 33" "\<bar>hi\<bar> \<le> 2 ^ 33" "\<And>w. w \<in> T \<Longrightarrow> lo - 1 / FRIC \<le> trueSkew w \<and> trueSkew w \<le> hi + 1 / FRIC"
  shows "full_inv T (narrow lo hi d)"
proof -
  have "bounds_ok (narrow lo hi d)" using assms(1-3) by (simp add: narrow_def bounds_ok_def full_inv_def base_inv_def)
  moreover have "truth w (narrow lo hi d)" if "w \<in> T" for w
    using assms(1) assms(4)[OF that] that by (auto simp: narrow_def truth_def tells_simps full_inv_def)
  ultimately show ?thesis
    using assms(1) inner_inv_cong[of "narrow lo hi d" d]
    by (simp add: narrow_def full_inv_def base_inv_def fail_ok_def idle_ok_def polling_ok_def es_ok_def)
qed

text \<open>The midpoint of the bounds and half their distance.\<close>

lemma midpoint:
  assumes "full_inv T d" "nd_maxMinOffset d \<le> nd_minMaxOffset d" "st_lastSyncStart d \<noteq> 0"
  defines "err \<equiv> (nd_minMaxOffset d - nd_maxMinOffset d) / 2" and "skew \<equiv> (nd_minMaxOffset d + nd_maxMinOffset d) / 2"
  shows "\<bar>skew\<bar> < ESFarFarInTheFuture / 2" "\<And>w. w \<in> T \<Longrightarrow> \<bar>skew - trueSkew w\<bar> \<le> err + 1 / FRIC \<and> \<bar>skew - trueSkew w\<bar> \<le> 10 ^ 9 + 1 / FRIC"
proof -
  have b: "\<bar>nd_maxMinOffset d\<bar> \<le> 2 ^ 33" "\<bar>nd_minMaxOffset d\<bar> \<le> 2 ^ 33"
    using assms(1) by (simp_all add: full_inv_def base_inv_def bounds_ok_def)
  then have "\<bar>skew\<bar> \<le> 2 ^ 33" unfolding skew_def by (simp add: abs_le_iff)
  moreover have "(2 :: real) ^ 33 < 10 ^ 150 / 2" by simp
  ultimately show "\<bar>skew\<bar> < ESFarFarInTheFuture / 2" unfolding ESFarFarInTheFuture_def by linarith
  show "\<bar>skew - trueSkew w\<bar> \<le> err + 1 / FRIC \<and> \<bar>skew - trueSkew w\<bar> \<le> 10 ^ 9 + 1 / FRIC" if "w \<in> T" for w
  proof -
    have "truth w d" using assms(1) that by (simp add: full_inv_def)
    then have "- (10 ^ 9) \<le> nd_maxMinOffset d" "nd_maxMinOffset d - 1 / FRIC \<le> trueSkew w" "trueSkew w \<le> nd_minMaxOffset d + 1 / FRIC"
        "nd_minMaxOffset d \<le> 10 ^ 9"
      using assms(3) by (simp_all add: truth_def tells_simps)
    then show ?thesis unfolding skew_def err_def abs_le_iff by (simp add: field_simps)
  qed
qed

lemma full_times [simp]:
  "full_inv T (d\<lparr>st_timeOfLastSuccessfulSync := t, st_timeOfLastSyncAttempt := u\<rparr>) = full_inv T d"
  by (simp add: full_inv_def base_inv_def fail_ok_def truth_def tells_simps idle_ok_def polling_ok_def bounds_ok_def es_ok_def
      inner_inv_cong[of "d\<lparr>st_timeOfLastSuccessfulSync := t, st_timeOfLastSyncAttempt := u\<rparr>" d])

lemma full_currentTime:
  assumes "full_inv T d" "env_ok en"
  obtains t where "currentTime (ne_now en) (nd_es d) = Some t"
  using currentTime_total[of "nd_es d" "ne_now en"] assms by (auto simp: full_inv_def base_inv_def es_ok_def env_ok_def)

lemma got_done_ok:
  assumes "full_inv T d" "env_ok en" "nd_reading d" "st_lastSyncStart d \<noteq> 0" "\<bar>skew\<bar> < ESFarFarInTheFuture / 2"
    and "\<And>w. w \<in> T \<Longrightarrow> \<bar>skew - trueSkew w\<bar> \<le> err + 1 / FRIC \<and> \<bar>skew - trueSkew w\<bar> \<le> 10 ^ 9 + 1 / FRIC"
    and w: "nd_minMaxOffset d - nd_maxMinOffset d = 2 * err" "err < ES_FIX_GOOD"
  shows "reading_ok T d (gotPacket_done en skew err d)"
proof -
  obtain r where r: "makeHostReportIfRequired d = d\<lparr>nd_reports := r\<rparr>" "full_inv T (d\<lparr>nd_reports := r\<rparr>)"
    using full_report[OF assms(1)] by blast
  obtain dr where dr: "own_driver d = Some dr" using full_own[OF assms(1)] by metis
  obtain s1 where s1: "ntp_setContSkew en skew err (d\<lparr>nd_reports := r\<rparr>) = Some (d\<lparr>nd_reports := r, nd_es := s1\<rparr>)"
      "full_inv T (d\<lparr>nd_reports := r, nd_es := s1\<rparr>)"
      "the_driver (nd_index d) s1 = Some (dr\<lparr>drv_contSkew := skew, drv_currentTimeError := err\<rparr>)"
    using full_setContSkew[OF r(2) assms(2,5), of dr err] dr assms(6) w by auto
  have tl: "tells w (dr\<lparr>drv_contSkew := skew, drv_currentTimeError := err, drv_status := StatusSynchronized\<rparr>)
      (d\<lparr>nd_reports := r, nd_es := s1\<rparr>)" if "w \<in> T" for w
    using assms(6)[OF that] w by (simp add: tells_simps)
  obtain s2 where s2: "ntp_setStatus en StatusSynchronized (d\<lparr>nd_reports := r, nd_es := s1\<rparr>) =
        Some (d\<lparr>nd_reports := r, nd_es := s2\<rparr>)" "full_inv T (d\<lparr>nd_reports := r, nd_es := s2\<rparr>)"
    using full_setStatus_tells[OF s1(2) assms(2), of "dr\<lparr>drv_contSkew := skew, drv_currentTimeError := err\<rparr>" StatusSynchronized] s1(3) tl
    by auto
  obtain t where t: "currentTime (ne_now en) s2 = Some t" using full_currentTime[OF s2(2) assms(2)] by auto
  let ?d = "d\<lparr>nd_reports := r, nd_es := s2, st_timeOfLastSuccessfulSync := t, st_timeOfLastSyncAttempt := t\<rparr>"
  have d: "full_inv T ?d" "nd_reading ?d" "st_lastSyncStart ?d \<noteq> 0" "shape ?d = shape d"
    using s2(2) assms(3,4) by (simp_all add: shape_def)
  have "gotPacket_done en skew err d = (if st_inPollingMode d then Some ?d else stateGotFinishingPacket en ?d)"
    by (simp add: gotPacket_done_def r(1) s1(1) s2(1) t)
  then show ?thesis using d finishing_ok[OF d(1-3)] reading_ok_trans[OF d(4)] by simp
qed

lemma got_refine_ok:
  assumes "full_inv T d" "env_ok en" "nd_reading d" "has_sock si (shape d)" "\<bar>skew\<bar> < ESFarFarInTheFuture / 2"
    and "\<And>w. w \<in> T \<Longrightarrow> \<bar>skew - trueSkew w\<bar> \<le> err + 1 / FRIC \<and> \<bar>skew - trueSkew w\<bar> \<le> 10 ^ 9 + 1 / FRIC"
    and w: "nd_minMaxOffset d - nd_maxMinOffset d = 2 * err" "\<not> err < ES_FIX_GOOD"
  shows "reading_ok T d (gotPacket_refine en skew err si d)"
proof -
  obtain dr where dr: "own_driver d = Some dr" "\<And>w. w \<in> T \<Longrightarrow> tells w dr d" using full_own[OF assms(1)] by metis
  have n: "drv_status dr = StatusSynchronized \<Longrightarrow> T \<noteq> {} \<Longrightarrow> err < ES_FIX_GOOD"
    using dr(2) full_syncing[OF assms(1,4)] w by (auto simp: tells_simps)
  define change where "change \<longleftrightarrow> drv_contSkew dr < skew - err \<or> drv_contSkew dr > skew + err \<or> err < drv_currentTimeError dr"
  obtain s1 where s1: "(if change then ntp_setContSkew en skew err d else Some d) = Some (d\<lparr>nd_es := s1\<rparr>)"
      "full_inv T (d\<lparr>nd_es := s1\<rparr>)"
  proof (cases change)
    case True
    then show ?thesis using that full_setContSkew[OF assms(1,2,5) dr(1) assms(6) w(1) n] by auto
  next
    case False
    have "d\<lparr>nd_es := nd_es d\<rparr> = d" by (cases d) simp
    then show ?thesis using False that[of "nd_es d"] assms(1) by simp
  qed
  obtain s2 where s2: "ntp_workingSyncValue skew err (d\<lparr>nd_es := s1\<rparr>) = d\<lparr>nd_es := s2\<rparr>" "full_inv T (d\<lparr>nd_es := s2\<rparr>)"
    using full_working[OF s1(2)] by auto
  obtain s3 where s3: "ntp_setStatus en StatusRefining (d\<lparr>nd_es := s2\<rparr>) = Some (d\<lparr>nd_es := s3\<rparr>)" "full_inv T (d\<lparr>nd_es := s3\<rparr>)"
    using full_setStatus[OF s2(2) assms(2), of StatusRefining] by auto
  obtain r where r: "makeHostReportIfRequired (d\<lparr>nd_es := s3\<rparr>) = d\<lparr>nd_es := s3, nd_reports := r\<rparr>"
      "full_inv T (d\<lparr>nd_es := s3, nd_reports := r\<rparr>)"
    using full_report[OF s3(2)] by auto
  let ?d = "d\<lparr>nd_es := s3, nd_reports := r\<rparr>"
  have "(if drv_contSkew dr < skew - err then ntp_setContSkew en skew err d
     else if drv_contSkew dr > skew + err then ntp_setContSkew en skew err d
     else if err < drv_currentTimeError dr then ntp_setContSkew en skew err d else Some d) = Some (d\<lparr>nd_es := s1\<rparr>)"
    using s1(1) by (auto simp: change_def split: if_splits)
  then have e: "gotPacket_refine en skew err si d =
      (if st_inPollingMode d then Some ?d else stateGotPacketWithReportableSync en si ?d)"
    by (simp add: gotPacket_refine_def ntp_contSkew_def ntp_currentTimeError_def dr(1) s2(1) s3(1) r(1) Let_def)
  have "sent_ok ?d (stateGotPacketWithReportableSync en si ?d)"
    using reportable_ok[OF full_inner[OF r(2)]] assms(4) by (simp add: shape_def)
  then have "reading_ok T ?d (stateGotPacketWithReportableSync en si ?d)"
    using sent_reading[OF r(2)] assms(3) by simp
  then have "reading_ok T d (stateGotPacketWithReportableSync en si ?d)"
    using reading_ok_trans[of ?d d] by (simp add: shape_def)
  then show ?thesis using e r(2) assms(3) by (simp add: shape_def)
qed

lemma gotPacket_ok:
  assumes "full_inv T d" "env_ok en" "nd_reading d" "has_sock si (shape d)"
    and "\<bar>lo\<bar> \<le> 2 ^ 33" "\<bar>hi\<bar> \<le> 2 ^ 33" "\<And>w. w \<in> T \<Longrightarrow> lo - 1 / FRIC \<le> trueSkew w \<and> trueSkew w \<le> hi + 1 / FRIC"
  shows "\<exists>d'. gotPacket en lo hi si d = Some (True, d') \<and> full_inv T d' \<and> nd_reading d' \<and> shape d' = shape d"
proof -
  let ?d = "narrow lo hi d"
  have d: "full_inv T ?d" by (rule narrow_full[OF assms(1,5,6,7)])
  have f: "nd_reading ?d" "shape ?d = shape d" "has_sock si (shape ?d)"
    using assms(3,4) by (simp_all add: narrow_def shape_def)
  then have s: "st_lastSyncStart ?d \<noteq> 0" using full_syncing[OF d] by blast
  have "reading_ok T ?d (if nd_minMaxOffset ?d < nd_maxMinOffset ?d
      then if st_inPollingMode ?d then Some (makeHostReportIfRequired ?d) else resyncInThisThread en False ?d
      else let currentError = (nd_minMaxOffset ?d - nd_maxMinOffset ?d) / 2;
               tentativeSkew = (nd_minMaxOffset ?d + nd_maxMinOffset ?d) / 2
           in if currentError < ES_FIX_GOOD then gotPacket_done en tentativeSkew currentError ?d
              else gotPacket_refine en tentativeSkew currentError si ?d)"
  proof (cases "nd_minMaxOffset ?d < nd_maxMinOffset ?d")
    case True
    obtain r where "makeHostReportIfRequired ?d = ?d\<lparr>nd_reports := r\<rparr>" "full_inv T (?d\<lparr>nd_reports := r\<rparr>)"
      using full_report[OF d] by blast
    moreover have "shape (?d\<lparr>nd_stopReading := True\<rparr>) = shape ?d" by (simp add: shape_def)
    ultimately show ?thesis
      using True f resync_reading[OF f(1) s] full_stop_reading[OF d s] by simp
  next
    case False
    then have m: "nd_maxMinOffset ?d \<le> nd_minMaxOffset ?d" by simp
    show ?thesis
      using False got_done_ok[OF d assms(2) f(1) s midpoint[OF d m s]] got_refine_ok[OF d assms(2) f(1,3) midpoint[OF d m s]]
      by (simp add: Let_def field_simps)
  qed
  then show ?thesis unfolding gotPacket_def Let_def f(2)[symmetric] by (auto simp: reading_ok_def)
qed

lemma real_sint: "- (2 ^ 31) \<le> real_of_int (sint (w :: u32))" "real_of_int (sint (w :: u32)) \<le> 2 ^ 31"
proof -
  have "- (2 ^ 31) \<le> sint w" "sint w \<le> 2 ^ 31" using sint_greater_eq[of w] sint_less[of w] by simp_all
  then have "real_of_int (- (2 ^ 31)) \<le> real_of_int (sint w)" "real_of_int (sint w) \<le> real_of_int (2 ^ 31)"
    by (simp_all only: of_int_le_iff)
  then show "- (2 ^ 31) \<le> real_of_int (sint w)" "real_of_int (sint w) \<le> 2 ^ 31" by (simp_all del: of_int_sint)
qed

lemma LFPTOD_bound: "\<bar>LFPTOD v\<bar> \<le> 2 ^ 31 + 1"
proof -
  note s = real_sint
  have u: "0 \<le> real_of_int (uint w) / FRAC" "real_of_int (uint w) / FRAC \<le> 1" for w :: u32
    using uint_lt2p[of w] by (simp_all add: FRAC_def del: of_int_uint)
  have "\<bar>real_of_int (sint a) + real_of_int (uint b) / FRAC\<bar> \<le> 2 ^ 31 + 1" for a b :: u32
    using s[of a] u[of b] unfolding abs_le_iff by linarith
  note b = this
  obtain i f where m: "M_NEG (l_ui v) (l_uf v) = (i, f)" by fastforce
  show ?thesis
    using b[of i f] b[of "l_ui v" "l_uf v"]
    by (simp add: LFPTOD_def m abs_le_iff del: of_int_uint of_int_sint)
qed

lemma host_error_bound:
  assumes "check_packet len p = Some (VGood st h)"
  shows "\<bar>host_error st h\<bar> \<le> 2 ^ 31 + 64"
proof -
  note a = accepted_packet[OF assms]
  define s where "s = uint st"
  define pen where "pen = (if 8 \<le> s then 0.5 + (real_of_int s - 8) * 0.25 else 0)"
  have "0 \<le> s" "s < 256" using uint_lt2p[of st] unfolding s_def by simp_all
  then have p: "0 \<le> pen" "pen \<le> 62.25" by (simp_all add: pen_def)
  have e: "host_error st h = hd_rootdispersion h * 1.25 + hd_rootdelay h / 2 + hd_precision h + pen"
    unfolding host_error_def Let_def s_def pen_def ES_BASE_PENALTY_STRATUM_def ES_BASE_STRATUM_PENALTY_def
      ES_PENALTY_PER_STRATUM_def by (simp del: of_int_uint)
  have "- (2 ^ 31) \<le> hd_precision h" using precision_accepted[OF a(4,5)] by auto
  then show ?thesis using a(5-7,9,10) p unfolding e abs_le_iff by simp
qed

lemma packet_bounds_bound:
  assumes "check_packet len p = Some (VGood st h)" "packet_bounds recv p st h = (lo, hi, err)"
  shows "\<bar>lo\<bar> \<le> 2 ^ 33" "\<bar>hi\<bar> \<le> 2 ^ 33"
proof -
  obtain off rtt where o: "packet_offset recv p = (off, rtt)" by fastforce
  have "\<bar>off\<bar> \<le> 2 ^ 31 + 1" using o LFPTOD_bound by (auto simp: packet_offset_def Let_def)
  moreover have "\<bar>rtt\<bar> \<le> 2 ^ 15"
  proof -
    obtain w :: u32 where "rtt = FPTOD (sint w)" using o by (auto simp: packet_offset_def Let_def)
    then show ?thesis using real_sint[of w] by (simp add: FPTOD_def FRIC_def abs_le_iff del: of_int_sint)
  qed
  moreover note host_error_bound[OF assms(1)]
  moreover have "lo = off - (rtt / 2 + host_error st h)" "hi = off + (rtt / 2 + host_error st h)"
    using assms(2) o by (simp_all add: packet_bounds_def Let_def)
  ultimately show "\<bar>lo\<bar> \<le> 2 ^ 33" "\<bar>hi\<bar> \<le> 2 ^ 33" unfolding abs_le_iff by simp_all
qed

text \<open>
  \<open>honest \<theta> recv p e\<close>: a server whose clock is ahead by \<open>\<theta>\<close> answered with \<open>p\<close>, received at \<open>recv\<close>: the
  two ways took \<open>d1\<close> and \<open>d2\<close>, and the stamps of the server are right within \<open>e\<close>. \<open>answer_ok\<close>: the
  checks of a packet are defined, and if they accept it, it came from such a server.
\<close>

definition honest :: "real \<Rightarrow> l_fp \<Rightarrow> pkt \<Rightarrow> real \<Rightarrow> bool" where
  "honest \<theta> recv p e \<longleftrightarrow> (\<exists>n0 n1 n2 n3 d1 d2 e1 e2. exchange recv p n0 n1 n2 n3 \<and>
     real_of_int n2 / FRAC = real_of_int n3 / FRAC + \<theta> + d1 + e1 \<and>
     real_of_int n0 / FRAC = real_of_int n1 / FRAC - \<theta> - e2 + d2 \<and>
     0 \<le> d1 \<and> 0 \<le> d2 \<and> \<bar>e1\<bar> \<le> e \<and> \<bar>e2\<bar> \<le> e)"

definition answer_ok :: "outlook set \<Rightarrow> ntp_env \<Rightarrow> int \<Rightarrow> pkt \<Rightarrow> bool" where
  "answer_ok T en len p \<longleftrightarrow> check_packet len p \<noteq> None \<and>
     (\<forall>st h. check_packet len p = Some (VGood st h) \<longrightarrow>
        (\<forall>w\<in>T. honest (trueSkew w) (fst (timeStampMake (ne_now en))) p (host_error st h)))"

lemma answer_bounds:
  assumes "answer_ok T en len p" "check_packet len p = Some (VGood st h)" "w \<in> T"
    and b: "packet_bounds (fst (timeStampMake (ne_now en))) p st h = (lo, hi, err)"
  shows "lo - 1 / FRIC \<le> trueSkew w \<and> trueSkew w \<le> hi + 1 / FRIC"
proof -
  have "honest (trueSkew w) (fst (timeStampMake (ne_now en))) p (host_error st h)"
    using assms(1-3) by (simp add: answer_ok_def)
  then obtain n0 n1 n2 n3 d1 d2 e1 e2 where h: "exchange (fst (timeStampMake (ne_now en))) p n0 n1 n2 n3"
      "real_of_int n2 / FRAC = real_of_int n3 / FRAC + trueSkew w + d1 + e1"
      "real_of_int n0 / FRAC = real_of_int n1 / FRAC - trueSkew w - e2 + d2" "0 \<le> d1" "0 \<le> d2"
      "\<bar>e1\<bar> \<le> host_error st h" "\<bar>e2\<bar> \<le> host_error st h"
    unfolding honest_def by metis
  show ?thesis using packet_interval[OF h] b by simp
qed

lemma full_put_sock:
  assumes "full_inv T d" "sock_ok sk"
  shows "full_inv T (put_sock si sk d)"
  by (rule full_sent[OF assms(1) put_sock_inv[OF full_inner[OF assms(1)] assms(2)]]) simp

lemma full_received:
  assumes "full_inv T d"
  shows "full_inv T (d\<lparr>st_numPacketsReceived := st_numPacketsReceived d + 1\<rparr>)"
  using assms
  by (simp add: full_inv_def base_inv_def fail_ok_def truth_def tells_simps idle_ok_def polling_ok_def bounds_ok_def es_ok_def
      inner_inv_def throttle_ok_def shape_def)

lemma put_sock_reading [simp]: "nd_reading (put_sock si sk d) = nd_reading d"
  by (simp add: put_sock_def put_host_def Let_def)

lemma note_bounds_timer [simp]: "sk_timer (note_bounds pol lo hi e sk) = sk_timer sk"
  by (simp add: note_bounds_def Let_def)

lemma no_timer_ok: "sk_timer sk = NoTimer \<Longrightarrow> sock_ok sk"
  by (simp add: sock_ok_def)

lemma recv_good_ok:
  assumes "full_inv T d" "env_ok en" "nd_reading d" "has_sock si (shape d)" "the_sock si d = Some sk"
    and "sk_timer sk = NoTimer" "check_packet len p = Some (VGood st h)" "answer_ok T en len p"
  shows "\<exists>d'. recvPacket_good en si p st h d = Some (True, d') \<and> full_inv T d' \<and> nd_reading d' \<and> shape d' = shape d"
proof -
  obtain lo hi err where b: "packet_bounds (fst (timeStampMake (ne_now en))) p st h = (lo, hi, err)"
    by (cases "packet_bounds (fst (timeStampMake (ne_now en))) p st h")
  have t: "\<And>w. w \<in> T \<Longrightarrow> lo - 1 / FRIC \<le> trueSkew w \<and> trueSkew w \<le> hi + 1 / FRIC" using answer_bounds[OF assms(8,7) _ b] .
  define sk1 where "sk1 = note_bounds (st_inPollingMode d) lo hi (host_error st h)
      (sk\<lparr>sk_stratum := Some (uint st), sk_leapBits := uint (hd_leap h)\<rparr>)"
  define sk2 where "sk2 = sk1\<lparr>sk_packetsUsed := sk_packetsUsed sk1 + 1, sk_sumRTT := sk_sumRTT sk1 + err * 2\<rparr>"
  define sk3 where "sk3 = sk2\<lparr>sk_averageRTT := sk_sumRTT sk2 / of_int (sk_packetsReceived sk2)\<rparr>"
  have "sock_ok sk3" using assms(6) by (intro no_timer_ok) (simp add: sk3_def sk2_def sk1_def)
  then have d: "full_inv T (put_sock si sk3 d)" by (rule full_put_sock[OF assms(1)])
  obtain d' where d': "gotPacket en lo hi si (put_sock si sk3 d) = Some (True, d')" "full_inv T d'" "nd_reading d'"
      "shape d' = shape (put_sock si sk3 d)"
    using gotPacket_ok[OF d assms(2) _ _ packet_bounds_bound[OF assms(7) b] t, of si] assms(3,4) by auto
  have "recvPacket_good en si p st h d = Some (True, d')"
    unfolding recvPacket_good_def assms(5) b Let_def bind.bind_lunit prod.case
      sk1_def[symmetric] sk2_def[symmetric] sk3_def[symmetric] d'(1)
    by simp
  then show ?thesis using d' by simp
qed

lemma bad_ok:
  assumes "full_inv T d" "nd_reading d" "has_sock si (shape d)"
  shows "reading_ok T d (stateGotBadPacket en si d)"
  by (rule sent_reading[OF assms(1,2) sends_ok(2)[OF full_inner[OF assms(1)] assms(3)]])

lemma put_bad_ok:
  assumes "full_inv T d" "nd_reading d" "has_sock si (shape d)" "sk_timer sk = NoTimer"
  shows "reading_ok T d (stateGotBadPacket en si (put_sock si sk d))"
proof -
  have "full_inv T (put_sock si sk d)" by (rule full_put_sock[OF assms(1) no_timer_ok[OF assms(4)]])
  then have "reading_ok T (put_sock si sk d) (stateGotBadPacket en si (put_sock si sk d))"
    by (rule bad_ok) (use assms in simp_all)
  then show ?thesis using reading_ok_trans[of "put_sock si sk d" d] by simp
qed

lemma the_sock_received [simp]: "the_sock si (d\<lparr>st_numPacketsReceived := k\<rparr>) = the_sock si d"
  by (simp add: the_sock_def the_host_def)

lemma recv_ok:
  assumes "full_inv T d" "env_ok en" "nd_reading d" "has_sock si (shape d)" "answer_ok T en len p"
  shows "\<exists>b d'. recvPacket en si len p d = Some (b, d') \<and> full_inv T d' \<and> nd_reading d' \<and> shape d' = shape d"
proof -
  obtain sk where sk: "the_sock si d = Some sk" using the_sock_Some[OF assms(4)] by blast
  show ?thesis
  proof (cases "find_xmit (pkt_org p) (sk_xmitTimes sk)")
    case None
    then have "recvPacket en si len p d = Some (False, d)" using sk by (simp add: recvPacket_def)
    then show ?thesis using assms(1,3) by blast
  next
    case (Some xr)
    obtain x rest where xr: "xr = (x, rest)" by fastforce
    define sk1 where "sk1 = sk\<lparr>sk_xmitTimes := rest, sk_packetsReceived := sk_packetsReceived sk + 1, sk_timer := NoTimer\<rparr>"
    define d1 where "d1 = (put_sock si sk1 d)\<lparr>st_numPacketsReceived := st_numPacketsReceived d + 1\<rparr>"
    have t: "sk_timer sk1 = NoTimer" by (simp add: sk1_def)
    have "full_inv T (put_sock si sk1 d)" by (rule full_put_sock[OF assms(1) no_timer_ok[OF t]])
    then have d1: "full_inv T d1" using full_received by (fastforce simp: d1_def)
    have sh: "shape d1 = shape (put_sock si sk1 d)" by (simp only: d1_def shape_def) simp
    have f: "nd_reading d1" "shape d1 = shape d" "has_sock si (shape d1)"
      using assms(3,4) sh by (simp_all add: d1_def)
    have s1: "the_sock si d1 = Some sk1"
      using the_sock_put[OF assms(4), of sk1] by (simp add: d1_def)
    obtain v where v: "check_packet len p = Some v" using assms(5) by (auto simp: answer_ok_def)
    note bad = put_bad_ok[OF d1 f(1,3)]
    have e: "recvPacket en si len p d = (case v of
           VBadPacket \<Rightarrow> do { d \<leftarrow> badPacket en si d1; Some (False, d) }
         | VBadHost None \<Rightarrow> do { d \<leftarrow> badHost en si d1; Some (False, d) }
         | VBadHost (Some stratum) \<Rightarrow> do {
             d \<leftarrow> badHost en si (put_sock si (sk1\<lparr>sk_stratum := Some (uint stratum)\<rparr>) d1);
             Some (False, d) }
         | VBadTimes stratum leap \<Rightarrow> do {
             d \<leftarrow> stateGotBadPacket en si
               (put_sock si (sk1\<lparr>sk_stratum := Some (uint stratum), sk_leapBits := uint leap\<rparr>) d1);
             Some (False, d) }
         | VGood stratum h \<Rightarrow> recvPacket_good en si p stratum h d1)"
      by (simp add: recvPacket_def sk Some xr v sk1_def[symmetric] d1_def[symmetric])
    have fin: "\<exists>b d'. do { d \<leftarrow> r; Some (False, d) } = Some (b, d') \<and> full_inv T d' \<and> nd_reading d' \<and> shape d' = shape d"
      if "reading_ok T d1 r" for r
      using that f(2) by (auto simp: reading_ok_def)
    show ?thesis
    proof (cases v)
      case VBadPacket
      then show ?thesis unfolding e using fin bad t by (simp add: badPacket_def s1)
    next
      case (VBadHost st)
      show ?thesis
      proof (cases st)
        case None
        then show ?thesis unfolding e using VBadHost fin bad t by (simp add: badHost_def s1)
      next
        case (Some st')
        let ?sk = "sk1\<lparr>sk_stratum := Some (uint st')\<rparr>"
        let ?d = "put_sock si ?sk d1"
        have d: "full_inv T ?d" using d1 t by (intro full_put_sock no_timer_ok) simp_all
        have "reading_ok T ?d (stateGotBadPacket en si (put_sock si (?sk\<lparr>sk_averageRTT := ES_FORCE_RTT_FOR_BAD_HOST\<rparr>) ?d))"
          by (rule put_bad_ok[OF d]) (use f t in simp_all)
        then have "reading_ok T d1 (badHost en si ?d)"
          using reading_ok_trans[of ?d d1] the_sock_put[OF f(3), of ?sk] by (simp add: badHost_def)
        then show ?thesis unfolding e using VBadHost Some fin by simp
      qed
    next
      case (VBadTimes st lp)
      then show ?thesis unfolding e using fin bad t by simp
    next
      case (VGood st h)
      then show ?thesis unfolding e
        using recv_good_ok[OF d1 assms(2) f(1,3) s1 t _ assms(5), of st h] v f(2) by auto
    qed
  qed
qed

definition readers_ok :: "outlook set \<Rightarrow> ntp_env \<Rightarrow> readers \<Rightarrow> bool" where
  "readers_ok T en fds \<longleftrightarrow> (\<forall>fd len p. fds fd = Some (len, p) \<longrightarrow> answer_ok T en len p)"

lemma process_host_ok:
  assumes "full_inv T d" "env_ok en" "nd_reading d" "readers_ok T en fds" "\<forall>i\<in>set is. has_sock (n, i) (shape d)"
  shows "reading_ok T d (processRemoteSockets_host en fds n is d)"
  using assms(1,3,5)
proof (induction "is" arbitrary: d)
  case (Cons i "is")
  obtain sk where sk: "the_sock (n, i) d = Some sk" using the_sock_Some[of "(n, i)" d] Cons.prems(3) by auto
  show ?case
  proof (cases "if sk_fd sk \<ge> 0 then fds (sk_fd sk) else None")
    case None
    then show ?thesis using Cons.IH[OF Cons.prems(1,2)] Cons.prems(3) sk by (simp split: if_splits)
  next
    case (Some lp)
    obtain len p where lp: "lp = (len, p)" by fastforce
    have "answer_ok T en len p" using assms(4) Some lp by (auto simp: readers_ok_def split: if_splits)
    moreover have "has_sock (n, i) (shape d)" using Cons.prems(3) by simp
    ultimately obtain b d' where d': "recvPacket en (n, i) len p d = Some (b, d')" "full_inv T d'" "nd_reading d'"
        "shape d' = shape d"
      using recv_ok[OF Cons.prems(1) assms(2) Cons.prems(2)] by blast
    have "reading_ok T d (processRemoteSockets_host en fds n is d')"
      using Cons.IH[OF d'(2,3)] Cons.prems(3) reading_ok_trans[OF d'(4)] d'(4) by simp
    then show ?thesis using sk Some lp d' by (simp split: if_splits)
  qed
qed simp

lemma process_loop_ok:
  assumes "full_inv T d" "env_ok en" "nd_reading d" "readers_ok T en fds" "\<forall>n\<in>set ns. n < length (shape d)"
  shows "reading_ok T d (processRemoteSockets_loop en fds ns d)"
  using assms(1,3,5)
proof (induction ns arbitrary: d)
  case (Cons n ns)
  let ?h = "nd_hosts d ! n"
  have n: "the_host n d = Some ?h" "snd (shape d ! n) = length (hn_sockets ?h)" "n < length (shape d)"
    using Cons.prems(3) by (simp_all add: the_host_def shape_def)
  have "\<forall>i\<in>set [0..<length (hn_sockets ?h)]. has_sock (n, i) (shape d)" using n by (simp add: has_sock_def)
  then obtain d' where d': "processRemoteSockets_host en fds n [0..<length (hn_sockets ?h)] d = Some d'" "full_inv T d'"
      "nd_reading d'" "shape d' = shape d"
    using process_host_ok[OF Cons.prems(1) assms(2) Cons.prems(2) assms(4)] unfolding reading_ok_def by blast
  have "reading_ok T d (processRemoteSockets_loop en fds ns d')"
    using Cons.IH[OF d'(2,3)] Cons.prems(3) reading_ok_trans[OF d'(4)] d'(4) by simp
  then show ?case using n(1) d'(1) by simp
qed simp

definition event_ok :: "outlook set \<Rightarrow> ntp_driver option \<Rightarrow> bool" where
  "event_ok T r \<longleftrightarrow> (\<exists>d'. r = Some d' \<and> full_inv T d' \<and> quiet d')"

lemma event_ok_Some [simp]: "event_ok T (Some d') \<longleftrightarrow> full_inv T d' \<and> quiet d'"
  by (simp add: event_ok_def)

lemma stop_ok:
  assumes "full_inv T d" "env_ok en" "quiet d" "st_lastSyncStart d \<noteq> 0"
  shows "event_ok T (stopSyncingInThisThread en d)"
  using stop_total[of d en] full_stopped[OF assms(1)] assms by (auto simp: event_ok_def full_inv_def quiet_def)

lemma full_flags [simp]:
  "full_inv T (d\<lparr>nd_reading := b\<rparr>) = full_inv T d"
  "full_inv T d \<Longrightarrow> full_inv T (d\<lparr>nd_reading := b, nd_stopReading := False\<rparr>)"
  by (simp_all add: full_inv_def base_inv_def fail_ok_def truth_def tells_simps idle_ok_def polling_ok_def bounds_ok_def es_ok_def
      inner_inv_cong[of "d\<lparr>nd_reading := b\<rparr>" d] inner_inv_cong[of "d\<lparr>nd_reading := b, nd_stopReading := False\<rparr>" d])

lemma process_ok:
  assumes "full_inv T d" "env_ok en" "quiet d" "readers_ok T en fds"
  shows "event_ok T (processRemoteSockets en fds d)"
proof -
  let ?d = "d\<lparr>nd_reading := True\<rparr>"
  have "full_inv T ?d" "nd_reading ?d" "\<forall>n\<in>set [0..<length (nd_hosts d)]. n < length (shape ?d)"
    using assms(1) by (simp_all add: shape_def)
  then obtain d' where d': "processRemoteSockets_loop en fds [0..<length (nd_hosts d)] ?d = Some d'" "full_inv T d'"
    using process_loop_ok[OF _ assms(2) _ assms(4)] unfolding reading_ok_def by blast
  let ?e = "d'\<lparr>nd_reading := False, nd_stopReading := False\<rparr>"
  have "event_ok T (stopSyncingInThisThread en ?e)" if "nd_stopReading d'"
    using that d'(2) by (intro stop_ok assms(2)) (simp_all add: quiet_def, simp add: full_inv_def base_inv_def)
  then show ?thesis using d' by (simp add: processRemoteSockets_def quiet_def Let_def)
qed

end
