(* ===== verification/EsNtpDriverRun.thy ===== *)
theory EsNtpDriverRun
  imports EsNtpDriverLaws
begin

text \<open>
  Runs of the NTP driver: every event keeps the invariant, and what follows for all reachable
  states.
\<close>

section \<open>Frames\<close>

lemma full_cong:
  assumes "nd_hosts d' = nd_hosts d" "nd_available d' = nd_available d"
    "nd_throttleSendInterval d' = nd_throttleSendInterval d" "st_numPacketsReceived d' = st_numPacketsReceived d"
    "nd_es d' = nd_es d" "nd_index d' = nd_index d" "nd_hostNameIterator d' = nd_hostNameIterator d"
    "nd_names d' = nd_names d" "st_lastSyncStart d' = st_lastSyncStart d" "nd_activity d' = nd_activity d"
    "nd_giveUpTimer d' = nd_giveUpTimer d" "nd_proximityBumpTimer d' = nd_proximityBumpTimer d"
    "nd_noProgressTimeout d' = nd_noProgressTimeout d" "st_inPollingMode d' = st_inPollingMode d"
    "st_pollingHostTimer d' = st_pollingHostTimer d" "nd_inbox d' = nd_inbox d"
    "st_nextSendHostIndex d' = st_nextSendHostIndex d" "nd_maxMinOffset d' = nd_maxMinOffset d"
    "nd_minMaxOffset d' = nd_minMaxOffset d" "nd_stopReading d' = nd_stopReading d"
    "nd_lastFailTimeout d' = nd_lastFailTimeout d"
  shows "full_inv T d' = full_inv T d"
  using assms inner_inv_cong[of d' d]
  by (simp add: full_inv_def base_inv_def fail_ok_def truth_def tells_simps idle_ok_def polling_ok_def bounds_ok_def es_ok_def)

lemma full_frame [simp]:
  "full_inv T (d\<lparr>nd_networkObserver := b\<rparr>) = full_inv T d"
  "full_inv T (d\<lparr>nd_networkReachable := b\<rparr>) = full_inv T d"
  "full_inv T (d\<lparr>nd_restartSyncTimeout := t\<rparr>) = full_inv T d"
  "full_inv T (d\<lparr>nd_poolHostLookupFailures := k\<rparr>) = full_inv T d"
  "full_inv T (d\<lparr>nd_disabled := b\<rparr>) = full_inv T d"
  "full_inv T (d\<lparr>nd_finishedBackgroundTasks := l\<rparr>) = full_inv T d"
  "full_inv T (d\<lparr>nd_currentProximity := k\<rparr>) = full_inv T d"
  "full_inv T (d\<lparr>st_numLongTimeoutsTriggered := k\<rparr>) = full_inv T d"
  "full_inv T (d\<lparr>nd_reportObservers := obs\<rparr>) = full_inv T d"
  "full_inv T (d\<lparr>nd_deviceCountryCode := cc\<rparr>) = full_inv T d"
  "full_inv T (d\<lparr>st_pollingInterval := k\<rparr>) = full_inv T d"
  "full_inv T (d\<lparr>st_pollingCycleRunning := b\<rparr>) = full_inv T d"
  "full_inv T (d\<lparr>st_pollingRunning := b\<rparr>) = full_inv T d"
  "full_inv T (d\<lparr>nd_reports := r\<rparr>) = full_inv T d"
  by (rule full_cong; simp)+

lemma full_timers:
  assumes "full_inv T d" "st_lastSyncStart d \<noteq> 0"
  shows "full_inv T (d\<lparr>nd_noProgressTimeout := t\<rparr>)" "st_inPollingMode d \<Longrightarrow> full_inv T (d\<lparr>nd_giveUpTimer := t\<rparr>)"
    "full_inv T (d\<lparr>nd_proximityBumpTimer := t\<rparr>)"
  using assms inner_inv_cong[of "d\<lparr>nd_noProgressTimeout := t\<rparr>" d] inner_inv_cong[of "d\<lparr>nd_giveUpTimer := t\<rparr>" d]
    inner_inv_cong[of "d\<lparr>nd_proximityBumpTimer := t\<rparr>" d]
  by (simp_all add: full_inv_def base_inv_def fail_ok_def truth_def tells_simps idle_ok_def polling_ok_def bounds_ok_def es_ok_def)

lemma full_timer_syncing:
  assumes "full_inv T d" "nd_noProgressTimeout d \<noteq> NoTimer \<or> nd_giveUpTimer d \<noteq> NoTimer \<or> nd_proximityBumpTimer d \<noteq> NoTimer"
  shows "st_lastSyncStart d \<noteq> 0"
  using assms by (auto simp: full_inv_def base_inv_def idle_ok_def)

lemma full_polling:
  assumes "full_inv T d" "st_inPollingMode d"
  shows "full_inv T (d\<lparr>st_pollingHostTimer := t\<rparr>)" "0 \<le> k \<Longrightarrow> full_inv T (d\<lparr>st_nextSendHostIndex := k\<rparr>)"
  using assms inner_inv_cong[of "d\<lparr>st_pollingHostTimer := t\<rparr>" d] inner_inv_cong[of "d\<lparr>st_nextSendHostIndex := k\<rparr>" d]
  by (simp_all add: full_inv_def base_inv_def fail_ok_def truth_def tells_simps idle_ok_def polling_ok_def bounds_ok_def es_ok_def)

lemma full_iterator:
  assumes "full_inv T d" "farm_ok (it_farm it)" "it_hostIndex it = - 1" "it_userIterator it = None"
  shows "full_inv T (d\<lparr>nd_hostNameIterator := it\<rparr>)"
  using assms inner_inv_cong[of "d\<lparr>nd_hostNameIterator := it\<rparr>" d]
  by (simp add: full_inv_def base_inv_def fail_ok_def truth_def tells_simps idle_ok_def polling_ok_def bounds_ok_def es_ok_def)

lemma full_inbox:
  assumes "full_inv T d"
    and "st_inPollingMode d \<or> set ms \<subseteq> set (nd_inbox d) \<union> - {MsgRestartPollingCycle, MsgStopPollingCycle}"
  shows "full_inv T (d\<lparr>nd_inbox := ms\<rparr>)"
  using assms inner_inv_cong[of "d\<lparr>nd_inbox := ms\<rparr>" d]
  by (auto simp: full_inv_def base_inv_def fail_ok_def truth_def tells_simps idle_ok_def polling_ok_def bounds_ok_def es_ok_def)

lemma quiet_cong: "nd_reading d' = nd_reading d \<Longrightarrow> nd_stopReading d' = nd_stopReading d \<Longrightarrow> quiet d' = quiet d"
  by (simp add: quiet_def)

lemma full_hosts:
  assumes "full_inv T d" "inner_inv (d\<lparr>nd_hosts := hs, nd_available := av\<rparr>)" "hs = [] \<longleftrightarrow> nd_hosts d = []"
  shows "full_inv T (d\<lparr>nd_hosts := hs, nd_available := av\<rparr>)"
  using assms
  by (simp add: full_inv_def base_inv_def fail_ok_def truth_def tells_simps idle_ok_def polling_ok_def bounds_ok_def es_ok_def)

lemma full_put_host:
  assumes "full_inv T d" "host_ok h" "shape (put_host n h d) = shape d"
  shows "full_inv T (put_host n h d)"
  by (rule full_sent[OF assms(1) put_host_inner[OF full_inner[OF assms(1)] assms(2,3)] put_host_outer[OF assms(3)]])

lemma sent_event:
  assumes "full_inv T d" "quiet d" "sent_ok d r"
  shows "event_ok T r"
  using assms full_sent[of T d] by (auto simp: sent_ok_def event_ok_def outer_def quiet_def)

section \<open>Names\<close>

lemma the_host_Some: "the_host n d = Some h \<longleftrightarrow> n < length (nd_hosts d) \<and> h = nd_hosts d ! n"
  by (auto simp: the_host_def)

lemma the_host_frame [simp]:
  "the_host n (d\<lparr>nd_reports := r\<rparr>) = the_host n d" "the_host n (d\<lparr>nd_networkObserver := b\<rparr>) = the_host n d"
  "the_host n (d\<lparr>nd_poolHostLookupFailures := k\<rparr>) = the_host n d"
  by (simp_all add: the_host_def)

lemma the_host_ok: "full_inv T d \<Longrightarrow> the_host n d = Some h \<Longrightarrow> host_ok h"
  by (auto simp: full_inv_def base_inv_def inner_inv_def the_host_Some)

lemma host_syncing: "full_inv T d \<Longrightarrow> the_host n d = Some h \<Longrightarrow> st_lastSyncStart d \<noteq> 0"
  by (auto simp: full_inv_def base_inv_def idle_ok_def the_host_Some)

lemma the_host_put: "n < length (nd_hosts d) \<Longrightarrow> the_host n (put_host n h d) = Some h"
  by (simp add: the_host_def put_host_def)

lemma shape_put_same:
  assumes "the_host n d = Some h" "hn_isUserHost h' = hn_isUserHost h" "length (hn_sockets h') = length (hn_sockets h)"
  shows "shape (put_host n h' d) = shape d"
  using assms by (intro shape_put_host) (simp add: the_host_Some)

lemma put_host_quiet [simp]: "quiet (put_host n h d) = quiet d"
  by (simp add: quiet_def put_host_def)

lemma failure_ok:
  assumes "full_inv T d" "quiet d" "the_host n d = Some h" "hn_failureTimer h = NoTimer" "hn_sockets h = []"
    and "\<not> hn_resolving h" "hn_doneResolving h"
  shows "event_ok T (stateGotNameResolutionFailure en n d)"
proof -
  define h' where "h' = h\<lparr>hn_failureTimer := Pending (ne_now en + ES_RESOLUTION_FAILURE_RETRY_BASE * of_int (hn_numResolutionFailures h))\<rparr>"
  have n: "n < length (nd_hosts d)" using assms(3) by (simp add: the_host_Some)
  have "host_ok h" by (rule the_host_ok[OF assms(1,3)])
  then have "host_ok h'" using assms(4-7) by (simp add: host_ok_def h'_def)
  then have f: "full_inv T (put_host n h' d)"
    by (rule full_put_host[OF assms(1)]) (rule shape_put_same[OF assms(3)], simp_all add: h'_def)
  have "full_inv T (snd (resolveOnePoolHostDNS (put_host n h' d)))"
    by (rule full_sent[OF f resolveOne_ok[OF full_inner[OF f]]])
  moreover have "quiet (snd (resolveOnePoolHostDNS (put_host n h' d)))"
    using resolveOne_ok(2)[OF full_inner[OF f]] assms(2)
    by (simp add: outer_def quiet_def) (simp add: put_host_def)
  ultimately show ?thesis
    using assms(2-4) f the_host_put[OF n, of h']
    by (simp add: stateGotNameResolutionFailure_def setupPostResolutionFailureTimer_def h'_def[symmetric])
qed

lemma unreachable_ok:
  assumes "full_inv T d" "quiet d" "env_ok en"
  shows "event_ok T (stateGotNetworkUnreachable en k d)"
proof -
  let ?d = "d\<lparr>nd_networkReachable := False\<rparr>"
  have f: "full_inv T ?d" using assms(1) by simp
  obtain dr where dr: "own_driver d = Some dr" using full_own[OF assms(1)] by metis
  obtain s where s: "ntp_setStatus en (no_net_status (drv_status dr)) ?d = Some (?d\<lparr>nd_es := s\<rparr>)" "full_inv T (?d\<lparr>nd_es := s\<rparr>)"
    using full_setStatus[OF f assms(3) not_synchronized(3)] by blast
  define d1 where "d1 = (if k \<or> nd_hosts d \<noteq> [] then ?d\<lparr>nd_es := s\<rparr> else ?d)"
  have d1: "full_inv T d1" "quiet d1" using s(2) f assms(2) by (simp_all add: d1_def quiet_def)
  have "stateGotNetworkUnreachable en k d = (if st_lastSyncStart d1 \<noteq> 0 then stopSyncingInThisThread en d1 else Some d1)"
    using s(1) dr by (simp add: stateGotNetworkUnreachable_def d1_def ntp_status_def)
  then show ?thesis using stop_ok[OF d1(1) assms(3) d1(2)] d1 by simp
qed

lemma resolution_failed_ok:
  assumes "full_inv T d" "quiet d" "env_ok en" "the_host n d = Some h" "hn_failureTimer h = NoTimer" "hn_sockets h = []"
    and "\<not> hn_resolving h" "hn_doneResolving h"
  shows "event_ok T (nameResolutionFailed en reachable n d)"
proof -
  obtain r where r: "makeHostReportIfRequired d = d\<lparr>nd_reports := r\<rparr>" using makeHostReport_eq by blast
  have f: "full_inv T (d\<lparr>nd_reports := r\<rparr>)" "full_inv T (d\<lparr>nd_reports := r, nd_networkObserver := True\<rparr>)"
    using assms(1) by simp_all
  have q: "quiet (d\<lparr>nd_reports := r\<rparr>)" "quiet (d\<lparr>nd_reports := r, nd_networkObserver := True\<rparr>)"
    using assms(2) by (simp_all add: quiet_def)
  have h: "the_host n (d\<lparr>nd_reports := r\<rparr>) = Some h" "the_host n (d\<lparr>nd_reports := r, nd_networkObserver := True\<rparr>) = Some h"
    using assms(4) by simp_all
  show ?thesis
    using failure_ok[OF f(1) q(1) h(1) assms(5-8)] failure_ok[OF f(2) q(2) h(2) assms(5-8)]
      unreachable_ok[OF f(2) q(2) assms(3)]
    by (simp add: nameResolutionFailed_def r Let_def)
qed

lemma notify_failed_ok:
  assumes "full_inv T d" "quiet d" "env_ok en" "the_host n d = Some h" "hn_resolving h"
  shows "event_ok T (notifyNameResolutionFailed en reachable n d)"
proof -
  let ?h = "h\<lparr>hn_resolving := False, hn_doneResolving := True, hn_numResolutionFailures := hn_numResolutionFailures h + 1\<rparr>"
  have ok: "host_ok h" by (rule the_host_ok[OF assms(1,4)])
  then have o: "hn_sockets h = []" "hn_failureTimer h = NoTimer" using assms(5) by (auto simp: host_ok_def)
  have n: "n < length (nd_hosts d)" using assms(4) by (simp add: the_host_Some)
  have "host_ok ?h" using ok o by (simp add: host_ok_def)
  then have "full_inv T (put_host n ?h d)"
    by (rule full_put_host[OF assms(1)]) (rule shape_put_same[OF assms(4)], simp_all)
  then show ?thesis
    using resolution_failed_ok[of T "put_host n ?h d" en n ?h reachable] assms(2-4) o the_host_put[OF n, of ?h]
    by (simp add: notifyNameResolutionFailed_def)
qed

lemma to_all_ok:
  assumes "inner_inv d" "\<forall>i\<in>set is. has_sock (n, i) (shape d)"
  shows "sent_ok d (sendPacketsToAllHosts_loop en n is d)"
  using assms
proof (induction "is" arbitrary: d)
  case (Cons i "is")
  obtain d' where d': "sendPacket en False (n, i) d = Some d'" "inner_inv d'" "outer d' = outer d"
    using sends_ok(1)[OF Cons.prems(1), of "(n, i)" en False] Cons.prems(2) by (auto simp: sent_ok_def)
  then have "sent_ok d (sendPacketsToAllHosts_loop en n is d')"
    using Cons.IH[OF d'(2)] Cons.prems(2) outer_shape[OF d'(3)] sent_ok_trans[OF d'(3)] by simp
  then show ?case using d'(1) by simp
qed simp

lemma complete_ok:
  assumes "full_inv T d" "quiet d" "the_host n d = Some h"
  shows "event_ok T (nameResolutionComplete en n d)"
proof -
  obtain r where r: "makeHostReportIfRequired d = d\<lparr>nd_reports := r\<rparr>" using makeHostReport_eq by blast
  let ?d = "d\<lparr>nd_reports := r, nd_poolHostLookupFailures := 0\<rparr>"
  have f: "full_inv T ?d" "quiet ?d" "the_host n ?d = Some h"
    using assms by (simp_all add: quiet_def)
  have n: "n < length (nd_hosts d)" "h = nd_hosts d ! n" using assms(3) by (simp_all add: the_host_Some)
  have "\<forall>i\<in>set [0..<length (hn_sockets h)]. has_sock (n, i) (shape ?d)" using n by (simp add: has_sock_def shape_def)
  then have "sent_ok ?d (sendPacketsToAllHosts en n ?d)"
    using to_all_ok[OF full_inner[OF f(1)]] f(3) by (simp add: sendPacketsToAllHosts_def)
  then have "sent_ok ?d (if hn_isUserHost h then sendPacketsToAllHosts en n ?d else sendPacketToFastestPoolHost en ?d)"
    using sends_ok(3)[OF full_inner[OF f(1)]] by simp
  then obtain d1 where d1: "(if hn_isUserHost h then sendPacketsToAllHosts en n ?d else sendPacketToFastestPoolHost en ?d) = Some d1"
      "inner_inv d1" "outer d1 = outer ?d"
    by (auto simp: sent_ok_def)
  have f1: "full_inv T d1" by (rule full_sent[OF f(1) d1(2,3)])
  have o: "quiet d1" "st_lastSyncStart d1 \<noteq> 0"
    using d1(3) assms(2) host_syncing[OF assms(1,3)] by (simp_all add: outer_def quiet_def)
  have "quiet (installNoProgressTimeout en d1)" "full_inv T (installNoProgressTimeout en d1)"
    using o full_timers(1)[OF f1 o(2)] by (simp_all add: installNoProgressTimeout_def quiet_def)
  then show ?thesis
    using f f1 o(1) d1(1)
    by (simp add: nameResolutionComplete_def stateGotNameResolutionComplete_def r Let_def)
qed

lemma push_all:
  "fold (\<lambda>i. pushPoolSocket (n, i)) is d = d\<lparr>nd_available := nd_available d @ map (Pair n) is\<rparr>"
  by (induction "is" arbitrary: d) (simp_all add: pushPoolSocket_def)

lemma notify_complete_ok:
  assumes "full_inv T d" "quiet d" "env_ok en" "the_host n d = Some h" "hn_resolving h"
    and "list_all (\<lambda>a. length (ai_addr a) < sockaddr_storage_size) addrs"
  shows "event_ok T (notifyNameResolutionComplete en reachable n addrs d)"
proof -
  let ?h = "h\<lparr>hn_resolving := False, hn_doneResolving := True\<rparr>"
  let ?hs = "?h\<lparr>hn_sockets := map new_sock addrs\<rparr>"
  have ok: "host_ok h" by (rule the_host_ok[OF assms(1,4)])
  then have o: "hn_sockets h = []" "hn_failureTimer h = NoTimer" using assms(5) by (auto simp: host_ok_def)
  have n: "n < length (nd_hosts d)" "h = nd_hosts d ! n" using assms(4) by (simp_all add: the_host_Some)
  show ?thesis
  proof (cases "addrs = []")
    case True
    have "host_ok ?h" using ok o by (simp add: host_ok_def)
    then have "full_inv T (put_host n ?h d)"
      by (rule full_put_host[OF assms(1)]) (rule shape_put_same[OF assms(4)], simp_all)
    then show ?thesis
      using resolution_failed_ok[of T "put_host n ?h d" en n ?h reachable] assms(2-4) o the_host_put[OF n(1), of ?h] True
      by (simp add: notifyNameResolutionComplete_def)
  next
    case False
    let ?hl = "(nd_hosts d)[n := ?hs]"
    let ?av = "nd_available d @ (if \<not> hn_isUserHost h then map (Pair n) [0..<length addrs] else [])"
    let ?d = "d\<lparr>nd_hosts := ?hl, nd_available := ?av\<rparr>"
    have "host_ok ?hs" using ok o by (auto simp: host_ok_def sock_ok_def new_sock_def)
    then have hl: "\<forall>h\<in>set ?hl. host_ok h"
      using full_inner[OF assms(1)] set_update_subset_insert[of "nd_hosts d" n ?hs] by (auto simp: inner_inv_def)
    have sh: "shape ?d = (shape d)[n := (hn_isUserHost h, length addrs)]" by (simp add: shape_def map_update)
    have av: "pool_sock si (shape ?d)" if "si \<in> set ?av" for si
    proof (cases "si \<in> set (nd_available d)")
      case True
      then have p: "pool_sock si (shape d)" using full_inner[OF assms(1)] by (simp add: inner_inv_def)
      then have "fst si \<noteq> n" using o n by (auto simp: pool_sock_def has_sock_def shape_def)
      then show ?thesis using p unfolding sh by (simp add: pool_sock_def has_sock_def)
    next
      case False
      then show ?thesis using that n unfolding sh
        by (auto simp: pool_sock_def has_sock_def shape_def split: if_splits)
    qed
    have "throttle_ok ?d" using full_inner[OF assms(1)] by (simp add: inner_inv_def throttle_ok_def)
    then have "inner_inv ?d" using hl av by (simp add: inner_inv_def)
    then have f: "full_inv T ?d" using full_hosts[OF assms(1)] by auto
    have q: "quiet ?d" "the_host n ?d = Some ?hs" using assms(2) n by (simp_all add: quiet_def the_host_def)
    have "(if \<not> hn_isUserHost h then fold (\<lambda>i. pushPoolSocket (n, i)) [0..<length addrs] (put_host n ?hs d)
        else put_host n ?hs d) = ?d"
      by (cases d) (simp add: push_all put_host_def)
    then show ?thesis
      using complete_ok[OF f q] assms(4,6) o(1) False
      by (simp add: notifyNameResolutionComplete_def Let_def split del: if_split)
  qed
qed

section \<open>Timers, polling and messages\<close>

lemma retry_ok:
  assumes "full_inv T d" "quiet d" "the_host n d = Some h" "hn_failureTimer h \<noteq> NoTimer"
  shows "event_ok T (postResolutionFailureTimerFire n d)"
proof -
  let ?h = "h\<lparr>hn_failureTimer := NoTimer\<rparr>"
  have n: "n < length (nd_hosts d)" using assms(3) by (simp add: the_host_Some)
  have ok: "host_ok h" by (rule the_host_ok[OF assms(1,3)])
  then have o: "hn_sockets h = []" using assms(4) by (auto simp: host_ok_def)
  have "host_ok (h\<lparr>hn_failureTimer := NoTimer, hn_resolving := True\<rparr>)" using ok o by (simp add: host_ok_def)
  then have "full_inv T (put_host n (h\<lparr>hn_failureTimer := NoTimer, hn_resolving := True\<rparr>) d)"
    by (rule full_put_host[OF assms(1)]) (rule shape_put_same[OF assms(3)], simp_all)
  moreover have "put_host n (?h\<lparr>hn_resolving := True\<rparr>) (put_host n ?h d) = put_host n (?h\<lparr>hn_resolving := True\<rparr>) d"
    by (simp add: put_host_def)
  ultimately show ?thesis
    using assms(2,3) the_host_put[OF n, of ?h] by (simp add: postResolutionFailureTimerFire_def startResolving_def)
qed

lemma fire_sock_ok:
  assumes "full_inv T d" "quiet d" "sock_due now ob si d"
  obtains sk where "the_sock si d = Some sk" "sk_timer sk \<noteq> NoTimer" "sk_timerObserver sk = ob" "sock_ok sk"
    "fire_sock_timer si d = Some (put_sock si (sk\<lparr>sk_timer := Fired\<rparr>) d)"
    "full_inv T (put_sock si (sk\<lparr>sk_timer := Fired\<rparr>) d)" "has_sock si (shape d)"
proof -
  obtain sk where sk: "the_sock si d = Some sk" "due now (sk_timer sk)" "sk_timerObserver sk = ob"
    using assms(3) by (auto simp: sock_due_def split: option.splits)
  have ok: "sock_ok sk" by (rule the_sock_ok[OF full_inner[OF assms(1)] sk(1)])
  have t: "sk_timer sk \<noteq> NoTimer" using sk(2) by (auto simp: due_def)
  then have "sock_ok (sk\<lparr>sk_timer := Fired\<rparr>)" using ok by (simp add: sock_ok_def)
  then have "full_inv T (put_sock si (sk\<lparr>sk_timer := Fired\<rparr>) d)" by (rule full_put_sock[OF assms(1)])
  then show ?thesis using that sk ok t the_sock_has[OF sk(1)] by (simp add: fire_sock_timer_def)
qed

lemma put_sock_quiet [simp]: "quiet (put_sock si sk d) = quiet d"
  by (simp add: put_sock_def Let_def)

lemma send_event:
  assumes "full_inv T d" "quiet d" "has_sock si (shape d)"
  shows "event_ok T (sendPacket en ht si d)"
  by (rule sent_event[OF assms(1,2) sends_ok(1)[OF full_inner[OF assms(1)] assms(3)]])

lemma fresh_ok:
  assumes "inner_inv d"
  shows "inner_inv (snd (ensureFreshHostAvailable d))" "outer (snd (ensureFreshHostAvailable d)) = outer d"
  using resolveOne_ok[OF assms] assms by (auto simp: ensureFreshHostAvailable_def split: option.split)

lemma short_timeout_ok:
  assumes "full_inv T d" "quiet d" "the_sock si d = Some sk" "sk_xmitTimes sk \<noteq> []"
  shows "event_ok T (sendTimeoutShort en si d)"
proof -
  have h: "has_sock si (shape d)" by (rule the_sock_has[OF assms(3)])
  define sk' where "sk' = sk\<lparr>sk_timer := NoTimer, sk_xmitTimes := (hd (sk_xmitTimes sk))
      \<lparr>longTimeoutTimer := Pending (ne_now en + ES_LONG_SOCKET_TIMEOUT)\<rparr> # tl (sk_xmitTimes sk)\<rparr>"
  have f: "full_inv T (put_sock si sk' d)" "full_inv T (put_sock si (sk\<lparr>sk_timer := NoTimer\<rparr>) d)"
    by (intro full_put_sock[OF assms(1)] no_timer_ok, simp add: sk'_def)+
  let ?d = "put_sock si sk' d"
  have i: "inner_inv (snd (ensureFreshHostAvailable ?d))" "outer (snd (ensureFreshHostAvailable ?d)) = outer ?d"
    using fresh_ok[OF full_inner[OF f(1)]] by simp_all
  have "sent_ok ?d (stateGotShortSocketTimeout en si ?d)"
  proof (cases "fst (shape d ! fst si)")
    case True
    then show ?thesis
      using sends_ok(1)[OF full_inner[OF f(1)], of si en False] h is_user_Some[of si ?d]
      by (simp add: stateGotShortSocketTimeout_def)
  next
    case False
    then have "pool_sock si (shape (snd (ensureFreshHostAvailable ?d)))"
      using outer_shape[OF i(2)] h by (simp add: pool_sock_def)
    then show ?thesis
      using False including_ok[OF i(1)] sent_ok_trans[OF i(2)] h is_user_Some[of si ?d]
      by (simp add: stateGotShortSocketTimeout_def)
  qed
  then have "event_ok T (stateGotShortSocketTimeout en si ?d)" using sent_event[OF f(1)] assms(2) by simp
  then show ?thesis
    using f(2) assms(2-4) by (simp add: sendTimeoutShort_def sk'_def Let_def)
qed

lemma no_progress_ok:
  assumes "full_inv T d" "quiet d" "st_lastSyncStart d \<noteq> 0"
  shows "event_ok T (stateGotNoProgressTimeout en d)"
proof -
  note i = full_inner[OF assms(1)]
  have inst: "event_ok T (Some (installNoProgressTimeout en d'))" if "inner_inv d'" "outer d' = outer d" for d'
  proof -
    have "full_inv T d'" "st_lastSyncStart d' \<noteq> 0" "quiet d'"
      using full_sent[OF assms(1) that] that(2) assms(2,3) by (simp_all add: outer_def quiet_def)
    then show ?thesis using full_timers(1) by (simp add: installNoProgressTimeout_def quiet_def)
  qed
  have fr: "event_ok T (Some (snd (ensureFreshHostAvailable d)))"
    by (rule sent_event[OF assms(1,2)]) (use fresh_ok[OF i] in simp)
  obtain d' where "sendPacketToFastestPoolHost en d = Some d'" "inner_inv d'" "outer d' = outer d"
    using sends_ok(3)[OF i, of en] by (auto simp: sent_ok_def)
  then show ?thesis
    using inst[of d'] inst[OF fresh_ok[OF i]] fr
    by (cases "ensureFreshHostAvailable d") (simp add: stateGotNoProgressTimeout_def Let_def)
qed

lemma give_up_ok:
  assumes "full_inv T d" "quiet d" "env_ok en" "st_lastSyncStart d \<noteq> 0"
  shows "\<exists>d'. giveUpTimerFire en (d\<lparr>nd_giveUpTimer := Fired\<rparr>) = Some d' \<and> full_inv T d' \<and> quiet d' \<and> st_lastSyncStart d' = 0 \<and>
    nd_restartSyncTimeout d' = Pending (ne_now en + ES_FIX_TIMEOUT_FAILED) \<and> st_inPollingMode d' = st_inPollingMode d"
proof -
  obtain dr where dr: "own_driver d = Some dr"
    and T: "\<And>w. w \<in> T \<Longrightarrow> tells w dr d"
    using full_own[OF assms(1)] by metis
  have z: "nd_lastFailTimeout d = 0" using assms(1,4) by (simp add: full_inv_def fail_ok_def)
  define dl where "dl = d\<lparr>nd_giveUpTimer := Fired, nd_lastFailTimeout := ES_FIX_TIMEOUT_FAILED,
      nd_restartSyncTimeout := Pending (ne_now en + ES_FIX_TIMEOUT_FAILED)\<rparr>"
  have b: "base_inv dl" "es_ok dl" "own_driver dl = Some dr"
    using assms(1,4) inner_inv_cong[of dl d] dr
    by (simp_all add: full_inv_def base_inv_def idle_ok_def polling_ok_def bounds_ok_def es_ok_def dl_def)
  obtain s where s: "ntp_setStatus en (give_up_status (drv_status dr)) dl = Some (dl\<lparr>nd_es := s\<rparr>)" "es_ok (dl\<lparr>nd_es := s\<rparr>)"
      "the_driver (nd_index dl) s = Some (dr\<lparr>drv_status := give_up_status (drv_status dr)\<rparr>)"
    using ntp_setStatus_total[OF b(2) assms(3) b(3)] by blast
  have "\<not> nd_reading (dl\<lparr>nd_es := s\<rparr>)" "\<not> nd_stopReading (dl\<lparr>nd_es := s\<rparr>)" "st_lastSyncStart (dl\<lparr>nd_es := s\<rparr>) \<noteq> 0"
    using assms(2,4) by (simp_all add: quiet_def dl_def)
  then obtain d' where d': "stopSyncingInThisThread en (dl\<lparr>nd_es := s\<rparr>) = Some d'" "stopped (dl\<lparr>nd_es := s\<rparr>) d'"
    using stop_total[OF base_inv_es[OF b(1) s(2)] assms(3)] by blast
  have o: "own_driver d' = Some (dr\<lparr>drv_status := give_up_status (drv_status dr)\<rparr>)" "st_lastSyncStart d' = 0"
  proof -
    have e: "own_driver d' = own_driver (dl\<lparr>nd_es := s\<rparr>)" "st_lastSyncStart d' = 0"
      using d'(2) unfolding stopped_def by blast+
    show "own_driver d' = Some (dr\<lparr>drv_status := give_up_status (drv_status dr)\<rparr>)" unfolding e(1) using s(3) by simp
    show "st_lastSyncStart d' = 0" by (rule e(2))
  qed
  have "truth w d'" if "w \<in> T" for w
  proof -
    have "\<bar>trueSkew w\<bar> \<le> 10 ^ 9" using assms(1) that by (auto simp: full_inv_def truth_def tells_simps)
    then show ?thesis using o tells_status[OF T[OF that]] by (simp add: truth_def)
  qed
  then have "full_inv T d'" "quiet d'" "st_lastSyncStart d' = 0" using d'(2) by (simp_all add: full_inv_def stopped_def fail_ok_def quiet_def)
  moreover have "nd_restartSyncTimeout d' = Pending (ne_now en + ES_FIX_TIMEOUT_FAILED)" "st_inPollingMode d' = st_inPollingMode d"
    using d'(2) by (simp_all add: stopped_def dl_def)
  moreover have "giveUpTimerFire en (d\<lparr>nd_giveUpTimer := Fired\<rparr>) = Some d'"
    using z dr s(1) d'(1) by (simp add: giveUpTimerFire_def ntp_status_def dl_def[symmetric] Let_def)
  ultimately show ?thesis by blast
qed

lemma all_socks_has: "si \<in> set (all_socks d) \<Longrightarrow> has_sock si (shape d)"
  by (auto simp: all_socks_def has_sock_def shape_def)

lemma polling_loop_ok:
  assumes "full_inv T d" "quiet d" "st_inPollingMode d" "\<forall>si\<in>set sis. has_sock si (shape d)" "cur < st_nextSendHostIndex d"
  shows "\<exists>b d'. polling_loop en sis cur d = Some (b, d') \<and> full_inv T d' \<and> quiet d' \<and> st_inPollingMode d'"
  using assms(4,5)
proof (induction sis arbitrary: cur)
  case Nil
  then show ?case using assms(1-3) by auto
next
  case (Cons si sis)
  show ?case
  proof (cases "cur + 1 = st_nextSendHostIndex d")
    case True
    obtain d' where d': "sendPacket en True si d = Some d'" "inner_inv d'" "outer d' = outer d"
      using sends_ok(1)[OF full_inner[OF assms(1)], of si en True] Cons.prems(1) by (auto simp: sent_ok_def)
    have f: "full_inv T d'" by (rule full_sent[OF assms(1) d'(2,3)])
    have o: "st_inPollingMode d'" "quiet d'" "st_nextSendHostIndex d' = st_nextSendHostIndex d"
      using d'(3) assms(2,3) by (simp_all add: outer_def quiet_def)
    have "0 \<le> st_nextSendHostIndex d" using assms(1) by (simp add: full_inv_def base_inv_def polling_ok_def)
    then have "full_inv T (d'\<lparr>st_nextSendHostIndex := st_nextSendHostIndex d' + 1\<rparr>)"
      using full_polling(2)[OF f o(1)] o(3) by simp
    then show ?thesis using True d'(1) o by (auto simp: quiet_def)
  next
    case False
    then have "cur + 1 < st_nextSendHostIndex d" using Cons.prems(2) by simp
    then show ?thesis using False Cons by simp
  qed
qed

lemma polling_host_ok:
  assumes "full_inv T d" "quiet d" "st_inPollingMode d"
  shows "event_ok T (sendToNextPollingHost en d)"
proof -
  have "- 1 < st_nextSendHostIndex d" using assms(1) by (simp add: full_inv_def base_inv_def polling_ok_def)
  moreover have "\<forall>si\<in>set (all_socks d). has_sock si (shape d)" using all_socks_has by blast
  ultimately obtain b d' where d': "polling_loop en (all_socks d) (- 1) d = Some (b, d')" "full_inv T d'" "quiet d'"
      "st_inPollingMode d'"
    using polling_loop_ok[OF assms, of "all_socks d" "- 1" en] by blast
  have f: "full_inv T (d'\<lparr>st_pollingHostTimer := t\<rparr>)" for t by (rule full_polling(1)[OF d'(2,4)])
  have "full_inv T (d'\<lparr>st_nextSendHostIndex := 0, st_pollingCycleRunning := False, st_pollingHostTimer := t\<rparr>)" for t
  proof -
    have "full_inv T (d'\<lparr>st_nextSendHostIndex := 0, st_pollingCycleRunning := False\<rparr>)"
      using full_polling(2)[OF d'(2,4), of 0] by simp
    from full_polling(1)[OF this] show ?thesis using d'(4) by simp
  qed
  then show ?thesis using d' f assms(3) by (simp add: sendToNextPollingHost_def quiet_def Let_def)
qed

end
