(* ===== verification/EsNtpDriverReach.thy ===== *)
theory EsNtpDriverReach
  imports EsNtpDriverRun
begin

text \<open>
  The states the NTP driver can reach: every event keeps the invariant, so no reachable state
  fails an assertion, and what it reports stays true.
\<close>

section \<open>Timers and messages\<close>

lemma due_timer [simp]: "due now t \<Longrightarrow> t \<noteq> NoTimer"
  by (auto simp: due_def)

lemma long_ok:
  assumes "full_inv T d" "quiet d" "the_sock si d = Some sk" "k < length (sk_xmitTimes sk)"
  shows "event_ok T (map_option sendTimeoutLong (fire_long_timer si k d))"
proof -
  let ?sk = "sk\<lparr>sk_xmitTimes := (sk_xmitTimes sk)[k := (sk_xmitTimes sk ! k)\<lparr>longTimeoutTimer := Fired\<rparr>]\<rparr>"
  have "sock_ok sk" by (rule the_sock_ok[OF full_inner[OF assms(1)] assms(3)])
  then have "sock_ok ?sk" by (simp add: sock_ok_def)
  then have "full_inv T (put_sock si ?sk d)" by (rule full_put_sock[OF assms(1)])
  moreover have "quiet (stateGotLongSocketTimeout e) = quiet e" for e
    by (simp add: quiet_def stateGotLongSocketTimeout_def)
  ultimately show ?thesis
    using assms(2,3) by (simp add: fire_long_timer_def sendTimeoutLong_def stateGotLongSocketTimeout_def)
qed

lemma bump_ok:
  assumes "full_inv T d" "quiet d" "st_lastSyncStart d \<noteq> 0"
  shows "event_ok T (Some (bumpProximity en d))"
proof -
  have "full_inv T (d\<lparr>nd_currentProximity := k, nd_proximityBumpTimer := t\<rparr>)" for k t
    using full_timers(3)[of T "d\<lparr>nd_currentProximity := k\<rparr>" t] assms(1,3) by simp
  then show ?thesis using assms by (simp add: bumpProximity_def quiet_def Let_def)
qed

lemma reachable_ok:
  assumes "full_inv T d" "quiet d"
  shows "event_ok T (stateGotNetworkReachable en d)"
proof -
  obtain dr where "own_driver d = Some dr" using full_own[OF assms(1)] by metis
  then show ?thesis
    using assms by (simp add: stateGotNetworkReachable_def startSyncingAfterDelay_def ntp_status_def quiet_def Let_def)
qed

lemma resync_event:
  "full_inv T d \<Longrightarrow> env_ok en \<Longrightarrow> quiet d \<Longrightarrow> event_ok T (resyncInThisThread en u d)"
  using resync_full by (auto simp: event_ok_def)

lemma stop_if_ok:
  "full_inv T d \<Longrightarrow> env_ok en \<Longrightarrow> quiet d \<Longrightarrow> event_ok T (stopSyncingIfNecessaryInThisThread en d)"
  using stop_ok by (simp add: stopSyncingIfNecessaryInThisThread_def)

lemma background_ok:
  assumes "full_inv T d" "env_ok en" "quiet d"
  shows "event_ok T (enteringBackgroundInThread en i d)"
proof -
  have "event_ok T (if st_lastSyncStart d \<noteq> 0 then stopSyncingInThisThread en d else Some d)"
    using stop_ok[OF assms] assms by simp
  then show ?thesis by (auto simp: enteringBackgroundInThread_def event_ok_def quiet_def)
qed

lemma country_ok:
  assumes "full_inv T d" "env_ok en" "quiet d"
  shows "event_ok T (setDeviceCountryCodeInThread en cc d)"
proof -
  let ?it = "iterator_reset (ne_locale en) (Some cc) (nd_hostNameIterator d)"
  have "full_inv T (d\<lparr>nd_hostNameIterator := ?it\<rparr>)"
    using assms(1) by (intro full_iterator) (simp_all add: iterator_reset_def farm_for_country_ok)
  then show ?thesis
    using resync_event[OF _ assms(2)] assms(3) by (simp add: setDeviceCountryCodeInThread_def quiet_def)
qed

lemma polling_cycle_ok:
  assumes "full_inv T d" "quiet d" "st_inPollingMode d"
  shows "event_ok T (restartPollingCycle en d)" "event_ok T (stopPollingCycle d)"
    "event_ok T (post_restartPollingCycle d)" "event_ok T (post_stopPollingCycle d)"
proof -
  have f: "full_inv T (d\<lparr>st_pollingRunning := a, st_pollingCycleRunning := b\<rparr>)" for a b using assms(1) by simp
  have t: "full_inv T (d\<lparr>st_pollingRunning := a, st_pollingCycleRunning := b, st_pollingHostTimer := t\<rparr>)" for a b t
    using full_polling(1)[OF f] assms(3) by simp
  have m: "full_inv T (d\<lparr>st_pollingRunning := a, st_pollingCycleRunning := b, nd_inbox := ms\<rparr>)" for a b ms
    using full_inbox[OF f] assms(3) by simp
  show "event_ok T (restartPollingCycle en d)" "event_ok T (stopPollingCycle d)"
    using assms(2,3) t by (simp_all add: restartPollingCycle_def stopPollingCycle_def quiet_def)
  show "event_ok T (post_restartPollingCycle d)" "event_ok T (post_stopPollingCycle d)"
    using assms(2,3) m by (simp_all add: post_restartPollingCycle_def post_stopPollingCycle_def callInThread_def quiet_def)
qed

lemma message_ok:
  assumes "full_inv T d" "env_ok en" "quiet d" "m = MsgStopSyncing \<Longrightarrow> st_lastSyncStart d \<noteq> 0"
    and "m \<in> {MsgRestartPollingCycle, MsgStopPollingCycle} \<Longrightarrow> st_inPollingMode d"
  shows "event_ok T (handle_ntp_message en m d)"
proof (cases m)
  case MsgDisableSync
  have "full_inv T (d\<lparr>nd_disabled := True\<rparr>)" "quiet (d\<lparr>nd_disabled := True\<rparr>)" using assms by (simp_all add: quiet_def)
  then show ?thesis using stop_if_ok[OF _ assms(2)] MsgDisableSync by (simp add: disableSyncInThisThread_def)
next
  case MsgEnableSync
  have "full_inv T (d\<lparr>nd_disabled := False\<rparr>)" "quiet (d\<lparr>nd_disabled := False\<rparr>)" using assms by (simp_all add: quiet_def)
  then show ?thesis using resync_event[OF _ assms(2)] MsgEnableSync by (simp add: enableSyncInThisThread_def)
next
  case (MsgMakeHostReport ob)
  then show ?thesis using assms by (simp add: constructAndSendHostReportToObserver_def quiet_def)
qed (use assms resync_event stop_ok stop_if_ok country_ok background_ok polling_cycle_ok in auto)

section \<open>The time service\<close>

lemma trace_drivers: "es_drivers (s\<lparr>es_trace := x\<rparr>) = es_drivers s"
  by simp

lemma changed_drivers:
  "syncValueReallyChanged th now s = Some s' \<Longrightarrow> es_drivers s' = es_drivers s"
  "syncStatusReallyChanged th s = s2 \<Longrightarrow> es_drivers s2 = es_drivers s"
  by (auto simp: syncValueReallyChanged_def setupNextLeapSecondData_def syncStatusReallyChanged_def
      call_observers_trace split: Option.bind_splits)

lemma recheck_drivers: "recheckForBestDriver s = Some (b, s') \<Longrightarrow> es_drivers s' = es_drivers s"
  by (auto simp: recheckForBestDriver_def split: option.splits Option.bind_splits prod.splits)

lemma by_driver_drivers:
  "syncValueChangedByDriver th now i s = Some s' \<Longrightarrow> es_drivers s' = es_drivers s"
  "syncStatusChangedByDriver th now i s = Some s' \<Longrightarrow> es_drivers s' = es_drivers s"
  using changed_drivers(2)[OF refl]
  by (fastforce simp: syncValueChangedByDriver_def syncStatusChangedByDriver_def
      split: Option.bind_splits if_splits dest: recheck_drivers changed_drivers(1))+

lemma the_driver_drivers: "es_drivers s' = es_drivers s \<Longrightarrow> the_driver i s' = the_driver i s"
  by (simp add: the_driver_def)

lemma put_other: "j \<noteq> i \<Longrightarrow> the_driver i (put_driver j dr s) = the_driver i s"
  by (simp add: the_driver_def put_driver_def split: option.split)

lemma setContSkew_other:
  assumes "setContSkew th now j skew err s = Some s'" "j \<noteq> i"
  shows "the_driver i s' = the_driver i s"
proof -
  obtain dr where "the_driver j s = Some dr" using assms(1) by (auto simp: setContSkew_def split: Option.bind_splits)
  then have "s' = s \<or> (\<exists>dr p. syncValueChangedByDriver th now j ((put_driver j dr s)\<lparr>es_prefs := p\<rparr>) = Some s')"
    using assms(1) by (auto simp: setContSkew_def Let_def split: if_splits)
  moreover have "the_driver i s' = the_driver i s"
    if "syncValueChangedByDriver th now j ((put_driver j dr s)\<lparr>es_prefs := p\<rparr>) = Some s'" for dr p
    using the_driver_drivers[OF by_driver_drivers(1)[OF that], of i]
      the_driver_drivers[of "(put_driver j dr s)\<lparr>es_prefs := p\<rparr>" "put_driver j dr s" i] put_other[OF assms(2)] by simp
  ultimately show ?thesis by auto
qed

lemma setStatus_other:
  assumes "setStatus th now j st s = Some s'" "j \<noteq> i"
  shows "the_driver i s' = the_driver i s"
proof -
  obtain dr where "the_driver j s = Some dr" using assms(1) by (auto simp: setStatus_def split: Option.bind_splits)
  then have "s' = s \<or> (\<exists>dr. syncStatusChangedByDriver th now j (put_driver j dr s) = Some s')"
    using assms(1) by (auto simp: setStatus_def split: if_splits)
  then show ?thesis
    using the_driver_drivers[OF by_driver_drivers(2)] put_other[OF assms(2)] by fastforce
qed

text \<open>What the time service does leaves an NTP driver alone, but for that driver's own reports.\<close>

definition ntp_at :: "nat \<Rightarrow> ESTimeSourceDriver \<Rightarrow> estime \<Rightarrow> bool" where
  "ntp_at i dr s \<longleftrightarrow> the_driver i s = Some dr \<and> drv_kind dr = NTPDriver"

lemma ntp_at_frame [simp]:
  "ntp_at i dr (s\<lparr>es_trace := x\<rparr>) = ntp_at i dr s" "ntp_at i dr (s\<lparr>es_prefs := p\<rparr>) = ntp_at i dr s"
  "ntp_at i dr (s\<lparr>es_base := b\<rparr>) = ntp_at i dr s" "ntp_at i dr (s\<lparr>es_observers := obs\<rparr>) = ntp_at i dr s"
  "ntp_at i dr (emit e s) = ntp_at i dr s"
  "ntp_at i dr (call_observers (callContinuousTimeReset th) s) = ntp_at i dr s"
  "ntp_at i dr (call_observers (callWorkingSyncValueChanged th v a) s) = ntp_at i dr s"
  by (simp_all add: ntp_at_def the_driver_def emit_def call_observers_trace)

lemma loop_at:
  assumes op: "\<And>j s s'. op j s = Some s' \<Longrightarrow> ntp_at i dr s \<Longrightarrow> ntp_at i dr s'" and "ntp_at i dr s"
  shows "drivers_loop op js s = Some s' \<Longrightarrow> ntp_at i dr s'"
  using assms(2)
proof (induction js arbitrary: s)
  case (Cons j js)
  then obtain s1 where "op j s = Some s1" "drivers_loop op js s1 = Some s'" by (auto split: Option.bind_splits)
  then show ?case using Cons op by blast
qed simp

lemma for_each_at:
  assumes "\<And>j s s'. op j s = Some s' \<Longrightarrow> ntp_at i dr s \<Longrightarrow> ntp_at i dr s'"
    and "for_each_driver op s = Some s'" "ntp_at i dr s"
  shows "ntp_at i dr s'"
  using assms(2) loop_at[OF assms(1,3), of op] assms(3)
  by (cases "es_drivers s") (simp_all add: for_each_driver_def)

lemma resync_at: "drv_resync th now u j s = Some s' \<Longrightarrow> ntp_at i dr s \<Longrightarrow> ntp_at i dr s'"
proof -
  assume r: "drv_resync th now u j s = Some s'" and n: "ntp_at i dr s"
  obtain dj where dj: "the_driver j s = Some dj" using r by (auto simp: drv_resync_def split: Option.bind_splits)
  show "ntp_at i dr s'"
  proof (cases "drv_kind dj")
    case (FakeDriver t e)
    then have "j \<noteq> i" using n dj by (auto simp: ntp_at_def)
    then show ?thesis
      using r n dj FakeDriver setContSkew_other by (auto simp: drv_resync_def setupFakeTime_def Let_def ntp_at_def split: if_splits)
  qed (use r n dj in \<open>auto simp: drv_resync_def\<close>)
qed

lemma post_at: "drv_post c j s = Some s' \<Longrightarrow> ntp_at i dr s \<Longrightarrow> ntp_at i dr s'"
proof -
  assume r: "drv_post c j s = Some s'" and n: "ntp_at i dr s"
  obtain dj where dj: "the_driver j s = Some dj" using r by (auto simp: drv_post_def split: Option.bind_splits)
  show "ntp_at i dr s'" using r n dj by (cases "drv_kind dj") (auto simp: drv_post_def)
qed

lemma post_all_at: "for_each_driver (drv_post c) s = Some s' \<Longrightarrow> ntp_at i dr s \<Longrightarrow> ntp_at i dr s'"
  by (rule for_each_at[OF post_at])

lemma notify_at: "drv_notifyContinuousOffsetChange j s = Some s' \<Longrightarrow> ntp_at i dr s \<Longrightarrow> ntp_at i dr s'"
  by (auto simp: drv_notifyContinuousOffsetChange_def split: Option.bind_splits)

lemma resync_all_at: "resync th now u s = Some s' \<Longrightarrow> ntp_at i dr s \<Longrightarrow> ntp_at i dr s'"
  unfolding resync_def by (rule for_each_at[OF resync_at])

lemma reset_at:
  assumes "continuousTimeReset th now s = Some s'" "ntp_at i dr s"
  shows "ntp_at i dr s'"
proof -
  obtain s1 where s1: "for_each_driver (drv_resync th now False) s = Some s1"
      "s' = call_observers (callContinuousTimeReset th) s1"
    using assms(1) by (auto simp: continuousTimeReset_def split: Option.bind_splits)
  then show ?thesis using for_each_at[OF resync_at s1(1) assms(2)] by simp
qed

lemma calls_at: "timebase_calls th now cs s = Some s' \<Longrightarrow> ntp_at i dr s \<Longrightarrow> ntp_at i dr s'"
proof (induction cs arbitrary: s)
  case (Cons c cs)
  then obtain s1 where s1: "(case c of NotifyContinuousOffsetChange \<Rightarrow> EsTime.notifyContinuousOffsetChange s
      | ContinuousTimeReset \<Rightarrow> continuousTimeReset th now s | Resync u \<Rightarrow> resync th now u s) = Some s1"
    "timebase_calls th now cs s1 = Some s'"
    by (auto split: Option.bind_splits)
  have "ntp_at i dr s1"
  proof (cases c)
    case NotifyContinuousOffsetChange
    then show ?thesis using s1(1) for_each_at[OF notify_at _ Cons.prems(2)] by (simp add: notifyContinuousOffsetChange_def)
  qed (use s1(1) Cons.prems(2) reset_at resync_all_at in simp_all)
  then show ?case using Cons.IH s1(2) by blast
qed simp

definition own_op :: "nat \<Rightarrow> es_op \<Rightarrow> bool" where
  "own_op i op = (case op of OpSetContSkew j skew err \<Rightarrow> j = i | OpSetStatus j st \<Rightarrow> j = i | _ \<Rightarrow> False)"

lemma service_at:
  assumes "es_step th now op s = Some s'" "ntp_at i dr s" "\<not> own_op i op"
  shows "ntp_at i dr s'"
proof (cases op)
  case (OpSetContSkew j skew err)
  then show ?thesis using assms setContSkew_other[of th now j skew err s s' i] by (simp add: own_op_def ntp_at_def)
next
  case (OpSetStatus j st)
  then show ?thesis using assms setStatus_other[of th now j st s s' i] by (simp add: own_op_def ntp_at_def)
next
  case (OpSystemBaseChange t)
  then show ?thesis using assms(1,2) calls_at[of th now _ "s\<lparr>es_base := b\<rparr>" for b]
    by (auto simp: es_systemBaseChange_def split: prod.splits)
next
  case (OpWakingUp t)
  then show ?thesis using assms(1,2) calls_at[of th now _ "s\<lparr>es_base := b\<rparr>" for b]
    by (auto simp: es_wakingUp_def split: prod.splits)
next
  case (OpWorkingSyncValue v a)
  then show ?thesis using assms(1,2) by (auto simp: workingSyncValue_def)
next
  case (OpSetDeviceCountryCode cc)
  then show ?thesis using post_all_at[of _ s s'] assms(1,2) by (simp add: setDeviceCountryCode_def)
next
  case (OpResync u)
  then show ?thesis using resync_all_at[of th now u s s'] assms(1,2) by simp
next
  case OpContinuousTimeReset
  then show ?thesis using reset_at[of th now s s'] assms(1,2) by simp
next
  case OpStopSyncing
  then show ?thesis using post_all_at[of _ s s'] assms(1,2) by (simp add: stopSyncing_def)
next
  case OpDisableSync
  then show ?thesis using post_all_at[of _ s s'] assms(1,2) by (simp add: disableSync_def)
next
  case OpEnableSync
  then show ?thesis using post_all_at[of _ s s'] assms(1,2) by (simp add: enableSync_def)
qed (use assms(1,2) in \<open>auto simp: registerTimeSyncObserver_def unregisterTimeSyncObserver_def\<close>)

text \<open>The calls append messages, but none about polling.\<close>

definition delivered :: "ntp_driver \<Rightarrow> ntp_driver \<Rightarrow> bool" where
  "delivered d d' \<longleftrightarrow> (\<exists>cc ms. d' = d\<lparr>nd_deviceCountryCode := cc, nd_inbox := nd_inbox d @ ms\<rparr> \<and>
     MsgRestartPollingCycle \<notin> set ms \<and> MsgStopPollingCycle \<notin> set ms)"

lemma delivered_refl [simp]: "delivered d d"
  unfolding delivered_def by (rule exI[of _ "nd_deviceCountryCode d"], rule exI[of _ "[]"]) simp

lemma delivered_trans: "delivered d d1 \<Longrightarrow> delivered d1 d2 \<Longrightarrow> delivered d d2"
  unfolding delivered_def by fastforce

lemma delivered_message [simp]:
  "m \<notin> {MsgRestartPollingCycle, MsgStopPollingCycle} \<Longrightarrow> delivered d (callInThread m d)"
  unfolding delivered_def callInThread_def by (intro exI[of _ "nd_deviceCountryCode d"] exI[of _ "[m]"]) auto

lemma delivered_country: "delivered d (d\<lparr>nd_deviceCountryCode := cc\<rparr>)"
  unfolding delivered_def by (intro exI[of _ cc] exI[of _ "[]"]) simp

lemma deliver_call_delivered: "delivered d (deliver_call c d)"
proof (cases c)
  case (CallSetDeviceCountryCode cc)
  have "delivered d (callInThread (MsgSetDeviceCountryCode cc) (d\<lparr>nd_deviceCountryCode := cc\<rparr>))"
    by (rule delivered_trans[OF delivered_country delivered_message]) simp
  then show ?thesis using CallSetDeviceCountryCode delivered_country[of d cc] by (simp add: ntp_setDeviceCountryCode_def Let_def)
qed simp_all

lemma deliver_delivered: "delivered d (fold deliver_event evs d)"
proof (induction evs arbitrary: d)
  case (Cons e evs)
  have "delivered d (deliver_event e d)" by (cases e) (simp_all add: deliver_call_delivered)
  then show ?case using Cons delivered_trans by fastforce
qed simp

lemma full_delivered:
  assumes "full_inv T d" "quiet d" "delivered d d'"
  shows "full_inv T d' \<and> quiet d'"
proof -
  obtain cc ms where m: "d' = d\<lparr>nd_deviceCountryCode := cc, nd_inbox := nd_inbox d @ ms\<rparr>"
      "MsgRestartPollingCycle \<notin> set ms" "MsgStopPollingCycle \<notin> set ms"
    using assms(3) unfolding delivered_def by blast
  have "full_inv T ((d\<lparr>nd_deviceCountryCode := cc\<rparr>)\<lparr>nd_inbox := nd_inbox d @ ms\<rparr>)"
    using m(2,3) by (intro full_inbox) (auto simp: assms(1))
  then show ?thesis using assms(2) by (simp add: m(1) quiet_def)
qed

lemma service_ok:
  assumes "full_inv T d" "quiet d" "op_plausible (driver_count (nd_es d)) (th, ne_now en, op)" "\<not> own_op (nd_index d) op"
  shows "event_ok T (ntp_service en th op d)"
proof -
  have i: "es_inv (nd_es d)" using assms(1) by (simp add: full_inv_def base_inv_def es_ok_def)
  obtain s where s: "es_step th (ne_now en) op (nd_es d) = Some s" "es_inv s" "driver_count s = driver_count (nd_es d)"
    using es_step_ok[OF i assms(3)] by (auto simp: op_ok_def)
  obtain dr where dr: "own_driver d = Some dr"
      "\<And>w. w \<in> T \<Longrightarrow> tells w dr d"
    using full_own[OF assms(1)] by metis
  have k: "nd_index d < driver_count (nd_es d)" "drv_kind dr = NTPDriver"
    using assms(1) dr(1) by (simp_all add: full_inv_def base_inv_def es_ok_def)
  then have "ntp_at (nd_index d) dr s" using service_at[OF s(1) _ assms(4)] dr(1) by (simp add: ntp_at_def)
  then have "full_inv T (d\<lparr>nd_es := s\<rparr>)"
    using full_es[OF assms(1), of s dr] s(2,3) k dr(2) by (simp add: es_ok_def ntp_at_def)
  then show ?thesis
    using full_delivered[OF _ _ deliver_delivered] assms(2) s(1) by (simp add: ntp_service_def quiet_def)
qed

section \<open>Every event\<close>

text \<open>
  What the rest of the program has to keep: the host names are never all missing, only the driver
  itself sets its status and skew, \<open>stopSyncing\<close> is handled only while a synchronisation runs, polling
  is not asked for outside its mode and that mode is not left; and the network: the precision of
  an answer is one that \<open>host_data_of\<close> can convert, and accepted answers say the truth about \<open>T\<close>.
\<close>

fun ntp_allowed :: "outlook set \<Rightarrow> ntp_env \<Rightarrow> ntp_event \<Rightarrow> ntp_driver \<Rightarrow> bool" where
  "ntp_allowed T en (EvReaders fds) d \<longleftrightarrow> readers_ok T en fds"
| "ntp_allowed T en EvMessage d \<longleftrightarrow> (case nd_inbox d of MsgStopSyncing # ms \<Rightarrow> st_lastSyncStart d \<noteq> 0 | _ \<Rightarrow> True)"
| "ntp_allowed T en (EvService thread op) d \<longleftrightarrow>
     op_plausible (driver_count (nd_es d)) (thread, ne_now en, op) \<and> \<not> own_op (nd_index d) op"
| "ntp_allowed T en (EvNames names) d \<longleftrightarrow> names_ok names"
| "ntp_allowed T en EvPostRestartPolling d \<longleftrightarrow> st_inPollingMode d"
| "ntp_allowed T en EvPostStopPolling d \<longleftrightarrow> st_inPollingMode d"
| "ntp_allowed T en (EvSetPollingInterval secs) d \<longleftrightarrow> secs > 0 \<or> \<not> st_inPollingMode d"
| "ntp_allowed T en _ d \<longleftrightarrow> True"

lemma quiet_frame [simp]:
  "quiet (d\<lparr>nd_noProgressTimeout := t\<rparr>) = quiet d" "quiet (d\<lparr>nd_restartSyncTimeout := t\<rparr>) = quiet d"
  "quiet (d\<lparr>nd_giveUpTimer := t\<rparr>) = quiet d" "quiet (d\<lparr>nd_proximityBumpTimer := t\<rparr>) = quiet d"
  "quiet (d\<lparr>st_pollingHostTimer := t\<rparr>) = quiet d" "quiet (d\<lparr>nd_inbox := ms\<rparr>) = quiet d"
  "quiet (d\<lparr>nd_names := nm\<rparr>) = quiet d" "quiet (callInThread m d) = quiet d"
  "quiet (d\<lparr>st_inPollingMode := b, st_pollingInterval := k\<rparr>) = quiet d"
  by (simp_all add: quiet_def callInThread_def)

lemma full_names: "full_inv T d \<Longrightarrow> names_ok n \<Longrightarrow> full_inv T (d\<lparr>nd_names := n\<rparr>)"
  using inner_inv_cong[of "d\<lparr>nd_names := n\<rparr>" d]
  by (simp add: full_inv_def base_inv_def fail_ok_def truth_def tells_simps idle_ok_def polling_ok_def bounds_ok_def es_ok_def)

lemma full_polling_mode:
  "full_inv T d \<Longrightarrow> b \<or> \<not> st_inPollingMode d \<Longrightarrow> full_inv T (d\<lparr>st_inPollingMode := b, st_pollingInterval := k\<rparr>)"
  using inner_inv_cong[of "d\<lparr>st_inPollingMode := b, st_pollingInterval := k\<rparr>" d]
  by (auto simp: full_inv_def base_inv_def fail_ok_def truth_def tells_simps idle_ok_def polling_ok_def bounds_ok_def es_ok_def)

lemma full_call:
  "full_inv T d \<Longrightarrow> m \<notin> {MsgRestartPollingCycle, MsgStopPollingCycle} \<Longrightarrow> full_inv T (callInThread m d)"
  unfolding callInThread_def by (rule full_inbox) auto

lemma full_register: "full_inv T d \<Longrightarrow> full_inv T (registerHostReportObserver ob d)"
  using full_call[of T "d\<lparr>nd_reportObservers := nd_reportObservers d @ [ob]\<rparr>" "MsgMakeHostReport ob"]
  by (simp add: registerHostReportObserver_def callInThread_def)

lemma long_event:
  assumes "full_inv T d" "quiet d" "ntp_enabled en (EvLongTimeout n i k) d"
  shows "event_ok T (ntp_step en (EvLongTimeout n i k) d)"
proof -
  obtain sk where sk: "the_sock (n, i) d = Some sk" "k < length (sk_xmitTimes sk)"
    using assms(3) by (auto split: option.splits)
  have "ntp_step en (EvLongTimeout n i k) d = map_option sendTimeoutLong (fire_long_timer (n, i) k d)"
    using sk(1) by (simp add: fire_long_timer_def)
  then show ?thesis using long_ok[OF assms(1,2) sk] by simp
qed

lemma sock_events:
  assumes "full_inv T d" "quiet d"
  shows "ntp_enabled en (EvSendThrottle n i) d \<Longrightarrow> event_ok T (ntp_step en (EvSendThrottle n i) d)"
    "ntp_enabled en (EvShortTimeout n i) d \<Longrightarrow> event_ok T (ntp_step en (EvShortTimeout n i) d)"
proof -
  show "event_ok T (ntp_step en (EvSendThrottle n i) d)" if "ntp_enabled en (EvSendThrottle n i) d"
  proof -
    have du: "sock_due (ne_now en) SendThrottle (n, i) d" using that by simp
    obtain sk where sk: "fire_sock_timer (n, i) d = Some (put_sock (n, i) (sk\<lparr>sk_timer := Fired\<rparr>) d)"
        "full_inv T (put_sock (n, i) (sk\<lparr>sk_timer := Fired\<rparr>) d)" "has_sock (n, i) (shape d)"
      by (rule fire_sock_ok[OF assms du])
    then show ?thesis using send_event[OF sk(2)] assms(2) by simp
  qed
  show "event_ok T (ntp_step en (EvShortTimeout n i) d)" if "ntp_enabled en (EvShortTimeout n i) d"
  proof -
    have du: "sock_due (ne_now en) SocketShortTimeout (n, i) d" using that by simp
    obtain sk where sk: "fire_sock_timer (n, i) d = Some (put_sock (n, i) (sk\<lparr>sk_timer := Fired\<rparr>) d)"
        "full_inv T (put_sock (n, i) (sk\<lparr>sk_timer := Fired\<rparr>) d)" "has_sock (n, i) (shape d)"
        "sock_ok sk" "sk_timer sk \<noteq> NoTimer" "sk_timerObserver sk = SocketShortTimeout"
      by (rule fire_sock_ok[OF assms du])
    then have "sk_xmitTimes sk \<noteq> []" by (simp add: sock_ok_def)
    then have "event_ok T (sendTimeoutShort en (n, i) (put_sock (n, i) (sk\<lparr>sk_timer := Fired\<rparr>) d))"
      using short_timeout_ok[OF sk(2), of "(n, i)"] assms(2) the_sock_put[OF sk(3)] by simp
    then show ?thesis using sk(1) by simp
  qed
qed

lemma driver_timer_events:
  assumes "full_inv T d" "quiet d" "env_ok en" "ntp_enabled en ev d"
    and "ev \<in> {EvNoProgress, EvRestartSync, EvGiveUp, EvProximityBump, EvPollingHost}"
  shows "event_ok T (ntp_step en ev d)"
proof (cases ev)
  case EvNoProgress
  then have s: "st_lastSyncStart d \<noteq> 0" using full_timer_syncing[OF assms(1)] assms(4) by auto
  show ?thesis using EvNoProgress no_progress_ok[OF full_timers(1)[OF assms(1) s]] assms(2) s by simp
next
  case EvRestartSync
  have "full_inv T (d\<lparr>nd_restartSyncTimeout := Fired\<rparr>)" using assms(1) by simp
  then show ?thesis using EvRestartSync resync_event[OF _ assms(3)] assms(2) by (simp add: stateGotResyncTimeout_def Let_def)
next
  case EvGiveUp
  then have s: "st_lastSyncStart d \<noteq> 0" using full_timer_syncing[OF assms(1)] assms(4) by auto
  have "event_ok T (giveUpTimerFire en (d\<lparr>nd_giveUpTimer := Fired\<rparr>))"
    using give_up_ok[OF assms(1-3) s] by (auto simp: event_ok_def)
  then show ?thesis using EvGiveUp full_timers(2)[OF assms(1) s] assms(2) by (simp add: Let_def)
next
  case EvProximityBump
  then have s: "st_lastSyncStart d \<noteq> 0" using full_timer_syncing[OF assms(1)] assms(4) by auto
  show ?thesis using EvProximityBump bump_ok[OF full_timers(3)[OF assms(1) s]] assms(2) s by simp
next
  case EvPollingHost
  then have "st_pollingHostTimer d \<noteq> NoTimer" using assms(4) by auto
  then have "st_inPollingMode d" using assms(1) by (auto simp: full_inv_def base_inv_def polling_ok_def)
  then show ?thesis using EvPollingHost polling_host_ok[OF full_polling(1)[OF assms(1)]] assms(2) by simp
qed (use assms(5) in simp_all)

lemma name_events:
  assumes "full_inv T d" "quiet d" "env_ok en"
  shows "ntp_enabled en (EvResolved n addrs r) d \<Longrightarrow> event_ok T (ntp_step en (EvResolved n addrs r) d)"
    "ntp_enabled en (EvResolutionFailed n r) d \<Longrightarrow> event_ok T (ntp_step en (EvResolutionFailed n r) d)"
    "ntp_enabled en (EvRetryResolution n) d \<Longrightarrow> event_ok T (ntp_step en (EvRetryResolution n) d)"
  using notify_complete_ok[OF assms] notify_failed_ok[OF assms] retry_ok[OF assms(1,2)] by (auto split: option.splits)

lemma message_event:
  assumes "full_inv T d" "quiet d" "env_ok en" "ntp_allowed T en EvMessage d"
  shows "event_ok T (ntp_step en EvMessage d)"
proof (cases "nd_inbox d")
  case (Cons m ms)
  have p: "st_inPollingMode d" if "m \<in> {MsgRestartPollingCycle, MsgStopPollingCycle}"
    using assms(1) Cons that by (auto simp: full_inv_def base_inv_def polling_ok_def)
  have "full_inv T (d\<lparr>nd_inbox := ms\<rparr>)" using Cons by (intro full_inbox[OF assms(1)]) auto
  then have "event_ok T (handle_ntp_message en m (d\<lparr>nd_inbox := ms\<rparr>))"
    using p assms(2,4) Cons by (intro message_ok assms(3)) auto
  then show ?thesis by (simp add: Cons)
qed (use assms in simp)

lemma step_ok:
  assumes "full_inv T d" "quiet d" "env_ok en" "ntp_enabled en ev d" "ntp_allowed T en ev d"
  shows "event_ok T (ntp_step en ev d)"
proof (cases ev)
  case (EvReaders fds)
  then show ?thesis using process_ok[OF assms(1,3,2)] assms(5) by simp
next
  case (EvService thread op)
  then show ?thesis using service_ok[OF assms(1,2)] assms(5) by simp
next
  case EvMessage
  then show ?thesis using message_event[OF assms(1-3)] assms(5) by simp
next
  case EvNetworkReachable
  then show ?thesis using reachable_ok[OF assms(1,2)] by simp
next
  case EvNetworkUnreachable
  then show ?thesis using unreachable_ok[OF assms(1-3)] by simp
next
  case (EvNames names)
  then show ?thesis using assms full_names by simp
next
  case EvGoingToSleep
  then show ?thesis using assms(1,2) full_call by (simp add: ntp_goingToSleep_def)
next
  case (EvEnteringBackground i)
  then show ?thesis using assms(1,2) full_call by (simp add: enteringBackground_def)
next
  case (EvRegisterReports ob)
  then show ?thesis using assms(1,2) full_register by (simp add: registerHostReportObserver_def quiet_def)
next
  case (EvUnregisterReports ob)
  then show ?thesis using assms(1,2) by (simp add: unregisterHostReportObserver_def quiet_def)
next
  case (EvSetPollingInterval secs)
  then show ?thesis using assms full_polling_mode by (simp add: setPollingInterval_def)
next
  case EvPostRestartPolling
  then show ?thesis using polling_cycle_ok(3)[OF assms(1,2)] assms(5) by simp
next
  case EvPostStopPolling
  then show ?thesis using polling_cycle_ok(4)[OF assms(1,2)] assms(5) by simp
next
  case (EvLongTimeout n i k)
  then show ?thesis using long_event[OF assms(1,2)] assms(4) by metis
next
  case (EvSendThrottle n i)
  then show ?thesis using sock_events(1)[OF assms(1,2)] assms(4) by metis
next
  case (EvShortTimeout n i)
  then show ?thesis using sock_events(2)[OF assms(1,2)] assms(4) by metis
next
  case (EvResolved n addrs r)
  then show ?thesis using name_events(1)[OF assms(1-3)] assms(4) by metis
next
  case (EvResolutionFailed n r)
  then show ?thesis using name_events(2)[OF assms(1-3)] assms(4) by metis
next
  case (EvRetryResolution n)
  then show ?thesis using name_events(3)[OF assms(1-3)] assms(4) by metis
qed (use driver_timer_events[OF assms(1-4)] in auto)

section \<open>Reachable states\<close>

text \<open>
  The start: a service that has this driver, which is not synchronised, a list of hosts that is not
  missing, and a first report, true or not, as the outlooks say.
\<close>

definition ntp_begins :: "outlook set \<Rightarrow> ntp_driver \<Rightarrow> bool" where
  "ntp_begins T d \<longleftrightarrow> (\<exists>index thread s names loc cc junk. d = new_ntp_driver index thread s names loc cc junk) \<and>
     es_inv (nd_es d) \<and> map_option drv_kind (own_driver d) = Some NTPDriver \<and> names_ok (nd_names d) \<and>
     (\<forall>w\<in>T. \<bar>trueSkew w\<bar> \<le> 10 ^ 9 \<and> (\<forall>dr. own_driver d = Some dr \<longrightarrow> still_first w dr))"

definition ntp_move :: "ntp_env \<times> ntp_event \<Rightarrow> ntp_driver \<Rightarrow> ntp_driver option" where
  "ntp_move x = ntp_step (fst x) (snd x)"

definition ntp_can :: "outlook set \<Rightarrow> ntp_env \<times> ntp_event \<Rightarrow> ntp_driver \<Rightarrow> bool" where
  "ntp_can T x d \<longleftrightarrow> env_ok (fst x) \<and> ntp_enabled (fst x) (snd x) d \<and> ntp_allowed T (fst x) (snd x) d"

interpretation ntp: machine ntp_move "ntp_can T" "\<lambda>d. full_inv T d \<and> quiet d" for T
  by unfold_locales (auto simp: ntp_move_def ntp_can_def event_ok_def dest: step_ok)

definition ntp_reachable :: "outlook set \<Rightarrow> ntp_driver \<Rightarrow> ntp_driver \<Rightarrow> bool" where
  "ntp_reachable T = reach ntp_move (ntp_can T)"

lemma ntp_reach_start: "ntp_reachable T d d"
  by (simp add: ntp_reachable_def reach_start)

lemma ntp_reach_step:
  "ntp_reachable T d0 d \<Longrightarrow> env_ok en \<Longrightarrow> ntp_enabled en ev d \<Longrightarrow> ntp_allowed T en ev d \<Longrightarrow>
     ntp_step en ev d = Some d' \<Longrightarrow> ntp_reachable T d0 d'"
  unfolding ntp_reachable_def by (rule reach_next[of _ _ _ d "(en, ev)"]) (simp_all add: ntp_can_def ntp_move_def)

lemma begins_full:
  assumes "ntp_begins T d"
  shows "full_inv T d \<and> quiet d"
proof -
  obtain index thread s names loc cc junk where d: "d = new_ntp_driver index thread s names loc cc junk"
    using assms by (auto simp: ntp_begins_def)
  have "index < driver_count s"
    using assms by (auto simp: ntp_begins_def d new_ntp_driver_def the_driver_def driver_count_def split: option.splits if_splits)
  then show ?thesis
    using assms
    by (simp add: ntp_begins_def d new_ntp_driver_def full_inv_def base_inv_def inner_inv_def shape_def throttle_ok_def
        es_ok_def idle_ok_def polling_ok_def bounds_ok_def fail_ok_def truth_def tells_simps quiet_def new_iterator_def
        farm_for_country_ok ES_THROTTLE_INTERVAL_MAX_def)
qed

lemma reachable_full: "ntp_reachable T d0 d \<Longrightarrow> ntp_begins T d0 \<Longrightarrow> full_inv T d \<and> quiet d"
  unfolding ntp_reachable_def by (rule ntp.reach_inv[OF _ begins_full])

lemma reachable_step:
  "ntp_reachable T d0 d \<Longrightarrow> ntp_begins T d0 \<Longrightarrow> env_ok en \<Longrightarrow> ntp_enabled en ev d \<Longrightarrow> ntp_allowed T en ev d \<Longrightarrow>
     \<exists>d'. ntp_step en ev d = Some d' \<and> ntp_reachable T d0 d'"
  using ntp.reach_total[of T d0 d "(en, ev)"] begins_full by (simp add: ntp_reachable_def ntp_can_def ntp_move_def)

end
