(* ===== verification/EsNtpDriverClaims.thy ===== *)
theory EsNtpDriverClaims
  imports EsNtpDriverReach
begin

text \<open>
  What the NTP driver promises in every state it can reach, and where it does not do what it means to.
\<close>

section \<open>A sample driver\<close>

definition sample_ntp :: ntp_driver where
  "sample_ntp = new_ntp_driver 0 5 sample_estime \<lparr>userServerNames = None, usePool = True\<rparr> ''en_US'' ''US'' 0"

definition sample_env :: "ESTimeInterval \<Rightarrow> ntp_env" where
  "sample_env now = \<lparr>ne_now = now, ne_net = (\<lambda>n. \<lparr>nr_socket = 7, nr_connect = 0, nr_send = 48\<rparr>), ne_locale = ''en_US''\<rparr>"

text \<open>The first report of this driver has the skew 0 and any error.\<close>

definition sample_outlook :: "real \<Rightarrow> outlook" where
  "sample_outlook \<theta> = \<lparr>trueSkew = \<theta>, firstSkew = 0, firstError = 10 ^ 9\<rparr>"

lemma sample_begins_names:
  assumes "\<bar>\<theta>\<bar> \<le> 10 ^ 9" "T \<subseteq> {sample_outlook \<theta>}" "names_ok names"
  shows "ntp_begins T (new_ntp_driver 0 5 sample_estime names ''en_US'' ''US'' 0)"
proof -
  have "the_driver 0 sample_estime = Some (sample_driver NTPDriver)" by (simp add: the_driver_def sample_estime_def)
  moreover have "\<forall>w\<in>T. trueSkew w = \<theta> \<and> still_first w (sample_driver NTPDriver)"
    using assms(2) by (auto simp: sample_outlook_def still_first_def sample_driver_def)
  moreover have "drv_kind (sample_driver NTPDriver) = NTPDriver" by (simp add: sample_driver_def)
  ultimately show ?thesis
    using assms(1,3) sample_inv by (auto simp: ntp_begins_def new_ntp_driver_def)
qed

lemma sample_begins: "\<bar>\<theta>\<bar> \<le> 10 ^ 9 \<Longrightarrow> T \<subseteq> {sample_outlook \<theta>} \<Longrightarrow> ntp_begins T sample_ntp"
  unfolding sample_ntp_def by (rule sample_begins_names) (simp_all add: names_ok_def)

lemma sample_env_ok [simp]: "env_ok (sample_env now) \<longleftrightarrow> plausible_now now \<and> now \<noteq> 0" "ne_now (sample_env now) = now"
  by (simp_all add: env_ok_def sample_env_def)

lemma sample_now [simp]: "plausible_now 504921500" "plausible_now 504922000" "plausible_now 504923000"
  by (simp_all add: plausible_now_def ESFarFarInTheFuture_def)

text \<open>A client asks for a synchronisation, or to stop one.\<close>

lemma sample_call:
  assumes "op = OpResync True \<and> m = MsgResync True \<or> op = OpStopSyncing \<and> m = MsgStopSyncing"
  shows "\<exists>d. ntp_reachable T sample_ntp d \<and> nd_inbox d = [m] \<and> st_lastSyncStart d = 0 \<and> can_start d \<and> \<not> st_inPollingMode d"
proof -
  have "\<exists>s. ntp_step (sample_env 504921500) (EvService 1 op) sample_ntp = Some (sample_ntp\<lparr>nd_es := s, nd_inbox := [m]\<rparr>)"
    using assms
    by (auto simp: ntp_service_def sample_ntp_def new_ntp_driver_def sample_estime_def estime_start_def sample_driver_def resync_def
        stopSyncing_def for_each_driver_def drv_resync_def drv_post_def the_driver_def emit_def callInThread_def upt_rec)
  then obtain s where s: "ntp_step (sample_env 504921500) (EvService 1 op) sample_ntp = Some (sample_ntp\<lparr>nd_es := s, nd_inbox := [m]\<rparr>)"
    by blast
  have en: "ntp_enabled (sample_env 504921500) (EvService 1 op) sample_ntp"
    "ntp_allowed T (sample_env 504921500) (EvService 1 op) sample_ntp"
    using assms by (auto simp: sample_ntp_def new_ntp_driver_def op_plausible_def own_op_def)
  have "ntp_reachable T sample_ntp (sample_ntp\<lparr>nd_es := s, nd_inbox := [m]\<rparr>)"
    by (rule ntp_reach_step[OF ntp_reach_start _ en s]) simp
  then show ?thesis
    by (intro exI[of _ "sample_ntp\<lparr>nd_es := s, nd_inbox := [m]\<rparr>"]) (simp add: sample_ntp_def new_ntp_driver_def can_start_def)
qed

lemma sample_syncing:
  assumes "\<bar>\<theta>\<bar> \<le> 10 ^ 9" "T \<subseteq> {sample_outlook \<theta>}"
  shows "\<exists>d. ntp_reachable T sample_ntp d \<and> st_lastSyncStart d = 504921500 \<and> \<not> st_inPollingMode d"
proof -
  let ?en = "sample_env 504921500"
  obtain d where d: "ntp_reachable T sample_ntp d" "nd_inbox d = [MsgResync True]" "st_lastSyncStart d = 0" "can_start d"
      "\<not> st_inPollingMode d"
    using sample_call by blast
  have "full_inv T d \<and> quiet d" by (rule reachable_full[OF d(1) sample_begins[OF assms]])
  then have f: "base_inv (d\<lparr>nd_inbox := []\<rparr>)" using full_inbox[of T d "[]"] by (simp add: full_inv_def)
  have c: "can_start (d\<lparr>nd_inbox := []\<rparr>)" using d(4) by (simp add: can_start_def)
  obtain d' where d': "startSyncing ?en True (d\<lparr>nd_inbox := []\<rparr>) = Some d'" "started ?en True (d\<lparr>nd_inbox := []\<rparr>) d'"
    using start_total[OF f _ c, of ?en True] by auto
  have "ntp_step ?en EvMessage d = Some d'" using d(2,3) d'(1) by (simp add: resyncInThisThread_def)
  then have "ntp_reachable T sample_ntp d'" using d(1,2) by (intro ntp_reach_step[of T sample_ntp d ?en EvMessage d']) simp_all
  then show ?thesis using d'(2) d(5) by (intro exI[of _ d']) (simp add: started_def)
qed

text \<open>The packet that makes the bounds close enough ends the synchronisation.\<close>

lemma good_packet_ends:
  assumes "full_inv {} d" "env_ok en" "nd_reading d" "st_lastSyncStart d \<noteq> 0" "\<not> st_inPollingMode d"
    and "the_driver (nd_index d) (nd_es d) = Some dr" "\<bar>lo\<bar> \<le> 2 ^ 33" "\<bar>hi\<bar> \<le> 2 ^ 33"
    and "m = max lo (nd_maxMinOffset d)" "M = min hi (nd_minMaxOffset d)" "m \<le> M" "M - m < 0.32"
  shows "\<exists>d'. gotPacket en lo hi si d = Some (True, d') \<and>
    the_driver (nd_index d') (nd_es d') = Some (dr\<lparr>drv_contSkew := (M + m) / 2, drv_currentTimeError := (M - m) / 2,
      drv_status := StatusSynchronized\<rparr>) \<and>
    nd_stopReading d' \<and> nd_lastSuccessfulSyncTime d' = ne_now en \<and> nd_restartSyncTimeout d' = Pending (ne_now en + 3600)"
proof -
  let ?n = "narrow lo hi d"
  have n: "full_inv {} ?n" using narrow_full[OF assms(1,7,8)] by simp
  have f: "nd_reading ?n" "st_lastSyncStart ?n \<noteq> 0" "\<not> st_inPollingMode ?n" "nd_minMaxOffset ?n = M" "nd_maxMinOffset ?n = m"
      "own_driver ?n = Some dr"
    using assms(3-6,9,10) by (auto simp: narrow_def min_def max_def)
  have p: "\<bar>(M + m) / 2\<bar> < ESFarFarInTheFuture / 2" using midpoint(1)[OF n _ f(2)] f(4,5) assms(11) by simp
  obtain r where r: "makeHostReportIfRequired ?n = ?n\<lparr>nd_reports := r\<rparr>" using makeHostReport_eq by blast
  let ?r = "?n\<lparr>nd_reports := r\<rparr>" and ?dr = "dr\<lparr>drv_contSkew := (M + m) / 2, drv_currentTimeError := (M - m) / 2\<rparr>"
  have e: "es_ok ?r" "own_driver ?r = Some dr" using n f(6) by (simp_all add: full_inv_def base_inv_def es_ok_def)
  obtain s1 where s1: "ntp_setContSkew en ((M + m) / 2) ((M - m) / 2) ?r = Some (?r\<lparr>nd_es := s1\<rparr>)" "es_ok (?r\<lparr>nd_es := s1\<rparr>)"
      "the_driver (nd_index ?r) s1 = Some ?dr"
    using ntp_setContSkew_total[OF e(1) assms(2) e(2) p] by blast
  have o: "own_driver (?r\<lparr>nd_es := s1\<rparr>) = Some ?dr" using s1(3) by simp
  obtain s2 where s2: "ntp_setStatus en StatusSynchronized (?r\<lparr>nd_es := s1\<rparr>) = Some (?r\<lparr>nd_es := s2\<rparr>)" "es_ok (?r\<lparr>nd_es := s2\<rparr>)"
      "the_driver (nd_index ?n) s2 = Some (?dr\<lparr>drv_status := StatusSynchronized\<rparr>)"
    using ntp_setStatus_total[OF s1(2) assms(2) o, of StatusSynchronized] by auto
  obtain t where t: "currentTime (ne_now en) s2 = Some t"
    using currentTime_total[of s2 "ne_now en"] s2(2) assms(2) by (auto simp: es_ok_def env_ok_def)
  show ?thesis
    using f s1(1) s2(1,3) t assms(11,12)
    by (simp add: gotPacket_def gotPacket_done_def r stateGotFinishingPacket_def stop_reading ES_FIX_GOOD_def ES_FIX_TIMEOUT_def)
qed

section \<open>A sample run\<close>

text \<open>
  One server of the user, whose clock is ahead by five seconds: the request is sent, the answer comes after
  1/32 s and is accepted, and its bounds are close enough to end the synchronisation.
\<close>

definition user_ntp :: ntp_driver where
  "user_ntp = new_ntp_driver 0 5 sample_estime \<lparr>userServerNames = Some [''time.nist.gov''], usePool = False\<rparr> ''en_US'' ''US'' 0"

definition answer :: pkt where
  "answer = good_packet\<lparr>pkt_org := \<lparr>l_ui = 3692217500, l_uf = 0\<rparr>, pkt_rec := \<lparr>l_ui = 3692217505, l_uf = 0x04000000\<rparr>,
     pkt_xmt := \<lparr>l_ui = 3692217505, l_uf = 0x04000000\<rparr>\<rparr>"

lemma request_stamp: "fst (timeStampMake 504921500) = \<lparr>l_ui = 3692217500, l_uf = 0\<rparr>"
  by (simp add: timeStampMake_def gettimeofdayCont_def currentContinuousTime_def TS_VALUE_OF_NSTIME_AT_1970_def truncate_real_def NTP_JAN_1970_def FRAC_def)
definition answer_time :: real where "answer_time = 504921500 + 1 / 32"
definition answer_data :: host_data where
  "answer_data = \<lparr>hd_leap = 0, hd_rootdelay = 1 / 64, hd_rootdispersion = 1 / 128, hd_precision = 1 / 1048576\<rparr>"
lemma answer_time_ok: "env_ok (sample_env answer_time)"
  by (simp add: answer_time_def plausible_now_def ESFarFarInTheFuture_def)

lemma answer_stamp: "fst (timeStampMake answer_time) = \<lparr>l_ui = 3692217500, l_uf = 0x08000000\<rparr>"
  by (simp add: answer_time_def timeStampMake_def gettimeofdayCont_def currentContinuousTime_def TS_VALUE_OF_NSTIME_AT_1970_def truncate_real_def NTP_JAN_1970_def FRAC_def)

lemma answer_accepted:
  "check_packet 48 answer = Some (VGood 2 answer_data)"
  by (simp add: answer_data_def check_packet_def check_times_def good_packet_def answer_def LEN_PKT_NOMAC_def PKT_VERSION_def PKT_MODE_def
      PKT_LEAP_def PKT_TO_STRATUM_def STRATUM_PKT_UNSPEC_def NTP_OLDVERSION_def NTP_VERSION_def
      MODE_SERVER_def pkt_precision_seconds_def FPTOD_def FRIC_def ES_ROOT_DELAY_REJECT_def
      ES_DISPERSION_REJECT_def L_ISZERO_def L_ISHIS_def M_ISHIS_def L_ISEQU_def M_ISEQU_def Let_def)

lemma user_asks: "\<exists>s. ntp_step (sample_env 504921500) (EvService 1 (OpResync True)) user_ntp = Some (user_ntp\<lparr>nd_es := s, nd_inbox := [MsgResync True]\<rparr>) \<and>
     the_driver 0 s = Some (sample_driver NTPDriver)"
    by (auto simp: ntp_service_def user_ntp_def new_ntp_driver_def sample_estime_def estime_start_def sample_driver_def resync_def
        stopSyncing_def for_each_driver_def drv_resync_def drv_post_def the_driver_def emit_def callInThread_def upt_rec)

abbreviation request_env :: ntp_env where "request_env \<equiv> sample_env 504921500"
abbreviation answer_env :: ntp_env where "answer_env \<equiv> sample_env answer_time"

definition user_started :: "estime \<Rightarrow> hosts_iterator \<Rightarrow> ntp_driver" where
  "user_started s it = (start_reset request_env (user_ntp\<lparr>nd_es := s, nd_inbox := [], st_lastSyncStart := 504921500\<rparr>))
     \<lparr>nd_activity := 1, nd_hostNameIterator := it,
      nd_hosts := [(host_init (''time.nist.gov'', 0, True))\<lparr>hn_resolving := True\<rparr>]\<rparr>"

lemma user_starts:
  assumes "full_inv T (user_ntp\<lparr>nd_es := s, nd_inbox := []\<rparr>)" "the_driver 0 s = Some (sample_driver NTPDriver)"
  shows "\<exists>s' it st. startSyncing request_env True (user_ntp\<lparr>nd_es := s, nd_inbox := []\<rparr>) = Some (user_started s' it) \<and>
    the_driver 0 s' = Some ((sample_driver NTPDriver)\<lparr>drv_status := st\<rparr>)"
proof -
  let ?d = "user_ntp\<lparr>nd_es := s, nd_inbox := [], st_lastSyncStart := 504921500, nd_stopReading := False\<rparr>"
  have i: "es_ok ?d" "farm_ok (it_farm (nd_hostNameIterator user_ntp))"
    using assms(1) by (simp_all add: full_inv_def base_inv_def es_ok_def)
  have o: "own_driver ?d = Some (sample_driver NTPDriver)" using assms(2) by (simp add: user_ntp_def new_ntp_driver_def)
  obtain s' st where s': "start_report request_env True ?d = Some (?d\<lparr>nd_es := s'\<rparr>)"
      "the_driver (nd_index ?d) s' = Some ((sample_driver NTPDriver)\<lparr>drv_status := st,
        drv_currentTimeError := if True then drv_currentTimeError (sample_driver NTPDriver) else 10 ^ 9\<rparr>)"
    using start_report_total[OF i(1) _ o, of request_env True] by auto
  obtain it where it: "iterate_hosts (nd_names user_ntp) (nd_hostNameIterator user_ntp) =
      Some (host_list (nd_names user_ntp) (it_farm (nd_hostNameIterator user_ntp)), it)"
    using iterate_host_list[OF i(2), of "nd_names user_ntp"] by (auto simp: user_ntp_def new_ntp_driver_def new_iterator_def)
  have l: "host_list (nd_names user_ntp) f = [(''time.nist.gov'', 0, True)]" for f
    by (simp add: host_list_def user_hosts_def user_ntp_def new_ntp_driver_def)
  have h: "start_hosts_of_names ((start_reset request_env (?d\<lparr>nd_es := s'\<rparr>))) = Some (user_started s' it)"
    using it unfolding l
    by (simp add: start_hosts_of_names_def start_reset_def user_started_def totalNumberOfHostNames_def numberOfUserHostNames_def
      user_ntp_def new_ntp_driver_def host_init_def)
  have "startSyncing request_env True (user_ntp\<lparr>nd_es := s, nd_inbox := []\<rparr>) = Some (user_started s' it)"
    using s'(1) h by (simp add: startSyncing_def user_ntp_def new_ntp_driver_def start_reset_def makeHostReportIfRequired_def user_started_def)
  then show ?thesis using s'(2) by (auto simp: user_ntp_def new_ntp_driver_def)
qed

definition server_address :: addrinfo where
  "server_address = \<lparr>ai_family = 2, ai_socktype = 2, ai_protocol = 17, ai_addr = [129, 6, 15, 28]\<rparr>"

text \<open>The socket after the request is sent.\<close>

definition asked_sock :: sock where
  "asked_sock = (new_sock server_address)\<lparr>sk_fd := 7, sk_timer := Pending 504921501, sk_timerObserver := SocketShortTimeout,
     sk_xmitTimes := [\<lparr>xmitTimeFP = \<lparr>l_ui = 3692217500, l_uf = 0\<rparr>, xmitTimeES = 504921500, longTimeoutTimer = NoTimer\<rparr>],
     sk_lastSendTime := 504921500, sk_packetsSent := 1\<rparr>"

lemma stamp_continuous: "snd (timeStampMake now) = now"
  by (simp add: timeStampMake_def gettimeofdayCont_def currentContinuousTime_def Let_def case_prod_unfold)

lemma request_stamp0: "timeStampMake 504921500 = (\<lparr>l_ui = 3692217500, l_uf = 0\<rparr>, 504921500)"
  using request_stamp stamp_continuous[of 504921500] by (simp add: prod_eq_iff)

lemma user_resolves:
  "\<exists>d. ntp_step request_env (EvResolved 0 [server_address] True) (user_started s it) = Some d \<and>
     nd_es d = s \<and> nd_index d = 0 \<and> nd_thread d = 5 \<and> st_lastSyncStart d = 504921500 \<and> \<not> st_inPollingMode d \<and>
     map hn_sockets (nd_hosts d) = [[asked_sock]] \<and> nd_maxMinOffset d = - (10 ^ 9) \<and> nd_minMaxOffset d = 10 ^ 9"
  by (simp add: notifyNameResolutionComplete_def user_started_def start_reset_def user_ntp_def new_ntp_driver_def
      the_host_def the_sock_def put_host_def put_sock_def host_init_def sockaddr_storage_size_def server_address_def nameResolutionComplete_def
      stateGotNameResolutionComplete_def makeHostReportIfRequired_def sendPacketsToAllHosts_def send_attempt_def
      connectAndSendFirstPacket_def new_sock_def send_connected_def send_now_def request_stamp0 is_user_sock_def sample_env_def
      LEN_PKT_NOMAC_def sendPacket.simps ES_SHORT_SOCKET_TIMEOUT_def checkMaxSocketFD_def installNoProgressTimeout_def asked_sock_def Let_def)

definition answer_error :: real where
  "answer_error = 1 / 64 + (1 / 128 * 1.25 + 1 / 128 + 1 / 1048576)"

lemma answer_exchange:
  "exchange \<lparr>l_ui = 3692217500, l_uf = 0x08000000\<rparr> answer (3692217500 * 2 ^ 32 + 0x08000000)
     (3692217505 * 2 ^ 32 + 0x04000000) (3692217505 * 2 ^ 32 + 0x04000000) (3692217500 * 2 ^ 32)"
  by (simp add: exchange_def answer_def good_packet_def lfp_val_int)

lemma answer_host_error: "host_error 2 answer_data = 1 / 128 * 1.25 + 1 / 128 + 1 / 1048576"
  by (simp add: host_error_def ES_BASE_PENALTY_STRATUM_def answer_data_def)

lemma answer_interval:
  "packet_bounds (fst (timeStampMake answer_time)) answer 2 answer_data = (5 - answer_error, 5 + answer_error, answer_error)"
  unfolding packet_bounds_def answer_stamp exchange_offset[OF answer_exchange]
  by (simp add: FRAC_def FRIC_def answer_host_error answer_error_def)

lemma answer_bounds_small:
  "\<bar>5 - answer_error\<bar> \<le> 2 ^ 33" "\<bar>5 + answer_error\<bar> \<le> 2 ^ 33" "5 - answer_error = max (5 - answer_error) (- (10 ^ 9))"
  "5 + answer_error = min (5 + answer_error) (10 ^ 9)" "5 - answer_error \<le> 5 + answer_error"
  "5 + answer_error - (5 - answer_error) < 0.32" "(5 + answer_error + (5 - answer_error)) / 2 = 5"
  "(5 + answer_error - (5 - answer_error)) / 2 = answer_error"
  by (simp_all add: answer_error_def)

definition answers :: readers where
  "answers fd = (if fd = 7 then Some (48, answer) else None)"

lemma answers_honest: "readers_ok {sample_outlook 5} answer_env answers"
proof -
  have "honest 5 \<lparr>l_ui = 3692217500, l_uf = 0x08000000\<rparr> answer (host_error 2 answer_data)"
    unfolding honest_def answer_host_error
    apply (rule exI[of _ "3692217500 * 2 ^ 32 + 0x08000000"], rule exI[of _ "3692217505 * 2 ^ 32 + 0x04000000"])
    apply (rule exI[of _ "3692217505 * 2 ^ 32 + 0x04000000"], rule exI[of _ "3692217500 * 2 ^ 32"])
    apply (rule exI[of _ "1 / 64"], rule exI[of _ "1 / 64"], rule exI[of _ 0], rule exI[of _ 0])
    using answer_exchange by (simp add: FRAC_def)
  then show ?thesis
    by (simp add: readers_ok_def answers_def answer_ok_def answer_accepted answer_stamp sample_outlook_def)
qed

lemma answer_found [simp]:
  "find_xmit (pkt_org answer) (sk_xmitTimes asked_sock) =
     Some (\<lparr>xmitTimeFP = \<lparr>l_ui = 3692217500, l_uf = 0\<rparr>, xmitTimeES = 504921500, longTimeoutTimer = NoTimer\<rparr>, [])"
  "sk_packetsReceived asked_sock = 0"
  by (simp_all add: answer_def asked_sock_def new_sock_def L_ISEQU_def M_ISEQU_def)

lemma user_answers:
  assumes "full_inv {} d" "quiet d" "own_driver d = Some dr" "st_lastSyncStart d \<noteq> 0" "\<not> st_inPollingMode d"
    and "map hn_sockets (nd_hosts d) = [[asked_sock]]" "nd_maxMinOffset d = - (10 ^ 9)" "nd_minMaxOffset d = 10 ^ 9"
  shows "\<exists>d'. ntp_step answer_env (EvReaders answers) d = Some d' \<and>
    own_driver d' = Some (dr\<lparr>drv_contSkew := 5, drv_currentTimeError := answer_error, drv_status := StatusSynchronized\<rparr>)"
proof -
  let ?s = "(0, 0) :: nat \<times> nat" and ?d0 = "d\<lparr>nd_reading := True\<rparr>"
  have h: "length (nd_hosts d) = 1" "length (hn_sockets (nd_hosts d ! 0)) = 1" "hn_sockets (nd_hosts d ! 0) ! 0 = asked_sock"
    using assms(6) by (auto simp: map_eq_Cons_conv)
  then have s0: "the_sock ?s ?d0 = Some asked_sock" "the_host 0 ?d0 = Some (nd_hosts d ! 0)" "has_sock ?s (shape ?d0)"
    by (simp_all add: the_sock_def the_host_def has_sock_def shape_def)
  define sk1 where "sk1 = asked_sock\<lparr>sk_xmitTimes := [], sk_packetsReceived := 1, sk_timer := NoTimer\<rparr>"
  define d1 where "d1 = (put_sock ?s sk1 ?d0)\<lparr>st_numPacketsReceived := st_numPacketsReceived d + 1\<rparr>"
  define sk2 where "sk2 = (let sk = note_bounds False (5 - answer_error) (5 + answer_error) (host_error 2 answer_data) (sk1\<lparr>sk_stratum := Some (uint (2 :: u8)), sk_leapBits := uint (hd_leap answer_data)\<rparr>);
     sk = sk\<lparr>sk_packetsUsed := sk_packetsUsed sk + 1, sk_sumRTT := sk_sumRTT sk + answer_error * 2\<rparr>
     in sk\<lparr>sk_averageRTT := sk_sumRTT sk / of_int (sk_packetsReceived sk)\<rparr>)"
  let ?d2 = "put_sock ?s sk2 d1"
  have "full_inv {} ?d0" using assms(1) by simp
  then have "full_inv {} (put_sock ?s sk1 ?d0)" by (rule full_put_sock) (simp add: no_timer_ok sk1_def)
  then have f1: "full_inv {} d1" using full_received by (fastforce simp: d1_def)
  have "sk_timer sk2 = NoTimer" by (simp add: sk2_def sk1_def Let_def)
  then have f2: "full_inv {} ?d2" using f1 by (intro full_put_sock no_timer_ok)
  have s1: "the_sock ?s d1 = Some sk1" using the_sock_put[OF s0(3), of sk1] by (simp add: d1_def)
  have "shape d1 = shape (put_sock ?s sk1 ?d0)" by (simp only: d1_def shape_def) simp
  moreover have "shape (put_sock ?s sk1 ?d0) = shape ?d0" by simp
  ultimately have shape_d1: "shape d1 = shape ?d0" by simp
  have f: "nd_reading ?d2" "st_lastSyncStart ?d2 \<noteq> 0" "\<not> st_inPollingMode ?d2" "nd_maxMinOffset ?d2 = - (10 ^ 9)"
      "nd_minMaxOffset ?d2 = 10 ^ 9" "own_driver ?d2 = Some dr"
    using assms by (simp_all add: d1_def put_sock_def put_host_def Let_def)
  obtain d3 where d3: "gotPacket answer_env (5 - answer_error) (5 + answer_error) ?s ?d2 = Some (True, d3)"
      "own_driver d3 = Some (dr\<lparr>drv_contSkew := 5, drv_currentTimeError := answer_error, drv_status := StatusSynchronized\<rparr>)"
      "nd_stopReading d3"
    using good_packet_ends[OF f2 _ f(1-3,6), of answer_env "5 - answer_error" "5 + answer_error" "5 - answer_error" "5 + answer_error" ?s] f(4,5)
      answer_time_ok answer_bounds_small by auto
  have s2: "has_sock ?s (shape ?d2)" using s0(3) shape_d1 by simp
  have f3: "full_inv {} d3"
    using gotPacket_ok[OF f2 answer_time_ok f(1) s2 answer_bounds_small(1,2)] d3(1) by auto
  have "recvPacket_good answer_env ?s answer 2 answer_data d1 = Some (True, d3)"
    unfolding recvPacket_good_def s1 sample_env_ok(2) answer_interval Let_def bind.bind_lunit prod.case
    using d3(1) assms(5) by (simp add: sk2_def d1_def Let_def)
  then have r: "recvPacket answer_env ?s 48 answer ?d0 = Some (True, d3)"
    by (simp add: recvPacket_def s0(1) answer_found answer_accepted sk1_def[symmetric] d1_def[symmetric])
  have "processRemoteSockets_loop answer_env answers [0..<length (nd_hosts d)] ?d0 = Some d3"
    using r d3(3) s0(1,2) h(1,2) by (simp add: asked_sock_def answers_def)
  then have p: "ntp_step answer_env (EvReaders answers) d =
      stopSyncingInThisThread answer_env (d3\<lparr>nd_reading := False, nd_stopReading := False\<rparr>)"
    using d3(3) by (simp add: processRemoteSockets_def)
  have b: "base_inv (d3\<lparr>nd_reading := False, nd_stopReading := False\<rparr>)" "st_lastSyncStart d3 \<noteq> 0"
    using full_flags(2)[OF f3] f3 d3(3) by (simp_all add: full_inv_def base_inv_def)
  obtain d4 where "stopSyncingInThisThread answer_env (d3\<lparr>nd_reading := False, nd_stopReading := False\<rparr>) = Some d4"
      "stopped (d3\<lparr>nd_reading := False, nd_stopReading := False\<rparr>) d4"
    using stop_total[OF b(1) answer_time_ok] b(2) by auto
  then show ?thesis using p d3(2) by (auto simp: stopped_def)
qed

lemma user_begins: "T \<subseteq> {sample_outlook 5} \<Longrightarrow> ntp_begins T user_ntp"
  unfolding user_ntp_def by (rule sample_begins_names[where \<theta> = 5]) (simp_all add: names_ok_def)

lemma user_run:
  "\<exists>d d' dr. ntp_reachable {sample_outlook 5} user_ntp d \<and> st_lastSyncStart d = 504921500 \<and>
     ntp_step answer_env (EvReaders answers) d = Some d' \<and> ntp_reachable {sample_outlook 5} user_ntp d' \<and>
     the_driver (nd_index d') (nd_es d') = Some dr \<and> drv_contSkew dr = 5 \<and> drv_currentTimeError dr = answer_error \<and>
     drv_status dr = StatusSynchronized"
proof -
  let ?T = "{sample_outlook 5}"
  obtain s0 where s0: "ntp_step request_env (EvService 1 (OpResync True)) user_ntp = Some (user_ntp\<lparr>nd_es := s0, nd_inbox := [MsgResync True]\<rparr>)"
      "the_driver 0 s0 = Some (sample_driver NTPDriver)"
    using user_asks by blast
  have r0: "ntp_reachable ?T user_ntp (user_ntp\<lparr>nd_es := s0, nd_inbox := [MsgResync True]\<rparr>)"
    by (rule ntp_reach_step[OF ntp_reach_start _ _ _ s0(1)])
      (simp_all add: user_ntp_def new_ntp_driver_def op_plausible_def own_op_def)
  then have "full_inv ?T (user_ntp\<lparr>nd_es := s0, nd_inbox := [MsgResync True]\<rparr>)"
    using reachable_full[OF _ user_begins] by blast
  then have "full_inv ?T (user_ntp\<lparr>nd_es := s0, nd_inbox := []\<rparr>)"
    using full_inbox[of ?T "user_ntp\<lparr>nd_es := s0, nd_inbox := [MsgResync True]\<rparr>" "[]"] by simp
  then obtain s1 it st where s1: "startSyncing request_env True (user_ntp\<lparr>nd_es := s0, nd_inbox := []\<rparr>) = Some (user_started s1 it)"
      "the_driver 0 s1 = Some ((sample_driver NTPDriver)\<lparr>drv_status := st\<rparr>)"
    using user_starts[OF _ s0(2)] by blast
  have "ntp_step request_env EvMessage (user_ntp\<lparr>nd_es := s0, nd_inbox := [MsgResync True]\<rparr>) = Some (user_started s1 it)"
    using s1(1) by (simp add: resyncInThisThread_def user_ntp_def new_ntp_driver_def)
  then have r1: "ntp_reachable ?T user_ntp (user_started s1 it)"
    by (intro ntp_reach_step[OF r0, of request_env EvMessage]) simp_all
  obtain d where d: "ntp_step request_env (EvResolved 0 [server_address] True) (user_started s1 it) = Some d"
      "nd_es d = s1" "nd_index d = 0" "st_lastSyncStart d = 504921500" "\<not> st_inPollingMode d"
      "map hn_sockets (nd_hosts d) = [[asked_sock]]" "nd_maxMinOffset d = - (10 ^ 9)" "nd_minMaxOffset d = 10 ^ 9"
    using user_resolves[of s1 it] by (elim exE conjE) (rule that)
  have r2: "ntp_reachable ?T user_ntp d"
    by (rule ntp_reach_step[OF r1 _ _ _ d(1)])
      (simp_all add: user_started_def the_host_def host_init_def server_address_def sockaddr_storage_size_def)
  then have f: "full_inv ?T d" "quiet d" using reachable_full[OF _ user_begins] by blast+
  then have "full_inv {} d" by (simp add: full_inv_def)
  then obtain d' where d': "ntp_step answer_env (EvReaders answers) d = Some d'"
     "own_driver d' = Some ((sample_driver NTPDriver)\<lparr>drv_status := StatusSynchronized, drv_contSkew := 5, drv_currentTimeError := answer_error\<rparr>)"
    using user_answers[OF _ f(2), of "(sample_driver NTPDriver)\<lparr>drv_status := st\<rparr>"] d(2-8) s1(2) by auto
  have "ntp_reachable ?T user_ntp d'"
    by (rule ntp_reach_step[OF r2 answer_time_ok _ _ d'(1)]) (simp_all add: answers_honest)
  then show ?thesis using r2 d(4) d' by (intro exI[of _ d] exI[of _ d'] exI[of _ "(sample_driver NTPDriver)\<lparr>drv_status := StatusSynchronized,
    drv_contSkew := 5, drv_currentTimeError := answer_error\<rparr>"]) simp
qed

section \<open>Promises\<close>

text \<open>C1: From the start, under events in any order (answers, timers, names, the network, calls from other threads), no assertion of the NTP driver and of the time service below it fails, provided that: the pool is enabled or the user has a list of servers, at the start and after every change of the names (without both the start of a synchronisation fails, theorem start_without_names_asserts); the precision of every answer can be converted (no shift by 32 or more); stopSyncing is handled only during a synchronisation (otherwise C6); polling is not asked for outside polling mode and that mode is not left; a resolved address fits sockaddr_storage; the clock reads neither 0 nor an absurd time (a quarter of 10^150 s), and operations of other threads on the time service name existing drivers, do not set skew or status of this one and set no absurd skew.\<close>

theorem ntp_driver_never_asserts:
  assumes "ntp_begins T d0" "ntp_reachable T d0 d" "env_ok en" "ntp_enabled en ev d" "ntp_allowed T en ev d"
  shows "\<exists>d'. ntp_step en ev d = Some d' \<and> ntp_reachable T d0 d'"
  by (rule reachable_step[OF assms(2,1,3-5)])

theorem ntp_driver_never_asserts_witness:
  "\<exists>d d'. ntp_reachable {} sample_ntp d \<and> st_lastSyncStart d = 504921500 \<and>
     ntp_step (sample_env 504922000) EvGiveUp d = Some d' \<and> ntp_reachable {} sample_ntp d'"
proof -
  obtain d where d: "ntp_reachable {} sample_ntp d" "st_lastSyncStart d = 504921500" "\<not> st_inPollingMode d"
    using sample_syncing[of 0 "{}"] by auto
  have "full_inv {} d" using reachable_full[OF d(1) sample_begins[of 0]] by simp
  then have "due 504922000 (nd_giveUpTimer d)"
    using d(2,3) by (simp add: full_inv_def fail_ok_def due_def ES_GIVE_UP_INTERVAL_def)
  then show ?thesis
    using ntp_driver_never_asserts[OF sample_begins[of 0 "{}"] d(1), of "sample_env 504922000" EvGiveUp] d by auto
qed

text \<open>C5: Under the provisos of C1, in every reachable state the queue refers to existing sockets of pool hosts, the network activity indicator is on exactly during a synchronisation, without one there are no hosts and no timers but that to restart and that of polling mode, a host with sockets is neither being resolved nor waiting to be, the throttle interval is between 0 and 15 s, and only polling mode has a polling timer.\<close>

theorem ntp_driver_well_formed:
  assumes "ntp_begins T d0" "ntp_reachable T d0 d"
  shows "(\<forall>si\<in>set (nd_available d). is_user_sock si d = Some False \<and> the_sock si d \<noteq> None) \<and>
    nd_activity d = (if st_lastSyncStart d = 0 then 0 else 1) \<and>
    (st_lastSyncStart d = 0 \<longrightarrow> nd_hosts d = [] \<and> nd_available d = [] \<and> nd_giveUpTimer d = NoTimer \<and>
       nd_proximityBumpTimer d = NoTimer \<and> nd_noProgressTimeout d = NoTimer) \<and>
    (\<forall>h\<in>set (nd_hosts d). hn_sockets h = [] \<or> \<not> hn_resolving h \<and> hn_failureTimer h = NoTimer) \<and>
    0 \<le> nd_throttleSendInterval d \<and> nd_throttleSendInterval d \<le> 15 \<and>
    (\<not> st_inPollingMode d \<longrightarrow> st_pollingHostTimer d = NoTimer) \<and> \<not> nd_reading d"
proof -
  have f: "full_inv T d" "quiet d" using reachable_full[OF assms(2,1)] by simp_all
  then have b: "base_inv d" "inner_inv d" by (simp_all add: full_inv_def base_inv_def)
  have "is_user_sock si d = Some False \<and> the_sock si d \<noteq> None" if "si \<in> set (nd_available d)" for si
  proof -
    have "pool_sock si (shape d)" using b(2) that by (simp add: inner_inv_def)
    then show ?thesis using the_sock_Some is_user_Some by (auto simp: pool_sock_def)
  qed
  moreover have "\<forall>h\<in>set (nd_hosts d). hn_sockets h = [] \<or> \<not> hn_resolving h \<and> hn_failureTimer h = NoTimer"
    using b(2) by (auto simp: inner_inv_def host_ok_def)
  moreover have "st_lastSyncStart d = 0 \<Longrightarrow> nd_available d = []"
    using idle_available[OF b(1)] b(1) by (simp add: base_inv_def idle_ok_def)
  ultimately show ?thesis
    using b f(2) by (simp add: base_inv_def idle_ok_def inner_inv_def throttle_ok_def polling_ok_def quiet_def
        ES_THROTTLE_INTERVAL_MAX_def)
qed

theorem ntp_driver_well_formed_witness:
  "\<exists>d. ntp_reachable {} sample_ntp d \<and> st_lastSyncStart d = 504921500 \<and> nd_activity d = 1 \<and>
     nd_throttleSendInterval d \<le> 15"
proof -
  obtain d where d: "ntp_reachable {} sample_ntp d" "st_lastSyncStart d = 504921500"
    using sample_syncing[of 0 "{}"] by auto
  then show ?thesis using ntp_driver_well_formed[OF sample_begins[of 0 "{}"] d(1)] by auto
qed

text \<open>C2: The constructor restores skew and error from the preferences, which may be wrong by now. Under the provisos of C1, if every accepted answer comes from a server whose clock is ahead of the clock of the device by theta (at most 10^9 s) and whose stamps are right within its host error, then in every reachable state: as soon as the report is another than the restored one, and from the start if the restored one was right, the reported skew is within the reported error of theta, up to 1/65536 s; in status Synchronized it is within 0.16 s, whatever was restored; and while this driver is the best one and no leap second is due, the current time of the service is off the true time by exactly as much as the reported skew.\<close>

theorem ntp_driver_keeps_truth:
  assumes "ntp_begins {w} d0" "ntp_reachable {w} d0 d"
  shows "\<exists>dr. the_driver (nd_index d) (nd_es d) = Some dr \<and>
    (\<not> still_first w dr \<or> \<bar>firstSkew w - trueSkew w\<bar> \<le> min (firstError w) (10 ^ 9) \<longrightarrow>
       \<bar>drv_contSkew dr - trueSkew w\<bar> \<le> drv_currentTimeError dr + 1 / FRIC) \<and>
    (drv_status dr = StatusSynchronized \<longrightarrow> \<bar>drv_contSkew dr - trueSkew w\<bar> < 0.16 + 1 / FRIC) \<and>
    (\<forall>now. es_bestDriver (nd_es d) = Some (nd_index d) \<and> drv_contSkew dr + now < nextLeapSecondDate (nd_es d) \<longrightarrow>
       (\<exists>t. currentTime now (nd_es d) = Some t \<and> \<bar>t - (now + trueSkew w)\<bar> = \<bar>drv_contSkew dr - trueSkew w\<bar>))"
proof -
  have f: "full_inv {w} d" using reachable_full[OF assms(2,1)] by simp
  obtain dr where dr: "own_driver d = Some dr" "tells w dr d" using full_own[OF f] by (metis singletonI)
  have "currentTime now (nd_es d) = Some (drv_contSkew dr + now)"
    if "es_bestDriver (nd_es d) = Some (nd_index d)" "drv_contSkew dr + now < nextLeapSecondDate (nd_es d)" for now
  proof -
    have "best_driver (nd_es d) = Some dr"
      using that(1) dr(1) by (auto simp: best_driver_def the_driver_def split: option.splits if_splits)
    then show ?thesis using that(2) by (simp add: currentTime_def adjustForLeapSecond_def)
  qed
  moreover have "drv_contSkew dr + now - (now + trueSkew w) = drv_contSkew dr - trueSkew w" for now by simp
  moreover have "\<bar>drv_contSkew dr - trueSkew w\<bar> \<le> drv_currentTimeError dr + 1 / FRIC"
    if "\<not> still_first w dr \<or> \<bar>firstSkew w - trueSkew w\<bar> \<le> min (firstError w) (10 ^ 9)"
  proof (cases "still_first w dr")
    case True
    then have "\<bar>drv_contSkew dr - trueSkew w\<bar> \<le> drv_currentTimeError dr"
      using that by (auto simp: still_first_def)
    moreover have "0 \<le> 1 / FRIC" by (simp add: FRIC_def)
    ultimately show ?thesis by linarith
  next
    case False
    then show ?thesis using dr(2) by (simp add: tells_def tells_true_def)
  qed
  moreover have "\<bar>drv_contSkew dr - trueSkew w\<bar> < 0.16 + 1 / FRIC" if "drv_status dr = StatusSynchronized"
    using dr(2) that by (simp add: tells_simps ES_FIX_GOOD_def)
  ultimately show ?thesis using dr(1) by (intro exI[of _ dr]) simp
qed

theorem ntp_driver_keeps_truth_witness:
  "\<exists>d d' dr. ntp_reachable {sample_outlook 5} user_ntp d \<and> st_lastSyncStart d = 504921500 \<and>
     check_packet 48 answer = Some (VGood 2 answer_data) \<and> answers 7 = Some (48, answer) \<and>
     ntp_step answer_env (EvReaders answers) d = Some d' \<and> ntp_reachable {sample_outlook 5} user_ntp d' \<and>
     the_driver (nd_index d') (nd_es d') = Some dr \<and> drv_status dr = StatusSynchronized \<and>
     \<bar>drv_contSkew dr - 5\<bar> < 0.16 + 1 / FRIC \<and> \<bar>drv_contSkew dr - 5\<bar> \<le> drv_currentTimeError dr + 1 / FRIC"
proof -
  obtain d d' dr where d: "ntp_reachable {sample_outlook 5} user_ntp d" "st_lastSyncStart d = 504921500"
      "ntp_step answer_env (EvReaders answers) d = Some d'" "ntp_reachable {sample_outlook 5} user_ntp d'"
      "the_driver (nd_index d') (nd_es d') = Some dr" "drv_status dr = StatusSynchronized"
    using user_run by blast
  have "\<not> still_first (sample_outlook 5) dr" using d(6) by (simp add: still_first_def)
  then have "\<bar>drv_contSkew dr - 5\<bar> < 0.16 + 1 / FRIC \<and> \<bar>drv_contSkew dr - 5\<bar> \<le> drv_currentTimeError dr + 1 / FRIC"
    using ntp_driver_keeps_truth[OF user_begins d(4)] d(5,6) by (simp add: sample_outlook_def)
  then show ?thesis using d answer_accepted by (intro exI[of _ d] exI[of _ d'] exI[of _ dr]) (simp add: answers_def)
qed

text \<open>C3: Under the provisos of C1, a synchronisation outside polling mode cannot go on for ever: after 480 s the timer to give up is due, its step ends the synchronisation and sets a timer of 600 s (never a longer one), and when that is due and synchronisation is enabled and the network reachable, the next synchronisation starts.\<close>

theorem ntp_sync_ends_and_retries:
  assumes "ntp_begins T d0" "ntp_reachable T d0 d" "st_lastSyncStart d \<noteq> 0" "\<not> st_inPollingMode d"
    and "env_ok en" "st_lastSyncStart d + 480 \<le> ne_now en"
  shows "ntp_enabled en EvGiveUp d \<and> (\<exists>d'. ntp_step en EvGiveUp d = Some d' \<and> st_lastSyncStart d' = 0 \<and> nd_hosts d' = [] \<and>
    nd_restartSyncTimeout d' = Pending (ne_now en + 600) \<and>
    (\<forall>en'. env_ok en' \<and> ne_now en + 600 \<le> ne_now en' \<and> \<not> nd_disabled d' \<and> nd_networkReachable d' \<longrightarrow>
       ntp_enabled en' EvRestartSync d' \<and>
       (\<exists>d''. ntp_step en' EvRestartSync d' = Some d'' \<and> st_lastSyncStart d'' = ne_now en')))"
proof -
  have f: "full_inv T d" "quiet d" using reachable_full[OF assms(2,1)] by simp_all
  have "nd_giveUpTimer d = Pending (st_lastSyncStart d + ES_GIVE_UP_INTERVAL)"
    using f(1) assms(3,4) by (simp add: full_inv_def fail_ok_def)
  then have en: "ntp_enabled en EvGiveUp d" using assms(6) by (simp add: due_def ES_GIVE_UP_INTERVAL_def)
  obtain d' where d': "giveUpTimerFire en (d\<lparr>nd_giveUpTimer := Fired\<rparr>) = Some d'" "full_inv T d'" "quiet d'"
      "st_lastSyncStart d' = 0" "nd_restartSyncTimeout d' = Pending (ne_now en + ES_FIX_TIMEOUT_FAILED)"
      "st_inPollingMode d' = st_inPollingMode d"
    using give_up_ok[OF f assms(5,3)] by blast
  have "\<exists>d''. ntp_step en' EvRestartSync d' = Some d'' \<and> st_lastSyncStart d'' = ne_now en'"
    if e: "env_ok en'" "\<not> nd_disabled d'" "nd_networkReachable d'" for en'
  proof -
    let ?d = "d'\<lparr>nd_restartSyncTimeout := Fired\<rparr>"
    have "full_inv T ?d" using d'(2) by simp
    then have b: "base_inv ?d" by (simp add: full_inv_def)
    have c: "can_start ?d" using e d'(4) by (simp add: can_start_def)
    obtain d'' where "startSyncing en' True ?d = Some d''" "started en' True ?d d''"
      using start_total[OF b e(1) c] by blast
    then show ?thesis
      using d'(4,6) assms(4) by (auto simp: stateGotResyncTimeout_def resyncInThisThread_def Let_def started_def)
  qed
  moreover have "nd_hosts d' = []" using d'(2,4) by (simp add: full_inv_def base_inv_def idle_ok_def)
  ultimately show ?thesis
    using en d'(1,4,5) assms(4) by (auto simp: Let_def due_def ES_FIX_TIMEOUT_FAILED_def)
qed

theorem ntp_sync_ends_and_retries_witness:
  "\<exists>d d'. ntp_reachable {} sample_ntp d \<and> st_lastSyncStart d = 504921500 \<and>
     ntp_step (sample_env 504922000) EvGiveUp d = Some d' \<and> nd_restartSyncTimeout d' = Pending 504922600"
proof -
  obtain d where d: "ntp_reachable {} sample_ntp d" "st_lastSyncStart d = 504921500" "\<not> st_inPollingMode d"
    using sample_syncing[of 0 "{}"] by auto
  then show ?thesis
    using ntp_sync_ends_and_retries[OF sample_begins[of 0 "{}"] d(1) _ d(3), of "sample_env 504922000"] by auto
qed

text \<open>C4: Outside polling mode, while the sockets are read during a synchronisation, a packet (with bounds below 2^33 s) that brings the intersection of all bounds below 0.32 s makes its middle the skew and half its width the error, gives the status Synchronized, notes the time, asks for the stop of the synchronisation and for the next one in an hour. In polling mode gotPacket returns before the last three.\<close>

theorem good_packet_synchronises:
  assumes "full_inv {} d" "env_ok en" "nd_reading d" "st_lastSyncStart d \<noteq> 0" "\<not> st_inPollingMode d"
    and "the_driver (nd_index d) (nd_es d) = Some dr" "\<bar>lo\<bar> \<le> 2 ^ 33" "\<bar>hi\<bar> \<le> 2 ^ 33"
    and "m = max lo (nd_maxMinOffset d)" "M = min hi (nd_minMaxOffset d)" "m \<le> M" "M - m < 0.32"
  shows "\<exists>d'. gotPacket en lo hi si d = Some (True, d') \<and>
    the_driver (nd_index d') (nd_es d') = Some (dr\<lparr>drv_contSkew := (M + m) / 2, drv_currentTimeError := (M - m) / 2,
      drv_status := StatusSynchronized\<rparr>) \<and>
    nd_stopReading d' \<and> nd_lastSuccessfulSyncTime d' = ne_now en \<and> nd_restartSyncTimeout d' = Pending (ne_now en + 3600)"
  by (rule good_packet_ends[OF assms])

section \<open>Where it fails\<close>

text \<open>C6: In every state reachable under the provisos of C1, the message of stopSyncing fails an assertion exactly when no synchronisation runs at the time it is handled, such as after the one it was meant for has finished.\<close>

theorem stop_message_asserts_without_sync:
  assumes "ntp_begins T d0" "ntp_reachable T d0 d" "env_ok en" "nd_inbox d = MsgStopSyncing # ms"
  shows "(ntp_step en EvMessage d = None) = (st_lastSyncStart d = 0)"
proof -
  have f: "full_inv T d" "quiet d" using reachable_full[OF assms(2,1)] by simp_all
  show ?thesis
  proof (cases "st_lastSyncStart d = 0")
    case True
    then show ?thesis using f(2) assms(4) by (simp add: stopSyncingInThisThread_def note_sync_end_def quiet_def)
  next
    case False
    then have "event_ok T (ntp_step en EvMessage d)" using assms(4) by (intro message_event[OF f assms(3)]) simp
    then show ?thesis using False by (auto simp: event_ok_def)
  qed
qed

theorem stop_message_asserts_without_sync_witness:
  "\<exists>d. ntp_reachable {} sample_ntp d \<and> nd_inbox d = [MsgStopSyncing] \<and> ntp_step (sample_env 504922000) EvMessage d = None"
proof -
  obtain d where d: "ntp_reachable {} sample_ntp d" "nd_inbox d = [MsgStopSyncing]" "st_lastSyncStart d = 0"
    using sample_call[of OpStopSyncing MsgStopSyncing "{}"] by auto
  then show ?thesis
    using stop_message_asserts_without_sync[OF sample_begins[of 0 "{}"] d(1), of "sample_env 504922000" "[]"] by auto
qed

theorem start_without_names_asserts:
  assumes "ntp_begins T d0" "ntp_reachable T d0 d" "env_ok en" "ntp_step en (EvNames names) d = Some d'"
    and "st_lastSyncStart d = 0" "nd_networkReachable d" "\<not> nd_disabled d"
  shows "(startSyncing en u d' = None) = (\<not> usePool names \<and> userServerNames names = None)"
proof -
  have f: "full_inv T d" using reachable_full[OF assms(2,1)] by simp
  have d': "d' = d\<lparr>nd_names := names\<rparr>" using assms(4) by simp
  show ?thesis
  proof (cases "names_ok names")
    case True
    have "base_inv d'" using full_names[OF f True] by (simp add: d' full_inv_def)
    then show ?thesis
      using start_total[of d' en u] assms(3,5-7) True by (auto simp: d' can_start_def names_ok_def)
  next
    case False
    let ?d = "d'\<lparr>st_lastSyncStart := ne_now en, nd_stopReading := False\<rparr>"
    have e: "es_ok ?d" using f by (simp add: d' full_inv_def base_inv_def es_ok_def)
    obtain dr where "own_driver ?d = Some dr" using own_driver_Some[OF e] by blast
    then obtain s where s: "start_report en u ?d = Some (?d\<lparr>nd_es := s\<rparr>)"
      using start_report_total[OF e assms(3)] by blast
    have "start_hosts_of_names x = None" if "nd_names x = names" for x
      using that False by (simp add: start_hosts_of_names_def totalNumberOfHostNames_def names_ok_def)
    then have "startSyncing en u d' = None"
      using s assms(5-7)
      by (cases "st_inPollingMode d") (simp_all add: startSyncing_def d' restartPollingCycle_def start_reset_def Let_def)
    then show ?thesis using False by (simp add: names_ok_def)
  qed
qed

theorem start_without_names_asserts_witness:
  "startSyncing (sample_env 504922000) True (sample_ntp\<lparr>nd_names := \<lparr>userServerNames = None, usePool = False\<rparr>\<rparr>) = None"
  using start_without_names_asserts[OF sample_begins[of 0 "{}"] ntp_reach_start, of "sample_env 504922000"
      "\<lparr>userServerNames = None, usePool = False\<rparr>" _ True]
  by (simp add: sample_ntp_def new_ntp_driver_def)

text \<open>Answers that do not overlap: the driver asks for a new synchronisation and gets none.\<close>

text \<open>C7: Outside polling mode, when an answer (with bounds below 2^33 s) does not overlap the bounds so far, the driver asks for a new synchronisation, but as sockets are being read only the stop is noted: the synchronisation ends and no timer for another one is set.\<close>

theorem disjoint_answers_end_sync:
  assumes "full_inv {} d" "env_ok en" "nd_reading d" "st_lastSyncStart d \<noteq> 0" "\<not> st_inPollingMode d"
    and "\<bar>lo\<bar> \<le> 2 ^ 33" "\<bar>hi\<bar> \<le> 2 ^ 33" "min hi (nd_minMaxOffset d) < max lo (nd_maxMinOffset d)"
  shows "\<exists>d1 d2. gotPacket en lo hi si d = Some (True, d1) \<and> nd_stopReading d1 \<and>
    stopSyncingInThisThread en (d1\<lparr>nd_reading := False, nd_stopReading := False\<rparr>) = Some d2 \<and>
    st_lastSyncStart d2 = 0 \<and> nd_hosts d2 = [] \<and> nd_restartSyncTimeout d2 = nd_restartSyncTimeout d"
proof -
  let ?n = "narrow lo hi d"
  have n: "full_inv {} ?n" using narrow_full[OF assms(1,6,7)] by simp
  have f: "nd_reading ?n" "st_lastSyncStart ?n \<noteq> 0" "\<not> st_inPollingMode ?n" using assms(3-5) by (simp_all add: narrow_def)
  have m: "nd_minMaxOffset ?n = min hi (nd_minMaxOffset d)" "nd_maxMinOffset ?n = max lo (nd_maxMinOffset d)"
    by (auto simp: narrow_def min_def max_def)
  have g: "gotPacket en lo hi si d = Some (True, ?n\<lparr>nd_stopReading := True\<rparr>)"
    using assms(8) f resync_reading[OF f(1,2)] by (simp add: gotPacket_def m)
  let ?d = "?n\<lparr>nd_reading := False, nd_stopReading := False\<rparr>"
  have e: "base_inv ?d" using full_flags(2)[OF n] by (simp add: full_inv_def)
  obtain d2 where d2: "stopSyncingInThisThread en ?d = Some d2" "stopped ?d d2"
    using stop_total[OF e assms(2)] f(2) by auto
  have "?n\<lparr>nd_stopReading := True, nd_reading := False, nd_stopReading := False\<rparr> = ?d" by simp
  moreover have "st_lastSyncStart d2 = 0" "nd_restartSyncTimeout d2 = nd_restartSyncTimeout d" "base_inv d2"
    using d2(2) by (simp_all add: stopped_def narrow_def)
  moreover from this have "nd_hosts d2 = []" by (simp add: base_inv_def idle_ok_def)
  ultimately show ?thesis using g d2(1) by auto
qed

theorem disjoint_answers_end_sync_witness:
  "\<exists>d d1 d2. gotPacket (sample_env 504922000) 8589934592 8589934592 (0, 0) d = Some (True, d1) \<and> st_lastSyncStart d \<noteq> 0 \<and>
     stopSyncingInThisThread (sample_env 504922000) (d1\<lparr>nd_reading := False, nd_stopReading := False\<rparr>) = Some d2 \<and>
     st_lastSyncStart d2 = 0"
proof -
  obtain d where d: "ntp_reachable {} sample_ntp d" "st_lastSyncStart d = 504921500" "\<not> st_inPollingMode d"
    using sample_syncing[of 0 "{}"] by auto
  let ?d = "d\<lparr>nd_reading := True, nd_minMaxOffset := 0\<rparr>"
  have "full_inv {} d" using reachable_full[OF d(1) sample_begins[of 0]] by simp
  then have "full_inv {} ?d"
    using inner_inv_cong[of ?d d]
    by (simp add: full_inv_def base_inv_def fail_ok_def idle_ok_def polling_ok_def bounds_ok_def es_ok_def)
  then show ?thesis
    using disjoint_answers_end_sync[of ?d "sample_env 504922000" 8589934592 8589934592 "(0, 0)"] d by force
qed

theorem good_packet_synchronises_witness:
  "\<exists>d d' dr. gotPacket (sample_env 504922000) (49 / 10) (51 / 10) (0, 0) d = Some (True, d') \<and>
     the_driver (nd_index d') (nd_es d') = Some dr \<and> drv_contSkew dr = 5 \<and> drv_status dr = StatusSynchronized"
proof -
  obtain d where d: "ntp_reachable {} sample_ntp d" "st_lastSyncStart d = 504921500" "\<not> st_inPollingMode d"
    using sample_syncing[of 0 "{}"] by auto
  let ?d = "d\<lparr>nd_reading := True, nd_maxMinOffset := 0, nd_minMaxOffset := 10\<rparr>"
  have i: "full_inv {} d" using reachable_full[OF d(1) sample_begins[of 0]] by simp
  then have f: "full_inv {} ?d"
    using inner_inv_cong[of ?d d]
    by (simp add: full_inv_def base_inv_def fail_ok_def idle_ok_def polling_ok_def bounds_ok_def es_ok_def)
  obtain dr where "the_driver (nd_index ?d) (nd_es ?d) = Some dr" using full_own[OF i] by auto
  then show ?thesis
    using good_packet_synchronises[OF f, of "sample_env 504922000" dr "49 / 10" "51 / 10" "49 / 10" "51 / 10" "(0, 0)"] d by force
qed

end
