(* ===== verification/EsTimeText.thy ===== *)
theory EsTimeText
  imports EsTimeLaws EsLocalTime
begin

text \<open>
  The rest of src/ESTime.cpp: times and the status of the service as text, and the time of a
  notification next to a change of daylight saving time. The local time zone and the abbreviation of
  a zone are arguments.
\<close>

section \<open>Times as text\<close>

text \<open>A full unit of the first number is carried to the second.\<close>

definition carry :: "int \<Rightarrow> int \<times> int \<Rightarrow> int \<times> int" where
  "carry unit p = (case p of (low, high) \<Rightarrow> if low \<ge> unit then (low - unit, high + 1) else (low, high))"

definition clock_text :: "ESDateComponents \<Rightarrow> int \<Rightarrow> string" where
  "clock_text cs secondsI = fmt_d (dc_era cs) @ '' '' @ fmt_0d 4 (dc_year cs) @ ''/'' @ fmt_0d 2 (dc_month cs) @ ''/'' @
     fmt_0d 2 (dc_day cs) @ '' '' @ fmt_0d 2 (dc_hour cs) @ '':'' @ fmt_0d 2 (dc_minute cs) @ '':'' @ fmt_0d 2 secondsI"

text \<open>Frames, hundredths, seconds, minutes and hours of a time with frames.\<close>

definition frame_digits :: "int \<Rightarrow> ESDateComponents \<Rightarrow> ESDateComponents \<times> int \<times> int \<times> int" where
  "frame_digits framesPerSecond cs =
     (let fractionalSeconds = dc_seconds cs - real_of_int \<lfloor>dc_seconds cs\<rfloor>;
          frames = fractionalSeconds * real_of_int framesPerSecond;
          (hundredths, framesI) = carry 100 (c_round ((frames - real_of_int \<lfloor>frames\<rfloor>) * 100), \<lfloor>frames\<rfloor>);
          (framesI, secondsI) = carry framesPerSecond (framesI, \<lfloor>dc_seconds cs\<rfloor>);
          (secondsI, minute) = carry 60 (secondsI, dc_minute cs);
          (minute, hour) = carry 60 (minute, dc_hour cs)
      in (cs\<lparr>dc_minute := minute, dc_hour := hour\<rparr>, secondsI, framesI, hundredths))"

text \<open>Ten-thousandths, seconds, minutes, hours and days of a time without frames.\<close>

definition plain_digits :: "ESDateComponents \<Rightarrow> ESDateComponents \<times> int \<times> int" where
  "plain_digits cs =
     (let fractionalSeconds = dc_seconds cs - real_of_int \<lfloor>dc_seconds cs\<rfloor>;
          (tenthousandths, secondsI) = carry 10000 (c_round (fractionalSeconds * 10000), \<lfloor>dc_seconds cs\<rfloor>);
          (secondsI, minute) = carry 60 (secondsI, dc_minute cs);
          (minute, hour) = carry 60 (minute, dc_hour cs);
          (hour, day) = carry 24 (hour, dc_day cs)
      in (cs\<lparr>dc_minute := minute, dc_hour := hour, dc_day := day\<rparr>, secondsI, tenthousandths))"

definition timeAsString ::
  "ESTimeInterval \<Rightarrow> estime \<Rightarrow> ESTimeZoneImplementation \<Rightarrow> (ESTimeZoneImplementation \<Rightarrow> string) \<Rightarrow>
     ESTimeInterval \<Rightarrow> int \<Rightarrow> ESTimeZoneImplementation option \<Rightarrow> string option \<Rightarrow> string option" where
  "timeAsString now s local abbrevName dt framesPerSecond estz tzAbb = do {
     dt \<leftarrow> (if dt = - 1 then currentTime now s else Some dt);
     let (z, tzAbb) = (case estz of None \<Rightarrow> (local, Some ''LT'') | Some z \<Rightarrow> (z, tzAbb));
     let tzAbbrev = (case tzAbb of Some a \<Rightarrow> a | None \<Rightarrow> abbrevName z);
     let cs = localComponentsFromTimeInterval dt z;
     if framesPerSecond \<noteq> 0
     then let w = length (fmt_d (framesPerSecond - 1));
              (cs', secondsI, framesI, hundredths) = frame_digits framesPerSecond cs
          in Some (clock_text cs' secondsI @ ''*'' @ fmt_0d w framesI @ ''.'' @ fmt_0d 2 hundredths @ '' ('' @
               fmt_f 5 (dc_seconds cs - real_of_int \<lfloor>dc_seconds cs\<rfloor>) @ '') '' @ tzAbbrev)
     else let (cs', secondsI, tenthousandths) = plain_digits cs
          in Some (clock_text cs' secondsI @ ''.'' @ fmt_0d 4 tenthousandths @ '' '' @ tzAbbrev)
   }"

definition hms_text :: "ESDateComponents \<Rightarrow> int \<Rightarrow> string" where
  "hms_text cs secondsI = fmt_0d 2 (dc_hour cs) @ '':'' @ fmt_0d 2 (dc_minute cs) @ '':'' @ fmt_0d 2 secondsI"

text \<open>What it prints; the fraction is that of the time, not of the local second.\<close>

definition printHMSWithTimeZoneAbbrev ::
  "ESTimeInterval \<Rightarrow> ESTimeZoneImplementation \<Rightarrow> string \<Rightarrow> int \<Rightarrow> string" where
  "printHMSWithTimeZoneAbbrev dt estz tzAbbrev framesPerSecond =
     (let cs = localComponentsFromTimeInterval dt estz;
          fractionalSeconds = dt - real_of_int \<lfloor>dt\<rfloor>
      in if framesPerSecond \<noteq> 0
         then let w = length (fmt_d (framesPerSecond - 1));
                  frames = fractionalSeconds * real_of_int framesPerSecond;
                  (hundredths, framesI) = carry 100 (c_round ((frames - real_of_int \<lfloor>frames\<rfloor>) * 100), \<lfloor>frames\<rfloor>);
                  (framesI, secondsI) = carry framesPerSecond (framesI, \<lfloor>dc_seconds cs\<rfloor>);
                  (secondsI, minute) = carry 60 (secondsI, dc_minute cs);
                  (minute, hour) = carry 60 (minute, dc_hour cs)
              in hms_text (cs\<lparr>dc_minute := minute, dc_hour := hour\<rparr>) secondsI @ ''*'' @ fmt_0d w framesI @ ''.'' @
                 fmt_0d 2 hundredths @ '' '' @ tzAbbrev
         else hms_text cs \<lfloor>dc_seconds cs\<rfloor> @ ''.'' @ fmt_0d 6 (c_round (fractionalSeconds * 1000000)) @ '' '' @ tzAbbrev)"

section \<open>The status as text\<close>

fun engr_string :: "ESTimeSourceStatus \<Rightarrow> string" where
  "engr_string StatusOff = ''Off''"
| "engr_string StatusUnsynchronized = ''Unsynchronized''"
| "engr_string StatusPollingUnsynchronized = ''Polling, Unsynchronized''"
| "engr_string StatusFailedUnynchronized = ''Failed, UnSynchronized''"
| "engr_string StatusSynchronized = ''Synchronized''"
| "engr_string StatusPollingSynchronized = ''Polling, Synchronized''"
| "engr_string StatusFailedSynchronized = ''Failed, Synchronized''"
| "engr_string StatusPollingRefining = ''Polling, Refining''"
| "engr_string StatusRefining = ''Refining''"
| "engr_string StatusFailedRefining = ''Failed, Refining''"
| "engr_string StatusNoNetSynchronized = ''No Network, Synchronized''"
| "engr_string StatusNoNetUnsynchronized = ''No Network, Unsynchronized''"
| "engr_string StatusNoNetRefining = ''No Network, Refining''"

definition currentStatusEngrString :: "estime \<Rightarrow> string option" where
  "currentStatusEngrString s = map_option engr_string (currentStatus s)"

definition currentTimeSourceName :: "estime \<Rightarrow> string" where
  "currentTimeSourceName s = (case best_driver s of Some d \<Rightarrow> driver_userName (drv_kind d) | None \<Rightarrow> ''<no time source>'')"

definition active_status :: "ESTimeSourceStatus \<Rightarrow> bool" where
  "active_status st \<longleftrightarrow> st \<notin> {StatusUnsynchronized, StatusSynchronized, StatusFailedUnynchronized, StatusFailedSynchronized,
     StatusNoNetSynchronized, StatusNoNetUnsynchronized, StatusOff}"

definition syncActive :: "estime \<Rightarrow> bool option" where
  "syncActive s = map_option active_status (currentStatus s)"

section \<open>A notification next to a change of daylight saving time\<close>

definition notificationTimeForDST ::
  "ESTimeInterval \<Rightarrow> estime \<Rightarrow> ESTimeZoneImplementation \<Rightarrow> ESTimeInterval \<Rightarrow> bool \<Rightarrow> ESTimeInterval option" where
  "notificationTimeForDST now s estz secondsSinceMidnight beforeNotAfter = do {
     t \<leftarrow> currentTime now s;
     let nextDSTChange = nextDSTChangeAfterTimeInterval estz t;
     let cs = localComponentsFromTimeInterval nextDSTChange estz;
     let cs = cs\<lparr>dc_hour := 0, dc_minute := 0, dc_seconds := 1\<rparr>;
     let midnightBeforeDST = timeIntervalFromLocalComponents estz cs - 1;
     let secondsFromMidnightToDST = nextDSTChange - midnightBeforeDST;
     ESAssert (secondsFromMidnightToDST \<ge> 0);
     if beforeNotAfter
     then if secondsFromMidnightToDST \<ge> secondsSinceMidnight then Some (midnightBeforeDST + secondsSinceMidnight)
          else Some (midnightBeforeDST - 24 * 3600 + secondsSinceMidnight)
     else if secondsFromMidnightToDST \<le> secondsSinceMidnight then Some (midnightBeforeDST + secondsSinceMidnight)
          else Some (addDaysToTimeInterval (midnightBeforeDST + secondsSinceMidnight) estz 1)
   }"

section \<open>Laws\<close>

lemma carry_value:
  "carry unit (low, high) = (low', high') \<Longrightarrow> high' * unit + low' = high * unit + low"
  by (auto simp: carry_def algebra_simps split: if_splits)

lemma carry_range:
  "carry unit (low, high) = (low', high') \<Longrightarrow> 0 \<le> low \<Longrightarrow> low \<le> unit \<Longrightarrow> 0 < unit \<Longrightarrow>
     0 \<le> low' \<and> low' < unit \<and> high \<le> high' \<and> high' \<le> high + 1"
  by (auto simp: carry_def split: if_splits)

text \<open>The digits of a clock are those of its time rounded to a ten-thousandth, with the day counted up at midnight.\<close>

lemma plain_digits_round:
  assumes "0 \<le> dc_hour cs" "dc_hour cs < 24" "0 \<le> dc_minute cs" "dc_minute cs < 60" "0 \<le> dc_seconds cs" "dc_seconds cs < 60"
    and "plain_digits cs = (cs', sec, tt)"
  shows "0 \<le> tt \<and> tt < 10000 \<and> 0 \<le> sec \<and> sec < 60 \<and> 0 \<le> dc_minute cs' \<and> dc_minute cs' < 60 \<and>
    0 \<le> dc_hour cs' \<and> dc_hour cs' < 24 \<and> dc_month cs' = dc_month cs \<and> dc_year cs' = dc_year cs"
    "(((dc_day cs' * 24 + dc_hour cs') * 60 + dc_minute cs') * 60 + sec) * 10000 + tt =
     ((dc_day cs * 24 + dc_hour cs) * 60 + dc_minute cs) * 600000 + c_round (dc_seconds cs * 10000)"
proof -
  define s0 where "s0 = \<lfloor>dc_seconds cs\<rfloor>"
  define r where "r = c_round ((dc_seconds cs - real_of_int s0) * 10000)"
  have f: "0 \<le> dc_seconds cs - real_of_int s0" "dc_seconds cs - real_of_int s0 < 1" "0 \<le> s0" "s0 < 60"
    using assms(5,6) unfolding s0_def by linarith+
  have r: "r = \<lfloor>(dc_seconds cs - real_of_int s0) * 10000 + 1 / 2\<rfloor>"
    using f(1) by (simp add: r_def c_round_def not_less)
  have rr: "0 \<le> r" "r \<le> 10000" using f unfolding r by (simp_all add: le_floor_iff floor_le_iff)
  have "dc_seconds cs * 10000 + 1 / 2 = (dc_seconds cs - real_of_int s0) * 10000 + 1 / 2 + real_of_int (s0 * 10000)"
    by (simp add: algebra_simps)
  then have c: "c_round (dc_seconds cs * 10000) = s0 * 10000 + r"
    using assms(5) by (simp only: r c_round_def floor_add_int[symmetric]) simp
  obtain tt1 s1 where 1: "carry 10000 (r, s0) = (tt1, s1)" by fastforce
  obtain s2 m1 where 2: "carry 60 (s1, dc_minute cs) = (s2, m1)" by fastforce
  obtain m2 h1 where 3: "carry 60 (m1, dc_hour cs) = (m2, h1)" by fastforce
  obtain h2 d1 where 4: "carry 24 (h1, dc_day cs) = (h2, d1)" by fastforce
  have e: "cs' = cs\<lparr>dc_minute := m2, dc_hour := h2, dc_day := d1\<rparr>" "sec = s2" "tt = tt1"
    using assms(7) unfolding plain_digits_def Let_def s0_def[symmetric] r_def[symmetric] 1 2 3 4 prod.case by auto
  have b1: "0 \<le> tt1 \<and> tt1 < 10000 \<and> s0 \<le> s1 \<and> s1 \<le> s0 + 1" using carry_range[OF 1] rr by simp
  have b2: "0 \<le> s2 \<and> s2 < 60 \<and> dc_minute cs \<le> m1 \<and> m1 \<le> dc_minute cs + 1" using carry_range[OF 2] b1 f(3,4) by simp
  have b3: "0 \<le> m2 \<and> m2 < 60 \<and> dc_hour cs \<le> h1 \<and> h1 \<le> dc_hour cs + 1" using carry_range[OF 3] b2 assms(3,4) by simp
  have b4: "0 \<le> h2 \<and> h2 < 24" using carry_range[OF 4] b3 assms(1,2) by simp
  show "0 \<le> tt \<and> tt < 10000 \<and> 0 \<le> sec \<and> sec < 60 \<and> 0 \<le> dc_minute cs' \<and> dc_minute cs' < 60 \<and>
      0 \<le> dc_hour cs' \<and> dc_hour cs' < 24 \<and> dc_month cs' = dc_month cs \<and> dc_year cs' = dc_year cs"
    using b1 b2 b3 b4 by (simp add: e)
  show "(((dc_day cs' * 24 + dc_hour cs') * 60 + dc_minute cs') * 60 + sec) * 10000 + tt =
      ((dc_day cs * 24 + dc_hour cs) * 60 + dc_minute cs) * 600000 + c_round (dc_seconds cs * 10000)"
    using carry_value[OF 1] carry_value[OF 2] carry_value[OF 3] carry_value[OF 4] unfolding e c by simp
qed

text \<open>The last moment of a month is printed as a day after its end.\<close>

lemma time_text_past_month:
  "plain_digits \<lparr>dc_era = 1, dc_year = 2023, dc_month = 4, dc_day = 30, dc_hour = 23, dc_minute = 59, dc_seconds = 5999999 / 100000\<rparr> =
     (\<lparr>dc_era = 1, dc_year = 2023, dc_month = 4, dc_day = 31, dc_hour = 0, dc_minute = 0, dc_seconds = 5999999 / 100000\<rparr>, 0, 0)"
proof -
  have "\<lfloor>5999999 / 100000 :: real\<rfloor> = 59" by (simp add: floor_eq_iff)
  moreover have "c_round (9999900000 / 1000000 :: real) = 10000" by (simp add: c_round_def floor_eq_iff)
  ultimately show ?thesis by (simp add: plain_digits_def carry_def)
qed

text \<open>The text with frames carries no hour into the day, and the other none of its fraction.\<close>

lemma frame_text_hour_24:
  "fst (frame_digits 10 \<lparr>dc_era = 1, dc_year = 2023, dc_month = 4, dc_day = 2, dc_hour = 23, dc_minute = 59, dc_seconds = 599996 / 10000\<rparr>) =
     \<lparr>dc_era = 1, dc_year = 2023, dc_month = 4, dc_day = 2, dc_hour = 24, dc_minute = 0, dc_seconds = 599996 / 10000\<rparr>"
proof -
  have "\<lfloor>599996 / 10000 :: real\<rfloor> = 59" by (simp add: floor_eq_iff)
  moreover have "\<lfloor>99960 / 10000 :: real\<rfloor> = 9" by (simp add: floor_eq_iff)
  moreover have "c_round (996 / 10 :: real) = 100" by (simp add: c_round_def floor_eq_iff)
  ultimately show ?thesis by (simp add: frame_digits_def carry_def)
qed

text \<open>The notification is on the side of the change that was asked for, within a day of its midnight.\<close>

lemma dst_notification_side:
  assumes "notificationTimeForDST now s estz secs before = Some t" "0 \<le> secs" "secs < 24 * 3600"
    and "currentTime now s = Some c" "change = nextDSTChangeAfterTimeInterval estz c"
    and "change - 24 * 3600 \<le> midnight"
    and "midnight = timeIntervalFromLocalComponents estz
      ((localComponentsFromTimeInterval change estz)\<lparr>dc_hour := 0, dc_minute := 0, dc_seconds := 1\<rparr>) - 1"
  shows "before \<Longrightarrow> t \<le> change \<and> change - 2 * (24 * 3600) \<le> t"
    "\<not> before \<Longrightarrow> t \<ge> change \<or> t = addDaysToTimeInterval (midnight + secs) estz 1"
proof -
  have m: "change - midnight \<ge> 0"
    using assms(1,4) by (auto simp: notificationTimeForDST_def assms(5,7) Let_def split: if_splits)
  have t: "t = (if before then if change - midnight \<ge> secs then midnight + secs else midnight - 24 * 3600 + secs
      else if change - midnight \<le> secs then midnight + secs else addDaysToTimeInterval (midnight + secs) estz 1)"
    using assms(1,4) by (auto simp: notificationTimeForDST_def assms(5,7) Let_def split: if_splits)
  show "before \<Longrightarrow> t \<le> change \<and> change - 2 * (24 * 3600) \<le> t"
    using assms(2,3,6) m by (simp add: t)
  show "\<not> before \<Longrightarrow> t \<ge> change \<or> t = addDaysToTimeInterval (midnight + secs) estz 1" by (simp add: t)
qed

end
