(* ===== verification/EsCalibrator.thy ===== *)
theory EsCalibrator
  imports EsTimeBase EsMachine CNumbers
begin

text \<open>
  The calibrator of src/ESTimeCalibrator.cpp: the data points it keeps, the file they are written
  to and read from, and the input of the regressions. The regressions (\<open>ESLinearRegression\<close>) are an
  argument; a matrix is the list of its rows. The file is its contents, if it exists, and a write
  can fail. A store outside an array is \<^const>\<open>None\<close>.
\<close>

record CalibrationDataPoint =
  timestampForDebugging :: ESTimeInterval
  cp_contSkew :: ESTimeInterval
  cp_skewError :: ESTimeInterval
  cp_boottimeSeconds :: ESTimeInterval
  cp_monotonicSeconds :: ESTimeInterval
  cp_monotonicRawSeconds :: ESTimeInterval
  reboot :: bool

record calibrator =
  calibrationData :: "CalibrationDataPoint list"
  nextDataPointIsReboot :: bool
  initialized :: bool
  cal_file :: "string option"

section \<open>Reading the file\<close>

text \<open>Up to \<open>n\<close> numbers: their values, and the rest if all were found.\<close>

fun scan_numbers :: "nat \<Rightarrow> string \<Rightarrow> real list \<times> string option" where
  "scan_numbers 0 s = ([], Some s)"
| "scan_numbers (Suc n) s = (case scan_lf (skip_white s) of
     None \<Rightarrow> ([], None)
   | Some (x, r) \<Rightarrow> let (xs, rest) = scan_numbers n r in (x # xs, rest))"

text \<open>
  \<open>sscanf\<close> with \<open>n\<close> times \<open>%lf\<close> and then \<open>%c\n%n\<close>: the number of conversions or \<open>EOF\<close>, the values,
  the character, and the text after the characters \<open>%n\<close> counts.
\<close>

definition scan_line :: "nat \<Rightarrow> string \<Rightarrow> int \<times> real list \<times> char \<times> string" where
  "scan_line n s =
     (if skip_white s = [] then (- 1, [], CHR 0x00, s)
      else case scan_numbers n s of
        (xs, None) \<Rightarrow> (int (length xs), xs, CHR 0x00, s)
      | (xs, Some rest) \<Rightarrow> (case skip_white rest of
          [] \<Rightarrow> (int (length xs), xs, CHR 0x00, s)
        | c # rest' \<Rightarrow> (int (length xs) + 1, xs, c, skip_white rest')))"

lemma scan_numbers_length: "scan_numbers n s = (xs, Some rest) \<Longrightarrow> length rest \<le> length s \<and> length xs = n"
proof (induction n arbitrary: s xs)
  case (Suc n)
  then obtain x r xs' where r: "scan_lf (skip_white s) = Some (x, r)" "scan_numbers n r = (xs', Some rest)" "xs = x # xs'"
    by (auto split: option.splits prod.splits)
  then show ?case
    using Suc.IH[OF r(2)] scan_lf_length[OF r(1)] skip_white_length[of s] by simp
qed simp

lemma scan_numbers_few: "scan_numbers n s = (xs, None) \<Longrightarrow> length xs < n"
  by (induction n arbitrary: s xs) (auto split: option.splits prod.splits)

lemma scan_line_length:
  assumes "scan_line n s = (int n + 1, xs, c, rest)"
  shows "length rest < length s \<and> length xs = n"
proof (cases "skip_white s = []")
  case False
  obtain ys o' where 1: "scan_numbers n s = (ys, o')" by fastforce
  with assms False obtain r where r: "o' = Some r"
    by (cases o') (auto simp: scan_line_def dest: scan_numbers_few)
  note n = scan_numbers_length[OF 1[unfolded r]]
  from assms False 1 r n obtain t where t: "skip_white r = c # t" "rest = skip_white t" "xs = ys"
    by (cases "skip_white r") (auto simp: scan_line_def)
  then show ?thesis using n skip_white_length[of r] skip_white_length[of t] by simp
qed (use assms in \<open>simp add: scan_line_def\<close>)

definition data_point :: "real list \<Rightarrow> real \<Rightarrow> char \<Rightarrow> CalibrationDataPoint" where
  "data_point xs raw c = \<lparr>timestampForDebugging = xs ! 0, cp_contSkew = xs ! 1, cp_skewError = xs ! 2,
     cp_boottimeSeconds = xs ! 3, cp_monotonicSeconds = xs ! 4, cp_monotonicRawSeconds = raw, reboot = (c = CHR ''T'')\<rparr>"

text \<open>
  The points from a position of the file on: first a line with six numbers, then one with five.
  A line is taken when the scan that was made last gave six.
\<close>

function read_points :: "string \<Rightarrow> CalibrationDataPoint list" where
  "read_points s =
     (let first = scan_line 6 s;
          (st, xs, c, rest) = (if fst first \<noteq> 7 then scan_line 5 s else first)
      in if st = 6 then data_point xs (if fst first \<noteq> 7 then xs ! 4 else xs ! 5) c # read_points rest else [])"
  by auto
termination
proof (relation "measure length", goal_cases)
  case (2 s first x st y xs z c rest)
  then have "scan_line 5 s = (6, xs, c, rest)" by (cases "scan_line 6 s") (auto split: if_splits)
  then show ?case using scan_line_length[of 5 s xs c rest] by simp
qed simp

declare read_points.simps [simp del]

definition readCalibrationDataPoints :: "calibrator \<Rightarrow> calibrator" where
  "readCalibrationDataPoints k = (case cal_file k of None \<Rightarrow> k
     | Some s \<Rightarrow> k\<lparr>calibrationData := calibrationData k @ read_points s\<rparr>)"

section \<open>Writing a data point\<close>

definition calibration_line :: "CalibrationDataPoint \<Rightarrow> string" where
  "calibration_line p =
     fmt_f 4 (timestampForDebugging p) @ '' '' @ fmt_f 4 (cp_contSkew p) @ '' '' @ fmt_f 4 (cp_skewError p) @ '' '' @
     fmt_f 4 (cp_boottimeSeconds p) @ '' '' @ fmt_f 4 (cp_monotonicSeconds p) @ '' '' @ fmt_f 4 (cp_monotonicRawSeconds p) @ '' '' @
     (if reboot p then ''T'' else ''F'') @ ''\<newline>''"

text \<open>What the operating system does: the file cannot be opened, or that many bytes are written and it is closed.\<close>

datatype write_outcome = OpenFails | Writes (written: nat) (closes: bool)

definition appendCalibrationDataPoint :: "write_outcome \<Rightarrow> CalibrationDataPoint \<Rightarrow> calibrator \<Rightarrow> bool \<times> calibrator" where
  "appendCalibrationDataPoint out p k =
     (let k = k\<lparr>calibrationData := calibrationData k @ [p]\<rparr>;
          s = calibration_line p
      in case out of OpenFails \<Rightarrow> (False, k)
         | Writes n ok \<Rightarrow>
             let k = k\<lparr>cal_file := Some ((case cal_file k of None \<Rightarrow> [] | Some f \<Rightarrow> f) @ take n s)\<rparr>
             in if n \<noteq> length s then (False, k) else (ok, k))"

section \<open>The regressions\<close>

text \<open>An interval counts if it does not begin before a restart and its end has an error.\<close>

definition counts :: "CalibrationDataPoint \<Rightarrow> bool" where
  "counts p \<longleftrightarrow> \<not> reboot p \<and> cp_skewError p \<noteq> 0"

fun count_intervals :: "bool \<Rightarrow> CalibrationDataPoint list \<Rightarrow> nat" where
  "count_intervals firstEntry [] = 0"
| "count_intervals firstEntry (p # ps) =
     (if firstEntry then count_intervals False ps
      else if counts p then Suc (count_intervals False ps) else count_intervals False ps)"

definition array_set :: "'a list \<Rightarrow> nat \<Rightarrow> 'a \<Rightarrow> 'a list option" where
  "array_set a i v = (if i < length a then Some (a[i := v]) else None)"

definition matrix_set :: "real list list \<Rightarrow> nat \<Rightarrow> nat \<Rightarrow> real \<Rightarrow> real list list option" where
  "matrix_set m r i v = (if r < length m then map_option (\<lambda>row. m[r := row]) (array_set (m ! r) i v) else None)"

record samples1 =
  s1_results :: "real list"
  s1_weights :: "real list"
  s1_identity :: "real list"
  s1_x :: "real list list"

record samples2 =
  s2_weights :: "real list"
  s2_x :: "real list list"

text \<open>The loops that fill the arrays; the previous point is \<^const>\<open>None\<close> at the first entry.\<close>

fun fill_1variable :: "CalibrationDataPoint option \<Rightarrow> CalibrationDataPoint list \<Rightarrow> nat \<Rightarrow> samples1 \<Rightarrow> samples1 option" where
  "fill_1variable prev [] n a = Some a"
| "fill_1variable None (p # ps) n a = fill_1variable (Some p) ps n a"
| "fill_1variable (Some q) (p # ps) n a =
     (if counts p then do {
        res \<leftarrow> array_set (s1_results a) n (cp_contSkew p - cp_contSkew q);
        let timeSinceLastInterval = cp_boottimeSeconds p - cp_boottimeSeconds q;
        w \<leftarrow> array_set (s1_weights a) n (timeSinceLastInterval / cp_skewError p);
        i \<leftarrow> array_set (s1_identity a) n 1;
        x \<leftarrow> matrix_set (s1_x a) 0 n timeSinceLastInterval;
        fill_1variable (Some p) ps (Suc n) \<lparr>s1_results = res, s1_weights = w, s1_identity = i, s1_x = x\<rparr>
      } else fill_1variable (Some p) ps n a)"

fun fill_2variable :: "CalibrationDataPoint option \<Rightarrow> CalibrationDataPoint list \<Rightarrow> nat \<Rightarrow> samples2 \<Rightarrow> samples2 option" where
  "fill_2variable prev [] n a = Some a"
| "fill_2variable None (p # ps) n a = fill_2variable (Some p) ps n a"
| "fill_2variable (Some q) (p # ps) n a =
     (if counts p then do {
        let timeSinceLastInterval = cp_boottimeSeconds p - cp_boottimeSeconds q;
        let timeNotSuspended = cp_monotonicSeconds p - cp_monotonicSeconds q;
        let timeSuspended = timeSinceLastInterval - timeNotSuspended;
        w \<leftarrow> array_set (s2_weights a) n (min timeSuspended timeNotSuspended / (cp_skewError p + cp_skewError q));
        x \<leftarrow> matrix_set (s2_x a) 0 n timeNotSuspended;
        x \<leftarrow> matrix_set x 1 n timeSuspended;
        fill_2variable (Some p) ps (Suc n) \<lparr>s2_weights = w, s2_x = x\<rparr>
      } else fill_2variable (Some p) ps n a)"

text \<open>What a regression found: whether it is valid, the coefficients, and the deviation.\<close>

record regression =
  valid :: bool
  coefficients :: "real list"
  SDV :: real

text \<open>The lines it logs; the flag tells the regression with equal weights.\<close>

datatype report =
    Drift1 bool nat real real
  | Invalid1 bool
  | Drift2 bool real real real
  | NotPossible2 bool nat
  | Invalid2 bool

definition report_1variable :: "bool \<Rightarrow> nat \<Rightarrow> regression \<Rightarrow> report" where
  "report_1variable idw n r =
     (if valid r then Drift1 idw n (coefficients r ! 0 * 24 * 3600) (SDV r) else Invalid1 idw)"

definition report_2variable :: "bool \<Rightarrow> nat \<Rightarrow> regression \<Rightarrow> report" where
  "report_2variable idw n r =
     (if valid r then Drift2 idw (coefficients r ! 0 * 24 * 3600) (SDV r) (coefficients r ! 1 * 24 * 3600)
      else if n < 2 then NotPossible2 idw n else Invalid2 idw)"

text \<open>New arrays have no values yet, so every theorem is for any \<open>junk\<close> in them.\<close>

definition recalibrate ::
  "(real list \<Rightarrow> real list list \<Rightarrow> real list \<Rightarrow> regression) \<Rightarrow> real \<Rightarrow> CalibrationDataPoint list \<Rightarrow> report list option" where
  "recalibrate regress junk points =
     (let numIntervals = count_intervals True points;
          fresh = replicate numIntervals junk
      in if numIntervals = 0 then Some []
      else do {
        one \<leftarrow> fill_1variable None points 0 \<lparr>s1_results = fresh, s1_weights = fresh, s1_identity = fresh, s1_x = [fresh]\<rparr>;
        let r1 = regress (s1_results one) (s1_x one) (s1_weights one);
        let r1i = regress (s1_results one) (s1_x one) (s1_identity one);
        two \<leftarrow> fill_2variable None points 0 \<lparr>s2_weights = fresh, s2_x = [fresh, fresh]\<rparr>;
        let r2 = regress (s1_results one) (s2_x two) (s2_weights two);
        let r2i = regress (s1_results one) (s2_x two) (s1_identity one);
        Some [report_1variable False numIntervals r1, report_2variable False numIntervals r2,
              report_1variable True numIntervals r1i, report_2variable True numIntervals r2i]
      })"

section \<open>The calibrator\<close>

definition init_calibrator :: "bool \<Rightarrow> string option \<Rightarrow> calibrator" where
  "init_calibrator rebootDetected file =
     (let k = readCalibrationDataPoints
                \<lparr>calibrationData = [], nextDataPointIsReboot = True, initialized = False, cal_file = file\<rparr>
      in k\<lparr>nextDataPointIsReboot := rebootDetected \<or> calibrationData k = [], initialized := True\<rparr>)"

text \<open>The point of a synchronisation, from one reading of the clocks.\<close>

definition skew_point :: "times \<Rightarrow> ESTimeInterval \<Rightarrow> ESTimeInterval \<Rightarrow> bool \<Rightarrow> CalibrationDataPoint" where
  "skew_point t contSkew skewError rebooted =
     \<lparr>timestampForDebugging = realtimeTime t, cp_contSkew = contSkew, cp_skewError = skewError,
      cp_boottimeSeconds = boottimeSeconds t, cp_monotonicSeconds = monotonicSeconds t,
      cp_monotonicRawSeconds = monotonicRawSeconds t, reboot = rebooted\<rparr>"

definition notifySuccessfulSkew ::
  "(real list \<Rightarrow> real list list \<Rightarrow> real list \<Rightarrow> regression) \<Rightarrow> real \<Rightarrow> times \<Rightarrow> write_outcome \<Rightarrow>
     ESTimeInterval \<Rightarrow> ESTimeInterval \<Rightarrow> calibrator \<Rightarrow> (report list \<times> calibrator) option" where
  "notifySuccessfulSkew regress junk t out contSkew skewError k = do {
     ESAssert (initialized k);
     let (ok, k) = appendCalibrationDataPoint out (skew_point t contSkew skewError (nextDataPointIsReboot k)) k;
     let k = (if ok then k\<lparr>nextDataPointIsReboot := False\<rparr> else k);
     reports \<leftarrow> recalibrate regress junk (calibrationData k);
     Some (reports, k)
   }"

section \<open>Runs: starts of the program and successful synchronisations\<close>

datatype cal_event = Start bool | Skew times write_outcome ESTimeInterval ESTimeInterval

fun cal_step ::
  "(real list \<Rightarrow> real list list \<Rightarrow> real list \<Rightarrow> regression) \<Rightarrow> real \<Rightarrow> cal_event \<Rightarrow> calibrator \<Rightarrow> calibrator option" where
  "cal_step regress junk (Start rebooted) k = Some (init_calibrator rebooted (cal_file k))"
| "cal_step regress junk (Skew t out contSkew skewError) k =
     map_option snd (notifySuccessfulSkew regress junk t out contSkew skewError k)"

text \<open>The write of the event happens as a whole or not at all.\<close>

fun whole_write :: "cal_event \<Rightarrow> bool" where
  "whole_write (Skew t (Writes n ok) contSkew skewError) \<longleftrightarrow>
     n = length (calibration_line (skew_point t contSkew skewError True))"
| "whole_write _ \<longleftrightarrow> True"

section \<open>What is read of what was written\<close>

text \<open>Numbers and blanks as they are printed, read up to the next field.\<close>

definition field_text :: "real list \<Rightarrow> string" where
  "field_text xs = concat (map (\<lambda>x. fmt_f 4 x @ '' '') xs)"

definition round4 :: "real \<Rightarrow> real" where
  "round4 x = real_of_int (rint (x * 10 ^ 4)) / 10 ^ 4"

lemma field_text_simps [simp]: "field_text [] = []" "field_text (x # xs) = fmt_f 4 x @ '' '' @ field_text xs"
  by (simp_all add: field_text_def)

lemma skip_white_fmt_f [simp]: "skip_white (fmt_f k x @ r) = fmt_f k x @ r"
  using fmt_f_first[of k x] by auto

lemma scan_lf_field: "scan_lf (fmt_f 4 x @ CHR '' '' # r) = Some (round4 x, CHR '' '' # r)"
  by (simp add: scan_lf_fmt_f round4_def c_isdigit_def)

lemma c_isspace_blank [simp]: "c_isspace (CHR '' '')"
  by (simp add: c_isspace_def)

lemma scan_fields:
  "skip_white s = skip_white (field_text xs @ r) \<Longrightarrow>
     \<exists>rest. scan_numbers (length xs) s = (map round4 xs, Some rest) \<and> skip_white rest = skip_white r"
proof (induction xs arbitrary: s)
  case (Cons x xs)
  have "skip_white s = fmt_f 4 x @ CHR '' '' # field_text xs @ r" using Cons.prems by simp
  moreover obtain rest where "scan_numbers (length xs) (CHR '' '' # field_text xs @ r) = (map round4 xs, Some rest)"
      "skip_white rest = skip_white r"
    using Cons.IH[of "CHR '' '' # field_text xs @ r"] by auto
  ultimately show ?case by (simp add: scan_lf_field)
qed simp

lemma scan_fields_short:
  "skip_white s = skip_white (field_text xs @ r) \<Longrightarrow> scan_lf (skip_white r) = None \<Longrightarrow>
     scan_numbers (Suc (length xs)) s = (map round4 xs, None)"
proof (induction xs arbitrary: s)
  case (Cons x xs)
  have "skip_white s = fmt_f 4 x @ CHR '' '' # field_text xs @ r" using Cons.prems(1) by simp
  moreover have "scan_numbers (Suc (length xs)) (CHR '' '' # field_text xs @ r) = (map round4 xs, None)"
    using Cons.IH[of "CHR '' '' # field_text xs @ r"] Cons.prems(2) by simp
  ultimately show ?case by (simp add: scan_lf_field del: scan_numbers.simps(2)) (simp add: scan_lf_field)
qed simp

lemma scan_line_fields:
  assumes "length xs = Suc n" "\<not> c_isspace c"
  shows "scan_line (Suc n) (field_text xs @ c # r) = (int (Suc n) + 1, map round4 xs, c, skip_white r)"
proof -
  obtain rest where "scan_numbers (Suc n) (field_text xs @ c # r) = (map round4 xs, Some rest)" "skip_white rest = c # r"
    using scan_fields[of "field_text xs @ c # r" xs "c # r"] assms by auto
  moreover have "skip_white (field_text xs @ c # r) \<noteq> []"
    using assms(1) by (cases xs) simp_all
  ultimately show ?thesis using assms(1) by (simp add: scan_line_def del: scan_numbers.simps(2))
qed

lemma scan_line_too_few:
  assumes "length xs = n" "scan_lf (c # r) = None" "\<not> c_isspace c"
  shows "fst (scan_line (Suc n) (field_text xs @ c # r)) = int n"
proof -
  have "scan_numbers (Suc n) (field_text xs @ c # r) = (map round4 xs, None)"
    using scan_fields_short[of "field_text xs @ c # r" xs "c # r"] assms by simp
  moreover have "skip_white (field_text xs @ c # r) \<noteq> []"
    using assms(3) by (cases xs) simp_all
  ultimately show ?thesis using assms(1) by (simp add: scan_line_def del: scan_numbers.simps(2))
qed

definition flag :: "CalibrationDataPoint \<Rightarrow> char" where
  "flag p = (if reboot p then CHR ''T'' else CHR ''F'')"

definition times5 :: "CalibrationDataPoint \<Rightarrow> real list" where
  "times5 p = [timestampForDebugging p, cp_contSkew p, cp_skewError p, cp_boottimeSeconds p, cp_monotonicSeconds p]"

lemma fields_append: "field_text (xs @ ys) = field_text xs @ field_text ys"
  by (simp add: field_text_def)

lemma times5_length [simp]: "length (times5 p) = 5"
  by (simp add: times5_def)

lemma flag_not_number [simp]: "\<not> c_isspace (flag p)" "scan_lf (flag p # r) = None"
  by (auto simp: flag_def c_isspace_def scan_lf_def scan_sign_def scan_digits_def scan_fraction_def c_isdigit_def)

lemma flag_T [simp]: "flag p = CHR ''T'' \<longleftrightarrow> reboot p"
  by (simp add: flag_def)

lemma calibration_line_fields:
  "calibration_line p = field_text (times5 p @ [cp_monotonicRawSeconds p]) @ flag p # ''\<newline>''"
  by (simp add: calibration_line_def times5_def flag_def)

text \<open>A line that was written gives seven conversions, and the reading stops there.\<close>

lemma written_line_unreadable: "read_points (calibration_line p @ r) = []"
proof -
  define xs where "xs = times5 p @ [cp_monotonicRawSeconds p]"
  have "calibration_line p @ r = field_text xs @ flag p # CHR ''\<newline>'' # r" "length xs = Suc 5"
    by (simp_all add: calibration_line_fields xs_def)
  then have "fst (scan_line 6 (calibration_line p @ r)) = 7"
    using scan_line_fields[of xs 5 "flag p" "CHR ''\<newline>'' # r"] by simp
  then show ?thesis
    by (subst read_points.simps) (auto simp: Let_def split: prod.split)
qed

text \<open>Lines of the older format, without the raw monotonic time, are read back to four decimals.\<close>

definition old_line :: "CalibrationDataPoint \<Rightarrow> string" where
  "old_line p = field_text (times5 p) @ flag p # ''\<newline>''"

definition old_point :: "CalibrationDataPoint \<Rightarrow> CalibrationDataPoint" where
  "old_point p = data_point (map round4 (times5 p)) (round4 (cp_monotonicSeconds p)) (flag p)"

lemma skip_white_old_lines: "skip_white (concat (map old_line ps)) = concat (map old_line ps)"
  by (cases ps) (simp_all add: old_line_def times5_def)

lemma old_lines_read_back: "read_points (concat (map old_line ps)) = map old_point ps"
proof (induction ps)
  case Nil
  show ?case by (subst read_points.simps) (simp add: scan_line_def)
next
  case (Cons p ps)
  define s where "s = concat (map old_line (p # ps))"
  define r where "r = CHR ''\<newline>'' # concat (map old_line ps)"
  have s: "s = field_text (times5 p) @ flag p # r" by (simp add: s_def r_def old_line_def)
  have "skip_white r = concat (map old_line ps)" by (simp add: r_def skip_white_old_lines c_isspace_def)
  then have "scan_line 5 s = (6, map round4 (times5 p), flag p, concat (map old_line ps))"
    using scan_line_fields[of "times5 p" 4 "flag p" r] by (simp add: s)
  moreover have "fst (scan_line 6 s) = 5"
    using scan_line_too_few[of "times5 p" 5 "flag p" r] by (simp add: s)
  moreover have "map round4 (times5 p) ! 4 = round4 (cp_monotonicSeconds p)" by (simp add: times5_def)
  ultimately have "read_points s = old_point p # read_points (concat (map old_line ps))"
    by (subst read_points.simps) (simp add: old_point_def)
  then show ?case by (simp only: s_def Cons.IH list.map)
qed

section \<open>The calibrator never sees its own file\<close>

text \<open>The file is absent, or begins with a line that stops the reading.\<close>

definition cal_inv :: "calibrator \<Rightarrow> bool" where
  "cal_inv k \<longleftrightarrow> initialized k \<and> (\<forall>f. cal_file k = Some f \<longrightarrow> (\<exists>p r. f = calibration_line p @ r))"

lemma start_inv:
  assumes "\<forall>f. file = Some f \<longrightarrow> (\<exists>p r. f = calibration_line p @ r)"
  shows "cal_inv (init_calibrator rebooted file)" "calibrationData (init_calibrator rebooted file) = []"
    "nextDataPointIsReboot (init_calibrator rebooted file)"
  using assms
  by (auto simp: cal_inv_def init_calibrator_def readCalibrationDataPoints_def written_line_unreadable Let_def split: option.split)

section \<open>The arrays of the regressions\<close>

text \<open>The intervals that count, each as its two ends.\<close>

fun intervals :: "CalibrationDataPoint list \<Rightarrow> (CalibrationDataPoint \<times> CalibrationDataPoint) list" where
  "intervals (q # p # ps) = (if counts p then [(q, p)] else []) @ intervals (p # ps)"
| "intervals _ = []"

definition dskew :: "CalibrationDataPoint \<times> CalibrationDataPoint \<Rightarrow> real" where
  "dskew i = cp_contSkew (snd i) - cp_contSkew (fst i)"

definition dtime :: "CalibrationDataPoint \<times> CalibrationDataPoint \<Rightarrow> real" where
  "dtime i = cp_boottimeSeconds (snd i) - cp_boottimeSeconds (fst i)"

definition dawake :: "CalibrationDataPoint \<times> CalibrationDataPoint \<Rightarrow> real" where
  "dawake i = cp_monotonicSeconds (snd i) - cp_monotonicSeconds (fst i)"

definition dasleep :: "CalibrationDataPoint \<times> CalibrationDataPoint \<Rightarrow> real" where
  "dasleep i = dtime i - dawake i"

definition weight1 :: "CalibrationDataPoint \<times> CalibrationDataPoint \<Rightarrow> real" where
  "weight1 i = dtime i / cp_skewError (snd i)"

definition weight2 :: "CalibrationDataPoint \<times> CalibrationDataPoint \<Rightarrow> real" where
  "weight2 i = min (dasleep i) (dawake i) / (cp_skewError (snd i) + cp_skewError (fst i))"

lemma count_intervals_False: "count_intervals False ps = length (intervals (q # ps))"
  by (induction ps arbitrary: q) simp_all

lemma count_intervals_True: "count_intervals True ps = length (intervals ps)"
  by (cases ps) (simp_all add: count_intervals_False)

text \<open>An array whose first places are filled takes one more.\<close>

lemma array_set_fill: "array_set (map f done @ x # r) (length done) v = Some (map f done @ v # r)"
  using list_update_length[of "map f done" x r v] by (simp add: array_set_def)

definition filled1 where
  "filled1 is r1 r2 r3 r4 = \<lparr>s1_results = map dskew is @ r1, s1_weights = map weight1 is @ r2,
     s1_identity = map (\<lambda>_. 1) is @ r3, s1_x = [map dtime is @ r4]\<rparr>"

definition filled2 where
  "filled2 is r1 r2 r3 = \<lparr>s2_weights = map weight2 is @ r1, s2_x = [map dawake is @ r2, map dasleep is @ r3]\<rparr>"

lemma fill_1variable_correct:
  assumes "length (intervals (q # ps)) = k" "length r1 = k" "length r2 = k" "length r3 = k" "length r4 = k"
  shows "fill_1variable (Some q) ps (length is) (filled1 is r1 r2 r3 r4) = Some (filled1 (is @ intervals (q # ps)) [] [] [] [])"
  using assms
proof (induction ps arbitrary: q k "is" r1 r2 r3 r4)
  case (Cons p ps)
  show ?case
  proof (cases "counts p")
    case True
    then obtain k' where k: "k = Suc k'" "length (intervals (p # ps)) = k'" using Cons.prems(1) by simp
    obtain x1 r1' x2 r2' x3 r3' x4 r4' where r: "r1 = x1 # r1'" "r2 = x2 # r2'" "r3 = x3 # r3'" "r4 = x4 # r4'"
      using Cons.prems(2-5) k(1) by (metis length_Suc_conv)
    have e: "filled1 (is @ [(q, p)]) r1' r2' r3' r4' = \<lparr>s1_results = map dskew is @ (cp_contSkew p - cp_contSkew q) # r1',
        s1_weights = map weight1 is @ (cp_boottimeSeconds p - cp_boottimeSeconds q) / cp_skewError p # r2',
        s1_identity = map (\<lambda>_. 1) is @ 1 # r3', s1_x = [map dtime is @ (cp_boottimeSeconds p - cp_boottimeSeconds q) # r4']\<rparr>"
      by (simp add: filled1_def dskew_def weight1_def dtime_def)
    have "fill_1variable (Some q) (p # ps) (length is) (filled1 is r1 r2 r3 r4) =
        fill_1variable (Some p) ps (length (is @ [(q, p)])) (filled1 (is @ [(q, p)]) r1' r2' r3' r4')"
      using True by (simp add: e Let_def) (simp add: filled1_def r array_set_fill matrix_set_def Let_def)
    also have "\<dots> = Some (filled1 ((is @ [(q, p)]) @ intervals (p # ps)) [] [] [] [])"
      by (rule Cons.IH[OF k(2)]) (use Cons.prems(2-5) in \<open>simp_all add: r k(1)\<close>)
    finally show ?thesis using True by simp
  next
    case False
    then show ?thesis using Cons.IH[of p k] Cons.prems by simp
  qed
qed simp

lemma fill_2variable_correct:
  assumes "length (intervals (q # ps)) = k" "length r1 = k" "length r2 = k" "length r3 = k"
  shows "fill_2variable (Some q) ps (length is) (filled2 is r1 r2 r3) = Some (filled2 (is @ intervals (q # ps)) [] [] [])"
  using assms
proof (induction ps arbitrary: q k "is" r1 r2 r3)
  case (Cons p ps)
  show ?case
  proof (cases "counts p")
    case True
    then obtain k' where k: "k = Suc k'" "length (intervals (p # ps)) = k'" using Cons.prems(1) by simp
    obtain x1 r1' x2 r2' x3 r3' where r: "r1 = x1 # r1'" "r2 = x2 # r2'" "r3 = x3 # r3'"
      using Cons.prems(2-4) k(1) by (metis length_Suc_conv)
    have "fill_2variable (Some q) (p # ps) (length is) (filled2 is r1 r2 r3) =
        fill_2variable (Some p) ps (length (is @ [(q, p)])) (filled2 (is @ [(q, p)]) r1' r2' r3')"
      using True
      by (simp add: filled2_def r array_set_fill matrix_set_def Let_def weight2_def dawake_def dasleep_def dtime_def)
    also have "\<dots> = Some (filled2 ((is @ [(q, p)]) @ intervals (p # ps)) [] [] [])"
      by (rule Cons.IH[OF k(2)]) (use Cons.prems(2-4) in \<open>simp_all add: r k(1)\<close>)
    finally show ?thesis using True by simp
  next
    case False
    then show ?thesis using Cons.IH[of p k] Cons.prems by simp
  qed
qed simp

text \<open>The reports of the four regressions on the lists of the intervals that count.\<close>

definition reports_of ::
  "(real list \<Rightarrow> real list list \<Rightarrow> real list \<Rightarrow> regression) \<Rightarrow>
     (CalibrationDataPoint \<times> CalibrationDataPoint) list \<Rightarrow> report list" where
  "reports_of regress is = (if is = [] then [] else
     (let results = map dskew is; ones = map (\<lambda>_. 1) is; x1 = [map dtime is]; x2 = [map dawake is, map dasleep is]
      in [report_1variable False (length is) (regress results x1 (map weight1 is)),
          report_2variable False (length is) (regress results x2 (map weight2 is)),
          report_1variable True (length is) (regress results x1 ones),
          report_2variable True (length is) (regress results x2 ones)]))"

theorem recalibrate_fills_arrays: "recalibrate regress junk points = Some (reports_of regress (intervals points))"
proof (cases points)
  case (Cons p ps)
  define n where "n = length (intervals points)"
  let ?f = "replicate n junk"
  have "fill_1variable None points 0 (filled1 [] ?f ?f ?f ?f) = Some (filled1 (intervals points) [] [] [] [])"
    "fill_2variable None points 0 (filled2 [] ?f ?f ?f) = Some (filled2 (intervals points) [] [] [])"
    using fill_1variable_correct[of p ps n ?f ?f ?f ?f "[]"] fill_2variable_correct[of p ps n ?f ?f ?f "[]"]
    by (simp_all add: Cons n_def)
  then show ?thesis
    by (simp add: recalibrate_def count_intervals_True reports_of_def Let_def flip: n_def)
      (simp add: filled1_def filled2_def n_def)
qed (simp add: recalibrate_def reports_of_def)

section \<open>Runs of the calibrator\<close>

lemma calibration_line_length: "length (calibration_line (skew_point t c e r)) = length (calibration_line (skew_point t c e True))"
  by (simp add: calibration_line_def skew_point_def)

lemma append_inv:
  assumes "cal_inv k" "whole_write (Skew t out c e)" "appendCalibrationDataPoint out (skew_point t c e r) k = (ok, k')"
  shows "cal_inv k'"
proof (cases out)
  case OpenFails
  then show ?thesis using assms(1,3) by (auto simp: appendCalibrationDataPoint_def cal_inv_def)
next
  case (Writes n closed)
  let ?l = "calibration_line (skew_point t c e r)"
  have "n = length ?l" using assms(2) calibration_line_length[of t c e r] by (simp add: Writes)
  then have k': "initialized k'" "cal_file k' = Some ((case cal_file k of None \<Rightarrow> [] | Some f \<Rightarrow> f) @ ?l)"
    using assms(1,3) by (auto simp: appendCalibrationDataPoint_def Writes Let_def cal_inv_def)
  show ?thesis
  proof (cases "cal_file k")
    case None
    then show ?thesis using k' by (auto simp: cal_inv_def intro: exI[of _ "[]"])
  next
    case (Some f)
    then obtain p q where "f = calibration_line p @ q" using assms(1) by (auto simp: cal_inv_def)
    then have "cal_file k' = Some (calibration_line p @ (q @ ?l))" using k'(2) Some by simp
    then show ?thesis using k'(1) by (auto simp: cal_inv_def)
  qed
qed

lemma cal_step_inv:
  assumes "cal_inv k" "whole_write e"
  shows "\<exists>k'. cal_step regress junk e k = Some k' \<and> cal_inv k'"
proof (cases e)
  case (Start rebooted)
  have "cal_inv (init_calibrator rebooted (cal_file k))" by (rule start_inv(1)) (use assms(1) in \<open>simp add: cal_inv_def\<close>)
  then show ?thesis by (simp add: Start)
next
  case (Skew t out c d)
  obtain ok k1 where 1: "appendCalibrationDataPoint out (skew_point t c d (nextDataPointIsReboot k)) k = (ok, k1)" by fastforce
  have "cal_inv k1" by (rule append_inv[OF assms(1) _ 1]) (use assms(2) in \<open>simp only: Skew\<close>)
  then have "cal_inv (if ok then k1\<lparr>nextDataPointIsReboot := False\<rparr> else k1)" by (simp add: cal_inv_def)
  moreover have "initialized k" using assms(1) by (simp add: cal_inv_def)
  ultimately show ?thesis
    by (simp add: Skew notifySuccessfulSkew_def 1 recalibrate_fills_arrays Let_def)
qed

interpretation cal: machine "cal_step regress junk" "\<lambda>e k. whole_write e" cal_inv
  by unfold_locales (rule cal_step_inv)

text \<open>C34: However often the program is started and synchronises, as long as each line is written as a whole or not at all: no assertion fails, no array is overrun, and yet the next start reads none of the points back and takes itself for one after a restart, because a written line gives seven conversions and only six are accepted.\<close>

theorem calibration_never_read_back:
  assumes "\<forall>e\<in>set es. whole_write e"
  shows "\<exists>k. run (cal_step regress junk) es (init_calibrator r None) = Some k \<and>
    calibrationData (init_calibrator r' (cal_file k)) = [] \<and> nextDataPointIsReboot (init_calibrator r' (cal_file k))"
proof -
  obtain k where k: "run (cal_step regress junk) es (init_calibrator r None) = Some k" "cal_inv k"
    using cal.run_total[OF start_inv(1)[of None r], of es] assms by blast
  then show ?thesis using start_inv(2,3)[of "cal_file k"] by (auto simp: cal_inv_def)
qed

text \<open>Two launches with a synchronisation each: the second starts without the point of the first.\<close>

definition cal_clocks :: times where
  "cal_clocks = \<lparr>realtimeTime = 721000000, monotonicSeconds = 40, boottimeSeconds = 50, monotonicRawSeconds = 41\<rparr>"

definition cal_skew :: cal_event where
  "cal_skew = Skew cal_clocks
     (Writes (length (calibration_line (skew_point cal_clocks (1 / 4) (1 / 8) True))) True) (1 / 4) (1 / 8)"

lemma calibration_never_read_back_witness:
  "\<exists>k. run (cal_step (\<lambda>y x w. \<lparr>valid = False, coefficients = [], SDV = 0\<rparr>) 0) [cal_skew, Start False, cal_skew]
      (init_calibrator True None) = Some k \<and>
     calibrationData (init_calibrator False (cal_file k)) = [] \<and> nextDataPointIsReboot (init_calibrator False (cal_file k))"
  by (rule calibration_never_read_back) (simp add: cal_skew_def)

end
