(* ===== verification/NtpAuthKeys.thy ===== *)
theory NtpAuthKeys
  imports NtpPrelude CStrings EsMachine "HOL-Library.Monad_Syntax"
begin

text \<open>
  The store of authentication keys: ntpdist/libntp/authkeys.c, with the use of a key in a_md5encrypt.c. The \<open>savekey\<close> structures are in an explicit store of addresses; the hash table and the
  list of free structures are chains of \<open>next\<close> pointers in it. A pointer is an address or
  \<^const>\<open>None\<close>, which is NULL; a result of \<^const>\<open>None\<close> is an access through NULL or outside an
  object. The allocator and the message digests are arguments. The index of the hash table is
  always below 64, so the table is a function.
\<close>

record savekey =
  sk_next :: "nat option"
  sk_key :: "u8 list"
  sk_keyid :: u32
  sk_type :: int
  sk_flags :: u16
  sk_lifetime :: u64
  sk_keylen :: int

definition KEY_TRUSTED :: u16 where
  "KEY_TRUSTED = 0x001"

definition HASHSIZE :: nat where
  "HASHSIZE = 64"

definition KEYHASH :: "u32 \<Rightarrow> nat" where
  "KEYHASH keyid = unat (keyid AND 63)"

definition MEMINC :: nat where
  "MEMINC = 12"

definition NTP_MAXKEY :: u32 where
  "NTP_MAXKEY = 65535"

record auth_state =
  sk_heap :: "nat \<rightharpoonup> savekey"
  key_hash :: "nat \<Rightarrow> nat option"
  authkeynotfound :: u64
  authkeylookups :: u64
  authnumkeys :: u64
  authkeyexpired :: u64
  authkeyuncached :: u64
  authnokey :: u64
  authencryptions :: u64
  authdecryptions :: u64
  authfreekeys :: "nat option"
  authnumfreekeys :: int
  cache_keyid :: u32
  cache_key :: "nat option"
  cache_keylen :: u32
  cache_type :: int
  cache_flags :: u16

text \<open>The static variables before \<open>main\<close>.\<close>

definition auth_start :: auth_state where
  "auth_start = \<lparr>sk_heap = Map.empty, key_hash = (\<lambda>_. None), authkeynotfound = 0, authkeylookups = 0,
     authnumkeys = 0, authkeyexpired = 0, authkeyuncached = 0, authnokey = 0, authencryptions = 0,
     authdecryptions = 0, authfreekeys = None, authnumfreekeys = 0, cache_keyid = 0, cache_key = None,
     cache_keylen = 0, cache_type = 0, cache_flags = 0\<rparr>"

definition init_auth :: "auth_state \<Rightarrow> auth_state" where
  "init_auth s = s\<lparr>key_hash := (\<lambda>_. None)\<rparr>"

section \<open>Finding a key\<close>

text \<open>The loop down a chain; it ends at the key, at NULL or never.\<close>

partial_function (option) find_loop :: "(nat \<rightharpoonup> savekey) \<Rightarrow> u32 \<Rightarrow> nat option \<Rightarrow> nat option option" where
  [code]: "find_loop h keyno p =
     (case p of None \<Rightarrow> Some None
      | Some sk \<Rightarrow> do { k \<leftarrow> h sk; if keyno = sk_keyid k then Some (Some sk) else find_loop h keyno (sk_next k) })"

definition auth_findkey :: "u32 \<Rightarrow> auth_state \<Rightarrow> nat option option" where
  "auth_findkey keyno s = find_loop (sk_heap s) keyno (key_hash s (KEYHASH keyno))"

definition auth_havekey :: "u32 \<Rightarrow> auth_state \<Rightarrow> bool option" where
  "auth_havekey keyno s =
     (if keyno = 0 \<or> keyno = cache_keyid s then Some True
      else do { sk \<leftarrow> auth_findkey keyno s; Some (sk \<noteq> None) })"

definition authhavekey :: "u32 \<Rightarrow> auth_state \<Rightarrow> (bool \<times> auth_state) option" where
  "authhavekey keyno s =
     (let s = s\<lparr>authkeylookups := authkeylookups s + 1\<rparr>
      in if keyno = 0 \<or> keyno = cache_keyid s then Some (True, s)
         else let s = s\<lparr>authkeyuncached := authkeyuncached s + 1\<rparr>
              in do {
                p \<leftarrow> auth_findkey keyno s;
                case p of None \<Rightarrow> Some (False, s\<lparr>authkeynotfound := authkeynotfound s + 1\<rparr>)
                | Some sk \<Rightarrow> do {
                    k \<leftarrow> sk_heap s sk;
                    if sk_type k = 0 then Some (False, s\<lparr>authkeynotfound := authkeynotfound s + 1\<rparr>)
                    else if sk_flags k AND KEY_TRUSTED = 0 then Some (False, s\<lparr>authnokey := authnokey s + 1\<rparr>)
                    else Some (True, s\<lparr>cache_keyid := sk_keyid k, cache_type := sk_type k, cache_flags := sk_flags k,
                           cache_key := Some sk, cache_keylen := word_of_int (sk_keylen k)\<rparr>)
                  }
              })"

definition authistrusted :: "u32 \<Rightarrow> auth_state \<Rightarrow> (bool \<times> auth_state) option" where
  "authistrusted keyno s =
     (if keyno = cache_keyid s then Some (cache_flags s AND KEY_TRUSTED \<noteq> 0, s)
      else let s = s\<lparr>authkeyuncached := authkeyuncached s + 1\<rparr>
           in do {
             p \<leftarrow> auth_findkey keyno s;
             case p of None \<Rightarrow> Some (False, s\<lparr>authkeynotfound := authkeynotfound s + 1\<rparr>)
             | Some sk \<Rightarrow> do {
                 k \<leftarrow> sk_heap s sk;
                 if sk_flags k AND KEY_TRUSTED = 0 then Some (False, s\<lparr>authkeynotfound := authkeynotfound s + 1\<rparr>)
                 else Some (True, s)
               }
           })"

section \<open>Changing the store\<close>

definition update_key :: "nat \<Rightarrow> (savekey \<Rightarrow> savekey) \<Rightarrow> auth_state \<Rightarrow> auth_state option" where
  "update_key sk f s = do { k \<leftarrow> sk_heap s sk; Some (s\<lparr>sk_heap := (sk_heap s)(sk \<mapsto> f k)\<rparr>) }"

definition zero_key :: savekey where
  "zero_key = \<lparr>sk_next = None, sk_key = replicate 64 0, sk_keyid = 0, sk_type = 0, sk_flags = 0, sk_lifetime = 0, sk_keylen = 0\<rparr>"

text \<open>\<open>calloc\<close> answers with the address of twelve adjacent structures or with NULL.\<close>

type_synonym allocator = "(nat \<rightharpoonup> savekey) \<Rightarrow> nat option"

definition calloc_keys :: "nat \<Rightarrow> (nat \<rightharpoonup> savekey) \<Rightarrow> (nat \<rightharpoonup> savekey)" where
  "calloc_keys b h = (\<lambda>a. if b \<le> a \<and> a < b + MEMINC then Some zero_key else h a)"

fun moremem_loop :: "nat \<Rightarrow> nat \<Rightarrow> auth_state \<Rightarrow> auth_state option" where
  "moremem_loop 0 sk s = Some s"
| "moremem_loop (Suc i) sk s = do {
     s \<leftarrow> update_key sk (\<lambda>k. k\<lparr>sk_next := authfreekeys s\<rparr>) s;
     moremem_loop i (sk + 1) (s\<lparr>authfreekeys := Some sk\<rparr>) }"

definition auth_moremem :: "allocator \<Rightarrow> auth_state \<Rightarrow> (int \<times> auth_state) option" where
  "auth_moremem calloc s =
     (case calloc (sk_heap s) of None \<Rightarrow> Some (0, s)
      | Some sk \<Rightarrow> do {
          s \<leftarrow> moremem_loop MEMINC sk (s\<lparr>sk_heap := calloc_keys sk (sk_heap s)\<rparr>);
          let s = s\<lparr>authnumfreekeys := authnumfreekeys s + int MEMINC\<rparr>;
          Some (authnumfreekeys s, s) })"

text \<open>A structure from the free list, or none when memory has run out.\<close>

definition take_free :: "allocator \<Rightarrow> auth_state \<Rightarrow> (nat option \<times> auth_state) option" where
  "take_free calloc s = do {
     (n, s) \<leftarrow> (if authnumfreekeys s = 0 then auth_moremem calloc s else Some (1, s));
     if n = 0 then Some (None, s)
     else do {
       sk \<leftarrow> authfreekeys s;
       k \<leftarrow> sk_heap s sk;
       Some (Some sk, s\<lparr>authfreekeys := sk_next k, authnumfreekeys := authnumfreekeys s - 1\<rparr>)
     } }"

text \<open>\<open>sk->next = key_hash[...]; key_hash[...] = sk; authnumkeys++\<close>\<close>

definition put_key :: "nat \<Rightarrow> u32 \<Rightarrow> (savekey \<Rightarrow> savekey) \<Rightarrow> auth_state \<Rightarrow> auth_state option" where
  "put_key sk keyno f s = do {
     s \<leftarrow> update_key sk (\<lambda>k. (f k)\<lparr>sk_next := key_hash s (KEYHASH keyno)\<rparr>) s;
     Some (s\<lparr>key_hash := (key_hash s)(KEYHASH keyno := Some sk), authnumkeys := authnumkeys s + 1\<rparr>) }"

definition give_free :: "nat \<Rightarrow> auth_state \<Rightarrow> auth_state option" where
  "give_free sk s = do {
     s \<leftarrow> update_key sk (\<lambda>k. k\<lparr>sk_next := authfreekeys s\<rparr>) (s\<lparr>authnumkeys := authnumkeys s - 1\<rparr>);
     Some (s\<lparr>authfreekeys := Some sk, authnumfreekeys := authnumfreekeys s + 1\<rparr>) }"

text \<open>\<open>while (skp->next != sk) skp = skp->next;\<close>\<close>

partial_function (option) pred_loop :: "(nat \<rightharpoonup> savekey) \<Rightarrow> nat option \<Rightarrow> nat \<Rightarrow> nat option" where
  [code]: "pred_loop h p sk =
     (case p of None \<Rightarrow> None
      | Some skp \<Rightarrow> do { k \<leftarrow> h skp; if sk_next k = Some sk then Some skp else pred_loop h (sk_next k) sk })"

definition drop_cached :: "u32 \<Rightarrow> auth_state \<Rightarrow> auth_state" where
  "drop_cached keyno s = (if cache_keyid s = keyno then s\<lparr>cache_flags := 0, cache_keyid := 0\<rparr> else s)"

definition unlink_key :: "u32 \<Rightarrow> nat \<Rightarrow> auth_state \<Rightarrow> auth_state option" where
  "unlink_key keyno sk s = do {
     s \<leftarrow> update_key sk (\<lambda>k. k\<lparr>sk_flags := sk_flags k AND NOT KEY_TRUSTED\<rparr>) s;
     k \<leftarrow> sk_heap s sk;
     s \<leftarrow> (if key_hash s (KEYHASH keyno) = Some sk then Some (s\<lparr>key_hash := (key_hash s)(KEYHASH keyno := sk_next k)\<rparr>)
           else do {
             skp \<leftarrow> pred_loop (sk_heap s) (key_hash s (KEYHASH keyno)) sk;
             update_key skp (\<lambda>kp. kp\<lparr>sk_next := sk_next k\<rparr>) s
           });
     give_free sk s }"

definition authtrust :: "allocator \<Rightarrow> u64 \<Rightarrow> u32 \<Rightarrow> u64 \<Rightarrow> auth_state \<Rightarrow> auth_state option" where
  "authtrust calloc current_time keyno trust s = do {
     p \<leftarrow> auth_findkey keyno s;
     case p of
       Some sk \<Rightarrow>
         let s = drop_cached keyno s
         in if trust > 0
            then update_key sk (\<lambda>k. k\<lparr>sk_flags := sk_flags k OR KEY_TRUSTED,
                   sk_lifetime := (if trust > 1 then current_time + trust else 0)\<rparr>) s
            else unlink_key keyno sk s
     | None \<Rightarrow>
         if trust = 0 then Some s
         else do {
           (p, s) \<leftarrow> take_free calloc s;
           case p of None \<Rightarrow> Some s
           | Some sk \<Rightarrow> put_key sk keyno (\<lambda>k. k\<lparr>sk_keyid := keyno, sk_type := 0, sk_keylen := 0, sk_flags := KEY_TRUSTED\<rparr>) s
         } }"

text \<open>
  The length is compared as an unsigned number, so a negative one counts as 64. \<open>memcpy\<close> reads that
  many bytes of the argument.
\<close>

definition set_bytes :: "int \<Rightarrow> u8 list \<Rightarrow> savekey \<Rightarrow> savekey option" where
  "set_bytes len key k =
     (let n = (if 0 \<le> len \<and> len < 64 then nat len else 64)
      in if n \<le> length key \<and> n \<le> length (sk_key k)
         then Some (k\<lparr>sk_keylen := int n, sk_key := take n key @ drop n (sk_key k)\<rparr>) else None)"

definition MD5auth_setkey :: "allocator \<Rightarrow> u32 \<Rightarrow> int \<Rightarrow> u8 list \<Rightarrow> int \<Rightarrow> auth_state \<Rightarrow> auth_state option" where
  "MD5auth_setkey calloc keyno keytype key len s = do {
     p \<leftarrow> auth_findkey keyno s;
     case p of
       Some sk \<Rightarrow> do {
         k \<leftarrow> sk_heap s sk;
         k' \<leftarrow> set_bytes len key (k\<lparr>sk_type := keytype\<rparr>);
         s \<leftarrow> update_key sk (\<lambda>_. k') s;
         Some (drop_cached keyno s)
       }
     | None \<Rightarrow> do {
         (p, s) \<leftarrow> take_free calloc s;
         case p of None \<Rightarrow> Some s
         | Some sk \<Rightarrow> do {
             k \<leftarrow> sk_heap s sk;
             k' \<leftarrow> set_bytes len key (k\<lparr>sk_keyid := keyno, sk_type := keytype, sk_flags := 0, sk_lifetime := 0\<rparr>);
             put_key sk keyno (\<lambda>_. k') s
           }
       } }"

section \<open>Deleting and ageing\<close>

text \<open>\<open>skp\<close> points to the head of a chain or to the \<open>next\<close> of a structure.\<close>

datatype link = Head nat | NextOf nat

fun load_link :: "link \<Rightarrow> auth_state \<Rightarrow> nat option option" where
  "load_link (Head i) s = Some (key_hash s i)"
| "load_link (NextOf a) s = map_option sk_next (sk_heap s a)"

fun store_link :: "link \<Rightarrow> nat option \<Rightarrow> auth_state \<Rightarrow> auth_state option" where
  "store_link (Head i) p s = Some (s\<lparr>key_hash := (key_hash s)(i := p)\<rparr>)"
| "store_link (NextOf a) p s = update_key a (\<lambda>k. k\<lparr>sk_next := p\<rparr>) s"

partial_function (option) delkeys_loop :: "link \<Rightarrow> nat option \<Rightarrow> auth_state \<Rightarrow> auth_state option" where
  [code]: "delkeys_loop skp p s =
     (case p of None \<Rightarrow> Some s
      | Some sk \<Rightarrow> do {
          k \<leftarrow> sk_heap s sk;
          if sk_keyid k > NTP_MAXKEY then Some s
          else if sk_flags k AND KEY_TRUSTED \<noteq> 0
          then do {
            s \<leftarrow> update_key sk (\<lambda>k. k\<lparr>sk_key := replicate 64 0, sk_lifetime := 0, sk_keylen := 0\<rparr>) s;
            delkeys_loop (NextOf sk) (sk_next k) s
          }
          else do {
            s \<leftarrow> store_link skp (sk_next k) s;
            s \<leftarrow> give_free sk s;
            p \<leftarrow> load_link skp s;
            delkeys_loop skp p s
          }
        })"

definition auth_delkeys :: "auth_state \<Rightarrow> auth_state option" where
  "auth_delkeys s = run (\<lambda>i s. delkeys_loop (Head i) (key_hash s i) s) [0..<HASHSIZE] s"

definition never_alloc :: allocator where
  "never_alloc h = None"

partial_function (option) agekeys_loop :: "u64 \<Rightarrow> nat option \<Rightarrow> auth_state \<Rightarrow> auth_state option" where
  [code]: "agekeys_loop current_time p s =
     (case p of None \<Rightarrow> Some s
      | Some sk \<Rightarrow> do {
          k \<leftarrow> sk_heap s sk;
          s \<leftarrow> (if sk_lifetime k > 0 \<and> current_time > sk_lifetime k
                then do {
                  s \<leftarrow> authtrust never_alloc current_time (sk_keyid k) 0 s;
                  Some (s\<lparr>authkeyexpired := authkeyexpired s + 1\<rparr>)
                }
                else Some s);
          agekeys_loop current_time (sk_next k) s
        })"

definition auth_agekeys :: "u64 \<Rightarrow> auth_state \<Rightarrow> auth_state option" where
  "auth_agekeys current_time s = run (\<lambda>i s. agekeys_loop current_time (key_hash s i) s) [0..<HASHSIZE] s"

section \<open>Authenticators\<close>

text \<open>A packet is its bytes; \<open>digest\<close> is the message digest of a type.\<close>

type_synonym digests = "int \<Rightarrow> u8 list \<Rightarrow> u8 list"

definition write_bytes :: "nat \<Rightarrow> u8 list \<Rightarrow> u8 list \<Rightarrow> u8 list option" where
  "write_bytes off bs buf =
     (if off + length bs \<le> length buf then Some (take off buf @ bs @ drop (off + length bs) buf) else None)"

definition htonl_bytes :: "u32 \<Rightarrow> u8 list" where
  "htonl_bytes x = [ucast (drop_bit 24 x), ucast (drop_bit 16 x), ucast (drop_bit 8 x), ucast x]"

definition packet_digest :: "digests \<Rightarrow> int \<Rightarrow> u8 list \<Rightarrow> nat \<Rightarrow> auth_state \<Rightarrow> u8 list option" where
  "packet_digest digest type pkt len s = do {
     sk \<leftarrow> cache_key s;
     k \<leftarrow> sk_heap s sk;
     if unat (cache_keylen s) \<le> length (sk_key k) \<and> len \<le> length pkt
     then Some (digest type (take (unat (cache_keylen s)) (sk_key k) @ take len pkt)) else None }"

definition MD5authencrypt :: "digests \<Rightarrow> int \<Rightarrow> u8 list \<Rightarrow> nat \<Rightarrow> auth_state \<Rightarrow> (nat \<times> u8 list) option" where
  "MD5authencrypt digest type pkt len s = do {
     d \<leftarrow> packet_digest digest type pkt len s;
     pkt \<leftarrow> write_bytes (len + 4) d pkt;
     Some (length d + 4, pkt) }"

definition MD5authdecrypt :: "digests \<Rightarrow> int \<Rightarrow> u8 list \<Rightarrow> nat \<Rightarrow> int \<Rightarrow> auth_state \<Rightarrow> bool option" where
  "MD5authdecrypt digest type pkt len maclen s = do {
     d \<leftarrow> packet_digest digest type pkt len s;
     if maclen \<noteq> int (length d + 4) then Some False
     else if len + 4 + length d \<le> length pkt then Some (take (length d) (drop (len + 4) pkt) = d) else None }"

definition authencrypt :: "digests \<Rightarrow> u32 \<Rightarrow> u8 list \<Rightarrow> nat \<Rightarrow> auth_state \<Rightarrow> (nat \<times> u8 list \<times> auth_state) option" where
  "authencrypt digest keyno pkt len s =
     (let s = s\<lparr>authencryptions := authencryptions s + 1\<rparr>
      in do {
        pkt \<leftarrow> write_bytes (4 * (len div 4)) (htonl_bytes keyno) pkt;
        if keyno = 0 then Some (4, pkt, s)
        else do {
          (known, s) \<leftarrow> authhavekey keyno s;
          if \<not> known then Some (0, pkt, s)
          else do { (n, pkt) \<leftarrow> MD5authencrypt digest (cache_type s) pkt len s; Some (n, pkt, s) }
        } })"

definition authdecrypt :: "digests \<Rightarrow> u32 \<Rightarrow> u8 list \<Rightarrow> nat \<Rightarrow> int \<Rightarrow> auth_state \<Rightarrow> (bool \<times> auth_state) option" where
  "authdecrypt digest keyno pkt len maclen s =
     (let s = s\<lparr>authdecryptions := authdecryptions s + 1\<rparr>
      in if keyno = 0 then Some (False, s)
         else do {
           (known, s) \<leftarrow> authhavekey keyno s;
           if \<not> known \<or> maclen < 4 then Some (False, s)
           else do { ok \<leftarrow> MD5authdecrypt digest (cache_type s) pkt len maclen s; Some (ok, s) }
         })"

end
