(* ===== verification/NtpAuthKeysLaws.thy ===== *)
theory NtpAuthKeysLaws
  imports NtpAuthKeys
begin

text \<open>
  The key store keeps its chains: every structure is in the chain of its hash or in the free list, the
  keys of a chain are distinct, and the counters count. What a caller sees is a map from key numbers to
  keys, and every operation is an operation on this map.
\<close>

section \<open>Chains in the store\<close>

fun chain :: "(nat \<rightharpoonup> savekey) \<Rightarrow> nat option \<Rightarrow> nat list \<Rightarrow> bool" where
  "chain h p [] \<longleftrightarrow> p = None"
| "chain h p (a # as) \<longleftrightarrow> p = Some a \<and> (\<exists>k. h a = Some k \<and> chain h (sk_next k) as)"

definition first :: "nat list \<Rightarrow> nat option" where
  "first as = (case as of [] \<Rightarrow> None | a # _ \<Rightarrow> Some a)"

lemma first_simps [simp]: "first [] = None" "first (a # as) = Some a"
  by (simp_all add: first_def)

lemma chain_first: "chain h p as \<Longrightarrow> p = first as"
  by (cases as) simp_all

lemma chain_in_heap: "chain h p as \<Longrightarrow> a \<in> set as \<Longrightarrow> \<exists>k. h a = Some k"
  by (induction as arbitrary: p) auto

lemma chain_cong:
  "chain h p as \<Longrightarrow> (\<And>a k. a \<in> set as \<Longrightarrow> h a = Some k \<Longrightarrow> \<exists>k'. h' a = Some k' \<and> sk_next k' = sk_next k) \<Longrightarrow> chain h' p as"
proof (induction as arbitrary: p)
  case (Cons a as)
  then obtain k where k: "h a = Some k" "chain h (sk_next k) as" "p = Some a" by auto
  obtain k' where "h' a = Some k'" "sk_next k' = sk_next k" using Cons.prems(2)[of a k] k by auto
  moreover have "chain h' (sk_next k) as" using Cons.IH[OF k(2)] Cons.prems(2) by simp
  ultimately show ?case using k(3) by simp
qed simp

lemma chain_other: "chain h p as \<Longrightarrow> a \<notin> set as \<Longrightarrow> chain (h(a \<mapsto> k)) p as"
  by (rule chain_cong) auto

text \<open>The chain after some of its structures starts at the next one.\<close>

lemma chain_append: "chain h p (xs @ a # ys) \<Longrightarrow> \<exists>k. h a = Some k \<and> chain h (sk_next k) ys"
  by (induction xs arbitrary: p) auto

text \<open>A structure is taken out by the link before it.\<close>

lemma chain_unlink_inner:
  assumes "chain h p (xs @ b # a # ys)" "distinct (xs @ b # a # ys)" "h a = Some ka" "h b = Some kb"
  shows "chain (h(b \<mapsto> kb\<lparr>sk_next := sk_next ka\<rparr>)) p (xs @ b # ys)"
  using assms
proof (induction xs arbitrary: p)
  case Nil
  then have "chain h (sk_next ka) ys" "p = Some b" by auto
  moreover have "chain (h(b \<mapsto> kb\<lparr>sk_next := sk_next ka\<rparr>)) (sk_next ka) ys"
    using Nil.prems(2) calculation(1) by (intro chain_other) auto
  ultimately show ?case by (simp del: fun_upd_apply) simp
next
  case (Cons c xs)
  then show ?case by auto
qed

lemma pred_loop_finds:
  "chain h p (xs @ b # a # ys) \<Longrightarrow> distinct (xs @ b # a # ys) \<Longrightarrow> pred_loop h p a = Some b"
proof (induction xs arbitrary: p)
  case Nil
  then show ?case by (subst pred_loop.simps) auto
next
  case (Cons c xs)
  then obtain k where k: "h c = Some k" "chain h (sk_next k) (xs @ b # a # ys)" "p = Some c" by auto
  have "sk_next k = first (xs @ b # a # ys)" using k(2) by (rule chain_first)
  then have "sk_next k \<noteq> Some a" using Cons.prems(2) by (cases xs) auto
  then show ?case using Cons.IH[OF k(2)] Cons.prems(2) k by (subst pred_loop.simps) simp
qed

lemma find_loop_chain:
  "chain h p as \<Longrightarrow> find_loop h keyno p = Some (find (\<lambda>a. map_option sk_keyid (h a) = Some keyno) as)"
proof (induction as arbitrary: p)
  case Nil
  then show ?case by (subst find_loop.simps) simp
next
  case (Cons a as)
  then show ?case by (subst find_loop.simps) auto
qed

section \<open>The invariant\<close>

text \<open>\<open>B i\<close> is the chain of hash \<open>i\<close>, \<open>F\<close> the free list.\<close>

definition keyid_at :: "auth_state \<Rightarrow> nat \<Rightarrow> u32 option" where
  "keyid_at s a = map_option sk_keyid (sk_heap s a)"

definition buckets :: "auth_state \<Rightarrow> (nat \<Rightarrow> nat list) \<Rightarrow> bool" where
  "buckets s B \<longleftrightarrow> (\<forall>i<HASHSIZE. chain (sk_heap s) (key_hash s i) (B i) \<and>
     (\<forall>a\<in>set (B i). \<exists>k. keyid_at s a = Some k \<and> KEYHASH k = i) \<and> distinct (map (keyid_at s) (B i)))"

definition free_list :: "auth_state \<Rightarrow> (nat \<Rightarrow> nat list) \<Rightarrow> nat list \<Rightarrow> bool" where
  "free_list s B F \<longleftrightarrow> chain (sk_heap s) (authfreekeys s) F \<and> distinct F \<and> (\<forall>i<HASHSIZE. set (B i) \<inter> set F = {})"

definition key_count :: "(nat \<Rightarrow> nat list) \<Rightarrow> nat" where
  "key_count B = (\<Sum>i<HASHSIZE. length (B i))"

definition counted :: "auth_state \<Rightarrow> (nat \<Rightarrow> nat list) \<Rightarrow> nat list \<Rightarrow> bool" where
  "counted s B F \<longleftrightarrow> authnumfreekeys s = int (length F) \<and> authnumkeys s = of_nat (key_count B)"

definition key_sized :: "savekey \<Rightarrow> bool" where
  "key_sized k \<longleftrightarrow> length (sk_key k) = 64 \<and> 0 \<le> sk_keylen k \<and> sk_keylen k \<le> 64"

definition sized :: "auth_state \<Rightarrow> bool" where
  "sized s \<longleftrightarrow> (\<forall>a k. sk_heap s a = Some k \<longrightarrow> key_sized k) \<and> cache_keylen s \<le> 64"

definition auth_rep :: "auth_state \<Rightarrow> (nat \<Rightarrow> nat list) \<Rightarrow> nat list \<Rightarrow> bool" where
  "auth_rep s B F \<longleftrightarrow> buckets s B \<and> free_list s B F \<and> counted s B F \<and> sized s"

text \<open>The cached key is a trusted key of the table; its length may be out of date.\<close>

definition cache_ok :: "auth_state \<Rightarrow> (nat \<Rightarrow> nat list) \<Rightarrow> bool" where
  "cache_ok s B \<longleftrightarrow> (cache_keyid s = 0 \<longrightarrow> cache_flags s = 0) \<and> (cache_keyid s \<noteq> 0 \<longrightarrow>
     (\<exists>a k. a \<in> set (B (KEYHASH (cache_keyid s))) \<and> sk_heap s a = Some k \<and> sk_keyid k = cache_keyid s \<and>
        cache_key s = Some a \<and> cache_type s = sk_type k \<and> sk_type k \<noteq> 0 \<and>
        cache_flags s = sk_flags k \<and> sk_flags k AND KEY_TRUSTED \<noteq> 0))"

definition auth_ok :: "auth_state \<Rightarrow> bool" where
  "auth_ok s \<longleftrightarrow> (\<exists>B F. auth_rep s B F \<and> cache_ok s B)"

text \<open>What a caller sees: the key of a number.\<close>

definition bare :: "savekey \<Rightarrow> savekey" where
  "bare k = k\<lparr>sk_next := None\<rparr>"

lemma bare_simps [simp]:
  "sk_keyid (bare k) = sk_keyid k" "sk_type (bare k) = sk_type k" "sk_flags (bare k) = sk_flags k"
  "sk_key (bare k) = sk_key k" "sk_lifetime (bare k) = sk_lifetime k" "sk_keylen (bare k) = sk_keylen k"
  "bare (k\<lparr>sk_next := p\<rparr>) = bare k" "bare (bare k) = bare k"
  by (simp_all add: bare_def)

definition key_of :: "auth_state \<Rightarrow> u32 \<Rightarrow> savekey option" where
  "key_of s keyno = (case auth_findkey keyno s of Some (Some a) \<Rightarrow> map_option bare (sk_heap s a) | _ \<Rightarrow> None)"

lemma KEYHASH_less [simp]: "KEYHASH k < HASHSIZE"
proof -
  have "k AND 63 = take_bit 6 k" using take_bit_eq_mask[of 6 k] by (simp add: mask_eq_exp_minus_1)
  then show ?thesis using take_bit_nat_less_exp[of 6 "unat k"] by (simp add: KEYHASH_def HASHSIZE_def unsigned_take_bit_eq)
qed

lemma bucketsD:
  assumes "buckets s B" "i < HASHSIZE"
  shows "chain (sk_heap s) (key_hash s i) (B i)" "distinct (map (keyid_at s) (B i))" "distinct (B i)"
    "a \<in> set (B i) \<Longrightarrow> \<exists>k. sk_heap s a = Some k \<and> KEYHASH (sk_keyid k) = i"
  using assms distinct_map[of "keyid_at s" "B i"] by (auto simp: buckets_def keyid_at_def)

lemma findkey_found:
  assumes "buckets s B" "a \<in> set (B (KEYHASH keyno))" "sk_heap s a = Some k" "sk_keyid k = keyno"
  shows "auth_findkey keyno s = Some (Some a)"
proof -
  define as where "as = B (KEYHASH keyno)"
  obtain xs ys where as: "as = xs @ a # ys" using assms(2) split_list unfolding as_def by metis
  have d: "distinct (map (keyid_at s) as)" using bucketsD(2)[OF assms(1)] by (simp add: as_def)
  have "keyid_at s b \<noteq> Some keyno" if "b \<in> set xs" for b
    using d that assms(3,4) unfolding as by (force simp: keyid_at_def)
  then have "find (\<lambda>a. map_option sk_keyid (sk_heap s a) = Some keyno) as = Some a"
    unfolding as using assms(3,4) by (induction xs) (auto simp: keyid_at_def)
  then show ?thesis using find_loop_chain[OF bucketsD(1)[OF assms(1), of "KEYHASH keyno"]] by (simp add: auth_findkey_def as_def)
qed

lemma findkey_cases:
  assumes "buckets s B"
  obtains (found) a k where "auth_findkey keyno s = Some (Some a)" "a \<in> set (B (KEYHASH keyno))"
      "sk_heap s a = Some k" "sk_keyid k = keyno" "key_of s keyno = Some (bare k)"
  | (missing) "auth_findkey keyno s = Some None" "key_of s keyno = None"
      "\<And>a k. a \<in> set (B (KEYHASH keyno)) \<Longrightarrow> sk_heap s a = Some k \<Longrightarrow> sk_keyid k \<noteq> keyno"
proof (cases "\<exists>a\<in>set (B (KEYHASH keyno)). keyid_at s a = Some keyno")
  case True
  then obtain a k where a: "a \<in> set (B (KEYHASH keyno))" "sk_heap s a = Some k" "sk_keyid k = keyno" by (auto simp: keyid_at_def)
  then show ?thesis using found findkey_found[OF assms a] by (simp add: key_of_def)
next
  case False
  then have "find (\<lambda>a. map_option sk_keyid (sk_heap s a) = Some keyno) (B (KEYHASH keyno)) = None"
    by (auto simp: find_None_iff keyid_at_def)
  then have "auth_findkey keyno s = Some None"
    using find_loop_chain[OF bucketsD(1)[OF assms, of "KEYHASH keyno"]] by (simp add: auth_findkey_def)
  then show ?thesis using missing False by (auto simp: key_of_def keyid_at_def)
qed

lemma key_of_iff:
  assumes "buckets s B"
  shows "key_of s keyno = Some e \<longleftrightarrow>
    (\<exists>a k. a \<in> set (B (KEYHASH keyno)) \<and> sk_heap s a = Some k \<and> sk_keyid k = keyno \<and> e = bare k)"
  by (rule findkey_cases[OF assms, of keyno]) (use findkey_found[OF assms] in \<open>fastforce simp: key_of_def\<close>)+
section \<open>Links\<close>

text \<open>The structures but for their links, and everything that is not the store.\<close>

definition same_keys :: "auth_state \<Rightarrow> auth_state \<Rightarrow> bool" where
  "same_keys s s' \<longleftrightarrow> (\<forall>a. map_option bare (sk_heap s' a) = map_option bare (sk_heap s a))"

definition same_cache :: "auth_state \<Rightarrow> auth_state \<Rightarrow> bool" where
  "same_cache s s' \<longleftrightarrow> cache_keyid s' = cache_keyid s \<and> cache_key s' = cache_key s \<and> cache_keylen s' = cache_keylen s \<and>
     cache_type s' = cache_type s \<and> cache_flags s' = cache_flags s"

lemma same_trans [trans]:
  "same_keys r s \<Longrightarrow> same_keys s t \<Longrightarrow> same_keys r t" "same_cache r s \<Longrightarrow> same_cache s t \<Longrightarrow> same_cache r t"
  by (simp_all add: same_keys_def same_cache_def)

lemma same_keysD:
  "same_keys s s' \<Longrightarrow> sk_heap s a = Some k \<Longrightarrow> \<exists>k'. sk_heap s' a = Some k' \<and> bare k' = bare k"
  "same_keys s s' \<Longrightarrow> sk_heap s' a = Some k' \<Longrightarrow> \<exists>k. sk_heap s a = Some k \<and> bare k' = bare k"
  unfolding same_keys_def by (metis map_option_eq_Some option.simps(9))+

lemma bare_eqD: "bare k' = bare k \<Longrightarrow> sk_keyid k' = sk_keyid k \<and> sk_type k' = sk_type k \<and> sk_flags k' = sk_flags k \<and>
    sk_key k' = sk_key k \<and> sk_keylen k' = sk_keylen k \<and> sk_lifetime k' = sk_lifetime k"
  by (metis bare_simps(1-6))

lemma same_keyid: "same_keys s s' \<Longrightarrow> keyid_at s' a = keyid_at s a"
  by (cases "sk_heap s a"; cases "sk_heap s' a") (auto simp: same_keys_def keyid_at_def dest!: spec[of _ a] dest: bare_eqD)

lemma same_sized: "same_keys s s' \<Longrightarrow> same_cache s s' \<Longrightarrow> sized s \<Longrightarrow> sized s'"
  unfolding sized_def same_cache_def by (auto dest!: same_keysD(2) bare_eqD simp: key_sized_def)

lemma key_of_same:
  assumes "buckets s B" "buckets s' B" "same_keys s s'"
  shows "key_of s' = key_of s"
proof
  fix keyno
  show "key_of s' keyno = key_of s keyno"
  proof (rule findkey_cases[OF assms(1), of keyno])
    fix a k
    assume a: "a \<in> set (B (KEYHASH keyno))" "sk_heap s a = Some k" "sk_keyid k = keyno" "key_of s keyno = Some (bare k)"
    obtain k' where "sk_heap s' a = Some k'" "bare k' = bare k" using same_keysD(1)[OF assms(3) a(2)] by auto
    then show ?thesis using a key_of_iff[OF assms(2), of keyno "bare k"] bare_eqD[of k' k] by force
  next
    assume m: "key_of s keyno = None" "\<And>a k. a \<in> set (B (KEYHASH keyno)) \<Longrightarrow> sk_heap s a = Some k \<Longrightarrow> sk_keyid k \<noteq> keyno"
    have "key_of s' keyno \<noteq> Some e" for e
      using m(2) key_of_iff[OF assms(2), of keyno e] same_keysD(2)[OF assms(3)] bare_eqD by metis
    then show ?thesis using m(1) by (cases "key_of s' keyno") auto
  qed
qed

definition link_of :: "nat \<Rightarrow> nat list \<Rightarrow> link" where
  "link_of i xs = (if xs = [] then Head i else NextOf (last xs))"

lemma link_of_simps [simp]: "link_of i [] = Head i" "link_of i (xs @ [b]) = NextOf b"
  by (simp_all add: link_of_def)

lemma hash_disjoint:
  assumes "buckets s B" "a \<in> set (B i)" "a \<in> set (B j)" "i < HASHSIZE" "j < HASHSIZE"
  shows "i = j"
  using bucketsD(4)[OF assms(1,4,2)] bucketsD(4)[OF assms(1,5,3)] by auto

lemma load_link_chain:
  assumes "buckets s B" "i < HASHSIZE" "B i = xs @ ys"
  shows "load_link (link_of i xs) s = Some (first ys)"
proof (cases xs rule: rev_cases)
  case Nil
  then show ?thesis using chain_first[OF bucketsD(1)[OF assms(1,2)]] assms(3) by simp
next
  case (snoc zs b)
  have "chain (sk_heap s) (key_hash s i) (zs @ b # ys)" using bucketsD(1)[OF assms(1,2)] assms(3) snoc by simp
  then obtain k where "sk_heap s b = Some k" "chain (sk_heap s) (sk_next k) ys" using chain_append by blast
  then show ?thesis using snoc chain_first by simp
qed

lemma buckets_shrink:
  assumes "buckets s B" "same_keys s s'" "i < HASHSIZE" "B i = xs @ a # ys" "chain (sk_heap s') (key_hash s' i) (xs @ ys)"
    "\<And>j. j < HASHSIZE \<Longrightarrow> j \<noteq> i \<Longrightarrow> chain (sk_heap s') (key_hash s' j) (B j)"
  shows "buckets s' (B(i := xs @ ys))"
proof -
  have k: "keyid_at s' = keyid_at s" using same_keyid[OF assms(2)] by auto
  have "\<forall>b\<in>set (xs @ ys). \<exists>k. keyid_at s b = Some k \<and> KEYHASH k = i" "distinct (map (keyid_at s) (xs @ ys))"
    using spec[OF assms(1)[unfolded buckets_def], of i] assms(3,4) by auto
  then show ?thesis using assms(1,5,6) unfolding buckets_def k by simp
qed

lemma free_list_shrink:
  assumes "free_list s B F" "i < HASHSIZE" "B i = xs @ a # ys" "authfreekeys s' = authfreekeys s" "chain (sk_heap s') (authfreekeys s) F"
  shows "free_list s' (B(i := xs @ ys)) F"
proof -
  have "set (B i) \<inter> set F = {}" using assms(1,2) by (simp add: free_list_def)
  then show ?thesis using assms unfolding free_list_def by auto
qed

lemma store_link_unlinks:
  assumes "buckets s B" "free_list s B F" "i < HASHSIZE" "B i = xs @ a # ys" "sk_heap s a = Some k"
  obtains s' where "store_link (link_of i xs) (sk_next k) s = Some s'" "buckets s' (B(i := xs @ ys))"
    "free_list s' (B(i := xs @ ys)) F" "same_keys s s'" "same_cache s s'" "sk_heap s' a = Some k"
    "authnumkeys s' = authnumkeys s" "authnumfreekeys s' = authnumfreekeys s" "authfreekeys s' = authfreekeys s"
proof (cases xs rule: rev_cases)
  case Nil
  define s' where "s' = s\<lparr>key_hash := (key_hash s)(i := sk_next k)\<rparr>"
  have c: "chain (sk_heap s) (sk_next k) ys"
    using bucketsD(1)[OF assms(1,3)] assms(4,5) Nil by simp
  have "buckets s' (B(i := xs @ ys))"
    by (rule buckets_shrink[OF assms(1) _ assms(3,4)])
       (use c Nil bucketsD(1)[OF assms(1)] in \<open>simp_all add: s'_def same_keys_def\<close>)
  moreover have "free_list s' (B(i := xs @ ys)) F"
    by (rule free_list_shrink[OF assms(2-4)]) (use assms(2) in \<open>simp_all add: free_list_def s'_def\<close>)
  ultimately show ?thesis
    using that[of s'] Nil assms(5) by (simp add: s'_def same_keys_def same_cache_def)
next
  case (snoc zs b)
  have b: "b \<in> set (B i)" using assms(4) snoc by simp
  obtain kb where kb: "sk_heap s b = Some kb" using bucketsD(4)[OF assms(1,3) b] by auto
  define s' where "s' = s\<lparr>sk_heap := (sk_heap s)(b \<mapsto> kb\<lparr>sk_next := sk_next k\<rparr>)\<rparr>"
  have same: "same_keys s s'" using kb by (simp add: same_keys_def s'_def)
  have d: "distinct (zs @ b # a # ys)" using bucketsD(3)[OF assms(1,3)] assms(4) snoc by simp
  have c: "chain (sk_heap s') (key_hash s' i) (zs @ b # ys)"
    using chain_unlink_inner[OF _ d assms(5) kb] bucketsD(1)[OF assms(1,3)] assms(4) snoc by (simp add: s'_def)
  have "buckets s' (B(i := xs @ ys))"
  proof (rule buckets_shrink[OF assms(1) same assms(3,4)])
    show "chain (sk_heap s') (key_hash s' i) (xs @ ys)" using c snoc by simp
    fix j assume j: "j < HASHSIZE" "j \<noteq> i"
    then have "b \<notin> set (B j)" using hash_disjoint[OF assms(1) b _ assms(3)] by auto
    then show "chain (sk_heap s') (key_hash s' j) (B j)"
      using bucketsD(1)[OF assms(1) j(1)] chain_other by (simp add: s'_def)
  qed
  moreover have "b \<notin> set F" using assms(2,3) b by (auto simp: free_list_def)
  then have "free_list s' (B(i := xs @ ys)) F"
    by (intro free_list_shrink[OF assms(2-4)]) (use assms(2) chain_other in \<open>simp_all add: free_list_def s'_def\<close>)
  moreover have "sk_heap s' a = Some k" using d assms(5) by (auto simp: s'_def)
  ultimately show ?thesis
    using that[of s'] snoc same kb by (simp add: s'_def same_cache_def update_key_def)
qed
section \<open>The list operations\<close>

text \<open>A structure that is in no list goes to the free list or into a chain.\<close>

definition outside :: "nat \<Rightarrow> (nat \<Rightarrow> nat list) \<Rightarrow> nat list \<Rightarrow> bool" where
  "outside a B F \<longleftrightarrow> (\<forall>i<HASHSIZE. a \<notin> set (B i)) \<and> a \<notin> set F"

lemma update_key_Some: "sk_heap s a = Some k \<Longrightarrow> update_key a f s = Some (s\<lparr>sk_heap := (sk_heap s)(a \<mapsto> f k)\<rparr>)"
  by (simp add: update_key_def)

lemma buckets_outside:
  assumes "buckets s B" "\<And>i. i < HASHSIZE \<Longrightarrow> a \<notin> set (B i)" "key_hash s' = key_hash s" "sk_heap s' = (sk_heap s)(a \<mapsto> k)"
  shows "buckets s' B"
  unfolding buckets_def
proof (intro allI impI)
  fix i assume i: "i < HASHSIZE"
  have e: "keyid_at s' b = keyid_at s b" if "b \<in> set (B i)" for b using that assms(2)[OF i] assms(4) by (auto simp: keyid_at_def)
  then have "map (keyid_at s') (B i) = map (keyid_at s) (B i)" by simp
  then have "distinct (map (keyid_at s') (B i))" using bucketsD(2)[OF assms(1) i] by (simp only:)
  moreover have "chain (sk_heap s') (key_hash s' i) (B i)"
    unfolding assms(3,4) using bucketsD(1)[OF assms(1) i] assms(2)[OF i] by (rule chain_other)
  ultimately show "chain (sk_heap s') (key_hash s' i) (B i) \<and> (\<forall>a\<in>set (B i). \<exists>k. keyid_at s' a = Some k \<and> KEYHASH k = i) \<and>
      distinct (map (keyid_at s') (B i))"
    using assms(1) i e by (simp add: buckets_def)
qed

lemma give_free_rep:
  assumes "buckets s B" "free_list s B F" "outside a B F" "sk_heap s a = Some k" "sized s"
    "authnumfreekeys s = int (length F)" "authnumkeys s = of_nat (key_count B + 1)"
  obtains s' where "give_free a s = Some s'" "auth_rep s' B (a # F)" "same_keys s s'" "same_cache s s'"
proof -
  define s' where "s' = s\<lparr>authnumkeys := authnumkeys s - 1, sk_heap := (sk_heap s)(a \<mapsto> k\<lparr>sk_next := authfreekeys s\<rparr>),
      authfreekeys := Some a, authnumfreekeys := authnumfreekeys s + 1\<rparr>"
  have g: "give_free a s = Some s'" using assms(4) by (simp add: give_free_def update_key_def s'_def)
  have same: "same_keys s s'" "same_cache s s'" using assms(4) by (simp_all add: same_keys_def same_cache_def s'_def)
  have "buckets s' B" using assms(1,3) by (intro buckets_outside[OF assms(1), of a]) (auto simp: outside_def s'_def)
  moreover have "free_list s' B (a # F)"
    using assms(2,3) chain_other[of "sk_heap s" "authfreekeys s" F a] by (simp add: free_list_def outside_def s'_def)
  moreover have "counted s' B (a # F)" using assms(6,7) by (simp add: counted_def s'_def)
  ultimately have "auth_rep s' B (a # F)" using same_sized[OF same assms(5)] by (simp add: auth_rep_def)
  then show ?thesis using that g same by blast
qed

lemma key_count_upd: "i < HASHSIZE \<Longrightarrow> key_count (B(i := xs)) + length (B i) = key_count B + length xs"
  unfolding key_count_def by (simp add: sum.remove[of "{..<HASHSIZE}" i])

lemma store_link_give_free:
  assumes "auth_rep s B F" "i < HASHSIZE" "B i = xs @ a # ys" "sk_heap s a = Some k"
  obtains s' where "do { s \<leftarrow> store_link (link_of i xs) (sk_next k) s; give_free a s } = Some s'"
    "auth_rep s' (B(i := xs @ ys)) (a # F)" "same_keys s s'" "same_cache s s'"
proof -
  have r: "buckets s B" "free_list s B F" "sized s" "authnumfreekeys s = int (length F)" "authnumkeys s = of_nat (key_count B)"
    using assms(1) by (simp_all add: auth_rep_def counted_def)
  obtain s1 where s1: "store_link (link_of i xs) (sk_next k) s = Some s1" "buckets s1 (B(i := xs @ ys))"
    "free_list s1 (B(i := xs @ ys)) F" "same_keys s s1" "same_cache s s1" "sk_heap s1 a = Some k"
    "authnumkeys s1 = authnumkeys s" "authnumfreekeys s1 = authnumfreekeys s"
    using store_link_unlinks[OF r(1,2) assms(2-4)] by blast
  have a: "a \<in> set (B i)" "distinct (B i)" using assms(3) bucketsD(3)[OF r(1) assms(2)] by simp_all
  have "a \<notin> set ((B(i := xs @ ys)) j)" if "j < HASHSIZE" for j
  proof (cases "j = i")
    case True
    have "distinct (xs @ a # ys)" using a(2) by (simp only: assms(3))
    then show ?thesis using True by simp
  next
    case False
    then show ?thesis using hash_disjoint[OF r(1) a(1) _ assms(2) that] by fastforce
  qed
  moreover have "a \<notin> set F" using a(1) r(2) assms(2) by (auto simp: free_list_def)
  ultimately have o: "outside a (B(i := xs @ ys)) F" by (simp add: outside_def)
  have n: "authnumkeys s1 = of_nat (key_count (B(i := xs @ ys)) + 1)"
  proof -
    have "key_count (B(i := xs @ ys)) + 1 = key_count B" using key_count_upd[OF assms(2), of B "xs @ ys"] assms(3) by simp
    then show ?thesis using s1(7) r(5) by (simp only:)
  qed
  have m: "authnumfreekeys s1 = int (length F)" using s1(8) r(4) by simp
  obtain s' where s': "give_free a s1 = Some s'" "auth_rep s' (B(i := xs @ ys)) (a # F)" "same_keys s1 s'" "same_cache s1 s'"
    by (rule give_free_rep[OF s1(2,3) o s1(6) same_sized[OF s1(4,5) r(3)] m n])
  show ?thesis
    by (rule that[OF _ s'(2) same_trans(1)[OF s1(4) s'(3)] same_trans(2)[OF s1(5) s'(4)]]) (simp add: s1(1) s'(1))
qed

text \<open>A field other than the number and the link changes.\<close>

lemma update_key_rep:
  assumes "auth_rep s B F" "sk_heap s a = Some k" "sk_next (f k) = sk_next k" "sk_keyid (f k) = sk_keyid k" "key_sized (f k)"
  shows "auth_rep (s\<lparr>sk_heap := (sk_heap s)(a \<mapsto> f k)\<rparr>) B F"
proof -
  define s' where "s' = s\<lparr>sk_heap := (sk_heap s)(a \<mapsto> f k)\<rparr>"
  have k: "keyid_at s' = keyid_at s" using assms(2,4) by (auto simp: keyid_at_def s'_def)
  have c: "chain (sk_heap s') p as" if "chain (sk_heap s) p as" for p as
    using that by (rule chain_cong) (use assms(2,3) in \<open>auto simp: s'_def\<close>)
  have "sized s'" using assms(1,5) by (auto simp: sized_def s'_def auth_rep_def)
  then show ?thesis
    using assms(1) c unfolding auth_rep_def buckets_def free_list_def counted_def s'_def[symmetric] k by (simp add: s'_def)
qed
lemma unlink_key_rep:
  assumes "auth_rep s B F" "B (KEYHASH keyno) = xs @ sk # ys" "sk_heap s sk = Some k"
  obtains s' where "unlink_key keyno sk s = Some s'" "auth_rep s' (B(KEYHASH keyno := xs @ ys)) (sk # F)" "same_cache s s'"
    "\<And>a. a \<noteq> sk \<Longrightarrow> map_option bare (sk_heap s' a) = map_option bare (sk_heap s a)"
    "map_option sk_lifetime (sk_heap s' sk) = Some (sk_lifetime k)"
proof -
  define i where "i = KEYHASH keyno"
  define k1 where "k1 = k\<lparr>sk_flags := sk_flags k AND NOT KEY_TRUSTED\<rparr>"
  define s1 where "s1 = s\<lparr>sk_heap := (sk_heap s)(sk \<mapsto> k1)\<rparr>"
  have i: "i < HASHSIZE" "B i = xs @ sk # ys" using assms(2) by (simp_all add: i_def)
  have "key_sized k" using assms(1,3) by (auto simp: auth_rep_def sized_def)
  then have "key_sized k1" by (simp add: k1_def key_sized_def)
  then have r1: "auth_rep s1 B F"
    unfolding s1_def using update_key_rep[OF assms(1,3), of "\<lambda>_. k1"] by (simp add: k1_def)
  have h1: "sk_heap s1 sk = Some k1" by (simp add: s1_def)
  have b1: "buckets s1 B" using r1 by (simp add: auth_rep_def)
  have c: "chain (sk_heap s1) (key_hash s1 i) (xs @ sk # ys)" "distinct (xs @ sk # ys)"
    using bucketsD(1,3)[OF b1 i(1)] unfolding i(2) by simp_all
  have l: "(if key_hash s1 i = Some sk then Some (s1\<lparr>key_hash := (key_hash s1)(i := sk_next k1)\<rparr>)
           else do { skp \<leftarrow> pred_loop (sk_heap s1) (key_hash s1 i) sk; update_key skp (\<lambda>kp. kp\<lparr>sk_next := sk_next k1\<rparr>) s1 }) =
        store_link (link_of i xs) (sk_next k1) s1"
  proof (cases xs rule: rev_cases)
    case Nil
    then show ?thesis using c(1) by simp
  next
    case (snoc zs b)
    have "key_hash s1 i \<noteq> Some sk" using c snoc chain_first[OF c(1)] by (cases zs) auto
    then show ?thesis using snoc pred_loop_finds[of _ _ zs b sk ys] c by simp
  qed
  obtain s' where s': "do { s \<leftarrow> store_link (link_of i xs) (sk_next k1) s1; give_free sk s } = Some s'"
    "auth_rep s' (B(i := xs @ ys)) (sk # F)" "same_keys s1 s'" "same_cache s1 s'"
    by (rule store_link_give_free[OF r1 i h1])
  show ?thesis
  proof (rule that)
    show "unlink_key keyno sk s = Some s'"
      unfolding unlink_key_def update_key_Some[OF assms(3)] bind.bind_lunit k1_def[symmetric] s1_def[symmetric] h1 i_def[symmetric] l
      by (rule s'(1))
    show "auth_rep s' (B(KEYHASH keyno := xs @ ys)) (sk # F)" using s'(2) by (simp add: i_def)
    show "same_cache s s'" using s'(4) by (simp add: same_cache_def s1_def)
    show "map_option bare (sk_heap s' a) = map_option bare (sk_heap s a)" if "a \<noteq> sk" for a
      using s'(3) that by (simp add: same_keys_def s1_def)
    obtain k2 where "sk_heap s' sk = Some k2" "bare k2 = bare k1" using same_keysD(1)[OF s'(3) h1] by auto
    then show "map_option sk_lifetime (sk_heap s' sk) = Some (sk_lifetime k)" using bare_eqD[of k2 k1] by (simp add: k1_def)
  qed
qed
section \<open>New structures\<close>

definition fresh_calloc :: "allocator \<Rightarrow> bool" where
  "fresh_calloc calloc \<longleftrightarrow> (\<forall>h b. calloc h = Some b \<longrightarrow> (\<forall>a. b \<le> a \<and> a < b + MEMINC \<longrightarrow> h a = None))"

text \<open>Every structure that was there stays.\<close>

definition extends :: "auth_state \<Rightarrow> auth_state \<Rightarrow> bool" where
  "extends s s' \<longleftrightarrow> (\<forall>a k. sk_heap s a = Some k \<longrightarrow> sk_heap s' a = Some k)"

lemma buckets_extend:
  assumes "buckets s B" "extends s s'" "key_hash s' = key_hash s"
  shows "buckets s' B"
  unfolding buckets_def
proof (intro allI impI)
  fix i assume i: "i < HASHSIZE"
  have e: "keyid_at s' b = keyid_at s b" if "b \<in> set (B i)" for b
    using bucketsD(4)[OF assms(1) i that] assms(2) by (auto simp: keyid_at_def extends_def)
  then have "map (keyid_at s') (B i) = map (keyid_at s) (B i)" by simp
  then have "distinct (map (keyid_at s') (B i))" using bucketsD(2)[OF assms(1) i] by (simp only:)
  moreover have "chain (sk_heap s') (key_hash s' i) (B i)"
    unfolding assms(3) using bucketsD(1)[OF assms(1) i] by (rule chain_cong) (use assms(2) in \<open>auto simp: extends_def\<close>)
  ultimately show "chain (sk_heap s') (key_hash s' i) (B i) \<and> (\<forall>a\<in>set (B i). \<exists>k. keyid_at s' a = Some k \<and> KEYHASH k = i) \<and>
      distinct (map (keyid_at s') (B i))"
    using assms(1) i e by (simp add: buckets_def)
qed

lemma key_of_extends:
  assumes "buckets s B" "buckets s' B" "extends s s'"
  shows "key_of s' = key_of s"
proof
  fix n
  show "key_of s' n = key_of s n"
  proof (rule findkey_cases[OF assms(1), of n])
    fix a k
    assume a: "a \<in> set (B (KEYHASH n))" "sk_heap s a = Some k" "sk_keyid k = n" "key_of s n = Some (bare k)"
    then have "sk_heap s' a = Some k" using assms(3) by (simp add: extends_def)
    then show ?thesis using a key_of_iff[OF assms(2), of n "bare k"] by auto
  next
    assume m: "key_of s n = None" "\<And>a k. a \<in> set (B (KEYHASH n)) \<Longrightarrow> sk_heap s a = Some k \<Longrightarrow> sk_keyid k \<noteq> n"
    have "key_of s' n \<noteq> Some e" for e
    proof
      assume "key_of s' n = Some e"
      then obtain a k' where a: "a \<in> set (B (KEYHASH n))" "sk_heap s' a = Some k'" "sk_keyid k' = n"
        unfolding key_of_iff[OF assms(2)] by blast
      obtain k where "sk_heap s a = Some k" using bucketsD(4)[OF assms(1) KEYHASH_less a(1)] by auto
      then show False using m(2)[OF a(1)] assms(3) a by (auto simp: extends_def)
    qed
    then show ?thesis using m(1) by (cases "key_of s' n") auto
  qed
qed

lemma moremem_loop_chain:
  assumes "chain (sk_heap s) (authfreekeys s) F" "\<And>a. sk \<le> a \<Longrightarrow> a < sk + n \<Longrightarrow> sk_heap s a = Some zero_key \<and> a \<notin> set F"
  shows "\<exists>s'. moremem_loop n sk s = Some s' \<and> chain (sk_heap s') (authfreekeys s') (rev [sk..<sk + n] @ F) \<and>
    (\<forall>a. a < sk \<or> sk + n \<le> a \<longrightarrow> sk_heap s' a = sk_heap s a) \<and>
    (\<forall>a. sk \<le> a \<and> a < sk + n \<longrightarrow> (\<exists>k. sk_heap s' a = Some k \<and> bare k = bare zero_key)) \<and>
    s' = s\<lparr>sk_heap := sk_heap s', authfreekeys := authfreekeys s'\<rparr>"
  using assms
proof (induction n arbitrary: sk s F)
  case 0
  then show ?case by auto
next
  case (Suc n)
  define s1 where "s1 = s\<lparr>sk_heap := (sk_heap s)(sk \<mapsto> zero_key\<lparr>sk_next := authfreekeys s\<rparr>), authfreekeys := Some sk\<rparr>"
  have z: "sk_heap s sk = Some zero_key" "sk \<notin> set F" using Suc.prems(2)[of sk] by simp_all
  have "chain (sk_heap s1) (authfreekeys s1) (sk # F)" using Suc.prems(1) z chain_other by (simp add: s1_def)
  moreover have "sk_heap s1 a = Some zero_key \<and> a \<notin> set (sk # F)" if "sk + 1 \<le> a" "a < sk + 1 + n" for a
    using Suc.prems(2)[of a] that by (auto simp: s1_def)
  ultimately obtain s' where s': "moremem_loop n (sk + 1) s1 = Some s'"
    "chain (sk_heap s') (authfreekeys s') (rev [sk + 1..<sk + 1 + n] @ sk # F)"
    "\<forall>a. a < sk + 1 \<or> sk + 1 + n \<le> a \<longrightarrow> sk_heap s' a = sk_heap s1 a"
    "\<forall>a. sk + 1 \<le> a \<and> a < sk + 1 + n \<longrightarrow> (\<exists>k. sk_heap s' a = Some k \<and> bare k = bare zero_key)"
    "s' = s1\<lparr>sk_heap := sk_heap s', authfreekeys := authfreekeys s'\<rparr>"
    using Suc.IH[of s1 "sk # F" "sk + 1"] by auto
  have m: "moremem_loop (Suc n) sk s = Some s'" using s'(1) z(1) by (simp add: update_key_def s1_def)
  have c: "chain (sk_heap s') (authfreekeys s') (rev [sk..<sk + Suc n] @ F)"
  proof -
    have "[sk..<sk + Suc n] = sk # [sk + 1..<sk + 1 + n]" by (simp add: upt_conv_Cons del: upt_Suc)
    then show ?thesis using s'(2) by (simp del: upt_Suc)
  qed
  have o: "\<forall>a. a < sk \<or> sk + Suc n \<le> a \<longrightarrow> sk_heap s' a = sk_heap s a" using s'(3) by (auto simp: s1_def)
  have "sk_heap s' sk = Some (zero_key\<lparr>sk_next := authfreekeys s\<rparr>)" using s'(3) by (simp add: s1_def)
  then have n: "\<forall>a. sk \<le> a \<and> a < sk + Suc n \<longrightarrow> (\<exists>k. sk_heap s' a = Some k \<and> bare k = bare zero_key)"
    using s'(4) by (metis Suc_leI add_Suc add_Suc_right Suc_eq_plus1 bare_simps(7) le_neq_implies_less)
  have "s' = s\<lparr>sk_heap := sk_heap s', authfreekeys := authfreekeys s'\<rparr>" by (subst s'(5)) (simp add: s1_def)
  then show ?case using m c o n by blast
qed
text \<open>A structure for a new key: from the free list, after more memory when it is empty.\<close>

definition same_counts :: "auth_state \<Rightarrow> auth_state \<Rightarrow> bool" where
  "same_counts s s' \<longleftrightarrow> authnumkeys s' = authnumkeys s \<and> key_hash s' = key_hash s"

lemma moremem_rep:
  assumes "auth_rep s B F" "calloc (sk_heap s) = Some b" "fresh_calloc calloc"
  obtains s' F' where "auth_moremem calloc s = Some (authnumfreekeys s', s')" "auth_rep s' B F'" "F' \<noteq> []"
    "extends s s'" "same_cache s s'" "same_counts s s'"
proof -
  have r: "buckets s B" "free_list s B F" "counted s B F" "sized s" using assms(1) by (simp_all add: auth_rep_def)
  define s0 where "s0 = s\<lparr>sk_heap := calloc_keys b (sk_heap s)\<rparr>"
  have fresh: "sk_heap s a = None" if "b \<le> a" "a < b + MEMINC" for a using assms(2,3) that by (auto simp: fresh_calloc_def)
  have e0: "extends s s0" using fresh by (auto simp: extends_def s0_def calloc_keys_def)
  have ch: "chain (sk_heap s) (authfreekeys s) F" using r(2) by (simp add: free_list_def)
  have "chain (sk_heap s0) (authfreekeys s) F" using ch by (rule chain_cong) (use e0 in \<open>auto simp: extends_def\<close>)
  then have c: "chain (sk_heap s0) (authfreekeys s0) F" by (simp add: s0_def)
  have out: "a \<notin> set F" "i < HASHSIZE \<Longrightarrow> a \<notin> set (B i)" if "b \<le> a" "a < b + MEMINC" for a i
  proof -
    show "a \<notin> set F" using fresh[OF that] chain_in_heap[OF ch, of a] by auto
    show "a \<notin> set (B i)" if "i < HASHSIZE" using fresh[OF \<open>b \<le> a\<close> \<open>a < b + MEMINC\<close>] bucketsD(4)[OF r(1) that, of a] by auto
  qed
  have z: "sk_heap s0 a = Some zero_key \<and> a \<notin> set F" if "b \<le> a" "a < b + MEMINC" for a
    using that out by (simp add: s0_def calloc_keys_def)
  obtain s1 where s1: "moremem_loop MEMINC b s0 = Some s1" "chain (sk_heap s1) (authfreekeys s1) (rev [b..<b + MEMINC] @ F)"
    "\<forall>a. a < b \<or> b + MEMINC \<le> a \<longrightarrow> sk_heap s1 a = sk_heap s0 a"
    "\<forall>a. b \<le> a \<and> a < b + MEMINC \<longrightarrow> (\<exists>k. sk_heap s1 a = Some k \<and> bare k = bare zero_key)"
    "s1 = s0\<lparr>sk_heap := sk_heap s1, authfreekeys := authfreekeys s1\<rparr>"
    using moremem_loop_chain[OF c z] by blast
  define s' where "s' = s1\<lparr>authnumfreekeys := authnumfreekeys s1 + int MEMINC\<rparr>"
  have f: "key_hash s' = key_hash s" "authnumkeys s' = authnumkeys s" "authnumfreekeys s' = authnumfreekeys s + int MEMINC"
    "sk_heap s' = sk_heap s1" "authfreekeys s' = authfreekeys s1" "same_cache s s'"
    unfolding s'_def same_cache_def by (subst s1(5), simp add: s0_def)+
  have e: "extends s s'"
    unfolding extends_def f(4)
  proof (intro allI impI)
    fix a k assume k: "sk_heap s a = Some k"
    then have "a < b \<or> b + MEMINC \<le> a" using fresh[of a] by force
    then have "sk_heap s1 a = sk_heap s0 a" using s1(3) by blast
    then show "sk_heap s1 a = Some k" using e0 k by (simp add: extends_def)
  qed
  have sz: "key_sized k" if "sk_heap s' a = Some k" for a k
  proof (cases "b \<le> a \<and> a < b + MEMINC")
    case True
    then have "bare k = bare zero_key" using s1(4) that f(4) by auto
    then show ?thesis using bare_eqD[of k zero_key] by (simp add: key_sized_def zero_key_def)
  next
    case False
    then have "sk_heap s a = Some k" using s1(3) that f(4) by (auto simp: s0_def calloc_keys_def)
    then show ?thesis using r(4) by (simp add: sized_def)
  qed
  have rep: "auth_rep s' B (rev [b..<b + MEMINC] @ F)"
    unfolding auth_rep_def
  proof (intro conjI)
    show "buckets s' B" by (rule buckets_extend[OF r(1) e f(1)])
    show "free_list s' B (rev [b..<b + MEMINC] @ F)" using s1(2) r(2) out f(4,5) by (fastforce simp: free_list_def)
    show "counted s' B (rev [b..<b + MEMINC] @ F)" using r(3) f(2,3) by (simp add: counted_def)
    show "sized s'" using sz r(4) f(6) by (auto simp: sized_def same_cache_def)
  qed
  have "auth_moremem calloc s = Some (authnumfreekeys s', s')"
    by (simp add: auth_moremem_def assms(2) s0_def[symmetric] s1(1) s'_def)
  then show ?thesis
    by (rule that[OF _ rep _ e f(6)]) (simp_all add: MEMINC_def same_counts_def f)
qed

definition out_of_memory :: "allocator \<Rightarrow> auth_state \<Rightarrow> bool" where
  "out_of_memory calloc s \<longleftrightarrow> authnumfreekeys s = 0 \<and> calloc (sk_heap s) = None"

lemma take_free_rep:
  assumes "auth_rep s B F" "fresh_calloc calloc"
  obtains (no_memory) "take_free calloc s = Some (None, s)" "out_of_memory calloc s"
  | (taken) a k s' F' where "\<not> out_of_memory calloc s" "take_free calloc s = Some (Some a, s')" "outside a B F'" "sk_heap s' a = Some k" "buckets s' B"
      "free_list s' B F'" "sized s'" "authnumfreekeys s' = int (length F')" "authnumkeys s' = of_nat (key_count B)"
      "extends s s'" "same_cache s s'"
proof -
  have pop: thesis if r: "auth_rep s1 B F1" "F1 \<noteq> []" and e: "extends s s1" "same_cache s s1" and m: "\<not> out_of_memory calloc s"
    and t: "take_free calloc s = do { sk \<leftarrow> authfreekeys s1; k \<leftarrow> sk_heap s1 sk;
       Some (Some sk, s1\<lparr>authfreekeys := sk_next k, authnumfreekeys := authnumfreekeys s1 - 1\<rparr>) }" for s1 F1
  proof -
    obtain a F' where F1: "F1 = a # F'" using r(2) by (cases F1) auto
    have fl: "free_list s1 B (a # F')" using r(1) F1 by (simp add: auth_rep_def)
    then obtain k where k: "authfreekeys s1 = Some a" "sk_heap s1 a = Some k" "chain (sk_heap s1) (sk_next k) F'"
      by (auto simp: free_list_def)
    define s' where "s' = s1\<lparr>authfreekeys := sk_next k, authnumfreekeys := authnumfreekeys s1 - 1\<rparr>"
    show thesis
    proof (rule taken)
      show "\<not> out_of_memory calloc s" by (rule m)
      show "take_free calloc s = Some (Some a, s')" using t k by (simp add: s'_def)
      show "outside a B F'" "free_list s' B F'" using fl k(3) by (auto simp: outside_def free_list_def s'_def)
      show "sk_heap s' a = Some k" using k by (simp add: s'_def)
      show "buckets s' B" by (rule buckets_extend[of s1]) (use r(1) in \<open>simp_all add: auth_rep_def extends_def s'_def\<close>)
      show "sized s'" "authnumfreekeys s' = int (length F')" "authnumkeys s' = of_nat (key_count B)"
        using r(1) F1 by (simp_all add: auth_rep_def counted_def sized_def s'_def)
      show "extends s s'" "same_cache s s'" using e by (simp_all add: extends_def same_cache_def s'_def)
    qed
  qed
  have n: "authnumfreekeys s = int (length F)" using assms(1) by (simp add: auth_rep_def counted_def)
  show thesis
  proof (cases "F = []")
    case False
    then show ?thesis using n by (intro pop[OF assms(1)]) (simp_all add: extends_def same_cache_def take_free_def out_of_memory_def)
  next
    case True
    show ?thesis
    proof (cases "calloc (sk_heap s)")
      case None
      then show ?thesis using n True by (intro no_memory) (simp_all add: take_free_def auth_moremem_def out_of_memory_def)
    next
      case (Some b)
      obtain s1 F1 where m: "auth_moremem calloc s = Some (authnumfreekeys s1, s1)" "auth_rep s1 B F1" "F1 \<noteq> []"
        "extends s s1" "same_cache s s1"
        by (rule moremem_rep[OF assms(1) Some assms(2)])
      have "authnumfreekeys s1 \<noteq> 0" using m(2,3) by (simp add: auth_rep_def counted_def)
      then show ?thesis using n True m(1) Some by (intro pop[OF m(2-5)]) (simp_all add: take_free_def out_of_memory_def)
    qed
  qed
qed
section \<open>One key changes\<close>

text \<open>The states differ in one structure, which holds the key \<open>keyno\<close> wherever it is in a chain.\<close>

definition differ_at :: "nat \<Rightarrow> u32 \<Rightarrow> auth_state \<Rightarrow> (nat \<Rightarrow> nat list) \<Rightarrow> auth_state \<Rightarrow> (nat \<Rightarrow> nat list) \<Rightarrow> bool" where
  "differ_at sk keyno s B s' B' \<longleftrightarrow>
     (\<forall>i<HASHSIZE. \<forall>a. a \<noteq> sk \<longrightarrow> (a \<in> set (B' i) \<longleftrightarrow> a \<in> set (B i))) \<and>
     (\<forall>i<HASHSIZE. \<forall>a\<in>set (B i). a \<noteq> sk \<longrightarrow> map_option bare (sk_heap s' a) = map_option bare (sk_heap s a)) \<and>
     (\<forall>i<HASHSIZE. sk \<in> set (B i) \<longrightarrow> keyid_at s sk = Some keyno) \<and>
     (\<forall>i<HASHSIZE. sk \<in> set (B' i) \<longrightarrow> keyid_at s' sk = Some keyno)"

lemma differ_atD:
  assumes "differ_at sk keyno s B s' B'" "i < HASHSIZE"
  shows "a \<noteq> sk \<Longrightarrow> a \<in> set (B' i) \<longleftrightarrow> a \<in> set (B i)"
    "a \<in> set (B i) \<Longrightarrow> a \<noteq> sk \<Longrightarrow> sk_heap s a = Some k \<Longrightarrow> \<exists>k'. sk_heap s' a = Some k' \<and> bare k' = bare k"
    "a \<in> set (B i) \<Longrightarrow> a \<noteq> sk \<Longrightarrow> sk_heap s' a = Some k' \<Longrightarrow> \<exists>k. sk_heap s a = Some k \<and> bare k' = bare k"
    "sk \<in> set (B i) \<Longrightarrow> sk_heap s sk = Some k \<Longrightarrow> sk_keyid k = keyno"
    "sk \<in> set (B' i) \<Longrightarrow> sk_heap s' sk = Some k \<Longrightarrow> sk_keyid k = keyno"
proof -
  show "a \<noteq> sk \<Longrightarrow> a \<in> set (B' i) \<longleftrightarrow> a \<in> set (B i)" "sk \<in> set (B i) \<Longrightarrow> sk_heap s sk = Some k \<Longrightarrow> sk_keyid k = keyno"
    "sk \<in> set (B' i) \<Longrightarrow> sk_heap s' sk = Some k \<Longrightarrow> sk_keyid k = keyno"
    using assms by (auto simp: differ_at_def keyid_at_def)
  have e: "map_option bare (sk_heap s' a) = map_option bare (sk_heap s a)" if "a \<in> set (B i)" "a \<noteq> sk"
    using assms that by (auto simp: differ_at_def)
  show "\<exists>k'. sk_heap s' a = Some k' \<and> bare k' = bare k" if "a \<in> set (B i)" "a \<noteq> sk" "sk_heap s a = Some k"
    using e that by (auto simp: map_option_eq_Some)
  show "\<exists>k. sk_heap s a = Some k \<and> bare k' = bare k" if "a \<in> set (B i)" "a \<noteq> sk" "sk_heap s' a = Some k'"
    using e that by (cases "sk_heap s a") auto
qed

lemma key_of_other:
  assumes "buckets s B" "buckets s' B'" "differ_at sk keyno s B s' B'" "n \<noteq> keyno"
  shows "key_of s' n = key_of s n"
proof (rule findkey_cases[OF assms(1), of n])
  fix a k
  assume a: "a \<in> set (B (KEYHASH n))" "sk_heap s a = Some k" "sk_keyid k = n" "key_of s n = Some (bare k)"
  have ne: "a \<noteq> sk" using differ_atD(4)[OF assms(3) KEYHASH_less, of n] a assms(4) by auto
  obtain k' where k': "sk_heap s' a = Some k'" "bare k' = bare k" using differ_atD(2)[OF assms(3) KEYHASH_less a(1) ne a(2)] by auto
  have "a \<in> set (B' (KEYHASH n))" using differ_atD(1)[OF assms(3) KEYHASH_less ne] a(1) by simp
  then have "key_of s' n = Some (bare k')" unfolding key_of_iff[OF assms(2)] using k' a(3) bare_eqD by blast
  then show ?thesis using a(4) k'(2) by simp
next
  assume m: "key_of s n = None" "\<And>a k. a \<in> set (B (KEYHASH n)) \<Longrightarrow> sk_heap s a = Some k \<Longrightarrow> sk_keyid k \<noteq> n"
  have "key_of s' n \<noteq> Some e" for e
  proof
    assume "key_of s' n = Some e"
    then obtain a k' where a: "a \<in> set (B' (KEYHASH n))" "sk_heap s' a = Some k'" "sk_keyid k' = n"
      unfolding key_of_iff[OF assms(2)] by blast
    have ne: "a \<noteq> sk" using differ_atD(5)[OF assms(3) KEYHASH_less, of n] a assms(4) by auto
    then have "a \<in> set (B (KEYHASH n))" using differ_atD(1)[OF assms(3) KEYHASH_less ne] a(1) by simp
    then show False using differ_atD(3)[OF assms(3) KEYHASH_less _ ne a(2)] m(2) a(3) bare_eqD by metis
  qed
  then show ?thesis using m(1) by (cases "key_of s' n") auto
qed

lemma key_of_put:
  assumes "buckets s B" "buckets s' B'" "differ_at sk keyno s B s' B'" "sk \<in> set (B' (KEYHASH keyno))" "sk_heap s' sk = Some k"
  shows "key_of s' = (key_of s)(keyno \<mapsto> bare k)"
proof
  fix n
  have "key_of s' keyno = Some (bare k)"
    unfolding key_of_iff[OF assms(2)] using assms(4,5) differ_atD(5)[OF assms(3) KEYHASH_less assms(4,5)] by blast
  then show "key_of s' n = ((key_of s)(keyno \<mapsto> bare k)) n" using key_of_other[OF assms(1-3), of n] by auto
qed

lemma key_of_delete:
  assumes "buckets s B" "buckets s' B'" "differ_at sk keyno s B s' B'" "sk \<in> set (B (KEYHASH keyno))" "\<And>i. i < HASHSIZE \<Longrightarrow> sk \<notin> set (B' i)"
  shows "key_of s' = (key_of s)(keyno := None)"
proof
  fix n
  have "key_of s' keyno \<noteq> Some e" for e
  proof
    assume "key_of s' keyno = Some e"
    then obtain a k' where a: "a \<in> set (B' (KEYHASH keyno))" "sk_heap s' a = Some k'" "sk_keyid k' = keyno"
      unfolding key_of_iff[OF assms(2)] by blast
    have ne: "a \<noteq> sk" using assms(5)[OF KEYHASH_less] a(1) by auto
    have aB: "a \<in> set (B (KEYHASH keyno))" using differ_atD(1)[OF assms(3) KEYHASH_less ne] a(1) by simp
    obtain ka where ka: "sk_heap s a = Some ka" "sk_keyid ka = keyno"
      using differ_atD(3)[OF assms(3) KEYHASH_less aB ne a(2)] a(3) bare_eqD by metis
    obtain kb where kb: "sk_heap s sk = Some kb" "sk_keyid kb = keyno"
      using bucketsD(4)[OF assms(1) KEYHASH_less assms(4)] differ_atD(4)[OF assms(3) KEYHASH_less assms(4)] by auto
    show False using findkey_found[OF assms(1) aB ka] findkey_found[OF assms(1,4) kb] ne by simp
  qed
  then have "key_of s' keyno = None" by (cases "key_of s' keyno") auto
  then show "key_of s' n = ((key_of s)(keyno := None)) n" using key_of_other[OF assms(1-3), of n] by auto
qed

lemma cache_ok_other:
  assumes "cache_ok s B" "differ_at sk keyno s B s' B'" "same_cache s s'" "cache_keyid s = 0 \<or> cache_keyid s \<noteq> keyno"
  shows "cache_ok s' B'"
proof (cases "cache_keyid s = 0")
  case True
  then show ?thesis using assms(1,3) by (simp add: cache_ok_def same_cache_def)
next
  case False
  then obtain a k where a: "a \<in> set (B (KEYHASH (cache_keyid s)))" "sk_heap s a = Some k" "sk_keyid k = cache_keyid s"
    "cache_key s = Some a" "cache_type s = sk_type k" "sk_type k \<noteq> 0" "cache_flags s = sk_flags k" "sk_flags k AND KEY_TRUSTED \<noteq> 0"
    using assms(1) unfolding cache_ok_def by blast
  have ne: "a \<noteq> sk" using differ_atD(4)[OF assms(2) KEYHASH_less, of "cache_keyid s" k] a(1-3) assms(4) False by auto
  obtain k' where k': "sk_heap s' a = Some k'" "bare k' = bare k" using differ_atD(2)[OF assms(2) KEYHASH_less a(1) ne a(2)] by auto
  have "a \<in> set (B' (KEYHASH (cache_keyid s)))" using differ_atD(1)[OF assms(2) KEYHASH_less ne] a(1) by simp
  then show ?thesis using False a k' bare_eqD[OF k'(2)] assms(3) by (auto simp: cache_ok_def same_cache_def)
qed
section \<open>Trusting and setting a key\<close>

lemma drop_cached_rep:
  assumes "auth_rep s B F" "cache_ok s B"
  shows "auth_rep (drop_cached keyno s) B F" "cache_ok (drop_cached keyno s) B" "sk_heap (drop_cached keyno s) = sk_heap s"
    "key_of (drop_cached keyno s) = key_of s" "cache_keyid (drop_cached keyno s) = 0 \<or> cache_keyid (drop_cached keyno s) \<noteq> keyno"
    "same_counts s (drop_cached keyno s)"
proof -
  define s' where "s' = drop_cached keyno s"
  have f: "sk_heap s' = sk_heap s" "key_hash s' = key_hash s" "authfreekeys s' = authfreekeys s"
    "authnumkeys s' = authnumkeys s" "authnumfreekeys s' = authnumfreekeys s" "cache_keylen s' = cache_keylen s"
    by (simp_all add: s'_def drop_cached_def)
  have "keyid_at s' = keyid_at s" by (simp add: keyid_at_def f fun_eq_iff)
  then show "auth_rep (drop_cached keyno s) B F"
    using assms(1) unfolding s'_def[symmetric] auth_rep_def buckets_def free_list_def counted_def sized_def by (simp add: f)
  show "cache_ok (drop_cached keyno s) B" using assms(2) by (simp add: cache_ok_def drop_cached_def)
  show "key_of (drop_cached keyno s) = key_of s"
    unfolding s'_def[symmetric] fun_eq_iff key_of_def auth_findkey_def f by simp
  show "sk_heap (drop_cached keyno s) = sk_heap s" "same_counts s (drop_cached keyno s)"
    using f by (simp_all add: s'_def same_counts_def)
  show "cache_keyid (drop_cached keyno s) = 0 \<or> cache_keyid (drop_cached keyno s) \<noteq> keyno" by (simp add: drop_cached_def)
qed

lemma update_one:
  assumes "auth_rep s B F" "cache_ok s B" "cache_keyid s = 0 \<or> cache_keyid s \<noteq> keyno"
    "a \<in> set (B (KEYHASH keyno))" "sk_heap s a = Some k" "sk_keyid k = keyno"
    "sk_next (f k) = sk_next k" "sk_keyid (f k) = keyno" "key_sized (f k)"
  obtains s' where "update_key a f s = Some s'" "auth_rep s' B F" "cache_ok s' B" "key_of s' = (key_of s)(keyno \<mapsto> bare (f k))"
    "cache_keyid s' = cache_keyid s" "same_cache s s'"
proof -
  define s' where "s' = s\<lparr>sk_heap := (sk_heap s)(a \<mapsto> f k)\<rparr>"
  have r: "auth_rep s' B F" unfolding s'_def by (rule update_key_rep) (use assms in simp_all)
  have d: "differ_at a keyno s B s' B" using assms(5,6,8) by (auto simp: differ_at_def s'_def keyid_at_def)
  have c: "same_cache s s'" by (simp add: same_cache_def s'_def)
  have "key_of s' = (key_of s)(keyno \<mapsto> bare (f k))"
    by (rule key_of_put[OF _ _ d]) (use assms(1,4) r in \<open>simp_all add: auth_rep_def s'_def\<close>)
  then show ?thesis
    using that[OF _ r cache_ok_other[OF assms(2) d c assms(3)] _ _ c] update_key_Some[OF assms(5), of f] by (simp add: s'_def)
qed

lemma unlink_one:
  assumes "auth_rep s B F" "cache_ok s B" "cache_keyid s = 0 \<or> cache_keyid s \<noteq> keyno"
    "B (KEYHASH keyno) = xs @ a # ys" "sk_heap s a = Some k" "sk_keyid k = keyno"
  obtains s' where "unlink_key keyno a s = Some s'" "auth_rep s' (B(KEYHASH keyno := xs @ ys)) (a # F)"
    "cache_ok s' (B(KEYHASH keyno := xs @ ys))" "key_of s' = (key_of s)(keyno := None)" "same_cache s s'"
    "\<And>b. b \<noteq> a \<Longrightarrow> map_option bare (sk_heap s' b) = map_option bare (sk_heap s b)"
    "map_option sk_lifetime (sk_heap s' a) = Some (sk_lifetime k)"
proof -
  let ?B = "B(KEYHASH keyno := xs @ ys)"
  obtain s' where s': "unlink_key keyno a s = Some s'" "auth_rep s' ?B (a # F)" "same_cache s s'"
    "\<And>b. b \<noteq> a \<Longrightarrow> map_option bare (sk_heap s' b) = map_option bare (sk_heap s b)"
    "map_option sk_lifetime (sk_heap s' a) = Some (sk_lifetime k)"
    by (rule unlink_key_rep[OF assms(1,4,5)]) blast
  have b: "buckets s B" "buckets s' ?B" using assms(1) s'(2) by (simp_all add: auth_rep_def)
  have n: "a \<notin> set (?B i)" if "i < HASHSIZE" for i using s'(2) that by (auto simp: auth_rep_def free_list_def)
  have "differ_at a keyno s B s' ?B"
    unfolding differ_at_def
  proof (intro conjI allI impI ballI)
    show "b \<in> set (?B i) \<longleftrightarrow> b \<in> set (B i)" if "b \<noteq> a" for i b using that assms(4) by auto
    show "keyid_at s a = Some keyno" using assms(5,6) by (simp add: keyid_at_def)
    show "keyid_at s' a = Some keyno" if "i < HASHSIZE" "a \<in> set (?B i)" for i using n that by blast
  qed (use s'(4) in simp_all)
  note d = this
  have "key_of s' = (key_of s)(keyno := None)" by (rule key_of_delete[OF b d _ n]) (use assms(4) in simp_all)
  then show ?thesis using that[OF s'(1,2) cache_ok_other[OF assms(2) d s'(3) assms(3)] _ s'(3,4,5)] by blast
qed

lemma put_one:
  assumes "outside a B F" "sk_heap s a = Some k" "buckets s B" "free_list s B F" "sized s" "authnumfreekeys s = int (length F)"
    "authnumkeys s = of_nat (key_count B)" "cache_ok s B" "key_of s keyno = None" "sk_keyid (f k) = keyno" "key_sized (f k)"
  obtains s' where "put_key a keyno f s = Some s'" "auth_rep s' (B(KEYHASH keyno := a # B (KEYHASH keyno))) F"
    "cache_ok s' (B(KEYHASH keyno := a # B (KEYHASH keyno)))" "key_of s' = (key_of s)(keyno \<mapsto> bare (f k))"
proof -
  define i where "i = KEYHASH keyno"
  let ?B = "B(i := a # B i)"
  define s' where "s' = s\<lparr>sk_heap := (sk_heap s)(a \<mapsto> (f k)\<lparr>sk_next := key_hash s i\<rparr>),
      key_hash := (key_hash s)(i := Some a), authnumkeys := authnumkeys s + 1\<rparr>"
  have p: "put_key a keyno f s = Some s'" using assms(2) by (simp add: put_key_def update_key_def s'_def i_def)
  have i: "i < HASHSIZE" by (simp add: i_def)
  have o: "a \<notin> set (B j)" if "j < HASHSIZE" for j using assms(1) that by (simp add: outside_def)
  have e: "keyid_at s' b = keyid_at s b" if "b \<noteq> a" for b using that by (simp add: keyid_at_def s'_def)
  have ea: "keyid_at s' a = Some keyno" using assms(10) by (simp add: keyid_at_def s'_def)
  have ch: "chain (sk_heap s') (key_hash s j) (B j)" if "j < HASHSIZE" for j
    using bucketsD(1)[OF assms(3) that] o[OF that] chain_other by (simp add: s'_def)
  have km: "map (keyid_at s') (B j) = map (keyid_at s) (B j)" if "j < HASHSIZE" for j
  proof (rule map_cong[OF refl])
    fix x assume "x \<in> set (B j)"
    then show "keyid_at s' x = keyid_at s x" using o[OF that] e[of x] by auto
  qed
  have new: "Some keyno \<notin> keyid_at s ` set (B i)"
  proof
    assume "Some keyno \<in> keyid_at s ` set (B i)"
    then obtain b kb where "b \<in> set (B (KEYHASH keyno))" "sk_heap s b = Some kb" "sk_keyid kb = keyno"
      by (auto simp: keyid_at_def i_def dest!: sym[of "Some keyno"])
    then have "key_of s keyno = Some (bare kb)" unfolding key_of_iff[OF assms(3)] by blast
    then show False using assms(9) by simp
  qed
  have b: "buckets s' ?B" unfolding buckets_def
  proof (intro allI impI)
    fix j assume j: "j < HASHSIZE"
    have "distinct (map (keyid_at s') (B j))" unfolding km[OF j] by (rule bucketsD(2)[OF assms(3) j])
    moreover have "\<exists>k. keyid_at s' b = Some k \<and> KEYHASH k = j" if "b \<in> set (B j)" for b
    proof -
      have "b \<noteq> a" using o[OF j] that by auto
      then show ?thesis using bucketsD(4)[OF assms(3) j that] e[of b] by (auto simp: keyid_at_def)
    qed
    ultimately have old: "\<forall>b\<in>set (B j). \<exists>k. keyid_at s' b = Some k \<and> KEYHASH k = j" "distinct (map (keyid_at s') (B j))" by auto
    show "chain (sk_heap s') (key_hash s' j) (?B j) \<and> (\<forall>a\<in>set (?B j). \<exists>k. keyid_at s' a = Some k \<and> KEYHASH k = j) \<and>
        distinct (map (keyid_at s') (?B j))"
    proof (cases "j = i")
      case True
      have "Some keyno \<notin> set (map (keyid_at s') (B i))" unfolding km[OF i] using new by simp
      then show ?thesis using True old ch[OF i] ea by (simp add: s'_def i_def)
    next
      case False
      then show ?thesis using old ch[OF j] by (simp add: s'_def)
    qed
  qed
  have f: "free_list s' ?B F"
    using assms(1,4) chain_other[of "sk_heap s" "authfreekeys s" F a] by (auto simp: free_list_def outside_def s'_def)
  have "key_count ?B = key_count B + 1" using key_count_upd[OF i, of B "a # B i"] by simp
  then have "counted s' ?B F" using assms(6,7) by (simp add: counted_def s'_def)
  moreover have "sized s'" using assms(5,11) by (auto simp: sized_def s'_def key_sized_def)
  ultimately have r: "auth_rep s' ?B F" using b f by (simp add: auth_rep_def)
  have d: "differ_at a keyno s B s' ?B" using o ea by (auto simp: differ_at_def s'_def)
  have "key_of s' = (key_of s)(keyno \<mapsto> bare (f k))"
    using key_of_put[OF assms(3) b d, of "(f k)\<lparr>sk_next := key_hash s i\<rparr>"] by (simp add: i_def s'_def)
  moreover have "cache_keyid s = 0 \<or> cache_keyid s \<noteq> keyno"
    using assms(8,9) key_of_iff[OF assms(3), of keyno] unfolding cache_ok_def by (metis option.distinct(1))
  then have "cache_ok s' ?B" by (intro cache_ok_other[OF assms(8) d]) (simp_all add: same_cache_def s'_def)
  ultimately show ?thesis using that[OF p] r by (simp add: i_def)
qed
text \<open>
  What an operation does to the map of keys. A key that is not there yet needs a structure, so nothing
  happens when memory has run out; the fields that the code does not set are those of the structure.
\<close>

definition trust_spec :: "bool \<Rightarrow> u64 \<Rightarrow> u32 \<Rightarrow> u64 \<Rightarrow> (u32 \<rightharpoonup> savekey) \<Rightarrow> (u32 \<rightharpoonup> savekey) \<Rightarrow> bool" where
  "trust_spec full now keyno trust m m' \<longleftrightarrow> (case m keyno of
     Some k \<Rightarrow> m' = (if trust > 0 then m(keyno \<mapsto> k\<lparr>sk_flags := sk_flags k OR KEY_TRUSTED,
         sk_lifetime := (if trust > 1 then now + trust else 0)\<rparr>) else m(keyno := None))
   | None \<Rightarrow> if trust = 0 \<or> full then m' = m
       else \<exists>k. sk_keyid k = keyno \<and> sk_type k = 0 \<and> sk_keylen k = 0 \<and> sk_flags k = KEY_TRUSTED \<and> m' = m(keyno \<mapsto> k))"

definition usable_len :: "int \<Rightarrow> nat" where
  "usable_len len = (if 0 \<le> len \<and> len < 64 then nat len else 64)"

definition setkey_spec :: "bool \<Rightarrow> u32 \<Rightarrow> int \<Rightarrow> u8 list \<Rightarrow> nat \<Rightarrow> (u32 \<rightharpoonup> savekey) \<Rightarrow> (u32 \<rightharpoonup> savekey) \<Rightarrow> bool" where
  "setkey_spec full keyno keytype key n m m' \<longleftrightarrow> (case m keyno of
     Some k \<Rightarrow> m' = m(keyno \<mapsto> k\<lparr>sk_type := keytype, sk_keylen := int n, sk_key := take n key @ drop n (sk_key k)\<rparr>)
   | None \<Rightarrow> if full then m' = m
       else \<exists>k. sk_keyid k = keyno \<and> sk_type k = keytype \<and> sk_flags k = 0 \<and> sk_lifetime k = 0 \<and>
         sk_keylen k = int n \<and> take n (sk_key k) = take n key \<and> m' = m(keyno \<mapsto> k))"

lemma authtrust_delete:
  assumes "auth_rep s B F" "cache_ok s B" "B (KEYHASH keyno) = xs @ a # ys" "sk_heap s a = Some k" "sk_keyid k = keyno"
  obtains s' where "authtrust calloc now keyno 0 s = Some s'" "auth_rep s' (B(KEYHASH keyno := xs @ ys)) (a # F)"
    "cache_ok s' (B(KEYHASH keyno := xs @ ys))" "key_of s' = (key_of s)(keyno := None)"
    "\<And>b. b \<noteq> a \<Longrightarrow> map_option bare (sk_heap s' b) = map_option bare (sk_heap s b)"
    "map_option sk_lifetime (sk_heap s' a) = Some (sk_lifetime k)"
proof -
  note d = drop_cached_rep[OF assms(1,2), of keyno]
  have b: "buckets s B" using assms(1) by (simp add: auth_rep_def)
  have f: "auth_findkey keyno s = Some (Some a)" using findkey_found[OF b _ assms(4,5)] assms(3) by simp
  have h: "sk_heap (drop_cached keyno s) a = Some k" using assms(4) d(3) by simp
  obtain s' where s': "unlink_key keyno a (drop_cached keyno s) = Some s'" "auth_rep s' (B(KEYHASH keyno := xs @ ys)) (a # F)"
    "cache_ok s' (B(KEYHASH keyno := xs @ ys))" "key_of s' = (key_of (drop_cached keyno s))(keyno := None)"
    "\<And>b. b \<noteq> a \<Longrightarrow> map_option bare (sk_heap s' b) = map_option bare (sk_heap (drop_cached keyno s) b)"
    "map_option sk_lifetime (sk_heap s' a) = Some (sk_lifetime k)"
    by (rule unlink_one[OF d(1,2,5) assms(3) h assms(5)]) blast
  show ?thesis by (rule that[OF _ s'(2,3)]) (use f s' d in \<open>simp_all add: authtrust_def Let_def\<close>)
qed

lemma authtrust_correct:
  assumes "auth_ok s" "fresh_calloc calloc"
  shows "\<exists>s'. authtrust calloc now keyno trust s = Some s' \<and> auth_ok s' \<and> trust_spec (out_of_memory calloc s) now keyno trust (key_of s) (key_of s')"
proof -
  obtain B F where r: "auth_rep s B F" "cache_ok s B" using assms(1) by (auto simp: auth_ok_def)
  have b: "buckets s B" using r(1) by (simp add: auth_rep_def)
  show ?thesis
  proof (rule findkey_cases[OF b, of keyno])
    fix a k
    assume a: "auth_findkey keyno s = Some (Some a)" "a \<in> set (B (KEYHASH keyno))" "sk_heap s a = Some k" "sk_keyid k = keyno"
      "key_of s keyno = Some (bare k)"
    show ?thesis
    proof (cases "trust = 0")
      case True
      obtain xs ys where "B (KEYHASH keyno) = xs @ a # ys" using a(2) split_list by metis
      then show ?thesis
        by (rule authtrust_delete[OF r _ a(3,4), of xs ys calloc now])
           (use True a(5) in \<open>auto simp: auth_ok_def trust_spec_def\<close>)
    next
      case False
      then have pos: "trust > 0" by (simp add: word_neq_0_conv)
      note d = drop_cached_rep[OF r, of keyno]
      define f :: "savekey \<Rightarrow> savekey" where "f = (\<lambda>k. k\<lparr>sk_flags := sk_flags k OR KEY_TRUSTED, sk_lifetime := (if trust > 1 then now + trust else 0)\<rparr>)"
      have h: "sk_heap (drop_cached keyno s) a = Some k" using a(3) d(3) by simp
      have "key_sized k" using r(1) a(3) by (auto simp: auth_rep_def sized_def)
      then have z: "sk_next (f k) = sk_next k" "sk_keyid (f k) = keyno" "key_sized (f k)"
        using a(4) by (simp_all add: f_def key_sized_def)
      obtain s' where s': "update_key a f (drop_cached keyno s) = Some s'" "auth_rep s' B F" "cache_ok s' B"
        "key_of s' = (key_of (drop_cached keyno s))(keyno \<mapsto> bare (f k))"
        by (rule update_one[where f = f, OF d(1,2,5) a(2) h a(4) z])
      have "authtrust calloc now keyno trust s = Some s'"
        using a(1) pos s'(1) by (simp add: authtrust_def Let_def f_def)
      moreover have "trust_spec (out_of_memory calloc s) now keyno trust (key_of s) (key_of s')"
        using s'(4) d(4) a(5) pos by (cases k) (simp add: trust_spec_def f_def bare_def)
      ultimately show ?thesis using s'(2,3) by (auto simp: auth_ok_def)
    qed
  next
    assume m: "auth_findkey keyno s = Some None" "key_of s keyno = None"
    show ?thesis
    proof (cases "trust = 0")
      case True
      then show ?thesis using m assms(1) by (simp add: authtrust_def trust_spec_def)
    next
      case False
      then have pos: "trust > 0" by (simp add: word_neq_0_conv)
      show ?thesis
      proof (rule take_free_rep[OF r(1) assms(2)])
        assume "take_free calloc s = Some (None, s)" "out_of_memory calloc s"
        then show ?thesis using m False assms(1) by (simp add: authtrust_def trust_spec_def)
      next
        fix a k s1 F'
        assume full: "\<not> out_of_memory calloc s"
          and t: "take_free calloc s = Some (Some a, s1)" "outside a B F'" "sk_heap s1 a = Some k" "buckets s1 B"
          "free_list s1 B F'" "sized s1" "authnumfreekeys s1 = int (length F')" "authnumkeys s1 = of_nat (key_count B)"
          "extends s s1" "same_cache s s1"
        define f :: "savekey \<Rightarrow> savekey" where "f = (\<lambda>k. k\<lparr>sk_keyid := keyno, sk_type := 0, sk_keylen := 0, sk_flags := KEY_TRUSTED\<rparr>)"
        have c: "cache_ok s1 B" using r(2) t(9,10) unfolding cache_ok_def same_cache_def extends_def by metis
        have k1: "key_of s1 = key_of s" by (rule key_of_extends[OF b t(4,9)])
        have z: "sk_keyid (f k) = keyno" "key_sized (f k)" using t(3,6) by (auto simp: f_def sized_def key_sized_def)
        obtain s' where s': "put_key a keyno f s1 = Some s'" "auth_rep s' (B(KEYHASH keyno := a # B (KEYHASH keyno))) F'"
          "cache_ok s' (B(KEYHASH keyno := a # B (KEYHASH keyno)))" "key_of s' = (key_of s1)(keyno \<mapsto> bare (f k))"
          by (rule put_one[where f = f, OF t(2-8) c _ z]) (use k1 m(2) in simp)
        have "authtrust calloc now keyno trust s = Some s'"
          using m(1) False t(1) s'(1) by (simp add: authtrust_def f_def)
        moreover have "trust_spec (out_of_memory calloc s) now keyno trust (key_of s) (key_of s')"
          using s'(4) k1 m(2) pos full by (auto simp: trust_spec_def f_def intro!: exI[of _ "bare (f k)"])
        ultimately show ?thesis using s'(2,3) by (auto simp: auth_ok_def)
      qed
    qed
  qed
qed
lemma set_bytes_Some:
  assumes "key_sized k" "usable_len len \<le> length key"
  shows "set_bytes len key k = Some (k\<lparr>sk_keylen := int (usable_len len), sk_key := take (usable_len len) key @ drop (usable_len len) (sk_key k)\<rparr>)"
    "key_sized (k\<lparr>sk_keylen := int (usable_len len), sk_key := take (usable_len len) key @ drop (usable_len len) (sk_key k)\<rparr>)"
proof -
  have "usable_len len \<le> 64" by (auto simp: usable_len_def)
  then show "set_bytes len key k = Some (k\<lparr>sk_keylen := int (usable_len len), sk_key := take (usable_len len) key @ drop (usable_len len) (sk_key k)\<rparr>)"
    "key_sized (k\<lparr>sk_keylen := int (usable_len len), sk_key := take (usable_len len) key @ drop (usable_len len) (sk_key k)\<rparr>)"
    using assms by (simp_all add: set_bytes_def Let_def key_sized_def flip: usable_len_def)
qed

lemma MD5auth_setkey_correct:
  assumes "auth_ok s" "fresh_calloc calloc" "usable_len len \<le> length key"
  shows "\<exists>s'. MD5auth_setkey calloc keyno keytype key len s = Some s' \<and> auth_ok s' \<and>
    setkey_spec (out_of_memory calloc s) keyno keytype key (usable_len len) (key_of s) (key_of s')"
proof -
  obtain B F where r: "auth_rep s B F" "cache_ok s B" using assms(1) by (auto simp: auth_ok_def)
  have b: "buckets s B" using r(1) by (simp add: auth_rep_def)
  define n where "n = usable_len len"
  show ?thesis
  proof (rule findkey_cases[OF b, of keyno])
    fix a k
    assume a: "auth_findkey keyno s = Some (Some a)" "a \<in> set (B (KEYHASH keyno))" "sk_heap s a = Some k" "sk_keyid k = keyno"
      "key_of s keyno = Some (bare k)"
    note d = drop_cached_rep[OF r, of keyno]
    have h: "sk_heap (drop_cached keyno s) a = Some k" using a(3) d(3) by simp
    have ks: "key_sized (k\<lparr>sk_type := keytype\<rparr>)" using r(1) a(3) by (auto simp: auth_rep_def sized_def key_sized_def)
    define k' where "k' = (k\<lparr>sk_type := keytype\<rparr>)\<lparr>sk_keylen := int n, sk_key := take n key @ drop n (sk_key k)\<rparr>"
    have sb: "set_bytes len key (k\<lparr>sk_type := keytype\<rparr>) = Some k'" "key_sized k'"
      using set_bytes_Some[OF ks assms(3)] by (simp_all add: k'_def n_def)
    have z: "sk_next k' = sk_next k" "sk_keyid k' = keyno" using a(4) by (simp_all add: k'_def)
    obtain s' where s': "update_key a (\<lambda>_. k') (drop_cached keyno s) = Some s'" "auth_rep s' B F" "cache_ok s' B"
      "key_of s' = (key_of (drop_cached keyno s))(keyno \<mapsto> bare k')"
      by (rule update_one[where f = "\<lambda>_. k'", OF d(1,2,5) a(2) h a(4) z sb(2)])
    have "s' = (drop_cached keyno s)\<lparr>sk_heap := (sk_heap s)(a \<mapsto> k')\<rparr>" using s'(1) h d(3) by (simp add: update_key_def)
    then have "drop_cached keyno (s\<lparr>sk_heap := (sk_heap s)(a \<mapsto> k')\<rparr>) = s'" by (simp add: drop_cached_def)
    then have "MD5auth_setkey calloc keyno keytype key len s = Some s'"
      using a(1,3) sb(1) by (simp add: MD5auth_setkey_def update_key_def)
    moreover have "setkey_spec (out_of_memory calloc s) keyno keytype key n (key_of s) (key_of s')"
    proof -
      have "bare k' = (bare k)\<lparr>sk_type := keytype, sk_keylen := int n, sk_key := take n key @ drop n (sk_key k)\<rparr>"
        by (cases k) (simp add: k'_def bare_def)
      then show ?thesis using s'(4) d(4) a(5) by (simp add: setkey_spec_def)
    qed
    ultimately show ?thesis using s'(2,3) by (auto simp: auth_ok_def n_def)
  next
    assume m: "auth_findkey keyno s = Some None" "key_of s keyno = None"
    show ?thesis
    proof (rule take_free_rep[OF r(1) assms(2)])
      assume "take_free calloc s = Some (None, s)" "out_of_memory calloc s"
      then show ?thesis using m assms(1) by (simp add: MD5auth_setkey_def setkey_spec_def)
    next
      fix a k s1 F'
      assume full: "\<not> out_of_memory calloc s"
        and t: "take_free calloc s = Some (Some a, s1)" "outside a B F'" "sk_heap s1 a = Some k" "buckets s1 B"
        "free_list s1 B F'" "sized s1" "authnumfreekeys s1 = int (length F')" "authnumkeys s1 = of_nat (key_count B)"
        "extends s s1" "same_cache s s1"
      define k0 where "k0 = k\<lparr>sk_keyid := keyno, sk_type := keytype, sk_flags := 0, sk_lifetime := 0\<rparr>"
      have ks: "key_sized k0" using t(3,6) by (auto simp: k0_def sized_def key_sized_def)
      define k' where "k' = k0\<lparr>sk_keylen := int n, sk_key := take n key @ drop n (sk_key k0)\<rparr>"
      have sb: "set_bytes len key k0 = Some k'" "key_sized k'" using set_bytes_Some[OF ks assms(3)] by (simp_all add: k'_def n_def)
      have c: "cache_ok s1 B" using r(2) t(9,10) unfolding cache_ok_def same_cache_def extends_def by metis
      have k1: "key_of s1 = key_of s" by (rule key_of_extends[OF b t(4,9)])
      have z: "sk_keyid k' = keyno" by (simp add: k'_def k0_def)
      have none: "key_of s1 keyno = None" using k1 m(2) by simp
      obtain s' where s': "put_key a keyno (\<lambda>_. k') s1 = Some s'" "auth_rep s' (B(KEYHASH keyno := a # B (KEYHASH keyno))) F'"
        "cache_ok s' (B(KEYHASH keyno := a # B (KEYHASH keyno)))" "key_of s' = (key_of s1)(keyno \<mapsto> bare k')"
        by (rule put_one[where f = "\<lambda>_. k'", OF t(2-8) c none z sb(2)])
      have "MD5auth_setkey calloc keyno keytype key len s = Some s'"
        using m(1) t(1,3) s'(1) sb(1) by (simp add: MD5auth_setkey_def k0_def)
      moreover have "n \<le> length key" using assms(3) by (simp add: n_def)
      then have "setkey_spec (out_of_memory calloc s) keyno keytype key n (key_of s) (key_of s')"
        using s'(4) k1 m(2) full by (auto simp: setkey_spec_def k'_def k0_def intro!: exI[of _ "bare k'"])
      ultimately show ?thesis using s'(2,3) by (auto simp: auth_ok_def n_def)
    qed
  qed
qed

section \<open>Looking a key up\<close>

text \<open>A number can be used when it is 0 or the number of a trusted key with a type.\<close>

definition usable :: "(u32 \<rightharpoonup> savekey) \<Rightarrow> u32 \<Rightarrow> bool" where
  "usable m keyno \<longleftrightarrow> (case m keyno of None \<Rightarrow> False | Some k \<Rightarrow> sk_type k \<noteq> 0 \<and> sk_flags k AND KEY_TRUSTED \<noteq> 0)"

text \<open>What the cache holds.\<close>

lemma cached_key:
  assumes "auth_ok s" "cache_keyid s \<noteq> 0"
  obtains a k where "cache_key s = Some a" "sk_heap s a = Some k" "key_of s (cache_keyid s) = Some (bare k)"
    "cache_type s = sk_type k" "length (sk_key k) = 64" "cache_keylen s \<le> 64"
proof -
  obtain B F where r: "auth_rep s B F" "cache_ok s B" using assms(1) by (auto simp: auth_ok_def)
  have b: "buckets s B" using r(1) by (simp add: auth_rep_def)
  obtain a k where a: "a \<in> set (B (KEYHASH (cache_keyid s)))" "sk_heap s a = Some k" "sk_keyid k = cache_keyid s"
    "cache_key s = Some a" "cache_type s = sk_type k"
    using r(2) assms(2) unfolding cache_ok_def by blast
  have "key_of s (cache_keyid s) = Some (bare k)" unfolding key_of_iff[OF b] using a by blast
  moreover have "length (sk_key k) = 64" "cache_keylen s \<le> 64" using r(1) a(2) by (auto simp: auth_rep_def sized_def key_sized_def)
  ultimately show ?thesis using that a by blast
qed

lemma cached_usable:
  assumes "buckets s B" "cache_ok s B" "cache_keyid s \<noteq> 0"
  shows "usable (key_of s) (cache_keyid s)" "auth_findkey (cache_keyid s) s = Some (cache_key s)"
proof -
  obtain a k where a: "a \<in> set (B (KEYHASH (cache_keyid s)))" "sk_heap s a = Some k" "sk_keyid k = cache_keyid s"
    "cache_key s = Some a" "sk_type k \<noteq> 0" "sk_flags k AND KEY_TRUSTED \<noteq> 0"
    using assms(2,3) unfolding cache_ok_def by blast
  then show "auth_findkey (cache_keyid s) s = Some (cache_key s)" using findkey_found[OF assms(1) a(1-3)] by simp
  have "key_of s (cache_keyid s) = Some (bare k)" unfolding key_of_iff[OF assms(1)] using a by blast
  then show "usable (key_of s) (cache_keyid s)" using a by (simp add: usable_def)
qed

definition same_store :: "auth_state \<Rightarrow> auth_state \<Rightarrow> bool" where
  "same_store s s' \<longleftrightarrow> sk_heap s' = sk_heap s \<and> key_hash s' = key_hash s \<and> authnumkeys s' = authnumkeys s \<and>
     authfreekeys s' = authfreekeys s \<and> authnumfreekeys s' = authnumfreekeys s"

lemma same_store_rep:
  assumes "same_store s s'" "auth_rep s B F" "cache_keylen s' \<le> 64"
  shows "auth_rep s' B F" "key_of s' = key_of s" "auth_findkey n s' = auth_findkey n s"
proof -
  note f = assms(1)[unfolded same_store_def]
  have "keyid_at s' = keyid_at s" using f by (simp add: keyid_at_def fun_eq_iff)
  then show "auth_rep s' B F"
    using assms(2,3) f unfolding auth_rep_def buckets_def free_list_def counted_def sized_def by simp
  show e: "auth_findkey n s' = auth_findkey n s" for n using f by (simp add: auth_findkey_def)
  have h: "sk_heap s' = sk_heap s" using f by simp
  show "key_of s' = key_of s" unfolding fun_eq_iff key_of_def e h by simp
qed

lemma same_store_ok:
  assumes "auth_rep s B F" "cache_ok s B" "same_store s s'" "same_cache s s'"
  shows "auth_ok s' \<and> key_of s' = key_of s"
proof -
  have "cache_keylen s' \<le> 64" using assms(1,4) by (simp add: auth_rep_def sized_def same_cache_def)
  then have "auth_rep s' B F" "key_of s' = key_of s" using same_store_rep[OF assms(3,1)] by simp_all
  moreover have "cache_ok s' B" using assms(2-4) by (simp add: cache_ok_def same_cache_def same_store_def)
  ultimately show ?thesis by (auto simp: auth_ok_def)
qed

lemma authhavekey_correct:
  assumes "auth_ok s"
  shows "\<exists>s'. authhavekey keyno s = Some (keyno = 0 \<or> usable (key_of s) keyno, s') \<and> auth_ok s' \<and> key_of s' = key_of s \<and>
    (keyno \<noteq> 0 \<and> usable (key_of s) keyno \<longrightarrow> cache_keyid s' = keyno \<and>
       cache_keylen s' = (if keyno = cache_keyid s then cache_keylen s else word_of_int (sk_keylen (the (key_of s keyno)))))"
proof -
  obtain B F where r: "auth_rep s B F" "cache_ok s B" using assms(1) by (auto simp: auth_ok_def)
  have b: "buckets s B" using r(1) by (simp add: auth_rep_def)
  have frame: "auth_ok s' \<and> key_of s' = key_of s" if "same_store s s'" "same_cache s s'" for s'
    using same_store_ok[OF r that] .
  show ?thesis
  proof (cases "keyno = 0 \<or> keyno = cache_keyid s")
    case True
    then have "keyno = 0 \<or> usable (key_of s) keyno" using cached_usable[OF b r(2)] by auto
    then show ?thesis using True frame[of "s\<lparr>authkeylookups := authkeylookups s + 1\<rparr>"]
      by (auto simp: authhavekey_def Let_def same_store_def same_cache_def)
  next
    case False
    define s1 where "s1 = s\<lparr>authkeylookups := authkeylookups s + 1, authkeyuncached := authkeyuncached s + 1\<rparr>"
    have f: "auth_findkey keyno s1 = auth_findkey keyno s" by (simp add: auth_findkey_def s1_def)
    have h: "authhavekey keyno s = do { p \<leftarrow> auth_findkey keyno s;
                case p of None \<Rightarrow> Some (False, s1\<lparr>authkeynotfound := authkeynotfound s1 + 1\<rparr>)
                | Some sk \<Rightarrow> do {
                    k \<leftarrow> sk_heap s sk;
                    if sk_type k = 0 then Some (False, s1\<lparr>authkeynotfound := authkeynotfound s1 + 1\<rparr>)
                    else if sk_flags k AND KEY_TRUSTED = 0 then Some (False, s1\<lparr>authnokey := authnokey s1 + 1\<rparr>)
                    else Some (True, s1\<lparr>cache_keyid := sk_keyid k, cache_type := sk_type k, cache_flags := sk_flags k,
                           cache_key := Some sk, cache_keylen := word_of_int (sk_keylen k)\<rparr>)
                  } }"
      using False unfolding f[symmetric] by (simp add: authhavekey_def Let_def s1_def cong: option.case_cong if_cong)
    show ?thesis
    proof (rule findkey_cases[OF b, of keyno])
      assume m: "auth_findkey keyno s = Some None" "key_of s keyno = None"
      show ?thesis using m False frame[of "s1\<lparr>authkeynotfound := authkeynotfound s1 + 1\<rparr>"]
        by (simp add: h usable_def s1_def same_store_def same_cache_def)
    next
      fix a k
      assume a: "auth_findkey keyno s = Some (Some a)" "a \<in> set (B (KEYHASH keyno))" "sk_heap s a = Some k" "sk_keyid k = keyno"
        "key_of s keyno = Some (bare k)"
      show ?thesis
      proof (cases "sk_type k = 0 \<or> sk_flags k AND KEY_TRUSTED = 0")
        case True
        then show ?thesis using a False frame[of "s1\<lparr>authkeynotfound := authkeynotfound s1 + 1\<rparr>"] frame[of "s1\<lparr>authnokey := authnokey s1 + 1\<rparr>"]
          by (auto simp: h usable_def s1_def same_store_def same_cache_def)
      next
        case False
        define s' where "s' = s1\<lparr>cache_keyid := sk_keyid k, cache_type := sk_type k, cache_flags := sk_flags k,
                           cache_key := Some a, cache_keylen := word_of_int (sk_keylen k)\<rparr>"
        have "key_sized k" using r(1) a(3) by (auto simp: auth_rep_def sized_def)
        then have "cache_keylen s' \<le> 64" by (auto simp: s'_def key_sized_def word_le_def uint_word_of_int)
        moreover have "same_store s s'" by (simp add: same_store_def s'_def s1_def)
        ultimately have "auth_rep s' B F" "key_of s' = key_of s" using same_store_rep[OF _ r(1)] by simp_all
        moreover have "cache_ok s' B" using a(2-4) False \<open>\<not> (keyno = 0 \<or> keyno = cache_keyid s)\<close>
          by (auto simp: cache_ok_def s'_def s1_def)
        ultimately show ?thesis using a False \<open>\<not> (keyno = 0 \<or> keyno = cache_keyid s)\<close>
          by (auto simp: h usable_def auth_ok_def s'_def)
      qed
    qed
  qed
qed

definition trusted :: "(u32 \<rightharpoonup> savekey) \<Rightarrow> u32 \<Rightarrow> bool" where
  "trusted m keyno \<longleftrightarrow> (case m keyno of None \<Rightarrow> False | Some k \<Rightarrow> sk_flags k AND KEY_TRUSTED \<noteq> 0)"

lemma authistrusted_correct:
  assumes "auth_ok s"
  shows "\<exists>r s'. authistrusted keyno s = Some (r, s') \<and> auth_ok s' \<and> key_of s' = key_of s \<and>
    (keyno \<noteq> 0 \<longrightarrow> r = trusted (key_of s) keyno)"
proof -
  obtain B F where r: "auth_rep s B F" "cache_ok s B" using assms(1) by (auto simp: auth_ok_def)
  have b: "buckets s B" using r(1) by (simp add: auth_rep_def)
  have frame: "auth_ok s' \<and> key_of s' = key_of s" if "same_store s s'" "same_cache s s'" for s'
    using same_store_ok[OF r that] .
  show ?thesis
  proof (cases "keyno = cache_keyid s")
    case True
    have "cache_flags s AND KEY_TRUSTED \<noteq> 0 \<longleftrightarrow> trusted (key_of s) keyno" if n: "keyno \<noteq> 0"
    proof -
      obtain a k where a: "a \<in> set (B (KEYHASH keyno))" "sk_heap s a = Some k" "sk_keyid k = keyno"
        "cache_flags s = sk_flags k" "sk_flags k AND KEY_TRUSTED \<noteq> 0"
        using r(2) n True unfolding cache_ok_def by auto
      then have "key_of s keyno = Some (bare k)" unfolding key_of_iff[OF b] by blast
      then show ?thesis using a by (simp add: trusted_def)
    qed
    then show ?thesis using True assms(1) by (simp add: authistrusted_def)
  next
    case False
    define s1 where "s1 = s\<lparr>authkeyuncached := authkeyuncached s + 1\<rparr>"
    define s2 where "s2 = s1\<lparr>authkeynotfound := authkeynotfound s1 + 1\<rparr>"
    have fr: "auth_ok s1 \<and> key_of s1 = key_of s" "auth_ok s2 \<and> key_of s2 = key_of s"
      by (rule frame; simp add: s1_def s2_def same_store_def same_cache_def)+
    have f: "auth_findkey keyno s1 = auth_findkey keyno s" "sk_heap s1 = sk_heap s" by (simp_all add: auth_findkey_def s1_def)
    have h: "authistrusted keyno s = do { p \<leftarrow> auth_findkey keyno s;
             case p of None \<Rightarrow> Some (False, s2)
             | Some sk \<Rightarrow> do { k \<leftarrow> sk_heap s sk; if sk_flags k AND KEY_TRUSTED = 0 then Some (False, s2) else Some (True, s1) } }"
      using False unfolding f[symmetric] by (simp add: authistrusted_def Let_def s2_def cong: option.case_cong if_cong flip: s1_def)
    show ?thesis by (rule findkey_cases[OF b, of keyno]) (use fr in \<open>auto simp: h trusted_def\<close>)
  qed
qed

section \<open>Ageing\<close>

definition ids :: "auth_state \<Rightarrow> nat list \<Rightarrow> u32 set" where
  "ids s as = {n. \<exists>a\<in>set as. keyid_at s a = Some n}"

lemma ids_simps [simp]: "ids s [] = {}" "ids s (a # as) = {n. keyid_at s a = Some n} \<union> ids s as"
  by (auto simp: ids_def)

lemma ids_bucket:
  assumes "buckets s B" "key_of s n = Some k" "i < HASHSIZE"
  shows "n \<in> ids s (B i) \<longleftrightarrow> KEYHASH n = i"
proof
  assume "n \<in> ids s (B i)"
  then obtain a where "a \<in> set (B i)" "keyid_at s a = Some n" by (auto simp: ids_def)
  then show "KEYHASH n = i" using bucketsD(4)[OF assms(1,3)] by (fastforce simp: keyid_at_def)
next
  assume "KEYHASH n = i"
  then show "n \<in> ids s (B i)" using assms(2) unfolding key_of_iff[OF assms(1)] by (auto simp: ids_def keyid_at_def)
qed

definition expired :: "u64 \<Rightarrow> savekey \<Rightarrow> bool" where
  "expired now k \<longleftrightarrow> sk_lifetime k > 0 \<and> now > sk_lifetime k"

definition without_expired :: "u64 \<Rightarrow> u32 set \<Rightarrow> (u32 \<rightharpoonup> savekey) \<Rightarrow> (u32 \<rightharpoonup> savekey)" where
  "without_expired now S m = (\<lambda>n. case m n of None \<Rightarrow> None | Some k \<Rightarrow> if n \<in> S \<and> expired now k then None else Some k)"

lemma agekeys_loop_rep:
  assumes "auth_rep s B F" "cache_ok s B" "i < HASHSIZE" "B i = xs @ ys"
  shows "\<exists>s' B' F'. agekeys_loop now (first ys) s = Some s' \<and> auth_rep s' B' F' \<and> cache_ok s' B' \<and>
    key_of s' = without_expired now (ids s ys) (key_of s)"
  using assms
proof (induction ys arbitrary: s B F xs)
  case Nil
  then show ?case by (subst agekeys_loop.simps) (auto simp: without_expired_def fun_eq_iff split: option.split)
next
  case (Cons a ys)
  have b: "buckets s B" using Cons.prems(1) by (simp add: auth_rep_def)
  obtain k where k: "sk_heap s a = Some k" "KEYHASH (sk_keyid k) = i" using bucketsD(4)[OF b Cons.prems(3), of a] Cons.prems(4) by auto
  have d: "distinct (xs @ a # ys)" using bucketsD(3)[OF b Cons.prems(3)] Cons.prems(4) by simp
  have nx: "sk_next k = first ys"
    using chain_append[of "sk_heap s" _ xs a ys] bucketsD(1)[OF b Cons.prems(3)] Cons.prems(4) k(1) chain_first by force
  have ko: "key_of s (sk_keyid k) = Some (bare k)" unfolding key_of_iff[OF b] using k Cons.prems(4) by auto
  show ?case
  proof (cases "expired now k")
    case True
    obtain s1 where s1: "authtrust never_alloc now (sk_keyid k) 0 s = Some s1" "auth_rep s1 (B(KEYHASH (sk_keyid k) := xs @ ys)) (a # F)"
      "cache_ok s1 (B(KEYHASH (sk_keyid k) := xs @ ys))" "key_of s1 = (key_of s)(sk_keyid k := None)"
      "\<And>b. b \<noteq> a \<Longrightarrow> map_option bare (sk_heap s1 b) = map_option bare (sk_heap s b)"
      by (rule authtrust_delete[OF Cons.prems(1,2) _ k(1), of "sk_keyid k" xs ys never_alloc now]) (use k(2) Cons.prems(4) in auto)
    define s2 where "s2 = s1\<lparr>authkeyexpired := authkeyexpired s1 + 1\<rparr>"
    have "same_store s1 s2" by (simp add: same_store_def s2_def)
    moreover have "cache_keylen s2 \<le> 64" using s1(2) by (simp add: s2_def auth_rep_def sized_def)
    ultimately have s2: "auth_rep s2 (B(i := xs @ ys)) (a # F)" "key_of s2 = key_of s1"
      using same_store_rep[OF _ s1(2)] k(2) by simp_all
    have c2: "cache_ok s2 (B(i := xs @ ys))" using s1(3) k(2) by (simp add: cache_ok_def s2_def)
    have "keyid_at s2 b = keyid_at s b" if "b \<noteq> a" for b
      using s1(5)[OF that] by (cases "sk_heap s b"; cases "sk_heap s1 b") (auto simp: keyid_at_def s2_def dest: bare_eqD)
    moreover have "b \<noteq> a" if "b \<in> set ys" for b using d that by auto
    ultimately have "keyid_at s2 b = keyid_at s b" if "b \<in> set ys" for b using that by blast
    then have e: "ids s2 ys = ids s ys" by (simp add: ids_def)
    obtain s' B' F' where s': "agekeys_loop now (first ys) s2 = Some s'" "auth_rep s' B' F'" "cache_ok s' B'"
      "key_of s' = without_expired now (ids s ys) (key_of s2)"
      using Cons.IH[OF s2(1) c2 Cons.prems(3)] e by auto
    have "agekeys_loop now (first (a # ys)) s = Some s'"
      using s'(1) True k(1) s1(1) nx by (subst agekeys_loop.simps) (simp add: expired_def s2_def)
    moreover have "key_of s' = without_expired now (ids s (a # ys)) (key_of s)"
      using s'(4) s2(2) s1(4) ko k(1) True
      by (auto simp: without_expired_def fun_eq_iff keyid_at_def expired_def split: option.split)
    ultimately show ?thesis using s'(2,3) by blast
  next
    case False
    obtain s' B' F' where s': "agekeys_loop now (first ys) s = Some s'" "auth_rep s' B' F'" "cache_ok s' B'"
      "key_of s' = without_expired now (ids s ys) (key_of s)"
      using Cons.IH[OF Cons.prems(1-3), of "xs @ [a]"] Cons.prems(4) by auto
    have "agekeys_loop now (first (a # ys)) s = Some s'"
      using s'(1) False k(1) nx by (subst agekeys_loop.simps) (auto simp: expired_def)
    moreover have "key_of s' = without_expired now (ids s (a # ys)) (key_of s)"
      using s'(4) ko k(1) False
      by (auto simp: without_expired_def fun_eq_iff keyid_at_def expired_def split: option.split)
    ultimately show ?thesis using s'(2,3) by blast
  qed
qed

lemma auth_agekeys_correct:
  assumes "auth_ok s"
  shows "\<exists>s'. auth_agekeys now s = Some s' \<and> auth_ok s' \<and> key_of s' = without_expired now UNIV (key_of s)"
proof -
  have step: "\<exists>s'. run (\<lambda>i s. agekeys_loop now (key_hash s i) s) is s = Some s' \<and> auth_ok s' \<and>
      key_of s' = without_expired now {n. KEYHASH n \<in> set is} (key_of s)" if "auth_ok s" "set is \<subseteq> {..<HASHSIZE}" for s "is"
    using that
  proof (induction "is" arbitrary: s)
    case Nil
    then show ?case by (auto simp: without_expired_def fun_eq_iff split: option.split)
  next
    case (Cons i "is")
    obtain B F where r: "auth_rep s B F" "cache_ok s B" using Cons.prems(1) by (auto simp: auth_ok_def)
    have b: "buckets s B" using r(1) by (simp add: auth_rep_def)
    have i: "i < HASHSIZE" using Cons.prems(2) by simp
    have h: "key_hash s i = first (B i)" using chain_first[OF bucketsD(1)[OF b i]] .
    obtain s1 B' F' where s1: "agekeys_loop now (key_hash s i) s = Some s1" "auth_rep s1 B' F'" "cache_ok s1 B'"
      "key_of s1 = without_expired now (ids s (B i)) (key_of s)"
      using agekeys_loop_rep[OF r i, of "[]" "B i" now] unfolding h by auto
    have "auth_ok s1" using s1(2,3) by (auto simp: auth_ok_def)
    then obtain s' where s': "run (\<lambda>i s. agekeys_loop now (key_hash s i) s) is s1 = Some s'" "auth_ok s'"
      "key_of s' = without_expired now {n. KEYHASH n \<in> set is} (key_of s1)"
      using Cons.IH[of s1] Cons.prems(2) by auto
    have "key_of s' = without_expired now {n. KEYHASH n \<in> set (i # is)} (key_of s)"
      using s'(3) s1(4) ids_bucket[OF b _ i] by (auto simp: without_expired_def fun_eq_iff split: option.split)
    then show ?case using s1(1) s'(1,2) by simp
  qed
  have "without_expired now {n. KEYHASH n \<in> set [0..<HASHSIZE]} = without_expired now UNIV"
    by (simp add: without_expired_def)
  moreover have "set [0..<HASHSIZE] \<subseteq> {..<HASHSIZE}" by auto
  ultimately show ?thesis using step[OF assms, of "[0..<HASHSIZE]"] by (simp add: auth_agekeys_def)
qed
section \<open>Rereading the key file\<close>

definition cleared :: "savekey \<Rightarrow> savekey" where
  "cleared k = k\<lparr>sk_key := replicate 64 0, sk_lifetime := 0, sk_keylen := 0\<rparr>"

definition reread :: "u32 set \<Rightarrow> (u32 \<rightharpoonup> savekey) \<Rightarrow> (u32 \<rightharpoonup> savekey)" where
  "reread S m = (\<lambda>n. case m n of None \<Rightarrow> None
     | Some k \<Rightarrow> if n \<in> S then (if sk_flags k AND KEY_TRUSTED \<noteq> 0 then Some (cleared k) else None) else Some k)"

text \<open>The part of a chain that is looked at: up to the first key of Autokey.\<close>

definition reached :: "auth_state \<Rightarrow> nat list \<Rightarrow> nat list" where
  "reached s as = takeWhile (\<lambda>a. \<exists>n. keyid_at s a = Some n \<and> n \<le> NTP_MAXKEY) as"

lemma same_keys_keyid_at: "same_keys s s' \<Longrightarrow> keyid_at s' = keyid_at s"
  using same_keyid by blast

lemma cache_ok_delete:
  assumes "cache_ok s B" "same_keys s s'" "same_cache s s'" "sk_heap s a = Some k" "sk_flags k AND KEY_TRUSTED = 0"
    "\<And>b j. b \<noteq> a \<Longrightarrow> b \<in> set (B j) \<Longrightarrow> b \<in> set (B' j)"
  shows "cache_ok s' B'"
proof (cases "cache_keyid s = 0")
  case True
  then show ?thesis using assms(1,3) by (simp add: cache_ok_def same_cache_def)
next
  case False
  then obtain c kc where c: "c \<in> set (B (KEYHASH (cache_keyid s)))" "sk_heap s c = Some kc" "sk_keyid kc = cache_keyid s"
    "cache_key s = Some c" "cache_type s = sk_type kc" "sk_type kc \<noteq> 0" "cache_flags s = sk_flags kc" "sk_flags kc AND KEY_TRUSTED \<noteq> 0"
    using assms(1) unfolding cache_ok_def by blast
  then have "c \<noteq> a" using assms(4,5) by auto
  obtain k' where k': "sk_heap s' c = Some k'" "bare k' = bare kc" using same_keysD(1)[OF assms(2) c(2)] by auto
  show ?thesis using False c k'(1) bare_eqD[OF k'(2)] assms(3) assms(6)[OF \<open>c \<noteq> a\<close> c(1)] by (auto simp: cache_ok_def same_cache_def)
qed

lemma key_of_unlinked:
  assumes "buckets s B" "buckets s' (B(i := xs @ ys))" "same_keys s s'" "i < HASHSIZE" "B i = xs @ a # ys" "sk_heap s a = Some k"
  shows "key_of s' = (key_of s)(sk_keyid k := None)"
proof (rule key_of_delete[OF assms(1,2)])
  have i: "KEYHASH (sk_keyid k) = i" using bucketsD(4)[OF assms(1,4), of a] assms(5,6) by auto
  have d: "distinct (xs @ a # ys)" using bucketsD(3)[OF assms(1,4)] assms(5) by simp
  show no: "a \<notin> set ((B(i := xs @ ys)) j)" if "j < HASHSIZE" for j
  proof (cases "j = i")
    case False
    then show ?thesis using hash_disjoint[OF assms(1) _ _ assms(4) that, of a] assms(5) by auto
  qed (use d in simp)
  show "a \<in> set (B (KEYHASH (sk_keyid k)))" using i assms(5) by simp
  show "differ_at a (sk_keyid k) s B s' (B(i := xs @ ys))"
    unfolding differ_at_def
  proof (intro conjI allI impI ballI)
    show "b \<in> set ((B(i := xs @ ys)) j) \<longleftrightarrow> b \<in> set (B j)" if "b \<noteq> a" for b j using that assms(5) by auto
    show "keyid_at s a = Some (sk_keyid k)" using assms(6) by (simp add: keyid_at_def)
    show "keyid_at s' a = Some (sk_keyid k)" if "j < HASHSIZE" "a \<in> set ((B(i := xs @ ys)) j)" for j using no that by blast
  qed (use assms(3) in \<open>simp add: same_keys_def\<close>)
qed

lemma delkeys_loop_rep:
  assumes "auth_rep s B F" "cache_ok s B" "i < HASHSIZE" "B i = xs @ ys"
  shows "\<exists>s' B' F'. delkeys_loop (link_of i xs) (first ys) s = Some s' \<and> auth_rep s' B' F' \<and> cache_ok s' B' \<and>
    key_of s' = reread (ids s (reached s ys)) (key_of s) \<and> keyid_at s' = keyid_at s \<and> same_cache s s' \<and> (\<forall>j. j \<noteq> i \<longrightarrow> B' j = B j)"
  using assms
proof (induction ys arbitrary: s B F xs)
  case Nil
  then show ?case
    by (subst delkeys_loop.simps) (auto simp: reached_def reread_def fun_eq_iff same_cache_def split: option.split)
next
  case (Cons a ys)
  have b: "buckets s B" using Cons.prems(1) by (simp add: auth_rep_def)
  obtain k where k: "sk_heap s a = Some k" "KEYHASH (sk_keyid k) = i" using bucketsD(4)[OF b Cons.prems(3), of a] Cons.prems(4) by auto
  have nx: "sk_next k = first ys"
    using chain_append[of "sk_heap s" _ xs a ys] bucketsD(1)[OF b Cons.prems(3)] Cons.prems(4) k(1) chain_first by force
  have ko: "key_of s (sk_keyid k) = Some (bare k)" unfolding key_of_iff[OF b] using k Cons.prems(4) by auto
  have rc: "reached s (a # ys) = (if sk_keyid k \<le> NTP_MAXKEY then a # reached s ys else [])"
    using k(1) by (auto simp: reached_def keyid_at_def)
  consider (autokey) "sk_keyid k > NTP_MAXKEY" | (kept) "sk_keyid k \<le> NTP_MAXKEY" "sk_flags k AND KEY_TRUSTED \<noteq> 0"
    | (deleted) "sk_keyid k \<le> NTP_MAXKEY" "sk_flags k AND KEY_TRUSTED = 0" by fastforce
  then show ?case
  proof cases
    case autokey
    have "delkeys_loop (link_of i xs) (first (a # ys)) s = Some s"
      using autokey k(1) by (subst delkeys_loop.simps) simp
    moreover have "key_of s = reread (ids s (reached s (a # ys))) (key_of s)"
      using autokey by (auto simp: rc reread_def fun_eq_iff split: option.split)
    ultimately show ?thesis using Cons.prems(1,2) by (auto simp: same_cache_def)
  next
    case kept
    define f :: "savekey \<Rightarrow> savekey" where "f = (\<lambda>k. k\<lparr>sk_key := replicate 64 0, sk_lifetime := 0, sk_keylen := 0\<rparr>)"
    define s1 where "s1 = s\<lparr>sk_heap := (sk_heap s)(a \<mapsto> f k)\<rparr>"
    have u: "update_key a f s = Some s1" using update_key_Some[OF k(1)] by (simp add: s1_def)
    have r1: "auth_rep s1 B F"
      unfolding s1_def by (rule update_key_rep[OF Cons.prems(1) k(1)]) (simp_all add: f_def key_sized_def)
    have b1: "buckets s1 B" using r1 by (simp add: auth_rep_def)
    have d: "differ_at a (sk_keyid k) s B s1 B" using k(1) by (auto simp: differ_at_def s1_def keyid_at_def f_def)
    have ks: "key_of s1 = (key_of s)(sk_keyid k \<mapsto> bare (f k))"
      by (rule key_of_put[OF b b1 d]) (use k(2) Cons.prems(4) in \<open>simp_all add: s1_def\<close>)
    have id: "keyid_at s1 = keyid_at s" using k(1) by (auto simp: keyid_at_def s1_def f_def)
    have c1: "cache_ok s1 B"
      using Cons.prems(2) k(1) by (auto simp: cache_ok_def s1_def f_def) 
    obtain s' B' F' where s': "delkeys_loop (link_of i (xs @ [a])) (first ys) s1 = Some s'" "auth_rep s' B' F'" "cache_ok s' B'"
      "key_of s' = reread (ids s1 (reached s1 ys)) (key_of s1)" "keyid_at s' = keyid_at s1" "same_cache s1 s'" "\<forall>j. j \<noteq> i \<longrightarrow> B' j = B j"
      using Cons.IH[OF r1 c1 Cons.prems(3), of "xs @ [a]"] Cons.prems(4) by auto
    have "delkeys_loop (link_of i xs) (first (a # ys)) s = Some s'"
      using s'(1) kept k(1) nx u by (subst delkeys_loop.simps) (simp add: f_def)
    moreover have "bare (f k) = cleared (bare k)" by (cases k) (simp add: f_def cleared_def bare_def)
    then have "key_of s' = reread (ids s (reached s (a # ys))) (key_of s)"
      using s'(4) ks ko k(1) kept id
      by (auto simp: rc reread_def fun_eq_iff keyid_at_def ids_def reached_def cleared_def split: option.split)
    ultimately show ?thesis using s'(2,3,5-7) id same_trans(2)[of s s1 s'] by (auto simp: same_cache_def s1_def)
  next
    case deleted
    obtain s1 where s1: "do { s \<leftarrow> store_link (link_of i xs) (sk_next k) s; give_free a s } = Some s1"
      "auth_rep s1 (B(i := xs @ ys)) (a # F)" "same_keys s s1" "same_cache s s1"
      by (rule store_link_give_free[OF Cons.prems(1,3,4) k(1)])
    have b1: "buckets s1 (B(i := xs @ ys))" using s1(2) by (simp add: auth_rep_def)
    have id: "keyid_at s1 = keyid_at s" by (rule same_keys_keyid_at[OF s1(3)])
    have ks: "key_of s1 = (key_of s)(sk_keyid k := None)" by (rule key_of_unlinked[OF b b1 s1(3) Cons.prems(3,4) k(1)])
    have c1: "cache_ok s1 (B(i := xs @ ys))"
      by (rule cache_ok_delete[OF Cons.prems(2) s1(3,4) k(1) deleted(2)]) (use Cons.prems(4) in auto)
    have l: "load_link (link_of i xs) s1 = Some (first ys)" by (rule load_link_chain[OF b1 Cons.prems(3)]) simp
    obtain s' B' F' where s': "delkeys_loop (link_of i xs) (first ys) s1 = Some s'" "auth_rep s' B' F'" "cache_ok s' B'"
      "key_of s' = reread (ids s1 (reached s1 ys)) (key_of s1)" "keyid_at s' = keyid_at s1" "same_cache s1 s'"
      "\<forall>j. j \<noteq> i \<longrightarrow> B' j = B j"
      using Cons.IH[OF s1(2) c1 Cons.prems(3), of xs] by auto
    have "delkeys_loop (link_of i xs) (first (a # ys)) s = Some s'"
      using s'(1) deleted k(1) s1(1) l by (subst delkeys_loop.simps) (auto simp: bind_eq_Some_conv)
    moreover have "key_of s' = reread (ids s (reached s (a # ys))) (key_of s)"
      using s'(4) ks ko k(1) deleted id
      by (auto simp: rc reread_def fun_eq_iff keyid_at_def ids_def reached_def split: option.split)
    ultimately show ?thesis using s'(2,3,5-7) id same_trans(2)[OF s1(4) s'(6)] by auto
  qed
qed
lemma auth_delkeys_rep:
  assumes "auth_rep s B F" "cache_ok s B"
  shows "\<exists>s'. auth_delkeys s = Some s' \<and> auth_ok s' \<and> same_cache s s' \<and>
    key_of s' = reread (\<Union>i<HASHSIZE. ids s (reached s (B i))) (key_of s)"
proof -
  have step: "\<exists>s' B' F'. run (\<lambda>i s. delkeys_loop (Head i) (key_hash s i) s) is s = Some s' \<and> auth_rep s' B' F' \<and> cache_ok s' B' \<and>
      same_cache s s' \<and> key_of s' = reread (\<Union>i\<in>set is. ids s (reached s (B i))) (key_of s)"
    if "auth_rep s B F" "cache_ok s B" "set is \<subseteq> {..<HASHSIZE}" "distinct is" for s B F "is"
    using that
  proof (induction "is" arbitrary: s B F)
    case Nil
    then show ?case by (auto simp: reread_def fun_eq_iff same_cache_def split: option.split)
  next
    case (Cons i "is")
    have b: "buckets s B" using Cons.prems(1) by (simp add: auth_rep_def)
    have i: "i < HASHSIZE" using Cons.prems(3) by simp
    have h: "key_hash s i = first (B i)" using chain_first[OF bucketsD(1)[OF b i]] .
    obtain s1 B1 F1 where s1: "delkeys_loop (Head i) (key_hash s i) s = Some s1" "auth_rep s1 B1 F1" "cache_ok s1 B1"
      "key_of s1 = reread (ids s (reached s (B i))) (key_of s)" "keyid_at s1 = keyid_at s" "same_cache s s1" "\<forall>j. j \<noteq> i \<longrightarrow> B1 j = B j"
      using delkeys_loop_rep[OF Cons.prems(1,2) i, of "[]" "B i"] unfolding h by auto
    have same: "ids s1 (reached s1 (B1 j)) = ids s (reached s (B j))" if "j \<in> set is" for j
    proof -
      have "B1 j = B j" using s1(7) that Cons.prems(4) by auto
      then show ?thesis using s1(5) by (simp add: ids_def reached_def)
    qed
    obtain s' B' F' where s': "run (\<lambda>i s. delkeys_loop (Head i) (key_hash s i) s) is s1 = Some s'" "auth_rep s' B' F'" "cache_ok s' B'"
      "same_cache s1 s'" "key_of s' = reread (\<Union>j\<in>set is. ids s (reached s (B j))) (key_of s1)"
      using Cons.IH[OF s1(2,3)] Cons.prems(3,4) same by auto
    have "key_of s' = reread (\<Union>j\<in>set (i # is). ids s (reached s (B j))) (key_of s)"
      using s'(5) s1(4) by (auto simp: reread_def fun_eq_iff cleared_def split: option.split)
    then show ?case using s1(1) s'(1-3) same_trans(2)[OF s1(6) s'(4)] by auto
  qed
  have "set [0..<HASHSIZE] = {..<HASHSIZE}" by auto
  then show ?thesis using step[OF assms, of "[0..<HASHSIZE]"] by (auto simp: auth_delkeys_def auth_ok_def)
qed

text \<open>
  Only keys up to 65535 are touched, and all of them when there is no key of Autokey: those that are
  not trusted go, the trusted ones lose their bytes.
\<close>

definition reread_spec :: "(u32 \<rightharpoonup> savekey) \<Rightarrow> (u32 \<rightharpoonup> savekey) \<Rightarrow> bool" where
  "reread_spec m m' \<longleftrightarrow> (\<exists>S. m' = reread S m \<and> S \<subseteq> {n. n \<le> NTP_MAXKEY} \<and>
     ((\<forall>n. m n \<noteq> None \<longrightarrow> n \<le> NTP_MAXKEY) \<longrightarrow> dom m \<subseteq> S))"

lemma auth_delkeys_correct:
  assumes "auth_ok s"
  shows "\<exists>s'. auth_delkeys s = Some s' \<and> auth_ok s' \<and> same_cache s s' \<and> reread_spec (key_of s) (key_of s')"
proof -
  obtain B F where r: "auth_rep s B F" "cache_ok s B" using assms(1) by (auto simp: auth_ok_def)
  have b: "buckets s B" using r(1) by (simp add: auth_rep_def)
  let ?S = "\<Union>i<HASHSIZE. ids s (reached s (B i))"
  have le: "?S \<subseteq> {n. n \<le> NTP_MAXKEY}" by (auto simp: ids_def reached_def dest!: set_takeWhileD)
  have "dom (key_of s) \<subseteq> ?S" if low: "\<And>n. key_of s n \<noteq> None \<Longrightarrow> n \<le> NTP_MAXKEY"
  proof
    fix n assume "n \<in> dom (key_of s)"
    then obtain e where e: "key_of s n = Some e" by auto
    have "reached s (B (KEYHASH n)) = B (KEYHASH n)"
      unfolding reached_def
    proof (rule takeWhile_eq_all_conv[THEN iffD2], rule ballI)
      fix a assume a: "a \<in> set (B (KEYHASH n))"
      obtain k where k: "sk_heap s a = Some k" "KEYHASH (sk_keyid k) = KEYHASH n" using bucketsD(4)[OF b KEYHASH_less a] by auto
      have "key_of s (sk_keyid k) = Some (bare k)" unfolding key_of_iff[OF b] using a k by auto
      then show "\<exists>n. keyid_at s a = Some n \<and> n \<le> NTP_MAXKEY" using low[of "sk_keyid k"] k(1) by (auto simp: keyid_at_def)
    qed
    then have "n \<in> ids s (reached s (B (KEYHASH n)))" using ids_bucket[OF b e KEYHASH_less, of n] by simp
    then show "n \<in> ?S" using KEYHASH_less by blast
  qed
  then show ?thesis using auth_delkeys_rep[OF r] le unfolding reread_spec_def by blast
qed

text \<open>A chain that begins with a key of Autokey is left as it is, whatever follows.\<close>

lemma auth_delkeys_stops:
  assumes "auth_ok s" "key_hash s (KEYHASH n) = Some a" "sk_heap s a = Some ka" "sk_keyid ka > NTP_MAXKEY"
  shows "\<exists>s'. auth_delkeys s = Some s' \<and> auth_ok s' \<and> key_of s' n = key_of s n"
proof -
  obtain B F where r: "auth_rep s B F" "cache_ok s B" using assms(1) by (auto simp: auth_ok_def)
  have b: "buckets s B" using r(1) by (simp add: auth_rep_def)
  have "Some a = first (B (KEYHASH n))" using chain_first[OF bucketsD(1)[OF b KEYHASH_less, of n]] assms(2) by simp
  then obtain as where as: "B (KEYHASH n) = a # as" by (cases "B (KEYHASH n)") auto
  have none: "reached s (B (KEYHASH n)) = []" using as assms(3,4) by (simp add: reached_def keyid_at_def)
  have "n \<notin> (\<Union>i<HASHSIZE. ids s (reached s (B i)))" if "key_of s n = Some k" for k
  proof
    assume "n \<in> (\<Union>i<HASHSIZE. ids s (reached s (B i)))"
    then obtain i where i: "i < HASHSIZE" "n \<in> ids s (reached s (B i))" by auto
    then have "n \<in> ids s (B i)" by (auto simp: ids_def reached_def dest: set_takeWhileD)
    then have "i = KEYHASH n" using ids_bucket[OF b that i(1)] by simp
    then show False using i(2) none by simp
  qed
  then have "reread (\<Union>i<HASHSIZE. ids s (reached s (B i))) (key_of s) n = key_of s n"
    by (auto simp: reread_def split: option.split)
  then show ?thesis using auth_delkeys_rep[OF r] by auto
qed
end
