(* ===== verification/NtpAuthKeysClaims.thy ===== *)
theory NtpAuthKeysClaims
  imports NtpAuthKeysLaws
begin

text \<open>
  The key store as a machine: whatever the calls and their order, it refines a map from key numbers to
  keys. Authenticators made with a key are accepted with it. Two of its faults: rereading the key file
  leaves a removed key usable without its secret, and a key may expire with the lifetime of another.
\<close>

section \<open>Any calls in any order\<close>

datatype auth_op =
  Trust allocator u64 u32 u64
  | SetKey allocator u32 int "u8 list" int
  | HaveKey u32
  | IsTrusted u32
  | DelKeys
  | AgeKeys u64

fun auth_step :: "auth_op \<Rightarrow> auth_state \<Rightarrow> auth_state option" where
  "auth_step (Trust calloc now keyno trust) s = authtrust calloc now keyno trust s"
| "auth_step (SetKey calloc keyno keytype key len) s = MD5auth_setkey calloc keyno keytype key len s"
| "auth_step (HaveKey keyno) s = map_option snd (authhavekey keyno s)"
| "auth_step (IsTrusted keyno) s = map_option snd (authistrusted keyno s)"
| "auth_step DelKeys s = auth_delkeys s"
| "auth_step (AgeKeys now) s = auth_agekeys now s"

text \<open>The allocator hands out fresh structures and the bytes of a key are there.\<close>

fun op_ok :: "auth_op \<Rightarrow> auth_state \<Rightarrow> bool" where
  "op_ok (Trust calloc _ _ _) s \<longleftrightarrow> fresh_calloc calloc"
| "op_ok (SetKey calloc _ _ key len) s \<longleftrightarrow> fresh_calloc calloc \<and> usable_len len \<le> length key"
| "op_ok _ s \<longleftrightarrow> True"

text \<open>What an operation in a state does to the map of keys; the state only tells whether memory has run out.\<close>

fun map_step :: "auth_op \<Rightarrow> auth_state \<Rightarrow> (u32 \<rightharpoonup> savekey) \<Rightarrow> (u32 \<rightharpoonup> savekey) \<Rightarrow> bool" where
  "map_step (Trust calloc now keyno trust) s m m' \<longleftrightarrow> trust_spec (out_of_memory calloc s) now keyno trust m m'"
| "map_step (SetKey calloc keyno keytype key len) s m m' \<longleftrightarrow>
     setkey_spec (out_of_memory calloc s) keyno keytype key (usable_len len) m m'"
| "map_step DelKeys s m m' \<longleftrightarrow> reread_spec m m'"
| "map_step (AgeKeys now) s m m' \<longleftrightarrow> m' = without_expired now UNIV m"
| "map_step _ s m m' \<longleftrightarrow> m' = m"

lemma auth_step_refines:
  assumes "auth_ok s" "op_ok e s"
  shows "\<exists>s'. auth_step e s = Some s' \<and> auth_ok s' \<and> map_step e s (key_of s) (key_of s')"
proof (cases e)
  case (Trust calloc now keyno trust)
  then show ?thesis using authtrust_correct[OF assms(1), of calloc] assms(2) by simp
next
  case (SetKey calloc keyno keytype key len)
  then show ?thesis using MD5auth_setkey_correct[OF assms(1), of calloc len key] assms(2) by simp
next
  case (HaveKey keyno)
  then show ?thesis using authhavekey_correct[OF assms(1), of keyno] by auto
next
  case (IsTrusted keyno)
  then show ?thesis using authistrusted_correct[OF assms(1), of keyno] by auto
next
  case DelKeys
  then show ?thesis using auth_delkeys_correct[OF assms(1)] by auto
next
  case (AgeKeys now)
  then show ?thesis using auth_agekeys_correct[OF assms(1), of now] by auto
qed

interpretation key_store: machine auth_step op_ok auth_ok
  by unfold_locales (use auth_step_refines in blast)

lemma auth_start_ok: "auth_ok (init_auth auth_start)"
proof -
  have "auth_rep (init_auth auth_start) (\<lambda>_. []) []"
    by (simp add: auth_rep_def buckets_def free_list_def counted_def sized_def key_count_def init_auth_def auth_start_def)
  moreover have "cache_ok (init_auth auth_start) (\<lambda>_. [])" by (simp add: cache_ok_def init_auth_def auth_start_def)
  ultimately show ?thesis by (auto simp: auth_ok_def)
qed


text \<open>An allocator: the first twelve structures.\<close>

definition first_block :: allocator where
  "first_block h = (if list_all (\<lambda>a. h a = None) [0..<12] then Some 0 else None)"

lemma first_block_fresh: "fresh_calloc first_block"
  by (auto simp: fresh_calloc_def first_block_def list_all_iff MEMINC_def split: if_splits)

lemma first_block_there: "\<not> out_of_memory first_block (init_auth auth_start)"
  by (simp add: out_of_memory_def first_block_def init_auth_def auth_start_def list_all_iff)


section \<open>Authenticators\<close>

lemma frame_counters:
  assumes "auth_ok s" "same_store s s'" "same_cache s s'"
  shows "auth_ok s'" "key_of s' = key_of s"
  using assms same_store_ok by (auto simp: auth_ok_def)

text \<open>The bytes of the key that go into a digest.\<close>

definition secret :: "auth_state \<Rightarrow> u32 \<Rightarrow> u8 list" where
  "secret s keyno = (case key_of s keyno of None \<Rightarrow> []
     | Some k \<Rightarrow> take (if keyno = cache_keyid s then unat (cache_keylen s) else nat (sk_keylen k)) (sk_key k))"

lemma secret_frame:
  "key_of s' = key_of s \<Longrightarrow> cache_keyid s' = cache_keyid s \<Longrightarrow> cache_keylen s' = cache_keylen s \<Longrightarrow> secret s' n = secret s n"
  by (cases "key_of s n") (simp_all add: secret_def)

lemma key_sized_of: "auth_ok s \<Longrightarrow> key_of s n = Some k \<Longrightarrow> key_sized k"
proof -
  assume "auth_ok s" "key_of s n = Some k"
  then obtain a k0 where "sk_heap s a = Some k0" "k = bare k0" "sized s"
    by (auto simp: key_of_def auth_ok_def auth_rep_def split: option.splits)
  then show "key_sized k" by (auto simp: sized_def key_sized_def)
qed

lemma have_and_digest:
  assumes "auth_ok s" "keyno \<noteq> 0" "key_of s keyno = Some k" "sk_type k \<noteq> 0" "sk_flags k AND KEY_TRUSTED \<noteq> 0"
  obtains s' where "authhavekey keyno s = Some (True, s')" "auth_ok s'" "key_of s' = key_of s" "cache_keyid s' = keyno"
    "cache_type s' = sk_type k" "secret s' keyno = secret s keyno"
    "\<And>digest type pkt len. len \<le> length pkt \<Longrightarrow> packet_digest digest type pkt len s' = Some (digest type (secret s keyno @ take len pkt))"
proof -
  have u: "usable (key_of s) keyno" using assms(3-5) by (simp add: usable_def)
  obtain s' where s': "authhavekey keyno s = Some (True, s')" "auth_ok s'" "key_of s' = key_of s" "cache_keyid s' = keyno"
    "cache_keylen s' = (if keyno = cache_keyid s then cache_keylen s else word_of_int (sk_keylen k))"
    using authhavekey_correct[OF assms(1), of keyno] u assms(2,3) by auto
  have "cache_keyid s' \<noteq> 0" using s'(4) assms(2) by simp
  then obtain a k' where c: "cache_key s' = Some a" "sk_heap s' a = Some k'" "key_of s' keyno = Some (bare k')"
    "cache_type s' = sk_type k'" "length (sk_key k') = 64" "cache_keylen s' \<le> 64"
    using cached_key[OF s'(2)] s'(4) by metis
  have b: "bare k' = k" using c(3) s'(3) assms(3) by simp
  have kk: "sk_key k' = sk_key k" "sk_type k' = sk_type k" using b by auto
  have "key_sized k" by (rule key_sized_of[OF assms(1,3)])
  then have "unat (word_of_int (sk_keylen k) :: u32) = nat (sk_keylen k)"
    by (auto simp: key_sized_def unat_eq_nat_uint uint_word_of_int)
  then have sec: "take (unat (cache_keylen s')) (sk_key k') = secret s keyno"
    using s'(5) assms(3) kk by (simp add: secret_def)
  have "unat (cache_keylen s') \<le> 64" using c(6) by (simp add: word_le_nat_alt)
  then have d: "packet_digest digest type pkt len s' = Some (digest type (secret s keyno @ take len pkt))" if "len \<le> length pkt" for digest type pkt len
    using that c sec by (simp add: packet_digest_def)
  have "secret s' keyno = secret s keyno" using sec s'(4) c(3) by (simp add: secret_def[of s'])
  then show ?thesis using that[OF s'(1-4) _ _ d] c(4) kk by simp
qed

text \<open>The packet as it is when the digest is computed, with the key number behind it.\<close>

definition keyed :: "u32 \<Rightarrow> nat \<Rightarrow> u8 list \<Rightarrow> u8 list" where
  "keyed keyno len pkt = take (4 * (len div 4)) pkt @ htonl_bytes keyno @ drop (4 * (len div 4) + 4) pkt"

lemma keyed_simps:
  "length (htonl_bytes keyno) = 4"
  "len + 4 \<le> length pkt \<Longrightarrow> length (keyed keyno len pkt) = length pkt"
  "len + 4 \<le> n \<Longrightarrow> n \<le> length pkt \<Longrightarrow> drop n (keyed keyno len pkt) = drop n pkt"
  "len + 4 \<le> length pkt \<Longrightarrow> write_bytes (4 * (len div 4)) (htonl_bytes keyno) pkt = Some (keyed keyno len pkt)"
proof -
  have q: "4 * (len div 4) + 4 \<le> len + 4" by simp
  show h: "length (htonl_bytes keyno) = 4" by (simp add: htonl_bytes_def)
  show "len + 4 \<le> length pkt \<Longrightarrow> length (keyed keyno len pkt) = length pkt" using q by (simp add: keyed_def h)
  show "write_bytes (4 * (len div 4)) (htonl_bytes keyno) pkt = Some (keyed keyno len pkt)" if "len + 4 \<le> length pkt"
  proof -
    have "4 * (len div 4) + 4 \<le> length pkt" using q that by (rule le_trans)
    then show ?thesis by (simp add: write_bytes_def keyed_def h)
  qed
  show "drop n (keyed keyno len pkt) = drop n pkt" if "len + 4 \<le> n" "n \<le> length pkt"
  proof -
    have l: "length (take (4 * (len div 4)) pkt) = 4 * (len div 4)" using that q by simp
    have "4 * (len div 4) + 4 \<le> n" using q that(1) by (rule le_trans)
    then have "n - (4 * (len div 4)) - 4 + (4 * (len div 4) + 4) = n" by simp
    then show ?thesis using that q by (simp add: keyed_def drop_append l h)
  qed
qed

lemma authencrypt_eq:
  assumes "auth_ok s" "keyno \<noteq> 0" "key_of s keyno = Some k" "sk_type k \<noteq> 0" "sk_flags k AND KEY_TRUSTED \<noteq> 0"
    "d = digest (sk_type k) (secret s keyno @ take len (keyed keyno len pkt))" "len + 4 + length d \<le> length pkt"
  obtains s' where "authencrypt digest keyno pkt len s =
      Some (length d + 4, take (len + 4) (keyed keyno len pkt) @ d @ drop (len + 4 + length d) pkt, s')"
    "auth_ok s'" "key_of s' = key_of s" "secret s' keyno = secret s keyno"
proof -
  define s0 where "s0 = s\<lparr>authencryptions := authencryptions s + 1\<rparr>"
  have f: "auth_ok s0" "key_of s0 = key_of s"
    by (rule frame_counters[OF assms(1)]; simp add: s0_def same_store_def same_cache_def)+
  have sec: "secret s0 keyno = secret s keyno" by (rule secret_frame[OF f(2)]) (simp_all add: s0_def)
  obtain s' where s': "authhavekey keyno s0 = Some (True, s')" "auth_ok s'" "key_of s' = key_of s0" "cache_keyid s' = keyno"
    "cache_type s' = sk_type k" "secret s' keyno = secret s0 keyno"
    "\<And>digest type pkt len. len \<le> length pkt \<Longrightarrow> packet_digest digest type pkt len s' = Some (digest type (secret s0 keyno @ take len pkt))"
    by (rule have_and_digest[OF f(1) assms(2) _ assms(4,5)]) (use f(2) assms(3) in auto)
  have w: "write_bytes (4 * (len div 4)) (htonl_bytes keyno) pkt = Some (keyed keyno len pkt)"
    and l: "length (keyed keyno len pkt) = length pkt"
    and dr: "drop (len + 4 + length d) (keyed keyno len pkt) = drop (len + 4 + length d) pkt"
    using assms(7) by (simp_all add: keyed_simps)
  have "authencrypt digest keyno pkt len s =
      Some (length d + 4, take (len + 4) (keyed keyno len pkt) @ d @ drop (len + 4 + length d) pkt, s')"
    using assms(2,6,7) s'(1,5) s'(7)[of len "keyed keyno len pkt"] w l dr sec
    by (simp add: authencrypt_def Let_def MD5authencrypt_def write_bytes_def flip: s0_def)
  then show ?thesis using that s'(2,3,6) f(2) sec by simp
qed

text \<open>What is made with a usable key is accepted with it; nothing is made or accepted with any other.\<close>

theorem authenticator_round_trip:
  assumes "auth_ok s" "keyno \<noteq> 0" "\<forall>type bytes. len + 4 + length (digest type bytes) \<le> length pkt"
  shows "if usable (key_of s) keyno
     then \<exists>n pkt' s' s''. authencrypt digest keyno pkt len s = Some (n, pkt', s') \<and> n > 0 \<and>
       authdecrypt digest keyno pkt' len (int n) s' = Some (True, s'') \<and> auth_ok s'' \<and> key_of s'' = key_of s
     else (\<exists>pkt' s'. authencrypt digest keyno pkt len s = Some (0, pkt', s')) \<and>
       (\<forall>maclen. \<exists>s'. authdecrypt digest keyno pkt len maclen s = Some (False, s'))"
proof (cases "usable (key_of s) keyno")
  case True
  then obtain k where k: "key_of s keyno = Some k" "sk_type k \<noteq> 0" "sk_flags k AND KEY_TRUSTED \<noteq> 0"
    by (auto simp: usable_def split: option.splits)
  define d where "d = digest (sk_type k) (secret s keyno @ take len (keyed keyno len pkt))"
  have room: "len + 4 + length d \<le> length pkt" using assms(3) by (simp add: d_def)
  define pkt' where "pkt' = take (len + 4) (keyed keyno len pkt) @ d @ drop (len + 4 + length d) pkt"
  obtain s' where s': "authencrypt digest keyno pkt len s = Some (length d + 4, pkt', s')"
    "auth_ok s'" "key_of s' = key_of s" "secret s' keyno = secret s keyno"
    unfolding pkt'_def by (rule authencrypt_eq[where digest = digest, OF assms(1,2) k d_def room])
  define s1 where "s1 = s'\<lparr>authdecryptions := authdecryptions s' + 1\<rparr>"
  have f: "auth_ok s1" "key_of s1 = key_of s'"
    by (rule frame_counters[OF s'(2)]; simp add: s1_def same_store_def same_cache_def)+
  have sec: "secret s1 keyno = secret s keyno"
    using secret_frame[OF f(2), of keyno] s'(4) by (simp add: s1_def)
  have k1: "key_of s1 keyno = Some k" using f(2) s'(3) k(1) by simp
  obtain s2 where s2: "authhavekey keyno s1 = Some (True, s2)" "auth_ok s2" "key_of s2 = key_of s1" "cache_type s2 = sk_type k"
    "\<And>digest type pkt len. len \<le> length pkt \<Longrightarrow> packet_digest digest type pkt len s2 = Some (digest type (secret s1 keyno @ take len pkt))"
    by (rule have_and_digest[OF f(1) assms(2) k1 k(2,3)]) blast
  have l: "length (keyed keyno len pkt) = length pkt" using room by (simp add: keyed_simps)
  have t: "take len pkt' = take len (keyed keyno len pkt)" "drop (len + 4) pkt' = d @ drop (len + 4 + length d) pkt" "length pkt' = length pkt"
    using room l by (simp_all add: pkt'_def min.absorb1 min.absorb2)
  have "authdecrypt digest keyno pkt' len (int (length d + 4)) s' = Some (True, s2)"
    using assms(2) s2(1,4) s2(5)[of len pkt'] t room sec
    by (simp add: authdecrypt_def Let_def MD5authdecrypt_def d_def[symmetric] flip: s1_def)
  then show ?thesis using True s'(1) s2(2,3) f(2) s'(3) by auto
next
  case False
  have "len + 4 \<le> length pkt" using assms(3)[rule_format, of 0 "[]"] by linarith
  then have w: "\<exists>p. write_bytes (4 * (len div 4)) (htonl_bytes keyno) pkt = Some p" by (simp add: keyed_simps)
  have f: "auth_ok (s\<lparr>authencryptions := n\<rparr>)" "key_of (s\<lparr>authencryptions := n\<rparr>) = key_of s"
    "auth_ok (s\<lparr>authdecryptions := n\<rparr>)" "key_of (s\<lparr>authdecryptions := n\<rparr>) = key_of s" for n
    by (rule frame_counters[OF assms(1)]; simp add: same_store_def same_cache_def)+
  obtain s1 where s1: "authhavekey keyno (s\<lparr>authencryptions := authencryptions s + 1\<rparr>) = Some (False, s1)"
    using authhavekey_correct[OF f(1)[of "authencryptions s + 1"], of keyno] False assms(2) f(2) by auto
  obtain s2 where s2: "authhavekey keyno (s\<lparr>authdecryptions := authdecryptions s + 1\<rparr>) = Some (False, s2)"
    using authhavekey_correct[OF f(3)[of "authdecryptions s + 1"], of keyno] False assms(2) f(4) by auto
  show ?thesis using False assms(2) w s1 s2 by (auto simp: authencrypt_def authdecrypt_def Let_def)
qed

section \<open>Rereading the key file\<close>

text \<open>
  A trusted key that the new file no longer has stays usable: its digests are those of an empty key, or of
  zero bytes when it was the cached one.
\<close>

theorem removed_key_has_no_secret:
  assumes "auth_ok s" "\<forall>n. key_of s n \<noteq> None \<longrightarrow> n \<le> NTP_MAXKEY" "keyno \<noteq> 0" "key_of s keyno = Some k" "sk_type k \<noteq> 0"
    "sk_flags k AND KEY_TRUSTED \<noteq> 0" "\<forall>type bytes. len + 4 + length (digest type bytes) \<le> length pkt"
  shows "\<exists>s' n pkt' s''. auth_delkeys s = Some s' \<and> authencrypt digest keyno pkt len s' = Some (n, pkt', s'') \<and>
    take (n - 4) (drop (len + 4) pkt') =
      digest (sk_type k) (replicate (if keyno = cache_keyid s then unat (cache_keylen s) else 0) 0 @ take len (keyed keyno len pkt))"
proof -
  obtain s' where s': "auth_delkeys s = Some s'" "auth_ok s'" "same_cache s s'" "reread_spec (key_of s) (key_of s')"
    using auth_delkeys_correct[OF assms(1)] by blast
  then obtain S where S: "key_of s' = reread S (key_of s)" "keyno \<in> S"
    using assms(2,4) unfolding reread_spec_def by blast
  have k': "key_of s' keyno = Some (cleared k)" using S assms(4,6) by (simp add: reread_def)
  have sec: "secret s' keyno = replicate (if keyno = cache_keyid s then unat (cache_keylen s) else 0) 0"
  proof -
    have "cache_keylen s \<le> 64" using assms(1) by (auto simp: auth_ok_def auth_rep_def sized_def)
    then have "unat (cache_keylen s) \<le> 64" by (simp add: word_le_nat_alt)
    then show ?thesis using s'(3) by (simp add: secret_def k' cleared_def same_cache_def min_def)
  qed
  have u: "sk_type (cleared k) \<noteq> 0" "sk_flags (cleared k) AND KEY_TRUSTED \<noteq> 0" using assms(5,6) by (simp_all add: cleared_def)
  define d where "d = digest (sk_type (cleared k)) (secret s' keyno @ take len (keyed keyno len pkt))"
  have room: "len + 4 + length d \<le> length pkt" using assms(7) by (simp add: d_def)
  have l: "length (keyed keyno len pkt) = length pkt" using room by (simp add: keyed_simps)
  obtain s'' where "authencrypt digest keyno pkt len s' =
      Some (length d + 4, take (len + 4) (keyed keyno len pkt) @ d @ drop (len + 4 + length d) pkt, s'')"
    by (rule authencrypt_eq[where digest = digest, OF s'(2) assms(3) k' u d_def room])
  then show ?thesis using s'(1) room l sec by (auto simp: d_def cleared_def min_def)
qed
section \<open>Samples\<close>

text \<open>A store with one key, number 5, of type 4 and the bytes 1, 2, 3, trusted for 100 seconds.\<close>

lemma sample_store:
  "\<exists>s k. reach auth_step op_ok (init_auth auth_start) s \<and> key_of s 5 = Some k \<and> (\<forall>n. n \<noteq> 5 \<longrightarrow> key_of s n = None) \<and>
     sk_type k = 4 \<and> sk_flags k AND KEY_TRUSTED \<noteq> 0 \<and> sk_lifetime k = 100"
proof -
  let ?set = "SetKey first_block 5 4 [1, 2, 3] 3" and ?trust = "Trust first_block 0 5 100"
  have e: "key_of (init_auth auth_start) n = None" for n
    by (simp add: key_of_def auth_findkey_def init_auth_def auth_start_def find_loop.simps)
  have ok: "auth_ok (init_auth auth_start)" by (rule auth_start_ok)
  obtain s1 where s1: "auth_step ?set (init_auth auth_start) = Some s1" "auth_ok s1"
    "setkey_spec (out_of_memory first_block (init_auth auth_start)) 5 4 [1, 2, 3] 3 (key_of (init_auth auth_start)) (key_of s1)"
    using auth_step_refines[OF ok, of ?set] first_block_fresh by (auto simp: usable_len_def)
  moreover have "\<not> out_of_memory first_block (init_auth auth_start)" by (rule first_block_there)
  ultimately obtain k1 where k1: "key_of s1 = (key_of (init_auth auth_start))(5 \<mapsto> k1)" "sk_type k1 = 4"
    using e by (auto simp: setkey_spec_def)
  obtain s2 where s2: "auth_step ?trust s1 = Some s2"
    "trust_spec (out_of_memory first_block s1) 0 5 100 (key_of s1) (key_of s2)"
    using auth_step_refines[OF s1(2), of ?trust] first_block_fresh by auto
  have "reach auth_step op_ok (init_auth auth_start) s1"
    by (rule reach_next[where step = auth_step and ok = op_ok, OF reach_start _ s1(1)]) (simp add: first_block_fresh usable_len_def)
  then have "reach auth_step op_ok (init_auth auth_start) s2"
    by (rule reach_next[where step = auth_step and ok = op_ok, OF _ _ s2(1)]) (simp add: first_block_fresh)
  moreover have "(sk_flags k1 OR KEY_TRUSTED) AND KEY_TRUSTED \<noteq> 0"
  proof -
    have "bit ((sk_flags k1 OR KEY_TRUSTED) AND KEY_TRUSTED) 0" by (simp add: KEY_TRUSTED_def bit_simps)
    then show ?thesis by auto
  qed
  ultimately show ?thesis using s2(2) k1 e by (auto simp: trust_spec_def intro!: exI[of _ s2])
qed

text \<open>A digest of 16 bytes and a packet of 48 bytes with room for the authenticator.\<close>

definition toy_digest :: digests where
  "toy_digest type bytes = take 16 (bytes @ replicate 16 0)"

lemma toy_digest_room: "\<forall>type bytes. 48 + 4 + length (toy_digest type bytes) \<le> length (replicate 68 (0 :: u8))"
  by (auto simp: toy_digest_def min_def)

lemma authenticator_round_trip_witness:
  "\<exists>s n pkt' s' s''. authencrypt toy_digest 5 (replicate 68 0) 48 s = Some (n, pkt', s') \<and> n > 0 \<and>
     authdecrypt toy_digest 5 pkt' 48 (int n) s' = Some (True, s'')"
proof -
  obtain s k where s: "reach auth_step op_ok (init_auth auth_start) s" "key_of s 5 = Some k" "sk_type k = 4" "sk_flags k AND KEY_TRUSTED \<noteq> 0"
    using sample_store by blast
  have ok: "auth_ok s" by (rule key_store.reach_inv[OF s(1) auth_start_ok])
  have u: "usable (key_of s) 5" using s by (simp add: usable_def)
  have "(5 :: u32) \<noteq> 0" by simp
  from authenticator_round_trip[OF ok this toy_digest_room] u show ?thesis by (simp only: if_True) blast
qed

lemma removed_key_has_no_secret_witness:
  "\<exists>s s' n pkt' s'' L. auth_delkeys s = Some s' \<and> authencrypt toy_digest 5 (replicate 68 0) 48 s' = Some (n, pkt', s'') \<and>
     take (n - 4) (drop (48 + 4) pkt') = toy_digest 4 (replicate L 0 @ take 48 (keyed 5 48 (replicate 68 0)))"
proof -
  obtain s k where s: "reach auth_step op_ok (init_auth auth_start) s" "key_of s 5 = Some k" "\<forall>n. n \<noteq> 5 \<longrightarrow> key_of s n = None"
    "sk_type k = 4" "sk_flags k AND KEY_TRUSTED \<noteq> 0"
    using sample_store by blast
  have ok: "auth_ok s" by (rule key_store.reach_inv[OF s(1) auth_start_ok])
  have le: "\<forall>n. key_of s n \<noteq> None \<longrightarrow> n \<le> NTP_MAXKEY"
  proof (intro allI impI)
    fix n assume "key_of s n \<noteq> None"
    then have "n = 5" using s(3)[rule_format, of n] by (cases "n = 5") simp_all
    then show "n \<le> NTP_MAXKEY" by (simp add: NTP_MAXKEY_def)
  qed
  have t: "sk_type k \<noteq> 0" and five: "(5 :: u32) \<noteq> 0" using s(4) by simp_all
  from removed_key_has_no_secret[OF ok le five s(2) t s(5) toy_digest_room] show ?thesis unfolding s(4) by blast
qed

section \<open>The lifetime of another key\<close>

text \<open>
  A structure is reused with the lifetime of the key it held, when it is taken for a number that is only
  declared to be trusted: the new key, trusted for ever, expires with the old one.
\<close>

theorem reused_key_expires:
  assumes "auth_ok s" "fresh_calloc calloc" "key_of s old = Some k" "sk_lifetime k > 0" "key_of s new = None" "now > sk_lifetime k"
  shows "\<exists>s1 s2 s3. authtrust calloc t old 0 s = Some s1 \<and> authtrust calloc t new 1 s1 = Some s2 \<and> trusted (key_of s2) new \<and>
    auth_agekeys now s2 = Some s3 \<and> key_of s3 new = None"
proof -
  obtain B F where r: "auth_rep s B F" "cache_ok s B" using assms(1) by (auto simp: auth_ok_def)
  have b: "buckets s B" using r(1) by (simp add: auth_rep_def)
  obtain a ka where a: "a \<in> set (B (KEYHASH old))" "sk_heap s a = Some ka" "sk_keyid ka = old" "k = bare ka"
    using assms(3) unfolding key_of_iff[OF b] by blast
  obtain xs ys where xs: "B (KEYHASH old) = xs @ a # ys" using a(1) split_list by metis
  obtain s1 where s1: "authtrust calloc t old 0 s = Some s1" "auth_rep s1 (B(KEYHASH old := xs @ ys)) (a # F)"
    "cache_ok s1 (B(KEYHASH old := xs @ ys))" "key_of s1 = (key_of s)(old := None)"
    "map_option sk_lifetime (sk_heap s1 a) = Some (sk_lifetime ka)"
    by (rule authtrust_delete[OF r xs a(2,3), of calloc t]) blast
  let ?B = "B(KEYHASH old := xs @ ys)"
  have ok1: "auth_ok s1" using s1(2,3) by (auto simp: auth_ok_def)
  have b1: "buckets s1 ?B" using s1(2) by (simp add: auth_rep_def)
  obtain k1 where k1: "sk_heap s1 a = Some k1" "sk_lifetime k1 = sk_lifetime k" using s1(5) a(4) by auto
  have top: "authfreekeys s1 = Some a" "authnumfreekeys s1 \<noteq> 0"
    using s1(2) by (auto simp: auth_rep_def free_list_def counted_def)
  define s1' where "s1' = s1\<lparr>authfreekeys := sk_next k1, authnumfreekeys := authnumfreekeys s1 - 1\<rparr>"
  have tf: "take_free calloc s1 = Some (Some a, s1')" using top k1(1) by (simp add: take_free_def s1'_def)
  have none1: "key_of s1 new = None" using s1(4) assms(5) by simp
  have m: "auth_findkey new s1 = Some None"
    by (rule findkey_cases[OF b1, of new]) (use none1 in auto)
  define f :: "savekey \<Rightarrow> savekey" where "f = (\<lambda>k. k\<lparr>sk_keyid := new, sk_type := 0, sk_keylen := 0, sk_flags := KEY_TRUSTED\<rparr>)"
  obtain s2 where s2: "authtrust calloc t new 1 s1 = Some s2" "auth_ok s2" "key_of s2 = (key_of s1)(new \<mapsto> bare (f k1))"
  proof (rule take_free_rep[OF s1(2) assms(2)])
    assume "take_free calloc s1 = Some (None, s1)"
    then show thesis using tf by simp
  next
    fix a' k' sx F'
    assume t: "take_free calloc s1 = Some (Some a', sx)" "outside a' ?B F'" "sk_heap sx a' = Some k'" "buckets sx ?B"
      "free_list sx ?B F'" "sized sx" "authnumfreekeys sx = int (length F')" "authnumkeys sx = of_nat (key_count ?B)"
      "extends s1 sx" "same_cache s1 sx"
    have e: "a' = a" "sx = s1'" using t(1) tf by simp_all
    have kk: "k' = k1" using t(3) k1(1) unfolding e by (simp add: s1'_def)
    have c: "cache_ok sx ?B" using s1(3) t(9,10) unfolding cache_ok_def same_cache_def extends_def by metis
    have ke: "key_of sx = key_of s1" by (rule key_of_extends[OF b1 t(4,9)])
    have z: "sk_keyid (f k') = new" "key_sized (f k')" using t(3,6) by (auto simp: f_def sized_def key_sized_def)
    have ne: "key_of sx new = None" using ke none1 by simp
    obtain s2 where s2: "put_key a' new f sx = Some s2" "auth_rep s2 (?B(KEYHASH new := a' # ?B (KEYHASH new))) F'"
      "cache_ok s2 (?B(KEYHASH new := a' # ?B (KEYHASH new)))" "key_of s2 = (key_of sx)(new \<mapsto> bare (f k'))"
      by (rule put_one[where f = f, OF t(2-8) c ne z])
    have "authtrust calloc t new 1 s1 = Some s2" using m t(1) s2(1) by (simp add: authtrust_def f_def)
    moreover have "auth_ok s2" using s2(2,3) by (auto simp: auth_ok_def)
    ultimately show thesis using that s2(4) ke kk by simp
  qed
  have tr: "trusted (key_of s2) new" using s2(3) by (simp add: trusted_def f_def KEY_TRUSTED_def)
  obtain s3 where s3: "auth_agekeys now s2 = Some s3" "key_of s3 = without_expired now UNIV (key_of s2)"
    using auth_agekeys_correct[OF s2(2), of now] by blast
  have "key_of s3 new = None"
    using s2(3) s3(2) assms(4,6) k1(2) by (simp add: without_expired_def expired_def f_def)
  then show ?thesis using s1(1) s2(1) tr s3(1) by blast
qed

lemma reused_key_expires_witness:
  "\<exists>s s1 s2 s3. authtrust first_block 0 5 0 s = Some s1 \<and> authtrust first_block 0 6 1 s1 = Some s2 \<and> trusted (key_of s2) 6 \<and>
     auth_agekeys 101 s2 = Some s3 \<and> key_of s3 6 = None"
proof -
  obtain s k where s: "reach auth_step op_ok (init_auth auth_start) s" "key_of s 5 = Some k" "\<forall>n. n \<noteq> 5 \<longrightarrow> key_of s n = None" "sk_lifetime k = 100"
    using sample_store by blast
  have ok: "auth_ok s" by (rule key_store.reach_inv[OF s(1) auth_start_ok])
  show ?thesis using reused_key_expires[OF ok first_block_fresh s(2), of 6 101 0] s(3,4) by auto
qed
end
