(* ===== verification/Spec2Isabelle.thy ===== *)
theory Spec2Isabelle
  imports NtpClocktime NtpMktime NtpTimeval NtpNumbers NtpFpTextLaws EsTimerTime EsWatchAdvance EsNtpHostNames EsNtpDriverClaims EsTimeText EsCalibrator
    NtpAuthKeysClaims
begin

text \<open>
  estime keeps UTC as exactly as a phone or a watch can: it asks NTP servers for the skew of the
  device's clock, follows leap seconds, and gives applications watches, timers, a calendar and time
  zones on top of the corrected time. The repository also holds a distribution of the NTP reference
  implementation (ntpdist/), from whose library the calendar and number routines come.

  \<^bold>\<open>The parts and how they interact.\<close> All paths are under src/ of the repository.

    \<^item> \<open>ESSystemTimeBase\<close> (src/ESSystemTimeBase_*.cpp) reads the device's clocks and keeps a
      continuous time across sleep and restarts. Theory EsTimeBase: the state is \<open>timebase\<close>, one
      group of operations per variant of the file.
    \<^item> \<open>ESLeapSecond\<close> (src/ESLeapSecond.cpp) is a table of the leap seconds with a cached index.
      Theory EsLeapSecond: the cache is passed explicitly, so every query returns it updated.
    \<^item> \<open>ESTime\<close> with \<open>ESTimeSourceDriver\<close> (src/ESTime.cpp, src/ESTimeInl.hpp) is the
      time service: the drivers, the best of them, the next leap second, the observers. Theory EsTime:
      the static variables are the record \<open>estime\<close>; EsTimeLaws has its invariant and its laws,
      EsTimeText its texts and the notification next to a change of daylight saving time.
    \<^item> \<open>ESNTPDriver\<close> (src/ESNTPDriver.cpp) is the driver that asks servers. EsNtpPacket has
      a packet and the bounds one exchange gives, EsNtpHostNames the servers (src/ESNTPHostNames.cpp),
      EsNtpSocket the state \<open>ntp_driver\<close> and one socket, EsNtpDriver every event of its
      thread. It posts its results to the time service, which its state contains. EsNtpSends,
      EsNtpDriverLaws, EsNtpDriverRun and EsNtpDriverReach build the invariant, EsNtpDriverClaims what
      follows.
    \<^item> \<open>ESTimer\<close> (src/ESTimer.cpp) fires timers from a thread of its own and is told by an
      observer when the time is corrected. EsTimer has the operations over a heap of timers and the
      messages in flight, EsTimerProtocol the interleavings, EsTimerTime the two components together.
    \<^item> \<open>ESCalendar\<close> (src/ESCalendar.cpp, src/ESCalendar_simpleTZ.cpp) converts between seconds
      and dates of the hybrid Julian and Gregorian calendar, in UTC (EsCalendar) and in a time zone
      (EsLocalTime). \<open>ESTimeEnvironment\<close> (EsTimeEnvironment) holds a zone and a cache of
      midnights, \<open>ESWatchTime\<close> a watch of any speed: EsWatchTime its state and conversions,
      EsWatchHands what it shows, EsWatchAdvance the steps of its buttons.
    \<^item> \<open>ESTimeCalibrator\<close> (src/ESTimeCalibrator.cpp) records the skew of every
      synchronisation for a regression. Theory EsCalibrator.
    \<^item> ntpdist/include/ntp_fp.h and ntpdist/libntp: 64-bit time stamps (NtpFixedPoint), dates of time
      stamps (NtpCalendar), the year of a radio clock reading (NtpClocktime), \<open>mktime\<close> and
      printed dates (NtpMktime), fractions of a second by table (NtpTimeval), integers in text
      (NtpNumbers), fixed-point numbers in text (NtpFpText, with its laws in NtpFpTextLaws), and the store
      of authentication keys (authkeys.c and their use in a_md5encrypt.c): NtpAuthKeys its structures in
      an explicit store and its operations, NtpAuthKeysLaws the chains as lists and each operation on
      them, NtpAuthKeysClaims any sequence of operations and the authenticators.

  NtpPrelude, CStrings, CNumbers, EsTypes and EsMachine are the prelude: C integers as words, C strings
  and the parts of \<open>printf\<close> and \<open>scanf\<close> the code uses, the types every part shares,
  and runs of components that react to events.

  \<^bold>\<open>How the code is modelled.\<close> A C or C++ structure is a record with its fields, static variables are
  the record of their file, an operation takes the state and returns it. A failed \<open>assert\<close> or
  \<open>ESAssert\<close>, a read of freed memory and a store outside an array are \<^const>\<open>None\<close>: a
  theorem that a result is \<^const>\<open>Some\<close> says that no such thing happens. Integers of libntp are
  words of their width (LP64) with the wrap-around of C, but for the fields of \<open>struct tm\<close> and a few
  \<open>int\<close> parameters, which are integers; the time library computes with doubles that
  hold seconds, and these are exact reals here, so its theorems hold of the code up to rounding: times
  by some microseconds in our centuries. Where a floor follows, a rounding may also change the unit:
  \<open>ESCalendar_UTCComponentsFromTimeInterval\<close> reads about a third of the whole hours as the minute
  before with 59.99999 seconds, so the model claims of it that its components stand for the time, not
  which of these two it gives. Counters and years that grow without limit are integers.
  Pointers to shared objects (timers, zones, observers) are addresses of an explicit store.

  What the sources do not hold is an argument: the readings of the clocks, what a time zone of the
  operating system answers, the network and the resolver, \<open>ESUtil::fmod\<close>, the locale, the
  regression class, \<open>localtime\<close> and \<open>gmtime\<close>. Theorems that rest on one of them name
  what they rely on as a hypothesis and have a witness with a concrete instance.

  \<^bold>\<open>What the lemmas show.\<close>

    \<^item> The time service never fails an assertion from its start on (\<open>machine\<close> in EsMachine is
      the contract of an invariant that every step keeps, interpreted for the service in EsTimeLaws and
      for the NTP driver in EsNtpDriverReach); corrected time never runs back except at a leap
      second; conversions are inverse except in the repeated second.
    \<^item> The NTP driver, under the assumptions below and else under any events in any order, never fails an
      assertion (two theorems show what fails when one of them is dropped: a stop without a
      synchronisation, a start without any names). When its servers are honest its report is within its
      own error of the truth once it is another than the one restored from the preferences, and status
      Synchronized always means 0.16 s; a synchronisation ends.
    \<^item> No interleaving of the timer threads reads a freed timer, and no released timer is forgotten.
      The queue of timers has the contract \<open>timer_queue\<close>.
    \<^item> The table of leap seconds has the contract \<open>leap_source\<close>: whatever the cache holds, the
      binary search gives the count of the events.
    \<^item> Dates and seconds are inverse for every valid date of the hybrid calendar, also in zones with a
      change near the date; the search for a change ends and finds one that stands alone for two months,
      and misses shorter periods; midnights are right whatever queries since the clearing have left in
      the cache, as long as no midnight near them is skipped.
    \<^item> The 16-bit halves of the fixed-point macros compute the 64-bit ring (contract
      \<open>fixed_point\<close>); \<open>caljulian\<close> and \<open>clocktime\<close> (over the contract
      \<open>year_starts\<close> of a cache of year starts) find the right date and year;
      with a 64-bit \<open>time_t\<close> the search of \<open>timegm\<close> reads the NULL that \<open>gmtime\<close> gives for years
      beyond an \<open>int\<close>.
    \<^item> The store of keys acts as a map from numbers to keys, whatever its chains, free list and cache
      hold (contract \<open>machine\<close>); an authenticator made with a key is accepted with it; a key removed from
      the file stays usable with an empty secret.
    \<^item> The printers of fixed-point numbers are compared with \<open>fixed_text\<close>, the text of a rounded
      number, and what they print is read back to within two units; the readers of integers accept
      exactly the numbers below their limit (contract \<open>number_scan\<close>); microseconds survive the
      tables of both directions.
    \<^item> Where the code does not do what it means to, the failing behaviour is a theorem of kind error.

  \<^bold>\<open>Bounds and fuel.\<close> The binary search for a change of daylight saving time has the bound of 100
  rounds of its assertion, over at most 60 days, and slow_way_finds_change shows that it
  never reaches it; the loop that backs up has the 2 rounds of its code. The search of \<open>time2\<close>
  recurs on the 63 bits of a \<open>time_t\<close>, the recursion of \<open>sendPacket\<close> on the measure
  \<open>send_rank\<close>, the reading of calibration data on the length of the text. The pass of the timers, the
  iterator over hosts and the walk to an earlier year are \<open>partial_function\<close>s, so that not ending is
  \<^const>\<open>None\<close>, with theorems that they end. The loop of the week of a year takes its fuel as an argument.
  Every other loop is a structural recursion.

  \<^bold>\<open>Assumptions of the interleavings.\<close> One event of the NTP driver reads the clock once. Messages
  between two threads arrive in the order they were sent. The priority queue of sockets is a list from
  which a least element is taken. The theorems on the driver assume of the start and the events
  (\<open>ntp_begins\<close>, \<open>ntp_allowed\<close>, \<open>env_ok\<close>)

    \<^item> that the pool is enabled or the user has a list of servers, at the start and after each change
      (start_without_names_asserts shows the other case);
    \<^item> that the precision byte of an answer is below 32, so that the shift is defined;
    \<^item> that a call to stop is handled while a synchronisation runs (stop_message_asserts_without_sync
      shows the other case);
    \<^item> that the addresses of the resolver fit \<open>sockaddr_storage\<close>;
    \<^item> that polling is asked for only in polling mode and that mode is not left;
    \<^item> that the clock reads neither 0 nor an absurd time, and that the other threads set no absurd skew and
      not the skew or status of this driver;
    \<^item> for the truth of its reports, that accepted answers come from honest servers and that the true skew
      is below 10^9 s. The report it starts with is restored from the preferences and may be false.

  The driver's queue gives a least element of the round trip times, where the heap of the code can have a
  stale order; no theorem depends on which one it gives.

  \<^bold>\<open>Not modelled.\<close>

    \<^item> The Objective-C files (src/*.mm), the Java files and the JNI glue (src/ES*_android.cpp apart from
      \<open>tzOffsetAfterNextDSTChange\<close>): they pass calls on to the operating system.
    \<^item> src/ESPoolHostSurvey.cpp: a list of addresses that is compiled only for a survey.
    \<^item> src/ESXGPS150TimeDriver.cpp: empty methods; its work is in Objective-C.
    \<^item> Of ESWatchTime.cpp the two functions that print an offset and a speed with \<open>%g\<close>, the dump and the
      messages; of ESNTPDriver.cpp destructors, printing, the branch for the survey and the call of the calibrator
      with \<open>ES_TRIPLEBASE\<close>.
    \<^item> Of libntp the reading of key files and the message digests, sockets and their addresses, options, logging,
      random numbers, the state tables and the replacements of system functions.
    \<^item> ntpdist outside libntp: the daemon with its reference clocks, configuration and cryptography, its
      tools, libopts, libparse, sntp and the ISC library. The library does not build or call them; they are
      a distribution that is kept for reference.
\<close>

end
